(* ===== verification/Prelude.thy ===== *)
theory Prelude
  imports Complex_Main "HOL-Library.Sublist" "HOL-Library.Char_ord" "HOL-Library.List_Lexorder"
begin

section \<open>Shared vocabulary: Python strings, numbers, slices and results\<close>

text \<open>
  What every component of the model shares.

  A Python \<open>str\<close> is a \<open>string\<close>, one \<open>char\<close> per code point. The 256 characters of the type
  are the code points U+0000 to U+00FF, except that seventeen code points outside this range, which
  occur in literals of the source, are given places in the C1 control block, which the source
  does not use: U+26A0 (warning sign) is 0x80, U+FE0F (variation selector) is 0x81, U+2014
  (em dash) is 0x82, U+2026 (ellipsis) is 0x83, the four curved quotes U+201C, U+201D, U+2018
  and U+2019 are 0x84, 0x86, 0x87 and 0x88, U+2013 (en dash) is 0x89, U+2502 and U+2500 (box drawing) are
  0x8A and 0x8C, U+2022 (bullet) is 0x8B, U+2713 (check mark) is 0x8D, and the ideographic
  and fullwidth marks U+3002, U+3001, U+FF01 and U+FF1F are 0x8E, 0x8F, 0x90 and 0x91. The renaming is injective, so lengths and
  comparisons are those of the code points. Python's \<open>int\<close> is \<open>int\<close>; a Python \<open>float\<close> is a
  \<open>real\<close>, without its rounding; \<open>time.time()\<close> and \<open>time.monotonic()\<close> are arguments.
\<close>

named_theorems shrink_laws "how an operation changes the length of a text"
named_theorems keep_laws "what an operation leaves unchanged"

subsection \<open>Results\<close>

text \<open>The exceptions that the modelled code can raise and does not catch itself.\<close>

datatype py_error =
    TypeError
  | ValueError
  | ValidationError
  | IndexError
  | ContextWindowTooSmallError
  | ApprovalAuthError
  | AttributeError
  | KeyError
  | ForeignError string

text \<open>\<open>bind_err r f\<close> goes on with the value of \<open>r\<close>, or passes its error on.\<close>

fun bind_err :: "'e + 'a \<Rightarrow> ('a \<Rightarrow> 'e + 'b) \<Rightarrow> 'e + 'b" where
  "bind_err (Inl e) f = Inl e"
| "bind_err (Inr x) f = f x"

text \<open>
  \<open>gather f xs\<close> applies an operation that may raise to every element, stops at the first error,
  and adds up the counts the operation reports.
\<close>

fun gather :: "('a \<Rightarrow> 'e + ('b \<times> int)) \<Rightarrow> 'a list \<Rightarrow> 'e + ('b list \<times> int)" where
  "gather f [] = Inr ([], 0)"
| "gather f (x # xs) =
    bind_err (f x) (\<lambda>(y, d). bind_err (gather f xs) (\<lambda>(ys, d'). Inr (y # ys, d + d')))"

subsection \<open>Characters and strings\<close>

abbreviation ch :: "char \<Rightarrow> nat" where
  "ch c \<equiv> of_char c"

definition is_space :: "char \<Rightarrow> bool" where
  "is_space c \<longleftrightarrow>
     (let n = ch c in (9 \<le> n \<and> n \<le> 13) \<or> (28 \<le> n \<and> n \<le> 32) \<or> n = 133 \<or> n = 160)"

text \<open>\<open>\w\<close> of a regular expression on the 256 characters.\<close>

definition is_word :: "char \<Rightarrow> bool" where
  "is_word c \<longleftrightarrow>
     (let n = ch c
      in (48 \<le> n \<and> n \<le> 57) \<or> (65 \<le> n \<and> n \<le> 90) \<or> n = 95 \<or> (97 \<le> n \<and> n \<le> 122) \<or>
         n \<in> {170, 178, 179, 181, 185, 186, 188, 189, 190} \<or>
         (192 \<le> n \<and> n \<noteq> 215 \<and> n \<noteq> 247))"

definition lower_char :: "char \<Rightarrow> char" where
  "lower_char c =
     (let n = ch c
      in if (65 \<le> n \<and> n \<le> 90) \<or> (192 \<le> n \<and> n \<le> 222 \<and> n \<noteq> 215) then char_of (n + 32) else c)"

definition lower :: "string \<Rightarrow> string" where
  "lower s = map lower_char s"

definition lstrip :: "string \<Rightarrow> string" where
  "lstrip s = dropWhile is_space s"

definition rstrip :: "string \<Rightarrow> string" where
  "rstrip s = rev (dropWhile is_space (rev s))"

definition strip :: "string \<Rightarrow> string" where
  "strip s = rstrip (lstrip s)"

definition blank :: "string \<Rightarrow> bool" where
  "blank s \<longleftrightarrow> list_all is_space s"

text \<open>\<open>contains p s\<close> is Python's \<open>p in s\<close> on strings.\<close>

fun contains :: "string \<Rightarrow> string \<Rightarrow> bool" where
  "contains p [] \<longleftrightarrow> p = []"
| "contains p (c # s) \<longleftrightarrow> prefix p (c # s) \<or> contains p s"

definition newline :: string where
  "newline = [CHR 0x0A]"

text \<open>\<open>join sep xs\<close> is \<open>sep.join(xs)\<close>.\<close>

fun join :: "string \<Rightarrow> string list \<Rightarrow> string" where
  "join sep [] = []"
| "join sep [x] = x"
| "join sep (x # y # xs) = x @ sep @ join sep (y # xs)"

text \<open>\<open>split_on c s\<close> is \<open>s.split(c)\<close> for a one-character separator.\<close>

fun split_on :: "char \<Rightarrow> string \<Rightarrow> string list" where
  "split_on c [] = [[]]"
| "split_on c (x # xs) =
     (if x = c then [] # split_on c xs
      else (case split_on c xs of [] \<Rightarrow> [[x]] | y # ys \<Rightarrow> (x # y) # ys))"

text \<open>\<open>split_ws s\<close> is \<open>s.split()\<close>: maximal runs of characters that are not white space.\<close>

fun split_ws_acc :: "string \<Rightarrow> string \<Rightarrow> string list" where
  "split_ws_acc acc [] = (if acc = [] then [] else [rev acc])"
| "split_ws_acc acc (c # s) =
     (if is_space c then (if acc = [] then split_ws_acc [] s else rev acc # split_ws_acc [] s)
      else split_ws_acc (c # acc) s)"

definition split_ws :: "string \<Rightarrow> string list" where
  "split_ws s = split_ws_acc [] s"

subsection \<open>Slices and searches\<close>

text \<open>\<open>slice_to n xs\<close> is \<open>xs[:n]\<close> and \<open>slice_from n xs\<close> is \<open>xs[n:]\<close>, negative bounds included.\<close>

definition slice_index :: "int \<Rightarrow> 'a list \<Rightarrow> nat" where
  "slice_index n xs = (if 0 \<le> n then nat n else nat (int (length xs) + n))"

definition slice_to :: "int \<Rightarrow> 'a list \<Rightarrow> 'a list" where
  "slice_to n xs = take (slice_index n xs) xs"

definition slice_from :: "int \<Rightarrow> 'a list \<Rightarrow> 'a list" where
  "slice_from n xs = drop (slice_index n xs) xs"

text \<open>
  \<open>find_char c s i\<close> is \<open>s.find(c, i)\<close> and \<open>rfind_char c s j\<close> is \<open>s.rfind(c, 0, j)\<close> for a
  one-character string: the index, or \<open>-1\<close>.
\<close>

fun index_of :: "char \<Rightarrow> string \<Rightarrow> nat option" where
  "index_of c [] = None"
| "index_of c (x # xs) = (if x = c then Some 0 else map_option Suc (index_of c xs))"

definition find_char :: "char \<Rightarrow> string \<Rightarrow> int \<Rightarrow> int" where
  "find_char c s i =
     (case index_of c (slice_from i s) of None \<Rightarrow> -1 | Some k \<Rightarrow> int (slice_index i s + k))"

definition rfind_char :: "char \<Rightarrow> string \<Rightarrow> int \<Rightarrow> int" where
  "rfind_char c s j =
     (case index_of c (rev (slice_to j s)) of
        None \<Rightarrow> -1 | Some k \<Rightarrow> int (length (slice_to j s)) - 1 - int k)"

subsection \<open>Numbers\<close>

text \<open>\<open>py_int x\<close> is \<open>int(x)\<close> on a float: truncation towards zero.\<close>

definition py_int :: "real \<Rightarrow> int" where
  "py_int x = (if 0 \<le> x then \<lfloor>x\<rfloor> else \<lceil>x\<rceil>)"

definition digit_char :: "nat \<Rightarrow> char" where
  "digit_char d = char_of (48 + d)"

function show_nat :: "nat \<Rightarrow> string" where
  "show_nat n = (if n < 10 then [digit_char n] else show_nat (n div 10) @ [digit_char (n mod 10)])"
  by pat_completeness auto
termination
  by (relation "measure id") auto

declare show_nat.simps [simp del]

definition show_int :: "int \<Rightarrow> string" where
  "show_int i = (if i < 0 then ''-'' @ show_nat (nat (- i)) else show_nat (nat i))"

subsection \<open>Association lists as dictionaries\<close>

text \<open>
  A dictionary whose insertion order matters is an association list; \<open>dict_set\<close> is
  \<open>d[k] = v\<close>: an existing key keeps its place, a new one goes to the end.
\<close>

fun dict_set :: "'k \<Rightarrow> 'v \<Rightarrow> ('k \<times> 'v) list \<Rightarrow> ('k \<times> 'v) list" where
  "dict_set k v [] = [(k, v)]"
| "dict_set k v ((k', v') # d) = (if k' = k then (k, v) # d else (k', v') # dict_set k v d)"

definition dict_pop :: "'k \<Rightarrow> ('k \<times> 'v) list \<Rightarrow> ('k \<times> 'v) list" where
  "dict_pop k d = filter (\<lambda>kv. fst kv \<noteq> k) d"

subsection \<open>Walks\<close>

text \<open>A walk is a list of states, each reached from the one before by a partial step.\<close>

fun walk :: "('s \<Rightarrow> 's option) \<Rightarrow> 's \<Rightarrow> 's list \<Rightarrow> bool" where
  "walk f s [] \<longleftrightarrow> True"
| "walk f s (t # ts) \<longleftrightarrow> f s = Some t \<and> walk f t ts"

text \<open>
  A step whose rank falls can be taken only as often as the rank allows. This is the interface
  between the failover walk, which chooses the next model, and the run loop, which relies on the
  walk coming to an end.
\<close>

locale ranked_step =
  fixes advance :: "'s \<Rightarrow> 's option"
    and good :: "'s \<Rightarrow> bool"
    and rank :: "'s \<Rightarrow> nat"
  assumes advance_good: "good s \<Longrightarrow> advance s = Some t \<Longrightarrow> good t"
    and advance_rank: "good s \<Longrightarrow> advance s = Some t \<Longrightarrow> rank t < rank s"
begin

lemma walk_length: "good s \<Longrightarrow> walk advance s ts \<Longrightarrow> length ts \<le> rank s"
proof (induction ts arbitrary: s)
  case Nil
  then show ?case by simp
next
  case (Cons t ts)
  then have "good t" and "rank t < rank s" and "walk advance t ts"
    using advance_good advance_rank by auto
  with Cons.IH [of t] show ?case by simp
qed

lemma walk_good: "good s \<Longrightarrow> walk advance s ts \<Longrightarrow> t \<in> set ts \<Longrightarrow> good t"
  by (induction ts arbitrary: s) (auto dest: advance_good)

lemma walk_distinct_rank:
  "good s \<Longrightarrow> walk advance s ts \<Longrightarrow> t \<in> set ts \<Longrightarrow> rank t < rank s"
proof (induction ts arbitrary: s)
  case Nil
  then show ?case by simp
next
  case (Cons u ts)
  then have u: "good u" "rank u < rank s" "walk advance u ts"
    using advance_good advance_rank by auto
  show ?case
  proof (cases "t = u")
    case True
    with u show ?thesis by simp
  next
    case False
    with Cons.prems have "t \<in> set ts" by simp
    with Cons.IH [OF u(1,3)] u(2) show ?thesis by simp
  qed
qed

lemma walk_never_returns: "good s \<Longrightarrow> walk advance s ts \<Longrightarrow> s \<notin> set ts"
  using walk_distinct_rank by blast

end

subsection \<open>Characters for the evaluator\<close>

text \<open>
  The character functions once more, on the eight bits of a character: the equations with which
  \<open>code_simp\<close> evaluates them. \<open>letter_low\<close> says that five low bits are those of a letter.
\<close>

definition letter_low :: "bool \<Rightarrow> bool \<Rightarrow> bool \<Rightarrow> bool \<Rightarrow> bool \<Rightarrow> bool" where
  "letter_low b0 b1 b2 b3 b4 \<longleftrightarrow> (b0 \<or> b1 \<or> b2 \<or> b3 \<or> b4) \<and> \<not> (b4 \<and> b3 \<and> (b2 \<or> (b1 \<and> b0)))"

lemma lower_char_code [code]:
  "lower_char (Char b0 b1 b2 b3 b4 b5 b6 b7) =
    Char b0 b1 b2 b3 b4
      (b5 \<or> (b6 \<and> (if b7 then \<not> (b0 \<and> b1 \<and> b2 \<and> \<not> b3 \<and> b4) \<and> \<not> (b0 \<and> b1 \<and> b2 \<and> b3 \<and> b4)
                  else letter_low b0 b1 b2 b3 b4)))
      b6 b7"
  by (cases b0; cases b1; cases b2; cases b3; cases b4; cases b5; cases b6; cases b7;
      simp add: lower_char_def letter_low_def char_of_def bit_Suc_0_iff)

lemma is_space_code [code]:
  "is_space (Char b0 b1 b2 b3 b4 b5 b6 b7) \<longleftrightarrow>
    \<not> b6 \<and>
    (if b7 then (b0 \<and> \<not> b1 \<and> b2 \<and> \<not> b3 \<and> \<not> b4 \<and> \<not> b5) \<or> (\<not> b0 \<and> \<not> b1 \<and> \<not> b2 \<and> \<not> b3 \<and> \<not> b4 \<and> b5)
     else if b5 then \<not> b0 \<and> \<not> b1 \<and> \<not> b2 \<and> \<not> b3 \<and> \<not> b4
     else if b4 then b3 \<and> b2
     else b3 \<and> (b0 \<or> b1 \<or> b2) \<and> \<not> (b1 \<and> b2))"
  by (cases b0; cases b1; cases b2; cases b3; cases b4; cases b5; cases b6; cases b7;
      simp add: is_space_def)

lemma is_word_code [code]:
  "is_word (Char b0 b1 b2 b3 b4 b5 b6 b7) \<longleftrightarrow>
    (if b7
     then (if b6 then \<not> (b0 \<and> b1 \<and> b2 \<and> \<not> b3 \<and> b4)
           else b5 \<and> (if b4 then (b3 \<and> \<not> (b2 \<and> b1 \<and> b0) \<and> (b0 \<or> b1 \<or> b2) \<and> \<not> (\<not> b2 \<and> b1 \<and> b0)) \<or>
                                  (\<not> b3 \<and> (if b2 then b0 \<and> \<not> b1 else b1))
                       else b3 \<and> b1 \<and> \<not> b0 \<and> \<not> b2))
     else if b6 then letter_low b0 b1 b2 b3 b4 \<or> (\<not> b5 \<and> b0 \<and> b1 \<and> b2 \<and> b3 \<and> b4)
     else b5 \<and> b4 \<and> (b3 \<longrightarrow> \<not> b1 \<and> \<not> b2))"
  by (cases b0; cases b1; cases b2; cases b3; cases b4; cases b5; cases b6; cases b7;
      simp add: is_word_def letter_low_def)
subsection \<open>Lemmas\<close>

lemma bind_err_Inr: "bind_err r f = Inr y \<longleftrightarrow> (\<exists>x. r = Inr x \<and> f x = Inr y)"
  by (cases r) auto

lemma bind_err_Inl: "bind_err r f = Inl e \<longleftrightarrow> r = Inl e \<or> (\<exists>x. r = Inr x \<and> f x = Inl e)"
  by (cases r) auto

lemma gather_Cons_Inr:
  "gather f (x # xs) = Inr (zs, n) \<longleftrightarrow>
     (\<exists>y d ys d'. f x = Inr (y, d) \<and> gather f xs = Inr (ys, d') \<and> zs = y # ys \<and> n = d + d')"
  by (auto simp: bind_err_Inr)

lemma gather_append:
  "gather f (xs @ ys) = Inr (zs, n) \<Longrightarrow>
   \<exists>as a bs b. gather f xs = Inr (as, a) \<and> gather f ys = Inr (bs, b) \<and> zs = as @ bs"
  by (induction xs arbitrary: zs n) (fastforce simp: bind_err_Inr)+

lemma gather_all2:
  "gather f xs = Inr (ys, n) \<Longrightarrow> list_all2 (\<lambda>x y. \<exists>d. f x = Inr (y, d)) xs ys"
  by (induction xs arbitrary: ys n) (auto simp: bind_err_Inr)

lemma gather_in:
  "gather f xs = Inr (ys, n) \<Longrightarrow> y \<in> set ys \<Longrightarrow> \<exists>x \<in> set xs. \<exists>d. f x = Inr (y, d)"
proof (induction xs arbitrary: ys n)
  case Nil
  then show ?case by simp
next
  case (Cons x xs)
  then show ?case unfolding gather_Cons_Inr by fastforce
qed

lemma gather_count:
  assumes "gather f xs = Inr (ys, n)"
    and "\<And>x y d. x \<in> set xs \<Longrightarrow> f x = Inr (y, d) \<Longrightarrow> d = size_in x - size_out y"
  shows "n = sum_list (map size_in xs) - sum_list (map size_out ys)"
  using assms
proof (induction xs arbitrary: ys n)
  case Nil
  then show ?case by simp
next
  case (Cons x xs)
  then obtain y d zs d' where s: "f x = Inr (y, d)" "gather f xs = Inr (zs, d')"
    "ys = y # zs" "n = d + d'"
    unfolding gather_Cons_Inr by blast
  have "d' = sum_list (map size_in xs) - sum_list (map size_out zs)"
    by (rule Cons.IH [OF s(2)]) (use Cons.prems(2) in auto)
  moreover have "d = size_in x - size_out y" using Cons.prems(2) s(1) by simp
  ultimately show ?case using s by simp
qed

lemma gather_again:
  assumes "gather f xs = Inr (ys, n)"
    and "\<And>x y d. f x = Inr (y, d) \<Longrightarrow> f y = Inr (y, 0)"
  shows "gather f ys = Inr (ys, 0)"
  using assms(1)
proof (induction xs arbitrary: ys n)
  case Nil
  then show ?case by simp
next
  case (Cons x xs)
  then show ?case unfolding gather_Cons_Inr using assms(2) by fastforce
qed

lemma gather_error:
  "(\<exists>e. gather f xs = Inl e) \<longleftrightarrow> (\<exists>x \<in> set xs. \<exists>e. f x = Inl e)"
proof (induction xs)
  case Nil
  then show ?case by simp
next
  case (Cons x xs)
  then show ?case
    by (cases "f x"; cases "gather f xs") (auto split: prod.splits)
qed

lemma contains_iff_sublist: "contains p s \<longleftrightarrow> sublist p s"
proof (induction s)
  case Nil
  show ?case by simp
next
  case (Cons c s)
  then show ?case by (simp add: sublist_Cons_right)
qed

lemma contains_append_left [intro]: "contains p s \<Longrightarrow> contains p (s @ t)"
  unfolding contains_iff_sublist sublist_def by (metis append.assoc)

lemma contains_append_right [intro]: "contains p t \<Longrightarrow> contains p (s @ t)"
  unfolding contains_iff_sublist sublist_def by (metis append.assoc)

lemma contains_refl [simp]: "contains p p"
  by (simp add: contains_iff_sublist)

lemma length_lower [simp]: "length (lower s) = length s"
  by (simp add: lower_def)

lemma lower_append [simp]: "lower (s @ t) = lower s @ lower t"
  by (simp add: lower_def)

lemma strip_Nil [simp]: "strip [] = []"
  by (simp add: strip_def lstrip_def rstrip_def)

lemma length_lstrip: "length (lstrip s) \<le> length s"
  by (simp add: lstrip_def length_dropWhile_le)

lemma length_rstrip: "length (rstrip s) \<le> length s"
  using length_dropWhile_le [of is_space "rev s"] by (simp add: rstrip_def)

lemma length_strip: "length (strip s) \<le> length s"
  unfolding strip_def using length_rstrip [of "lstrip s"] length_lstrip [of s] by linarith

lemma strip_eq_Nil_iff: "strip s = [] \<longleftrightarrow> blank s"
proof
  assume a: "strip s = []"
  have "\<forall>x \<in> set (lstrip s). is_space x"
    using a by (simp add: strip_def rstrip_def)
  then have "\<forall>x \<in> set s. is_space x"
    unfolding lstrip_def by (metis hd_dropWhile dropWhile_eq_Nil_conv hd_in_set)
  then show "blank s" by (simp add: blank_def list_all_iff)
next
  assume "blank s"
  then have "lstrip s = []" by (simp add: blank_def lstrip_def list_all_iff)
  then show "strip s = []" by (simp add: strip_def rstrip_def)
qed

lemma join_Cons: "join sep (x # xs) = (if xs = [] then x else x @ sep @ join sep xs)"
  by (cases xs) simp_all

lemma split_on_ne [simp]: "split_on c s \<noteq> []"
  by (cases s) (auto split: list.splits)

lemma split_on_append: "split_on c (s @ c # t) = split_on c s @ split_on c t"
proof (induction s)
  case Nil
  show ?case by simp
next
  case (Cons x s)
  then show ?case by (cases "split_on c s") auto
qed

lemma join_split_on [simp]: "join [c] (split_on c s) = s"
  by (induction s) (auto simp: join_Cons split: list.splits)

lemma join_append:
  "xs \<noteq> [] \<Longrightarrow> ys \<noteq> [] \<Longrightarrow> join sep (xs @ ys) = join sep xs @ sep @ join sep ys"
  by (induction xs) (auto simp: join_Cons)

lemma split_on_free: "x \<in> set (split_on c s) \<Longrightarrow> c \<notin> set x"
  by (induction s arbitrary: x) (auto split: list.splits if_splits)

lemma length_slice_to: "length (slice_to n xs) \<le> length xs"
  by (simp add: slice_to_def)

lemma slice_to_nonneg [simp]: "0 \<le> n \<Longrightarrow> slice_to n xs = take (nat n) xs"
  by (simp add: slice_to_def slice_index_def)

lemma index_of_Some: "index_of c s = Some k \<Longrightarrow> k < length s \<and> s ! k = c"
  by (induction s arbitrary: k) (auto split: if_splits)

lemma index_of_None: "index_of c s = None \<longleftrightarrow> c \<notin> set s"
  by (induction s) auto

lemma rfind_char_less: "0 \<le> j \<Longrightarrow> rfind_char c s j < max 1 j"
  by (cases "index_of c (rev (slice_to j s))")
     (auto simp: rfind_char_def dest!: index_of_Some)

lemma rfind_char_ge: "-1 \<le> rfind_char c s j"
  by (cases "index_of c (rev (slice_to j s))")
     (auto simp: rfind_char_def dest!: index_of_Some)

lemma find_char_ge: "0 \<le> i \<Longrightarrow> find_char c s i \<noteq> -1 \<Longrightarrow> i \<le> find_char c s i"
  by (auto simp: find_char_def slice_index_def split: option.splits)

lemma find_char_less: "find_char c s i < int (length s) \<or> find_char c s i = -1"
  by (auto simp: find_char_def slice_from_def split: option.splits dest!: index_of_Some)

lemma py_int_nonneg: "0 \<le> x \<Longrightarrow> 0 \<le> py_int x"
  by (simp add: py_int_def)

lemma py_int_le: "0 \<le> x \<Longrightarrow> real_of_int (py_int x) \<le> x"
  by (simp add: py_int_def)

lemma py_int_mono: "x \<le> y \<Longrightarrow> py_int x \<le> py_int y"
  unfolding py_int_def by (auto intro: floor_mono ceiling_mono) (smt (verit) ceiling_le_zero zero_le_floor)

lemma py_int_of_int [simp]: "py_int (real_of_int n) = n"
  by (simp add: py_int_def)

lemma show_nat_nonempty [simp]: "show_nat n \<noteq> []"
  by (subst show_nat.simps) simp

lemma length_show_nat: "n < 10 ^ k \<Longrightarrow> 0 < k \<Longrightarrow> length (show_nat n) \<le> k"
proof (induction k arbitrary: n)
  case 0
  then show ?case by simp
next
  case (Suc k)
  show ?case
  proof (cases "n < 10")
    case True
    then show ?thesis by (subst show_nat.simps) simp
  next
    case False
    with Suc.prems have "0 < k" by (cases k) auto
    moreover have "n div 10 < 10 ^ k"
      using Suc.prems by (simp add: less_mult_imp_div_less mult.commute)
    ultimately have "length (show_nat (n div 10)) \<le> k" using Suc.IH by blast
    with False show ?thesis by (subst show_nat.simps) simp
  qed
qed

lemma map_of_dict_set: "map_of (dict_set k v d) = (map_of d)(k \<mapsto> v)"
  by (induction k v d rule: dict_set.induct) (auto simp: fun_eq_iff)

lemma map_of_dict_pop: "map_of (dict_pop k d) = (map_of d)(k := None)"
  by (induction d) (auto simp: dict_pop_def fun_eq_iff)

lemma dict_set_new: "map_of d k = None \<Longrightarrow> dict_set k v d = d @ [(k, v)]"
  by (induction d) (auto split: if_splits)

lemma set_dict_set: "set (dict_set k v d) \<subseteq> insert (k, v) (set d)"
  by (induction k v d rule: dict_set.induct) auto

lemma fst_set_dict_set: "fst ` set (dict_set k v d) = insert k (fst ` set d)"
  by (induction k v d rule: dict_set.induct) auto

lemma distinct_dict_set:
  "distinct (map fst d) \<Longrightarrow> distinct (map fst (dict_set k v d))"
proof (induction k v d rule: dict_set.induct)
  case (1 k v)
  then show ?case by simp
next
  case (2 k v k' v' d)
  have "set (map fst (dict_set k v d)) = insert k (set (map fst d))"
    using fst_set_dict_set [of k v d] by simp
  with 2 show ?case by auto
qed

lemma distinct_dict_pop:
  "distinct (map fst d) \<Longrightarrow> distinct (map fst (dict_pop k d))"
  by (simp add: dict_pop_def distinct_map_filter)

lemma find_append:
  "List.find P (xs @ ys) = (case List.find P xs of None \<Rightarrow> List.find P ys | Some x \<Rightarrow> Some x)"
  by (induction xs) auto

lemma find_map: "List.find P (map f xs) = map_option f (List.find (P \<circ> f) xs)"
  by (induction xs) auto

lemma map_add_upt_shift: "map (\<lambda>d. c + d) [a..<b] = [c + a..<c + b]"
  by (induction b) auto

lemma sum_list_map_le:
  "(\<And>x. x \<in> set xs \<Longrightarrow> f x \<le> (g x :: int)) \<Longrightarrow> sum_list (map f xs) \<le> sum_list (map g xs)"
  by (induction xs) fastforce+

end
