(* ===== verification/Messages.thy ===== *)
theory Messages
  imports Prelude
begin

section \<open>Messages, events and models\<close>

text \<open>
  The data that the run loop passes around: the JSON values of tool arguments, the content
  blocks and messages of \<open>oxenclaw/pi/messages.py\<close>, the stream events of
  \<open>oxenclaw/pi/streaming.py\<close>, the model handle of \<open>oxenclaw/pi/models.py\<close> and the tool results
  of \<open>oxenclaw/pi/tools.py\<close>. The pydantic classes restrict which blocks a message may hold;
  the restriction is the predicate \<open>message_ok\<close>.
\<close>

subsection \<open>JSON values\<close>

text \<open>
  What \<open>json.loads\<close> returns. An object keeps its members in order. A float is kept as its
  literal: the modelled code never computes with one.
\<close>

datatype json =
    JNull
  | JBool bool
  | JInt int
  | JFloat string
  | JStr string
  | JArr "json list"
  | JObj "(string \<times> json) list"

fun is_dict :: "json \<Rightarrow> bool" where
  "is_dict (JObj _) = True"
| "is_dict _ = False"

text \<open>\<open>dict_get k v\<close> is \<open>v.get(k)\<close> on a dictionary.\<close>

fun dict_get :: "string \<Rightarrow> json \<Rightarrow> json option" where
  "dict_get k (JObj kvs) = map_of kvs k"
| "dict_get k _ = None"

text \<open>\<open>truthy v\<close> is \<open>bool(v)\<close>; a float literal is falsy when it has no digit but 0.\<close>

fun truthy :: "json \<Rightarrow> bool" where
  "truthy JNull = False"
| "truthy (JBool b) = b"
| "truthy (JInt i) = (i \<noteq> 0)"
| "truthy (JFloat l) = list_ex (\<lambda>c. 49 \<le> ch c \<and> ch c \<le> 57) (takeWhile (\<lambda>c. c \<noteq> CHR ''e'' \<and> c \<noteq> CHR ''E'') l)"
| "truthy (JStr s) = (s \<noteq> [])"
| "truthy (JArr xs) = (xs \<noteq> [])"
| "truthy (JObj kvs) = (kvs \<noteq> [])"

subsection \<open>Content blocks\<close>

datatype block =
    TextContent string
  | ImageContent string string
  | ToolUseBlock string string json
  | ThinkingBlock string "string option"

fun is_text :: "block \<Rightarrow> bool" where
  "is_text (TextContent _) = True"
| "is_text _ = False"

fun is_image :: "block \<Rightarrow> bool" where
  "is_image (ImageContent _ _) = True"
| "is_image _ = False"

fun is_tool_use :: "block \<Rightarrow> bool" where
  "is_tool_use (ToolUseBlock _ _ _) = True"
| "is_tool_use _ = False"

fun is_thinking :: "block \<Rightarrow> bool" where
  "is_thinking (ThinkingBlock _ _) = True"
| "is_thinking _ = False"

fun tool_id :: "block \<Rightarrow> string" where
  "tool_id (ToolUseBlock i _ _) = i"
| "tool_id _ = []"

text \<open>The unions \<open>UserContentBlock\<close> and \<open>AssistantContentBlock\<close>.\<close>

definition user_block :: "block \<Rightarrow> bool" where
  "user_block b \<longleftrightarrow> is_text b \<or> is_image b"

fun assistant_block :: "block \<Rightarrow> bool" where
  "assistant_block (TextContent _) = True"
| "assistant_block (ToolUseBlock _ _ inp) = is_dict inp"
| "assistant_block (ThinkingBlock _ _) = True"
| "assistant_block (ImageContent _ _) = False"

datatype content =
    CStr string
  | CBlocks "block list"

subsection \<open>Messages\<close>

text \<open>A usage report: token counts by name. A flag among them is not a count.\<close>

datatype usage_value =
    UNum real
  | UFlag bool
  | UOther

type_synonym usage = "(string \<times> usage_value) list"

record tool_result =
  tr_tool_use_id :: string
  tr_content :: content
  tr_is_error :: bool

record assistant =
  am_content :: "block list"
  am_stop_reason :: "string option"
  am_usage :: "usage option"

datatype message =
    SystemMessage string
  | UserMessage content
  | AssistantMessage assistant
  | ToolResultMessage "tool_result list"

definition assistant_text :: "string \<Rightarrow> string option \<Rightarrow> assistant" where
  "assistant_text s sr = \<lparr>am_content = [TextContent s], am_stop_reason = sr, am_usage = None\<rparr>"

fun content_ok :: "content \<Rightarrow> bool" where
  "content_ok (CStr _) = True"
| "content_ok (CBlocks bs) = list_all user_block bs"

fun message_ok :: "message \<Rightarrow> bool" where
  "message_ok (SystemMessage _) = True"
| "message_ok (UserMessage c) = content_ok c"
| "message_ok (AssistantMessage a) = list_all assistant_block (am_content a)"
| "message_ok (ToolResultMessage rs) = list_all (\<lambda>r. content_ok (tr_content r)) rs"

fun is_user :: "message \<Rightarrow> bool" where
  "is_user (UserMessage _) = True"
| "is_user _ = False"

definition tool_uses :: "assistant \<Rightarrow> block list" where
  "tool_uses a = filter is_tool_use (am_content a)"

text \<open>\<open>len(c)\<close> for a content that is a string or a list of blocks.\<close>

fun content_len :: "content \<Rightarrow> int" where
  "content_len (CStr s) = int (length s)"
| "content_len (CBlocks bs) = int (length bs)"

subsection \<open>Stream events\<close>

record error_event =
  ev_message :: string
  ev_retryable :: bool
  ev_retry_after :: "real option"
  ev_status :: "int option"

datatype event =
    TextDelta string
  | ThinkingDelta string "string option"
  | ToolUseStart string string
  | ToolUseInputDelta string string
  | ToolUseEnd string
  | UsageEvent usage
  | StopEvent string
  | ErrorEvent error_event

text \<open>\<open>AttemptResult\<close> of \<open>pi/run/attempt.py\<close>: what one provider call assembled.\<close>

record attempt_result =
  ar_message :: assistant
  ar_usage :: "usage option"
  ar_error :: "error_event option"
  ar_events :: "event list"
  ar_text_emitted :: bool

subsection \<open>Models\<close>

record model =
  m_id :: string
  m_provider :: string
  m_context_window :: int
  m_max_output_tokens :: int
  m_supports_thinking :: bool
  m_supports_prompt_cache :: bool

subsection \<open>Tool results\<close>

record tool_exec =
  te_id :: string
  te_name :: string
  te_output :: string
  te_is_error :: bool

definition result_block :: "tool_exec \<Rightarrow> tool_result" where
  "result_block r =
     \<lparr>tr_tool_use_id = te_id r, tr_content = CStr (te_output r), tr_is_error = te_is_error r\<rparr>"

subsection \<open>Lemmas\<close>

lemma tool_uses_are_tool_use: "b \<in> set (tool_uses a) \<Longrightarrow> is_tool_use b"
  by (simp add: tool_uses_def)

lemma content_len_nonneg [simp]: "0 \<le> content_len c"
  by (cases c) simp_all

lemma result_block_id [simp]: "tr_tool_use_id (result_block r) = te_id r"
  by (simp add: result_block_def)

end
