(* ===== verification/Json.thy ===== *)
theory Json
  imports Messages
begin

section \<open>JSON text\<close>

text \<open>
  The part of Python's \<open>json\<close> module that the modelled code uses: \<open>json_dumps\<close> is \<open>json.dumps\<close>
  with the default separators, with \<open>ensure_ascii\<close> and \<open>sort_keys\<close> as arguments, and \<open>json_loads\<close>
  is \<open>json.loads\<close>, \<open>None\<close> where it raises \<open>JSONDecodeError\<close>. The parser is recursive descent with
  fuel; \<open>json_loads\<close> gives it twice the length of the text, and \<open>json_round_trip\<close> shows that
  this is enough for every text that \<open>json_dumps\<close> writes. Escapes of code points that the model's
  characters do not have are refused.
\<close>

subsection \<open>Writing\<close>

definition hex_digit :: "nat \<Rightarrow> char" where
  "hex_digit d = (if d < 10 then char_of (48 + d) else char_of (87 + d))"

definition json_escape_char :: "bool \<Rightarrow> char \<Rightarrow> string" where
  "json_escape_char ascii c =
    (let n = ch c
     in if c = CHR 0x22 then [CHR 0x5C, CHR 0x22]
        else if c = CHR 0x5C then [CHR 0x5C, CHR 0x5C]
        else if n = 10 then [CHR 0x5C, CHR ''n'']
        else if n = 13 then [CHR 0x5C, CHR ''r'']
        else if n = 9 then [CHR 0x5C, CHR ''t'']
        else if n = 12 then [CHR 0x5C, CHR ''f'']
        else if n = 8 then [CHR 0x5C, CHR ''b'']
        else if n < 32 \<or> (ascii \<and> 126 < n)
          then [CHR 0x5C, CHR ''u'', CHR ''0'', CHR ''0'', hex_digit (n div 16), hex_digit (n mod 16)]
        else [c])"

definition json_quote :: "bool \<Rightarrow> string \<Rightarrow> string" where
  "json_quote ascii s = CHR 0x22 # concat (map (json_escape_char ascii) s) @ [CHR 0x22]"

fun json_text :: "bool \<Rightarrow> json \<Rightarrow> string"
  and json_elems :: "bool \<Rightarrow> json list \<Rightarrow> string list"
  and json_members :: "bool \<Rightarrow> (string \<times> json) list \<Rightarrow> string list" where
  "json_text ascii JNull = ''null''"
| "json_text ascii (JBool b) = (if b then ''true'' else ''false'')"
| "json_text ascii (JInt i) = show_int i"
| "json_text ascii (JFloat l) = l"
| "json_text ascii (JStr s) = json_quote ascii s"
| "json_text ascii (JArr xs) = ''['' @ join '', '' (json_elems ascii xs) @ '']''"
| "json_text ascii (JObj kvs) = ''{'' @ join '', '' (json_members ascii kvs) @ ''}''"
| "json_elems ascii [] = []"
| "json_elems ascii (x # xs) = json_text ascii x # json_elems ascii xs"
| "json_members ascii [] = []"
| "json_members ascii ((k, v) # kvs) =
    (json_quote ascii k @ '': '' @ json_text ascii v) # json_members ascii kvs"

text \<open>\<open>sort_keys=True\<close>: the members of every object in the order of their keys.\<close>

fun json_sort :: "json \<Rightarrow> json"
  and json_sort_elems :: "json list \<Rightarrow> json list"
  and json_sort_members :: "(string \<times> json) list \<Rightarrow> (string \<times> json) list" where
  "json_sort (JArr xs) = JArr (json_sort_elems xs)"
| "json_sort (JObj kvs) = JObj (sort_key fst (json_sort_members kvs))"
| "json_sort JNull = JNull"
| "json_sort (JBool b) = JBool b"
| "json_sort (JInt i) = JInt i"
| "json_sort (JFloat l) = JFloat l"
| "json_sort (JStr s) = JStr s"
| "json_sort_elems [] = []"
| "json_sort_elems (x # xs) = json_sort x # json_sort_elems xs"
| "json_sort_members [] = []"
| "json_sort_members ((k, v) # kvs) = (k, json_sort v) # json_sort_members kvs"

definition json_dumps :: "bool \<Rightarrow> bool \<Rightarrow> json \<Rightarrow> string" where
  "json_dumps ascii sort_keys j = json_text ascii (if sort_keys then json_sort j else j)"

subsection \<open>Reading\<close>

definition json_ws :: "char \<Rightarrow> bool" where
  "json_ws c \<longleftrightarrow> ch c \<in> {32, 9, 10, 13}"

definition skip_ws :: "string \<Rightarrow> string" where
  "skip_ws s = dropWhile json_ws s"

definition is_digit :: "char \<Rightarrow> bool" where
  "is_digit c \<longleftrightarrow> 48 \<le> ch c \<and> ch c \<le> 57"

definition hex_value :: "char \<Rightarrow> nat option" where
  "hex_value c =
    (let n = ch c
     in if 48 \<le> n \<and> n \<le> 57 then Some (n - 48)
        else if 97 \<le> n \<and> n \<le> 102 then Some (n - 87)
        else if 65 \<le> n \<and> n \<le> 70 then Some (n - 55)
        else None)"

text \<open>The character that \<open>\uXXXX\<close> stands for, if the model has it.\<close>

definition char_of_code :: "nat \<Rightarrow> char option" where
  "char_of_code n =
    (if n = 0x26A0 then Some (CHR 0x80) else if n = 0xFE0F then Some (CHR 0x81)
     else if n = 0x2014 then Some (CHR 0x82) else if n = 0x2026 then Some (CHR 0x83)
     else if n = 0x201C then Some (CHR 0x84) else if n = 0x201D then Some (CHR 0x86)
     else if n = 0x2018 then Some (CHR 0x87) else if n = 0x2019 then Some (CHR 0x88)
     else if n = 0x2013 then Some (CHR 0x89) else if n = 0x2502 then Some (CHR 0x8A)
     else if n = 0x2022 then Some (CHR 0x8B) else if n = 0x2500 then Some (CHR 0x8C)
     else if n = 0x2713 then Some (CHR 0x8D) else if n = 0x3002 then Some (CHR 0x8E)
     else if n = 0x3001 then Some (CHR 0x8F) else if n = 0xFF01 then Some (CHR 0x90)
     else if n = 0xFF1F then Some (CHR 0x91)
     else if n < 256 then Some (char_of n) else None)"

text \<open>The body of a string after the opening quote: its value and what follows the closing one.\<close>

fun scan_string :: "string \<Rightarrow> (string \<times> string) option" where
  "scan_string [] = None"
| "scan_string (c # s) =
    (if c = CHR 0x22 then Some ([], s)
     else if c = CHR 0x5C then
       (case s of
          [] \<Rightarrow> None
        | e # s' \<Rightarrow>
            if e = CHR ''u'' then
              (case s' of
                 a # b # d # f # s'' \<Rightarrow>
                   (case (hex_value a, hex_value b, hex_value d, hex_value f) of
                      (Some w, Some x, Some y, Some z) \<Rightarrow>
                        (case char_of_code (((w * 16 + x) * 16 + y) * 16 + z) of
                           None \<Rightarrow> None
                         | Some v \<Rightarrow> map_option (\<lambda>(t, r). (v # t, r)) (scan_string s''))
                    | _ \<Rightarrow> None)
               | _ \<Rightarrow> None)
            else
              (case map_of [(CHR 0x22, CHR 0x22), (CHR 0x5C, CHR 0x5C), (CHR ''/'', CHR ''/''),
                            (CHR ''b'', CHR 0x08), (CHR ''f'', CHR 0x0C), (CHR ''n'', CHR 0x0A),
                            (CHR ''r'', CHR 0x0D), (CHR ''t'', CHR 0x09)] e of
                 None \<Rightarrow> None
               | Some v \<Rightarrow> map_option (\<lambda>(t, r). (v # t, r)) (scan_string s')))
     else if ch c < 32 then None
     else map_option (\<lambda>(t, r). (c # t, r)) (scan_string s))"

definition nat_of_digits :: "string \<Rightarrow> nat" where
  "nat_of_digits ds = foldl (\<lambda>n c. 10 * n + (ch c - 48)) 0 ds"

text \<open>
  A number: an optional sign, \<open>0\<close> or digits without a leading zero, an optional fraction and an
  optional exponent. Without the last two it is an integer.
\<close>

definition scan_exponent :: "string \<Rightarrow> (string \<times> string) option" where
  "scan_exponent s =
    (case s of
       e # r \<Rightarrow>
         if e = CHR ''e'' \<or> e = CHR ''E'' then
           (let (sg, r') = (case r of
                  x # r' \<Rightarrow> if x = CHR ''+'' \<or> x = CHR ''-'' then ([x], r') else ([], r)
                | [] \<Rightarrow> ([], []));
                ds = takeWhile is_digit r'
            in if ds = [] then None else Some (e # sg @ ds, drop (length ds) r'))
         else None
     | [] \<Rightarrow> None)"

definition scan_fraction :: "string \<Rightarrow> (string \<times> string) option" where
  "scan_fraction s =
    (case s of
       p # r \<Rightarrow>
         (let ds = takeWhile is_digit r
          in if p = CHR ''.'' \<and> ds \<noteq> [] then Some (p # ds, drop (length ds) r) else None)
     | [] \<Rightarrow> None)"

definition int_digits :: "string \<Rightarrow> string" where
  "int_digits s =
    (case s of c # _ \<Rightarrow> if c = CHR ''0'' then [c] else takeWhile is_digit s | [] \<Rightarrow> [])"

definition scan_number :: "string \<Rightarrow> (json \<times> string) option" where
  "scan_number s =
    (let neg = (case s of c # _ \<Rightarrow> c = CHR ''-'' | [] \<Rightarrow> False);
         body = (if neg then tl s else s);
         ds = int_digits body
     in if ds = [] then None
        else
          let r = drop (length ds) body;
              whole = (if neg then ''-'' else []) @ ds;
              (fr, r1) = (case scan_fraction r of Some (l, r') \<Rightarrow> (l, r') | None \<Rightarrow> ([], r));
              (ex, r2) = (case scan_exponent r1 of Some (l, r') \<Rightarrow> (l, r') | None \<Rightarrow> ([], r1))
          in if fr = [] \<and> ex = []
             then Some (JInt (if neg then - int (nat_of_digits ds) else int (nat_of_digits ds)), r)
             else Some (JFloat (whole @ fr @ ex), r2))"

definition strip_prefix :: "string \<Rightarrow> string \<Rightarrow> string option" where
  "strip_prefix p s = (if prefix p s then Some (drop (length p) s) else None)"

text \<open>
  \<open>scan_value\<close>, the elements of an array after its opening bracket or a comma, and the members of
  an object after its opening brace or a comma.
\<close>

fun scan_value :: "nat \<Rightarrow> string \<Rightarrow> (json \<times> string) option"
  and scan_elems :: "nat \<Rightarrow> string \<Rightarrow> (json list \<times> string) option"
  and scan_members :: "nat \<Rightarrow> string \<Rightarrow> ((string \<times> json) list \<times> string) option" where
  "scan_value 0 s = None"
| "scan_value (Suc n) [] = None"
| "scan_value (Suc n) (c # s) =
    (if c = CHR 0x22 then map_option (\<lambda>(t, r). (JStr t, r)) (scan_string s)
     else if c = CHR ''{'' then
       (case skip_ws s of
          [] \<Rightarrow> None
        | d # r \<Rightarrow> if d = CHR ''}'' then Some (JObj [], r)
                   else map_option (\<lambda>(kvs, r'). (JObj (foldl (\<lambda>d (k, v). dict_set k v d) [] kvs), r'))
                          (scan_members n (d # r)))
     else if c = CHR ''['' then
       (case skip_ws s of
          [] \<Rightarrow> None
        | d # r \<Rightarrow> if d = CHR '']'' then Some (JArr [], r)
                   else map_option (\<lambda>(xs, r'). (JArr xs, r')) (scan_elems n (d # r)))
     else if prefix ''null'' (c # s) then Some (JNull, drop 4 (c # s))
     else if prefix ''true'' (c # s) then Some (JBool True, drop 4 (c # s))
     else if prefix ''false'' (c # s) then Some (JBool False, drop 5 (c # s))
     else if prefix ''NaN'' (c # s) then Some (JFloat ''NaN'', drop 3 (c # s))
     else if prefix ''Infinity'' (c # s) then Some (JFloat ''Infinity'', drop 8 (c # s))
     else if prefix ''-Infinity'' (c # s) then Some (JFloat ''-Infinity'', drop 9 (c # s))
     else scan_number (c # s))"
| "scan_elems 0 s = None"
| "scan_elems (Suc n) s =
    (case scan_value n s of
       None \<Rightarrow> None
     | Some (x, r) \<Rightarrow>
         (case skip_ws r of
            [] \<Rightarrow> None
          | d # r' \<Rightarrow>
              if d = CHR '']'' then Some ([x], r')
              else if d = CHR '','' then
                map_option (\<lambda>(xs, r''). (x # xs, r'')) (scan_elems n (skip_ws r'))
              else None))"
| "scan_members 0 s = None"
| "scan_members (Suc n) s =
    (case s of
       [] \<Rightarrow> None
     | q # s' \<Rightarrow>
         if q \<noteq> CHR 0x22 then None
         else
           (case scan_string s' of
              None \<Rightarrow> None
            | Some (k, r) \<Rightarrow>
                (case skip_ws r of
                   [] \<Rightarrow> None
                 | d # r' \<Rightarrow>
                     if d \<noteq> CHR '':'' then None
                     else
                       (case scan_value n (skip_ws r') of
                          None \<Rightarrow> None
                        | Some (v, r2) \<Rightarrow>
                            (case skip_ws r2 of
                               [] \<Rightarrow> None
                             | e # r3 \<Rightarrow>
                                 if e = CHR ''}'' then Some ([(k, v)], r3)
                                 else if e = CHR '','' then
                                   map_option (\<lambda>(kvs, r4). ((k, v) # kvs, r4))
                                     (scan_members n (skip_ws r3))
                                 else None)))))"

definition json_loads :: "string \<Rightarrow> json option" where
  "json_loads s =
    (case scan_value (2 * length s + 2) (skip_ws s) of
       None \<Rightarrow> None
     | Some (j, r) \<Rightarrow> if skip_ws r = [] then Some j else None)"

subsection \<open>Reading back what was written\<close>

text \<open>Values that can be written and read back: no float literals, no repeated keys.\<close>

fun json_ok :: "json \<Rightarrow> bool"
  and json_ok_elems :: "json list \<Rightarrow> bool"
  and json_ok_members :: "(string \<times> json) list \<Rightarrow> bool" where
  "json_ok JNull = True"
| "json_ok (JBool b) = True"
| "json_ok (JInt i) = True"
| "json_ok (JFloat l) = False"
| "json_ok (JStr s) = True"
| "json_ok (JArr xs) = json_ok_elems xs"
| "json_ok (JObj kvs) = (distinct (map fst kvs) \<and> json_ok_members kvs)"
| "json_ok_elems [] = True"
| "json_ok_elems (x # xs) = (json_ok x \<and> json_ok_elems xs)"
| "json_ok_members [] = True"
| "json_ok_members ((k, v) # kvs) = (json_ok v \<and> json_ok_members kvs)"

subsubsection \<open>Strings\<close>

lemma ch_less [simp]: "ch c < 256"
  by (cases c) simp

lemma ch_char_of [simp]: "n < 256 \<Longrightarrow> ch (char_of n) = n"
  by simp

lemma char_of_ch [simp]: "char_of (ch c) = c"
  by simp

lemma hex_value_digit: "d < 16 \<Longrightarrow> hex_value (hex_digit d) = Some d"
  by (simp add: hex_value_def hex_digit_def Let_def)

lemma hex_value_zero: "hex_value (CHR ''0'') = Some 0"
  by (simp add: hex_value_def Let_def)

lemma char_of_code_small: "n < 256 \<Longrightarrow> char_of_code n = Some (char_of n)"
  by (simp add: char_of_code_def)

lemma char_eq_iff_ch: "c = d \<longleftrightarrow> ch c = ch d"
  by (metis char_of_ch)

lemma scan_unicode:
  assumes "n < 256"
  shows "scan_string (CHR 0x5C # CHR ''u'' # CHR ''0'' # CHR ''0'' # hex_digit (n div 16) #
           hex_digit (n mod 16) # t) =
         map_option (\<lambda>(u, r). (char_of n # u, r)) (scan_string t)"
proof -
  have "n div 16 < 16" using assms by simp
  then show ?thesis
    using assms by (simp add: hex_value_digit hex_value_zero char_of_code_small)
qed

lemma scan_escape_char:
  "scan_string (json_escape_char a c @ t) = map_option (\<lambda>(u, r). (c # u, r)) (scan_string t)"
proof -
  consider "c = CHR 0x22" | "c = CHR 0x5C" | "c = CHR 0x0A" | "c = CHR 0x0D" | "c = CHR 0x09"
    | "c = CHR 0x0C" | "c = CHR 0x08"
    | (other) "c \<noteq> CHR 0x22" "c \<noteq> CHR 0x5C" "ch c \<notin> {10, 13, 9, 12, 8}"
    by (auto simp: char_eq_iff_ch [of c])
  then show ?thesis
  proof cases
    case other
    show ?thesis
    proof (cases "ch c < 32 \<or> (a \<and> 126 < ch c)")
      case True
      with other have "json_escape_char a c = [CHR 0x5C, CHR ''u'', CHR ''0'', CHR ''0'',
          hex_digit (ch c div 16), hex_digit (ch c mod 16)]"
        by (simp add: json_escape_char_def Let_def)
      then show ?thesis using scan_unicode [of "ch c" t] by simp
    next
      case False
      with other show ?thesis by (auto simp: json_escape_char_def Let_def)
    qed
  qed (simp_all add: json_escape_char_def)
qed

lemma scan_string_body:
  "scan_string (concat (map (json_escape_char a) s) @ CHR 0x22 # r) = Some (s, r)"
  by (induction s) (simp_all add: scan_escape_char)

subsubsection \<open>Numbers\<close>

lemma digit_char_digit: "d < 10 \<Longrightarrow> is_digit (digit_char d)"
  by (simp add: is_digit_def digit_char_def)

lemma show_nat_digits: "list_all is_digit (show_nat n)"
proof (induction n rule: show_nat.induct)
  case (1 n)
  then show ?case
    by (subst show_nat.simps) (simp add: digit_char_digit)
qed

lemma nat_of_digits_snoc: "nat_of_digits (ds @ [c]) = 10 * nat_of_digits ds + (ch c - 48)"
  by (simp add: nat_of_digits_def)

lemma nat_of_show_nat: "nat_of_digits (show_nat n) = n"
proof (induction n rule: show_nat.induct)
  case (1 n)
  show ?case
  proof (cases "n < 10")
    case True
    then show ?thesis by (subst show_nat.simps) (simp add: nat_of_digits_def digit_char_def)
  next
    case False
    with 1 have "nat_of_digits (show_nat (n div 10)) = n div 10" by simp
    with False show ?thesis
      by (subst show_nat.simps) (simp add: nat_of_digits_snoc digit_char_def)
  qed
qed

lemma show_nat_hd: "0 < n \<Longrightarrow> hd (show_nat n) \<noteq> CHR ''0''"
proof (induction n rule: show_nat.induct)
  case (1 n)
  show ?case
  proof (cases "n < 10")
    case True
    with 1 show ?thesis
      by (subst show_nat.simps) (simp add: digit_char_def char_eq_iff_ch)
  next
    case False
    with 1 have "hd (show_nat (n div 10)) \<noteq> CHR ''0''" by simp
    with False show ?thesis by (subst show_nat.simps) simp
  qed
qed

text \<open>What may follow a value inside a larger text.\<close>

definition delimited :: "string \<Rightarrow> bool" where
  "delimited r \<longleftrightarrow> (case r of [] \<Rightarrow> True | c # _ \<Rightarrow> c \<in> {CHR '','', CHR '']'', CHR ''}''})"

lemma delimited_takeWhile: "delimited r \<Longrightarrow> takeWhile is_digit r = []"
  by (cases r) (auto simp: delimited_def is_digit_def)

lemma delimited_no_fraction: "delimited r \<Longrightarrow> scan_fraction r = None \<and> scan_exponent r = None"
  by (cases r) (auto simp: delimited_def scan_fraction_def scan_exponent_def)

lemma digits_body:
  assumes "delimited r"
  shows "int_digits (show_nat n @ r) = show_nat n"
proof (cases "n = 0")
  case True
  have "show_nat 0 = ''0''" by (subst show_nat.simps) (simp add: digit_char_def char_eq_iff_ch)
  with True show ?thesis by (simp add: int_digits_def)
next
  case False
  obtain c ds where s: "show_nat n = c # ds" by (cases "show_nat n") auto
  with False show_nat_hd [of n] have "c \<noteq> CHR ''0''" by simp
  moreover have "takeWhile is_digit (show_nat n @ r) = show_nat n"
    using show_nat_digits [of n] delimited_takeWhile [OF assms]
    by (simp add: takeWhile_append2 list_all_iff)
  ultimately show ?thesis using s by (simp add: int_digits_def)
qed

lemma scan_show_int:
  assumes "delimited r"
  shows "scan_number (show_int i @ r) = Some (JInt i, r)"
proof -
  have d: "hd (show_nat n) \<noteq> CHR ''-''" for n
    using show_nat_digits [of n] by (cases "show_nat n") (auto simp: is_digit_def)
  note facts = digits_body [OF assms] nat_of_show_nat delimited_no_fraction [OF assms]
  show ?thesis
  proof (cases "i < 0")
    case True
    then show ?thesis using facts by (simp add: show_int_def scan_number_def Let_def)
  next
    case False
    obtain c ds where s: "show_nat (nat i) = c # ds" by (cases "show_nat (nat i)") auto
    with d [of "nat i"] have "c \<noteq> CHR ''-''" by simp
    with False s facts(1) [of "nat i"] facts(2) [of "nat i"] facts(3) show ?thesis
      by (simp add: show_int_def scan_number_def Let_def)
  qed
qed

subsubsection \<open>Values\<close>

lemma json_text_start:
  "json_ok j \<Longrightarrow> \<exists>c t. json_text a j = c # t \<and> ch c \<in> {34, 45, 91, 102, 110, 116, 123} \<union> {48..57}"
proof (cases j)
  case (JInt i)
  show ?thesis
  proof (cases "i < 0")
    case True
    with JInt show ?thesis by (simp add: show_int_def)
  next
    case False
    obtain c ds where "show_nat (nat i) = c # ds" by (cases "show_nat (nat i)") auto
    moreover with show_nat_digits [of "nat i"] have "is_digit c" by simp
    ultimately show ?thesis using False JInt by (auto simp: show_int_def is_digit_def)
  qed
qed (auto simp: json_quote_def)

lemma json_text_nonempty: "json_ok j \<Longrightarrow> 0 < length (json_text a j)"
  using json_text_start [of j a] by fastforce

lemma skip_ws_value: "json_ok j \<Longrightarrow> skip_ws (json_text a j @ r) = json_text a j @ r"
  using json_text_start [of j a] by (auto simp: skip_ws_def json_ws_def)

lemma skip_ws_quote [simp]: "skip_ws (json_quote a k @ r) = json_quote a k @ r"
  by (simp add: skip_ws_def json_ws_def json_quote_def)

lemma skip_ws_delimited: "delimited r \<Longrightarrow> skip_ws r = r"
  by (cases r) (auto simp: delimited_def skip_ws_def json_ws_def)

lemma scan_quote: "scan_string (tl (json_quote a k) @ r) = Some (k, r)"
  using scan_string_body [of a k r] by (simp add: json_quote_def)

lemma map_of_dict_set_new: "k \<notin> fst ` set d \<Longrightarrow> dict_set k v d = d @ [(k, v)]"
  by (induction d) auto

lemma rebuild_dict:
  "distinct (map fst (d @ kvs)) \<Longrightarrow> foldl (\<lambda>d (k, v). dict_set k v d) d kvs = d @ kvs"
proof (induction kvs arbitrary: d)
  case Nil
  then show ?case by simp
next
  case (Cons kv kvs)
  obtain k v where kv: "kv = (k, v)" by (cases kv)
  with Cons.prems have "k \<notin> fst ` set d" by auto
  then have "dict_set k v d = d @ [(k, v)]" by (rule map_of_dict_set_new)
  with Cons.IH [of "d @ [(k, v)]"] Cons.prems kv show ?case by simp
qed

lemma scan_value_number:
  assumes "ch c \<in> {45} \<union> {48..57}" and "case s of [] \<Rightarrow> True | d # _ \<Rightarrow> d \<noteq> CHR ''I''"
  shows "scan_value (Suc n) (c # s) = scan_number (c # s)"
proof -
  from assms(1) have "c \<noteq> CHR 0x22" "c \<noteq> CHR ''{''" "c \<noteq> CHR ''[''" "c \<noteq> CHR ''n''"
    "c \<noteq> CHR ''t''" "c \<noteq> CHR ''f''" "c \<noteq> CHR ''N''" "c \<noteq> CHR ''I''"
    by auto
  moreover have "\<not> prefix ''-Infinity'' (c # s)" using assms(2) by (cases s) auto
  ultimately show ?thesis by (simp only: scan_value.simps Cons_prefix_Cons if_False simp_thms) auto
qed

lemma scan_value_int:
  assumes "delimited r"
  shows "scan_value (Suc n) (show_int i @ r) = Some (JInt i, r)"
proof -
  obtain c ds where s: "show_int i = c # ds" "ch c \<in> {45} \<union> {48..57}"
    "case ds @ r of [] \<Rightarrow> True | d # _ \<Rightarrow> d \<noteq> CHR ''I''"
  proof (cases "i < 0")
    case True
    obtain c ds where "show_nat (nat (- i)) = c # ds" by (cases "show_nat (nat (- i))") auto
    moreover with show_nat_digits [of "nat (- i)"] have "is_digit c" by simp
    moreover then have "c \<noteq> CHR ''I''" by (auto simp: is_digit_def)
    ultimately show thesis
      using that True by (auto simp: show_int_def)
  next
    case False
    obtain c ds where s: "show_nat (nat i) = c # ds" by (cases "show_nat (nat i)") auto
    with show_nat_digits [of "nat i"] have d: "is_digit c" "list_all is_digit ds" by simp_all
    have "case ds @ r of [] \<Rightarrow> True | d # _ \<Rightarrow> d \<noteq> CHR ''I''"
      using d(2) assms by (cases ds) (auto simp: is_digit_def delimited_def split: list.splits)
    with s d(1) False that show thesis by (auto simp: show_int_def is_digit_def)
  qed
  then show ?thesis
    using scan_value_number [OF s(2), of "ds @ r" n] scan_show_int [OF assms, of i] by simp
qed

lemma join_elems_start:
  assumes "json_ok_elems xs" and "xs \<noteq> []"
  shows "\<exists>c t. join '', '' (json_elems a xs) = c # t \<and>
           ch c \<in> {34, 45, 91, 102, 110, 116, 123} \<union> {48..57}"
proof -
  from assms obtain x ys where xs: "xs = x # ys" and "json_ok x" by (cases xs) auto
  with json_text_start [of x a] obtain c t where "json_text a x = c # t"
    and "ch c \<in> {34, 45, 91, 102, 110, 116, 123} \<union> {48..57}" by blast
  then show ?thesis using xs by (simp add: join_Cons)
qed

lemma skip_ws_elems:
  assumes "json_ok_elems xs" and "xs \<noteq> []"
  shows "skip_ws (join '', '' (json_elems a xs) @ r) = join '', '' (json_elems a xs) @ r"
  using join_elems_start [OF assms, of a] by (auto simp: skip_ws_def json_ws_def)

lemma length_quote: "2 \<le> length (json_quote a k)"
  by (simp add: json_quote_def)

theorem json_scan_text:
  "json_ok j \<Longrightarrow> delimited r \<Longrightarrow> 2 * length (json_text a j) \<le> n \<Longrightarrow>
     scan_value n (json_text a j @ r) = Some (j, r)"
  "json_ok_elems xs \<Longrightarrow> xs \<noteq> [] \<Longrightarrow> 2 * length (join '', '' (json_elems a xs)) + 1 \<le> n \<Longrightarrow>
     scan_elems n (join '', '' (json_elems a xs) @ CHR '']'' # r') = Some (xs, r')"
  "json_ok_members kvs \<Longrightarrow> kvs \<noteq> [] \<Longrightarrow> 2 * length (join '', '' (json_members a kvs)) + 1 \<le> n \<Longrightarrow>
     scan_members n (join '', '' (json_members a kvs) @ CHR ''}'' # r') = Some (kvs, r')"
proof (induction a j and a xs and a kvs arbitrary: r n and r' n and r' n
    rule: json_text_json_elems_json_members.induct)
  case (1 a)
  then show ?case by (cases n) simp_all
next
  case (2 a b)
  then show ?case by (cases n) (simp_all split: if_splits)
next
  case (3 a i)
  obtain m where "n = Suc m"
    using 3 json_text_nonempty [of "JInt i" a] by (cases n) auto
  with 3 scan_value_int show ?case by simp
next
  case (4 a l)
  then show ?case by simp
next
  case (5 a s)
  then obtain m where "n = Suc m" by (cases n) (auto simp: json_quote_def)
  with 5 scan_string_body [of a s r] show ?case by (simp add: json_quote_def)
next
  case (6 a xs)
  then obtain m where m: "n = Suc m" by (cases n) auto
  show ?case
  proof (cases xs)
    case Nil
    with m show ?thesis by (simp add: skip_ws_def json_ws_def)
  next
    case (Cons x ys)
    let ?body = "join '', '' (json_elems a xs)"
    obtain c t where ct: "?body = c # t"
      "ch c \<in> {34, 45, 91, 102, 110, 116, 123} \<union> {48..57}"
      using join_elems_start [of xs a] 6(2) Cons by auto
    then have "skip_ws (?body @ CHR '']'' # r) = c # t @ CHR '']'' # r" and "c \<noteq> CHR '']''"
      by (auto simp: skip_ws_def json_ws_def)
    moreover have "scan_elems m (?body @ CHR '']'' # r) = Some (xs, r)"
      by (rule 6(1)) (use 6(2,4) Cons m in auto)
    ultimately show ?thesis using m ct(1) by simp
  qed
next
  case (7 a kvs)
  then obtain m where m: "n = Suc m" by (cases n) auto
  show ?case
  proof (cases kvs)
    case Nil
    with m show ?thesis by (simp add: skip_ws_def json_ws_def)
  next
    case (Cons kv rest)
    let ?body = "join '', '' (json_members a kvs)"
    obtain k v where kv: "kv = (k, v)" by (cases kv)
    obtain t where t: "?body = CHR 0x22 # t"
      using Cons kv by (cases "json_members a rest") (auto simp: json_quote_def)
    have "scan_members m (?body @ CHR ''}'' # r) = Some (kvs, r)"
      by (rule 7(1)) (use 7(2,4) Cons m in auto)
    moreover have "foldl (\<lambda>d (k, v). dict_set k v d) [] kvs = kvs"
      using rebuild_dict [of "[]" kvs] 7(2) by simp
    ultimately show ?thesis using m t by (simp add: skip_ws_def json_ws_def)
  qed
next
  case (8 a)
  then show ?case by simp
next
  case (9 a x xs)
  then obtain m where m: "n = Suc m" by (cases n) auto
  have ok: "json_ok x" "json_ok_elems xs" using 9(3) by auto
  show ?case
  proof (cases xs)
    case Nil
    have "scan_value m (json_text a x @ CHR '']'' # r') = Some (x, CHR '']'' # r')"
      by (rule 9(1)) (use ok 9(5) Nil m in \<open>auto simp: delimited_def\<close>)
    with Nil m show ?thesis by (simp add: skip_ws_def json_ws_def)
  next
    case (Cons y ys)
    let ?rest = "join '', '' (json_elems a xs)"
    have ne: "json_elems a xs \<noteq> []" using Cons by simp
    let ?more = "CHR '','' # CHR '' '' # ?rest @ CHR '']'' # r'"
    have "scan_value m (json_text a x @ ?more) = Some (x, ?more)"
      by (rule 9(1)) (use ok 9(5) ne m in \<open>auto simp: delimited_def join_Cons\<close>)
    moreover have "scan_elems m (?rest @ CHR '']'' # r') = Some (xs, r')"
      by (rule 9(2)) (use ok 9(5) ne m Cons in \<open>auto simp: join_Cons\<close>)
    moreover have "skip_ws (CHR '' '' # ?rest @ CHR '']'' # r') = ?rest @ CHR '']'' # r'"
      using skip_ws_elems [of xs a] ok(2) Cons by (simp add: skip_ws_def json_ws_def)
    moreover have "skip_ws ?more = ?more" by (simp add: skip_ws_def json_ws_def)
    ultimately show ?thesis using m ne by (simp add: join_Cons)
  qed
next
  case (10 a)
  then show ?case by simp
next
  case (11 a k v kvs)
  then obtain m where m: "n = Suc m" by (cases n) auto
  have ok: "json_ok v" "json_ok_members kvs" using 11(3) by auto
  have q: "scan_string (concat (map (json_escape_char a) k) @ CHR 0x22 # u) = Some (k, u)" for u
    by (rule scan_string_body)
  have colon: "skip_ws (CHR '':'' # u) = CHR '':'' # u" for u
    by (simp add: skip_ws_def json_ws_def)
  have space: "skip_ws (CHR '' '' # json_text a v @ u) = json_text a v @ u" for u
    using skip_ws_value [OF ok(1), of a u] by (simp add: skip_ws_def json_ws_def)
  show ?case
  proof (cases kvs)
    case Nil
    have "scan_value m (json_text a v @ CHR ''}'' # r') = Some (v, CHR ''}'' # r')"
      by (rule 11(1)) (use ok 11(5) Nil m in \<open>auto simp: delimited_def\<close>)
    with Nil m show ?thesis
      by (simp add: json_quote_def q colon space) (simp add: skip_ws_def json_ws_def)
  next
    case (Cons kv2 kvs2)
    let ?rest = "join '', '' (json_members a kvs)"
    obtain k2 v2 where kv2: "kv2 = (k2, v2)" by (cases kv2)
    have ne: "json_members a kvs \<noteq> []" using Cons kv2 by simp
    let ?more = "CHR '','' # CHR '' '' # ?rest @ CHR ''}'' # r'"
    have "scan_value m (json_text a v @ ?more) = Some (v, ?more)"
      by (rule 11(1)) (use ok 11(5) ne m in \<open>auto simp: delimited_def join_Cons\<close>)
    moreover have "scan_members m (?rest @ CHR ''}'' # r') = Some (kvs, r')"
      by (rule 11(2)) (use ok 11(5) ne m Cons in \<open>auto simp: join_Cons\<close>)
    moreover have "skip_ws (CHR '' '' # ?rest @ CHR ''}'' # r') = ?rest @ CHR ''}'' # r'"
      using Cons kv2 by (auto simp: join_Cons json_quote_def skip_ws_def json_ws_def)
    moreover have "skip_ws ?more = ?more" by (simp add: skip_ws_def json_ws_def)
    ultimately show ?thesis using m ne by (simp add: join_Cons json_quote_def q colon space)
  qed
qed

text \<open>Writing a value and reading it back gives the value: the fuel of \<open>json_loads\<close> is enough.\<close>

lemma json_loads_dumps:
  assumes "json_ok j"
  shows "json_loads (json_text a j) = Some j"
proof -
  have "scan_value (2 * length (json_text a j) + 2) (json_text a j @ []) = Some (j, [])"
    by (rule json_scan_text(1)) (use assms in \<open>auto simp: delimited_def\<close>)
  with skip_ws_value [OF assms, of a "[]"] show ?thesis
    by (simp add: json_loads_def skip_ws_def)
qed

subsection \<open>The round trip\<close>

text \<open>Writing a value and reading it back gives the value, whether non-ASCII text is escaped or not:
  the scanner's fuel is enough for every text the writer produces.\<close>

lemma json_round_trip:
  assumes "json_ok j"
  shows "json_loads (json_dumps ascii False j) = Some j"
  using json_loads_dumps [OF assms] by (simp add: json_dumps_def)

end
