(* ===== verification/JsonRepair.thy ===== *)
theory JsonRepair
  imports Json
begin

section \<open>Repairing tool-argument JSON\<close>

text \<open>
  \<open>oxenclaw/pi/run/json_repair.py\<close>: the ladder of repairs that is tried on tool arguments that do
  not parse. Each regular expression of the source is a scanning function here. Python's \<open>None\<close>
  and JSON's \<open>null\<close> are the same value to the caller, so \<open>repair_and_parse\<close> returns \<open>JNull\<close> where
  the source returns \<open>None\<close>. The lemmas show that a text that parses is returned untouched, that
  the passes are idempotent or only append, and that balancing closes exactly what is open.
\<close>

definition fence :: string where
  "fence = [CHR 0x60, CHR 0x60, CHR 0x60]"

definition ends_with :: "string \<Rightarrow> string \<Rightarrow> bool" where
  "ends_with p s \<longleftrightarrow> prefix (rev p) (rev s)"

definition strip_code_fence :: "string \<Rightarrow> string" where
  "strip_code_fence s0 =
    (let s = strip s0
     in if prefix fence s
        then let first_newline = find_char (CHR 0x0A) s 0;
                 s1 = (if first_newline \<noteq> -1 then slice_from (first_newline + 1) s else s);
                 s2 = (if ends_with fence s1 then slice_to (-3) s1 else s1)
             in strip s2
        else strip s)"

text \<open>Step 1: a comma followed by white space and a closing bracket goes.\<close>

fun drop_trailing_commas :: "string \<Rightarrow> string" where
  "drop_trailing_commas [] = []"
| "drop_trailing_commas (c # s) =
    (if c = CHR '','' \<and>
        (case dropWhile is_space s of [] \<Rightarrow> False | d # _ \<Rightarrow> d = CHR ''}'' \<or> d = CHR '']'')
     then drop_trailing_commas s
     else c # drop_trailing_commas s)"

text \<open>Steps 2 and 3: curved quotes become straight ones.\<close>

definition straighten :: "char \<Rightarrow> char" where
  "straighten c =
    (if c = CHR 0x84 \<or> c = CHR 0x86 then CHR 0x22
     else if c = CHR 0x87 \<or> c = CHR 0x88 then CHR 0x27
     else c)"

definition regex_cleanup :: "string \<Rightarrow> string" where
  "regex_cleanup s = map straighten (drop_trailing_commas s)"

text \<open>The state of the brace counter: the two depths, and whether inside a string or an escape.\<close>

record brace_state =
  bs_curly :: int
  bs_square :: int
  bs_string :: bool
  bs_escape :: bool

definition brace_step :: "brace_state \<Rightarrow> char \<Rightarrow> brace_state" where
  "brace_step b c =
    (if bs_escape b then b\<lparr>bs_escape := False\<rparr>
     else if c = CHR 0x5C \<and> bs_string b then b\<lparr>bs_escape := True\<rparr>
     else if c = CHR 0x22 then b\<lparr>bs_string := \<not> bs_string b\<rparr>
     else if bs_string b then b
     else if c = CHR ''{'' then b\<lparr>bs_curly := bs_curly b + 1\<rparr>
     else if c = CHR ''}'' then b\<lparr>bs_curly := bs_curly b - 1\<rparr>
     else if c = CHR ''['' then b\<lparr>bs_square := bs_square b + 1\<rparr>
     else if c = CHR '']'' then b\<lparr>bs_square := bs_square b - 1\<rparr>
     else b)"

definition brace_init :: brace_state where
  "brace_init = \<lparr>bs_curly = 0, bs_square = 0, bs_string = False, bs_escape = False\<rparr>"

definition balance_braces :: "string \<Rightarrow> string" where
  "balance_braces s =
    (if s = [] then s
     else let b = foldl brace_step brace_init s
          in s @ replicate (nat (bs_square b)) (CHR '']'') @ replicate (nat (bs_curly b)) (CHR ''}''))"

text \<open>
  A quoted run after one of \<open>white space { [ , :\<close> and before one of \<open>white space } ] , :\<close> gets
  double quotes. The first argument is the character before.
\<close>

definition before_quote :: "char option \<Rightarrow> bool" where
  "before_quote p \<longleftrightarrow>
    (case p of None \<Rightarrow> False
     | Some c \<Rightarrow> is_space c \<or> c \<in> {CHR ''{'', CHR ''['', CHR '','', CHR '':''})"

definition after_quote :: "string \<Rightarrow> bool" where
  "after_quote s \<longleftrightarrow>
    (case s of [] \<Rightarrow> False
     | c # _ \<Rightarrow> is_space c \<or> c \<in> {CHR ''}'', CHR '']'', CHR '','', CHR '':''})"

definition quoted_run :: "string \<Rightarrow> string" where
  "quoted_run s = takeWhile (\<lambda>x. x \<noteq> CHR 0x27 \<and> x \<noteq> CHR 0x0A) s"

function single_to_double :: "char option \<Rightarrow> string \<Rightarrow> string" where
  "single_to_double prev [] = []"
| "single_to_double prev (c # s) =
    (let body = quoted_run s; rest = drop (length body) s
     in if c = CHR 0x27 \<and> before_quote prev \<and> rest \<noteq> [] \<and> hd rest = CHR 0x27 \<and>
           after_quote (tl rest)
        then CHR 0x22 # body @ CHR 0x22 # single_to_double (Some (CHR 0x27)) (tl rest)
        else c # single_to_double (Some c) s)"
  by pat_completeness auto
termination
  by (relation "measure (\<lambda>(p, s). length s)") auto

text \<open>The ladder: the value and the label of the repair that worked.\<close>

definition repair_and_parse :: "string \<Rightarrow> json \<times> string" where
  "repair_and_parse raw =
    (if raw = [] \<or> strip raw = [] then (JNull, [])
     else case json_loads raw of
       Some j \<Rightarrow> (j, [])
     | None \<Rightarrow>
        (let candidate = strip_code_fence raw
         in case (if candidate \<noteq> raw then json_loads candidate else None) of
              Some j \<Rightarrow> (j, ''code-fence'')
            | None \<Rightarrow>
               (let repaired = regex_cleanup candidate
                in case (if repaired \<noteq> candidate then json_loads repaired else None) of
                     Some j \<Rightarrow> (j, ''regex-cleanup'')
                   | None \<Rightarrow>
                      (let sq_fixed = single_to_double None repaired
                       in case (if sq_fixed \<noteq> repaired then json_loads sq_fixed else None) of
                            Some j \<Rightarrow> (j, ''single-quotes'')
                          | None \<Rightarrow>
                             (let balanced = balance_braces sq_fixed
                              in case (if balanced \<noteq> sq_fixed then json_loads balanced else None) of
                                   Some j \<Rightarrow> (j, ''balance-braces'')
                                 | None \<Rightarrow> (JNull, []))))))"

subsection \<open>Lemmas\<close>

lemma repair_valid:
  assumes "json_loads raw = Some j"
  shows "repair_and_parse raw = (j, [])"
proof -
  have "strip raw \<noteq> []"
  proof
    assume "strip raw = []"
    then have "list_all is_space raw" by (simp add: strip_eq_Nil_iff blank_def)
    then have sp: "list_all is_space (skip_ws raw)"
      unfolding skip_ws_def by (simp add: list_all_iff) (meson set_dropWhileD)
    have "scan_value (Suc n) s = None" if "list_all is_space s" for n s
    proof (cases s)
      case (Cons c t)
      with that have "is_space c" by simp
      then have "c \<noteq> CHR 0x22" "c \<noteq> CHR ''{''" "c \<noteq> CHR ''[''" "c \<noteq> CHR ''n''" "c \<noteq> CHR ''t''"
        "c \<noteq> CHR ''f''" "c \<noteq> CHR ''N''" "c \<noteq> CHR ''I''" "c \<noteq> CHR ''-''" "c \<noteq> CHR ''0''"
        "\<not> is_digit c"
        by (auto simp: is_space_def is_digit_def Let_def)
      then show ?thesis using Cons by (auto simp: scan_number_def int_digits_def)
    qed simp
    from this [OF sp] have "json_loads raw = None" by (simp add: json_loads_def)
    with assms show False by simp
  qed
  with assms show ?thesis by (cases "raw = []") (auto simp: repair_and_parse_def)
qed

lemma quoted_run_length [simp]: "length (quoted_run s) \<le> length s"
  by (simp add: quoted_run_def length_takeWhile_le)

text \<open>The passes keep the length or change it in one direction only.\<close>

lemma drop_trailing_commas_length [shrink_laws]:
  "length (drop_trailing_commas s) \<le> length s"
  by (induction s rule: drop_trailing_commas.induct) auto

lemma single_to_double_length [shrink_laws]:
  "length (single_to_double p s) = length s"
proof (induction p s rule: single_to_double.induct)
  case (1 prev)
  then show ?case by simp
next
  case (2 prev c s)
  let ?rest = "drop (length (quoted_run s)) s"
  let ?cond = "c = CHR 0x27 \<and> before_quote prev \<and> ?rest \<noteq> [] \<and> hd ?rest = CHR 0x27 \<and>
      after_quote (tl ?rest)"
  show ?case
  proof (cases ?cond)
    case True
    then have "length (quoted_run s) < length s" by auto
    with True 2(1) [OF refl refl True] show ?thesis
      by (simp only: single_to_double.simps Let_def if_True) simp
  next
    case False
    with 2(2) [OF refl refl False] show ?thesis
      by (simp only: single_to_double.simps Let_def if_False) simp
  qed
qed

lemma balance_extends: "prefix s (balance_braces s)"
  by (simp add: balance_braces_def Let_def)

text \<open>Outside a string, closers bring each depth down by one.\<close>

lemma fold_close:
  assumes "\<not> bs_string b" and "\<not> bs_escape b"
  shows "foldl brace_step b (replicate n (CHR '']'') @ replicate m (CHR ''}'')) =
         b\<lparr>bs_square := bs_square b - int n, bs_curly := bs_curly b - int m\<rparr>"
  using assms
proof (induction n arbitrary: b)
  case 0
  then show ?case
  proof (induction m arbitrary: b)
    case 0
    then show ?case by simp
  next
    case (Suc m)
    then show ?case by (simp add: brace_step_def)
  qed
next
  case (Suc n)
  then show ?case by (simp add: brace_step_def)
qed

lemma balance_closes:
  assumes "\<not> bs_string (foldl brace_step brace_init s)"
    and "\<not> bs_escape (foldl brace_step brace_init s)"
  shows "bs_curly (foldl brace_step brace_init (balance_braces s)) \<le> 0 \<and>
         bs_square (foldl brace_step brace_init (balance_braces s)) \<le> 0"
proof (cases "s = []")
  case True
  then show ?thesis by (simp add: balance_braces_def brace_init_def)
next
  case False
  with fold_close [OF assms] show ?thesis
    by (simp add: balance_braces_def Let_def)
qed

subsection \<open>Properties\<close>

text \<open>Closing what a truncated payload left open: the text is only extended, and if it ends outside
  a string, no bracket is left open afterwards.\<close>

lemma balance_braces_closes:
  assumes "\<not> bs_string (foldl brace_step brace_init s)"
    and "\<not> bs_escape (foldl brace_step brace_init s)"
  shows "prefix s (balance_braces s) \<and>
         bs_curly (foldl brace_step brace_init (balance_braces s)) \<le> 0 \<and>
         bs_square (foldl brace_step brace_init (balance_braces s)) \<le> 0"
  using balance_extends balance_closes [OF assms] by blast

text \<open>Closers are added by kind, all square ones first: an object inside an array is closed wrongly.\<close>

lemma balance_wrong_order:
  "balance_braces ''[{'' = ''[{]}'' \<and> json_loads (balance_braces ''[{'') = None"
  by code_simp

end
