(* ===== verification/Attempt.thy ===== *)
theory Attempt
  imports JsonRepair
begin

section \<open>One provider call\<close>

text \<open>
  \<open>oxenclaw/pi/run/attempt.py\<close>: the request that \<open>run_attempt\<close> builds, the fold of the streamed
  events, and the assembly of the assistant message. The provider behind \<open>stream_simple\<close> is the
  list of events it yields; the loop stops consuming it at the first \<open>ErrorEvent\<close>. The observer
  \<open>on_event\<close> sees exactly the events recorded in the result. A tool call whose arguments parse to
  a value that is no object makes the constructor of \<open>ToolUseBlock\<close> raise: \<open>Inl ValidationError\<close>.
\<close>

subsection \<open>Leaked thinking tags\<close>

definition tag_at :: "string \<Rightarrow> string \<Rightarrow> bool" where
  "tag_at t s \<longleftrightarrow> lower (take (length t) s) = t"

fun find_tag :: "string \<Rightarrow> string \<Rightarrow> nat option" where
  "find_tag t [] = None"
| "find_tag t (c # s) = (if tag_at t (c # s) then Some 0 else map_option Suc (find_tag t s))"

text \<open>
  The substitution of \<open><think>.*?</think>\<close>: the text that stays, and the matches in order. The
  opening tag has 7 characters and the closing one 8.
\<close>

function drop_thinking :: "string \<Rightarrow> string \<times> string list" where
  "drop_thinking [] = ([], [])"
| "drop_thinking (c # s) =
    (case (if tag_at ''<think>'' (c # s) then find_tag ''</think>'' (drop 6 s) else None) of
       Some k \<Rightarrow>
         (let (visible, captured) = drop_thinking (drop (k + 14) s)
          in (visible, take (k + 15) (c # s) # captured))
     | None \<Rightarrow> (let (visible, captured) = drop_thinking s in (c # visible, captured)))"
  by pat_completeness auto
termination
  by (relation "measure length") auto

definition split_thinking_tags :: "string \<Rightarrow> string \<times> string" where
  "split_thinking_tags text =
    (if \<not> contains ''<think'' (lower text) then (text, [])
     else let (visible, captured) = drop_thinking text in (strip visible, join newline captured))"

subsection \<open>The request\<close>

definition default_max_tokens_for :: "model \<Rightarrow> int" where
  "default_max_tokens_for m =
    (let cap = max 256 (m_max_output_tokens m)
     in if m_supports_thinking m then min cap 4096 else min cap 1024)"

text \<open>The fields of \<open>RuntimeConfig\<close> that one attempt reads.\<close>

record attempt_config =
  rc_temperature :: real
  rc_max_tokens :: "int option"
  rc_thinking :: "string option"
  rc_timeout_seconds :: real
  rc_cache_control_breakpoints :: int
  rc_extra_params :: "(string \<times> json) list"

record request =
  rq_model :: model
  rq_api :: string
  rq_system :: "string option"
  rq_messages :: "message list"
  rq_tools :: "string list"
  rq_temperature :: real
  rq_max_tokens :: int
  rq_thinking :: "string option"
  rq_cache_control_breakpoints :: int
  rq_timeout_seconds :: real
  rq_extra_params :: "(string \<times> json) list"

definition effective_max_tokens :: "model \<Rightarrow> int option \<Rightarrow> int option \<Rightarrow> int" where
  "effective_max_tokens m pinned override =
    (case override of
       Some n \<Rightarrow> n
     | None \<Rightarrow> (case pinned of Some n \<Rightarrow> n | None \<Rightarrow> default_max_tokens_for m))"

definition build_request ::
  "model \<Rightarrow> string \<Rightarrow> string option \<Rightarrow> message list \<Rightarrow> string list \<Rightarrow>
   'z attempt_config_scheme \<Rightarrow> int option \<Rightarrow> request" where
  "build_request m api system messages tools config override =
    \<lparr>rq_model = m, rq_api = api, rq_system = system, rq_messages = messages, rq_tools = tools,
     rq_temperature = rc_temperature config,
     rq_max_tokens = effective_max_tokens m (rc_max_tokens config) override,
     rq_thinking = rc_thinking config,
     rq_cache_control_breakpoints =
       (if m_supports_prompt_cache m then rc_cache_control_breakpoints config else 0),
     rq_timeout_seconds = rc_timeout_seconds config,
     rq_extra_params = rc_extra_params config\<rparr>"

subsection \<open>The fold of the events\<close>

record stream_state =
  st_text :: "string list"
  st_thinking :: "string list"
  st_signature :: "string option"
  st_tool_buf :: "(string \<times> (string \<times> string)) list"
  st_tool_order :: "string list"
  st_usage :: "usage option"
  st_error :: "error_event option"
  st_stop :: "string option"
  st_events :: "event list"
  st_text_emitted :: bool

definition stream_init :: stream_state where
  "stream_init =
    \<lparr>st_text = [], st_thinking = [], st_signature = None, st_tool_buf = [], st_tool_order = [],
     st_usage = None, st_error = None, st_stop = None, st_events = [], st_text_emitted = False\<rparr>"

text \<open>\<open>tool_slot buf i\<close> is \<open>tool_buf.setdefault(i, ...)\<close>: a missing slot is empty.\<close>

definition tool_slot :: "(string \<times> (string \<times> string)) list \<Rightarrow> string \<Rightarrow> string \<times> string" where
  "tool_slot buf i = (case map_of buf i of Some slot \<Rightarrow> slot | None \<Rightarrow> ([], []))"

fun stream_event :: "stream_state \<Rightarrow> event \<Rightarrow> stream_state" where
  "stream_event st (TextDelta d) =
    st\<lparr>st_text := st_text st @ [d], st_text_emitted := st_text_emitted st \<or> d \<noteq> []\<rparr>"
| "stream_event st (ThinkingDelta d sig) =
    st\<lparr>st_thinking := (if d \<noteq> [] then st_thinking st @ [d] else st_thinking st),
       st_signature := (case sig of Some (c # s) \<Rightarrow> sig | _ \<Rightarrow> st_signature st)\<rparr>"
| "stream_event st (ToolUseStart i name) =
    st\<lparr>st_tool_buf := dict_set i (name, []) (st_tool_buf st),
       st_tool_order := st_tool_order st @ [i]\<rparr>"
| "stream_event st (ToolUseInputDelta i d) =
    (let (name, args) = tool_slot (st_tool_buf st) i
     in st\<lparr>st_tool_buf := dict_set i (name, args @ d) (st_tool_buf st)\<rparr>)"
| "stream_event st (ToolUseEnd i) = st"
| "stream_event st (UsageEvent u) = st\<lparr>st_usage := Some u\<rparr>"
| "stream_event st (StopEvent r) = st\<lparr>st_stop := Some r\<rparr>"
| "stream_event st (ErrorEvent e) = st\<lparr>st_error := Some e\<rparr>"

fun is_error_event :: "event \<Rightarrow> bool" where
  "is_error_event (ErrorEvent _) = True"
| "is_error_event _ = False"

fun stream_fold :: "stream_state \<Rightarrow> event list \<Rightarrow> stream_state" where
  "stream_fold st [] = st"
| "stream_fold st (e # es) =
    (let st' = stream_event (st\<lparr>st_events := st_events st @ [e]\<rparr>) e
     in if is_error_event e then st' else stream_fold st' es)"

subsection \<open>The assembly\<close>

definition parse_error_input :: "string \<Rightarrow> json" where
  "parse_error_input raw = JObj [(''_raw'', JStr raw), (''_parse_error'', JBool True)]"

definition tool_use_block :: "(string \<times> (string \<times> string)) list \<Rightarrow> string \<Rightarrow> py_error + block" where
  "tool_use_block buf tid =
    (let (name, args) = tool_slot buf tid
     in if name = [] then Inr (ToolUseBlock tid ''_unknown'' (parse_error_input args))
        else
          let input_obj =
            (if args = [] then JObj []
             else let parsed = fst (repair_and_parse args)
                  in if parsed = JNull then parse_error_input args else parsed)
          in if is_dict input_obj then Inr (ToolUseBlock tid name input_obj)
             else Inl ValidationError)"

fun tool_use_blocks ::
  "(string \<times> (string \<times> string)) list \<Rightarrow> string list \<Rightarrow> py_error + block list" where
  "tool_use_blocks buf [] = Inr []"
| "tool_use_blocks buf (tid # tids) =
    bind_err (tool_use_block buf tid) (\<lambda>b.
      bind_err (tool_use_blocks buf tids) (\<lambda>bs. Inr (b # bs)))"

definition text_blocks :: "stream_state \<Rightarrow> block list" where
  "text_blocks st =
    (let thinking = concat (st_thinking st);
         content = (if st_thinking st \<noteq> [] then [ThinkingBlock thinking (st_signature st)] else [])
     in if st_text st = [] then content
        else
          let (visible, leaked) = split_thinking_tags (concat (st_text st));
              content' =
                (if leaked = [] then content
                 else if content = [] then [ThinkingBlock leaked None]
                 else [ThinkingBlock (strip (thinking @ newline @ leaked)) (st_signature st)])
          in content' @ (if visible \<noteq> [] then [TextContent visible] else []))"

definition stop_reason_of :: "stream_state \<Rightarrow> string" where
  "stop_reason_of st =
    (case st_stop st of
       Some (c # r) \<Rightarrow> c # r
     | _ \<Rightarrow> (case st_error st of Some _ \<Rightarrow> ''error'' | None \<Rightarrow> ''end_turn''))"

definition assemble :: "stream_state \<Rightarrow> py_error + attempt_result" where
  "assemble st =
    bind_err (tool_use_blocks (st_tool_buf st) (st_tool_order st)) (\<lambda>tools.
      let content = text_blocks st @ tools
      in Inr \<lparr>ar_message =
                \<lparr>am_content = (if content = [] then [TextContent []] else content),
                 am_stop_reason = Some (stop_reason_of st), am_usage = st_usage st\<rparr>,
              ar_usage = st_usage st, ar_error = st_error st, ar_events = st_events st,
              ar_text_emitted = st_text_emitted st\<rparr>)"

text \<open>One attempt on the events that the provider streams for the request.\<close>

definition run_attempt :: "event list \<Rightarrow> py_error + attempt_result" where
  "run_attempt stream = assemble (stream_fold stream_init stream)"

subsection \<open>Lemmas on the tags\<close>

lemma find_tag_Some: "find_tag t s = Some k \<Longrightarrow> 0 < length t \<Longrightarrow> k + length t \<le> length s"
proof (induction s arbitrary: k)
  case Nil
  then show ?case by simp
next
  case (Cons c s)
  show ?case
  proof (cases "tag_at t (c # s)")
    case True
    then have "length (lower (take (length t) (c # s))) = length t" by (simp add: tag_at_def)
    then show ?thesis using True Cons.prems by simp
  next
    case False
    with Cons show ?thesis by auto
  qed
qed

lemma drop_thinking_length [shrink_laws]:
  "drop_thinking s = (v, cs) \<Longrightarrow> length v + sum_list (map length cs) = length s"
proof (induction s arbitrary: v cs rule: drop_thinking.induct)
  case 1
  then show ?case by simp
next
  case (2 c s)
  let ?f = "if tag_at ''<think>'' (c # s) then find_tag ''</think>'' (drop 6 s) else None"
  show ?case
  proof (cases ?f)
    case None
    with 2(1) [OF None] 2(3) show ?thesis by (auto split: prod.splits simp del: if_split)
  next
    case (Some k)
    then have "find_tag ''</think>'' (drop 6 s) = Some k" by (auto split: if_splits)
    from find_tag_Some [OF this] have "k + 14 \<le> length s" by simp
    moreover obtain v' cs' where "drop_thinking (drop (k + 14) s) = (v', cs')"
      by (cases "drop_thinking (drop (k + 14) s)")
    ultimately show ?thesis using 2(2) [OF Some] 2(3) Some by (auto simp del: if_split)
  qed
qed

lemma drop_thinking_subseq: "subseq (fst (drop_thinking s)) s"
proof (induction s rule: drop_thinking.induct)
  case 1
  then show ?case by simp
next
  case (2 c s)
  let ?f = "if tag_at ''<think>'' (c # s) then find_tag ''</think>'' (drop 6 s) else None"
  show ?case
  proof (cases ?f)
    case None
    with 2(1) [OF None] show ?thesis by (auto split: prod.splits simp del: if_split)
  next
    case (Some k)
    have "subseq (fst (drop_thinking (drop (k + 14) s))) s"
      using 2(2) [OF Some] suffix_imp_subseq [OF suffix_drop [of "k + 14" s]]
      by (rule subseq_order.trans)
    then have "subseq (fst (drop_thinking (drop (k + 14) s))) (c # s)" by auto
    with Some show ?thesis by (auto split: prod.splits simp del: if_split)
  qed
qed

subsection \<open>Lemmas on the fold\<close>

text \<open>The events that are consumed: up to the first error, inclusive.\<close>

fun consumed :: "event list \<Rightarrow> event list" where
  "consumed [] = []"
| "consumed (e # es) = e # (if is_error_event e then [] else consumed es)"

lemma consumed_prefix: "prefix (consumed es) es"
  by (induction es) auto

lemma stream_fold_consumed:
  "stream_fold st es = foldl (\<lambda>st e. stream_event (st\<lparr>st_events := st_events st @ [e]\<rparr>) e) st (consumed es)"
  by (induction es arbitrary: st) (auto simp: Let_def)

lemma stream_event_events [simp]: "st_events (stream_event st e) = st_events st"
  by (cases e) (auto simp: Let_def split: prod.splits)

lemma fold_events: "st_events (stream_fold st es) = st_events st @ consumed es"
  by (induction es arbitrary: st) (auto simp: Let_def)

fun start_id :: "event \<Rightarrow> string list" where
  "start_id (ToolUseStart i _) = [i]"
| "start_id _ = []"

lemma stream_event_order: "st_tool_order (stream_event st e) = st_tool_order st @ start_id e"
  by (cases e) (auto simp: Let_def split: prod.splits)

lemma fold_order:
  "st_tool_order (stream_fold st es) = st_tool_order st @ concat (map start_id (consumed es))"
  by (induction es arbitrary: st) (auto simp: Let_def stream_event_order)

lemma stream_event_error:
  "st_error (stream_event st e) = (case e of ErrorEvent x \<Rightarrow> Some x | _ \<Rightarrow> st_error st)"
  by (cases e) (auto simp: Let_def split: prod.splits)

lemma fold_error:
  "st_error st = None \<Longrightarrow>
   st_error (stream_fold st es) =
     (case List.find is_error_event es of Some (ErrorEvent x) \<Rightarrow> Some x | _ \<Rightarrow> None)"
proof (induction es arbitrary: st)
  case Nil
  then show ?case by simp
next
  case (Cons e es)
  then show ?case
    by (cases e) (auto simp: Let_def stream_event_error simp del: stream_event.simps)
qed

fun emits_text :: "event \<Rightarrow> bool" where
  "emits_text (TextDelta d) = (d \<noteq> [])"
| "emits_text _ = False"

lemma stream_event_emitted:
  "st_text_emitted (stream_event st e) \<longleftrightarrow> st_text_emitted st \<or> emits_text e"
  by (cases e) (auto simp: Let_def split: prod.splits)

lemma fold_emitted:
  "st_text_emitted (stream_fold st es) \<longleftrightarrow> st_text_emitted st \<or> list_ex emits_text (consumed es)"
  by (induction es arbitrary: st) (auto simp: Let_def stream_event_emitted)

subsection \<open>Lemmas on the assembly\<close>

lemma tool_use_block_Inr:
  "tool_use_block buf t = Inr b \<Longrightarrow> is_tool_use b \<and> tool_id b = t \<and> assistant_block b"
  by (auto simp: tool_use_block_def parse_error_input_def Let_def split: prod.splits if_splits)

lemma tool_use_blocks_Inr:
  "tool_use_blocks buf ts = Inr bs \<Longrightarrow>
   map tool_id bs = ts \<and> list_all is_tool_use bs \<and> list_all assistant_block bs"
  by (induction ts arbitrary: bs) (auto simp: bind_err_Inr dest: tool_use_block_Inr)

lemma text_blocks_no_tools: "list_all (\<lambda>b. \<not> is_tool_use b \<and> assistant_block b) (text_blocks st)"
  by (auto simp: text_blocks_def Let_def split: prod.split)

lemma assemble_Inr:
  assumes "assemble st = Inr r"
  obtains tools where "tool_use_blocks (st_tool_buf st) (st_tool_order st) = Inr tools"
    and "am_content (ar_message r) =
           (if text_blocks st @ tools = [] then [TextContent []] else text_blocks st @ tools)"
    and "am_stop_reason (ar_message r) = Some (stop_reason_of st)"
    and "ar_usage r = st_usage st" and "ar_error r = st_error st"
    and "ar_events r = st_events st" and "ar_text_emitted r = st_text_emitted st"
  using assms by (auto simp: assemble_def bind_err_Inr Let_def)

lemma assemble_tool_uses:
  assumes "assemble st = Inr r"
  shows "map tool_id (tool_uses (ar_message r)) = st_tool_order st"
proof -
  obtain tools where t: "tool_use_blocks (st_tool_buf st) (st_tool_order st) = Inr tools"
    and c: "am_content (ar_message r) =
           (if text_blocks st @ tools = [] then [TextContent []] else text_blocks st @ tools)"
    by (rule assemble_Inr [OF assms])
  have none: "filter is_tool_use (text_blocks st) = []"
    using text_blocks_no_tools [of st] by (auto simp: list_all_iff filter_empty_conv)
  have all: "filter is_tool_use tools = tools"
    using tool_use_blocks_Inr [OF t] by (auto simp: list_all_iff filter_id_conv)
  have "tool_uses (ar_message r) = tools"
    by (auto simp: tool_uses_def c none all)
  then show ?thesis using tool_use_blocks_Inr [OF t] by simp
qed

lemma assemble_ok:
  assumes "assemble st = Inr r"
  shows "message_ok (AssistantMessage (ar_message r)) \<and> am_content (ar_message r) \<noteq> []"
proof -
  obtain tools where t: "tool_use_blocks (st_tool_buf st) (st_tool_order st) = Inr tools"
    and c: "am_content (ar_message r) =
           (if text_blocks st @ tools = [] then [TextContent []] else text_blocks st @ tools)"
    by (rule assemble_Inr [OF assms])
  have "list_all assistant_block (text_blocks st @ tools)"
    using tool_use_blocks_Inr [OF t] text_blocks_no_tools [of st] by (auto simp: list_all_iff)
  then show ?thesis by (auto simp: c)
qed

lemma run_attempt_error:
  assumes "run_attempt stream = Inr r"
  shows "(ar_error r = None) \<longleftrightarrow> \<not> list_ex is_error_event stream"
proof -
  have "ar_error r = st_error (stream_fold stream_init stream)"
    using assms unfolding run_attempt_def by (rule assemble_Inr)
  then have r: "ar_error r = (case List.find is_error_event stream of
      Some (ErrorEvent x) \<Rightarrow> Some x | _ \<Rightarrow> None)"
    by (simp add: fold_error stream_init_def)
  show ?thesis
  proof (cases "List.find is_error_event stream")
    case None
    moreover from None have "\<not> list_ex is_error_event stream"
      by (simp add: find_None_iff list_ex_iff)
    ultimately show ?thesis using r by simp
  next
    case (Some e)
    then have "is_error_event e" "e \<in> set stream"
      by (auto simp: find_Some_iff)
    moreover from this have "list_ex is_error_event stream"
      by (auto simp: list_ex_iff)
    ultimately show ?thesis using r Some by (cases e) simp_all
  qed
qed

text \<open>The fragments of one call, in any number of deltas, make up its arguments.\<close>

lemma fold_deltas:
  "tool_slot (st_tool_buf (stream_fold st (map (ToolUseInputDelta i) ds))) i =
     (fst (tool_slot (st_tool_buf st) i), snd (tool_slot (st_tool_buf st) i) @ concat ds)"
proof (induction ds arbitrary: st)
  case Nil
  then show ?case by simp
next
  case (Cons d ds)
  then show ?case
    by (simp add: Let_def case_prod_beta) (simp add: tool_slot_def map_of_dict_set)
qed

text \<open>The deltas of one call change nothing but its slot and the record of events.\<close>

lemma fold_deltas_frame:
  "st_tool_order (stream_fold st (map (ToolUseInputDelta i) ds)) = st_tool_order st"
  "st_text (stream_fold st (map (ToolUseInputDelta i) ds)) = st_text st"
  "st_thinking (stream_fold st (map (ToolUseInputDelta i) ds)) = st_thinking st"
  "st_error (stream_fold st (map (ToolUseInputDelta i) ds)) = st_error st"
  by (induction ds arbitrary: st) (simp_all add: Let_def case_prod_beta)

lemma fold_deltas_stop:
  "stream_fold st (map (ToolUseInputDelta i) ds @ [StopEvent r]) =
     (let st1 = stream_fold st (map (ToolUseInputDelta i) ds)
      in st1\<lparr>st_events := st_events st1 @ [StopEvent r], st_stop := Some r\<rparr>)"
  by (induction ds arbitrary: st) (simp_all add: Let_def case_prod_beta)

subsection \<open>Properties\<close>

text \<open>What an attempt assembles. The message is valid and has content; its tool calls are the
  started ones, in the order of their start events; the recorded events are those up to the
  first error; text counts as emitted when one of these carried a non-empty delta; and the attempt
  has failed exactly when the stream holds an error event.\<close>

lemma attempt_assembles:
  assumes "run_attempt es = Inr r"
  shows "message_ok (AssistantMessage (ar_message r)) \<and> am_content (ar_message r) \<noteq> [] \<and>
    map tool_id (tool_uses (ar_message r)) = concat (map start_id (consumed es)) \<and>
    ar_events r = consumed es \<and>
    (ar_text_emitted r \<longleftrightarrow> list_ex emits_text (consumed es)) \<and>
    (ar_error r \<noteq> None \<longleftrightarrow> list_ex is_error_event es)"
proof -
  let ?st = "stream_fold stream_init es"
  have a: "assemble ?st = Inr r" using assms by (simp add: run_attempt_def)
  obtain tools where "ar_events r = st_events ?st" "ar_text_emitted r = st_text_emitted ?st"
    by (rule assemble_Inr [OF a])
  then show ?thesis
    using assemble_ok [OF a] assemble_tool_uses [OF a] run_attempt_error [OF assms]
    by (simp add: fold_events fold_order fold_emitted stream_init_def)
qed



text \<open>The tag filter partitions the text: what stays visible and what is captured have together
  the length of the text, and the visible part is a subsequence of it.\<close>

lemma thinking_tags_partition:
  "length (fst (drop_thinking s)) + sum_list (map length (snd (drop_thinking s))) = length s \<and>
   subseq (fst (drop_thinking s)) s"
  using drop_thinking_length [of s] drop_thinking_subseq [of s] by (cases "drop_thinking s") auto

end
