(* ===== verification/ArgLoop.thy ===== *)
theory ArgLoop
  imports Json "HOL-Library.Multiset"
begin

section \<open>Argument-loop detection\<close>

text \<open>
  \<open>oxenclaw/pi/run/arg_loop_detector.py\<close>: the detector that stops a model which repeats one call
  with the same arguments. The SHA-1 hex digest of \<open>hashlib\<close> is the parameter \<open>sha\<close>, a
  function of the canonical JSON text. The lemmas show that the streak is the length of the
  longest run of equal keys that ends the sequence of observed calls, and that the digest does not
  depend on the order of the members of the arguments.
\<close>

definition digest_args :: "(string \<Rightarrow> string) \<Rightarrow> json option \<Rightarrow> string" where
  "digest_args sha args =
    (case args of
       None \<Rightarrow> ''0''
     | Some a \<Rightarrow> if \<not> truthy a then ''0'' else slice_to 16 (sha (json_dumps False True a)))"

type_synonym call_key = "string \<times> string"

record arg_loop =
  al_threshold :: int
  al_streak :: int
  al_last_key :: "call_key option"
  al_recent :: "call_key list"

definition arg_loop_new :: "int \<Rightarrow> arg_loop" where
  "arg_loop_new threshold =
    \<lparr>al_threshold = threshold, al_streak = 0, al_last_key = None, al_recent = []\<rparr>"

text \<open>Appending to a deque of at most 16 entries drops the oldest ones.\<close>

definition push_recent :: "call_key \<Rightarrow> call_key list \<Rightarrow> call_key list" where
  "push_recent k ks = drop (length ks + 1 - 16) (ks @ [k])"

definition observe ::
  "(string \<Rightarrow> string) \<Rightarrow> string \<Rightarrow> json option \<Rightarrow> arg_loop \<Rightarrow> bool \<times> arg_loop" where
  "observe sha tool_name args d =
    (let key = (tool_name, digest_args sha args);
         d1 = d\<lparr>al_recent := push_recent key (al_recent d)\<rparr>;
         d2 = (if Some key = al_last_key d then d1\<lparr>al_streak := al_streak d + 1\<rparr>
               else d1\<lparr>al_streak := 1, al_last_key := Some key\<rparr>)
     in (al_threshold d2 \<le> al_streak d2, d2))"

definition reset_loop :: "arg_loop \<Rightarrow> arg_loop" where
  "reset_loop d = d\<lparr>al_streak := 0, al_last_key := None, al_recent := []\<rparr>"

text \<open>A sequence of observations, oldest first.\<close>

fun observe_all :: "(string \<Rightarrow> string) \<Rightarrow> (string \<times> json option) list \<Rightarrow> arg_loop \<Rightarrow> arg_loop" where
  "observe_all sha [] d = d"
| "observe_all sha ((n, a) # calls) d = observe_all sha calls (snd (observe sha n a d))"

subsection \<open>Lemmas\<close>

text \<open>The specification: the length of the run of equal keys at the end of the history.\<close>

definition final_run :: "call_key list \<Rightarrow> nat" where
  "final_run ks = (case rev ks of [] \<Rightarrow> 0 | k # r \<Rightarrow> 1 + length (takeWhile (\<lambda>x. x = k) r))"

definition call_keys :: "(string \<Rightarrow> string) \<Rightarrow> (string \<times> json option) list \<Rightarrow> call_key list" where
  "call_keys sha calls = map (\<lambda>(n, a). (n, digest_args sha a)) calls"

lemma final_run_snoc:
  "final_run (ks @ [k]) = (if ks \<noteq> [] \<and> last ks = k then final_run ks + 1 else 1)"
proof (cases ks rule: rev_cases)
  case Nil
  then show ?thesis by (simp add: final_run_def)
next
  case (snoc ys y)
  then show ?thesis by (simp add: final_run_def)
qed

text \<open>What the state says of the history of keys since the last reset.\<close>

definition loop_inv :: "call_key list \<Rightarrow> arg_loop \<Rightarrow> bool" where
  "loop_inv ks d \<longleftrightarrow>
     al_streak d = int (final_run ks) \<and>
     al_last_key d = (if ks = [] then None else Some (last ks)) \<and>
     al_recent d = drop (length ks - 16) ks"

lemma loop_inv_new: "loop_inv [] (arg_loop_new t)"
  by (simp add: loop_inv_def arg_loop_new_def final_run_def)

lemma loop_inv_reset: "loop_inv [] (reset_loop d)"
  by (simp add: loop_inv_def reset_loop_def final_run_def)

lemma push_recent_drop:
  "push_recent k (drop (length ks - 16) ks) = drop (length (ks @ [k]) - 16) (ks @ [k])"
proof -
  have "length ks - (length ks - 16) + 1 - 16 + (length ks - 16) = length ks - 15" by simp
  then show ?thesis by (simp add: push_recent_def add.commute)
qed

lemma loop_inv_observe:
  assumes "loop_inv ks d"
  shows "loop_inv (ks @ [(n, digest_args sha a)]) (snd (observe sha n a d))"
  using assms push_recent_drop [of "(n, digest_args sha a)" ks]
  by (auto simp: loop_inv_def observe_def Let_def final_run_snoc)

lemma observe_threshold [keep_laws]: "al_threshold (snd (observe sha n a d)) = al_threshold d"
  by (simp add: observe_def Let_def)

lemma observe_result:
  "fst (observe sha n a d) \<longleftrightarrow> al_threshold d \<le> al_streak (snd (observe sha n a d))"
  by (simp add: observe_def Let_def)

lemma loop_inv_all:
  "loop_inv ks d \<Longrightarrow> loop_inv (ks @ call_keys sha calls) (observe_all sha calls d)"
proof (induction calls arbitrary: ks d)
  case Nil
  then show ?case by (simp add: call_keys_def)
next
  case (Cons c calls)
  obtain n a where c: "c = (n, a)" by (cases c)
  from Cons.IH [OF loop_inv_observe [OF Cons.prems, of n sha a]] show ?case
    by (simp add: c call_keys_def)
qed

lemma observe_all_threshold: "al_threshold (observe_all sha calls d) = al_threshold d"
  by (induction calls arbitrary: d) (auto simp: observe_threshold)

lemma final_run_replicate: "0 < n \<Longrightarrow> final_run (ks @ replicate n k) \<ge> n"
proof (induction n)
  case 0
  then show ?case by simp
next
  case (Suc n)
  have "ks @ replicate (Suc n) k = (ks @ replicate n k) @ [k]"
    by (simp add: replicate_append_same)
  with Suc show ?case
    by (cases n) (simp_all add: final_run_snoc del: append_assoc replicate_Suc)
qed

text \<open>Sorting makes the text of an object independent of the order of its members.\<close>

lemma sort_members_map: "json_sort_members kvs = map (\<lambda>(k, v). (k, json_sort v)) kvs"
  by (induction kvs) auto

lemma sort_object_order:
  assumes m: "mset kvs = mset kvs'" and d: "distinct (map fst kvs)"
  shows "json_sort (JObj kvs) = json_sort (JObj kvs')"
proof -
  let ?s = "map (\<lambda>(k, v). (k, json_sort v))"
  have fst: "map fst (?s xs) = map fst xs" for xs :: "(string \<times> json) list"
    by (induction xs) auto
  have "sort_key fst (?s kvs) = sort_key fst (?s kvs')"
  proof (rule sort_key_inj_key_eq)
    show "mset (?s kvs) = mset (sort_key fst (?s kvs'))" using m by simp
    show "inj_on fst (set (?s kvs))" using d fst [of kvs] by (metis distinct_map)
  qed (rule sorted_sort_key)
  then show ?thesis by (simp add: sort_members_map)
qed

lemma digest_object_order:
  assumes "mset kvs = mset kvs'" and "distinct (map fst kvs)"
  shows "digest_args sha (Some (JObj kvs)) = digest_args sha (Some (JObj kvs'))"
proof -
  have "kvs = [] \<longleftrightarrow> kvs' = []" using assms(1) by auto
  with sort_object_order [OF assms] show ?thesis by (simp add: digest_args_def json_dumps_def)
qed

subsection \<open>Properties\<close>

text \<open>C39. When the detector fires: exactly when the run of equal calls that ends the history, the new
  call included, has reached the threshold.\<close>

theorem arg_loop_fires:
  "fst (observe sha n a (observe_all sha calls (arg_loop_new t))) \<longleftrightarrow>
     t \<le> int (final_run (call_keys sha (calls @ [(n, a)])))"
proof -
  let ?d = "observe_all sha calls (arg_loop_new t)"
  have "loop_inv (call_keys sha calls) ?d"
    using loop_inv_all [OF loop_inv_new, of sha calls t] by simp
  from loop_inv_observe [OF this, of n sha a]
  have "al_streak (snd (observe sha n a ?d)) = int (final_run (call_keys sha (calls @ [(n, a)])))"
    by (simp add: loop_inv_def call_keys_def)
  then show ?thesis
    by (simp add: observe_result observe_all_threshold arg_loop_new_def)
qed

text \<open>The digest of a call does not depend on the order of the members of its arguments.\<close>

lemma digest_ignores_order:
  assumes "mset kvs = mset kvs'" and "distinct (map fst kvs)"
  shows "digest_args sha (Some (JObj kvs)) = digest_args sha (Some (JObj kvs'))"
  by (rule digest_object_order [OF assms])

end
