(* ===== verification/Truncation.thy ===== *)
theory Truncation
  imports Messages
begin

section \<open>Truncating tool results\<close>

text \<open>
  \<open>oxenclaw/pi/run/tool_result_truncation.py\<close>: the head-and-tail truncation of one text, the budget
  that a model's window allows, and the pass over the result messages. The pattern for an
  important tail is a search for one of a list of words between word boundaries, ignoring case.

  The interface \<open>text_clip\<close> is what the run loop relies on: a text that fits is left alone, and a
  clipped text exceeds the limit by a fixed slack at most. Its client lemmas are proved once; the
  interpretation on \<open>truncate_tool_result_text\<close> has the length of the suffix as its slack, which
  is reached: \<open>truncate_default_exact\<close> says for which limits the slack is 0.
\<close>

subsection \<open>Interface\<close>

locale text_clip =
  fixes clip :: "string \<Rightarrow> int \<Rightarrow> string"
    and slack :: int
    and legal :: "string \<Rightarrow> bool"
  assumes clip_fits: "0 < n \<Longrightarrow> int (length t) \<le> n \<Longrightarrow> clip t n = t"
    and clip_bound: "0 < n \<Longrightarrow> legal t \<Longrightarrow> int (length (clip t n)) \<le> n + slack"
begin

lemma clip_outputs_bound:
  assumes "0 < n" and "list_all legal ts"
  shows "sum_list (map (\<lambda>t. int (length (clip t n))) ts) \<le> int (length ts) * (n + slack)"
  using assms(2)
proof (induction ts)
  case Nil
  then show ?case by simp
next
  case (Cons t ts)
  with clip_bound [OF assms(1), of t] show ?case by (simp add: distrib_right)
qed

lemma clip_all_fit:
  assumes "0 < n" and "\<forall>t \<in> set ts. int (length t) \<le> n"
  shows "map (\<lambda>t. clip t n) ts = ts"
  using assms clip_fits by (induction ts) auto

lemma clip_twice:
  assumes "0 < n" and "0 < m" and "n + slack \<le> m" and "legal t"
  shows "clip (clip t n) m = clip t n"
  using clip_fits [OF assms(2)] clip_bound [OF assms(1,4)] assms(3) by simp

end

subsection \<open>Constants\<close>

definition MAX_TOOL_RESULT_CONTEXT_SHARE :: real where
  "MAX_TOOL_RESULT_CONTEXT_SHARE = 3 / 10"

definition HARD_MAX_TOOL_RESULT_CHARS :: int where
  "HARD_MAX_TOOL_RESULT_CHARS = 400000"

definition MIN_KEEP_CHARS :: int where
  "MIN_KEEP_CHARS = 2000"

definition TRUNCATION_SUFFIX :: string where
  "TRUNCATION_SUFFIX =
    newline @ newline @ [CHR 0x80, CHR 0x81] @ '' [Content truncated '' @ [CHR 0x82] @
    '' original was too large for the model's context window. The content above is a partial view. If you need more, request specific sections or use offset/limit parameters to read smaller chunks.]''"

definition MIDDLE_OMISSION_MARKER :: string where
  "MIDDLE_OMISSION_MARKER =
    newline @ newline @ [CHR 0x80, CHR 0x81] @ '' [... middle content omitted '' @ [CHR 0x82] @
    '' showing head and tail ...]'' @ newline @ newline"

subsection \<open>Important tails\<close>

definition important_words :: "string list" where
  "important_words =
    [''error'', ''exception'', ''failed'', ''fatal'', ''traceback'', ''panic'', ''stack trace'',
     ''errno'', ''exit code'', ''total'', ''summary'', ''result'', ''complete'', ''finished'',
     ''done'']"

definition word_at :: "string list \<Rightarrow> string \<Rightarrow> bool" where
  "word_at ws s \<longleftrightarrow>
     list_ex (\<lambda>w. prefix w (lower s) \<and>
                  (case drop (length w) s of [] \<Rightarrow> True | c # _ \<Rightarrow> \<not> is_word c)) ws"

text \<open>The first argument says whether the character before is a word character.\<close>

fun word_search :: "bool \<Rightarrow> string list \<Rightarrow> string \<Rightarrow> bool" where
  "word_search prev ws [] = False"
| "word_search prev ws (c # s) =
    ((\<not> prev \<and> word_at ws (c # s)) \<or> word_search (is_word c) ws s)"

definition ends_with_brace :: "string \<Rightarrow> bool" where
  "ends_with_brace s \<longleftrightarrow> (case rev (strip s) of [] \<Rightarrow> False | c # _ \<Rightarrow> c = CHR ''}'')"

definition has_important_tail :: "string \<Rightarrow> bool" where
  "has_important_tail text =
    (let tail = slice_from (-2000) text
     in if word_search False important_words tail then True
        else if ends_with_brace tail then True
        else False)"

subsection \<open>One text\<close>

text \<open>The cut that keeps the head and, after the marker, the tail.\<close>

definition head_and_tail :: "string \<Rightarrow> int \<Rightarrow> int \<Rightarrow> string \<Rightarrow> string" where
  "head_and_tail text head_budget tail_budget suf =
    (let head_newline = rfind_char (CHR 0x0A) text head_budget;
         head_cut = (if py_int (real_of_int head_budget * (8 / 10)) < head_newline
                     then head_newline else head_budget);
         tail_start = int (length text) - tail_budget;
         tail_newline = find_char (CHR 0x0A) text tail_start;
         tail_from = (if tail_newline \<noteq> -1 \<and>
                         tail_newline < tail_start + py_int (real_of_int tail_budget * (2 / 10))
                      then tail_newline + 1 else tail_start)
     in slice_to head_cut text @ MIDDLE_OMISSION_MARKER @ slice_from tail_from text @ suf)"

definition head_only :: "string \<Rightarrow> int \<Rightarrow> string \<Rightarrow> string" where
  "head_only text budget suf =
    (let last_newline = rfind_char (CHR 0x0A) text budget;
         cut_point = (if py_int (real_of_int budget * (8 / 10)) < last_newline
                      then last_newline else budget)
     in slice_to cut_point text @ suf)"

definition keep_floor :: "int \<Rightarrow> string \<Rightarrow> int \<Rightarrow> int" where
  "keep_floor max_chars suf min_keep_chars =
    (if max_chars < min_keep_chars then max 0 (max_chars - int (length suf))
     else min_keep_chars)"

definition truncate_tool_result_text :: "string \<Rightarrow> int \<Rightarrow> string \<Rightarrow> int \<Rightarrow> string" where
  "truncate_tool_result_text text max_chars suf min_keep_chars =
    (if max_chars \<le> 0 then []
     else if int (length text) \<le> max_chars then text
     else
       let min_keep = keep_floor max_chars suf min_keep_chars;
           budget = max min_keep (max_chars - int (length suf));
           tail_budget = min (budget div 3) 4000;
           head_budget = budget - tail_budget - int (length MIDDLE_OMISSION_MARKER)
       in if has_important_tail text \<and> min_keep * 2 < budget \<and> min_keep < head_budget
          then head_and_tail text head_budget tail_budget suf
          else head_only text budget suf)"

text \<open>With the default suffix and floor, as the run loop calls it.\<close>

definition truncate_default :: "string \<Rightarrow> int \<Rightarrow> string" where
  "truncate_default text max_chars =
     truncate_tool_result_text text max_chars TRUNCATION_SUFFIX MIN_KEEP_CHARS"

definition calculate_max_tool_result_chars :: "int \<Rightarrow> int" where
  "calculate_max_tool_result_chars context_window_tokens =
    (let safe_tokens =
           max 0 (py_int (real_of_int context_window_tokens * MAX_TOOL_RESULT_CONTEXT_SHARE));
         raw = safe_tokens * 4;
         capped = min raw HARD_MAX_TOOL_RESULT_CHARS
     in max MIN_KEEP_CHARS capped)"

subsection \<open>Messages\<close>

fun block_text_len :: "block \<Rightarrow> int" where
  "block_text_len (TextContent t) = int (length t)"
| "block_text_len _ = 0"

fun content_text_len :: "content \<Rightarrow> int" where
  "content_text_len (CStr s) = int (length s)"
| "content_text_len (CBlocks bs) = sum_list (map block_text_len bs)"

definition tool_result_text_length :: "tool_result list \<Rightarrow> int" where
  "tool_result_text_length rs = sum_list (map (\<lambda>r. content_text_len (tr_content r)) rs)"

text \<open>One part of a list content, with its share of the budget.\<close>

fun truncate_part :: "int \<Rightarrow> int \<Rightarrow> block \<Rightarrow> block" where
  "truncate_part max_chars total_len (TextContent t) =
    (if 0 < length t
     then let share = real (length t) / real_of_int (max 1 total_len);
              block_budget = max MIN_KEEP_CHARS (py_int (real_of_int max_chars * share))
          in TextContent (truncate_default t block_budget)
     else TextContent t)"
| "truncate_part max_chars total_len b = b"

definition truncate_content :: "int \<Rightarrow> tool_result \<Rightarrow> tool_result \<times> bool" where
  "truncate_content max_chars r =
    (case tr_content r of
       CStr s \<Rightarrow>
         if int (length s) \<le> max_chars then (r, False)
         else (r\<lparr>tr_content := CStr (truncate_default s max_chars)\<rparr>, True)
     | CBlocks bs \<Rightarrow>
         let total_len = sum_list (map block_text_len bs)
         in if total_len \<le> max_chars then (r, False)
            else let bs' = map (truncate_part max_chars total_len) bs
                 in if bs' \<noteq> bs then (r\<lparr>tr_content := CBlocks bs'\<rparr>, True) else (r, False))"

definition truncate_tool_result_message ::
  "tool_result list \<Rightarrow> int \<Rightarrow> tool_result list \<times> nat" where
  "truncate_tool_result_message rs max_chars =
    (if tool_result_text_length rs \<le> max_chars then (rs, 0)
     else (map (fst \<circ> truncate_content max_chars) rs,
           length (filter (snd \<circ> truncate_content max_chars) rs)))"

fun truncate_oversized_message :: "int \<Rightarrow> message \<Rightarrow> message \<times> nat" where
  "truncate_oversized_message max_chars (ToolResultMessage rs) =
    (case truncate_tool_result_message rs max_chars of (rs', n) \<Rightarrow> (ToolResultMessage rs', n))"
| "truncate_oversized_message max_chars m = (m, 0)"

definition truncate_oversized_tool_results_in_messages ::
  "message list \<Rightarrow> int \<Rightarrow> message list \<times> nat" where
  "truncate_oversized_tool_results_in_messages ms context_window_tokens =
    (let max_chars = calculate_max_tool_result_chars context_window_tokens
     in (map (fst \<circ> truncate_oversized_message max_chars) ms,
         sum_list (map (snd \<circ> truncate_oversized_message max_chars) ms)))"

definition session_likely_has_oversized_tool_results :: "message list \<Rightarrow> int \<Rightarrow> bool" where
  "session_likely_has_oversized_tool_results ms context_window_tokens =
    (let max_chars = calculate_max_tool_result_chars context_window_tokens
     in list_ex (\<lambda>m. case m of ToolResultMessage rs \<Rightarrow> max_chars < tool_result_text_length rs
                               | _ \<Rightarrow> False) ms)"

subsection \<open>Lemmas\<close>

lemma length_suffix [simp]: "length TRUNCATION_SUFFIX = 217"
  by (simp add: TRUNCATION_SUFFIX_def newline_def)

lemma length_marker [simp]: "length MIDDLE_OMISSION_MARKER = 63"
  by (simp add: MIDDLE_OMISSION_MARKER_def newline_def)

lemma length_slice_to_le: "0 \<le> n \<Longrightarrow> int (length (slice_to n t)) \<le> n"
  by simp

lemma length_slice_from_le:
  "int (length t) - k \<le> n \<Longrightarrow> 0 \<le> k \<Longrightarrow> 0 \<le> n \<Longrightarrow> int (length (slice_from n t)) \<le> k"
  by (simp add: slice_from_def slice_index_def)

lemma newline_cut:
  assumes "0 \<le> b"
  shows "0 \<le> (if py_int (real_of_int b * (8 / 10)) < rfind_char c t b then rfind_char c t b else b)"
    and "(if py_int (real_of_int b * (8 / 10)) < rfind_char c t b then rfind_char c t b else b) \<le> b"
proof -
  have "0 \<le> py_int (real_of_int b * (8 / 10))" using assms by (intro py_int_nonneg) simp
  then show "0 \<le> (if py_int (real_of_int b * (8 / 10)) < rfind_char c t b
      then rfind_char c t b else b)"
    and "(if py_int (real_of_int b * (8 / 10)) < rfind_char c t b
      then rfind_char c t b else b) \<le> b"
    using assms rfind_char_less [OF assms, of c t] by (auto simp: max_def split: if_splits)
qed

lemma length_head_only:
  assumes "0 \<le> b"
  shows "int (length (head_only t b suf)) \<le> b + int (length suf)"
  unfolding head_only_def Let_def
  using length_slice_to_le [OF newline_cut(1) [OF assms, of "CHR 0x0A" t], of t]
    newline_cut(2) [OF assms, of "CHR 0x0A" t]
  by (simp del: slice_to_nonneg)

lemma length_head_and_tail:
  assumes "0 \<le> hb" and "0 \<le> tb" and "tb \<le> int (length t)"
  shows "int (length (head_and_tail t hb tb suf)) \<le> hb + tb + 63 + int (length suf)"
proof -
  let ?ts = "int (length t) - tb"
  let ?nl = "find_char (CHR 0x0A) t ?ts"
  let ?from = "if ?nl \<noteq> -1 \<and> ?nl < ?ts + py_int (real_of_int tb * (2 / 10)) then ?nl + 1 else ?ts"
  have "0 \<le> ?from" and "?ts \<le> ?from"
    using assms(2,3) find_char_ge [of ?ts "CHR 0x0A" t] by (auto split: if_splits)
  then have "int (length (slice_from ?from t)) \<le> tb"
    using assms(2) by (intro length_slice_from_le) auto
  then show ?thesis
    unfolding head_and_tail_def Let_def
    using length_slice_to_le [OF newline_cut(1) [OF assms(1), of "CHR 0x0A" t], of t]
      newline_cut(2) [OF assms(1), of "CHR 0x0A" t]
    by (simp del: slice_to_nonneg)
qed

text \<open>The bound that holds for every limit: the floor, if it is larger, and the suffix.\<close>

lemma truncate_text_bound:
  assumes "0 < n" and "n < int (length t)" and "0 \<le> mk"
  shows "int (length (truncate_tool_result_text t n suf mk)) \<le>
         max (keep_floor n suf mk + int (length suf)) n"
proof -
  let ?mk = "keep_floor n suf mk"
  let ?b = "max ?mk (n - int (length suf))"
  let ?tb = "min (?b div 3) 4000"
  have mk: "0 \<le> ?mk" "?mk \<le> n" using assms by (auto simp: keep_floor_def)
  have b: "0 \<le> ?b" "?b \<le> n" using mk by auto
  have tb: "0 \<le> ?tb" "?tb \<le> int (length t)"
    using b assms(2) by (auto simp: pos_imp_zdiv_nonneg_iff min_def)
  have bound: "?b + int (length suf) = max (?mk + int (length suf)) n" by auto
  show ?thesis
  proof (cases "has_important_tail t \<and> ?mk * 2 < ?b \<and> ?mk < ?b - ?tb - 63")
    case True
    then have "truncate_tool_result_text t n suf mk = head_and_tail t (?b - ?tb - 63) ?tb suf"
      using assms by (simp add: truncate_tool_result_text_def Let_def)
    moreover have "int (length (head_and_tail t (?b - ?tb - 63) ?tb suf)) \<le>
        (?b - ?tb - 63) + ?tb + 63 + int (length suf)"
      by (rule length_head_and_tail) (use True mk tb in auto)
    ultimately show ?thesis using bound by simp
  next
    case False
    then have "truncate_tool_result_text t n suf mk = head_only t ?b suf"
      using assms by (auto simp: truncate_tool_result_text_def Let_def)
    then show ?thesis using length_head_only [OF b(1), of t suf] bound by simp
  qed
qed

interpretation default_clip: text_clip truncate_default 217 "\<lambda>_. True"
proof unfold_locales
  fix t n
  assume n: "0 < (n::int)"
  show "int (length t) \<le> n \<Longrightarrow> truncate_default t n = t"
    using n by (simp add: truncate_default_def truncate_tool_result_text_def)
  show "int (length (truncate_default t n)) \<le> n + 217"
  proof (cases "int (length t) \<le> n")
    case True
    with n show ?thesis by (simp add: truncate_default_def truncate_tool_result_text_def)
  next
    case False
    with truncate_text_bound [OF n, of t MIN_KEEP_CHARS TRUNCATION_SUFFIX] n
    show ?thesis
      by (auto simp: truncate_default_def keep_floor_def MIN_KEEP_CHARS_def split: if_splits)
  qed
qed

lemma truncate_default_exact:
  assumes "217 \<le> n" and "n < 2000 \<or> 2217 \<le> n"
  shows "int (length (truncate_default t n)) \<le> n"
proof (cases "int (length t) \<le> n")
  case True
  with assms show ?thesis by (simp add: truncate_default_def truncate_tool_result_text_def)
next
  case False
  with truncate_text_bound [of n t MIN_KEEP_CHARS TRUNCATION_SUFFIX] assms
  show ?thesis
    by (auto simp: truncate_default_def keep_floor_def MIN_KEEP_CHARS_def split: if_splits)
qed

lemma calculate_max_bounds:
  "MIN_KEEP_CHARS \<le> calculate_max_tool_result_chars w \<and>
   calculate_max_tool_result_chars w \<le> HARD_MAX_TOOL_RESULT_CHARS"
  by (simp add: calculate_max_tool_result_chars_def MIN_KEEP_CHARS_def
        HARD_MAX_TOOL_RESULT_CHARS_def Let_def)

lemma calculate_max_mono:
  "w \<le> w' \<Longrightarrow> calculate_max_tool_result_chars w \<le> calculate_max_tool_result_chars w'"
proof -
  assume "w \<le> w'"
  then have "py_int (real_of_int w * (3 / 10)) \<le> py_int (real_of_int w' * (3 / 10))"
    by (intro py_int_mono) simp
  then show ?thesis
    by (auto simp: calculate_max_tool_result_chars_def MAX_TOOL_RESULT_CONTEXT_SHARE_def
          Let_def max_def min_def)
qed

subsection \<open>Properties\<close>

text \<open>Truncation respects its limit. For every limit from the length of the suffix on, except those
  between the minimum to keep and that minimum plus the suffix, the result is no longer than the
  limit; a text that fits is returned unchanged.\<close>

lemma truncation_respects_limit:
  assumes "217 \<le> n" and "n < 2000 \<or> 2217 \<le> n"
  shows "int (length (truncate_default t n)) \<le> n \<and> (int (length t) \<le> n \<longrightarrow> truncate_default t n = t)"
  using truncate_default_exact [OF assms] default_clip.clip_fits [of n t] assms(1) by auto

text \<open>Outside that range the limit is not kept: 200, the caller's own example of a small cap, gives the
  217 characters of the suffix and none of the text.\<close>

lemma small_cap_overflows:
  "truncate_default (replicate 300 (CHR ''x'')) 200 = TRUNCATION_SUFFIX \<and>
   int (length TRUNCATION_SUFFIX) = 217"
  by code_simp

end
