(* ===== verification/ToolRegistry.thy ===== *)
theory ToolRegistry
  imports Messages
begin

section \<open>Tool registry and tool-name resolution\<close>

text \<open>
  \<open>ToolRegistry\<close> of \<open>oxenclaw/agents/tools.py\<close> with its canonical names and aliases, and the
  resolution that \<open>_run_tools\<close> of \<open>oxenclaw/pi/run/run.py\<close> repeats on the live tool dictionary.
  What a tool does is a field of the record: from the arguments and the state \<open>'w\<close> of the world to an outcome and a new state. The
  interface that both resolutions offer is the locale \<open>tool_lookup\<close>, interpreted on each of them;
  they agree where the canonical names of the tools differ.
\<close>

subsection \<open>Tools\<close>

datatype tool_outcome =
    OutText string
  | OutValue json
  | OutRaised string

record 'w tool =
  tl_name :: string
  tl_description :: string
  tl_schema :: json
  tl_execute :: "json \<Rightarrow> 'w \<Rightarrow> tool_outcome \<times> 'w"

subsection \<open>Canonical names and aliases\<close>

definition canonicalise_tool_name :: "string \<Rightarrow> string" where
  "canonicalise_tool_name name =
     map (\<lambda>c. if c = CHR '':'' \<or> c = CHR ''.'' \<or> c = CHR ''-'' then CHR ''_'' else c)
       (lower (strip name))"

definition TOOL_NAME_ALIASES :: "(string \<times> string) list" where
  "TOOL_NAME_ALIASES =
    [(''memory_set_fact'', ''memory_save''), (''set_fact'', ''memory_save''),
     (''remember'', ''memory_save''), (''remember_fact'', ''memory_save''),
     (''save_memory'', ''memory_save''), (''memory_set'', ''memory_save''),
     (''memory_add'', ''memory_save''), (''memory_save_fact'', ''memory_save''),
     (''memory_save_to_inbox'', ''memory_save''), (''store_memory'', ''memory_save''),
     (''memory_remember'', ''memory_save''), (''memory_recall'', ''memory_search''),
     (''recall'', ''memory_search''), (''memory_query'', ''memory_search''),
     (''memory_lookup'', ''memory_search''), (''memory_find'', ''memory_search''),
     (''memory_get_fact'', ''memory_search''), (''memory_read'', ''memory_get''),
     (''memory_fetch'', ''memory_get''), (''wiki_create'', ''wiki_save''),
     (''wiki_update'', ''wiki_save''), (''wiki_edit'', ''wiki_save''),
     (''wiki_query'', ''wiki_search''), (''wiki_lookup'', ''wiki_search''),
     (''skill_install'', ''skill_resolver''), (''skill_find'', ''skill_resolver''),
     (''find_skill'', ''skill_resolver''), (''install_skill'', ''skill_resolver''),
     (''message_send_message'', ''message''), (''message_send'', ''message''),
     (''send_message'', ''message''), (''send'', ''message''),
     (''message_post'', ''message''), (''post_message'', ''message''),
     (''message_reply'', ''message''), (''reply'', ''message''),
     (''weather_lookup'', ''weather''), (''get_weather'', ''weather''),
     (''weather_get'', ''weather''), (''weather_now'', ''weather''),
     (''current_weather'', ''weather''), (''search_web'', ''web_search''),
     (''websearch'', ''web_search''), (''google_search'', ''web_search''),
     (''google_search_search'', ''web_search''), (''google'', ''web_search''),
     (''google_search_'', ''web_search''), (''ddg_search'', ''web_search''),
     (''duckduckgo'', ''web_search''), (''duckduckgo_search'', ''web_search''),
     (''bing'', ''web_search''), (''bing_search'', ''web_search''),
     (''search_engine'', ''web_search''), (''internet_search'', ''web_search''),
     (''online_search'', ''web_search''), (''fetch_url'', ''web_fetch''),
     (''fetch_web'', ''web_fetch''), (''url_fetch'', ''web_fetch''),
     (''http_get'', ''web_fetch''), (''browse'', ''web_fetch''),
     (''browse_url'', ''web_fetch''), (''open_url'', ''web_fetch''),
     (''visit_url'', ''web_fetch''), (''github_get'', ''github''),
     (''github_query'', ''github''), (''gh'', ''github''),
     (''cron_create'', ''cron''), (''cron_add'', ''cron''),
     (''schedule'', ''cron''), (''schedule_job'', ''cron''),
     (''now'', ''get_time''), (''current_time'', ''get_time''),
     (''time_now'', ''get_time''), (''time_get'', ''get_time''),
     (''sessions_create'', ''sessions_spawn''), (''subagent_spawn'', ''sessions_spawn''),
     (''spawn_subagent'', ''sessions_spawn''), (''spawn_session'', ''sessions_spawn''),
     (''yield_session'', ''sessions_yield''), (''yield'', ''sessions_yield''),
     (''plan_update'', ''update_plan''), (''update_planning'', ''update_plan''),
     (''health_check'', ''healthcheck''), (''health'', ''healthcheck'')]"

subsection \<open>The registry\<close>

record 'w tool_registry =
  rg_tools :: "(string \<times> 'w tool) list"
  rg_by_canon :: "(string \<times> 'w tool) list"

definition registry_new :: "'w tool_registry" where
  "registry_new = \<lparr>rg_tools = [], rg_by_canon = []\<rparr>"

definition register :: "'w tool \<Rightarrow> 'w tool_registry \<Rightarrow> py_error + 'w tool_registry" where
  "register t r =
    (if map_of (rg_tools r) (tl_name t) \<noteq> None then Inl ValueError
     else Inr (r\<lparr>rg_tools := dict_set (tl_name t) t (rg_tools r),
                 rg_by_canon := dict_set (canonicalise_tool_name (tl_name t)) t (rg_by_canon r)\<rparr>))"

fun register_all :: "'w tool list \<Rightarrow> 'w tool_registry \<Rightarrow> py_error + 'w tool_registry" where
  "register_all [] r = Inr r"
| "register_all (t # ts) r = bind_err (register t r) (register_all ts)"

definition registry_get :: "'w tool_registry \<Rightarrow> string \<Rightarrow> 'w tool option" where
  "registry_get r name =
    (case map_of (rg_tools r) name of
       Some t \<Rightarrow> Some t
     | None \<Rightarrow>
         (let canon = canonicalise_tool_name name
          in case map_of (rg_by_canon r) canon of
               Some t \<Rightarrow> Some t
             | None \<Rightarrow>
                 (case map_of TOOL_NAME_ALIASES canon of
                    Some aliased \<Rightarrow> map_of (rg_tools r) aliased
                  | None \<Rightarrow> None)))"

definition registry_names :: "'w tool_registry \<Rightarrow> string list" where
  "registry_names r = sort (map fst (rg_tools r))"

definition registry_tools :: "'w tool_registry \<Rightarrow> 'w tool list" where
  "registry_tools r = map snd (rg_tools r)"

definition registry_len :: "'w tool_registry \<Rightarrow> nat" where
  "registry_len r = length (rg_tools r)"

definition as_anthropic_tools :: "'w tool_registry \<Rightarrow> json list" where
  "as_anthropic_tools r =
    map (\<lambda>t. JObj [(''name'', JStr (tl_name t)), (''description'', JStr (tl_description t)),
                   (''input_schema'', tl_schema t)]) (registry_tools r)"

definition as_openai_tools :: "'w tool_registry \<Rightarrow> json list" where
  "as_openai_tools r =
    map (\<lambda>t. JObj [(''type'', JStr ''function''),
                   (''function'', JObj [(''name'', JStr (tl_name t)),
                      (''description'', JStr (tl_description t)),
                      (''parameters'', tl_schema t)])]) (registry_tools r)"

subsection \<open>The resolution of the run loop\<close>

text \<open>\<open>{t.name: t for t in tools}\<close>: a later tool takes the place of an earlier one.\<close>

definition tools_by_name :: "'w tool list \<Rightarrow> (string \<times> 'w tool) list" where
  "tools_by_name ts = foldl (\<lambda>d t. dict_set (tl_name t) t d) [] ts"

definition find_live :: "(string \<times> 'w tool) list \<Rightarrow> string \<Rightarrow> 'w tool option" where
  "find_live live name =
    (case map_of live name of
       Some t \<Rightarrow> Some t
     | None \<Rightarrow>
         (let canon = canonicalise_tool_name name
          in case List.find (\<lambda>kv. canonicalise_tool_name (fst kv) = canon) live of
               Some kv \<Rightarrow> Some (snd kv)
             | None \<Rightarrow>
                 (case map_of TOOL_NAME_ALIASES canon of
                    Some aliased \<Rightarrow> map_of live aliased
                  | None \<Rightarrow> None)))"

subsection \<open>The interface of a resolution\<close>

locale tool_lookup =
  fixes ok :: "'r \<Rightarrow> bool"
    and entries :: "'r \<Rightarrow> 'w tool list"
    and lookup :: "'r \<Rightarrow> string \<Rightarrow> 'w tool option"
  assumes found_in: "ok r \<Longrightarrow> lookup r n = Some t \<Longrightarrow> t \<in> set (entries r)"
    and exact: "ok r \<Longrightarrow> t \<in> set (entries r) \<Longrightarrow> lookup r (tl_name t) = Some t"
    and drift: "ok r \<Longrightarrow> t \<in> set (entries r) \<Longrightarrow>
      canonicalise_tool_name n = canonicalise_tool_name (tl_name t) \<Longrightarrow> lookup r n \<noteq> None"
begin

lemma names_distinct: "ok r \<Longrightarrow> inj_on tl_name (set (entries r))"
  by (metis inj_onI exact option.inject)

lemma resolved_again: "ok r \<Longrightarrow> lookup r n = Some t \<Longrightarrow> lookup r (tl_name t) = Some t"
  using found_in exact by blast

lemma unresolved: "ok r \<Longrightarrow> lookup r n = None \<Longrightarrow> t \<in> set (entries r) \<Longrightarrow>
    n \<noteq> tl_name t \<and> canonicalise_tool_name n \<noteq> canonicalise_tool_name (tl_name t)"
  using exact drift by fastforce

end

subsection \<open>Lemmas\<close>

text \<open>The invariant of the two dictionaries.\<close>

definition keyed :: "(string \<times> 'w tool) list \<Rightarrow> bool" where
  "keyed d \<longleftrightarrow> distinct (map fst d) \<and> list_all (\<lambda>(k, t). k = tl_name t) d"

definition registry_ok :: "'w tool_registry \<Rightarrow> bool" where
  "registry_ok r \<longleftrightarrow>
     keyed (rg_tools r) \<and>
     (\<forall>c t. map_of (rg_by_canon r) c = Some t \<longrightarrow>
        t \<in> snd ` set (rg_tools r) \<and> canonicalise_tool_name (tl_name t) = c) \<and>
     (\<forall>t \<in> snd ` set (rg_tools r).
        map_of (rg_by_canon r) (canonicalise_tool_name (tl_name t)) \<noteq> None)"

lemma keyed_map_of: "keyed d \<Longrightarrow> map_of d n = Some t \<longleftrightarrow> t \<in> snd ` set d \<and> n = tl_name t"
  unfolding keyed_def by (force simp: list_all_iff dest: map_of_SomeD)

lemma keyed_dict_set: "keyed d \<Longrightarrow> keyed (dict_set (tl_name t) t d)"
  using set_dict_set [of "tl_name t" t d]
  by (fastforce simp: keyed_def distinct_dict_set list_all_iff)

lemma registry_ok_new: "registry_ok registry_new"
  by (simp add: registry_ok_def registry_new_def keyed_def)

lemma register_ok:
  assumes "registry_ok r" and "register t r = Inr r'"
  shows "registry_ok r' \<and> set (registry_tools r') = insert t (set (registry_tools r))"
proof -
  have new: "map_of (rg_tools r) (tl_name t) = None"
    and r': "r' = r\<lparr>rg_tools := dict_set (tl_name t) t (rg_tools r),
                 rg_by_canon := dict_set (canonicalise_tool_name (tl_name t)) t (rg_by_canon r)\<rparr>"
    using assms(2) by (auto simp: register_def split: if_splits)
  show ?thesis
    using assms(1) keyed_dict_set [of "rg_tools r" t]
    by (auto simp: registry_ok_def r' map_of_dict_set dict_set_new [OF new]
        registry_tools_def split: if_splits)
qed

lemma register_all_ok:
  "registry_ok r \<Longrightarrow> register_all ts r = Inr r' \<Longrightarrow>
   registry_ok r' \<and> set (registry_tools r') = set ts \<union> set (registry_tools r)"
proof (induction ts arbitrary: r)
  case Nil
  then show ?case by simp
next
  case (Cons t ts)
  then obtain r1 where "register t r = Inr r1" and "register_all ts r1 = Inr r'"
    by (auto simp: bind_err_Inr)
  with register_ok [OF Cons.prems(1)] Cons.IH [of r1] show ?case by auto
qed

lemma keyed_tools_by_name: "keyed (tools_by_name ts)"
proof -
  have "keyed d \<Longrightarrow> keyed (foldl (\<lambda>d t. dict_set (tl_name t) t d) d ts)" for d
    by (induction ts arbitrary: d) (auto simp: keyed_dict_set)
  then show ?thesis by (simp add: tools_by_name_def keyed_def)
qed

lemma registry_found:
  "registry_ok r \<Longrightarrow> registry_get r n = Some t \<Longrightarrow> t \<in> set (registry_tools r)"
  unfolding registry_ok_def registry_get_def registry_tools_def
  by (auto simp: Let_def keyed_map_of split: option.splits)

lemma registry_exact:
  "registry_ok r \<Longrightarrow> t \<in> set (registry_tools r) \<Longrightarrow> registry_get r (tl_name t) = Some t"
  unfolding registry_ok_def registry_get_def registry_tools_def
  using keyed_map_of [of "rg_tools r" "tl_name t" t] by (auto split: option.splits)

lemma registry_drift:
  "registry_ok r \<Longrightarrow> t \<in> set (registry_tools r) \<Longrightarrow>
   canonicalise_tool_name n = canonicalise_tool_name (tl_name t) \<Longrightarrow> registry_get r n \<noteq> None"
  unfolding registry_ok_def registry_get_def registry_tools_def
  by (auto simp: Let_def split: option.splits)

lemma live_found: "keyed d \<Longrightarrow> find_live d n = Some t \<Longrightarrow> t \<in> set (map snd d)"
  unfolding find_live_def
  by (auto simp: Let_def keyed_map_of find_Some_iff split: option.splits)

lemma live_exact: "keyed d \<Longrightarrow> t \<in> set (map snd d) \<Longrightarrow> find_live d (tl_name t) = Some t"
  using keyed_map_of [of d "tl_name t" t] by (simp add: find_live_def)

lemma live_drift:
  "keyed d \<Longrightarrow> t \<in> set (map snd d) \<Longrightarrow>
   canonicalise_tool_name n = canonicalise_tool_name (tl_name t) \<Longrightarrow> find_live d n \<noteq> None"
  unfolding find_live_def keyed_def
  by (fastforce simp: Let_def find_None_iff list_all_iff split: option.splits)

interpretation registry_lookup: tool_lookup registry_ok registry_tools registry_get
  by unfold_locales (simp_all add: registry_found registry_exact registry_drift)

interpretation live_lookup: tool_lookup keyed "map snd" find_live
  by unfold_locales (fact live_found live_exact live_drift)+

text \<open>The registry's first dictionary is the run loop's, and its second one searches it.\<close>

lemma registry_tools_fold:
  "register_all ts r = Inr r' \<Longrightarrow>
   rg_tools r' = foldl (\<lambda>d t. dict_set (tl_name t) t d) (rg_tools r) ts"
proof (induction ts arbitrary: r)
  case Nil
  then show ?case by simp
next
  case (Cons t ts)
  then obtain r1 where r1: "register t r = Inr r1" "register_all ts r1 = Inr r'"
    by (auto simp: bind_err_Inr)
  from r1(1) have "rg_tools r1 = dict_set (tl_name t) t (rg_tools r)"
    by (auto simp: register_def split: if_splits)
  with Cons.IH [OF r1(2)] show ?case by simp
qed

lemma registry_tools_by_name:
  "register_all ts registry_new = Inr r \<Longrightarrow> rg_tools r = tools_by_name ts"
  using registry_tools_fold [of ts registry_new r] by (simp add: tools_by_name_def registry_new_def)

lemma by_canon_find:
  assumes "registry_ok r" and "inj_on (canonicalise_tool_name \<circ> tl_name) (snd ` set (rg_tools r))"
    and d: "d = rg_tools r"
  shows "map_of (rg_by_canon r) c =
    map_option snd (List.find (\<lambda>kv. canonicalise_tool_name (fst kv) = c) d)"
proof (cases "List.find (\<lambda>kv. canonicalise_tool_name (fst kv) = c) d")
  case None
  have "map_of (rg_by_canon r) c = None"
  proof (rule ccontr)
    assume "map_of (rg_by_canon r) c \<noteq> None"
    then obtain t where "map_of (rg_by_canon r) c = Some t" by auto
    then have t: "t \<in> snd ` set d" "canonicalise_tool_name (tl_name t) = c"
      using assms(1) d by (auto simp: registry_ok_def)
    then obtain k where "(k, t) \<in> set d" by auto
    moreover have "k = tl_name t"
      using calculation assms(1) d by (auto simp: registry_ok_def keyed_def list_all_iff)
    ultimately show False using None t(2) by (auto simp: find_None_iff)
  qed
  with None show ?thesis by simp
next
  case (Some kv)
  obtain k t where kv: "kv = (k, t)" by (cases kv)
  have "kv \<in> set d" and "canonicalise_tool_name (fst kv) = c"
    using Some by (auto simp: find_Some_iff)
  then have m: "(k, t) \<in> set d" and c: "canonicalise_tool_name k = c" by (simp_all add: kv)
  have k: "k = tl_name t" using m assms(1) d by (auto simp: registry_ok_def keyed_def list_all_iff)
  have td: "t \<in> snd ` set d" using m by force
  with assms(1) d k c obtain t' where t': "map_of (rg_by_canon r) c = Some t'"
    by (auto simp: registry_ok_def)
  then have "t' \<in> snd ` set d" "canonicalise_tool_name (tl_name t') = c"
    using assms(1) d by (auto simp: registry_ok_def)
  then have "t' = t" using inj_onD [OF assms(2), of t' t] d td k c by simp
  with t' Some kv show ?thesis by simp
qed

subsection \<open>Properties\<close>

text \<open>The two resolutions of a drifted tool name agree. If no two tools have the same canonical
  name, the registry and the run loop's own search find the same tool for every name the model
  can emit, aliases included.\<close>

lemma registry_agrees_with_run_loop:
  assumes "register_all ts registry_new = Inr r"
    and "inj_on (canonicalise_tool_name \<circ> tl_name) (set ts)"
  shows "registry_get r n = find_live (tools_by_name ts) n"
proof -
  have tools: "rg_tools r = tools_by_name ts" by (rule registry_tools_by_name [OF assms(1)])
  have ok: "registry_ok r" and set: "set (registry_tools r) = set ts"
    using register_all_ok [OF registry_ok_new assms(1)] by (auto simp: registry_tools_def registry_new_def)
  have "map_of (rg_by_canon r) c =
      map_option snd (List.find (\<lambda>kv. canonicalise_tool_name (fst kv) = c) (tools_by_name ts))" for c
    by (rule by_canon_find [OF ok]) (use set tools assms(2) in \<open>auto simp: registry_tools_def\<close>)
  then show ?thesis
    by (simp add: registry_get_def find_live_def tools Let_def split: option.split)
qed

text \<open>With a collision of canonical names they differ: the registry takes the tool registered last,
  the run loop the first one.\<close>

lemma collision_differs:
  fixes mk :: "string \<Rightarrow> nat tool"
  defines "mk \<equiv> \<lambda>n. \<lparr>tl_name = n, tl_description = [], tl_schema = JNull,
    tl_execute = (\<lambda>a w. (OutText [], w))\<rparr>"
  shows "\<exists>r. register_all [mk ''a.b'', mk ''a-b''] registry_new = Inr r \<and>
    registry_get r ''A_B'' = Some (mk ''a-b'') \<and>
    find_live (tools_by_name [mk ''a.b'', mk ''a-b'']) ''A_B'' = Some (mk ''a.b'')"
proof -
  have c: "canonicalise_tool_name ''a.b'' = ''a_b''" "canonicalise_tool_name ''a-b'' = ''a_b''"
    "canonicalise_tool_name ''A_B'' = ''a_b''" by code_simp+
  show ?thesis
    by (simp add: register_def registry_new_def mk_def registry_get_def find_live_def
        tools_by_name_def c Let_def)
qed

end
