(* ===== verification/ToolRuntime.thy ===== *)
theory ToolRuntime
  imports Truncation ToolRegistry Json
begin

section \<open>Tool runtime: result budgets, allow lists and the effective policy\<close>

text \<open>
  \<open>oxenclaw/pi/tool_runtime.py\<close>: the plain truncation of a tool result, the budget that shrinks
  under context pressure, the glob patterns of the allow and deny lists (\<open>fnmatch.fnmatchcase\<close> of
  the standard library is \<open>glob\<close>), the effective policy that filters the tools of a turn, and the
  pagination of long item lists. The lemmas bound the budget and the results, show what a policy
  lets through, and that pages lose no item.
\<close>

definition DEFAULT_MAX_TOOL_RESULT_CHARS :: int where
  "DEFAULT_MAX_TOOL_RESULT_CHARS = 32000"

definition MIN_TOOL_RESULT_CHARS :: int where
  "MIN_TOOL_RESULT_CHARS = 1024"

subsection \<open>Result truncation and estimation\<close>

fun estimate_tool_result_chars :: "json \<Rightarrow> int" where
  "estimate_tool_result_chars (JStr s) = int (length s)"
| "estimate_tool_result_chars v = int (length (json_dumps False False v))"

definition truncate_tool_result :: "string \<Rightarrow> int \<Rightarrow> string \<times> bool" where
  "truncate_tool_result text max_chars =
    (if max_chars \<le> 0 then ([], True)
     else if int (length text) \<le> max_chars then (text, False)
     else let head_keep = max 0 (max_chars - 64);
              dropped = int (length text) - head_keep
          in (slice_to head_keep text @ newline @ newline @ ''[...truncated '' @ show_int dropped @
              '' chars]'', True))"

subsection \<open>Context guard\<close>

record guard_state =
  gs_pressure_turns :: int
  gs_max_chars :: int

definition guard_state_new :: guard_state where
  "guard_state_new = \<lparr>gs_pressure_turns = 0, gs_max_chars = DEFAULT_MAX_TOOL_RESULT_CHARS\<rparr>"

definition apply_context_guard :: "int \<Rightarrow> int \<Rightarrow> real \<Rightarrow> real \<Rightarrow> guard_state \<Rightarrow> int \<times> guard_state" where
  "apply_context_guard used_tokens model_context_tokens pressure_ratio relief_ratio st =
    (let ratio = real_of_int used_tokens / real_of_int (max 1 model_context_tokens);
         st' =
          (if ratio > pressure_ratio
           then st\<lparr>gs_pressure_turns := gs_pressure_turns st + 1,
                   gs_max_chars := max MIN_TOOL_RESULT_CHARS (gs_max_chars st div 2)\<rparr>
           else if ratio < relief_ratio
           then st\<lparr>gs_pressure_turns := 0,
                   gs_max_chars := min DEFAULT_MAX_TOOL_RESULT_CHARS (gs_max_chars st * 2)\<rparr>
           else st)
     in (gs_max_chars st', st'))"

subsection \<open>Glob patterns\<close>

text \<open>The items of a character set: single characters and ranges.\<close>

fun in_set :: "char \<Rightarrow> string \<Rightarrow> bool" where
  "in_set x (lo # h # hi # r) =
    (if h = CHR ''-'' then (ch lo \<le> ch x \<and> ch x \<le> ch hi) \<or> in_set x r
     else x = lo \<or> in_set x (h # hi # r))"
| "in_set x [a, b] = (x = a \<or> x = b)"
| "in_set x [a] = (x = a)"
| "in_set x [] = False"

text \<open>
  After an opening bracket: whether the set is negated, its items and the rest of the pattern;
  \<open>None\<close> where no bracket closes it.
\<close>

definition skip_char :: "char \<Rightarrow> string \<Rightarrow> string" where
  "skip_char c p = (case p of [] \<Rightarrow> [] | x # r \<Rightarrow> if x = c then r else p)"

definition glob_set :: "string \<Rightarrow> (bool \<times> string \<times> string) option" where
  "glob_set p =
    (let q = skip_char (CHR ''!'') p;
         q' = skip_char (CHR '']'') q;
         first = take (length q - length q') q;
         rest = dropWhile (\<lambda>c. c \<noteq> CHR '']'') q'
     in if rest = [] then None
        else Some (q \<noteq> p, first @ takeWhile (\<lambda>c. c \<noteq> CHR '']'') q', tl rest))"

lemma skip_char_length: "length (skip_char c p) \<le> length p"
  by (simp add: skip_char_def split: list.split)

lemma glob_set_length:
  assumes "glob_set p = Some (neg, items, rest)"
  shows "length rest < length p"
proof -
  define q where "q = skip_char (CHR '']'') (skip_char (CHR ''!'') p)"
  define d where "d = dropWhile (\<lambda>c. c \<noteq> CHR '']'') q"
  have "length q \<le> length p"
    using skip_char_length le_trans unfolding q_def by blast
  moreover have "length d \<le> length q" unfolding d_def by (rule length_dropWhile_le)
  moreover have "d \<noteq> [] \<and> rest = tl d"
    using assms by (simp add: glob_set_def Let_def q_def d_def split: if_splits)
  ultimately show ?thesis by (cases d) auto
qed

function glob :: "string \<Rightarrow> string \<Rightarrow> bool" where
  "glob [] s = (s = [])"
| "glob (c # p) s =
    (if c = CHR ''*'' then (case s of [] \<Rightarrow> glob p s | _ # s' \<Rightarrow> glob p s \<or> glob (c # p) s')
     else if c = CHR ''?'' then s \<noteq> [] \<and> glob p (tl s)
     else if c = CHR ''['' then
       (case glob_set p of
          None \<Rightarrow> s \<noteq> [] \<and> hd s = c \<and> glob p (tl s)
        | Some (neg, items, rest) \<Rightarrow>
            s \<noteq> [] \<and> in_set (hd s) items \<noteq> neg \<and> glob rest (tl s))
     else s \<noteq> [] \<and> hd s = c \<and> glob p (tl s))"
  by pat_completeness auto
termination
  by (relation "measure (\<lambda>(p, s). length p + length s)") (auto dest!: glob_set_length)

subsection \<open>Allow lists\<close>

record allowlist =
  aw_allow :: "string list"
  aw_deny :: "string list"

definition is_allowed :: "allowlist \<Rightarrow> string \<Rightarrow> bool" where
  "is_allowed a name =
    (if list_ex (\<lambda>pat. glob pat name) (aw_deny a) then False
     else if aw_allow a = [] then True
     else list_ex (\<lambda>pat. glob pat name) (aw_allow a))"

definition allowlist_filter :: "allowlist \<Rightarrow> 'w tool list \<Rightarrow> 'w tool list" where
  "allowlist_filter a ts = filter (\<lambda>t. is_allowed a (tl_name t)) ts"

subsection \<open>Effective policy\<close>

record tool_override =
  ov_name :: string
  ov_enabled :: bool
  ov_max_result_chars :: "int option"

record tool_policy =
  tp_allowlist :: allowlist
  tp_overrides :: "tool_override list"
  tp_default_max_result_chars :: int

definition override_for :: "tool_policy \<Rightarrow> string \<Rightarrow> tool_override option" where
  "override_for p name = List.find (\<lambda>ov. ov_name ov = name) (tp_overrides p)"

fun resolve_policy :: "tool_policy \<Rightarrow> 'w tool list \<Rightarrow> 'w tool list" where
  "resolve_policy p [] = []"
| "resolve_policy p (t # ts) =
    (if \<not> is_allowed (tp_allowlist p) (tl_name t) then resolve_policy p ts
     else case override_for p (tl_name t) of
            Some ov \<Rightarrow> if \<not> ov_enabled ov then resolve_policy p ts else t # resolve_policy p ts
          | None \<Rightarrow> t # resolve_policy p ts)"

definition max_chars_for :: "tool_policy \<Rightarrow> string \<Rightarrow> int" where
  "max_chars_for p name =
    (case override_for p name of
       Some ov \<Rightarrow> (case ov_max_result_chars ov of
                     Some n \<Rightarrow> n | None \<Rightarrow> tp_default_max_result_chars p)
     | None \<Rightarrow> tp_default_max_result_chars p)"

subsection \<open>Pages\<close>

datatype serializer = AsJson | AsLines

record tool_page =
  pg_page :: nat
  pg_total :: nat
  pg_content :: string
  pg_has_more :: bool

fun format_item :: "serializer \<Rightarrow> json \<Rightarrow> string" where
  "format_item AsJson v = json_dumps False False v"
| "format_item AsLines (JStr s) = s"
| "format_item AsLines v = json_dumps False False v"

text \<open>The loop over the items: the current page and its size, and the pages that follow.\<close>

fun fill_pages :: "int \<Rightarrow> string list \<Rightarrow> string list \<Rightarrow> int \<Rightarrow> string list list" where
  "fill_pages page_chars [] cur cur_size = [cur]"
| "fill_pages page_chars (s # ss) cur cur_size =
    (if cur_size + int (length s) + 1 > page_chars \<and> cur \<noteq> []
     then cur # fill_pages page_chars ss [s] (int (length s) + 1)
     else fill_pages page_chars ss (cur @ [s]) (cur_size + int (length s) + 1))"

definition page_body :: "serializer \<Rightarrow> string list \<Rightarrow> string" where
  "page_body ser chunk =
    (case ser of AsLines \<Rightarrow> join newline chunk | AsJson \<Rightarrow> ''['' @ join '','' chunk @ '']'')"

definition split_large_payload :: "json list \<Rightarrow> int \<Rightarrow> serializer \<Rightarrow> tool_page list" where
  "split_large_payload items page_chars ser =
    (if items = []
     then [\<lparr>pg_page = 1, pg_total = 1, pg_content = [], pg_has_more = False\<rparr>]
     else let pages = fill_pages page_chars (map (format_item ser) items) [] 0; n = length pages
          in map (\<lambda>(i, chunk).
                \<lparr>pg_page = i, pg_total = n, pg_content = page_body ser chunk,
                 pg_has_more = i < n\<rparr>) (zip [1..<n + 1] pages))"

subsection \<open>Lemmas on truncation\<close>

definition runtime_clip :: "string \<Rightarrow> int \<Rightarrow> string" where
  "runtime_clip t n = fst (truncate_tool_result t n)"

definition under_20_digits :: "string \<Rightarrow> bool" where
  "under_20_digits t \<longleftrightarrow> length t < 10 ^ 20"

lemma runtime_clip_long:
  assumes "0 < n" and "n < int (length t)" and "under_20_digits t"
  shows "int (length (runtime_clip t n)) \<le> max 0 (n - 64) + 43"
proof -
  let ?k = "max 0 (n - 64)"
  have "nat (int (length t) - ?k) < 10 ^ 20"
    using assms(3) unfolding under_20_digits_def by linarith
  then have "length (show_int (int (length t) - ?k)) \<le> 20"
    using assms by (auto simp: show_int_def intro!: length_show_nat)
  then show ?thesis
    using assms by (simp add: runtime_clip_def truncate_tool_result_def Let_def newline_def)
qed

interpretation runtime_clip: text_clip runtime_clip 43 under_20_digits
proof unfold_locales
  fix t n
  assume n: "0 < (n::int)"
  show fits: "int (length t) \<le> n \<Longrightarrow> runtime_clip t n = t"
    using n by (simp add: runtime_clip_def truncate_tool_result_def)
  assume legal: "under_20_digits t"
  show "int (length (runtime_clip t n)) \<le> n + 43"
  proof (cases "int (length t) \<le> n")
    case True
    with fits show ?thesis by simp
  next
    case False
    with runtime_clip_long [OF n _ legal] n show ?thesis by fastforce
  qed
qed

subsection \<open>Lemmas on the guard\<close>

definition guard_ok :: "guard_state \<Rightarrow> bool" where
  "guard_ok st \<longleftrightarrow>
     MIN_TOOL_RESULT_CHARS \<le> gs_max_chars st \<and> gs_max_chars st \<le> DEFAULT_MAX_TOOL_RESULT_CHARS \<and>
     0 \<le> gs_pressure_turns st"

lemma guard_ok_new: "guard_ok guard_state_new"
  by (simp add: guard_ok_def guard_state_new_def MIN_TOOL_RESULT_CHARS_def
      DEFAULT_MAX_TOOL_RESULT_CHARS_def)

lemma guard_ok_step: "guard_ok st \<Longrightarrow> guard_ok (snd (apply_context_guard u c pr rr st))"
  by (auto simp: guard_ok_def apply_context_guard_def Let_def MIN_TOOL_RESULT_CHARS_def
      DEFAULT_MAX_TOOL_RESULT_CHARS_def)

text \<open>The budgets of a session: one report of the token use per turn.\<close>

fun guard_run :: "real \<Rightarrow> real \<Rightarrow> (int \<times> int) list \<Rightarrow> guard_state \<Rightarrow> guard_state" where
  "guard_run pr rr [] st = st"
| "guard_run pr rr ((u, c) # turns) st = guard_run pr rr turns (snd (apply_context_guard u c pr rr st))"

lemma guard_ok_run: "guard_ok st \<Longrightarrow> guard_ok (guard_run pr rr turns st)"
  by (induction pr rr turns st rule: guard_run.induct) (auto simp: guard_ok_step)

lemma guard_relief_step:
  "real_of_int u / real_of_int (max 1 c) < rr \<Longrightarrow> rr \<le> pr \<Longrightarrow>
   gs_max_chars (snd (apply_context_guard u c pr rr st)) =
     min DEFAULT_MAX_TOOL_RESULT_CHARS (gs_max_chars st * 2)"
  by (simp add: apply_context_guard_def Let_def)

text \<open>\<open>n\<close> relieved turns double the budget \<open>n\<close> times, up to the default.\<close>

lemma guard_relief_run:
  assumes "rr \<le> pr" and "0 \<le> gs_max_chars st"
    and "\<forall>(u, c) \<in> set turns. real_of_int u / real_of_int (max 1 c) < rr"
  shows "min DEFAULT_MAX_TOOL_RESULT_CHARS (2 ^ length turns * gs_max_chars st) \<le>
         gs_max_chars (guard_run pr rr turns st)"
  using assms
proof (induction pr rr turns st rule: guard_run.induct)
  case (1 pr rr st)
  then show ?case by simp
next
  case (2 pr rr u c turns st)
  let ?st = "snd (apply_context_guard u c pr rr st)"
  have st: "gs_max_chars ?st = min DEFAULT_MAX_TOOL_RESULT_CHARS (gs_max_chars st * 2)"
    by (rule guard_relief_step) (use 2 in auto)
  let ?D = DEFAULT_MAX_TOOL_RESULT_CHARS
  let ?n = "2 ^ length turns :: int"
  have D: "0 \<le> ?D" by (simp add: DEFAULT_MAX_TOOL_RESULT_CHARS_def)
  have n: "1 \<le> ?n" by simp
  have "min ?D (?n * gs_max_chars ?st) \<le> gs_max_chars (guard_run pr rr turns ?st)"
    by (rule 2(1)) (use 2 st D in auto)
  moreover have "min ?D (2 * ?n * gs_max_chars st) \<le> min ?D (?n * gs_max_chars ?st)"
  proof (cases "?D \<le> gs_max_chars st * 2")
    case True
    have "1 * ?D \<le> ?n * ?D" using n D by (rule mult_right_mono)
    with True st show ?thesis by simp
  next
    case False
    with st show ?thesis by (simp add: mult.assoc mult.commute mult.left_commute)
  qed
  ultimately show ?case by simp
qed

subsection \<open>Lemmas on globs and policies\<close>

definition plain_char :: "char \<Rightarrow> bool" where
  "plain_char c \<longleftrightarrow> c \<noteq> CHR ''*'' \<and> c \<noteq> CHR ''?'' \<and> c \<noteq> CHR ''[''"

lemma glob_plain: "list_all plain_char p \<Longrightarrow> glob p s \<longleftrightarrow> s = p"
proof (induction p arbitrary: s)
  case Nil
  then show ?case by simp
next
  case (Cons c p)
  then show ?case by (cases s) (auto simp: plain_char_def)
qed

lemma glob_star: "glob (CHR ''*'' # p) s \<longleftrightarrow> (\<exists>t. suffix t s \<and> glob p t)"
proof (induction s)
  case Nil
  then show ?case by simp
next
  case (Cons c s)
  then show ?case by (auto simp: suffix_Cons)
qed

lemma glob_literal_star: "list_all plain_char p \<Longrightarrow> glob (p @ ''*'') s \<longleftrightarrow> prefix p s"
proof (induction p arbitrary: s)
  case Nil
  have "glob ''*'' s" by (simp only: glob_star) (auto intro: exI [of _ "[]"])
  then show ?case by simp
next
  case (Cons c p)
  then show ?case by (cases s) (auto simp: plain_char_def)
qed

definition policy_admits :: "tool_policy \<Rightarrow> 'w tool \<Rightarrow> bool" where
  "policy_admits p t \<longleftrightarrow>
     is_allowed (tp_allowlist p) (tl_name t) \<and>
     (case override_for p (tl_name t) of Some ov \<Rightarrow> ov_enabled ov | None \<Rightarrow> True)"

lemma resolve_policy_filter: "resolve_policy p ts = filter (policy_admits p) ts"
  by (induction ts) (auto simp: policy_admits_def split: option.split)

lemma denied_never_allowed:
  "pat \<in> set (aw_deny a) \<Longrightarrow> glob pat name \<Longrightarrow> \<not> is_allowed a name"
  by (auto simp: is_allowed_def list_ex_iff)

subsection \<open>Lemmas on pages\<close>

lemma fill_pages_concat: "concat (fill_pages n ss cur k) = cur @ ss"
  by (induction n ss cur k rule: fill_pages.induct) auto

definition page_size :: "string list \<Rightarrow> int" where
  "page_size chunk = sum_list (map (\<lambda>s. int (length s) + 1) chunk)"

lemma page_size_simps [simp]:
  "page_size [] = 0"
  "page_size (cur @ [s]) = page_size cur + int (length s) + 1"
  by (simp_all add: page_size_def)

lemma fill_pages_size:
  "k = page_size cur \<Longrightarrow> k \<le> n \<or> length cur \<le> 1 \<Longrightarrow> page \<in> set (fill_pages n ss cur k) \<Longrightarrow>
   page_size page \<le> n \<or> length page \<le> 1"
proof (induction n ss cur k rule: fill_pages.induct)
  case (1 n cur k)
  then show ?case by auto
next
  case (2 n s ss cur k)
  show ?case
  proof (cases "k + int (length s) + 1 > n \<and> cur \<noteq> []")
    case True
    with 2(3-) have "page = cur \<or> page \<in> set (fill_pages n ss [s] (int (length s) + 1))" by simp
    moreover have "page_size [s] = int (length s) + 1" by (simp add: page_size_def)
    ultimately show ?thesis using 2(1) [OF True] 2(3,4) by auto
  next
    case False
    then have "k + int (length s) + 1 \<le> n \<or> length (cur @ [s]) \<le> 1" by auto
    moreover have "page \<in> set (fill_pages n ss (cur @ [s]) (k + int (length s) + 1))"
      using False 2(5) by (simp split: if_splits)
    ultimately show ?thesis using 2(2) [OF False] 2(3) by simp
  qed
qed

lemma fill_pages_nonempty:
  "cur \<noteq> [] \<or> ss \<noteq> [] \<Longrightarrow> page \<in> set (fill_pages n ss cur k) \<Longrightarrow> page \<noteq> []"
  by (induction n ss cur k rule: fill_pages.induct) (auto split: if_splits)

lemma length_join:
  "int (length (join sep xs)) =
     sum_list (map (\<lambda>s. int (length s)) xs) + int (length sep) * (int (length xs) - (if xs = [] then 0 else 1))"
  by (induction sep xs rule: join.induct) (auto simp: algebra_simps)

subsection \<open>Properties\<close>

text \<open>A deny pattern with a trailing star removes every tool whose name has the prefix from the turn,
  whatever the allow list and the overrides say, and the tools that stay keep their order.\<close>

lemma deny_prefix_wins:
  assumes "list_all plain_char p" and "p @ ''*'' \<in> set (aw_deny (tp_allowlist pol))"
  shows "list_all (\<lambda>t. \<not> prefix p (tl_name t)) (resolve_policy pol ts) \<and>
         subseq (resolve_policy pol ts) ts"
proof -
  have "\<not> policy_admits pol t" if "prefix p (tl_name t)" for t :: "'a tool"
    using denied_never_allowed [OF assms(2), of "tl_name t"] glob_literal_star [OF assms(1)] that
    by (simp add: policy_admits_def)
  then show ?thesis
    by (auto simp: resolve_policy_filter list_all_iff subseq_filter_left)
qed

text \<open>The budget under context pressure. Over every session of token reports the budget for a tool
  result stays between its minimum and its default, and five relieved turns in a row bring it back
  to the default.\<close>

lemma guard_budget:
  assumes "length calm = 5" and "rr \<le> pr"
    and "\<forall>(u, c) \<in> set calm. real_of_int u / real_of_int (max 1 c) < rr"
  shows "MIN_TOOL_RESULT_CHARS \<le> gs_max_chars (guard_run pr rr turns guard_state_new) \<and>
    gs_max_chars (guard_run pr rr turns guard_state_new) \<le> DEFAULT_MAX_TOOL_RESULT_CHARS \<and>
    gs_max_chars (guard_run pr rr calm (guard_run pr rr turns guard_state_new)) =
      DEFAULT_MAX_TOOL_RESULT_CHARS"
proof -
  let ?st = "guard_run pr rr turns guard_state_new"
  have ok: "guard_ok ?st" by (rule guard_ok_run [OF guard_ok_new])
  then have ok': "guard_ok (guard_run pr rr calm ?st)" by (rule guard_ok_run)
  have "min DEFAULT_MAX_TOOL_RESULT_CHARS (2 ^ length calm * gs_max_chars ?st) \<le>
      gs_max_chars (guard_run pr rr calm ?st)"
    by (rule guard_relief_run [OF assms(2) _ assms(3)])
       (use ok in \<open>simp add: guard_ok_def MIN_TOOL_RESULT_CHARS_def\<close>)
  with ok ok' assms(1) show ?thesis
    by (simp add: guard_ok_def MIN_TOOL_RESULT_CHARS_def DEFAULT_MAX_TOOL_RESULT_CHARS_def)
qed

text \<open>Pages lose nothing: the items of all pages are the items of the payload in order, no page but
  a single oversized item exceeds the page size, and the pages are numbered from 1 to their number,
  of which only the last one says that there are no more.\<close>

lemma pages_lossless:
  assumes "items \<noteq> []" and "0 \<le> n"
  shows "\<exists>chunks. concat chunks = map (format_item ser) items \<and>
    (\<forall>chunk \<in> set chunks. chunk \<noteq> [] \<and> (page_size chunk \<le> n \<or> length chunk \<le> 1)) \<and>
    map pg_content (split_large_payload items n ser) = map (page_body ser) chunks \<and>
    map pg_page (split_large_payload items n ser) = [1..<length chunks + 1] \<and>
    map pg_has_more (split_large_payload items n ser) =
      replicate (length chunks - 1) True @ [False]"
proof -
  let ?chunks = "fill_pages n (map (format_item ser) items) [] 0"
  let ?k = "length ?chunks"
  have ne: "?chunks \<noteq> []"
    using fill_pages_concat [of n "map (format_item ser) items" "[]" 0] assms(1)
    by (metis append_Nil concat.simps(1) list.map_disc_iff)
  have split: "split_large_payload items n ser = map (\<lambda>(i, chunk).
      \<lparr>pg_page = i, pg_total = ?k, pg_content = page_body ser chunk, pg_has_more = i < ?k\<rparr>)
      (zip [1..<?k + 1] ?chunks)"
    using assms(1) by (simp add: split_large_payload_def Let_def del: upt_Suc)
  have len: "length [1..<?k + 1] = ?k" by (simp only: length_upt add_diff_cancel_right')
  obtain k' where k: "?k = Suc k'" using ne by (cases ?k) auto
  have "map (\<lambda>i. i < Suc k') [1..<Suc k'] = replicate k' True"
    by (rule nth_equalityI) (auto simp del: upt_Suc)
  then have more: "map (\<lambda>i. i < ?k) [1..<?k + 1] = replicate (?k - 1) True @ [False]"
    unfolding k by simp
  have fst: "map (f \<circ> fst) (zip [1..<?k + 1] ?chunks) = map f [1..<?k + 1]" for f :: "nat \<Rightarrow> 'a"
    using len by (metis map_fst_zip map_map)
  have snd: "map (f \<circ> snd) (zip [1..<?k + 1] ?chunks) = map f ?chunks" for f :: "string list \<Rightarrow> 'a"
    using len by (metis map_snd_zip map_map)
  have "map pg_content (split_large_payload items n ser) = map (page_body ser) ?chunks"
    using snd [of "page_body ser"] by (simp add: split comp_def case_prod_beta del: upt_Suc)
  moreover have "map pg_page (split_large_payload items n ser) = [1..<?k + 1]"
    using fst [of id] by (simp add: split comp_def case_prod_beta del: upt_Suc)
  moreover have "map pg_has_more (split_large_payload items n ser) = replicate (?k - 1) True @ [False]"
    using fst [of "\<lambda>i. i < ?k"] more by (simp add: split comp_def case_prod_beta del: upt_Suc)
  moreover have "concat ?chunks = map (format_item ser) items"
    using fill_pages_concat [of n "map (format_item ser) items" "[]" 0] by simp
  moreover have "\<forall>chunk \<in> set ?chunks. chunk \<noteq> [] \<and> (page_size chunk \<le> n \<or> length chunk \<le> 1)"
    using fill_pages_nonempty [of "[]" "map (format_item ser) items" _ n 0]
      fill_pages_size [of 0 "[]" n _ "map (format_item ser) items"] assms by auto
  ultimately show ?thesis by blast
qed

end
