(* ===== verification/Hooks.thy ===== *)
theory Hooks
  imports Messages
begin

section \<open>Hook dispatch\<close>

text \<open>
  \<open>HookRunner\<close> of \<open>oxenclaw/pi/hooks.py\<close>. A hook is a function from its arguments and the state
  \<open>'w\<close> of the world to an outcome and a new state; a hook that raises may have changed the state
  before. The context \<open>HookContext\<close> is handed through unread. The lemmas say which hook decides,
  that every hook up to that one runs exactly once, and that a hook that raises changes nothing
  but the world.
\<close>

record hook_context =
  hc_run_id :: "string option"
  hc_agent_id :: "string option"
  hc_session_id :: "string option"
  hc_session_key :: "string option"
  hc_workspace_dir :: "string option"
  hc_model_provider :: "string option"
  hc_model_id :: "string option"
  hc_trigger :: "string option"
  hc_channel :: "string option"

record before_agent_reply_result =
  ba_handled :: bool
  ba_reply_text :: "string option"

record before_model_resolve_result =
  bm_provider :: "string option"
  bm_model_id :: "string option"

record before_tool_use_result =
  bt_abort :: bool
  bt_substitute_output :: "string option"
  bt_rewrite_args :: "(string \<times> json) list option"

datatype 'a hook_outcome = HookRaised | HookReturned 'a

type_synonym ('w, 'a) hook_run = "'w \<Rightarrow> 'a hook_outcome \<times> 'w"

record 'w hook_runner =
  hr_before_agent_reply ::
    "(string \<Rightarrow> hook_context \<Rightarrow> ('w, before_agent_reply_result option) hook_run) list"
  hr_before_model_resolve ::
    "(string \<Rightarrow> hook_context \<Rightarrow> ('w, before_model_resolve_result option) hook_run) list"
  hr_before_tool_use ::
    "(string \<Rightarrow> json \<Rightarrow> hook_context \<Rightarrow> ('w, before_tool_use_result option) hook_run) list"
  hr_after_tool_use ::
    "(string \<Rightarrow> json \<Rightarrow> string \<Rightarrow> bool \<Rightarrow> hook_context \<Rightarrow> ('w, unit) hook_run) list"
  hr_on_empty_reply :: "(hook_context \<Rightarrow> ('w, string option) hook_run) list"
  hr_on_turn_end :: "(string \<Rightarrow> hook_context \<Rightarrow> ('w, unit) hook_run) list"

subsection \<open>The three loops of the dispatchers\<close>

text \<open>Stop at the first hook whose value is accepted.\<close>

fun first_hook ::
  "('a \<Rightarrow> bool) \<Rightarrow> ('w, 'a option) hook_run list \<Rightarrow> 'w \<Rightarrow> 'a option \<times> 'w" where
  "first_hook accept [] w = (None, w)"
| "first_hook accept (h # hs) w =
    (case h w of
       (HookRaised, w') \<Rightarrow> first_hook accept hs w'
     | (HookReturned None, w') \<Rightarrow> first_hook accept hs w'
     | (HookReturned (Some out), w') \<Rightarrow>
         if accept out then (Some out, w') else first_hook accept hs w')"

text \<open>Run every hook and keep the last value.\<close>

fun last_hook :: "('w, 'a option) hook_run list \<Rightarrow> 'a option \<Rightarrow> 'w \<Rightarrow> 'a option \<times> 'w" where
  "last_hook [] found w = (found, w)"
| "last_hook (h # hs) found w =
    (case h w of
       (HookReturned (Some out), w') \<Rightarrow> last_hook hs (Some out) w'
     | (_, w') \<Rightarrow> last_hook hs found w')"

text \<open>Run every hook for its effect.\<close>

fun each_hook :: "('w, unit) hook_run list \<Rightarrow> 'w \<Rightarrow> 'w" where
  "each_hook [] w = w"
| "each_hook (h # hs) w = each_hook hs (snd (h w))"

subsection \<open>The dispatchers\<close>

definition run_before_agent_reply ::
  "'w hook_runner \<Rightarrow> string \<Rightarrow> hook_context \<Rightarrow> 'w \<Rightarrow> before_agent_reply_result option \<times> 'w" where
  "run_before_agent_reply r prompt ctx w =
    first_hook ba_handled (map (\<lambda>h. h prompt ctx) (hr_before_agent_reply r)) w"

definition run_before_model_resolve ::
  "'w hook_runner \<Rightarrow> string \<Rightarrow> hook_context \<Rightarrow> 'w \<Rightarrow> before_model_resolve_result option \<times> 'w" where
  "run_before_model_resolve r prompt ctx w =
    last_hook (map (\<lambda>h. h prompt ctx) (hr_before_model_resolve r)) None w"

definition decisive :: "before_tool_use_result \<Rightarrow> bool" where
  "decisive out \<longleftrightarrow> bt_abort out \<or> bt_rewrite_args out \<noteq> None"

definition run_before_tool_use ::
  "'w hook_runner \<Rightarrow> string \<Rightarrow> json \<Rightarrow> hook_context \<Rightarrow> 'w \<Rightarrow> before_tool_use_result option \<times> 'w" where
  "run_before_tool_use r tool_name args ctx w =
    first_hook decisive (map (\<lambda>h. h tool_name args ctx) (hr_before_tool_use r)) w"

definition run_after_tool_use ::
  "'w hook_runner \<Rightarrow> string \<Rightarrow> json \<Rightarrow> string \<Rightarrow> bool \<Rightarrow> hook_context \<Rightarrow> 'w \<Rightarrow> 'w" where
  "run_after_tool_use r tool_name args output is_error ctx w =
    each_hook (map (\<lambda>h. h tool_name args output is_error ctx) (hr_after_tool_use r)) w"

definition run_on_empty_reply ::
  "'w hook_runner \<Rightarrow> hook_context \<Rightarrow> 'w \<Rightarrow> string option \<times> 'w" where
  "run_on_empty_reply r ctx w =
    first_hook (\<lambda>out. out \<noteq> []) (map (\<lambda>h. h ctx) (hr_on_empty_reply r)) w"

definition run_on_turn_end :: "'w hook_runner \<Rightarrow> string \<Rightarrow> hook_context \<Rightarrow> 'w \<Rightarrow> 'w" where
  "run_on_turn_end r final_text ctx w =
    each_hook (map (\<lambda>h. h final_text ctx) (hr_on_turn_end r)) w"

subsection \<open>Lemmas\<close>

lemma first_hook_accepted: "first_hook accept hs w = (Some out, w') \<Longrightarrow> accept out"
  by (induction accept hs w rule: first_hook.induct)
     (auto split: prod.splits hook_outcome.splits option.splits if_splits)

text \<open>
  A hook list decides as the concatenation of its parts: the second part only runs when the
  first part did not decide, on the world the first part left.
\<close>

lemma first_hook_append:
  "first_hook accept (hs @ hs') w =
     (case first_hook accept hs w of
        (Some out, w') \<Rightarrow> (Some out, w')
      | (None, w') \<Rightarrow> first_hook accept hs' w')"
  by (induction accept hs w rule: first_hook.induct)
     (auto split: prod.splits hook_outcome.splits option.splits if_splits)

lemma first_hook_raises:
  "h w = (HookRaised, w') \<Longrightarrow> first_hook accept (h # hs) w = first_hook accept hs w'"
  by simp

text \<open>Undecided hooks have all run: the world is the one each hook passed to the next.\<close>

lemma first_hook_none:
  "first_hook accept hs w = (None, w') \<Longrightarrow> w' = foldl (\<lambda>w h. snd (h w)) w hs"
  by (induction accept hs w rule: first_hook.induct)
     (auto split: prod.splits hook_outcome.splits option.splits if_splits)

lemma last_hook_world: "snd (last_hook hs found w) = foldl (\<lambda>w h. snd (h w)) w hs"
  by (induction hs found w rule: last_hook.induct)
     (auto split: prod.splits hook_outcome.splits option.splits)

lemma each_hook_world: "each_hook hs w = foldl (\<lambda>w h. snd (h w)) w hs"
  by (induction hs w rule: each_hook.induct) auto

end
