(* ===== verification/ResultStorage.thy ===== *)
theory ResultStorage
  imports Messages
begin

section \<open>Tool results on disk\<close>

text \<open>
  \<open>oxenclaw/pi/tool_result_storage.py\<close>: outputs above a threshold go to a file and leave a preview
  block behind (\<open>maybe_persist_tool_result\<close>), and a whole turn is brought under its budget by
  spilling the largest outputs (\<open>enforce_turn_budget\<close>). A path is the list of its components;
  \<open>Path.resolve\<close> is the lexical one, without symbolic links. The disk is the dictionary from paths
  to contents; the parameter \<open>fails\<close> says which writes raise \<open>OSError\<close>. The lemmas show that the
  spilling loop ends, that writes stay inside the storage directory, and that a spilled output
  can be read back from the file the block names.
\<close>

definition PREVIEW_CHARS :: int where
  "PREVIEW_CHARS = 600"

definition DEFAULT_TURN_BUDGET :: int where
  "DEFAULT_TURN_BUDGET = 200000"

definition UNBOUNDED :: int where
  "UNBOUNDED = 10 ^ 12"

definition PERSISTED_OUTPUT_TAG :: string where
  "PERSISTED_OUTPUT_TAG = ''<persisted-output>''"

record budget_config =
  bc_default_threshold :: int
  bc_pinned_thresholds :: "(string \<times> int) list"

definition budget_config_default :: budget_config where
  "budget_config_default =
    \<lparr>bc_default_threshold = 8000,
     bc_pinned_thresholds = [(''read_file'', UNBOUNDED), (''memory_get'', UNBOUNDED),
                             (''memory_search'', UNBOUNDED)]\<rparr>"

definition resolve_threshold :: "string \<Rightarrow> budget_config \<Rightarrow> int" where
  "resolve_threshold tool_name config =
    (case map_of (bc_pinned_thresholds config) tool_name of
       Some n \<Rightarrow> n
     | None \<Rightarrow> bc_default_threshold config)"

subsection \<open>Paths\<close>

type_synonym path = "string list"
type_synonym disk = "(path \<times> string) list"

text \<open>One component of a path that is resolved, on the reversed path so far.\<close>

fun resolve_component :: "path \<Rightarrow> string \<Rightarrow> path" where
  "resolve_component rp c =
    (if c = [] \<or> c = ''.'' then rp
     else if c = ''..'' then tl rp
     else c # rp)"

definition resolve_path :: "path \<Rightarrow> string \<Rightarrow> path" where
  "resolve_path base rel =
    (let start = (case rel of c # _ \<Rightarrow> if c = CHR ''/'' then [] else rev base | [] \<Rightarrow> rev base)
     in rev (foldl resolve_component start (split_on (CHR ''/'') rel)))"

definition safe_join :: "path \<Rightarrow> string \<Rightarrow> py_error + path" where
  "safe_join storage_dir tool_use_id =
    (let candidate = resolve_path storage_dir (tool_use_id @ ''.txt'')
     in if prefix storage_dir candidate then Inr candidate else Inl ValueError)"

definition show_path :: "path \<Rightarrow> string" where
  "show_path p = CHR ''/'' # join ''/'' p"

subsection \<open>One result\<close>

definition build_block :: "path \<Rightarrow> int \<Rightarrow> string \<Rightarrow> string" where
  "build_block p total_chars preview =
    newline @ ''[Output persisted to '' @ show_path p @ '' ('' @ show_int total_chars @ '' chars). '' @
    ''Use read_file with offset/limit to inspect.]'' @ newline @
    ''Preview (first '' @ show_int PREVIEW_CHARS @ '' chars):'' @ newline @
    preview @ newline @ CHR 0x83 # ''[truncated, full file at path above]''"

definition maybe_persist_tool_result ::
  "(disk \<Rightarrow> path \<Rightarrow> bool) \<Rightarrow> string \<Rightarrow> string \<Rightarrow> string \<Rightarrow> budget_config \<Rightarrow> path \<Rightarrow> disk \<Rightarrow>
   py_error + (string \<times> disk)" where
  "maybe_persist_tool_result fails tool_use_id tool_name output config storage_dir d =
    (if int (length output) \<le> resolve_threshold tool_name config then Inr (output, d)
     else bind_err (safe_join storage_dir tool_use_id) (\<lambda>target.
       if fails d target then Inr (output, d)
       else Inr (build_block target (int (length output)) (slice_to PREVIEW_CHARS output),
                 dict_set target output d)))"

definition is_persisted :: "string \<Rightarrow> bool" where
  "is_persisted t \<longleftrightarrow>
     contains ''[Output persisted to'' t \<and> contains ''Use read_file with offset/limit'' t"

subsection \<open>One turn\<close>

record budget_entry =
  be_id :: string
  be_name :: string
  be_output :: string

definition spillable :: "budget_config \<Rightarrow> budget_entry \<Rightarrow> bool" where
  "spillable config r \<longleftrightarrow>
     be_output r \<noteq> [] \<and> map_of (bc_pinned_thresholds config) (be_name r) = None \<and>
     \<not> is_persisted (be_output r)"

text \<open>The scan for the largest candidate: its index and its size.\<close>

fun pick_largest ::
  "budget_config \<Rightarrow> nat \<Rightarrow> budget_entry list \<Rightarrow> (nat \<times> int) option \<Rightarrow> (nat \<times> int) option" where
  "pick_largest config i [] best = best"
| "pick_largest config i (r # rs) best =
    pick_largest config (Suc i) rs
      (if spillable config r \<and>
          (case best of None \<Rightarrow> True | Some (_, sz) \<Rightarrow> sz < int (length (be_output r)))
       then Some (i, int (length (be_output r))) else best)"

definition total_chars :: "budget_entry list \<Rightarrow> int" where
  "total_chars rs = sum_list (map (\<lambda>r. int (length (be_output r))) rs)"

definition forced_config :: "budget_config \<Rightarrow> budget_config" where
  "forced_config config = config\<lparr>bc_default_threshold := 0\<rparr>"

text \<open>The call that spills entry \<open>i\<close>: a missing id or name is filled in.\<close>

definition spill ::
  "(disk \<Rightarrow> path \<Rightarrow> bool) \<Rightarrow> budget_config \<Rightarrow> path \<Rightarrow> nat \<Rightarrow> budget_entry \<Rightarrow> disk \<Rightarrow>
   py_error + (string \<times> disk)" where
  "spill fails config storage_dir i r d =
    maybe_persist_tool_result fails
      (if be_id r \<noteq> [] then be_id r else ''budget_'' @ show_nat i)
      (if be_name r \<noteq> [] then be_name r else ''__budget__'')
      (be_output r) (forced_config config) storage_dir d"

lemma pick_largest_Some:
  assumes "pick_largest config i rs best = Some (k, s)"
  shows "best = Some (k, s) \<or>
         (i \<le> k \<and> k < i + length rs \<and> spillable config (rs ! (k - i)) \<and>
          s = int (length (be_output (rs ! (k - i)))))"
  using assms
proof (induction config i rs best rule: pick_largest.induct)
  case (1 config i best)
  then show ?case by simp
next
  case (2 config i r rs best)
  from 2(1) [OF 2(2) [simplified]] show ?case
    by (auto split: if_splits option.splits simp: nth_Cons')
qed

lemma persisted_block: "is_persisted (build_block p n t)"
proof -
  have "contains ''[Output persisted to'' (''[Output persisted to '' @ u)" for u by simp
  moreover have "contains ''Use read_file with offset/limit''
      (''Use read_file with offset/limit to inspect.]'' @ u)" for u by simp
  ultimately show ?thesis
    unfolding is_persisted_def build_block_def by (meson contains_append_right)
qed

lemma maybe_persist_cases:
  assumes "maybe_persist_tool_result fails i n output config dir d = Inr (t, d')"
  shows "(t = output \<and> d' = d) \<or>
         (\<exists>p. safe_join dir i = Inr p \<and> \<not> fails d p \<and> d' = dict_set p output d \<and>
           resolve_threshold n config < int (length output) \<and>
           t = build_block p (int (length output)) (slice_to PREVIEW_CHARS output))"
  using assms by (auto simp: maybe_persist_tool_result_def bind_err_Inr split: if_splits)

lemma spill_persists:
  "spill fails config dir i r d = Inr (t, d') \<Longrightarrow> t \<noteq> be_output r \<Longrightarrow> is_persisted t"
  unfolding spill_def by (drule maybe_persist_cases) (auto simp: persisted_block)

lemma spill_measure:
  assumes "i < length rs" and "spillable config (rs ! i)" and "is_persisted t"
  shows "length (filter (spillable config) (rs[i := (rs ! i)\<lparr>be_output := t\<rparr>])) <
         length (filter (spillable config) rs)"
proof -
  have s: "rs = take i rs @ rs ! i # drop (Suc i) rs"
    using assms(1) by (rule id_take_nth_drop)
  have u: "rs[i := x] = take i rs @ x # drop (Suc i) rs" for x
    using assms(1) by (rule upd_conv_take_nth_drop)
  have "\<not> spillable config ((rs ! i)\<lparr>be_output := t\<rparr>)"
    using assms(3) by (simp add: spillable_def)
  with assms(2) show ?thesis
    by (subst (2) s) (simp add: u)
qed

function spill_loop ::
  "(disk \<Rightarrow> path \<Rightarrow> bool) \<Rightarrow> budget_config \<Rightarrow> path \<Rightarrow> int \<Rightarrow> budget_entry list \<Rightarrow> disk \<Rightarrow> int \<Rightarrow> int \<Rightarrow>
   py_error + (budget_entry list \<times> disk \<times> int)" where
  "spill_loop fails config dir budget rs d total_now spilled =
    (if total_now \<le> budget then Inr (rs, d, spilled)
     else case pick_largest config 0 rs None of
       None \<Rightarrow> Inr (rs, d, spilled)
     | Some (i, _) \<Rightarrow>
        (case spill fails config dir i (rs ! i) d of
           Inl e \<Rightarrow> Inl e
         | Inr (replaced, d') \<Rightarrow>
             if replaced = be_output (rs ! i) then Inr (rs, d', spilled)
             else spill_loop fails config dir budget
                    (rs[i := (rs ! i)\<lparr>be_output := replaced\<rparr>]) d'
                    (total_now - (int (length (be_output (rs ! i))) - int (length replaced)))
                    (spilled + int (length (be_output (rs ! i))))))"
  by pat_completeness auto
termination
proof (relation "measure (\<lambda>(fails, config, dir, budget, rs, d, t, s).
    length (filter (spillable config) rs))", goal_cases)
  case 1
  show ?case by simp
next
  case (2 fails config dir budget rs d total_now spilled p i s r replaced d')
  from 2(2,3) have "i < length rs \<and> spillable config (rs ! i)"
    by (auto dest: pick_largest_Some)
  moreover have "is_persisted replaced" by (rule spill_persists) (use 2 in auto)
  ultimately show ?case using spill_measure [of i rs config replaced] by simp
qed

declare spill_loop.simps [simp del]

definition enforce_turn_budget ::
  "(disk \<Rightarrow> path \<Rightarrow> bool) \<Rightarrow> budget_config \<Rightarrow> path \<Rightarrow> int \<Rightarrow> budget_entry list \<Rightarrow> disk \<Rightarrow>
   py_error + (budget_entry list \<times> disk \<times> int)" where
  "enforce_turn_budget fails config dir turn_budget rs d =
    (if total_chars rs \<le> turn_budget then Inr (rs, d, 0)
     else spill_loop fails config dir turn_budget rs d (total_chars rs) 0)"

subsection \<open>Lemmas on one result\<close>

lemma show_int_PREVIEW [simp]: "show_int PREVIEW_CHARS = ''600''"
  by code_simp

lemma length_build_block:
  "length (build_block p n t) = length (show_path p) + length (show_int n) + length t + 143"
  by (simp add: build_block_def newline_def)

lemma safe_join_inside: "safe_join dir i = Inr p \<Longrightarrow> prefix dir p"
  by (auto simp: safe_join_def Let_def split: if_splits)

subsection \<open>Lemmas on the turn budget\<close>

lemma pick_largest_None:
  "pick_largest config i rs best = None \<longleftrightarrow>
     best = None \<and> list_all (\<lambda>r. \<not> spillable config r) rs"
  by (induction config i rs best rule: pick_largest.induct) auto

text \<open>One pass of the loop: nothing happens, an entry is replaced by its block, or an error.\<close>

lemma spill_step:
  assumes "spill fails config dir i r d = Inr (t, d')" and "t \<noteq> be_output r"
  obtains p where "safe_join dir (if be_id r \<noteq> [] then be_id r else ''budget_'' @ show_nat i) = Inr p"
    and "d' = dict_set p (be_output r) d"
    and "t = build_block p (int (length (be_output r))) (slice_to PREVIEW_CHARS (be_output r))"
  using maybe_persist_cases [OF assms(1) [unfolded spill_def]] assms(2) by auto

lemma spill_unchanged:
  assumes "spill fails config dir i r d = Inr (be_output r, d')" and "spillable config r"
  shows "d' = d"
  using maybe_persist_cases [OF assms(1) [unfolded spill_def]] assms(2)
  by (auto simp: spillable_def) (metis persisted_block)

text \<open>What is true of the entries and the disk in every state of the loop.\<close>

definition entry_path :: "path \<Rightarrow> nat \<Rightarrow> budget_entry \<Rightarrow> py_error + path" where
  "entry_path dir i r =
     safe_join dir (if be_id r \<noteq> [] then be_id r else ''budget_'' @ show_nat i)"

definition entry_kept :: "path \<Rightarrow> budget_entry list \<Rightarrow> disk \<Rightarrow> nat \<Rightarrow> budget_entry \<Rightarrow> bool" where
  "entry_kept dir rs0 d i r \<longleftrightarrow>
     r = rs0 ! i \<or>
     (\<exists>p. entry_path dir i (rs0 ! i) = Inr p \<and>
        map_of d p = Some (be_output (rs0 ! i)) \<and>
        r = (rs0 ! i)\<lparr>be_output := build_block p (int (length (be_output (rs0 ! i))))
               (slice_to PREVIEW_CHARS (be_output (rs0 ! i)))\<rparr>)"

definition paths_differ :: "path \<Rightarrow> budget_entry list \<Rightarrow> bool" where
  "paths_differ dir rs \<longleftrightarrow>
     (\<forall>i < length rs. \<forall>j < length rs. \<forall>p.
        entry_path dir i (rs ! i) = Inr p \<and> entry_path dir j (rs ! j) = Inr p \<longrightarrow> i = j)"

definition spill_inv ::
  "path \<Rightarrow> budget_entry list \<Rightarrow> disk \<Rightarrow> budget_entry list \<Rightarrow> disk \<Rightarrow> bool" where
  "spill_inv dir rs0 d0 rs d \<longleftrightarrow>
     length rs = length rs0 \<and>
     (\<forall>i < length rs0. entry_kept dir rs0 d i (rs ! i)) \<and>
     (\<forall>p. \<not> prefix dir p \<longrightarrow> map_of d p = map_of d0 p)"

lemma spill_inv_start: "spill_inv dir rs d rs d"
  by (simp add: spill_inv_def entry_kept_def)

lemma spill_inv_step:
  assumes inv: "spill_inv dir rs0 d0 rs d" and differ: "paths_differ dir rs0"
    and i: "i < length rs" and sp: "spillable config (rs ! i)"
    and step: "spill fails config dir i (rs ! i) d = Inr (t, d')" and t: "t \<noteq> be_output (rs ! i)"
  shows "spill_inv dir rs0 d0 (rs[i := (rs ! i)\<lparr>be_output := t\<rparr>]) d'"
proof -
  have "\<not> is_persisted (be_output (rs ! i))" using sp by (simp add: spillable_def)
  moreover have "entry_kept dir rs0 d i (rs ! i)" using inv i by (simp add: spill_inv_def)
  ultimately have same: "rs ! i = rs0 ! i" by (auto simp: entry_kept_def persisted_block)
  obtain p where p: "entry_path dir i (rs0 ! i) = Inr p"
    and d': "d' = dict_set p (be_output (rs0 ! i)) d"
    and tb: "t = build_block p (int (length (be_output (rs0 ! i))))
                   (slice_to PREVIEW_CHARS (be_output (rs0 ! i)))"
    using spill_step [OF step t] unfolding same entry_path_def by metis
  have "entry_kept dir rs0 d' j ((rs[i := (rs ! i)\<lparr>be_output := t\<rparr>]) ! j)"
    if j: "j < length rs0" for j
  proof (cases "j = i")
    case True
    with p d' tb same i show ?thesis by (auto simp: entry_kept_def map_of_dict_set)
  next
    case False
    have "entry_kept dir rs0 d j (rs ! j)" using inv j by (simp add: spill_inv_def)
    moreover have "q \<noteq> p" if "entry_path dir j (rs0 ! j) = Inr q" for q
      using differ that p False i j inv by (auto simp: paths_differ_def spill_inv_def)
    ultimately show ?thesis using False by (auto simp: entry_kept_def d' map_of_dict_set)
  qed
  moreover have "prefix dir p" using p by (simp add: entry_path_def safe_join_inside)
  ultimately show ?thesis
    using inv by (auto simp: spill_inv_def d' map_of_dict_set)
qed

text \<open>A property that every spill keeps is kept by the loop.\<close>

lemma spill_loop_keeps:
  assumes "spill_loop fails config dir budget rs d n k = Inr (rs', d', k')" and "P rs d"
    and "\<And>rs d i t d'. P rs d \<Longrightarrow> i < length rs \<Longrightarrow> spillable config (rs ! i) \<Longrightarrow>
      spill fails config dir i (rs ! i) d = Inr (t, d') \<Longrightarrow> t \<noteq> be_output (rs ! i) \<Longrightarrow>
      P (rs[i := (rs ! i)\<lparr>be_output := t\<rparr>]) d'"
  shows "P rs' d'"
  using assms
proof (induction fails config dir budget rs d n k rule: spill_loop.induct)
  case (1 fails config dir budget rs d n k)
  show ?case
  proof (cases "n \<le> budget \<or> pick_largest config 0 rs None = None")
    case True
    with 1(2,3) show ?thesis
      by (auto simp: spill_loop.simps [of _ _ _ _ rs] split: if_splits)
  next
    case False
    then obtain i s where pick: "pick_largest config 0 rs None = Some (i, s)" by auto
    then have i: "i < length rs" "spillable config (rs ! i)"
      by (auto dest: pick_largest_Some)
    from False pick 1(2) obtain t d1 where step: "spill fails config dir i (rs ! i) d = Inr (t, d1)"
      by (auto simp: spill_loop.simps [of _ _ _ _ rs] split: sum.splits)
    show ?thesis
    proof (cases "t = be_output (rs ! i)")
      case True
      with False pick step 1(2) have "rs' = rs" "d' = d1"
        by (auto simp: spill_loop.simps [of _ _ _ _ rs])
      moreover have "d1 = d" using spill_unchanged step True i(2) by blast
      ultimately show ?thesis using 1(3) by simp
    next
      case t: False
      have "P (rs[i := (rs ! i)\<lparr>be_output := t\<rparr>]) d1"
        by (rule 1(4) [OF 1(3) i step t])
      moreover have "spill_loop fails config dir budget (rs[i := (rs ! i)\<lparr>be_output := t\<rparr>]) d1
          (n - (int (length (be_output (rs ! i))) - int (length t)))
          (k + int (length (be_output (rs ! i)))) = Inr (rs', d', k')"
        using False pick step t 1(2) by (auto simp: spill_loop.simps [of _ _ _ _ rs])
      ultimately show ?thesis
        using 1(1) [OF _ pick refl step refl t] False 1(4) by blast
    qed
  qed
qed

lemma spill_loop_inv:
  assumes "spill_loop fails config dir budget rs d n k = Inr (rs', d', k')"
    and "spill_inv dir rs0 d0 rs d" and "paths_differ dir rs0"
  shows "spill_inv dir rs0 d0 rs' d'"
  using assms(1,2) by (rule spill_loop_keeps) (rule spill_inv_step [OF _ assms(3)])

lemma spill_loop_length:
  assumes "spill_loop fails config dir budget rs d n k = Inr (rs', d', k')"
  shows "length rs' = length rs"
  using assms by (rule spill_loop_keeps [where P = "\<lambda>xs d. length xs = length rs"]) simp_all

lemma enforce_length:
  "enforce_turn_budget fails config dir budget rs d = Inr (rs', d', k) \<Longrightarrow> length rs' = length rs"
  by (auto simp: enforce_turn_budget_def split: if_splits dest: spill_loop_length)

lemma total_chars_update:
  assumes "i < length rs"
  shows "total_chars (rs[i := (rs ! i)\<lparr>be_output := t\<rparr>]) =
         total_chars rs - (int (length (be_output (rs ! i))) - int (length t))"
proof -
  have s: "rs = take i rs @ rs ! i # drop (Suc i) rs"
    using assms by (rule id_take_nth_drop)
  have u: "rs[i := x] = take i rs @ x # drop (Suc i) rs" for x
    using assms by (rule upd_conv_take_nth_drop)
  show ?thesis unfolding u by (subst (3) s) (simp add: total_chars_def)
qed

text \<open>Why the loop stops: within budget, nothing left to spill, or a spill that changed nothing.\<close>

lemma spill_loop_stops:
  "spill_loop fails config dir budget rs d n k = Inr (rs', d', k') \<Longrightarrow> n = total_chars rs \<Longrightarrow>
   total_chars rs' \<le> budget \<or> list_all (\<lambda>r. \<not> spillable config r) rs' \<or>
   (\<exists>i r d. r \<in> set rs' \<and> spillable config r \<and>
      spill fails config dir i r d = Inr (be_output r, d))"
proof (induction fails config dir budget rs d n k rule: spill_loop.induct)
  case (1 fails config dir budget rs d n k)
  show ?case
  proof (cases "n \<le> budget \<or> pick_largest config 0 rs None = None")
    case True
    with 1(2,3) have "rs' = rs" by (auto simp: spill_loop.simps [of _ _ _ _ rs] split: if_splits)
    with True 1(3) show ?thesis using pick_largest_None [of config 0 rs None] by auto
  next
    case False
    then obtain i s where pick: "pick_largest config 0 rs None = Some (i, s)" by auto
    then have i: "i < length rs" "spillable config (rs ! i)"
      by (auto dest: pick_largest_Some)
    from False pick 1(2) obtain t d1 where step: "spill fails config dir i (rs ! i) d = Inr (t, d1)"
      by (auto simp: spill_loop.simps [of _ _ _ _ rs] split: sum.splits)
    show ?thesis
    proof (cases "t = be_output (rs ! i)")
      case True
      with False pick step 1(2) have "rs' = rs" by (auto simp: spill_loop.simps [of _ _ _ _ rs])
      moreover have "d1 = d" using spill_unchanged step True i(2) by blast
      ultimately show ?thesis using step True i nth_mem by metis
    next
      case t: False
      have "spill_loop fails config dir budget (rs[i := (rs ! i)\<lparr>be_output := t\<rparr>]) d1
          (n - (int (length (be_output (rs ! i))) - int (length t)))
          (k + int (length (be_output (rs ! i)))) = Inr (rs', d', k')"
        using False pick step t 1(2) by (auto simp: spill_loop.simps [of _ _ _ _ rs])
      then show ?thesis
        using 1(1) [OF _ pick refl step refl t] False total_chars_update [OF i(1)] 1(3) by simp
    qed
  qed
qed

text \<open>When no write fails and no name is empty, a spillable entry is always replaced.\<close>

lemma spill_succeeds:
  assumes "spillable config r" and "be_name r \<noteq> []" and "\<not> fails d p" and
    "entry_path dir i r = Inr p"
  shows "spill fails config dir i r d \<noteq> Inr (be_output r, d')"
proof -
  have "resolve_threshold (be_name r) (forced_config config) = 0"
    using assms(1) by (simp add: spillable_def resolve_threshold_def forced_config_def)
  moreover have "be_output r \<noteq> []" and np: "\<not> is_persisted (be_output r)"
    using assms(1) by (auto simp: spillable_def)
  ultimately have "spill fails config dir i r d =
      Inr (build_block p (int (length (be_output r))) (slice_to PREVIEW_CHARS (be_output r)),
           dict_set p (be_output r) d)"
    using assms by (simp add: spill_def maybe_persist_tool_result_def entry_path_def)
  with np show ?thesis using persisted_block by (metis Inr_inject prod.inject)
qed

subsection \<open>Properties\<close>

lemma spill_loop_names:
  assumes "spill_loop fails config dir budget rs d n k = Inr (rs', d', k')"
    and "list_all (\<lambda>r. be_name r \<noteq> []) rs"
  shows "list_all (\<lambda>r. be_name r \<noteq> []) rs'"
  using assms
  by (rule spill_loop_keeps [where P = "\<lambda>xs d. list_all (\<lambda>r. be_name r \<noteq> []) xs"])
     (auto simp: list_all_length nth_list_update)

lemma spill_no_change:
  assumes "spill (\<lambda>d p. False) config dir i r d = Inr (be_output r, d')" and "spillable config r"
    and "be_name r \<noteq> []"
  shows False
proof (cases "entry_path dir i r")
  case (Inl e)
  have "resolve_threshold (be_name r) (forced_config config) < int (length (be_output r))"
    using assms(2) by (simp add: spillable_def resolve_threshold_def forced_config_def)
  with Inl assms(1,3) show False
    by (simp add: spill_def maybe_persist_tool_result_def entry_path_def)
next
  case (Inr p)
  with spill_succeeds [OF assms(2,3) _ Inr, of "\<lambda>d p. False"] assms(1) show False by simp
qed

text \<open>C16. The turn budget. When no write fails, spilling stops only because the outputs fit the budget or
  because none is left that may be spilled: the rest is empty, pinned, or already a preview block.\<close>

theorem turn_budget_outcome:
  assumes "enforce_turn_budget (\<lambda>d p. False) config dir budget rs d = Inr (rs', d', k)"
    and "list_all (\<lambda>r. be_name r \<noteq> []) rs"
  shows "total_chars rs' \<le> budget \<or> list_all (\<lambda>r. \<not> spillable config r) rs'"
proof (cases "total_chars rs \<le> budget")
  case True
  with assms(1) show ?thesis by (simp add: enforce_turn_budget_def)
next
  case False
  with assms(1) have loop: "spill_loop (\<lambda>d p. False) config dir budget rs d (total_chars rs) 0 = Inr (rs', d', k)"
    by (simp add: enforce_turn_budget_def)
  have "list_all (\<lambda>r. be_name r \<noteq> []) rs'" by (rule spill_loop_names [OF loop assms(2)])
  with spill_loop_stops [OF loop refl] show ?thesis
    by (auto simp: list_all_iff dest: spill_no_change)
qed

definition demo_entries :: "budget_entry list" where
  "demo_entries = [\<lparr>be_id = ''a'', be_name = ''grep'', be_output = ''abcdef''\<rparr>,
     \<lparr>be_id = ''b'', be_name = ''read_file'', be_output = ''xyz''\<rparr>]"

lemma demo_entries_spill:
  "\<exists>rs' d' k. enforce_turn_budget (\<lambda>d p. False) budget_config_default [''s''] 5 demo_entries [] =
     Inr (rs', d', k)"
proof -
  have "case enforce_turn_budget (\<lambda>d p. False) budget_config_default [''s''] 5 demo_entries [] of
      Inr _ \<Rightarrow> True | Inl _ \<Rightarrow> False"
    by code_simp
  then show ?thesis by (auto split: sum.splits)
qed

theorem turn_budget_outcome_witness:
  "\<exists>rs' d' k. enforce_turn_budget (\<lambda>d p. False) budget_config_default [''s''] 5 demo_entries [] =
       Inr (rs', d', k) \<and>
     (total_chars rs' \<le> 5 \<or> list_all (\<lambda>r. \<not> spillable budget_config_default r) rs')"
proof -
  obtain rs' d' k where e:
    "enforce_turn_budget (\<lambda>d p. False) budget_config_default [''s''] 5 demo_entries [] = Inr (rs', d', k)"
    using demo_entries_spill by blast
  from turn_budget_outcome [OF e] e show ?thesis by (simp add: demo_entries_def)
qed

lemma entry_path_inside: "entry_path dir i r = Inr p \<Longrightarrow> prefix dir p"
  by (simp add: entry_path_def safe_join_inside)

text \<open>C15. Spilling loses nothing: an output is either still there, or replaced by a block whose file under
  the storage directory holds the whole output; nothing outside that directory is written. The
  entries must have different files (the same tool-use id twice would overwrite the first one's).\<close>

theorem spilled_outputs_recoverable:
  assumes "enforce_turn_budget fails config dir budget rs d = Inr (rs', d', k)"
    and "paths_differ dir rs"
  shows "length rs' = length rs \<and>
    (\<forall>i < length rs. rs' ! i = rs ! i \<or>
      (\<exists>p. entry_path dir i (rs ! i) = Inr p \<and> prefix dir p \<and>
         map_of d' p = Some (be_output (rs ! i)) \<and>
         rs' ! i = (rs ! i)\<lparr>be_output := build_block p (int (length (be_output (rs ! i))))
                      (slice_to PREVIEW_CHARS (be_output (rs ! i)))\<rparr>)) \<and>
    (\<forall>p. \<not> prefix dir p \<longrightarrow> map_of d' p = map_of d p)"
proof -
  have "spill_inv dir rs d rs' d'"
    using assms spill_inv_start [of dir rs d]
    by (auto simp: enforce_turn_budget_def split: if_splits dest: spill_loop_inv)
  then show ?thesis
    by (fastforce simp: spill_inv_def entry_kept_def dest: entry_path_inside)
qed

theorem spilled_outputs_recoverable_witness:
  "\<exists>rs' d' k. enforce_turn_budget (\<lambda>d p. False) budget_config_default [''s''] 5 demo_entries [] =
       Inr (rs', d', k) \<and> length rs' = 2 \<and>
     (rs' ! 0 = demo_entries ! 0 \<or>
      (\<exists>p. entry_path [''s''] 0 (demo_entries ! 0) = Inr p \<and> prefix [''s''] p \<and>
         map_of d' p = Some ''abcdef''))"
proof -
  obtain rs' d' k where e:
    "enforce_turn_budget (\<lambda>d p. False) budget_config_default [''s''] 5 demo_entries [] = Inr (rs', d', k)"
    using demo_entries_spill by blast
  have "paths_differ [''s''] demo_entries"
    by (auto simp: paths_differ_def demo_entries_def entry_path_def safe_join_def resolve_path_def
        Let_def less_Suc_eq)
  note all = spilled_outputs_recoverable [OF e this]
  have two: "length demo_entries = 2" and out: "be_output (demo_entries ! 0) = ''abcdef''"
    by (simp_all add: demo_entries_def)
  from all two have "length rs' = 2" by simp
  moreover from all two have "rs' ! 0 = demo_entries ! 0 \<or>
      (\<exists>p. entry_path [''s''] 0 (demo_entries ! 0) = Inr p \<and> prefix [''s''] p \<and>
         map_of d' p = Some ''abcdef'')"
    unfolding out [symmetric] by fastforce
  ultimately show ?thesis using e by blast
qed

end
