(* ===== verification/ToolExec.thy ===== *)
theory ToolExec
  imports ToolRuntime Hooks ResultStorage
begin

section \<open>Running the tools of one iteration\<close>

text \<open>
  The tool half of \<open>oxenclaw/pi/run/run.py\<close>: \<open>_execute_tool_safely\<close>, \<open>_run_tools\<close> with its hooks and
  name recovery, and what the loop then does to the results: the cap by the share of the context
  window and by the policy, and the spill to disk. Python's \<open>repr\<close> of strings, lists and JSON values
  is \<open>repr_str\<close>, \<open>repr_list\<close> and \<open>repr_json\<close>. Parallel calls (\<open>asyncio.gather\<close>) return their
  results in the order of the requests; the effects of the tools on the world are taken in that
  order too. The lemmas show that the results answer the requests one by one, by id and name,
  and how long they can be.
\<close>

subsection \<open>Python's repr\<close>

definition printable :: "char \<Rightarrow> bool" where
  "printable c \<longleftrightarrow>
    (let n = ch c
     in (32 \<le> n \<and> n \<le> 126) \<or> (161 \<le> n \<and> n \<noteq> 173) \<or> (128 \<le> n \<and> n \<le> 138 \<and> n \<noteq> 133))"

definition repr_char :: "char \<Rightarrow> char \<Rightarrow> string" where
  "repr_char quote c =
    (if c = quote \<or> c = CHR 0x5C then [CHR 0x5C, c]
     else if c = CHR 0x0A then [CHR 0x5C, CHR ''n'']
     else if c = CHR 0x0D then [CHR 0x5C, CHR ''r'']
     else if c = CHR 0x09 then [CHR 0x5C, CHR ''t'']
     else if printable c then [c]
     else [CHR 0x5C, CHR ''x'', hex_digit (ch c div 16), hex_digit (ch c mod 16)])"

definition repr_str :: "string \<Rightarrow> string" where
  "repr_str s =
    (let quote = (if CHR 0x27 \<in> set s \<and> CHR 0x22 \<notin> set s then CHR 0x22 else CHR 0x27)
     in quote # concat (map (repr_char quote) s) @ [quote])"

definition repr_list :: "string list \<Rightarrow> string" where
  "repr_list xs = ''['' @ join '', '' (map repr_str xs) @ '']''"

fun repr_json :: "json \<Rightarrow> string"
  and repr_elems :: "json list \<Rightarrow> string list"
  and repr_members :: "(string \<times> json) list \<Rightarrow> string list" where
  "repr_json JNull = ''None''"
| "repr_json (JBool b) = (if b then ''True'' else ''False'')"
| "repr_json (JInt i) = show_int i"
| "repr_json (JFloat l) = l"
| "repr_json (JStr s) = repr_str s"
| "repr_json (JArr xs) = ''['' @ join '', '' (repr_elems xs) @ '']''"
| "repr_json (JObj kvs) = ''{'' @ join '', '' (repr_members kvs) @ ''}''"
| "repr_elems [] = []"
| "repr_elems (x # xs) = repr_json x # repr_elems xs"
| "repr_members [] = []"
| "repr_members ((k, v) # kvs) = (repr_str k @ '': '' @ repr_json v) # repr_members kvs"

subsection \<open>One call\<close>

record tool_request =
  tq_id :: string
  tq_name :: string
  tq_input :: json

fun request_of :: "block \<Rightarrow> tool_request list" where
  "request_of (ToolUseBlock i n inp) = [\<lparr>tq_id = i, tq_name = n, tq_input = inp\<rparr>]"
| "request_of _ = []"

definition tool_requests :: "assistant \<Rightarrow> tool_request list" where
  "tool_requests a = concat (map request_of (am_content a))"

definition exec_result :: "tool_request \<Rightarrow> string \<Rightarrow> bool \<Rightarrow> tool_exec" where
  "exec_result rq out err = \<lparr>te_id = tq_id rq, te_name = tq_name rq, te_output = out, te_is_error = err\<rparr>"

definition parse_error_output :: "json \<Rightarrow> string" where
  "parse_error_output inp =
    ''tool error: arguments were not valid JSON. Raw payload: '' @
    repr_json (case dict_get ''_raw'' inp of Some v \<Rightarrow> v | None \<Rightarrow> JStr []) @
    ''. Re-emit with a JSON object literal.''"

fun outcome_result :: "tool_request \<Rightarrow> tool_outcome \<Rightarrow> tool_exec" where
  "outcome_result rq (OutText s) = exec_result rq s False"
| "outcome_result rq (OutValue (JStr s)) = exec_result rq s False"
| "outcome_result rq (OutValue v) = exec_result rq (json_dumps True False v) False"
| "outcome_result rq (OutRaised m) = exec_result rq (''tool error: '' @ m) True"

definition execute_tool_safely :: "'w tool \<Rightarrow> tool_request \<Rightarrow> 'w \<Rightarrow> tool_exec \<times> 'w" where
  "execute_tool_safely t rq w =
    (if (case dict_get ''_parse_error'' (tq_input rq) of Some v \<Rightarrow> truthy v | None \<Rightarrow> False)
     then (exec_result rq (parse_error_output (tq_input rq)) True, w)
     else let (out, w') = tl_execute t (tq_input rq) w in (outcome_result rq out, w'))"

definition after_hooks ::
  "'w hook_runner option \<Rightarrow> hook_context \<Rightarrow> tool_request \<Rightarrow> tool_exec \<Rightarrow> 'w \<Rightarrow> 'w" where
  "after_hooks hr ctx rq res w =
    (case hr of
       None \<Rightarrow> w
     | Some r \<Rightarrow>
         run_after_tool_use r (tq_name rq) (tq_input rq) (te_output res) (te_is_error res) ctx w)"

text \<open>The call after the \<open>before_tool_use\<close> hooks, with the arguments they left.\<close>

definition dispatch_tool ::
  "'w hook_runner option \<Rightarrow> hook_context \<Rightarrow> (string \<times> 'w tool) list \<Rightarrow> tool_request \<Rightarrow> 'w \<Rightarrow>
   tool_exec \<times> 'w" where
  "dispatch_tool hr ctx live rq w =
    (let (res, w') =
       (case find_live live (tq_name rq) of
          None \<Rightarrow> (exec_result rq (''tool '' @ repr_str (tq_name rq) @ '' is not registered'') True, w)
        | Some t \<Rightarrow> execute_tool_safely t rq w)
     in (res, after_hooks hr ctx rq res w'))"

definition nonempty_or :: "string option \<Rightarrow> string \<Rightarrow> string" where
  "nonempty_or x dflt = (case x of Some (c # s) \<Rightarrow> c # s | _ \<Rightarrow> dflt)"

definition run_one_tool ::
  "'w hook_runner option \<Rightarrow> hook_context \<Rightarrow> (string \<times> 'w tool) list \<Rightarrow> tool_request \<Rightarrow> 'w \<Rightarrow>
   tool_exec \<times> 'w" where
  "run_one_tool hr ctx live rq w =
    (case hr of
       None \<Rightarrow> dispatch_tool hr ctx live rq w
     | Some r \<Rightarrow>
        (case run_before_tool_use r (tq_name rq) (tq_input rq) ctx w of
           (None, w') \<Rightarrow> dispatch_tool hr ctx live rq w'
         | (Some decision, w') \<Rightarrow>
             if bt_abort decision
             then let res = exec_result rq
                        (nonempty_or (bt_substitute_output decision)
                          (''tool '' @ repr_str (tq_name rq) @ '' aborted by hook'')) True
                  in (res, after_hooks hr ctx rq res w')
             else (case bt_rewrite_args decision of
                     Some args \<Rightarrow> dispatch_tool hr ctx live (rq\<lparr>tq_input := JObj args\<rparr>) w'
                   | None \<Rightarrow> dispatch_tool hr ctx live rq w')))"

fun run_tools ::
  "'w hook_runner option \<Rightarrow> hook_context \<Rightarrow> (string \<times> 'w tool) list \<Rightarrow> tool_request list \<Rightarrow> 'w \<Rightarrow>
   tool_exec list \<times> 'w" where
  "run_tools hr ctx live [] w = ([], w)"
| "run_tools hr ctx live (rq # rqs) w =
    (let (res, w1) = run_one_tool hr ctx live rq w; (ress, w2) = run_tools hr ctx live rqs w1
     in (res # ress, w2))"

subsection \<open>The results\<close>

definition result_cap :: "tool_policy option \<Rightarrow> int \<Rightarrow> string \<Rightarrow> int" where
  "result_cap policy ctx_share_cap name =
    (case policy of
       None \<Rightarrow> ctx_share_cap
     | Some p \<Rightarrow> let policy_cap = max_chars_for p name
                 in if 0 < policy_cap then min ctx_share_cap policy_cap else ctx_share_cap)"

definition cap_result :: "tool_policy option \<Rightarrow> int \<Rightarrow> tool_exec \<Rightarrow> tool_exec" where
  "cap_result policy ctx_share_cap r =
    (let cap = result_cap policy ctx_share_cap (te_name r)
     in if te_output r \<noteq> [] \<and> cap < int (length (te_output r))
        then r\<lparr>te_output := truncate_default (te_output r) cap\<rparr> else r)"

definition cap_results :: "tool_policy option \<Rightarrow> model \<Rightarrow> tool_exec list \<Rightarrow> tool_exec list" where
  "cap_results policy m rs =
    map (cap_result policy (calculate_max_tool_result_chars (m_context_window m))) rs"

fun persist_each ::
  "(disk \<Rightarrow> path \<Rightarrow> bool) \<Rightarrow> path \<Rightarrow> tool_exec list \<Rightarrow> disk \<Rightarrow> py_error + (tool_exec list \<times> disk)" where
  "persist_each fails dir [] d = Inr ([], d)"
| "persist_each fails dir (r # rs) d =
    bind_err (maybe_persist_tool_result fails (te_id r) (te_name r) (te_output r)
                budget_config_default dir d) (\<lambda>(replaced, d1).
      bind_err (persist_each fails dir rs d1) (\<lambda>(rs', d2).
        Inr (r\<lparr>te_output := replaced\<rparr> # rs', d2)))"

definition shadow_of :: "tool_exec \<Rightarrow> budget_entry" where
  "shadow_of r = \<lparr>be_id = te_id r, be_name = te_name r, be_output = te_output r\<rparr>"

definition persist_results ::
  "(disk \<Rightarrow> path \<Rightarrow> bool) \<Rightarrow> path option \<Rightarrow> tool_exec list \<Rightarrow> disk \<Rightarrow>
   py_error + (tool_exec list \<times> disk)" where
  "persist_results fails storage_dir rs d =
    (case storage_dir of
       None \<Rightarrow> Inr (rs, d)
     | Some dir \<Rightarrow>
        bind_err (persist_each fails dir rs d) (\<lambda>(rs1, d1).
          bind_err (enforce_turn_budget fails budget_config_default dir DEFAULT_TURN_BUDGET
                      (map shadow_of rs1) d1) (\<lambda>(shadow, d2, _).
            Inr (map (\<lambda>(r, sh). r\<lparr>te_output := be_output sh\<rparr>) (zip rs1 shadow), d2))))"

definition is_unknown_tool :: "tool_exec \<Rightarrow> bool" where
  "is_unknown_tool r \<longleftrightarrow> te_is_error r \<and> contains ''is not registered'' (te_output r)"

subsection \<open>Lemmas on the calls\<close>

lemma exec_result_simps [simp]:
  "te_id (exec_result rq out err) = tq_id rq"
  "te_name (exec_result rq out err) = tq_name rq"
  "te_output (exec_result rq out err) = out"
  "te_is_error (exec_result rq out err) = err"
  by (simp_all add: exec_result_def)

text \<open>A result answers its request: the same id and the same name.\<close>

definition answers :: "tool_request \<Rightarrow> tool_exec \<Rightarrow> bool" where
  "answers rq r \<longleftrightarrow> te_id r = tq_id rq \<and> te_name r = tq_name rq"

lemma answers_outcome: "answers rq (outcome_result rq out)"
  by (cases "(rq, out)" rule: outcome_result.cases) (auto simp: answers_def)

lemma answers_execute: "answers rq (fst (execute_tool_safely t rq w))"
  by (simp add: execute_tool_safely_def answers_outcome case_prod_beta) (simp add: answers_def)

lemma answers_dispatch: "answers rq (fst (dispatch_tool hr ctx live rq w))"
  using answers_execute [of rq _ w]
  by (simp add: dispatch_tool_def case_prod_beta split: option.split) (simp add: answers_def)

lemma answers_rewritten: "answers (rq\<lparr>tq_input := inp\<rparr>) r \<longleftrightarrow> answers rq r"
  by (simp add: answers_def)

lemma answers_one: "answers rq (fst (run_one_tool hr ctx live rq w))"
proof (cases hr)
  case None
  then show ?thesis by (simp add: run_one_tool_def answers_dispatch)
next
  case (Some r)
  obtain dec w' where d: "run_before_tool_use r (tq_name rq) (tq_input rq) ctx w = (dec, w')"
    by (cases "run_before_tool_use r (tq_name rq) (tq_input rq) ctx w")
  show ?thesis
  proof (cases dec)
    case None
    with d Some show ?thesis by (simp add: run_one_tool_def answers_dispatch)
  next
    case dec: (Some decision)
    have rewritten: "answers rq (fst (dispatch_tool hr ctx live (rq\<lparr>tq_input := inp\<rparr>) w'))" for inp
      using answers_dispatch [of "rq\<lparr>tq_input := inp\<rparr>" hr ctx live w']
      by (simp only: answers_rewritten)
    show ?thesis
    proof (cases "bt_abort decision")
      case True
      with d Some dec show ?thesis by (simp add: run_one_tool_def Let_def answers_def)
    next
      case False
      with d Some dec show ?thesis
        by (simp add: run_one_tool_def rewritten [unfolded Some] answers_dispatch split: option.split)
    qed
  qed
qed

lemma run_tools_answers: "list_all2 answers rqs (fst (run_tools hr ctx live rqs w))"
  by (induction rqs arbitrary: w) (auto simp: case_prod_beta answers_one Let_def)

lemma tool_requests_ids: "map tq_id (tool_requests a) = map tool_id (tool_uses a)"
proof -
  have "map tq_id (concat (map request_of bs)) = map tool_id (filter is_tool_use bs)" for bs
  proof (induction bs)
    case Nil
    then show ?case by simp
  next
    case (Cons b bs)
    then show ?case by (cases b) auto
  qed
  then show ?thesis by (simp add: tool_requests_def tool_uses_def)
qed

lemma tool_requests_Nil: "tool_requests a = [] \<longleftrightarrow> tool_uses a = []"
  using tool_requests_ids [of a] by (metis Nil_is_map_conv)

text \<open>A hook that vetoes keeps the tool from running at all.\<close>

lemma veto_keeps_tool_idle:
  assumes "run_before_tool_use r (tq_name rq) (tq_input rq) ctx w = (Some decision, w')"
    and "bt_abort decision"
  shows "run_one_tool (Some r) ctx live rq w = run_one_tool (Some r) ctx live' rq w"
    and "te_is_error (fst (run_one_tool (Some r) ctx live rq w))"
  using assms by (simp_all add: run_one_tool_def Let_def)

subsection \<open>Lemmas on the results\<close>

text \<open>What the passes over the results keep.\<close>

definition same_call :: "tool_exec \<Rightarrow> tool_exec \<Rightarrow> bool" where
  "same_call r r' \<longleftrightarrow> te_id r' = te_id r \<and> te_name r' = te_name r \<and> te_is_error r' = te_is_error r"

lemma answers_same_call: "answers rq r \<Longrightarrow> same_call r r' \<Longrightarrow> answers rq r'"
  by (simp add: answers_def same_call_def)

lemma result_cap_pos: "0 < c \<Longrightarrow> 0 < result_cap p c n"
  by (simp add: result_cap_def Let_def split: option.split)

lemma result_cap_le: "result_cap p c n \<le> c"
  by (simp add: result_cap_def Let_def split: option.split)

lemma cap_result_same [keep_laws]: "same_call r (cap_result p c r)"
  by (simp add: cap_result_def same_call_def Let_def)

lemma cap_result_length:
  assumes "0 < c"
  shows "int (length (te_output (cap_result p c r))) \<le> result_cap p c (te_name r) + 217"
proof -
  have "0 < result_cap p c (te_name r)" using assms by (rule result_cap_pos)
  with default_clip.clip_bound [OF this, of "te_output r"] show ?thesis
    by (auto simp: cap_result_def Let_def)
qed

lemma cap_results_same [keep_laws]: "list_all2 same_call rs (cap_results p m rs)"
  by (simp add: cap_results_def list_all2_conv_all_nth cap_result_same)

lemma persist_each_same [keep_laws]:
  "persist_each fails dir rs d = Inr (rs', d') \<Longrightarrow> list_all2 same_call rs rs'"
  by (induction fails dir rs d arbitrary: rs' d' rule: persist_each.induct)
     (auto simp: bind_err_Inr same_call_def)

lemma persist_results_same [keep_laws]:
  assumes "persist_results fails storage_dir rs d = Inr (rs', d')"
  shows "list_all2 same_call rs rs'"
proof (cases storage_dir)
  case None
  with assms show ?thesis by (auto simp: persist_results_def same_call_def list_all2_refl)
next
  case (Some dir)
  then obtain rs1 d1 sh k where a: "persist_each fails dir rs d = Inr (rs1, d1)"
    and b: "enforce_turn_budget fails budget_config_default dir DEFAULT_TURN_BUDGET
              (map shadow_of rs1) d1 = Inr (sh, d', k)"
    and c: "rs' = map (\<lambda>(r, sh). r\<lparr>te_output := be_output sh\<rparr>) (zip rs1 sh)"
    using assms by (auto simp: persist_results_def bind_err_Inr)
  have len: "length sh = length rs1" using enforce_length [OF b] by simp
  have "list_all2 same_call rs1 rs'"
    using len by (auto simp: c list_all2_conv_all_nth same_call_def)
  with persist_each_same [OF a] show ?thesis
    by (rule list_all2_trans [rotated]) (auto simp: same_call_def)
qed

lemma list_all2_answers:
  "list_all2 answers rqs rs \<Longrightarrow> list_all2 same_call rs rs' \<Longrightarrow> list_all2 answers rqs rs'"
  by (rule list_all2_trans) (rule answers_same_call)

lemma answers_ids: "list_all2 answers rqs rs \<Longrightarrow> map te_id rs = map tq_id rqs"
  by (auto simp: list_all2_conv_all_nth answers_def intro: nth_equalityI)

subsection \<open>Properties\<close>

text \<open>Every call gets one result, in the order of the requests and under its id and name, whatever the
  hooks and the tools do, also after the results are capped.\<close>

lemma tools_answered:
  "map te_id (fst (run_tools hr ctx live rqs w)) = map tq_id rqs \<and>
   map te_name (fst (run_tools hr ctx live rqs w)) = map tq_name rqs \<and>
   map te_id (cap_results p m (fst (run_tools hr ctx live rqs w))) = map tq_id rqs"
proof -
  have "list_all2 answers rqs (fst (run_tools hr ctx live rqs w))" by (rule run_tools_answers)
  moreover from this have "list_all2 answers rqs (cap_results p m (fst (run_tools hr ctx live rqs w)))"
    by (rule list_all2_answers) (rule cap_results_same)
  ultimately show ?thesis
    by (auto simp: answers_ids list_all2_conv_all_nth answers_def intro: nth_equalityI)
qed

text \<open>C11. A veto. When the hooks before \<open>h\<close> do not decide and \<open>h\<close> aborts, neither the tool nor a later
  before-hook runs: the world that the after-hooks see is the one \<open>h\<close> left, and the result is an
  error under the id of the call, never empty.\<close>

theorem veto_stops_tool:
  assumes "hr_before_tool_use r = pre @ h # post"
    and "first_hook decisive (map (\<lambda>h. h (tq_name rq) (tq_input rq) ctx) pre) w = (None, w1)"
    and "h (tq_name rq) (tq_input rq) ctx w1 = (HookReturned (Some decision), w2)"
    and "bt_abort decision"
  shows "\<exists>out. out \<noteq> [] \<and>
    run_one_tool (Some r) ctx live rq w =
      (exec_result rq out True,
       run_after_tool_use r (tq_name rq) (tq_input rq) out True ctx w2)"
proof -
  have "decisive decision" using assms(4) by (simp add: decisive_def)
  with assms have before: "run_before_tool_use r (tq_name rq) (tq_input rq) ctx w = (Some decision, w2)"
    by (simp add: run_before_tool_use_def first_hook_append)
  let ?out = "nonempty_or (bt_substitute_output decision)
    (''tool '' @ repr_str (tq_name rq) @ '' aborted by hook'')"
  have "?out \<noteq> []" by (simp add: nonempty_or_def split: option.split list.split)
  moreover have "run_one_tool (Some r) ctx live rq w =
      (exec_result rq ?out True, run_after_tool_use r (tq_name rq) (tq_input rq) ?out True ctx w2)"
    using before assms(4) by (simp add: run_one_tool_def after_hooks_def Let_def)
  ultimately show ?thesis by blast
qed

theorem veto_stops_tool_witness:
  fixes veto :: "string \<Rightarrow> json \<Rightarrow> hook_context \<Rightarrow> (nat, before_tool_use_result option) hook_run"
  defines "veto \<equiv> \<lambda>n a c w. (HookReturned (Some \<lparr>bt_abort = True, bt_substitute_output = None,
      bt_rewrite_args = None\<rparr>), w + 1)"
    and "r \<equiv> \<lparr>hr_before_agent_reply = [], hr_before_model_resolve = [],
      hr_before_tool_use = [\<lambda>n a c w. (HookRaised, w + 10), veto],
      hr_after_tool_use = [\<lambda>n a out e c w. (HookReturned (), 2 * w)],
      hr_on_empty_reply = [], hr_on_turn_end = []\<rparr>"
    and "rq \<equiv> \<lparr>tq_id = ''t1'', tq_name = ''bash'', tq_input = JObj []\<rparr>"
  shows "\<exists>out. out \<noteq> [] \<and>
    run_one_tool (Some r) (hook_context.make None None None None None None None None None) [] rq 5 =
      (exec_result rq out True, 32)"
proof -
  let ?ctx = "hook_context.make None None None None None None None None None"
  have first: "first_hook decisive (map (\<lambda>h. h (tq_name rq) (tq_input rq) ?ctx)
      [\<lambda>n a c w. (HookRaised, w + 10)]) 5 = (None, 15)" by simp
  have hooks: "hr_before_tool_use r = [\<lambda>n a c w. (HookRaised, w + 10)] @ veto # []"
    by (simp add: r_def)
  from veto_stops_tool [OF hooks first, of "\<lparr>bt_abort = True, bt_substitute_output = None,
      bt_rewrite_args = None\<rparr>" 16 "[]"]
  show ?thesis by (simp add: veto_def r_def run_after_tool_use_def)
qed

text \<open>The cap on results. Every result keeps its id, its name and its error flag; its output is within
  the cap of its tool plus the suffix, and an output within the cap is left as it is. The cap is
  never above 400000 characters, nor above a positive limit that the policy sets for the tool.\<close>

lemma results_capped:
  "list_all2 (\<lambda>r r'.
      (let cap = result_cap p (calculate_max_tool_result_chars (m_context_window m)) (te_name r)
       in te_id r' = te_id r \<and> te_name r' = te_name r \<and> te_is_error r' = te_is_error r \<and>
          int (length (te_output r')) \<le> cap + 217 \<and>
          (cap < int (length (te_output r)) \<or> r' = r) \<and> cap \<le> 400000 \<and>
          (case p of None \<Rightarrow> True
           | Some q \<Rightarrow> max_chars_for q (te_name r) \<le> 0 \<or> cap \<le> max_chars_for q (te_name r))))
     rs (cap_results p m rs)"
proof -
  let ?c = "calculate_max_tool_result_chars (m_context_window m)"
  have c: "0 < ?c" "?c \<le> 400000"
    using calculate_max_bounds [of "m_context_window m"]
    by (simp_all add: MIN_KEEP_CHARS_def HARD_MAX_TOOL_RESULT_CHARS_def)
  have "result_cap p ?c n \<le> 400000" for n using result_cap_le [of p ?c n] c(2) by simp
  moreover have "case p of None \<Rightarrow> True
      | Some q \<Rightarrow> max_chars_for q n \<le> 0 \<or> result_cap p ?c n \<le> max_chars_for q n" for n
    by (simp add: result_cap_def Let_def split: option.split)
  ultimately show ?thesis
    using cap_result_same [of _ p ?c] cap_result_length [OF c(1), of p]
    by (auto simp: cap_results_def list_all2_conv_all_nth same_call_def Let_def cap_result_def)
qed

end
