(* ===== verification/ErrorClassifier.thy ===== *)
theory ErrorClassifier
  imports Messages
begin

section \<open>The API error classifier\<close>

text \<open>
  \<open>oxenclaw/pi/run/error_classifier.py\<close>: the tables of message patterns and the dispatch from a
  stream error to a recovery hint. \<open>classify_status\<close> is the part that looks at the HTTP status,
  \<open>classify_message\<close> the part that looks at the message, \<open>classify_api_error\<close> the whole function.
  The lemmas say which answers are possible together: what is retryable, when the context is
  compressed, and what a status code alone decides.
\<close>

subsection \<open>Reasons and verdicts\<close>

datatype failover_reason =
    R_NONE
  | R_TRANSIENT
  | R_RATE_LIMIT
  | R_CONTEXT_OVERFLOW
  | R_PAYLOAD_TOO_LARGE
  | R_AUTH
  | R_SERVER
  | R_CLIENT_ABORT
  | R_PROVIDER_BLOCKED
  | R_THINKING_SIGNATURE
  | R_EMPTY_RESPONSE
  | R_MODEL_NOT_FOUND
  | R_CREDIT_EXHAUSTED
  | R_SESSION_EXPIRED
  | R_UNKNOWN

record classified =
  c_reason :: failover_reason
  c_retryable :: bool
  c_compress :: bool
  c_rotate :: bool
  c_fallback :: bool
  c_retry_after :: "real option"
  c_message :: string

subsection \<open>Pattern tables\<close>

definition rate_limit_patterns :: "string list" where
  "rate_limit_patterns =
    [''rate limit'', ''rate_limit'', ''too many requests'', ''throttled'', ''throttling'',
     ''requests per minute'', ''tokens per minute'', ''requests per day'', ''try again in'',
     ''retry after'', ''resource_exhausted'', ''quota exceeded'']"

definition credit_exhausted_patterns :: "string list" where
  "credit_exhausted_patterns =
    [''insufficient credits'', ''insufficient_quota'', ''credit balance'',
     ''credits have been exhausted'', ''credit exhausted'', ''billing hard limit'', ''billing'',
     ''payment required'', ''exceeded your current quota'']"

definition context_overflow_patterns :: "string list" where
  "context_overflow_patterns =
    [''context length'', ''context_length_exceeded'', ''context size'', ''maximum context'',
     ''context window'', ''prompt is too long'', ''prompt exceeds max length'',
     ''prompt length'', ''input length'', ''input is too long'', ''max_model_len'',
     ''max input token'', ''exceeds the limit'', ''reduce the length'', ''too many tokens'']"

definition payload_too_large_patterns :: "string list" where
  "payload_too_large_patterns =
    [''request entity too large'', ''payload too large'', ''request too large'',
     ''error code: 413'']"

definition auth_patterns :: "string list" where
  "auth_patterns =
    [''invalid api key'', ''invalid_api_key'', ''unauthorized'', ''forbidden'',
     ''authentication'', ''invalid token'', ''token expired'', ''token revoked'',
     ''access denied'']"

definition model_not_found_patterns :: "string list" where
  "model_not_found_patterns =
    [''model not found'', ''model_not_found'', ''no such model'', ''unknown model'',
     ''invalid model'', ''is not a valid model'', ''does not exist'', ''unsupported model'']"

definition provider_blocked_patterns :: "string list" where
  "provider_blocked_patterns =
    [''blocked by content policy'', ''policy_violation'', ''content policy'',
     ''safety policy'', ''no endpoints available matching your guardrail'',
     ''no endpoints available matching your data policy'']"

definition transport_patterns :: "string list" where
  "transport_patterns =
    [''connection error'', ''connectionerror'', ''remoteprotocolerror'', ''timeout'',
     ''timed out'', ''server disconnected'', ''peer closed connection'', ''connection reset'',
     ''broken pipe'', ''incomplete chunked read'', ''unexpected eof'']"

definition empty_response_patterns :: "string list" where
  "empty_response_patterns =
    [''empty response'', ''no content'', ''empty stream'', ''no completion'']"

definition client_abort_patterns :: "string list" where
  "client_abort_patterns = [''aborted'', ''cancelled'', ''canceled'', ''client disconnected'']"

definition match_any :: "string \<Rightarrow> string list \<Rightarrow> bool" where
  "match_any m ps \<longleftrightarrow> list_ex (\<lambda>p. contains p m) ps"

definition context_overflow_token_floor :: int where
  "context_overflow_token_floor = 120000"

subsection \<open>Dispatch\<close>

text \<open>The verdict with a reason and the four flags; the other two fields are always the same.\<close>

definition verdict ::
  "failover_reason \<Rightarrow> bool \<Rightarrow> bool \<Rightarrow> bool \<Rightarrow> bool \<Rightarrow> real option \<Rightarrow> string \<Rightarrow> classified" where
  "verdict r retryable compress rot fallback ra m =
     \<lparr>c_reason = r, c_retryable = retryable, c_compress = compress, c_rotate = rot,
      c_fallback = fallback, c_retry_after = ra, c_message = m\<rparr>"

definition long_wait :: "real option \<Rightarrow> bool" where
  "long_wait ra = (case ra of None \<Rightarrow> False | Some w \<Rightarrow> 60 \<le> w)"

text \<open>
  The dispatch on a known status code: \<open>None\<close> where the code falls through to the messages.
\<close>

definition classify_status ::
  "int \<Rightarrow> string \<Rightarrow> string \<Rightarrow> real option \<Rightarrow> classified option" where
  "classify_status sc m lc ra =
    (if sc = 401 \<or> sc = 403 then Some (verdict R_AUTH False False True False ra m)
     else if sc = 402 then Some (verdict R_CREDIT_EXHAUSTED False False True True ra m)
     else if sc = 404 \<or> match_any lc model_not_found_patterns
       then Some (verdict R_MODEL_NOT_FOUND False False False True ra m)
     else if sc = 410 then Some (verdict R_SESSION_EXPIRED False False False True ra m)
     else if sc = 413 \<or> match_any lc payload_too_large_patterns
       then Some (verdict R_PAYLOAD_TOO_LARGE True True False False ra m)
     else if sc = 429 \<or> match_any lc rate_limit_patterns
       then Some (verdict R_RATE_LIMIT True False (long_wait ra) (long_wait ra) ra m)
     else if sc = 400 \<and> match_any lc context_overflow_patterns
       then Some (verdict R_CONTEXT_OVERFLOW True True False False ra m)
     else if sc = 400 \<and> match_any lc provider_blocked_patterns
       then Some (verdict R_PROVIDER_BLOCKED False False False False ra m)
     else if sc = 400 \<and> match_any lc rate_limit_patterns
       then Some (verdict R_RATE_LIMIT True False False False ra m)
     else if 500 \<le> sc \<and> sc < 600 then Some (verdict R_SERVER True False False False ra m)
     else None)"

text \<open>A transport failure on a session this large counts as a context overflow.\<close>

definition huge_session :: "int option \<Rightarrow> int option \<Rightarrow> int option \<Rightarrow> bool" where
  "huge_session approx window msgs =
    ((case approx of None \<Rightarrow> False | Some a \<Rightarrow>
        context_overflow_token_floor \<le> a \<or>
        (case window of None \<Rightarrow> False
         | Some w \<Rightarrow> 0 < w \<and> py_int (real_of_int w * (6 / 10)) < a)) \<or>
     (case msgs of None \<Rightarrow> False | Some n \<Rightarrow> 200 < n))"

definition classify_message ::
  "int option \<Rightarrow> bool \<Rightarrow> bool \<Rightarrow> string \<Rightarrow> string \<Rightarrow> real option \<Rightarrow> classified" where
  "classify_message status huge default_retryable m lc ra =
    (if match_any lc credit_exhausted_patterns
       then verdict R_CREDIT_EXHAUSTED False False True True ra m
     else if match_any lc provider_blocked_patterns
       then verdict R_PROVIDER_BLOCKED False False False False ra m
     else if match_any lc context_overflow_patterns
       then verdict R_CONTEXT_OVERFLOW True True False False ra m
     else if match_any lc payload_too_large_patterns
       then verdict R_PAYLOAD_TOO_LARGE True True False False ra m
     else if match_any lc rate_limit_patterns
       then verdict R_RATE_LIMIT True False (long_wait ra) (long_wait ra) ra m
     else if match_any lc auth_patterns then verdict R_AUTH False False True False ra m
     else if match_any lc model_not_found_patterns
       then verdict R_MODEL_NOT_FOUND False False False True ra m
     else if match_any lc client_abort_patterns
       then verdict R_CLIENT_ABORT False False False False ra m
     else if match_any lc empty_response_patterns
       then verdict R_EMPTY_RESPONSE True False False False ra m
     else if match_any lc transport_patterns
       then (if huge then verdict R_CONTEXT_OVERFLOW True True False False ra m
             else verdict R_TRANSIENT True False False False ra m)
     else if status = Some 400 then verdict R_UNKNOWN False False False True ra m
     else verdict R_UNKNOWN default_retryable False False False ra m)"

definition classify_api_error ::
  "error_event option \<Rightarrow> int option \<Rightarrow> string \<Rightarrow> int option \<Rightarrow> int option \<Rightarrow> int option \<Rightarrow> classified" where
  "classify_api_error error status_code message approx_tokens window num_messages =
    (let status = (case error of None \<Rightarrow> status_code
                   | Some e \<Rightarrow> (case status_code of Some s \<Rightarrow> Some s | None \<Rightarrow> ev_status e));
         m = (case error of None \<Rightarrow> message
              | Some e \<Rightarrow> (if message = [] then ev_message e else message));
         ra = (case error of None \<Rightarrow> None | Some e \<Rightarrow> ev_retry_after e);
         dflt = (case error of None \<Rightarrow> False | Some e \<Rightarrow> ev_retryable e);
         lc = lower m;
         rest = classify_message status (huge_session approx_tokens window num_messages) dflt m lc ra
     in if contains ''thinking'' lc \<and> (contains ''signature'' lc \<or> contains ''block'' lc)
        then verdict R_THINKING_SIGNATURE True False False False ra m
        else (case status of
                None \<Rightarrow> rest
              | Some sc \<Rightarrow>
                  (case classify_status sc m lc ra of Some c \<Rightarrow> c | None \<Rightarrow> rest)))"

subsection \<open>Lemmas\<close>

lemmas dispatch_defs =
  classify_api_error_def classify_status_def classify_message_def verdict_def Let_def

lemma match_any_iff: "match_any m ps \<longleftrightarrow> (\<exists>p \<in> set ps. contains p m)"
  by (simp add: match_any_def list_ex_iff)

text \<open>What a verdict may look like, as one predicate; each table entry satisfies it.\<close>

definition verdict_ok :: "classified \<Rightarrow> bool" where
  "verdict_ok c \<longleftrightarrow>
     (c_compress c \<longrightarrow> c_retryable c \<and> c_reason c \<in> {R_CONTEXT_OVERFLOW, R_PAYLOAD_TOO_LARGE}) \<and>
     (c_reason c \<in> {R_CONTEXT_OVERFLOW, R_PAYLOAD_TOO_LARGE} \<longrightarrow> c_compress c) \<and>
     (c_rotate c \<longrightarrow> c_reason c \<in> {R_AUTH, R_CREDIT_EXHAUSTED, R_RATE_LIMIT}) \<and>
     (c_rotate c \<and> c_retryable c \<longrightarrow> c_fallback c \<and> long_wait (c_retry_after c)) \<and>
     (c_fallback c \<and> c_retryable c \<longrightarrow> c_reason c = R_RATE_LIMIT) \<and>
     c_reason c \<noteq> R_NONE"

lemma verdict_ok_status:
  "classify_status sc m lc ra = Some c \<Longrightarrow> verdict_ok c"
  by (auto simp: classify_status_def verdict_def verdict_ok_def split: if_splits)

lemma verdict_ok_message: "verdict_ok (classify_message st h d m lc ra)"
  by (simp add: classify_message_def verdict_def verdict_ok_def)

lemma verdict_ok_thinking: "verdict_ok (verdict R_THINKING_SIGNATURE True False False False ra m)"
  by (simp add: verdict_def verdict_ok_def)

lemma verdict_ok_classify: "verdict_ok (classify_api_error e sc m a w n)"
  by (auto simp: classify_api_error_def Let_def verdict_ok_message verdict_ok_thinking
           dest: verdict_ok_status split: option.splits)

lemma classify_message_field: "c_message (classify_message st h d m lc ra) = m"
  by (simp add: classify_message_def verdict_def)

lemma classify_status_field:
  "classify_status sc m lc ra = Some c \<Longrightarrow> c_message c = m \<and> c_retry_after c = ra"
  by (auto simp: classify_status_def verdict_def split: if_splits)

lemma classify_message_retry_after: "c_retry_after (classify_message st h d m lc ra) = ra"
  by (simp add: classify_message_def verdict_def)

subsection \<open>Properties\<close>

text \<open>C40. What a verdict of the classifier can combine. The context is compressed exactly for an
  overflow or an oversized payload, and then the call is retried; a retryable verdict rotates the
  credential only after a long wait and with a fallback, and asks for a fallback only for a rate
  limit; the reason is always given and the provider's \<open>retry_after\<close> is passed on.\<close>

theorem classify_verdicts:
  "let c = classify_api_error (Some e) sc m a w n
   in (c_compress c \<longleftrightarrow> c_reason c \<in> {R_CONTEXT_OVERFLOW, R_PAYLOAD_TOO_LARGE}) \<and>
      \<not> (c_compress c \<and> \<not> c_retryable c) \<and>
      \<not> (c_rotate c \<and> c_retryable c \<and> \<not> (c_fallback c \<and> long_wait (c_retry_after c))) \<and>
      \<not> (c_fallback c \<and> c_retryable c \<and> c_reason c \<noteq> R_RATE_LIMIT) \<and>
      c_reason c \<noteq> R_NONE \<and> c_retry_after c = ev_retry_after e"
proof -
  have "c_retry_after (classify_api_error (Some e) sc m a w n) = ev_retry_after e"
    by (auto simp: classify_api_error_def Let_def classify_message_retry_after
        dest: classify_status_field split: option.split) (simp_all add: verdict_def)
  with verdict_ok_classify [of "Some e" sc m a w n] show ?thesis
    unfolding verdict_ok_def Let_def by blast
qed

end
