(* ===== verification/Failover.thy ===== *)
theory Failover
  imports Messages
begin

section \<open>Assistant failover\<close>

text \<open>
  \<open>oxenclaw/pi/run/failover.py\<close>: whether to leave the active model (\<open>should_failover\<close>) and which
  entry of the chain comes next (\<open>resolve_next_model\<close>). The registry is the map from model ids to
  models whose \<open>require\<close> raises \<open>KeyError\<close> on an unknown id. The walk that the run loop makes
  over (cursor, wraps) is \<open>failover_advance\<close>; two interpretations of \<open>ranked_step\<close> bound it, with
  and without wrapping.
\<close>

type_synonym registry = "string \<Rightarrow> model option"

subsection \<open>The decision\<close>

record failover_decision =
  fd_failover :: bool
  fd_reason :: string
  fd_next :: "string option"

definition failover_stop_reasons :: "string list" where
  "failover_stop_reasons =
     [''error'', ''model_error'', ''provider_error'', ''overloaded'', ''rate_limit'']"

definition stay :: "string \<Rightarrow> failover_decision" where
  "stay r = \<lparr>fd_failover = False, fd_reason = r, fd_next = None\<rparr>"

definition switch_to :: "string \<Rightarrow> string \<Rightarrow> failover_decision" where
  "switch_to m r = \<lparr>fd_failover = True, fd_reason = r, fd_next = Some m\<rparr>"

definition should_failover ::
  "attempt_result \<Rightarrow> string list \<Rightarrow> nat \<Rightarrow> int \<Rightarrow> int \<Rightarrow> (attempt_result \<Rightarrow> bool) option \<Rightarrow>
   bool \<Rightarrow> nat \<Rightarrow> failover_decision" where
  "should_failover result chain cursor empty_streak threshold custom cycle cycles_used =
    (let n = length chain; at_tail = (n \<le> cursor + 1)
     in if at_tail \<and> (\<not> cycle \<or> n \<le> cycles_used) then stay ''end_of_chain''
        else
          let next_id = (if at_tail then chain ! 0 else chain ! (cursor + 1))
          in if (case custom of None \<Rightarrow> False | Some p \<Rightarrow> p result)
             then switch_to next_id ''custom_predicate''
             else case ar_error result of
               Some e \<Rightarrow>
                 if \<not> ev_retryable e
                 then switch_to next_id (''non_retryable:'' @ slice_to 60 (ev_message e))
                 else switch_to next_id (''provider_error:'' @ slice_to 60 (ev_message e))
             | None \<Rightarrow>
                 (case am_stop_reason (ar_message result) of
                    Some stop \<Rightarrow>
                      if stop \<in> set failover_stop_reasons
                      then switch_to next_id (''stop_reason:'' @ stop)
                      else if threshold \<le> empty_streak
                      then switch_to next_id
                        (''empty_streak:'' @ show_int empty_streak @ ''>='' @ show_int threshold)
                      else stay ''model_ok''
                  | None \<Rightarrow>
                      if threshold \<le> empty_streak
                      then switch_to next_id
                        (''empty_streak:'' @ show_int empty_streak @ ''>='' @ show_int threshold)
                      else stay ''model_ok''))"

subsection \<open>The next model\<close>

text \<open>
  One pass of the loop of \<open>resolve_next_model\<close> per offset; \<open>Inl IndexError\<close> where \<open>chain[idx]\<close>
  would be out of range. The result is the model, if any, and the new cursor.
\<close>

fun resolve_loop ::
  "string list \<Rightarrow> nat \<Rightarrow> registry \<Rightarrow> bool \<Rightarrow> nat \<Rightarrow> nat list \<Rightarrow> py_error + (model option \<times> nat)" where
  "resolve_loop chain cursor reg cycle cycles_used [] = Inr (None, length chain)"
| "resolve_loop chain cursor reg cycle cycles_used (offset # offsets) =
    (let n = length chain; idx = cursor + offset; j = (if n \<le> idx then idx - n else idx)
     in if n \<le> idx \<and> (\<not> cycle \<or> n \<le> cycles_used) then Inr (None, n)
        else if n \<le> idx \<and> j = cursor then Inr (None, n)
        else if n \<le> j then Inl IndexError
        else case reg (chain ! j) of
               Some m \<Rightarrow> Inr (Some m, j)
             | None \<Rightarrow> resolve_loop chain cursor reg cycle cycles_used offsets)"

definition resolve_next_model ::
  "string list \<Rightarrow> nat \<Rightarrow> registry \<Rightarrow> bool \<Rightarrow> nat \<Rightarrow> py_error + (model option \<times> nat)" where
  "resolve_next_model chain cursor reg cycle cycles_used =
    (let n = length chain
     in if n = 0 then Inr (None, 0)
        else let max_offset = (if cycle \<and> cycles_used < n then n else n - 1)
             in resolve_loop chain cursor reg cycle cycles_used [1..<max_offset + 1])"

text \<open>
  The run loop's use of it: the new cursor, and one more wrap when the cursor moved back.
\<close>

definition failover_advance ::
  "string list \<Rightarrow> registry \<Rightarrow> bool \<Rightarrow> nat \<times> nat \<Rightarrow> (nat \<times> nat) option" where
  "failover_advance chain reg cycle s =
    (case s of (cursor, used) \<Rightarrow>
       (case resolve_next_model chain cursor reg cycle used of
          Inr (Some m, c) \<Rightarrow> Some (c, if c < cursor then used + 1 else used)
        | _ \<Rightarrow> None))"

subsection \<open>Lemmas\<close>

text \<open>The index that an offset reaches, in cyclic order.\<close>

definition ring :: "string list \<Rightarrow> nat \<Rightarrow> nat \<Rightarrow> nat" where
  "ring chain cursor offset =
     (if length chain \<le> cursor + offset then cursor + offset - length chain else cursor + offset)"

lemma resolve_loop_in_range:
  assumes "cursor < length chain" and "\<forall>d \<in> set ds. d \<le> length chain"
  shows "resolve_loop chain cursor reg cycle k ds \<noteq> Inl e"
  using assms(2)
proof (induction ds)
  case Nil
  then show ?case by simp
next
  case (Cons d ds)
  with assms(1) show ?case by (auto simp: Let_def split: option.splits)
qed

lemma resolve_loop_Some:
  assumes "resolve_loop chain cursor reg cycle k ds = Inr (Some m, c)"
  shows "\<exists>d \<in> set ds. c = ring chain cursor d \<and> reg (chain ! c) = Some m \<and> c < length chain \<and>
           (length chain \<le> cursor + d \<longrightarrow> cycle \<and> k < length chain \<and> c \<noteq> cursor)"
  using assms
proof (induction ds)
  case Nil
  then show ?case by simp
next
  case (Cons d ds)
  show ?case
  proof (cases "reg (chain ! ring chain cursor d)")
    case None
    with Cons show ?thesis by (auto simp: Let_def ring_def split: if_splits)
  next
    case (Some m')
    with Cons.prems show ?thesis by (auto simp: Let_def ring_def split: if_splits)
  qed
qed

lemma resolve_next_in_range:
  assumes "cursor < length chain"
  shows "resolve_next_model chain cursor reg cycle k \<noteq> Inl e"
proof -
  have "resolve_loop chain cursor reg cycle k [1..<mx + 1] \<noteq> Inl e" if "mx \<le> length chain" for mx
    by (rule resolve_loop_in_range [OF assms]) (use that in auto)
  then show ?thesis by (simp add: resolve_next_model_def Let_def del: upt_Suc)
qed

text \<open>A successful resolution moves on along the chain or spends a wrap, from any cursor.\<close>

lemma resolve_next_progress:
  assumes "resolve_next_model chain cursor reg cycle k = Inr (Some m, c)"
  shows "(c < cursor \<and> k < length chain) \<or> (cursor < c \<and> c < length chain)"
proof -
  let ?n = "length chain"
  let ?mx = "if cycle \<and> k < ?n then ?n else ?n - 1"
  have "resolve_loop chain cursor reg cycle k [1..<?mx + 1] = Inr (Some m, c)"
    using assms by (auto simp: resolve_next_model_def Let_def simp del: upt_Suc split: if_splits)
  from resolve_loop_Some [OF this] obtain d where
    d: "1 \<le> d" "d < ?mx + 1" and c: "c = ring chain cursor d" and lt: "c < ?n" and
    wrap: "?n \<le> cursor + d \<longrightarrow> cycle \<and> k < ?n \<and> c \<noteq> cursor"
    by (auto simp del: upt_Suc)
  have "d \<le> ?n" using d(2) by (auto split: if_splits)
  with c d(1) lt wrap show ?thesis by (auto simp: ring_def split: if_splits)
qed

text \<open>Everything the callers need of a successful resolution.\<close>

lemma resolve_next_Some:
  assumes "resolve_next_model chain cursor reg cycle k = Inr (Some m, c)"
    and "cursor < length chain"
  shows "reg (chain ! c) = Some m" and "c < length chain" and "c \<noteq> cursor"
    and "c < cursor \<Longrightarrow> cycle \<and> k < length chain"
proof -
  let ?n = "length chain"
  let ?mx = "if cycle \<and> k < ?n then ?n else ?n - 1"
  have "resolve_loop chain cursor reg cycle k [1..<?mx + 1] = Inr (Some m, c)"
    using assms by (auto simp: resolve_next_model_def Let_def simp del: upt_Suc split: if_splits)
  from resolve_loop_Some [OF this] obtain d where
    d: "1 \<le> d" and c: "c = ring chain cursor d" and
    reg: "reg (chain ! c) = Some m" and lt: "c < ?n" and
    wrap: "?n \<le> cursor + d \<longrightarrow> cycle \<and> k < ?n \<and> c \<noteq> cursor"
    by auto
  show "reg (chain ! c) = Some m" by (rule reg)
  show "c < ?n" by (rule lt)
  show "c \<noteq> cursor" using c d wrap by (auto simp: ring_def)
  show "c < cursor \<Longrightarrow> cycle \<and> k < ?n" using c d wrap by (auto simp: ring_def split: if_splits)
qed

lemma failover_advance_Some:
  assumes "failover_advance chain reg cycle (c, k) = Some (c', k')" and "c < length chain"
  shows "c' < length chain" and "c' \<noteq> c" and "reg (chain ! c') \<noteq> None"
    and "k' = (if c' < c then k + 1 else k)"
    and "c' < c \<Longrightarrow> cycle \<and> k < length chain"
proof -
  obtain m where r: "resolve_next_model chain c reg cycle k = Inr (Some m, c')"
    and k': "k' = (if c' < c then k + 1 else k)"
    using assms(1)
    by (auto simp: failover_advance_def split: sum.splits prod.splits option.splits)
  show "c' < length chain" "c' \<noteq> c" "reg (chain ! c') \<noteq> None"
    using resolve_next_Some(1-3) [OF r assms(2)] by auto
  show "k' = (if c' < c then k + 1 else k)" by (rule k')
  show "c' < c \<Longrightarrow> cycle \<and> k < length chain" by (rule resolve_next_Some(4) [OF r assms(2)])
qed

text \<open>
  The rank of a walk that may wrap: what is left of this pass, and a whole pass for each wrap
  that is left. Without wrapping, what is left of the chain.
\<close>

definition cyclic_rank :: "nat \<Rightarrow> nat \<times> nat \<Rightarrow> nat" where
  "cyclic_rank n s = (case s of (c, k) \<Rightarrow> (n - k) * n + (n - 1 - c))"

lemma cyclic_rank_wrap:
  assumes "k < n" and "c' < n"
  shows "cyclic_rank n (c', k + 1) < cyclic_rank n (c, k)"
proof -
  have "(n - k) * n = (n - (k + 1)) * n + n"
    using assms(1) by (metis Suc_diff_Suc Suc_eq_plus1 add.commute mult_Suc)
  moreover have "n - 1 - c' < n" using assms(2) by simp
  ultimately show ?thesis by (simp add: cyclic_rank_def)
qed

interpretation cyclic_walk: ranked_step
  "failover_advance chain reg True" "\<lambda>(c, k). c < length chain" "cyclic_rank (length chain)"
  for chain reg
proof unfold_locales
  fix s t
  assume s: "case s of (c, k) \<Rightarrow> c < length chain"
    and adv: "failover_advance chain reg True s = Some t"
  obtain c k where s': "s = (c, k)" by (cases s)
  obtain c' k' where t': "t = (c', k')" by (cases t)
  note facts = failover_advance_Some [OF adv [unfolded s' t']]
  from s s' have c: "c < length chain" by simp
  show "case t of (c, k) \<Rightarrow> c < length chain" using facts(1) [OF c] t' by simp
  show "cyclic_rank (length chain) t < cyclic_rank (length chain) s"
  proof (cases "c' < c")
    case True
    then show ?thesis
      using facts(1,4,5) [OF c] cyclic_rank_wrap s' t' by auto
  next
    case False
    then show ?thesis
      using facts(1,2,4) [OF c] s' t' by (simp add: cyclic_rank_def)
  qed
qed

interpretation forward_walk: ranked_step
  "failover_advance chain reg False" "\<lambda>(c, k). c < length chain"
  "\<lambda>(c, k). length chain - 1 - c"
  for chain reg
proof unfold_locales
  fix s t
  assume s: "case s of (c, k) \<Rightarrow> c < length chain"
    and adv: "failover_advance chain reg False s = Some t"
  obtain c k where s': "s = (c, k)" by (cases s)
  obtain c' k' where t': "t = (c', k')" by (cases t)
  note facts = failover_advance_Some [OF adv [unfolded s' t']]
  from s s' have c: "c < length chain" by simp
  show "case t of (c, k) \<Rightarrow> c < length chain" using facts(1) [OF c] t' by simp
  have "\<not> c' < c" using facts(5) [OF c] by blast
  then show "(case t of (c, k) \<Rightarrow> length chain - 1 - c) < (case s of (c, k) \<Rightarrow> length chain - 1 - c)"
    using facts(1,2) [OF c] s' t' by simp
qed

text \<open>An error result always asks for a failover unless the chain has ended.\<close>

lemma should_failover_on_error:
  assumes "ar_error r = Some e"
  shows "fd_failover (should_failover r chain c st th p cyc k) \<longleftrightarrow>
           \<not> (length chain \<le> c + 1 \<and> (\<not> cyc \<or> length chain \<le> k))"
  using assms by (simp add: should_failover_def Let_def stay_def switch_to_def)

text \<open>
  The specification of the search: the entries after the cursor in order, then, when a wrap is
  allowed, those before it.
\<close>

definition candidates :: "string list \<Rightarrow> nat \<Rightarrow> bool \<Rightarrow> nat \<Rightarrow> nat list" where
  "candidates chain cursor cycle k =
     [cursor + 1..<length chain] @ (if cycle \<and> k < length chain then [0..<cursor] else [])"

lemma resolve_loop_ahead:
  assumes "\<forall>d \<in> set ds. cursor + d < length chain"
  shows "resolve_loop chain cursor reg cycle k (ds @ es) =
    (case List.find (\<lambda>i. reg (chain ! i) \<noteq> None) (map (\<lambda>d. cursor + d) ds) of
       Some i \<Rightarrow> Inr (reg (chain ! i), i)
     | None \<Rightarrow> resolve_loop chain cursor reg cycle k es)"
  using assms by (induction ds) (auto simp: Let_def)

lemma resolve_loop_behind:
  assumes "\<forall>i \<in> set is. i < cursor" and "cycle" and "k < length chain" and "cursor < length chain"
  shows "resolve_loop chain cursor reg cycle k (map (\<lambda>i. i + (length chain - cursor)) is @ es) =
    (case List.find (\<lambda>i. reg (chain ! i) \<noteq> None) is of
       Some i \<Rightarrow> Inr (reg (chain ! i), i)
     | None \<Rightarrow> resolve_loop chain cursor reg cycle k es)"
  using assms
proof (induction "is")
  case Nil
  then show ?case by simp
next
  case (Cons i ris)
  have "cursor + (i + (length chain - cursor)) = length chain + i" using Cons.prems(4) by simp
  with Cons show ?case by (auto simp: Let_def)
qed

lemma offsets_ahead:
  assumes "cursor < length chain"
  shows "map (\<lambda>d. cursor + d) [1..<length chain - cursor] = [cursor + 1..<length chain]"
  using map_add_upt_shift [of cursor 1 "length chain - cursor"] assms by simp

lemma resolve_none_found:
  "List.find (\<lambda>i. reg (chain ! i) \<noteq> None) xs = Some i \<Longrightarrow> reg (chain ! i) \<noteq> None"
  by (auto simp: find_Some_iff)

lemma resolve_next_forward:
  assumes c: "cursor < length chain" and no: "\<not> (cycle \<and> k < length chain)"
  shows "resolve_next_model chain cursor reg cycle k =
    Inr (case List.find (\<lambda>i. reg (chain ! i) \<noteq> None) [cursor + 1..<length chain] of
           Some i \<Rightarrow> (reg (chain ! i), i) | None \<Rightarrow> (None, length chain))"
proof -
  let ?n = "length chain"
  have split: "[1..<?n] = [1..<?n - cursor] @ [?n - cursor..<?n]"
    using c upt_add_eq_append [of 1 "?n - cursor" cursor] by simp
  have rest: "resolve_loop chain cursor reg cycle k [?n - cursor..<?n] = Inr (None, ?n)"
  proof (cases "cursor = 0")
    case True
    then show ?thesis by simp
  next
    case False
    with c have "[?n - cursor..<?n] = (?n - cursor) # [Suc (?n - cursor)..<?n]"
      by (simp add: upt_conv_Cons)
    with c no show ?thesis by (auto simp: Let_def)
  qed
  have "resolve_next_model chain cursor reg cycle k = resolve_loop chain cursor reg cycle k [1..<?n]"
    using c no by (auto simp: resolve_next_model_def Let_def simp del: upt_Suc)
  also have "\<dots> = (case List.find (\<lambda>i. reg (chain ! i) \<noteq> None) [cursor + 1..<?n] of
       Some i \<Rightarrow> Inr (reg (chain ! i), i) | None \<Rightarrow> Inr (None, ?n))"
    unfolding split rest [symmetric] offsets_ahead [OF c, symmetric]
    by (rule resolve_loop_ahead) auto
  finally show ?thesis by (simp split: option.splits)
qed

lemma resolve_next_cyclic:
  assumes c: "cursor < length chain" and k: "k < length chain"
  shows "resolve_next_model chain cursor reg True k =
    Inr (case List.find (\<lambda>i. reg (chain ! i) \<noteq> None) ([cursor + 1..<length chain] @ [0..<cursor]) of
           Some i \<Rightarrow> (reg (chain ! i), i) | None \<Rightarrow> (None, length chain))"
proof -
  let ?n = "length chain"
  let ?found = "List.find (\<lambda>i. reg (chain ! i) \<noteq> None)"
  have ring: "map (\<lambda>i. i + (?n - cursor)) [0..<cursor] = [?n - cursor..<?n]"
    using map_add_upt_shift [of "?n - cursor" 0 cursor] c by (simp add: add.commute)
  have split: "[1..<?n + 1] = [1..<?n - cursor] @ map (\<lambda>i. i + (?n - cursor)) [0..<cursor] @ [?n]"
    unfolding ring using c upt_add_eq_append [of 1 "?n - cursor" cursor] by simp
  have last: "resolve_loop chain cursor reg True k [?n] = Inr (None, ?n)"
    using c k by (simp add: Let_def)
  have behind: "resolve_loop chain cursor reg True k (map (\<lambda>i. i + (?n - cursor)) [0..<cursor] @ [?n]) =
      (case ?found [0..<cursor] of Some i \<Rightarrow> Inr (reg (chain ! i), i) | None \<Rightarrow> Inr (None, ?n))"
    by (subst resolve_loop_behind) (simp_all add: c k last del: resolve_loop.simps upt_Suc split: option.split)
  have "resolve_next_model chain cursor reg True k =
      resolve_loop chain cursor reg True k [1..<?n + 1]"
    using c k by (auto simp: resolve_next_model_def Let_def simp del: upt_Suc)
  also have "\<dots> = (case ?found [cursor + 1..<?n] of Some i \<Rightarrow> Inr (reg (chain ! i), i)
      | None \<Rightarrow> (case ?found [0..<cursor] of Some i \<Rightarrow> Inr (reg (chain ! i), i) | None \<Rightarrow> Inr (None, ?n)))"
    unfolding split behind [symmetric] offsets_ahead [OF c, symmetric]
    by (rule resolve_loop_ahead) auto
  finally show ?thesis by (simp add: find_append split: option.splits)
qed

lemma resolve_next_candidates:
  assumes "cursor < length chain"
  shows "resolve_next_model chain cursor reg cycle k =
    Inr (case List.find (\<lambda>i. reg (chain ! i) \<noteq> None) (candidates chain cursor cycle k) of
           Some i \<Rightarrow> (reg (chain ! i), i) | None \<Rightarrow> (None, length chain))"
proof (cases "cycle \<and> k < length chain")
  case True
  then show ?thesis
    using resolve_next_cyclic [OF assms] by (auto simp: candidates_def simp del: upt_Suc)
next
  case False
  then show ?thesis
    using resolve_next_forward [OF assms False] by (auto simp: candidates_def simp del: upt_Suc)
qed

subsection \<open>Properties\<close>

text \<open>Which model comes next. The search takes the first entry with a registered model among those
  after the cursor and then, when a wrap is left, those before it; it never leaves the chain.\<close>

lemma next_model_search:
  assumes "cursor < length chain"
  shows "resolve_next_model chain cursor reg cycle k =
    Inr (case List.find (\<lambda>i. reg (chain ! i) \<noteq> None) (candidates chain cursor cycle k) of
           Some i \<Rightarrow> (reg (chain ! i), i) | None \<Rightarrow> (None, length chain))"
  by (rule resolve_next_candidates [OF assms])

text \<open>A failover walk over a chain of \<open>n\<close> models ends: it has fewer than \<open>n\<close> steps without wrapping
  and at most \<open>n * n + n - 1\<close> with it, and never comes back to the same cursor and wrap count.\<close>

lemma failover_walk_ends:
  assumes "walk (failover_advance chain reg cycle) (c, k) ts" and "c < length chain"
  shows "length ts \<le> (if cycle then length chain * length chain else 0) + (length chain - 1) \<and>
         (c, k) \<notin> set ts"
proof (cases cycle)
  case True
  have "length ts \<le> cyclic_rank (length chain) (c, k)" and "(c, k) \<notin> set ts"
    using cyclic_walk.walk_length [of chain "(c, k)"] cyclic_walk.walk_never_returns [of chain "(c, k)"]
      assms True by auto
  moreover have "(length chain - k) * length chain \<le> length chain * length chain" by simp
  moreover have "length chain - 1 - c \<le> length chain - 1" by simp
  ultimately have "length ts \<le> length chain * length chain + (length chain - 1)"
    unfolding cyclic_rank_def prod.case by linarith
  with True \<open>(c, k) \<notin> set ts\<close> show ?thesis by simp
next
  case False
  then show ?thesis
    using forward_walk.walk_length [of chain "(c, k)"] forward_walk.walk_never_returns [of chain "(c, k)"]
      assms by fastforce
qed

end
