(* ===== verification/TokenBudget.thy ===== *)
theory TokenBudget
  imports Messages
begin

section \<open>Token estimates, the context-window guard and preemptive compaction\<close>

text \<open>
  \<open>oxenclaw/pi/run/token_estimator.py\<close>, \<open>context_window_guard.py\<close> and
  \<open>preemptive_compaction.py\<close>: how many tokens a prompt is taken to have, whether a model's window
  is usable at all, and what to do with a prompt that does not fit. The tokenizer library
  \<open>tiktoken\<close> is the parameter \<open>tik\<close>: \<open>tik model text\<close> is the token count, \<open>None\<close> where the
  library is missing or fails.

  \<open>truncate_tool_results\<close> changes the result blocks in place; the model returns the changed list.
  Where a block holds a list of more than \<open>keep_chars\<close> parts, the source concatenates a list and a
  string, which raises: \<open>Inl TypeError\<close>. The lemmas bound the estimates, classify the three routes
  and say what truncation does to lengths, ids and repeated application.
\<close>

subsection \<open>Estimator\<close>

definition default_ratio :: real where
  "default_ratio = 35 / 10"

definition family_ratios :: "(string \<times> real) list" where
  "family_ratios =
    [(''anthropic'', 3), (''claude'', 3), (''qwen'', 25 / 10), (''llama'', 3),
     (''gemma'', 28 / 10), (''mistral'', 3), (''phi'', 3), (''deepseek'', 28 / 10),
     (''default'', default_ratio)]"

fun first_family :: "string \<Rightarrow> (string \<times> 'v) list \<Rightarrow> 'v \<Rightarrow> 'v" where
  "first_family mid [] dflt = dflt"
| "first_family mid ((family, v) # rest) dflt =
    (if family = ''default'' then first_family mid rest dflt
     else if contains family mid then v
     else first_family mid rest dflt)"

definition chars_per_token_for :: "string option \<Rightarrow> real" where
  "chars_per_token_for model_id =
    (case model_id of
       None \<Rightarrow> default_ratio
     | Some m \<Rightarrow> if m = [] then default_ratio
                 else first_family (lower m) family_ratios default_ratio)"

definition estimate_tokens ::
  "(string \<Rightarrow> string \<Rightarrow> int option) \<Rightarrow> string \<Rightarrow> string option \<Rightarrow> int" where
  "estimate_tokens tik text model_id =
    (if text = [] then 0
     else
       let native =
         (case model_id of
            None \<Rightarrow> None
          | Some m \<Rightarrow>
              if m = [] then None
              else let mid = lower m
                   in if contains ''gpt'' mid \<or> contains ''o1'' mid \<or> contains ''o3'' mid
                         \<or> contains ''o4'' mid
                      then tik mid text else None)
       in case native of
            Some n \<Rightarrow> n
          | None \<Rightarrow> max 1 (py_int (real (length text) / chars_per_token_for model_id)))"

subsection \<open>Context-window guard\<close>

definition CONTEXT_WINDOW_HARD_MIN_TOKENS :: int where
  "CONTEXT_WINDOW_HARD_MIN_TOKENS = 16000"

definition CONTEXT_WINDOW_WARN_BELOW_TOKENS :: int where
  "CONTEXT_WINDOW_WARN_BELOW_TOKENS = 32000"

record guard_result =
  gr_tokens :: int
  gr_should_warn :: bool
  gr_should_block :: bool

definition evaluate_context_window_guard :: "int option \<Rightarrow> int \<Rightarrow> int \<Rightarrow> guard_result" where
  "evaluate_context_window_guard tokens warn_below hard_min =
    (let n = max 0 (case tokens of None \<Rightarrow> 0 | Some t \<Rightarrow> t)
     in if n \<le> 0
        then \<lparr>gr_tokens = 0, gr_should_warn = False, gr_should_block = False\<rparr>
        else \<lparr>gr_tokens = n, gr_should_warn = n < max 1 warn_below,
              gr_should_block = n < max 1 hard_min\<rparr>)"

definition assert_context_window_usable ::
  "int option \<Rightarrow> int \<Rightarrow> int \<Rightarrow> py_error + guard_result" where
  "assert_context_window_usable tokens warn_below hard_min =
    (let v = evaluate_context_window_guard tokens warn_below hard_min
     in if gr_should_block v then Inl ContextWindowTooSmallError else Inr v)"

subsection \<open>Prompt estimate\<close>

datatype compaction_route = NOOP | TRUNCATE_TOOL_RESULTS | COMPACT_THEN_SEND

record compaction_decision =
  cd_route :: compaction_route
  cd_estimated :: int
  cd_budget :: int
  cd_overflow :: int
  cd_reducible :: int

text \<open>The estimate for a text of the given length (Python's \<open>len\<close>).\<close>

definition tokens_of_len :: "real \<Rightarrow> int \<Rightarrow> int" where
  "tokens_of_len cpt n = (if n = 0 then 0 else max 1 (py_int (real_of_int n / cpt)))"

fun estimate_message_tokens :: "real \<Rightarrow> message \<Rightarrow> int" where
  "estimate_message_tokens cpt (UserMessage (CStr s)) = tokens_of_len cpt (int (length s))"
| "estimate_message_tokens cpt (UserMessage (CBlocks bs)) =
    sum_list (map (\<lambda>b. case b of TextContent t \<Rightarrow> tokens_of_len cpt (int (length t)) | _ \<Rightarrow> 0) bs)"
| "estimate_message_tokens cpt (AssistantMessage a) =
    sum_list (map (\<lambda>b. case b of TextContent t \<Rightarrow> tokens_of_len cpt (int (length t)) | _ \<Rightarrow> 16)
      (am_content a))"
| "estimate_message_tokens cpt (ToolResultMessage rs) =
    sum_list (map (\<lambda>r. tokens_of_len cpt (content_len (tr_content r))) rs)"
| "estimate_message_tokens cpt (SystemMessage _) = 0"

definition estimate_prompt_tokens :: "string option \<Rightarrow> message list \<Rightarrow> real \<Rightarrow> int" where
  "estimate_prompt_tokens system ms cpt =
    tokens_of_len cpt (case system of None \<Rightarrow> 0 | Some s \<Rightarrow> int (length s)) +
    sum_list (map (estimate_message_tokens cpt) ms)"

fun message_reducible_chars :: "message \<Rightarrow> int" where
  "message_reducible_chars (ToolResultMessage rs) =
    sum_list (map (\<lambda>r. if 1024 < content_len (tr_content r) then content_len (tr_content r) - 1024
                       else 0) rs)"
| "message_reducible_chars _ = 0"

definition tool_result_reducible_chars :: "message list \<Rightarrow> int" where
  "tool_result_reducible_chars ms = sum_list (map message_reducible_chars ms)"

subsection \<open>Decision\<close>

definition decide ::
  "string option \<Rightarrow> message list \<Rightarrow> int \<Rightarrow> real \<Rightarrow> int \<Rightarrow> real \<Rightarrow> compaction_decision" where
  "decide system ms context_window threshold_ratio reserve_tokens cpt =
    (let estimated = estimate_prompt_tokens system ms cpt;
         budget = max 1 (py_int (real_of_int context_window * threshold_ratio) - reserve_tokens)
     in if estimated \<le> budget
        then \<lparr>cd_route = NOOP, cd_estimated = estimated, cd_budget = budget, cd_overflow = 0,
              cd_reducible = 0\<rparr>
        else
          let overflow = estimated - budget;
              reducible = tool_result_reducible_chars ms;
              reducible_tokens = py_int (real_of_int reducible / cpt)
          in \<lparr>cd_route = (if overflow \<le> reducible_tokens then TRUNCATE_TOOL_RESULTS
                          else COMPACT_THEN_SEND),
              cd_estimated = estimated, cd_budget = budget, cd_overflow = overflow,
              cd_reducible = reducible\<rparr>)"

subsection \<open>Truncation\<close>

definition truncated_marker :: string where
  "truncated_marker = newline @ ''[...truncated]''"

text \<open>One block: its new content and how many characters it lost.\<close>

definition truncate_block :: "int \<Rightarrow> tool_result \<Rightarrow> py_error + (tool_result \<times> int)" where
  "truncate_block keep_chars r =
    (case tr_content r of
       CStr s \<Rightarrow>
         (if keep_chars < int (length s)
          then let new_content = slice_to keep_chars s @ truncated_marker
               in Inr (r\<lparr>tr_content := CStr new_content\<rparr>,
                       int (length s) - int (length new_content))
          else Inr (r, 0))
     | CBlocks bs \<Rightarrow> if keep_chars < int (length bs) then Inl TypeError else Inr (r, 0))"

definition truncate_blocks :: "int \<Rightarrow> tool_result list \<Rightarrow> py_error + (tool_result list \<times> int)" where
  "truncate_blocks keep_chars rs = gather (truncate_block keep_chars) rs"

fun truncate_message :: "int \<Rightarrow> message \<Rightarrow> py_error + (message \<times> int)" where
  "truncate_message keep_chars (ToolResultMessage rs) =
    bind_err (truncate_blocks keep_chars rs) (\<lambda>(rs', d). Inr (ToolResultMessage rs', d))"
| "truncate_message keep_chars m = Inr (m, 0)"

definition truncate_tool_results :: "int \<Rightarrow> message list \<Rightarrow> py_error + (message list \<times> int)" where
  "truncate_tool_results keep_chars ms = gather (truncate_message keep_chars) ms"

subsection \<open>Lemmas on estimates\<close>

lemma first_family_in: "first_family mid t d = d \<or> first_family mid t d \<in> snd ` set t"
  by (induction mid t d rule: first_family.induct) auto

lemma chars_per_token_bounds: "25 / 10 \<le> chars_per_token_for m \<and> chars_per_token_for m \<le> 35 / 10"
proof (cases m)
  case None
  then show ?thesis by (simp add: chars_per_token_for_def default_ratio_def)
next
  case (Some s)
  have "first_family (lower s) family_ratios default_ratio \<in> {3, 25 / 10, 28 / 10, 35 / 10}"
    using first_family_in [of "lower s" family_ratios default_ratio]
    by (auto simp: family_ratios_def default_ratio_def)
  then show ?thesis
    by (auto simp: chars_per_token_for_def Some default_ratio_def)
qed

lemma tokens_of_len_nonneg [simp]: "0 \<le> tokens_of_len c n"
  by (simp add: tokens_of_len_def max_def)

lemma tokens_of_len_pos: "n \<noteq> 0 \<Longrightarrow> 1 \<le> tokens_of_len c n"
  by (simp add: tokens_of_len_def)

lemma tokens_of_len_mono:
  assumes "0 \<le> n" and "n \<le> n'" and "0 < c"
  shows "tokens_of_len c n \<le> tokens_of_len c n'"
proof -
  have "real_of_int n / c \<le> real_of_int n' / c"
    using assms by (simp add: divide_right_mono)
  then have "py_int (real_of_int n / c) \<le> py_int (real_of_int n' / c)" by (rule py_int_mono)
  with assms show ?thesis by (auto simp: tokens_of_len_def)
qed

lemma estimate_message_nonneg: "0 \<le> estimate_message_tokens c m"
  by (induction c m rule: estimate_message_tokens.induct)
     (auto intro!: sum_list_nonneg split: block.splits)

lemma estimate_prompt_nonneg: "0 \<le> estimate_prompt_tokens s ms c"
  unfolding estimate_prompt_tokens_def
  by (intro add_nonneg_nonneg tokens_of_len_nonneg sum_list_nonneg)
     (auto simp: estimate_message_nonneg)

subsection \<open>Lemmas on the guard\<close>

lemma guard_block_imp_warn:
  "hard_min \<le> warn_below \<Longrightarrow>
   gr_should_block (evaluate_context_window_guard t warn_below hard_min) \<Longrightarrow>
   gr_should_warn (evaluate_context_window_guard t warn_below hard_min)"
  by (auto simp: evaluate_context_window_guard_def Let_def split: if_splits option.splits)

subsection \<open>Lemmas on truncation\<close>

text \<open>The frame of a result block: everything but the content.\<close>

definition same_frame :: "tool_result \<Rightarrow> tool_result \<Rightarrow> bool" where
  "same_frame r r' \<longleftrightarrow> tr_tool_use_id r = tr_tool_use_id r' \<and> tr_is_error r = tr_is_error r'"

fun same_message_frame :: "message \<Rightarrow> message \<Rightarrow> bool" where
  "same_message_frame (ToolResultMessage rs) m' \<longleftrightarrow>
     (\<exists>rs'. m' = ToolResultMessage rs' \<and> list_all2 same_frame rs rs')"
| "same_message_frame m m' \<longleftrightarrow> m' = m"

lemma length_truncated_marker [simp]: "length truncated_marker = 15"
  by (simp add: truncated_marker_def newline_def)

lemma truncate_block_frame: "truncate_block k r = Inr (r', d) \<Longrightarrow> same_frame r r'"
  by (auto simp: truncate_block_def same_frame_def Let_def split: content.splits if_splits)

lemma truncate_message_frame: "truncate_message k m = Inr (m', d) \<Longrightarrow> same_message_frame m m'"
  by (cases m)
     (auto simp: bind_err_Inr truncate_blocks_def dest!: gather_all2
        elim!: list.rel_mono_strong dest: truncate_block_frame)

lemma truncate_results_frame [keep_laws]:
  "truncate_tool_results k ms = Inr (ms', d) \<Longrightarrow> list_all2 same_message_frame ms ms'"
  unfolding truncate_tool_results_def
  by (drule gather_all2) (auto elim!: list.rel_mono_strong dest: truncate_message_frame)

text \<open>The sizes that a truncated block can have.\<close>

lemma truncate_block_size:
  "truncate_block k r = Inr (r', d) \<Longrightarrow> 0 \<le> k \<Longrightarrow>
   content_len (tr_content r') \<le> k + 15 \<and>
   d = content_len (tr_content r) - content_len (tr_content r')"
  by (auto simp: truncate_block_def Let_def split: content.splits if_splits)

lemma truncate_block_again:
  "truncate_block k r = Inr (r', d) \<Longrightarrow> 0 \<le> k \<Longrightarrow> truncate_block k r' = Inr (r', 0)"
  by (auto simp: truncate_block_def Let_def min_def split: content.splits if_splits)

lemma truncate_message_again:
  assumes "truncate_message k m = Inr (m', d)" and "0 \<le> k"
  shows "truncate_message k m' = Inr (m', 0)"
proof (cases m)
  case (ToolResultMessage rs)
  with assms(1) obtain rs' n where "gather (truncate_block k) rs = Inr (rs', n)"
    and m': "m' = ToolResultMessage rs'"
    by (auto simp: bind_err_Inr truncate_blocks_def)
  then have "gather (truncate_block k) rs' = Inr (rs', 0)"
    using gather_again [of "truncate_block k"] truncate_block_again [OF _ assms(2)] by blast
  with m' show ?thesis by (simp add: truncate_blocks_def)
qed (use assms in auto)

lemma truncate_results_again:
  "truncate_tool_results k ms = Inr (ms', d) \<Longrightarrow> 0 \<le> k \<Longrightarrow>
   truncate_tool_results k ms' = Inr (ms', 0)"
  unfolding truncate_tool_results_def
  by (erule gather_again) (rule truncate_message_again)

text \<open>The results of a message, and when truncation can raise.\<close>

fun results_of :: "message \<Rightarrow> tool_result list" where
  "results_of (ToolResultMessage rs) = rs"
| "results_of _ = []"

definition oversize_list :: "int \<Rightarrow> tool_result \<Rightarrow> bool" where
  "oversize_list k r \<longleftrightarrow> (case tr_content r of CStr _ \<Rightarrow> False | CBlocks bs \<Rightarrow> k < int (length bs))"

lemma truncate_block_error: "(\<exists>e. truncate_block k r = Inl e) \<longleftrightarrow> oversize_list k r"
  by (auto simp: truncate_block_def oversize_list_def Let_def split: content.splits)

lemma truncate_message_error:
  "(\<exists>e. truncate_message k m = Inl e) \<longleftrightarrow> (\<exists>r \<in> set (results_of m). oversize_list k r)"
  by (cases m)
     (auto simp: bind_err_Inl truncate_blocks_def gather_error truncate_block_error)

lemma truncate_results_error:
  "(\<exists>e. truncate_tool_results k ms = Inl e) \<longleftrightarrow>
     (\<exists>m \<in> set ms. \<exists>r \<in> set (results_of m). oversize_list k r)"
  unfolding truncate_tool_results_def by (simp add: gather_error truncate_message_error)

text \<open>The characters of a transcript that are tool output.\<close>

definition results_len :: "message list \<Rightarrow> int" where
  "results_len ms =
     sum_list (map (\<lambda>m. sum_list (map (content_len \<circ> tr_content) (results_of m))) ms)"

lemma truncate_message_count:
  assumes "truncate_message k m = Inr (m', d)" and "0 \<le> k"
  shows "d = sum_list (map (content_len \<circ> tr_content) (results_of m)) -
             sum_list (map (content_len \<circ> tr_content) (results_of m'))"
proof (cases m)
  case (ToolResultMessage rs)
  with assms(1) obtain rs' where g: "gather (truncate_block k) rs = Inr (rs', d)"
    and m': "m' = ToolResultMessage rs'"
    by (auto simp: bind_err_Inr truncate_blocks_def)
  have "d = sum_list (map (content_len \<circ> tr_content) rs) -
            sum_list (map (content_len \<circ> tr_content) rs')"
    by (rule gather_count [OF g]) (use truncate_block_size [OF _ assms(2)] in auto)
  then show ?thesis using ToolResultMessage m' by simp
qed (use assms in auto)

lemma truncate_results_count:
  "truncate_tool_results k ms = Inr (ms', d) \<Longrightarrow> 0 \<le> k \<Longrightarrow> d = results_len ms - results_len ms'"
  unfolding truncate_tool_results_def results_len_def
  by (erule gather_count) (rule truncate_message_count)

lemma truncate_results_size:
  assumes "truncate_tool_results k ms = Inr (ms', d)" and "0 \<le> k"
    and "m \<in> set ms'" and "r \<in> set (results_of m)"
  shows "content_len (tr_content r) \<le> k + 15"
proof -
  from gather_in [OF assms(1) [unfolded truncate_tool_results_def] assms(3)]
  obtain m0 d0 where "truncate_message k m0 = Inr (m, d0)" by blast
  with assms(4) obtain rs rs' d1 where g: "gather (truncate_block k) rs = Inr (rs', d1)"
    and "r \<in> set rs'"
    by (cases m0) (auto simp: bind_err_Inr truncate_blocks_def)
  with gather_in [OF g] obtain r0 d2 where "truncate_block k r0 = Inr (r, d2)" by blast
  with truncate_block_size assms(2) show ?thesis by blast
qed

subsection \<open>Properties\<close>

text \<open>What in-place truncation of tool results does. The frames stay (ids, error flags, number and
  order of results, every other message); no result is longer than the limit plus the marker; the
  returned count is the difference of the sizes; and a second pass changes nothing.\<close>

lemma truncation_accounts:
  assumes "truncate_tool_results k ms = Inr (ms', d)" and "0 \<le> k"
  shows "list_all2 same_message_frame ms ms' \<and>
    (\<forall>m \<in> set ms'. \<forall>r \<in> set (results_of m). content_len (tr_content r) \<le> k + 15) \<and>
    d = results_len ms - results_len ms' \<and>
    truncate_tool_results k ms' = Inr (ms', 0)"
  using truncate_results_frame [OF assms(1)] truncate_results_size [OF assms]
    truncate_results_count [OF assms] truncate_results_again [OF assms] by blast

text \<open>The count is negative when a result just above the limit grows by the marker.\<close>

lemma truncation_can_grow:
  "truncate_block 1024 \<lparr>tr_tool_use_id = ''t'', tr_content = CStr (replicate 1030 (CHR ''x'')), tr_is_error = False\<rparr> =
     Inr (\<lparr>tr_tool_use_id = ''t'', tr_content = CStr (replicate 1024 (CHR ''x'') @ truncated_marker),
           tr_is_error = False\<rparr>, - 9)"
  by (simp add: truncate_block_def Let_def)

text \<open>The three routes of preemptive compaction. The prompt is sent as it is exactly when its estimate
  is within the budget; otherwise the overflow is positive, and truncation alone is chosen exactly
  when the tool results above 1024 characters are worth at least the overflow.\<close>

lemma compaction_routes:
  "let dec = decide sys ms window ratio reserve cpt;
       budget = max 1 (py_int (real_of_int window * ratio) - reserve)
   in cd_budget dec = budget \<and> cd_estimated dec = estimate_prompt_tokens sys ms cpt \<and>
      (cd_route dec = NOOP \<longleftrightarrow> estimate_prompt_tokens sys ms cpt \<le> budget) \<and>
      (cd_overflow dec = max 0 (estimate_prompt_tokens sys ms cpt - budget)) \<and>
      (cd_route dec = TRUNCATE_TOOL_RESULTS \<longleftrightarrow>
         budget < estimate_prompt_tokens sys ms cpt \<and>
         estimate_prompt_tokens sys ms cpt - budget \<le>
           py_int (real_of_int (tool_result_reducible_chars ms) / cpt))"
  by (auto simp: decide_def Let_def max_def)

text \<open>The context-window guard. A window is refused exactly when it is known and below the hard
  minimum, and with the default limits a refused window has also been warned about; an unknown
  window passes.\<close>

lemma window_guard:
  "(assert_context_window_usable tokens CONTEXT_WINDOW_WARN_BELOW_TOKENS CONTEXT_WINDOW_HARD_MIN_TOKENS =
      Inl ContextWindowTooSmallError) =
     (case tokens of None \<Rightarrow> False | Some n \<Rightarrow> 0 < n \<and> n < 16000) \<and>
   gr_should_warn (evaluate_context_window_guard tokens CONTEXT_WINDOW_WARN_BELOW_TOKENS
       CONTEXT_WINDOW_HARD_MIN_TOKENS) =
     (case tokens of None \<Rightarrow> False | Some n \<Rightarrow> 0 < n \<and> n < 32000)"
  by (auto simp: assert_context_window_usable_def evaluate_context_window_guard_def Let_def
      CONTEXT_WINDOW_WARN_BELOW_TOKENS_def CONTEXT_WINDOW_HARD_MIN_TOKENS_def split: option.split)

end
