(* ===== verification/StopRecovery.thy ===== *)
theory StopRecovery
  imports Messages
begin

section \<open>Stop-reason recovery\<close>

text \<open>
  \<open>oxenclaw/pi/run/stop_recovery.py\<close>: which replies count as empty (\<open>is_recoverable_empty\<close>), which
  as cut off by the output budget (\<open>is_length_truncation\<close>), and the nudge that is sent back. The
  lemmas show that neither ever fires on a reply the user can see or on a tool call, and how the
  two overlap.
\<close>

definition recoverable_stop_reasons :: "string list" where
  "recoverable_stop_reasons =
     [''refusal'', ''safety'', ''sensitive'', ''content_filter'', ''blocked'']"

fun visible_text :: "block \<Rightarrow> bool" where
  "visible_text (TextContent t) = (strip t \<noteq> [])"
| "visible_text _ = False"

definition has_text :: "assistant \<Rightarrow> bool" where
  "has_text m \<longleftrightarrow> list_ex visible_text (am_content m)"

definition is_recoverable_empty :: "assistant \<Rightarrow> bool" where
  "is_recoverable_empty m =
    (if list_ex is_tool_use (am_content m) then False
     else if has_text m then False
     else (case am_stop_reason m of
             None \<Rightarrow> True
           | Some r \<Rightarrow>
               if r \<in> set recoverable_stop_reasons then True
               else r \<in> {''end_turn'', ''stop''}))"

definition is_length_truncation :: "assistant \<Rightarrow> bool" where
  "is_length_truncation m =
    (if list_ex is_tool_use (am_content m) then False
     else if has_text m then False
     else (case am_stop_reason m of
             None \<Rightarrow> list_ex is_thinking (am_content m)
           | Some r \<Rightarrow>
               if r = ''length'' then True
               else if r \<in> {''stop'', ''end_turn''} then list_ex is_thinking (am_content m)
               else False))"

definition build_recovery_nudge :: "string option \<Rightarrow> message" where
  "build_recovery_nudge stop_reason =
    (case stop_reason of
       Some r \<Rightarrow>
         if r \<in> set recoverable_stop_reasons
         then UserMessage (CStr (''Your previous reply was filtered as `'' @ r
                @ ''`. Please retry '' @ [CHR 0x82] @ '' answer in plain language, no policy commentary, and reuse any context already provided. If a tool would help, call it.''))
         else UserMessage (CStr ''Your previous reply was empty. Please retry and answer directly. If a tool (memory_search, weather, web_search, get_time, etc.) would help, call it.'')
     | None \<Rightarrow> UserMessage (CStr ''Your previous reply was empty. Please retry and answer directly. If a tool (memory_search, weather, web_search, get_time, etc.) would help, call it.''))"

lemma visible_text_iff: "visible_text b \<longleftrightarrow> (\<exists>t. b = TextContent t \<and> \<not> blank t)"
  by (cases b) (auto simp: strip_eq_Nil_iff)

lemma recovery_needs_silence:
  "is_recoverable_empty m \<or> is_length_truncation m \<Longrightarrow>
   list_all (\<lambda>b. \<not> is_tool_use b \<and> \<not> visible_text b) (am_content m)"
  by (auto simp: is_recoverable_empty_def is_length_truncation_def has_text_def list_ex_iff
        list_all_iff split: if_splits)

lemma nudge_is_user: "is_user (build_recovery_nudge r)"
  by (simp add: build_recovery_nudge_def split: option.split)

lemma length_and_empty_overlap:
  "is_length_truncation m \<and> is_recoverable_empty m \<longleftrightarrow>
     list_all (\<lambda>b. \<not> is_tool_use b \<and> \<not> visible_text b) (am_content m) \<and>
     am_stop_reason m \<in> {None, Some ''stop'', Some ''end_turn''} \<and>
     list_ex is_thinking (am_content m)"
  by (cases "am_stop_reason m")
     (auto simp: is_recoverable_empty_def is_length_truncation_def has_text_def list_ex_iff
        list_all_iff recoverable_stop_reasons_def)

subsection \<open>Properties\<close>

text \<open>A recovery never discards an answer: a reply that counts as empty or as cut off by the output
  budget has no tool call and no visible text, and what is sent back is a user message.\<close>

lemma recovery_only_when_silent:
  assumes "is_recoverable_empty m \<or> is_length_truncation m"
  shows "list_all (\<lambda>b. \<not> is_tool_use b \<and> \<not> visible_text b) (am_content m) \<and>
         is_user (build_recovery_nudge (am_stop_reason m))"
  using recovery_needs_silence [OF assms] nudge_is_user by blast

end
