(* ===== verification/Backoff.thy ===== *)
theory Backoff
  imports Messages
begin

section \<open>Delays and usage totals\<close>

text \<open>
  The small helpers of \<open>oxenclaw/pi/run/run.py\<close>: the paced delay before a failover
  (\<open>_overload_failover_backoff_seconds\<close>), the jittered delay before a retry (\<open>_backoff_delay\<close>,
  \<open>_resolve_retry_delay\<close>) with the cap that the environment may set, and the usage totals
  (\<open>_accumulate_usage\<close>). \<open>random.Random(seed).uniform\<close> is the parameter \<open>uniform\<close>; what the code
  relies on is that its value lies between its bounds (\<open>uniform_ok\<close>).
\<close>

type_synonym uniform = "real \<Rightarrow> real \<Rightarrow> real"

definition uniform_ok :: "uniform \<Rightarrow> bool" where
  "uniform_ok u \<longleftrightarrow> (\<forall>lo hi. lo \<le> hi \<longrightarrow> lo \<le> u lo hi \<and> u lo hi \<le> hi)"

definition OVERLOAD_FAILOVER_INITIAL_MS :: real where
  "OVERLOAD_FAILOVER_INITIAL_MS = 250"

definition OVERLOAD_FAILOVER_MAX_MS :: real where
  "OVERLOAD_FAILOVER_MAX_MS = 1500"

definition OVERLOAD_FAILOVER_FACTOR :: real where
  "OVERLOAD_FAILOVER_FACTOR = 2"

definition OVERLOAD_FAILOVER_JITTER :: real where
  "OVERLOAD_FAILOVER_JITTER = 2 / 10"

definition overload_failover_backoff_seconds :: "uniform \<Rightarrow> int \<Rightarrow> real" where
  "overload_failover_backoff_seconds uniform attempt =
    (let base = min OVERLOAD_FAILOVER_MAX_MS
                  (OVERLOAD_FAILOVER_INITIAL_MS *
                   OVERLOAD_FAILOVER_FACTOR ^ nat (max 0 (attempt - 1)));
         base' = (if OVERLOAD_FAILOVER_JITTER > 0
                  then let spread = base * OVERLOAD_FAILOVER_JITTER
                       in max 0 (base + uniform (- spread) spread)
                  else base)
     in base' / 1000)"

text \<open>The variable \<open>OXENCLAW_RETRY_AFTER_MAX\<close> as \<open>float\<close> reads it; infinity is left out.\<close>

datatype env_number = EnvUnset | EnvInvalid | EnvNumber real

definition retry_after_cap_seconds :: "env_number \<Rightarrow> real" where
  "retry_after_cap_seconds raw =
    (case raw of
       EnvUnset \<Rightarrow> 3600
     | EnvInvalid \<Rightarrow> 3600
     | EnvNumber v \<Rightarrow> if v > 0 then v else 3600)"

definition backoff_delay :: "uniform \<Rightarrow> int \<Rightarrow> real \<Rightarrow> real \<Rightarrow> real" where
  "backoff_delay uniform attempt initial cap =
    (let base = min cap (initial * 2 ^ nat (max 0 (attempt - 1)))
     in if base > 0 then uniform (base / 2) base else 0)"

definition resolve_retry_delay ::
  "uniform \<Rightarrow> env_number \<Rightarrow> int \<Rightarrow> real option \<Rightarrow> real \<Rightarrow> real \<Rightarrow> real" where
  "resolve_retry_delay uniform raw retry retry_after initial cap =
    (case retry_after of
       Some ra \<Rightarrow> if ra > 0 then min ra (retry_after_cap_seconds raw)
                  else backoff_delay uniform retry initial cap
     | None \<Rightarrow> backoff_delay uniform retry initial cap)"

fun add_usage :: "(string \<times> int) list \<Rightarrow> string \<times> usage_value \<Rightarrow> (string \<times> int) list" where
  "add_usage t (k, UNum v) =
    dict_set k (py_int (real_of_int (case map_of t k of Some n \<Rightarrow> n | None \<Rightarrow> 0) + v)) t"
| "add_usage t (k, _) = t"

definition accumulate_usage :: "(string \<times> int) list \<Rightarrow> usage option \<Rightarrow> (string \<times> int) list" where
  "accumulate_usage t delta = (case delta of None \<Rightarrow> t | Some us \<Rightarrow> foldl add_usage t us)"

subsection \<open>Lemmas\<close>

lemma uniform_half: "uniform_ok u \<Longrightarrow> 0 \<le> b \<Longrightarrow> b / 2 \<le> u (b / 2) b \<and> u (b / 2) b \<le> b"
  unfolding uniform_ok_def by (rule allE [where x = "b / 2"], assumption) (erule allE [where x = b], simp)

lemma uniform_spread: "uniform_ok u \<Longrightarrow> 0 \<le> s \<Longrightarrow> - s \<le> u (- s) s \<and> u (- s) s \<le> s"
  unfolding uniform_ok_def by (rule allE [where x = "- s"], assumption) (erule allE [where x = s], simp)

lemma backoff_delay_bounds:
  assumes "uniform_ok u"
  shows "0 \<le> backoff_delay u a i c \<and> backoff_delay u a i c \<le> max 0 c"
proof -
  define b where "b = min c (i * 2 ^ nat (max 0 (a - 1)))"
  have "b \<le> c" by (simp add: b_def)
  moreover have "0 < b \<Longrightarrow> b / 2 \<le> u (b / 2) b \<and> u (b / 2) b \<le> b"
    using uniform_half [OF assms, of b] by simp
  ultimately show ?thesis
    unfolding backoff_delay_def Let_def b_def [symmetric] by fastforce
qed

text \<open>Half of the backoff is always kept.\<close>

lemma backoff_delay_half:
  assumes "uniform_ok u" and "0 < i" and "0 < c"
  shows "min c (i * 2 ^ nat (max 0 (a - 1))) / 2 \<le> backoff_delay u a i c"
proof -
  define b where "b = min c (i * 2 ^ nat (max 0 (a - 1)))"
  have "0 < b" using assms by (simp add: b_def)
  then show ?thesis
    using uniform_half [OF assms(1), of b]
    unfolding backoff_delay_def Let_def b_def [symmetric] by simp
qed

lemma retry_after_cap_pos: "0 < retry_after_cap_seconds raw"
  by (simp add: retry_after_cap_seconds_def split: env_number.split)

lemma retry_delay_bounds:
  assumes "uniform_ok u" and "0 \<le> c"
  shows "0 \<le> resolve_retry_delay u raw r ra i c" and
    "resolve_retry_delay u raw r ra i c \<le> max c (retry_after_cap_seconds raw)"
  using backoff_delay_bounds [OF assms(1), of r i c] retry_after_cap_pos [of raw] assms(2)
  by (auto simp: resolve_retry_delay_def split: option.split)

lemma overload_backoff_bounds:
  assumes "uniform_ok u"
  shows "0 \<le> overload_failover_backoff_seconds u a \<and>
         overload_failover_backoff_seconds u a \<le> 18 / 10"
proof -
  define b :: real where "b = min 1500 (250 * 2 ^ nat (max 0 (a - 1)))"
  have "0 \<le> b" and "b \<le> 1500" by (simp_all add: b_def)
  moreover have "- (b * (2 / 10)) \<le> u (- (b * (2 / 10))) (b * (2 / 10)) \<and>
      u (- (b * (2 / 10))) (b * (2 / 10)) \<le> b * (2 / 10)"
    by (rule uniform_spread [OF assms]) (use \<open>0 \<le> b\<close> in simp)
  moreover have "overload_failover_backoff_seconds u a =
      max 0 (b + u (- (b * (2 / 10))) (b * (2 / 10))) / 1000"
    by (simp add: overload_failover_backoff_seconds_def OVERLOAD_FAILOVER_MAX_MS_def
        OVERLOAD_FAILOVER_INITIAL_MS_def OVERLOAD_FAILOVER_FACTOR_def
        OVERLOAD_FAILOVER_JITTER_def Let_def b_def)
  ultimately show ?thesis by auto
qed

text \<open>Flags do not count; a key that is not reported keeps its total.\<close>

lemma add_usage_other: "k \<noteq> k' \<Longrightarrow> map_of (add_usage t (k, v)) k' = map_of t k'"
  by (cases v) (auto simp: map_of_dict_set)

lemma accumulate_other:
  "k \<notin> fst ` set us \<Longrightarrow> map_of (accumulate_usage t (Some us)) k = map_of t k"
proof (induction us arbitrary: t)
  case Nil
  then show ?case by (simp add: accumulate_usage_def)
next
  case (Cons u us)
  obtain k' v where u: "u = (k', v)" by (cases u)
  with Cons.prems have "k' \<noteq> k" by auto
  with Cons show ?case by (simp add: u accumulate_usage_def add_usage_other)
qed

subsection \<open>Properties\<close>

text \<open>How long the loop sleeps. With a random source that respects its bounds, every retry delay is
  non-negative and at most the larger of the configured cap and the cap on \<open>Retry-After\<close>, which is
  positive; the pause before a failover lies between 0 and 1.8 seconds.\<close>

lemma delays_bounded:
  assumes "uniform_ok u" and "0 \<le> cap"
  shows "0 \<le> resolve_retry_delay u raw retry ra initial cap \<and>
    resolve_retry_delay u raw retry ra initial cap \<le> max cap (retry_after_cap_seconds raw) \<and>
    0 \<le> overload_failover_backoff_seconds u n \<and>
    overload_failover_backoff_seconds u n \<le> 18 / 10"
  using retry_delay_bounds [OF assms] overload_backoff_bounds [OF assms(1)] by blast

end
