(* ===== verification/RunLoop.thy ===== *)
theory RunLoop
  imports Attempt ArgLoop ToolExec ErrorClassifier Failover TokenBudget StopRecovery Backoff
begin

section \<open>The multi-attempt run loop\<close>

text \<open>
  \<open>run_agent_turn\<close> of \<open>oxenclaw/pi/run/run.py\<close>. The function is cut where the source has its
  stages: the check for an abort, preemptive compaction, the inner retry loop with its recoveries
  (\<open>attempt_loop\<close>), the handling of an answer without tools (\<open>no_tool_reply\<close>) and with tools
  (\<open>tool_reply\<close>, \<open>after_tools\<close>), one iteration, and the whole turn. Its local variables are the
  record \<open>turn_state\<close>; the message list \<open>working\<close> of the source is always the caller's history
  followed by the appended messages, so it is derived. The truncation of tool results acts on
  message objects that the caller's history shares; the state keeps the history for that reason.

  What the source reaches outside is the record \<open>environment\<close>: the providers that have registered a
  stream, the events of a stream and the exception that leaves it after them, if any, the abort
  event, the clock and the random numbers, SHA-1 and the disk. The state of the world is \<open>'w\<close>.
  \<open>HookRunner\<close> has no attribute \<open>_auth\<close>, so the rotation of credentials returns at once and the
  resolution of a new \<open>api\<close> after a failover raises and is caught: neither leaves a trace here.
\<close>

subsection \<open>Configuration and environment\<close>

record 'w runtime_config = attempt_config +
  rc_max_retries :: int
  rc_backoff_initial :: real
  rc_backoff_max :: real
  rc_max_tool_iterations :: int
  rc_soft_iteration_cap :: bool
  rc_unknown_tool_threshold :: int
  rc_arg_loop_threshold :: int
  rc_stop_reason_recovery_attempts :: int
  rc_length_recovery_attempts :: int
  rc_length_recovery_growth :: real
  rc_failover_chain :: "string list"
  rc_failover_empty_streak_threshold :: int
  rc_failover_registry :: "registry option"
  rc_failover_cycle :: bool
  rc_compaction_threshold_ratio :: real
  rc_preemptive_compaction :: bool
  rc_max_compression_self_heals :: int
  rc_compress_then_retry :: bool
  rc_tool_result_storage_dir :: "path option"
  rc_tool_policy :: "tool_policy option"
  rc_hook_runner :: "'w hook_runner option"
  rc_hook_context :: hook_context

record 'w environment =
  env_registered :: "string \<Rightarrow> bool"
  env_stream :: "request \<Rightarrow> 'w \<Rightarrow> event list \<times> 'w"
  env_stream_raises :: "request \<Rightarrow> 'w \<Rightarrow> py_error option"
  env_aborted :: "'w \<Rightarrow> bool"
  env_uniform :: "'w \<Rightarrow> uniform"
  env_sleep :: "real \<Rightarrow> 'w \<Rightarrow> 'w"
  env_retry_after_max :: env_number
  env_sha :: "string \<Rightarrow> string"
  env_write_fails :: "disk \<Rightarrow> path \<Rightarrow> bool"

text \<open>What does not change during a turn.\<close>

record 'w turn_ctx =
  tc_env :: "'w environment"
  tc_config :: "'w runtime_config"
  tc_system :: "string option"
  tc_api :: string
  tc_tools :: "'w tool list"
  tc_chain :: "string list"

record 'w turn_state =
  ts_history :: "message list"
  ts_appended :: "message list"
  ts_attempts :: "attempt_result list"
  ts_executions :: "tool_exec list"
  ts_usage_total :: "(string \<times> int) list"
  ts_unknown_streak :: int
  ts_reinject_used :: bool
  ts_arg_loop :: arg_loop
  ts_recoveries_used :: int
  ts_length_recoveries_used :: int
  ts_override :: "int option"
  ts_overload_attempts :: int
  ts_self_heals :: int
  ts_cursor :: nat
  ts_empty_streak :: int
  ts_cycles_used :: nat
  ts_model :: model
  ts_extra_params :: "(string \<times> json) list"
  ts_disk :: disk
  ts_world :: 'w

definition working :: "'w turn_state \<Rightarrow> message list" where
  "working st = ts_history st @ ts_appended st"

definition append_message :: "message \<Rightarrow> 'w turn_state \<Rightarrow> 'w turn_state" where
  "append_message m st = st\<lparr>ts_appended := ts_appended st @ [m]\<rparr>"

record turn_result =
  tu_final_message :: assistant
  tu_appended :: "message list"
  tu_attempts :: "attempt_result list"
  tu_executions :: "tool_exec list"
  tu_usage_total :: "(string \<times> int) list"
  tu_stopped_reason :: string

text \<open>How a stage ends: the loop goes on, the turn is over, or an exception leaves it.\<close>

datatype 'w step_result =
    Continue "'w turn_state"
  | Finished turn_result "'w turn_state"
  | Raised py_error

definition finish :: "'w turn_state \<Rightarrow> assistant \<Rightarrow> string \<Rightarrow> 'w step_result" where
  "finish st m reason =
    Finished \<lparr>tu_final_message = m, tu_appended = ts_appended st, tu_attempts = ts_attempts st,
              tu_executions = ts_executions st, tu_usage_total = ts_usage_total st,
              tu_stopped_reason = reason\<rparr> st"

subsection \<open>Abort\<close>

definition abort_reply :: "'w turn_state \<Rightarrow> 'w step_result" where
  "abort_reply st =
    (case rev (filter (\<lambda>r. te_name r = ''sessions_yield'') (ts_executions st)) of
       r # _ \<Rightarrow>
         (let reason = strip (if te_output r \<noteq> [] then te_output r else ''yielded'');
              msg = assistant_text reason (Some ''yielded'')
          in finish (append_message (AssistantMessage msg) st) msg ''yielded'')
     | [] \<Rightarrow> finish st (assistant_text ''(aborted)'' (Some ''abort'')) ''abort'')"

subsection \<open>Preemptive compaction\<close>

definition truncate_working :: "'w turn_state \<Rightarrow> py_error + 'w turn_state" where
  "truncate_working st =
    bind_err (truncate_tool_results 1024 (working st)) (\<lambda>(ms, _).
      let n = length (ts_history st)
      in Inr (st\<lparr>ts_history := take n ms, ts_appended := drop n ms\<rparr>))"

definition preemptive_compaction :: "'w turn_ctx \<Rightarrow> 'w turn_state \<Rightarrow> py_error + 'w turn_state" where
  "preemptive_compaction ctx st =
    (if rc_preemptive_compaction (tc_config ctx)
     then let m = ts_model st;
              decision = decide (tc_system ctx) (working st)
                (if m_context_window m = 0 then 8192 else m_context_window m)
                (rc_compaction_threshold_ratio (tc_config ctx)) 1024
                (chars_per_token_for (Some (m_id m)))
          in case cd_route decision of
               NOOP \<Rightarrow> Inr st
             | TRUNCATE_TOOL_RESULTS \<Rightarrow> truncate_working st
             | COMPACT_THEN_SEND \<Rightarrow> truncate_working st
     else Inr st)"

subsection \<open>Recoveries of a failed attempt\<close>

definition sleep_for :: "'w turn_ctx \<Rightarrow> real \<Rightarrow> 'w turn_state \<Rightarrow> 'w turn_state" where
  "sleep_for ctx delay st = st\<lparr>ts_world := env_sleep (tc_env ctx) delay (ts_world st)\<rparr>"

definition retry_sleep ::
  "'w turn_ctx \<Rightarrow> int \<Rightarrow> real option \<Rightarrow> 'w turn_state \<Rightarrow> 'w turn_state" where
  "retry_sleep ctx retry ra st =
    sleep_for ctx
      (resolve_retry_delay (env_uniform (tc_env ctx) (ts_world st))
        (env_retry_after_max (tc_env ctx)) retry ra
        (rc_backoff_initial (tc_config ctx)) (rc_backoff_max (tc_config ctx))) st"

text \<open>The new model, or \<open>None\<close> where the loop does not fail over.\<close>

definition failover_model ::
  "'w turn_ctx \<Rightarrow> attempt_result \<Rightarrow> classified \<Rightarrow> 'w turn_state \<Rightarrow>
   py_error + (model \<times> nat) option" where
  "failover_model ctx result classified st =
    (let cfg = tc_config ctx; chain = tc_chain ctx
     in case rc_failover_registry cfg of
          None \<Rightarrow> Inr None
        | Some reg \<Rightarrow>
            if length chain \<le> 1 then Inr None
            else
              let decision = should_failover result chain (ts_cursor st) (ts_empty_streak st)
                    (rc_failover_empty_streak_threshold cfg) None (rc_failover_cycle cfg)
                    (ts_cycles_used st)
              in if fd_failover decision \<or> c_fallback classified
                 then bind_err (resolve_next_model chain (ts_cursor st) reg (rc_failover_cycle cfg)
                                  (ts_cycles_used st))
                        (\<lambda>(next_model, new_cursor).
                           Inr (map_option (\<lambda>m. (m, new_cursor)) next_model))
                 else Inr None)"

definition switch_model ::
  "'w turn_ctx \<Rightarrow> classified \<Rightarrow> model \<Rightarrow> nat \<Rightarrow> 'w turn_state \<Rightarrow> 'w turn_state" where
  "switch_model ctx classified m new_cursor st =
    (let st1 = (if new_cursor < ts_cursor st
                then st\<lparr>ts_cycles_used := ts_cycles_used st + 1\<rparr> else st);
         st2 = (if c_reason classified \<in> {R_RATE_LIMIT, R_SERVER}
                then let n = ts_overload_attempts st1 + 1
                     in sleep_for ctx
                          (overload_failover_backoff_seconds
                            (env_uniform (tc_env ctx) (ts_world st1)) n)
                          (st1\<lparr>ts_overload_attempts := n\<rparr>)
                else st1)
     in st2\<lparr>ts_model := m, ts_cursor := new_cursor, ts_empty_streak := 0\<rparr>)"

definition record_long_context_tier :: "string \<Rightarrow> 'w turn_state \<Rightarrow> 'w turn_state" where
  "record_long_context_tier message st =
    (let msg_lc = lower message
     in if \<not> contains ''long context tier'' msg_lc \<and> \<not> contains ''200k context tier'' msg_lc then st
        else st\<lparr>ts_extra_params := dict_set ''force_200k_context'' (JBool True) (ts_extra_params st)\<rparr>)"

definition max_self_heals :: "'w runtime_config \<Rightarrow> int" where
  "max_self_heals cfg = max 1 (rc_max_compression_self_heals cfg)"

definition compress_then_retry :: "'w turn_ctx \<Rightarrow> classified \<Rightarrow> 'w turn_state \<Rightarrow> bool" where
  "compress_then_retry ctx classified st \<longleftrightarrow>
     c_compress classified \<and> c_reason classified \<in> {R_CONTEXT_OVERFLOW, R_PAYLOAD_TOO_LARGE} \<and>
     rc_compress_then_retry (tc_config ctx) \<and>
     ts_self_heals st < max_self_heals (tc_config ctx)"

subsection \<open>The inner retry loop\<close>

datatype attempt_end =
    Answered attempt_result
  | CompressBreak
  | Terminal attempt_result

definition max_silent_retries :: "'w runtime_config \<Rightarrow> int" where
  "max_silent_retries cfg = max 2 (rc_max_retries cfg div 2)"

definition next_request :: "'w turn_ctx \<Rightarrow> 'w turn_state \<Rightarrow> request" where
  "next_request ctx st =
    build_request (ts_model st) (tc_api ctx) (tc_system ctx) (working st)
      (map tl_name (tc_tools ctx)) ((tc_config ctx)\<lparr>rc_extra_params := ts_extra_params st\<rparr>)
      (ts_override st)"

lemma next_request_model [simp]: "rq_model (next_request ctx st) = ts_model st"
  by (simp add: next_request_def build_request_def)

text \<open>
  The stream of a provider (\<open>stream_simple\<close>): a provider that has not registered one is a \<open>KeyError\<close>. An
  exception of the stream is met after its events, unless the loop has left it at an error event.
\<close>

definition stream_simple :: "'w environment \<Rightarrow> request \<Rightarrow> 'w \<Rightarrow> py_error + event list \<times> 'w" where
  "stream_simple env rq w =
    (if \<not> env_registered env (m_provider (rq_model rq)) then Inl KeyError
     else let (events, w') = env_stream env rq w
          in case (if list_ex is_error_event events then None else env_stream_raises env rq w) of
               Some e \<Rightarrow> Inl e
             | None \<Rightarrow> Inr (events, w'))"

text \<open>One provider call; its result is recorded in the state.\<close>

definition call_provider ::
  "'w turn_ctx \<Rightarrow> 'w turn_state \<Rightarrow> py_error + (attempt_result \<times> 'w turn_state)" where
  "call_provider ctx st =
    bind_err (stream_simple (tc_env ctx) (next_request ctx st) (ts_world st)) (\<lambda>(events, w).
      bind_err (run_attempt events) (\<lambda>result.
        Inr (result, st\<lparr>ts_attempts := ts_attempts st @ [result], ts_world := w\<rparr>)))"

text \<open>The failover position, which only a failover changes, and how it moves.\<close>

lemma call_provider_position:
  "call_provider ctx st = Inr (result, st') \<Longrightarrow>
   ts_cursor st' = ts_cursor st \<and> ts_cycles_used st' = ts_cycles_used st"
  by (auto simp: call_provider_def bind_err_Inr)

lemma switch_model_position [simp]:
  "ts_cursor (switch_model ctx c m n st) = n"
  "ts_cycles_used (switch_model ctx c m n st) =
     (if n < ts_cursor st then ts_cycles_used st + 1 else ts_cycles_used st)"
  by (simp_all add: switch_model_def sleep_for_def Let_def)

lemma retry_sleep_position [simp]:
  "ts_cursor (retry_sleep ctx n ra st) = ts_cursor st"
  "ts_cycles_used (retry_sleep ctx n ra st) = ts_cycles_used st"
  by (simp_all add: retry_sleep_def sleep_for_def)

lemma failover_model_resolved:
  assumes "failover_model ctx result classified st = Inr (Some (m, c))"
  shows "\<exists>reg. rc_failover_registry (tc_config ctx) = Some reg \<and>
    resolve_next_model (tc_chain ctx) (ts_cursor st) reg (rc_failover_cycle (tc_config ctx))
      (ts_cycles_used st) = Inr (Some m, c)"
  using assms
  by (auto simp: failover_model_def Let_def bind_err_Inr split: option.splits if_splits)

lemma failover_model_progress:
  assumes "failover_model ctx result classified st = Inr (Some (m, c))"
  shows "(c < ts_cursor st \<and> ts_cycles_used st < length (tc_chain ctx)) \<or>
         (ts_cursor st < c \<and> c < length (tc_chain ctx))"
  using failover_model_resolved [OF assms] resolve_next_progress by blast

text \<open>
  One pass of the loop: the loop goes on with new counters, ends, or an exception leaves it. A
  silent retry is tried first, then a failover, then compression; what is left is terminal or
  spends the retry budget.
\<close>

datatype 'w attempt_step =
    Again int int "'w turn_state"
  | Ended attempt_end "'w turn_state"
  | Broke py_error

definition attempt_pass :: "'w turn_ctx \<Rightarrow> int \<Rightarrow> int \<Rightarrow> 'w turn_state \<Rightarrow> 'w attempt_step" where
  "attempt_pass ctx retry silent_retries st0 =
    (case call_provider ctx st0 of
       Inl e \<Rightarrow> Broke e
     | Inr (result, st) \<Rightarrow>
        (case ar_error result of
           None \<Rightarrow> Ended (Answered result) st
         | Some err \<Rightarrow>
            if ev_retryable err \<and> \<not> ar_text_emitted result \<and>
               silent_retries < max_silent_retries (tc_config ctx)
            then Again retry (silent_retries + 1)
                   (retry_sleep ctx (silent_retries + 1) (ev_retry_after err) st)
            else
              let classified = classify_api_error (Some err) None [] None None None
              in case failover_model ctx result classified st of
                   Inl e \<Rightarrow> Broke e
                 | Inr (Some (m, c)) \<Rightarrow>
                     Again retry silent_retries (switch_model ctx classified m c st)
                 | Inr None \<Rightarrow>
                     if compress_then_retry ctx classified st
                     then Ended CompressBreak
                            (record_long_context_tier (c_message classified)
                              (st\<lparr>ts_self_heals := ts_self_heals st + 1\<rparr>))
                     else if \<not> c_retryable classified \<or> rc_max_retries (tc_config ctx) \<le> retry
                     then Ended (Terminal result) st
                     else Again (retry + 1) silent_retries
                            (retry_sleep ctx (retry + 1)
                              (case c_retry_after classified of
                                 None \<Rightarrow> ev_retry_after err | Some ra \<Rightarrow> Some ra) st)))"

text \<open>The pass on a result that is known, branch by branch.\<close>

lemma attempt_pass_error:
  assumes "call_provider ctx st0 = Inr (result, st)" and "ar_error result = Some err"
    and "c = classify_api_error (Some err) None [] None None None"
    and "sil \<longleftrightarrow> ev_retryable err \<and> \<not> ar_text_emitted result \<and>
           silent_retries < max_silent_retries (tc_config ctx)"
  shows "attempt_pass ctx retry silent_retries st0 =
    (if sil then Again retry (silent_retries + 1)
                   (retry_sleep ctx (silent_retries + 1) (ev_retry_after err) st)
     else case failover_model ctx result c st of
            Inl e \<Rightarrow> Broke e
          | Inr (Some (m, k)) \<Rightarrow> Again retry silent_retries (switch_model ctx c m k st)
          | Inr None \<Rightarrow>
              if compress_then_retry ctx c st
              then Ended CompressBreak (record_long_context_tier (c_message c)
                     (st\<lparr>ts_self_heals := ts_self_heals st + 1\<rparr>))
              else if \<not> c_retryable c \<or> rc_max_retries (tc_config ctx) \<le> retry
              then Ended (Terminal result) st
              else Again (retry + 1) silent_retries
                     (retry_sleep ctx (retry + 1)
                       (case c_retry_after c of None \<Rightarrow> ev_retry_after err | Some ra \<Rightarrow> Some ra) st))"
  unfolding attempt_pass_def assms(3,4)
  by (simp only: assms(1,2) sum.case prod.case option.case Let_def)

lemma attempt_pass_called:
  assumes "\<And>e. attempt_pass ctx retry silent st0 \<noteq> Broke e"
  obtains result st where "call_provider ctx st0 = Inr (result, st)"
  using assms by (cases "call_provider ctx st0") (auto simp: attempt_pass_def)

lemma attempt_pass_answered:
  "call_provider ctx st0 = Inr (result, st) \<Longrightarrow> ar_error result = None \<Longrightarrow>
   attempt_pass ctx retry silent st0 = Ended (Answered result) st"
  by (simp add: attempt_pass_def)

lemma attempt_pass_Again:
  assumes a: "attempt_pass ctx retry silent st0 = Again retry' silent' st'"
  obtains
    (silent) result st err where "call_provider ctx st0 = Inr (result, st)"
      "ar_error result = Some err" "ev_retryable err" "\<not> ar_text_emitted result"
      "silent < max_silent_retries (tc_config ctx)" "retry' = retry" "silent' = silent + 1"
      "st' = retry_sleep ctx (silent + 1) (ev_retry_after err) st"
  | (failover) result st err m c where "call_provider ctx st0 = Inr (result, st)"
      "ar_error result = Some err"
      "failover_model ctx result (classify_api_error (Some err) None [] None None None) st =
         Inr (Some (m, c))"
      "retry' = retry" "silent' = silent"
      "st' = switch_model ctx (classify_api_error (Some err) None [] None None None) m c st"
  | (retry) result st err ra where "call_provider ctx st0 = Inr (result, st)"
      "ar_error result = Some err"
      "c_retryable (classify_api_error (Some err) None [] None None None)"
      "retry < rc_max_retries (tc_config ctx)" "retry' = retry + 1" "silent' = silent"
      "st' = retry_sleep ctx (retry + 1) ra st"
proof -
  obtain result st where call: "call_provider ctx st0 = Inr (result, st)"
    using attempt_pass_called a by (metis attempt_step.distinct(4))
  with a obtain err where err: "ar_error result = Some err"
    using attempt_pass_answered [OF call] by (cases "ar_error result") auto
  define c where "c = classify_api_error (Some err) None [] None None None"
  define sil where "sil \<longleftrightarrow> ev_retryable err \<and> \<not> ar_text_emitted result \<and>
    silent < max_silent_retries (tc_config ctx)"
  note pass = attempt_pass_error [OF call err c_def sil_def, of retry]
  show thesis
  proof (cases sil)
    case True
    with a pass show thesis by (intro silent [OF call err]) (auto simp: sil_def)
  next
    case False
    show thesis
    proof (cases "failover_model ctx result c st")
      case (Inl e)
      with a pass False show thesis by simp
    next
      case (Inr found)
      show thesis
      proof (cases found)
        case None
        with a pass False Inr show thesis
          by (intro retry [OF call err]) (auto simp: c_def split: if_splits)
      next
        case (Some mk)
        with a pass False Inr show thesis
          by (cases mk) (intro failover [OF call err], auto simp: c_def)
      qed
    qed
  qed
qed

lemma attempt_pass_Ended:
  assumes a: "attempt_pass ctx retry silent st0 = Ended e st'"
  obtains
    (answered) result where "call_provider ctx st0 = Inr (result, st')"
      "ar_error result = None" "e = Answered result"
  | (compress) result st err msg where "call_provider ctx st0 = Inr (result, st)"
      "ar_error result = Some err" "e = CompressBreak"
      "compress_then_retry ctx (classify_api_error (Some err) None [] None None None) st"
      "st' = record_long_context_tier msg (st\<lparr>ts_self_heals := ts_self_heals st + 1\<rparr>)"
  | (terminal) result err where "call_provider ctx st0 = Inr (result, st')"
      "ar_error result = Some err" "e = Terminal result"
      "\<not> c_retryable (classify_api_error (Some err) None [] None None None) \<or>
       rc_max_retries (tc_config ctx) \<le> retry"
proof -
  obtain result st where call: "call_provider ctx st0 = Inr (result, st)"
    using attempt_pass_called a by (metis attempt_step.distinct(6))
  show thesis
  proof (cases "ar_error result")
    case None
    with a call show thesis
      using attempt_pass_answered [OF call None, of retry silent] by (intro answered) auto
  next
    case (Some err)
    define c where "c = classify_api_error (Some err) None [] None None None"
    define sil where "sil \<longleftrightarrow> ev_retryable err \<and> \<not> ar_text_emitted result \<and>
      silent < max_silent_retries (tc_config ctx)"
    note pass = attempt_pass_error [OF call Some c_def sil_def, of retry]
    with a have "\<not> sil" by auto
    moreover obtain found where "failover_model ctx result c st = Inr found"
      using a pass \<open>\<not> sil\<close> by (cases "failover_model ctx result c st") auto
    moreover have "found = None" using a pass calculation by (cases found) auto
    ultimately have pass': "attempt_pass ctx retry silent st0 =
        (if compress_then_retry ctx c st
         then Ended CompressBreak (record_long_context_tier (c_message c)
                (st\<lparr>ts_self_heals := ts_self_heals st + 1\<rparr>))
         else if \<not> c_retryable c \<or> rc_max_retries (tc_config ctx) \<le> retry
         then Ended (Terminal result) st
         else Again (retry + 1) silent
                (retry_sleep ctx (retry + 1)
                  (case c_retry_after c of None \<Rightarrow> ev_retry_after err | Some ra \<Rightarrow> Some ra) st))"
      using pass by simp
    show thesis
    proof (cases "compress_then_retry ctx c st")
      case True
      with a pass' show thesis
        by (intro compress [OF call Some, of "c_message c"]) (simp_all add: c_def)
    next
      case False
      with a pass' have "\<not> c_retryable c \<or> rc_max_retries (tc_config ctx) \<le> retry"
        and "e = Terminal result" and "st' = st"
        by (auto split: if_splits)
      with call Some show thesis by (intro terminal) (simp_all add: c_def)
    qed
  qed
qed

text \<open>
  The loop. Each pass that goes on moves the failover position, or spends one of the two budgets
  at the same position: the loop always ends.
\<close>

function attempt_loop ::
  "'w turn_ctx \<Rightarrow> int \<Rightarrow> int \<Rightarrow> 'w turn_state \<Rightarrow> py_error + (attempt_end \<times> 'w turn_state)" where
  "attempt_loop ctx retry silent_retries st =
    (case attempt_pass ctx retry silent_retries st of
       Again retry' silent' st' \<Rightarrow> attempt_loop ctx retry' silent' st'
     | Ended e st' \<Rightarrow> Inr (e, st')
     | Broke e \<Rightarrow> Inl e)"
  by pat_completeness auto
termination
proof (relation "measures
    [\<lambda>(ctx, retry, silent, st). length (tc_chain ctx) - ts_cycles_used st,
     \<lambda>(ctx, retry, silent, st). length (tc_chain ctx) - ts_cursor st,
     \<lambda>(ctx, retry, silent, st). nat (max_silent_retries (tc_config ctx) - silent) +
        nat (rc_max_retries (tc_config ctx) - retry)]", goal_cases)
  case 1
  show ?case by simp
next
  case (2 ctx retry silent st0 retry' silent' st')
  then show ?case
  proof (cases rule: attempt_pass_Again)
    case (silent result st err)
    then show ?thesis using call_provider_position [of ctx st0 result st] by auto
  next
    case (failover result st err m c)
    then show ?thesis
      using call_provider_position [of ctx st0 result st] failover_model_progress [OF failover(3)]
      by auto
  next
    case (retry result st err ra)
    then show ?thesis using call_provider_position [of ctx st0 result st] by auto
  qed
qed

declare attempt_loop.simps [simp del]

text \<open>What every pass keeps, the loop keeps.\<close>

lemma attempt_loop_keeps:
  assumes "attempt_loop ctx retry silent st = Inr (e, st')" and "P retry silent st"
    and "\<And>retry silent st retry' silent' st'.
      P retry silent st \<Longrightarrow> attempt_pass ctx retry silent st = Again retry' silent' st' \<Longrightarrow>
      P retry' silent' st'"
  shows "\<exists>retry' silent' st0. P retry' silent' st0 \<and> attempt_pass ctx retry' silent' st0 = Ended e st'"
  using assms
proof (induction ctx retry silent st rule: attempt_loop.induct)
  case (1 ctx retry silent st)
  show ?case
  proof (cases "attempt_pass ctx retry silent st")
    case (Again r s st1)
    have "attempt_loop ctx r s st1 = Inr (e, st')"
      using 1(2) Again by (subst (asm) attempt_loop.simps) simp
    moreover have "P r s st1" by (rule 1(4) [OF 1(3) Again])
    ultimately show ?thesis using 1(1) [OF Again] 1(4) by blast
  next
    case (Ended e' st1)
    with 1(2) have "e' = e" "st1 = st'" by (simp_all add: attempt_loop.simps [of ctx retry])
    with 1(3) Ended show ?thesis by blast
  next
    case (Broke x)
    with 1(2) show ?thesis by (simp add: attempt_loop.simps [of ctx retry])
  qed
qed

text \<open>An exception leaves the loop in a pass that some property of the passes still covers.\<close>

lemma attempt_loop_broke:
  assumes "attempt_loop ctx retry silent st = Inl e" and "P retry silent st"
    and "\<And>retry silent st retry' silent' st'.
      P retry silent st \<Longrightarrow> attempt_pass ctx retry silent st = Again retry' silent' st' \<Longrightarrow>
      P retry' silent' st'"
  shows "\<exists>retry' silent' st0. P retry' silent' st0 \<and> attempt_pass ctx retry' silent' st0 = Broke e"
  using assms
proof (induction ctx retry silent st rule: attempt_loop.induct)
  case (1 ctx retry silent st)
  show ?case
  proof (cases "attempt_pass ctx retry silent st")
    case (Again r s st1)
    have "attempt_loop ctx r s st1 = Inl e"
      using 1(2) Again by (subst (asm) attempt_loop.simps) simp
    moreover have "P r s st1" by (rule 1(4) [OF 1(3) Again])
    ultimately show ?thesis using 1(1) [OF Again] 1(4) by blast
  next
    case (Ended e' st1)
    with 1(2) show ?thesis by (simp add: attempt_loop.simps [of ctx retry])
  next
    case (Broke x)
    with 1(2,3) show ?thesis by (auto simp: attempt_loop.simps [of ctx retry])
  qed
qed

lemma attempt_pass_Broke:
  assumes "attempt_pass ctx retry silent st0 = Broke e"
  shows "call_provider ctx st0 = Inl e \<or>
    (\<exists>result st c. call_provider ctx st0 = Inr (result, st) \<and> failover_model ctx result c st = Inl e)"
proof (cases "call_provider ctx st0")
  case (Inl x)
  with assms show ?thesis by (simp add: attempt_pass_def)
next
  case (Inr p)
  obtain result st where p: "p = (result, st)" by (cases p)
  note call = Inr [unfolded p]
  from assms obtain err where err: "ar_error result = Some err"
    using attempt_pass_answered [OF call] by (cases "ar_error result") auto
  define c where "c = classify_api_error (Some err) None [] None None None"
  define sil where "sil \<longleftrightarrow> ev_retryable err \<and> \<not> ar_text_emitted result \<and>
    silent < max_silent_retries (tc_config ctx)"
  note pass = attempt_pass_error [OF call err c_def sil_def, of retry]
  with assms have "\<not> sil" by auto
  with pass assms have "failover_model ctx result c st = Inl e"
    by (cases "failover_model ctx result c st") (auto split: option.splits if_splits)
  with call show ?thesis by blast
qed

end
