(* ===== verification/Turn.thy ===== *)
theory Turn
  imports RunLoop
begin

section \<open>One iteration and the whole turn\<close>

text \<open>
  The second half of \<open>run_agent_turn\<close>: what the loop does with an answer, the iterations up to
  \<open>max_tool_iterations\<close>, and the results of a turn. \<open>turn_loop\<close> is the \<open>for\<close> loop, on the number
  of iterations that are left.
\<close>

subsection \<open>An answer without tools\<close>

definition grow_override :: "'w runtime_config \<Rightarrow> 'w turn_state \<Rightarrow> int" where
  "grow_override cfg st =
    (let base = (case ts_override st of
                   Some n \<Rightarrow> n
                 | None \<Rightarrow> (case rc_max_tokens cfg of
                              Some n \<Rightarrow> n | None \<Rightarrow> max 256 (m_max_output_tokens (ts_model st))));
         grown = py_int (real_of_int base * max 1 (rc_length_recovery_growth cfg))
     in min grown (m_max_output_tokens (ts_model st)))"

definition no_tool_reply :: "'w turn_ctx \<Rightarrow> assistant \<Rightarrow> 'w turn_state \<Rightarrow> 'w step_result" where
  "no_tool_reply ctx msg st =
    (let cfg = tc_config ctx
     in if ts_length_recoveries_used st < rc_length_recovery_attempts cfg \<and> is_length_truncation msg
        then Continue (st\<lparr>ts_length_recoveries_used := ts_length_recoveries_used st + 1,
                          ts_override := Some (grow_override cfg st),
                          ts_appended := butlast (ts_appended st)\<rparr>)
        else
          let st1 = st\<lparr>ts_empty_streak :=
                        (if is_recoverable_empty msg then ts_empty_streak st + 1 else 0)\<rparr>
          in if ts_recoveries_used st1 < rc_stop_reason_recovery_attempts cfg \<and>
                is_recoverable_empty msg
             then Continue (append_message (build_recovery_nudge (am_stop_reason msg))
                    (st1\<lparr>ts_recoveries_used := ts_recoveries_used st1 + 1\<rparr>))
             else finish st1 msg (nonempty_or (am_stop_reason msg) ''end_turn''))"

subsection \<open>An answer with tools\<close>

definition tool_result_message :: "tool_exec list \<Rightarrow> message" where
  "tool_result_message rs = ToolResultMessage (map result_block rs)"

text \<open>The calls as the argument-loop detector sees them, up to the first hit.\<close>

fun observe_calls ::
  "(string \<Rightarrow> string) \<Rightarrow> tool_request list \<Rightarrow> arg_loop \<Rightarrow> bool \<times> arg_loop" where
  "observe_calls sha [] d = (False, d)"
| "observe_calls sha (rq # rqs) d =
    (let (hit, d') = observe sha (tq_name rq)
           (if is_dict (tq_input rq) then Some (tq_input rq) else None) d
     in if hit then (True, d') else observe_calls sha rqs d')"

text \<open>\<open>sorted({r.name for r in results if r.is_error})\<close> and the sorted tool names.\<close>

definition error_names :: "tool_exec list \<Rightarrow> string list" where
  "error_names rs = sort (remdups (map te_name (filter te_is_error rs)))"

definition live_names :: "(string \<times> 'w tool) list \<Rightarrow> string list" where
  "live_names live = sort (map fst live)"

definition reinject_nudge :: "string list \<Rightarrow> string list \<Rightarrow> message" where
  "reinject_nudge unknown names =
    UserMessage (CStr (''You called unknown tool(s) '' @ repr_list unknown @
      ''. The exact registered tool names are: '' @ repr_list names @
      ''. Re-emit the call using ONE of those names exactly as written, or answer in plain language if no tool fits.''))"

definition unknown_abort_text :: "string list \<Rightarrow> int \<Rightarrow> string list \<Rightarrow> string" where
  "unknown_abort_text unknown streak names =
    ''(loop-detection abort: model called unknown tool(s) '' @ repr_list unknown @ '' '' @
    show_int streak @ '' times in a row. Available tools: '' @ repr_list (take 20 names) @ ''...)''"

definition arg_loop_abort_text :: "call_key \<Rightarrow> int \<Rightarrow> string" where
  "arg_loop_abort_text key streak =
    ''(loop-detection abort: tool '' @ repr_str (fst key) @
    '' called with the same arguments (digest='' @ snd key @ '') '' @ show_int streak @
    '' times in a row. Vary the arguments or answer from existing context.)''"

definition loop_abort :: "tool_exec list \<Rightarrow> string \<Rightarrow> 'w turn_state \<Rightarrow> 'w step_result" where
  "loop_abort results txt st =
    (let msg = assistant_text txt (Some ''loop_detection'')
     in finish (append_message (AssistantMessage msg)
                 (append_message (tool_result_message results) st)) msg ''loop_detection'')"

definition unknown_streak :: "tool_exec list \<Rightarrow> int \<Rightarrow> int" where
  "unknown_streak results streak =
    (let unknown_in_iter = length (filter is_unknown_tool results)
     in if unknown_in_iter \<noteq> 0 \<and> unknown_in_iter = length results then streak + 1 else 0)"

text \<open>After the tools ran: unknown-tool detection, then argument-loop detection.\<close>

definition after_tools ::
  "'w turn_ctx \<Rightarrow> tool_request list \<Rightarrow> tool_exec list \<Rightarrow> 'w turn_state \<Rightarrow> 'w step_result" where
  "after_tools ctx requests results st0 =
    (let cfg = tc_config ctx;
         names = live_names (tools_by_name (tc_tools ctx));
         st = st0\<lparr>ts_executions := ts_executions st0 @ results,
                  ts_unknown_streak := unknown_streak results (ts_unknown_streak st0)\<rparr>
     in if rc_unknown_tool_threshold cfg \<le> ts_unknown_streak st
        then if \<not> ts_reinject_used st
             then Continue (append_message (reinject_nudge (error_names results) names)
                    (append_message (tool_result_message results)
                      (st\<lparr>ts_reinject_used := True, ts_unknown_streak := 0\<rparr>)))
             else loop_abort results
                    (unknown_abort_text (error_names results) (ts_unknown_streak st) names) st
        else
          let (hit, d) = observe_calls (env_sha (tc_env ctx)) requests (ts_arg_loop st);
              st1 = st\<lparr>ts_arg_loop := d\<rparr>
          in case (if hit then al_last_key d else None) of
               Some key \<Rightarrow> loop_abort results (arg_loop_abort_text key (al_streak d)) st1
             | None \<Rightarrow> Continue (append_message (tool_result_message results) st1))"

definition tool_reply :: "'w turn_ctx \<Rightarrow> tool_request list \<Rightarrow> 'w turn_state \<Rightarrow> 'w step_result" where
  "tool_reply ctx requests st =
    (let cfg = tc_config ctx;
         (raw, w) = run_tools (rc_hook_runner cfg) (rc_hook_context cfg)
           (tools_by_name (tc_tools ctx)) requests (ts_world st);
         capped = cap_results (rc_tool_policy cfg) (ts_model st) raw
     in case persist_results (env_write_fails (tc_env ctx)) (rc_tool_result_storage_dir cfg)
               capped (ts_disk st) of
          Inl e \<Rightarrow> Raised e
        | Inr (results, d) \<Rightarrow> after_tools ctx requests results (st\<lparr>ts_world := w, ts_disk := d\<rparr>))"

definition handle_answer :: "'w turn_ctx \<Rightarrow> attempt_result \<Rightarrow> 'w turn_state \<Rightarrow> 'w step_result" where
  "handle_answer ctx result st =
    (let msg = ar_message result;
         st1 = append_message (AssistantMessage msg)
           (st\<lparr>ts_usage_total := accumulate_usage (ts_usage_total st) (ar_usage result)\<rparr>);
         requests = tool_requests msg
     in if requests = [] \<or> am_stop_reason msg \<notin> {Some ''tool_use'', Some ''tool_calls''}
        then no_tool_reply ctx msg st1
        else tool_reply ctx requests st1)"

subsection \<open>The loop\<close>

definition iteration :: "'w turn_ctx \<Rightarrow> 'w turn_state \<Rightarrow> 'w step_result" where
  "iteration ctx st =
    (if env_aborted (tc_env ctx) (ts_world st) then abort_reply st
     else case preemptive_compaction ctx st of
            Inl e \<Rightarrow> Raised e
          | Inr st1 \<Rightarrow>
             (case attempt_loop ctx 0 0 st1 of
                Inl e \<Rightarrow> Raised e
              | Inr (CompressBreak, st2) \<Rightarrow> Continue st2
              | Inr (Terminal result, st2) \<Rightarrow>
                  finish (append_message (AssistantMessage (ar_message result)) st2)
                    (ar_message result) ''error''
              | Inr (Answered result, st2) \<Rightarrow> handle_answer ctx result st2))"

definition cap_reply :: "'w turn_ctx \<Rightarrow> 'w turn_state \<Rightarrow> 'w step_result" where
  "cap_reply ctx st =
    (let msg = assistant_text ''(stopped: reached max tool iterations without a final answer)''
                 (Some ''iteration_cap'')
     in finish (if rc_soft_iteration_cap (tc_config ctx)
                then append_message (AssistantMessage msg) st else st) msg ''iteration_cap'')"

fun turn_loop :: "'w turn_ctx \<Rightarrow> nat \<Rightarrow> 'w turn_state \<Rightarrow> 'w step_result" where
  "turn_loop ctx 0 st = cap_reply ctx st"
| "turn_loop ctx (Suc n) st =
    (case iteration ctx st of Continue st' \<Rightarrow> turn_loop ctx n st' | r \<Rightarrow> r)"

definition initial_state :: "model \<Rightarrow> message list \<Rightarrow> 'w runtime_config \<Rightarrow> disk \<Rightarrow> 'w \<Rightarrow> 'w turn_state" where
  "initial_state m history cfg d w =
    \<lparr>ts_history = history, ts_appended = [], ts_attempts = [], ts_executions = [],
     ts_usage_total = [], ts_unknown_streak = 0, ts_reinject_used = False,
     ts_arg_loop = arg_loop_new (rc_arg_loop_threshold cfg), ts_recoveries_used = 0,
     ts_length_recoveries_used = 0, ts_override = None, ts_overload_attempts = 0,
     ts_self_heals = 0, ts_cursor = 0, ts_empty_streak = 0, ts_cycles_used = 0, ts_model = m,
     ts_extra_params = rc_extra_params cfg, ts_disk = d, ts_world = w\<rparr>"

definition turn_context ::
  "'w environment \<Rightarrow> model \<Rightarrow> string \<Rightarrow> string option \<Rightarrow> 'w tool list \<Rightarrow> 'w runtime_config \<Rightarrow>
   'w turn_ctx" where
  "turn_context env m api system tools cfg =
    \<lparr>tc_env = env, tc_config = cfg, tc_system = system, tc_api = api,
     tc_tools = (case rc_tool_policy cfg of None \<Rightarrow> tools | Some p \<Rightarrow> resolve_policy p tools),
     tc_chain = m_id m # rc_failover_chain cfg\<rparr>"

definition run_agent_turn ::
  "'w environment \<Rightarrow> model \<Rightarrow> string \<Rightarrow> string option \<Rightarrow> message list \<Rightarrow> 'w tool list \<Rightarrow>
   'w runtime_config \<Rightarrow> disk \<Rightarrow> 'w \<Rightarrow> 'w step_result" where
  "run_agent_turn env m api system history tools cfg d w =
    turn_loop (turn_context env m api system tools cfg) (nat (rc_max_tool_iterations cfg))
      (initial_state m history cfg d w)"

end
