(* ===== verification/TurnInv.thy ===== *)
theory TurnInv
  imports Turn
begin

section \<open>Invariants of a turn\<close>

text \<open>
  The iterations of a turn as a step relation (\<open>turn_reaches\<close>), and the interface through which an
  invariant of the turn is proved: the locale \<open>turn_invariant\<close> asks that each stage of an iteration
  keeps it, and gives that the retry loop and every reachable state have it. Its interpretations
  are the failover position, the budgets of the recoveries, the pairing of tool calls with their
  results, and the frame of the caller's history.
\<close>

subsection \<open>Reachable states\<close>

inductive turn_reaches :: "'w turn_ctx \<Rightarrow> 'w turn_state \<Rightarrow> nat \<Rightarrow> 'w turn_state \<Rightarrow> bool"
  for ctx :: "'w turn_ctx" and st0 :: "'w turn_state" where
  start: "turn_reaches ctx st0 0 st0"
| step: "turn_reaches ctx st0 n st \<Longrightarrow> iteration ctx st = Continue st' \<Longrightarrow>
    turn_reaches ctx st0 (Suc n) st'"

inductive_simps turn_reaches_0: "turn_reaches ctx st0 0 st"
inductive_cases turn_reaches_SucE: "turn_reaches ctx st0 (Suc n) st"

lemma turn_reaches_first:
  assumes "iteration ctx st0 = Continue st1" and "turn_reaches ctx st1 n st"
  shows "turn_reaches ctx st0 (Suc n) st"
  using assms(2)
proof (induction rule: turn_reaches.induct)
  case start
  show ?case by (rule step [OF turn_reaches.start assms(1)])
next
  case (step n st st')
  show ?case by (rule turn_reaches.step [OF step.IH step.hyps(2)])
qed

text \<open>How a turn ends: in an iteration of a reachable state, or at the cap.\<close>

lemma turn_loop_end:
  "\<exists>k st. k \<le> n \<and> turn_reaches ctx st0 k st \<and>
     (if k = n then turn_loop ctx n st0 = cap_reply ctx st
      else turn_loop ctx n st0 = iteration ctx st \<and> (\<forall>st'. iteration ctx st \<noteq> Continue st'))"
proof (induction n arbitrary: st0)
  case 0
  show ?case by (auto intro: start)
next
  case (Suc n)
  show ?case
  proof (cases "iteration ctx st0")
    case (Continue st1)
    from Suc.IH [of st1] obtain k st where k: "k \<le> n" "turn_reaches ctx st1 k st"
      and e: "if k = n then turn_loop ctx n st1 = cap_reply ctx st
        else turn_loop ctx n st1 = iteration ctx st \<and> (\<forall>st'. iteration ctx st \<noteq> Continue st')"
      by blast
    have "turn_reaches ctx st0 (Suc k) st" by (rule turn_reaches_first [OF Continue k(2)])
    with k e Continue show ?thesis by (intro exI [of _ "Suc k"] exI [of _ st]) auto
  next
    case (Finished r st)
    then show ?thesis by (intro exI [of _ 0] exI [of _ st0]) (auto intro: start)
  next
    case (Raised e)
    then show ?thesis by (intro exI [of _ 0] exI [of _ st0]) (auto intro: start)
  qed
qed

lemma iteration_Continue:
  assumes "iteration ctx st = Continue st'"
  obtains st1 where "preemptive_compaction ctx st = Inr st1"
      "attempt_loop ctx 0 0 st1 = Inr (CompressBreak, st')"
  | st1 result st2 where "preemptive_compaction ctx st = Inr st1"
      "attempt_loop ctx 0 0 st1 = Inr (Answered result, st2)"
      "handle_answer ctx result st2 = Continue st'"
  using assms
  by (auto simp: iteration_def abort_reply_def finish_def Let_def
      split: if_splits sum.splits prod.splits attempt_end.splits list.splits)

subsection \<open>The interface\<close>

locale turn_invariant =
  fixes ctx :: "'w turn_ctx"
    and Inv :: "'w turn_state \<Rightarrow> bool"
  assumes inv_truncate: "Inv st \<Longrightarrow> truncate_working st = Inr st' \<Longrightarrow> Inv st'"
    and inv_call: "Inv st \<Longrightarrow> call_provider ctx st = Inr (result, st') \<Longrightarrow> Inv st'"
    and inv_sleep: "Inv st \<Longrightarrow> Inv (retry_sleep ctx n ra st)"
    and inv_switch: "Inv st \<Longrightarrow> failover_model ctx result c st = Inr (Some (m, k)) \<Longrightarrow>
      Inv (switch_model ctx c m k st)"
    and inv_compress: "Inv st \<Longrightarrow> compress_then_retry ctx c st \<Longrightarrow>
      Inv (record_long_context_tier msg (st\<lparr>ts_self_heals := ts_self_heals st + 1\<rparr>))"
    and inv_answer: "Inv st \<Longrightarrow> handle_answer ctx result st = Continue st' \<Longrightarrow> Inv st'"
begin

lemma inv_preemptive: "Inv st \<Longrightarrow> preemptive_compaction ctx st = Inr st' \<Longrightarrow> Inv st'"
  using inv_truncate
  by (auto simp: preemptive_compaction_def Let_def split: if_splits compaction_route.splits)

lemma inv_pass:
  assumes "Inv st" and "attempt_pass ctx r s st = Again r' s' st'"
  shows "Inv st'"
  using assms(2)
proof (cases rule: attempt_pass_Again)
  case (silent result st1 err)
  then show ?thesis using inv_sleep inv_call [OF assms(1)] by simp
next
  case (failover result st1 err m c)
  then show ?thesis using inv_switch inv_call [OF assms(1)] by simp
next
  case (retry result st1 err ra)
  then show ?thesis using inv_sleep inv_call [OF assms(1)] by simp
qed

lemma inv_ended:
  assumes "Inv st" and "attempt_pass ctx r s st = Ended e st'"
  shows "Inv st'"
  using assms(2)
proof (cases rule: attempt_pass_Ended)
  case (answered result)
  then show ?thesis using inv_call [OF assms(1)] by simp
next
  case (compress result st1 err msg)
  then show ?thesis using inv_compress inv_call [OF assms(1)] by simp
next
  case (terminal result err)
  then show ?thesis using inv_call [OF assms(1)] by simp
qed

lemma inv_attempts:
  assumes "Inv st" and "attempt_loop ctx r s st = Inr (e, st')"
  shows "Inv st'"
proof -
  obtain r' s' st0 where "Inv st0" and "attempt_pass ctx r' s' st0 = Ended e st'"
    using attempt_loop_keeps [OF assms(2), of "\<lambda>_ _. Inv"] assms(1) inv_pass by blast
  then show ?thesis by (rule inv_ended)
qed

lemma inv_iteration:
  assumes "Inv st" and "iteration ctx st = Continue st'"
  shows "Inv st'"
  using assms(2)
proof (cases rule: iteration_Continue)
  case (1 st1)
  then show ?thesis using inv_attempts inv_preemptive [OF assms(1)] by blast
next
  case (2 st1 result st2)
  then show ?thesis using inv_answer inv_attempts inv_preemptive [OF assms(1)] by blast
qed

lemma inv_reached: "turn_reaches ctx st0 n st \<Longrightarrow> Inv st0 \<Longrightarrow> Inv st"
  by (induction n st rule: turn_reaches.induct) (auto intro: inv_iteration)

text \<open>The state in which an answer is handled, and the state behind a final result.\<close>

lemma inv_before_end:
  assumes "Inv st0" and "turn_loop ctx n st0 = Finished r st'"
  obtains (abort) st where "Inv st" "abort_reply st = Finished r st'"
  | (cap) st where "Inv st" "cap_reply ctx st = Finished r st'"
  | (terminal) st and result :: attempt_result where "Inv st"
      "finish (append_message (AssistantMessage (ar_message result)) st) (ar_message result)
         ''error'' = Finished r st'"
  | (answer) st result where "Inv st" "handle_answer ctx result st = Finished r st'"
proof -
  obtain k st where reach: "turn_reaches ctx st0 k st"
    and e: "if k = n then turn_loop ctx n st0 = cap_reply ctx st
      else turn_loop ctx n st0 = iteration ctx st \<and> (\<forall>st'. iteration ctx st \<noteq> Continue st')"
    using turn_loop_end [of n ctx st0] by blast
  have st: "Inv st" by (rule inv_reached [OF reach assms(1)])
  show thesis
  proof (cases "k = n")
    case True
    with e assms(2) st show thesis by (intro cap) auto
  next
    case False
    with e assms(2) have it: "iteration ctx st = Finished r st'" by auto
    show thesis
    proof (cases "env_aborted (tc_env ctx) (ts_world st)")
      case True
      with it st show thesis by (intro abort) (auto simp: iteration_def)
    next
      case False
      then obtain st1 e st2 where p: "preemptive_compaction ctx st = Inr st1"
        and a: "attempt_loop ctx 0 0 st1 = Inr (e, st2)"
        using it by (auto simp: iteration_def split: sum.splits prod.splits)
      have st2: "Inv st2" using inv_attempts [OF inv_preemptive [OF st p] a] .
      show thesis
      proof (cases e)
        case (Answered result)
        with it False p a show thesis by (intro answer [OF st2]) (simp add: iteration_def)
      next
        case CompressBreak
        with it False p a show thesis by (simp add: iteration_def)
      next
        case (Terminal result)
        with it False p a show thesis by (intro terminal [OF st2, of result]) (simp add: iteration_def)
      qed
    qed
  qed
qed

end

subsection \<open>What each stage changes\<close>

lemma truncate_working_effect:
  assumes "truncate_working st = Inr st'"
  obtains ms n where "truncate_tool_results 1024 (working st) = Inr (ms, n)"
    "st' = st\<lparr>ts_history := take (length (ts_history st)) ms,
              ts_appended := drop (length (ts_history st)) ms\<rparr>"
  using assms by (auto simp: truncate_working_def bind_err_Inr Let_def)

lemma call_provider_effect:
  assumes "call_provider ctx st = Inr (result, st')"
  obtains w where "st' = st\<lparr>ts_attempts := ts_attempts st @ [result], ts_world := w\<rparr>"
  using assms by (auto simp: call_provider_def bind_err_Inr)

lemma retry_sleep_effect:
  obtains w where "retry_sleep ctx n ra st = st\<lparr>ts_world := w\<rparr>"
  by (simp add: retry_sleep_def sleep_for_def)

lemma switch_model_effect:
  obtains w n where "switch_model ctx c m k st =
    st\<lparr>ts_cycles_used := (if k < ts_cursor st then ts_cycles_used st + 1 else ts_cycles_used st),
       ts_overload_attempts := n, ts_world := w, ts_model := m, ts_cursor := k,
       ts_empty_streak := 0\<rparr>"
  by (rule that [of "ts_world (switch_model ctx c m k st)"
        "ts_overload_attempts (switch_model ctx c m k st)"])
     (simp add: switch_model_def sleep_for_def Let_def)

lemma record_tier_effect:
  obtains ep where "record_long_context_tier msg st = st\<lparr>ts_extra_params := ep\<rparr>"
  by (rule that [of "ts_extra_params (record_long_context_tier msg st)"])
     (simp add: record_long_context_tier_def Let_def)

lemma no_tool_reply_Continue:
  assumes "no_tool_reply ctx msg st = Continue st'"
  obtains
    (length) "ts_length_recoveries_used st < rc_length_recovery_attempts (tc_config ctx)"
      "is_length_truncation msg"
      "st' = st\<lparr>ts_length_recoveries_used := ts_length_recoveries_used st + 1,
                ts_override := Some (grow_override (tc_config ctx) st),
                ts_appended := butlast (ts_appended st)\<rparr>"
  | (nudge) "ts_recoveries_used st < rc_stop_reason_recovery_attempts (tc_config ctx)"
      "is_recoverable_empty msg"
      "st' = st\<lparr>ts_empty_streak := ts_empty_streak st + 1,
                ts_recoveries_used := ts_recoveries_used st + 1,
                ts_appended := ts_appended st @ [build_recovery_nudge (am_stop_reason msg)]\<rparr>"
  using assms
  by (auto simp: no_tool_reply_def Let_def finish_def append_message_def split: if_splits)

lemma observe_calls_threshold:
  "al_threshold (snd (observe_calls sha rqs d)) = al_threshold d"
  by (induction rqs arbitrary: d) (auto simp: Let_def case_prod_beta observe_threshold)

lemma after_tools_Continue:
  assumes "after_tools ctx requests results st = Continue st'"
  obtains d u re more where "al_threshold d = al_threshold (ts_arg_loop st)"
    "list_all is_user more"
    "st' = st\<lparr>ts_executions := ts_executions st @ results, ts_unknown_streak := u,
              ts_reinject_used := re, ts_arg_loop := d,
              ts_appended := ts_appended st @ tool_result_message results # more\<rparr>"
proof -
  let ?u = "unknown_streak results (ts_unknown_streak st)"
  let ?loop = "rc_unknown_tool_threshold (tc_config ctx) \<le> ?u"
  obtain hit d where obs: "observe_calls (env_sha (tc_env ctx)) requests (ts_arg_loop st) = (hit, d)"
    by (cases "observe_calls (env_sha (tc_env ctx)) requests (ts_arg_loop st)")
  have thr: "al_threshold d = al_threshold (ts_arg_loop st)"
    using observe_calls_threshold [of "env_sha (tc_env ctx)" requests "ts_arg_loop st"] obs by simp
  show thesis
  proof (cases ?loop)
    case True
    let ?names = "live_names (tools_by_name (tc_tools ctx))"
    have "\<not> ts_reinject_used st"
      using assms True by (auto simp: after_tools_def Let_def loop_abort_def finish_def)
    with assms True have "st' = st\<lparr>ts_executions := ts_executions st @ results, ts_unknown_streak := 0,
        ts_reinject_used := True, ts_arg_loop := ts_arg_loop st,
        ts_appended := ts_appended st @ tool_result_message results #
          [reinject_nudge (error_names results) ?names]\<rparr>"
      by (auto simp: after_tools_def Let_def append_message_def)
    then show thesis by (rule that [OF refl, rotated]) (simp add: reinject_nudge_def)
  next
    case False
    have "(if hit then al_last_key d else None) = None"
      using assms False obs
      by (auto simp: after_tools_def Let_def loop_abort_def finish_def split: option.splits if_splits)
    with assms False obs have "st' = st\<lparr>ts_executions := ts_executions st @ results,
        ts_unknown_streak := ?u, ts_reinject_used := ts_reinject_used st, ts_arg_loop := d,
        ts_appended := ts_appended st @ tool_result_message results # []\<rparr>"
      by (auto simp: after_tools_def Let_def append_message_def)
    then show thesis by (rule that [OF thr, rotated]) simp
  qed
qed

lemma tool_reply_Continue:
  assumes "tool_reply ctx requests st = Continue st'"
  obtains raw results w d where
    "run_tools (rc_hook_runner (tc_config ctx)) (rc_hook_context (tc_config ctx))
       (tools_by_name (tc_tools ctx)) requests (ts_world st) = (raw, w)"
    "persist_results (env_write_fails (tc_env ctx)) (rc_tool_result_storage_dir (tc_config ctx))
       (cap_results (rc_tool_policy (tc_config ctx)) (ts_model st) raw) (ts_disk st) =
       Inr (results, d)"
    "after_tools ctx requests results (st\<lparr>ts_world := w, ts_disk := d\<rparr>) = Continue st'"
  using assms by (auto simp: tool_reply_def Let_def split: prod.splits sum.splits)

definition calls_tools :: "assistant \<Rightarrow> bool" where
  "calls_tools a \<longleftrightarrow>
     tool_uses a \<noteq> [] \<and> am_stop_reason a \<in> {Some ''tool_use'', Some ''tool_calls''}"

lemma handle_answer_split:
  "handle_answer ctx result st =
    (let msg = ar_message result;
         st1 = st\<lparr>ts_usage_total := accumulate_usage (ts_usage_total st) (ar_usage result),
                  ts_appended := ts_appended st @ [AssistantMessage msg]\<rparr>
     in if calls_tools msg then tool_reply ctx (tool_requests msg) st1
        else no_tool_reply ctx msg st1)"
  by (simp add: handle_answer_def append_message_def calls_tools_def tool_requests_Nil Let_def)

lemma grow_override_frame [simp]:
  "grow_override cfg (st\<lparr>ts_usage_total := u, ts_appended := a\<rparr>) = grow_override cfg st"
  by (simp add: grow_override_def split: option.split)

lemma handle_answer_Continue:
  assumes "handle_answer ctx result st = Continue st'"
  obtains
    (length) u where
      "ts_length_recoveries_used st < rc_length_recovery_attempts (tc_config ctx)"
      "is_length_truncation (ar_message result)"
      "st' = st\<lparr>ts_usage_total := u, ts_length_recoveries_used := ts_length_recoveries_used st + 1,
                ts_override := Some (grow_override (tc_config ctx) st)\<rparr>"
  | (nudge) u where
      "ts_recoveries_used st < rc_stop_reason_recovery_attempts (tc_config ctx)"
      "is_recoverable_empty (ar_message result)" "\<not> calls_tools (ar_message result)"
      "st' = st\<lparr>ts_usage_total := u, ts_empty_streak := ts_empty_streak st + 1,
                ts_recoveries_used := ts_recoveries_used st + 1,
                ts_appended := ts_appended st @ [AssistantMessage (ar_message result),
                  build_recovery_nudge (am_stop_reason (ar_message result))]\<rparr>"
  | (tools) u raw results w d al us re more where "calls_tools (ar_message result)"
      "run_tools (rc_hook_runner (tc_config ctx)) (rc_hook_context (tc_config ctx))
         (tools_by_name (tc_tools ctx)) (tool_requests (ar_message result)) (ts_world st) = (raw, w)"
      "persist_results (env_write_fails (tc_env ctx)) (rc_tool_result_storage_dir (tc_config ctx))
         (cap_results (rc_tool_policy (tc_config ctx)) (ts_model st) raw) (ts_disk st) =
         Inr (results, d)"
      "al_threshold al = al_threshold (ts_arg_loop st)" "list_all is_user more"
      "st' = st\<lparr>ts_usage_total := u, ts_world := w, ts_disk := d,
                ts_executions := ts_executions st @ results, ts_unknown_streak := us,
                ts_reinject_used := re, ts_arg_loop := al,
                ts_appended := ts_appended st @
                  AssistantMessage (ar_message result) # tool_result_message results # more\<rparr>"
proof -
  let ?msg = "ar_message result"
  let ?u = "accumulate_usage (ts_usage_total st) (ar_usage result)"
  let ?st1 = "st\<lparr>ts_usage_total := ?u, ts_appended := ts_appended st @ [AssistantMessage ?msg]\<rparr>"
  show thesis
  proof (cases "calls_tools ?msg")
    case False
    then have "no_tool_reply ctx ?msg ?st1 = Continue st'"
      using assms by (simp add: handle_answer_split Let_def)
    then show thesis
    proof (cases rule: no_tool_reply_Continue)
      case length
      then show thesis
        by (intro that(1) [of ?u]) auto
    next
      case nudge
      with False show thesis by (intro that(2) [of ?u]) auto
    qed
  next
    case True
    then have "tool_reply ctx (tool_requests ?msg) ?st1 = Continue st'"
      using assms by (simp add: handle_answer_split Let_def)
    then obtain raw results w d where run:
      "run_tools (rc_hook_runner (tc_config ctx)) (rc_hook_context (tc_config ctx))
         (tools_by_name (tc_tools ctx)) (tool_requests ?msg) (ts_world st) = (raw, w)"
      "persist_results (env_write_fails (tc_env ctx)) (rc_tool_result_storage_dir (tc_config ctx))
         (cap_results (rc_tool_policy (tc_config ctx)) (ts_model st) raw) (ts_disk st) =
         Inr (results, d)"
      and after: "after_tools ctx (tool_requests ?msg) results (?st1\<lparr>ts_world := w, ts_disk := d\<rparr>) =
        Continue st'"
      by (rule tool_reply_Continue) simp
    show thesis
      by (rule after_tools_Continue [OF after], rule that(3) [OF True run]) auto
  qed
qed

subsection \<open>The failover position\<close>

definition position_ok :: "'w turn_ctx \<Rightarrow> model \<Rightarrow> 'w turn_state \<Rightarrow> bool" where
  "position_ok ctx m0 st \<longleftrightarrow>
     ts_cursor st < length (tc_chain ctx) \<and>
     ts_cycles_used st \<le> length (tc_chain ctx) \<and>
     (\<not> rc_failover_cycle (tc_config ctx) \<longrightarrow> ts_cycles_used st = 0) \<and>
     (ts_model st = m0 \<and> ts_cursor st = 0 \<or>
      (\<exists>reg. rc_failover_registry (tc_config ctx) = Some reg \<and>
         reg (tc_chain ctx ! ts_cursor st) = Some (ts_model st)))"

text \<open>The failover of the loop is a step of the walk that the failover theory bounds.\<close>

lemma failover_model_advance:
  assumes "failover_model ctx result c st = Inr (Some (m, k))"
  obtains reg where "rc_failover_registry (tc_config ctx) = Some reg"
    "failover_advance (tc_chain ctx) reg (rc_failover_cycle (tc_config ctx))
       (ts_cursor st, ts_cycles_used st) =
       Some (k, if k < ts_cursor st then ts_cycles_used st + 1 else ts_cycles_used st)"
    "resolve_next_model (tc_chain ctx) (ts_cursor st) reg (rc_failover_cycle (tc_config ctx))
      (ts_cycles_used st) = Inr (Some m, k)"
  using failover_model_resolved [OF assms] that by (auto simp: failover_advance_def)

lemma position_switch:
  assumes "position_ok ctx m0 st" and "failover_model ctx result c st = Inr (Some (m, k))"
  shows "position_ok ctx m0 (switch_model ctx c m k st)"
proof -
  obtain reg where reg: "rc_failover_registry (tc_config ctx) = Some reg"
    and res: "resolve_next_model (tc_chain ctx) (ts_cursor st) reg
      (rc_failover_cycle (tc_config ctx)) (ts_cycles_used st) = Inr (Some m, k)"
    by (rule failover_model_advance [OF assms(2)])
  have "ts_cursor st < length (tc_chain ctx)" using assms(1) by (simp add: position_ok_def)
  note facts = resolve_next_Some [OF res this]
  obtain w n where "switch_model ctx c m k st =
    st\<lparr>ts_cycles_used := (if k < ts_cursor st then ts_cycles_used st + 1 else ts_cycles_used st),
       ts_overload_attempts := n, ts_world := w, ts_model := m, ts_cursor := k,
       ts_empty_streak := 0\<rparr>"
    by (rule switch_model_effect)
  with assms(1) reg facts show ?thesis by (auto simp: position_ok_def)
qed

interpretation position: turn_invariant ctx "position_ok ctx m0" for ctx m0
proof (unfold_locales, goal_cases)
  case (1 st st')
  then show ?case by (auto elim!: truncate_working_effect simp: position_ok_def)
next
  case (2 st result st')
  then show ?case by (auto elim!: call_provider_effect simp: position_ok_def)
next
  case (3 st n ra)
  then show ?case by (auto intro: retry_sleep_effect [of ctx n ra st] simp: position_ok_def)
next
  case (4 st result c m k)
  then show ?case by (rule position_switch)
next
  case (5 st c msg)
  then show ?case
    by (rule_tac record_tier_effect [of msg "st\<lparr>ts_self_heals := ts_self_heals st + 1\<rparr>"])
       (simp add: position_ok_def)
next
  case (6 st result st')
  from 6(2) show ?case by (rule handle_answer_Continue) (use 6(1) in \<open>auto simp: position_ok_def\<close>)
qed

end
