(* ===== verification/TurnProps.thy ===== *)
theory TurnProps
  imports TurnInv
begin

section \<open>What a turn guarantees\<close>

text \<open>
  Three more interpretations of \<open>turn_invariant\<close> (the budgets of the recoveries, the pairing of
  tool calls with results, the frame of the messages), the count of provider calls, and the
  exceptions that can leave a turn.
\<close>

subsection \<open>Frames\<close>

lemma same_frame_trans: "same_frame a b \<Longrightarrow> same_frame b c \<Longrightarrow> same_frame a c"
  by (simp add: same_frame_def)

lemma same_message_frame_refl [simp]: "same_message_frame m m"
  by (cases m) (auto simp: same_frame_def list_all2_refl)

lemma same_frames_trans:
  "list_all2 same_frame as bs \<Longrightarrow> list_all2 same_frame bs cs \<Longrightarrow> list_all2 same_frame as cs"
  by (rule list_all2_trans) (rule same_frame_trans)

lemma same_message_frame_trans:
  "same_message_frame a b \<Longrightarrow> same_message_frame b c \<Longrightarrow> same_message_frame a c"
  by (cases a) (auto elim!: same_frames_trans)

lemma frames_trans:
  "list_all2 same_message_frame as bs \<Longrightarrow> list_all2 same_message_frame bs cs \<Longrightarrow>
   list_all2 same_message_frame as cs"
  by (rule list_all2_trans) (rule same_message_frame_trans)

text \<open>Truncation keeps the frames of the history and of the appended messages.\<close>

lemma truncate_working_frames:
  assumes "truncate_working st = Inr st'"
  shows "list_all2 same_message_frame (ts_history st) (ts_history st') \<and>
         list_all2 same_message_frame (ts_appended st) (ts_appended st')"
proof -
  obtain ms n where t: "truncate_tool_results 1024 (working st) = Inr (ms, n)"
    and st': "st' = st\<lparr>ts_history := take (length (ts_history st)) ms,
              ts_appended := drop (length (ts_history st)) ms\<rparr>"
    by (rule truncate_working_effect [OF assms])
  have f: "list_all2 same_message_frame (ts_history st @ ts_appended st) ms"
    using truncate_results_frame [OF t] by (simp add: working_def)
  show ?thesis
    using list_all2_takeI [OF f, of "length (ts_history st)"]
      list_all2_dropI [OF f, of "length (ts_history st)"]
    by (simp add: st')
qed

text \<open>Truncating again changes nothing, so the history is the caller's, or the caller's truncated once.\<close>

definition history_kept :: "message list \<Rightarrow> 'w turn_state \<Rightarrow> bool" where
  "history_kept h0 st \<longleftrightarrow>
    ts_history st = h0 \<or> (\<exists>n. truncate_tool_results 1024 h0 = Inr (ts_history st, n))"

lemma truncate_working_history:
  assumes "truncate_working st = Inr st'"
  shows "\<exists>n. truncate_tool_results 1024 (ts_history st) = Inr (ts_history st', n)"
proof -
  obtain ms n where "truncate_tool_results 1024 (ts_history st @ ts_appended st) = Inr (ms, n)"
    and st': "ts_history st' = take (length (ts_history st)) ms"
    by (rule truncate_working_effect [OF assms]) (auto simp: working_def)
  then obtain hs a ps b where g: "truncate_tool_results 1024 (ts_history st) = Inr (hs, a)" "ms = hs @ ps"
    unfolding truncate_tool_results_def by (auto dest!: gather_append)
  then have "length hs = length (ts_history st)"
    by (auto dest!: truncate_results_frame list_all2_lengthD)
  with g st' show ?thesis by auto
qed

lemma history_kept_truncate:
  assumes "history_kept h0 st" and "truncate_working st = Inr st'"
  shows "history_kept h0 st'"
proof -
  obtain n where t: "truncate_tool_results 1024 (ts_history st) = Inr (ts_history st', n)"
    using truncate_working_history [OF assms(2)] by blast
  from assms(1) consider "ts_history st = h0" | m where "truncate_tool_results 1024 h0 = Inr (ts_history st, m)"
    by (auto simp: history_kept_def)
  then show ?thesis
  proof cases
    case 1
    with t show ?thesis by (auto simp: history_kept_def)
  next
    case 2
    from truncate_results_again [OF 2] t have "ts_history st' = ts_history st" by simp
    with 2 show ?thesis by (simp add: history_kept_def)
  qed
qed

lemma history_kept_frames: "history_kept h0 st \<Longrightarrow> list_all2 same_message_frame h0 (ts_history st)"
  by (auto simp: history_kept_def list_all2_refl dest: truncate_results_frame)

text \<open>The other stages leave the history alone.\<close>

lemma history_stages:
  "call_provider ctx st = Inr (result, st') \<Longrightarrow> ts_history st' = ts_history st"
  "ts_history (retry_sleep ctx n ra st) = ts_history st"
  "ts_history (switch_model ctx c m k st) = ts_history st"
  "ts_history (record_long_context_tier msg st) = ts_history st"
  "handle_answer ctx result st = Continue st' \<Longrightarrow> ts_history st' = ts_history st"
proof -
  show "call_provider ctx st = Inr (result, st') \<Longrightarrow> ts_history st' = ts_history st"
    by (erule call_provider_effect) simp
  show "ts_history (retry_sleep ctx n ra st) = ts_history st"
    by (rule retry_sleep_effect [of ctx n ra st]) simp
  show "ts_history (switch_model ctx c m k st) = ts_history st"
    by (rule switch_model_effect [of ctx c m k st]) simp
  show "ts_history (record_long_context_tier msg st) = ts_history st"
    by (rule record_tier_effect [of msg st]) simp
  show "handle_answer ctx result st = Continue st' \<Longrightarrow> ts_history st' = ts_history st"
    by (erule handle_answer_Continue) auto
qed

interpretation history: turn_invariant ctx "history_kept h0" for ctx h0
proof (unfold_locales, goal_cases)
  case (1 st st')
  then show ?case by (rule history_kept_truncate)
qed (auto simp: history_kept_def history_stages)

subsection \<open>Budgets\<close>

definition budgets_ok :: "'w turn_ctx \<Rightarrow> 'w turn_state \<Rightarrow> bool" where
  "budgets_ok ctx st \<longleftrightarrow>
     (let cfg = tc_config ctx
      in 0 \<le> ts_self_heals st \<and> ts_self_heals st \<le> max_self_heals cfg \<and>
         0 \<le> ts_recoveries_used st \<and>
         ts_recoveries_used st \<le> max 0 (rc_stop_reason_recovery_attempts cfg) \<and>
         0 \<le> ts_length_recoveries_used st \<and>
         ts_length_recoveries_used st \<le> max 0 (rc_length_recovery_attempts cfg) \<and>
         al_threshold (ts_arg_loop st) = rc_arg_loop_threshold cfg)"

interpretation budgets: turn_invariant ctx "budgets_ok ctx" for ctx
proof (unfold_locales, goal_cases)
  case (1 st st')
  then show ?case by (auto elim!: truncate_working_effect simp: budgets_ok_def)
next
  case (2 st result st')
  then show ?case by (auto elim!: call_provider_effect simp: budgets_ok_def)
next
  case (3 st n ra)
  then show ?case by (auto intro: retry_sleep_effect [of ctx n ra st] simp: budgets_ok_def)
next
  case (4 st result c m k)
  then show ?case
    by (rule_tac switch_model_effect [of ctx c m k st]) (simp add: budgets_ok_def)
next
  case (5 st c msg)
  then have "ts_self_heals st < max_self_heals (tc_config ctx)"
    by (simp add: compress_then_retry_def)
  with 5 show ?case
    by (rule_tac record_tier_effect [of msg "st\<lparr>ts_self_heals := ts_self_heals st + 1\<rparr>"])
       (simp add: budgets_ok_def Let_def)
next
  case (6 st result st')
  from 6(2) show ?case
    by (rule handle_answer_Continue) (use 6(1) in \<open>auto simp: budgets_ok_def Let_def\<close>)
qed

subsection \<open>Pairing\<close>

text \<open>
  A transcript in which every answer with tool calls, whatever its stop reason, is followed at once by
  the results of exactly its calls, in their order, and no results stand anywhere else.
\<close>

fun all_answered :: "message list \<Rightarrow> bool" where
  "all_answered [] \<longleftrightarrow> True"
| "all_answered [AssistantMessage a] \<longleftrightarrow> tool_uses a = []"
| "all_answered (AssistantMessage a # m # ms) \<longleftrightarrow>
     (if tool_uses a \<noteq> []
      then (case m of
              ToolResultMessage rs \<Rightarrow>
                map tr_tool_use_id rs = map tool_id (tool_uses a) \<and> all_answered ms
            | _ \<Rightarrow> False)
      else all_answered (m # ms))"
| "all_answered (ToolResultMessage rs # ms) \<longleftrightarrow> False"
| "all_answered (UserMessage c # ms) \<longleftrightarrow> all_answered ms"
| "all_answered (SystemMessage c # ms) \<longleftrightarrow> all_answered ms"

lemma paired_append: "all_answered xs \<Longrightarrow> all_answered ys \<Longrightarrow> all_answered (xs @ ys)"
proof (induction xs rule: all_answered.induct)
  case (2 a)
  then show ?case by (cases ys) auto
next
  case (3 a m ms)
  then show ?case by (auto split: if_splits message.splits)
qed auto

lemma paired_users: "list_all is_user ms \<Longrightarrow> all_answered ms"
proof (induction ms)
  case Nil
  then show ?case by simp
next
  case (Cons m ms)
  then show ?case by (cases m) auto
qed

lemma same_frame_ids: "list_all2 same_frame rs rs' \<Longrightarrow> map tr_tool_use_id rs' = map tr_tool_use_id rs"
  by (induction rule: list_all2_induct) (auto simp: same_frame_def)

lemma paired_frames: "list_all2 same_message_frame ms ms' \<Longrightarrow> all_answered ms \<Longrightarrow> all_answered ms'"
proof (induction ms arbitrary: ms' rule: all_answered.induct)
  case (3 a m ms)
  then obtain m' ns where ms': "ms' = AssistantMessage a # m' # ns"
    and m': "same_message_frame m m'" and ns: "list_all2 same_message_frame ms ns"
    by (auto simp: list_all2_Cons1)
  show ?case
  proof (cases "tool_uses a \<noteq> []")
    case True
    with 3(4) obtain rs where m: "m = ToolResultMessage rs"
      and ids: "map tr_tool_use_id rs = map tool_id (tool_uses a)" and p: "all_answered ms"
      by (auto split: message.splits)
    from m' m obtain rs' where "m' = ToolResultMessage rs'" "list_all2 same_frame rs rs'" by auto
    with True 3(1) [OF True m ns p] ids show ?thesis by (simp add: ms' same_frame_ids)
  next
    case False
    with 3(4) have "all_answered (m # ms)" by simp
    from 3(2) [OF False _ this] m' ns False show ?thesis by (simp add: ms')
  qed
qed (auto simp: list_all2_Cons1)

definition transcript_ok :: "'w turn_state \<Rightarrow> bool" where
  "transcript_ok st \<longleftrightarrow> all_answered (ts_appended st)"

lemma results_answer:
  assumes "run_tools hr hctx live (tool_requests a) w = (raw, w')"
    and "persist_results fails dir (cap_results policy m raw) d = Inr (results, d')"
  shows "map te_id results = map tool_id (tool_uses a)"
proof -
  have "list_all2 answers (tool_requests a) raw"
    using run_tools_answers [of "tool_requests a" hr hctx live w] assms(1) by simp
  then have "list_all2 answers (tool_requests a) (cap_results policy m raw)"
    by (rule list_all2_answers) (rule cap_results_same)
  then have "list_all2 answers (tool_requests a) results"
    by (rule list_all2_answers) (rule persist_results_same [OF assms(2)])
  from answers_ids [OF this] show ?thesis by (simp only: tool_requests_ids)
qed

lemma no_tool_uses_when_silent: "is_recoverable_empty a \<Longrightarrow> tool_uses a = []"
  using recovery_needs_silence [of a] by (auto simp: tool_uses_def list_all_iff filter_empty_conv)

lemma paired_tool_block:
  assumes "map te_id results = map tool_id (tool_uses a)" and "tool_uses a \<noteq> []" and "all_answered ms"
  shows "all_answered (AssistantMessage a # tool_result_message results # ms)"
  using assms by (simp add: tool_result_message_def comp_def)

interpretation transcript: turn_invariant ctx transcript_ok for ctx
proof (unfold_locales, goal_cases)
  case (1 st st')
  then show ?case using truncate_working_frames [of st st'] paired_frames
    by (auto simp: transcript_ok_def)
next
  case (2 st result st')
  then show ?case by (auto elim!: call_provider_effect simp: transcript_ok_def)
next
  case (3 st n ra)
  then show ?case by (auto intro: retry_sleep_effect [of ctx n ra st] simp: transcript_ok_def)
next
  case (4 st result c m k)
  then show ?case
    by (rule_tac switch_model_effect [of ctx c m k st]) (simp add: transcript_ok_def)
next
  case (5 st c msg)
  then show ?case
    by (rule_tac record_tier_effect [of msg "st\<lparr>ts_self_heals := ts_self_heals st + 1\<rparr>"])
       (simp add: transcript_ok_def)
next
  case (6 st result st')
  from 6(2) show ?case
  proof (cases rule: handle_answer_Continue)
    case (length u)
    with 6(1) show ?thesis by (simp add: transcript_ok_def)
  next
    case (nudge u)
    have "all_answered [AssistantMessage (ar_message result),
        build_recovery_nudge (am_stop_reason (ar_message result))]"
      using no_tool_uses_when_silent [OF nudge(2)] nudge_is_user [of "am_stop_reason (ar_message result)"] paired_users
      by (simp add: list_all_iff del: all_answered.simps(5))
    with 6(1) nudge(4) show ?thesis by (simp add: transcript_ok_def paired_append)
  next
    case (tools u raw results w d al us re ms)
    have "all_answered (AssistantMessage (ar_message result) # tool_result_message results # ms)"
      by (rule paired_tool_block [OF results_answer [OF tools(2,3)] _ paired_users [OF tools(5)]])
        (use tools(1) in \<open>simp add: calls_tools_def\<close>)
    with 6(1) tools(6) show ?thesis by (simp add: transcript_ok_def paired_append)
  qed
qed

end
