(* ===== verification/TurnEnd.thy ===== *)
theory TurnEnd
  imports TurnProps
begin

section \<open>How many calls a turn makes and how it ends\<close>

text \<open>
  The provider calls of a turn are bounded by the budgets of its iterations and the length of the
  failover walk: every pass of the retry loop pays for its call with a silent retry, a retry or a
  step of the walk, whose rank falls (\<open>cyclic_walk\<close>, \<open>forward_walk\<close>). The lemmas after that say
  what a failed turn spent, which exceptions can leave it, and how its transcript ends.
\<close>

subsection \<open>Counting provider calls\<close>

definition failover_rank :: "'w turn_ctx \<Rightarrow> 'w turn_state \<Rightarrow> nat" where
  "failover_rank ctx st =
    (if rc_failover_cycle (tc_config ctx)
     then cyclic_rank (length (tc_chain ctx)) (ts_cursor st, ts_cycles_used st)
     else length (tc_chain ctx) - 1 - ts_cursor st)"

lemma failover_rank_falls:
  assumes "position_ok ctx m0 st" and "failover_model ctx result c st = Inr (Some (m, k))"
  shows "failover_rank ctx (switch_model ctx c m k st) < failover_rank ctx st"
proof -
  let ?s = "(ts_cursor st, ts_cycles_used st)"
  let ?t = "(k, if k < ts_cursor st then ts_cycles_used st + 1 else ts_cycles_used st)"
  obtain reg where adv: "failover_advance (tc_chain ctx) reg (rc_failover_cycle (tc_config ctx)) ?s =
      Some ?t"
    by (rule failover_model_advance [OF assms(2)])
  have good: "case ?s of (c, k) \<Rightarrow> c < length (tc_chain ctx)"
    using assms(1) by (simp add: position_ok_def)
  show ?thesis
  proof (cases "rc_failover_cycle (tc_config ctx)")
    case True
    with cyclic_walk.advance_rank [OF good] adv have
      "cyclic_rank (length (tc_chain ctx)) ?t < cyclic_rank (length (tc_chain ctx)) ?s" by simp
    with True show ?thesis by (simp add: failover_rank_def)
  next
    case False
    with adv have "failover_advance (tc_chain ctx) reg False ?s = Some ?t" by simp
    from forward_walk.advance_rank [OF good this] False show ?thesis
      by (simp add: failover_rank_def)
  qed
qed

definition calls_per_iteration :: "'w runtime_config \<Rightarrow> nat" where
  "calls_per_iteration cfg = 1 + nat (max_silent_retries cfg) + nat (rc_max_retries cfg)"

text \<open>What a state can still spend: attempts made, rank of the walk and the two budgets.\<close>

definition account :: "'w turn_ctx \<Rightarrow> int \<Rightarrow> int \<Rightarrow> 'w turn_state \<Rightarrow> nat" where
  "account ctx retry silent st =
    length (ts_attempts st) + failover_rank ctx st +
    nat (max_silent_retries (tc_config ctx) - silent) + nat (rc_max_retries (tc_config ctx) - retry)"

lemma failover_rank_frame [simp]:
  "failover_rank ctx (st\<lparr>ts_world := w\<rparr>) = failover_rank ctx st"
  "failover_rank ctx (st\<lparr>ts_attempts := a, ts_world := w\<rparr>) = failover_rank ctx st"
  "failover_rank ctx (st\<lparr>ts_attempts := a\<rparr>) = failover_rank ctx st"
  "failover_rank ctx (st\<lparr>ts_self_heals := n\<rparr>) = failover_rank ctx st"
  "failover_rank ctx (st\<lparr>ts_history := h, ts_appended := p\<rparr>) = failover_rank ctx st"
  by (simp_all add: failover_rank_def)

lemma call_provider_account:
  assumes "call_provider ctx st = Inr (result, st')"
  shows "length (ts_attempts st') = length (ts_attempts st) + 1"
    and "failover_rank ctx st' = failover_rank ctx st"
    and "last (ts_attempts st') = result"
  using assms by (auto elim!: call_provider_effect)

lemma retry_sleep_frame [simp]:
  "failover_rank ctx (retry_sleep ctx n ra st) = failover_rank ctx st"
  "ts_attempts (retry_sleep ctx n ra st) = ts_attempts st"
  by (simp_all add: retry_sleep_def sleep_for_def)

lemma switch_model_attempts [simp]: "ts_attempts (switch_model ctx c m k st) = ts_attempts st"
  by (simp add: switch_model_def sleep_for_def Let_def)

lemma record_tier_frame [simp]:
  "failover_rank ctx (record_long_context_tier msg st) = failover_rank ctx st"
  "ts_attempts (record_long_context_tier msg st) = ts_attempts st"
  by (simp_all add: record_long_context_tier_def Let_def failover_rank_def)

lemma attempt_pass_account:
  assumes "position_ok ctx m0 st" and "attempt_pass ctx r s st = Again r' s' st'"
  shows "account ctx r' s' st' \<le> account ctx r s st"
  using assms(2)
proof (cases rule: attempt_pass_Again)
  case (silent result st1 err)
  with call_provider_account [OF silent(1)] show ?thesis by (simp add: account_def)
next
  case (failover result st1 err m c)
  have "position_ok ctx m0 st1" by (rule position.inv_call [OF assms(1) failover(1)])
  from failover_rank_falls [OF this failover(3)] call_provider_account [OF failover(1)] failover
  show ?thesis by (simp add: account_def)
next
  case (retry result st1 err ra)
  with call_provider_account [OF retry(1)] show ?thesis by (simp add: account_def)
qed

lemma attempt_loop_account:
  assumes "position_ok ctx m0 st" and "attempt_loop ctx r s st = Inr (e, st')"
  shows "length (ts_attempts st') + failover_rank ctx st' \<le> account ctx r s st + 1"
proof -
  let ?P = "\<lambda>r' s' st'. position_ok ctx m0 st' \<and> account ctx r' s' st' \<le> account ctx r s st"
  obtain r' s' st0 where acc: "account ctx r' s' st0 \<le> account ctx r s st"
    and e: "attempt_pass ctx r' s' st0 = Ended e st'"
  proof -
    have "\<exists>r' s' st0. ?P r' s' st0 \<and> attempt_pass ctx r' s' st0 = Ended e st'"
    proof (rule attempt_loop_keeps [OF assms(2)])
      show "?P r s st" using assms(1) by simp
    next
      fix r1 s1 st1 r2 s2 st2
      assume p: "?P r1 s1 st1" and a: "attempt_pass ctx r1 s1 st1 = Again r2 s2 st2"
      then have "position_ok ctx m0 st2" using position.inv_pass by blast
      moreover have "account ctx r2 s2 st2 \<le> account ctx r1 s1 st1"
        using attempt_pass_account a p by blast
      ultimately show "?P r2 s2 st2" using p by simp
    qed
    then show thesis using that by blast
  qed
  have "length (ts_attempts st') + failover_rank ctx st' =
      length (ts_attempts st0) + failover_rank ctx st0 + 1"
    using e
  proof (cases rule: attempt_pass_Ended)
    case (answered result)
    with call_provider_account [OF answered(1)] show ?thesis by simp
  next
    case (compress result st1 err msg)
    with call_provider_account [OF compress(1)] show ?thesis by simp
  next
    case (terminal result err)
    with call_provider_account [OF terminal(1)] show ?thesis by simp
  qed
  with acc show ?thesis by (simp add: account_def)
qed

lemma preemptive_account:
  assumes "preemptive_compaction ctx st = Inr st'"
  shows "ts_attempts st' = ts_attempts st" and "failover_rank ctx st' = failover_rank ctx st"
proof -
  have "st' = st \<or> truncate_working st = Inr st'"
    using assms
    by (auto simp: preemptive_compaction_def Let_def split: if_splits compaction_route.splits)
  then show "ts_attempts st' = ts_attempts st" "failover_rank ctx st' = failover_rank ctx st"
    by (auto elim!: truncate_working_effect)
qed

text \<open>The calls and the rank after the attempts of one iteration.\<close>

lemma iteration_calls:
  assumes "position_ok ctx m0 st" and "preemptive_compaction ctx st = Inr st1"
    and "attempt_loop ctx 0 0 st1 = Inr (e, st2)"
  shows "length (ts_attempts st2) + failover_rank ctx st2 \<le>
         length (ts_attempts st) + failover_rank ctx st + calls_per_iteration (tc_config ctx)"
proof -
  have "position_ok ctx m0 st1" by (rule position.inv_preemptive [OF assms(1,2)])
  from attempt_loop_account [OF this assms(3)] preemptive_account [OF assms(2)] show ?thesis
    by (simp add: account_def calls_per_iteration_def)
qed

lemma handle_answer_account:
  assumes "handle_answer ctx result st = Continue st'"
  shows "ts_attempts st' = ts_attempts st" and "failover_rank ctx st' = failover_rank ctx st"
  using assms by (auto elim!: handle_answer_Continue simp: failover_rank_def)

lemma reached_calls:
  assumes "turn_reaches ctx st0 n st" and "position_ok ctx m0 st0"
  shows "length (ts_attempts st) + failover_rank ctx st \<le>
         length (ts_attempts st0) + failover_rank ctx st0 + n * calls_per_iteration (tc_config ctx)"
  using assms(1)
proof (induction rule: turn_reaches.induct)
  case start
  show ?case by simp
next
  case (step n st st')
  have pos: "position_ok ctx m0 st" by (rule position.inv_reached [OF step.hyps(1) assms(2)])
  have "length (ts_attempts st') + failover_rank ctx st' \<le>
      length (ts_attempts st) + failover_rank ctx st + calls_per_iteration (tc_config ctx)"
    using step.hyps(2)
  proof (cases rule: iteration_Continue)
    case (1 st1)
    then show ?thesis using iteration_calls [OF pos] by blast
  next
    case (2 st1 result st2)
    then show ?thesis using iteration_calls [OF pos 2(1,2)] handle_answer_account [OF 2(3)] by simp
  qed
  with step.IH show ?case by simp
qed

subsection \<open>How an answer ends the turn\<close>

lemma no_tool_reply_Finished:
  assumes "no_tool_reply ctx msg st = Finished r st'"
  shows "tu_final_message r = msg \<and> tu_appended r = ts_appended st \<and> tu_attempts r = ts_attempts st \<and>
         tu_executions r = ts_executions st \<and> ts_history st' = ts_history st \<and>
         tu_stopped_reason r = nonempty_or (am_stop_reason msg) ''end_turn''"
  using assms by (auto simp: no_tool_reply_def Let_def finish_def split: if_splits)

lemma after_tools_Finished:
  assumes "after_tools ctx requests results st = Finished r st'"
  obtains why where "tu_final_message r = assistant_text why (Some ''loop_detection'')"
    "tu_stopped_reason r = ''loop_detection''" "tu_attempts r = ts_attempts st"
    "tu_executions r = ts_executions st @ results" "ts_history st' = ts_history st"
    "tu_appended r = ts_appended st @ [tool_result_message results, AssistantMessage (tu_final_message r)]"
  using assms
  by (auto simp: after_tools_def Let_def loop_abort_def finish_def append_message_def
      split: if_splits prod.splits option.splits)

lemma tool_reply_Finished:
  assumes "tool_reply ctx requests st = Finished r st'"
  obtains raw results w d where
    "run_tools (rc_hook_runner (tc_config ctx)) (rc_hook_context (tc_config ctx))
       (tools_by_name (tc_tools ctx)) requests (ts_world st) = (raw, w)"
    "persist_results (env_write_fails (tc_env ctx)) (rc_tool_result_storage_dir (tc_config ctx))
       (cap_results (rc_tool_policy (tc_config ctx)) (ts_model st) raw) (ts_disk st) =
       Inr (results, d)"
    "after_tools ctx requests results (st\<lparr>ts_world := w, ts_disk := d\<rparr>) = Finished r st'"
  using assms by (auto simp: tool_reply_def Let_def split: prod.splits sum.splits)

lemma handle_answer_Finished:
  assumes "handle_answer ctx result st = Finished r st'"
  obtains
    (reply) "\<not> calls_tools (ar_message result)" "tu_final_message r = ar_message result"
      "tu_stopped_reason r = nonempty_or (am_stop_reason (ar_message result)) ''end_turn''"
      "tu_attempts r = ts_attempts st" "ts_history st' = ts_history st"
      "tu_appended r = ts_appended st @ [AssistantMessage (ar_message result)]"
  | (loop) results why where "calls_tools (ar_message result)"
      "map te_id results = map tool_id (tool_uses (ar_message result))"
      "tu_final_message r = assistant_text why (Some ''loop_detection'')"
      "tu_stopped_reason r = ''loop_detection''"
      "tu_attempts r = ts_attempts st" "ts_history st' = ts_history st"
      "tu_appended r = ts_appended st @ [AssistantMessage (ar_message result),
         tool_result_message results, AssistantMessage (tu_final_message r)]"
proof -
  let ?msg = "ar_message result"
  let ?st1 = "st\<lparr>ts_usage_total := accumulate_usage (ts_usage_total st) (ar_usage result),
                  ts_appended := ts_appended st @ [AssistantMessage ?msg]\<rparr>"
  show thesis
  proof (cases "calls_tools ?msg")
    case False
    then have "no_tool_reply ctx ?msg ?st1 = Finished r st'"
      using assms by (simp add: handle_answer_split Let_def)
    from no_tool_reply_Finished [OF this] False show thesis by (intro reply) auto
  next
    case True
    then have "tool_reply ctx (tool_requests ?msg) ?st1 = Finished r st'"
      using assms by (simp add: handle_answer_split Let_def)
    then obtain raw results w d where run:
      "run_tools (rc_hook_runner (tc_config ctx)) (rc_hook_context (tc_config ctx))
         (tools_by_name (tc_tools ctx)) (tool_requests ?msg) (ts_world st) = (raw, w)"
      "persist_results (env_write_fails (tc_env ctx)) (rc_tool_result_storage_dir (tc_config ctx))
         (cap_results (rc_tool_policy (tc_config ctx)) (ts_model st) raw) (ts_disk st) =
         Inr (results, d)"
      and after: "after_tools ctx (tool_requests ?msg) results (?st1\<lparr>ts_world := w, ts_disk := d\<rparr>) =
        Finished r st'"
      by (rule tool_reply_Finished) simp
    show thesis
      by (rule after_tools_Finished [OF after])
         (rule loop [OF True results_answer [OF run]], auto)
  qed
qed

subsection \<open>The whole turn\<close>

lemma finish_Finished:
  "finish st m reason = Finished r st' \<longleftrightarrow>
     st' = st \<and> r = \<lparr>tu_final_message = m, tu_appended = ts_appended st,
       tu_attempts = ts_attempts st, tu_executions = ts_executions st,
       tu_usage_total = ts_usage_total st, tu_stopped_reason = reason\<rparr>"
  by (auto simp: finish_def)

lemma abort_reply_Finished:
  assumes "abort_reply st = Finished r st'"
  shows "tu_attempts r = ts_attempts st \<and> ts_history st' = ts_history st \<and>
    ((tu_stopped_reason r = ''abort'' \<and> tu_appended r = ts_appended st) \<or>
     (tu_stopped_reason r = ''yielded'' \<and>
      (\<exists>why. tu_final_message r = assistant_text why (Some ''yielded'')) \<and>
      tu_appended r = ts_appended st @ [AssistantMessage (tu_final_message r)]))"
  using assms
  by (auto simp: abort_reply_def finish_Finished append_message_def Let_def split: list.splits)

lemma cap_reply_Finished:
  assumes "cap_reply ctx st = Finished r st'"
  shows "tu_attempts r = ts_attempts st \<and> ts_history st' = ts_history st \<and>
    tu_stopped_reason r = ''iteration_cap'' \<and>
    tu_final_message r = assistant_text
      ''(stopped: reached max tool iterations without a final answer)'' (Some ''iteration_cap'') \<and>
    (tu_appended r = ts_appended st \<or>
     tu_appended r = ts_appended st @ [AssistantMessage (tu_final_message r)])"
  using assms
  by (auto simp: cap_reply_def finish_Finished append_message_def Let_def split: if_splits)

lemma turn_calls:
  assumes "turn_loop ctx n st0 = Finished r st'" and pos: "position_ok ctx m0 st0"
  shows "length (tu_attempts r) \<le>
    length (ts_attempts st0) + failover_rank ctx st0 + n * calls_per_iteration (tc_config ctx)"
proof -
  obtain k st where k: "k \<le> n" and reach: "turn_reaches ctx st0 k st"
    and e: "if k = n then turn_loop ctx n st0 = cap_reply ctx st
      else turn_loop ctx n st0 = iteration ctx st \<and> (\<forall>st'. iteration ctx st \<noteq> Continue st')"
    using turn_loop_end [of n ctx st0] by blast
  let ?c = "calls_per_iteration (tc_config ctx)"
  have st: "length (ts_attempts st) + failover_rank ctx st \<le>
      length (ts_attempts st0) + failover_rank ctx st0 + k * ?c"
    by (rule reached_calls [OF reach pos])
  have p: "position_ok ctx m0 st" by (rule position.inv_reached [OF reach pos])
  show ?thesis
  proof (cases "k = n")
    case True
    with e assms(1) cap_reply_Finished [of ctx st r st'] st show ?thesis by auto
  next
    case False
    with k have "Suc k * ?c \<le> n * ?c" by (intro mult_right_mono) auto
    then have kn: "k * ?c + ?c \<le> n * ?c" by simp
    from False e assms(1) have it: "iteration ctx st = Finished r st'" by auto
    show ?thesis
    proof (cases "env_aborted (tc_env ctx) (ts_world st)")
      case True
      with it have "abort_reply st = Finished r st'" by (simp add: iteration_def)
      with abort_reply_Finished [of st r st'] st kn show ?thesis by auto
    next
      case False
      then obtain st1 e st2 where pre: "preemptive_compaction ctx st = Inr st1"
        and a: "attempt_loop ctx 0 0 st1 = Inr (e, st2)"
        using it by (auto simp: iteration_def split: sum.splits prod.splits)
      have "tu_attempts r = ts_attempts st2"
      proof (cases e)
        case (Answered result)
        with it False pre a have "handle_answer ctx result st2 = Finished r st'"
          by (simp add: iteration_def)
        then show ?thesis by (rule handle_answer_Finished)
      next
        case CompressBreak
        with it False pre a show ?thesis by (simp add: iteration_def)
      next
        case (Terminal result)
        with it False pre a show ?thesis
          by (auto simp: iteration_def finish_Finished append_message_def)
      qed
      with iteration_calls [OF p pre a] st kn show ?thesis by simp
    qed
  qed
qed

text \<open>
  Only the answer that a turn ends with may have calls without results: the answer of a failed attempt, or
  one whose stop reason does not announce calls, so that the loop returns it without running them.
\<close>

definition ends_paired :: "turn_result \<Rightarrow> bool" where
  "ends_paired r \<longleftrightarrow> all_answered (tu_appended r) \<or>
    (tu_appended r \<noteq> [] \<and> last (tu_appended r) = AssistantMessage (tu_final_message r) \<and>
     all_answered (butlast (tu_appended r)) \<and>
     (tu_stopped_reason r = ''error'' \<or>
      am_stop_reason (tu_final_message r) \<notin> {Some ''tool_use'', Some ''tool_calls''}))"

lemma turn_transcript:
  assumes "turn_loop ctx n st0 = Finished r st'" and "transcript_ok st0"
  shows "ends_paired r"
  using assms(2,1)
proof (cases rule: transcript.inv_before_end)
  case (abort st)
  then show ?thesis unfolding ends_paired_def
    using abort_reply_Finished [OF abort(2)] paired_append [of "ts_appended st"]
    by (auto simp: transcript_ok_def assistant_text_def tool_uses_def)
next
  case (cap st)
  then show ?thesis unfolding ends_paired_def
    using cap_reply_Finished [OF cap(2)] paired_append [of "ts_appended st"]
    by (auto simp: transcript_ok_def assistant_text_def tool_uses_def)
next
  case (terminal st result)
  then show ?thesis by (auto simp: finish_Finished append_message_def transcript_ok_def ends_paired_def)
next
  case (answer st result)
  from answer(2) show ?thesis
  proof (cases rule: handle_answer_Finished)
    case reply
    with answer(1) show ?thesis
      using paired_append [of "ts_appended st" "[AssistantMessage (ar_message result)]"]
      by (auto simp: transcript_ok_def ends_paired_def calls_tools_def)
  next
    case (loop results why)
    have "all_answered [AssistantMessage (tu_final_message r)]"
      by (simp add: loop(3) assistant_text_def tool_uses_def)
    from paired_tool_block [OF loop(2) _ this] answer(1) loop(1) show ?thesis
      by (simp add: transcript_ok_def loop(7) paired_append ends_paired_def calls_tools_def)
  qed
qed

subsection \<open>Which exceptions can leave a turn\<close>

lemma tool_use_blocks_error: "tool_use_blocks buf ts = Inl e \<Longrightarrow> e = ValidationError"
  by (induction ts)
     (auto simp: bind_err_Inl tool_use_block_def Let_def split: prod.splits if_splits)

lemma stream_simple_error:
  "stream_simple env rq w = Inl e \<Longrightarrow>
   e = KeyError \<and> \<not> env_registered env (m_provider (rq_model rq)) \<or> env_stream_raises env rq w = Some e"
  by (auto simp: stream_simple_def split: if_splits prod.splits option.splits)

lemma call_provider_error:
  assumes "call_provider ctx st = Inl e"
  shows "e = ValidationError \<or> e = KeyError \<and> \<not> env_registered (tc_env ctx) (m_provider (ts_model st)) \<or>
    (\<exists>rq w. env_stream_raises (tc_env ctx) rq w = Some e)"
proof -
  from assms consider "stream_simple (tc_env ctx) (next_request ctx st) (ts_world st) = Inl e"
    | es where "run_attempt es = Inl e"
    by (auto simp: call_provider_def bind_err_Inl)
  then show ?thesis
  proof cases
    case 1
    from stream_simple_error [OF this] show ?thesis by auto
  next
    case 2
    then show ?thesis
      by (auto simp: run_attempt_def assemble_def bind_err_Inl Let_def dest: tool_use_blocks_error)
  qed
qed

lemma gather_error_is:
  "gather f xs = Inl e \<Longrightarrow> (\<And>x e. f x = Inl e \<Longrightarrow> e = e0) \<Longrightarrow> e = e0"
  by (induction xs) (auto simp: bind_err_Inl)

lemma truncate_error_is: "truncate_tool_results k ms = Inl e \<Longrightarrow> e = TypeError"
proof -
  have block: "truncate_block k r = Inl e \<Longrightarrow> e = TypeError" for r e
    by (auto simp: truncate_block_def Let_def split: content.splits if_splits)
  have message: "truncate_message k m = Inl e \<Longrightarrow> e = TypeError" for m e
    using gather_error_is [OF _ block]
    by (cases m) (auto simp: bind_err_Inl truncate_blocks_def)
  assume "truncate_tool_results k ms = Inl e"
  then show ?thesis using gather_error_is [OF _ message] by (simp add: truncate_tool_results_def)
qed

lemma preemptive_error: "preemptive_compaction ctx st = Inl e \<Longrightarrow> e = TypeError"
  by (auto simp: preemptive_compaction_def truncate_working_def bind_err_Inl Let_def
      split: if_splits compaction_route.splits dest: truncate_error_is)

lemma maybe_persist_error:
  "maybe_persist_tool_result fails i n out config dir d = Inl e \<Longrightarrow> e = ValueError"
  by (auto simp: maybe_persist_tool_result_def safe_join_def bind_err_Inl Let_def split: if_splits)

lemma spill_loop_error: "spill_loop fails config dir budget rs d n k = Inl e \<Longrightarrow> e = ValueError"
proof (induction fails config dir budget rs d n k rule: spill_loop.induct)
  case (1 fails config dir budget rs d n k)
  show ?case
  proof (cases "n \<le> budget \<or> pick_largest config 0 rs None = None")
    case True
    with 1(2) show ?thesis by (auto simp: spill_loop.simps [of _ _ _ _ rs] split: if_splits)
  next
    case False
    then obtain i s where pick: "pick_largest config 0 rs None = Some (i, s)" by auto
    show ?thesis
    proof (cases "spill fails config dir i (rs ! i) d")
      case (Inl x)
      with False pick 1(2) have "e = x" by (auto simp: spill_loop.simps [of _ _ _ _ rs])
      with Inl show ?thesis by (auto simp: spill_def dest: maybe_persist_error)
    next
      case (Inr p)
      obtain t d1 where p: "p = (t, d1)" by (cases p)
      with False pick Inr 1(2) have t: "t \<noteq> be_output (rs ! i)"
        by (auto simp: spill_loop.simps [of _ _ _ _ rs])
      with False pick Inr p 1(2) show ?thesis
        using 1(1) [OF _ pick refl Inr p [symmetric] t]
        by (auto simp: spill_loop.simps [of _ _ _ _ rs])
    qed
  qed
qed

lemma persist_each_error: "persist_each fails dir rs d = Inl e \<Longrightarrow> e = ValueError"
  by (induction fails dir rs d rule: persist_each.induct)
     (auto simp: bind_err_Inl dest: maybe_persist_error)

lemma persist_error: "persist_results fails dir rs d = Inl e \<Longrightarrow> dir \<noteq> None \<and> e = ValueError"
  by (auto simp: persist_results_def bind_err_Inl enforce_turn_budget_def
      split: option.splits if_splits dest: persist_each_error spill_loop_error)

lemma failover_model_no_error:
  assumes "position_ok ctx m0 st"
  shows "failover_model ctx result c st \<noteq> Inl e"
  using resolve_next_in_range [of "ts_cursor st" "tc_chain ctx"] assms
  by (auto simp: failover_model_def position_ok_def Let_def bind_err_Inl split: option.splits)

text \<open>The models that a turn may use.\<close>

definition usable_model :: "'w turn_ctx \<Rightarrow> model \<Rightarrow> model \<Rightarrow> bool" where
  "usable_model ctx m0 m \<longleftrightarrow> m = m0 \<or>
    (\<exists>reg i. rc_failover_registry (tc_config ctx) = Some reg \<and> i < length (tc_chain ctx) \<and>
       reg (tc_chain ctx ! i) = Some m)"

lemma position_usable: "position_ok ctx m0 st \<Longrightarrow> usable_model ctx m0 (ts_model st)"
  by (auto simp: position_ok_def usable_model_def)

text \<open>What a call of a provider can raise.\<close>

definition provider_error :: "'w turn_ctx \<Rightarrow> model \<Rightarrow> py_error \<Rightarrow> bool" where
  "provider_error ctx m0 e \<longleftrightarrow> e = ValidationError \<or>
    e = KeyError \<and> (\<exists>m. usable_model ctx m0 m \<and> \<not> env_registered (tc_env ctx) (m_provider m)) \<or>
    (\<exists>rq w. env_stream_raises (tc_env ctx) rq w = Some e)"

lemma attempt_loop_error:
  assumes "attempt_loop ctx r s st = Inl e" and "position_ok ctx m0 st"
  shows "provider_error ctx m0 e"
proof -
  obtain r' s' st0 where p: "position_ok ctx m0 st0" and b: "attempt_pass ctx r' s' st0 = Broke e"
    using attempt_loop_broke [OF assms(1), of "\<lambda>_ _. position_ok ctx m0"] assms(2)
      position.inv_pass by blast
  from attempt_pass_Broke [OF b] show ?thesis
    using call_provider_error [of ctx st0 e] position_usable [OF p] failover_model_no_error position.inv_call [OF p]
    unfolding provider_error_def by blast
qed

lemma handle_answer_error:
  assumes "handle_answer ctx result st = Raised e"
  shows "rc_tool_result_storage_dir (tc_config ctx) \<noteq> None \<and> e = ValueError"
proof -
  have no: "no_tool_reply ctx m s \<noteq> Raised e" for m s
    by (auto simp: no_tool_reply_def Let_def finish_def)
  have after: "after_tools ctx rq rs s \<noteq> Raised e" for rq rs s
    by (auto simp: after_tools_def Let_def loop_abort_def finish_def split: prod.splits option.splits)
  from assms show ?thesis
    by (auto simp: handle_answer_split tool_reply_def Let_def no after
        split: if_splits prod.splits sum.splits dest!: persist_error)
qed

lemma turn_error:
  assumes "turn_loop ctx n st0 = Raised e" and "position_ok ctx m0 st0"
  shows "(e = TypeError \<and> rc_preemptive_compaction (tc_config ctx)) \<or> provider_error ctx m0 e \<or>
         (e = ValueError \<and> rc_tool_result_storage_dir (tc_config ctx) \<noteq> None)"
proof -
  obtain k st where reach: "turn_reaches ctx st0 k st"
    and e: "if k = n then turn_loop ctx n st0 = cap_reply ctx st
      else turn_loop ctx n st0 = iteration ctx st \<and> (\<forall>st'. iteration ctx st \<noteq> Continue st')"
    using turn_loop_end [of n ctx st0] by blast
  have p: "position_ok ctx m0 st" by (rule position.inv_reached [OF reach assms(2)])
  from e assms(1) have it: "iteration ctx st = Raised e"
    by (auto simp: cap_reply_def finish_def Let_def split: if_splits)
  have "\<not> env_aborted (tc_env ctx) (ts_world st)"
    using it by (auto simp: iteration_def abort_reply_def finish_def Let_def split: list.splits)
  show ?thesis
  proof (cases "preemptive_compaction ctx st")
    case (Inl x)
    with it \<open>\<not> _\<close> have "e = x" by (simp add: iteration_def)
    moreover have "rc_preemptive_compaction (tc_config ctx)"
      using Inl by (auto simp: preemptive_compaction_def split: if_splits)
    ultimately show ?thesis using preemptive_error [OF Inl] by simp
  next
    case (Inr st1)
    have p1: "position_ok ctx m0 st1" by (rule position.inv_preemptive [OF p Inr])
    show ?thesis
    proof (cases "attempt_loop ctx 0 0 st1")
      case (Inl x)
      with it Inr \<open>\<not> _\<close> have "e = x" by (simp add: iteration_def)
      with attempt_loop_error [OF Inl p1] show ?thesis by simp
    next
      case a: (Inr q)
      obtain ae st2 where q: "q = (ae, st2)" by (cases q)
      from it Inr a q \<open>\<not> _\<close> obtain result where "handle_answer ctx result st2 = Raised e"
        by (cases ae) (auto simp: iteration_def finish_def)
      then show ?thesis using handle_answer_error by blast
    qed
  qed
qed

subsection \<open>What a failed turn spent\<close>

text \<open>A failure that the classifier calls retryable is only surfaced after every retry was made.\<close>

lemma terminal_spent:
  assumes "attempt_loop ctx 0 0 st = Inr (Terminal result, st')"
  shows "\<exists>err. ar_error result = Some err \<and> last (ts_attempts st') = result \<and>
    (c_retryable (classify_api_error (Some err) None [] None None None) \<longrightarrow>
       length (ts_attempts st) + nat (rc_max_retries (tc_config ctx)) < length (ts_attempts st'))"
proof -
  let ?P = "\<lambda>r (s :: int) st1. length (ts_attempts st) + nat r \<le> length (ts_attempts st1) \<and> 0 \<le> r"
  obtain r s st0 where P: "?P r s st0" and b: "attempt_pass ctx r s st0 = Ended (Terminal result) st'"
  proof -
    have "\<exists>r s st0. ?P r s st0 \<and> attempt_pass ctx r s st0 = Ended (Terminal result) st'"
    proof (rule attempt_loop_keeps [OF assms])
      show "?P 0 0 st" by simp
    next
      fix r s st1 r' s' st2
      assume p: "?P r s st1" and a: "attempt_pass ctx r s st1 = Again r' s' st2"
      from a show "?P r' s' st2"
      proof (cases rule: attempt_pass_Again)
        case (silent result u err)
        with p call_provider_account [OF silent(1)] show ?thesis by simp
      next
        case (failover result u err m c)
        with p call_provider_account [OF failover(1)] show ?thesis by simp
      next
        case (retry result u err ra)
        with p call_provider_account [OF retry(1)] show ?thesis by (simp add: nat_add_distrib)
      qed
    qed
    then show thesis using that by blast
  qed
  from b show ?thesis
  proof (cases rule: attempt_pass_Ended)
    case (terminal result' err)
    with call_provider_account [OF terminal(1)] P show ?thesis by auto
  qed auto
qed

subsection \<open>The state behind a final result\<close>

text \<open>The stage that ends a turn changes none of the fields that the invariants speak of.\<close>

definition same_books :: "'w turn_state \<Rightarrow> 'w turn_state \<Rightarrow> bool" where
  "same_books st st' \<longleftrightarrow>
     ts_history st' = ts_history st \<and> ts_cursor st' = ts_cursor st \<and>
     ts_cycles_used st' = ts_cycles_used st \<and> ts_model st' = ts_model st \<and>
     ts_self_heals st' = ts_self_heals st \<and> ts_recoveries_used st' = ts_recoveries_used st \<and>
     ts_length_recoveries_used st' = ts_length_recoveries_used st \<and>
     al_threshold (ts_arg_loop st') = al_threshold (ts_arg_loop st)"

lemma abort_books: "abort_reply st = Finished r st' \<Longrightarrow> same_books st st'"
  by (auto simp: abort_reply_def finish_Finished append_message_def same_books_def Let_def
      split: list.splits)

lemma cap_books: "cap_reply ctx st = Finished r st' \<Longrightarrow> same_books st st'"
  by (auto simp: cap_reply_def finish_Finished append_message_def same_books_def Let_def)

lemma terminal_books:
  "finish (append_message m st) a reason = Finished r st' \<Longrightarrow> same_books st st'"
  by (auto simp: finish_Finished append_message_def same_books_def)

lemma no_tool_books: "no_tool_reply ctx m st = Finished r st' \<Longrightarrow> same_books st st'"
  by (auto simp: no_tool_reply_def finish_Finished same_books_def Let_def split: if_splits)

lemma after_tools_books:
  assumes "after_tools ctx rqs rs st = Finished r st'"
  shows "same_books st st'"
proof -
  obtain hit d where obs: "observe_calls (env_sha (tc_env ctx)) rqs (ts_arg_loop st) = (hit, d)"
    by (cases "observe_calls (env_sha (tc_env ctx)) rqs (ts_arg_loop st)")
  then have "al_threshold d = al_threshold (ts_arg_loop st)"
    using observe_calls_threshold [of "env_sha (tc_env ctx)" rqs "ts_arg_loop st"] by simp
  with assms obs show ?thesis
    by (auto simp: after_tools_def loop_abort_def finish_Finished append_message_def same_books_def
        Let_def split: if_splits option.splits)
qed

lemma answer_books:
  assumes "handle_answer ctx result st = Finished r st'"
  shows "same_books st st'"
proof -
  have frame: "same_books (st\<lparr>ts_usage_total := u, ts_appended := a\<rparr>) st' \<Longrightarrow> same_books st st'"
    for u a by (simp add: same_books_def)
  have frame2: "same_books (st1\<lparr>ts_world := w, ts_disk := d\<rparr>) st' \<Longrightarrow> same_books st1 st'"
    for st1 w d by (simp add: same_books_def)
  show ?thesis
  proof (cases "calls_tools (ar_message result)")
    case False
    with assms show ?thesis
      by (simp add: handle_answer_split Let_def) (rule frame, rule no_tool_books)
  next
    case True
    with assms show ?thesis
      by (simp add: handle_answer_split Let_def)
         (erule tool_reply_Finished, rule frame, rule frame2, rule after_tools_books)
  qed
qed

text \<open>An invariant of those fields holds of the final state.\<close>

context turn_invariant
begin

lemma inv_end:
  assumes "Inv st0" and "turn_loop ctx n st0 = Finished r st'"
    and frame: "\<And>st. Inv st \<Longrightarrow> same_books st st' \<Longrightarrow> Inv st'"
  shows "Inv st'"
  using assms(1,2)
proof (cases rule: inv_before_end)
  case (abort st)
  then show ?thesis using frame abort_books by blast
next
  case (cap st)
  then show ?thesis using frame cap_books by blast
next
  case (terminal st result)
  then show ?thesis using frame terminal_books by blast
next
  case (answer st result)
  then show ?thesis using frame answer_books by blast
qed

end

lemma turn_books:
  assumes "turn_loop ctx n st0 = Finished r st'"
  shows "position_ok ctx m0 st0 \<Longrightarrow> position_ok ctx m0 st'"
    and "budgets_ok ctx st0 \<Longrightarrow> budgets_ok ctx st'"
    and "history_kept h0 st0 \<Longrightarrow> history_kept h0 st'"
  using position.inv_end [OF _ assms, of m0] budgets.inv_end [OF _ assms]
    history.inv_end [OF _ assms, of h0]
  by (auto simp: position_ok_def budgets_ok_def history_kept_def same_books_def)

lemma initial_ok:
  fixes ctx :: "'w turn_ctx"
  assumes "ctx = turn_context env m api system tools cfg"
  shows "position_ok ctx m (initial_state m h cfg d w)" and
    "budgets_ok ctx (initial_state m h cfg d w)" and
    "history_kept h (initial_state m h cfg d w)" and
    "transcript_ok (initial_state m h cfg d w)"
  using assms
  by (auto simp: position_ok_def budgets_ok_def history_kept_def transcript_ok_def initial_state_def
      turn_context_def arg_loop_new_def max_self_heals_def list_all2_refl Let_def)

lemma run_agent_turn_loop:
  obtains ctx where "ctx = turn_context env m api system tools cfg" and "tc_config ctx = cfg"
    and "tc_chain ctx = m_id m # rc_failover_chain cfg"
    and "run_agent_turn env m api system h tools cfg d w =
      turn_loop ctx (nat (rc_max_tool_iterations cfg)) (initial_state m h cfg d w)"
  by (rule that [OF refl]) (simp_all add: turn_context_def run_agent_turn_def)

lemma final_message_last:
  assumes "turn_loop ctx n st0 = Finished r st" and "transcript_ok st0"
  shows "tu_stopped_reason r \<in> {''abort'', ''iteration_cap''} \<or>
         (tu_appended r \<noteq> [] \<and> last (tu_appended r) = AssistantMessage (tu_final_message r))"
  using assms(2,1)
proof (cases rule: transcript.inv_before_end)
  case (abort u)
  then show ?thesis using abort_reply_Finished [OF abort(2)] by auto
next
  case (cap u)
  then show ?thesis using cap_reply_Finished [OF cap(2)] by auto
next
  case (terminal u result)
  then show ?thesis by (auto simp: finish_Finished append_message_def)
next
  case (answer u result)
  from answer(2) show ?thesis by (cases rule: handle_answer_Finished) simp_all
qed

lemma turn_loop_ends: "turn_loop ctx n st0 \<noteq> Continue st"
proof (induction n arbitrary: st0)
  case 0
  show ?case by (simp add: cap_reply_def finish_def Let_def)
next
  case (Suc n)
  then show ?case by (simp split: step_result.split)
qed

end
