(* ===== verification/TurnDemo.thy ===== *)
theory TurnDemo
  imports TurnEnd
begin

section \<open>Two concrete turns\<close>

text \<open>
  The turns on which the properties of \<open>run_agent_turn\<close> are evaluated. The world is the number of
  provider calls made so far. In the first turn the model calls a tool and then answers; in the
  second one it emits tool arguments that are not a JSON object.
\<close>

definition demo_model :: model where
  "demo_model = \<lparr>m_id = ''m0'', m_provider = ''p'', m_context_window = 32000,
     m_max_output_tokens = 4096, m_supports_thinking = False, m_supports_prompt_cache = False\<rparr>"

definition demo_tool :: "nat tool" where
  "demo_tool = \<lparr>tl_name = ''echo'', tl_description = [], tl_schema = JObj [],
     tl_execute = (\<lambda>args w. (OutText ''ok'', w))\<rparr>"

definition demo_error :: "bool \<Rightarrow> error_event" where
  "demo_error retry = \<lparr>ev_message = ''connection reset'', ev_retryable = retry,
     ev_retry_after = None, ev_status = None\<rparr>"

definition demo_stream :: "request \<Rightarrow> nat \<Rightarrow> event list \<times> nat" where
  "demo_stream rq w =
    ((if w = 0 then [ToolUseStart ''t1'' ''echo'', StopEvent ''tool_use'']
      else [TextDelta ''done'', StopEvent ''end_turn'']), w + 1)"

text \<open>Arguments that are valid JSON and not an object.\<close>

definition bad_stream :: "request \<Rightarrow> nat \<Rightarrow> event list \<times> nat" where
  "bad_stream rq w =
    ([ToolUseStart ''t1'' ''echo'', ToolUseInputDelta ''t1'' ''[1]'', StopEvent ''tool_use''], w + 1)"

definition demo_env :: "(request \<Rightarrow> nat \<Rightarrow> event list \<times> nat) \<Rightarrow> nat environment" where
  "demo_env stream = \<lparr>env_registered = (\<lambda>p. p = ''p''), env_stream = stream,
     env_stream_raises = (\<lambda>rq w. None), env_aborted = (\<lambda>w. False),
     env_uniform = (\<lambda>w lo hi. lo), env_sleep = (\<lambda>d w. w), env_retry_after_max = EnvUnset,
     env_sha = (\<lambda>s. s), env_write_fails = (\<lambda>d p. False)\<rparr>"

lemma demo_stream_simple:
  "m_provider (rq_model rq) = ''p'' \<Longrightarrow> stream_simple (demo_env stream) rq w = Inr (stream rq w)"
  by (simp add: stream_simple_def demo_env_def split: prod.split)

definition demo_config :: "nat runtime_config" where
  "demo_config =
    \<lparr>rc_temperature = 0, rc_max_tokens = None, rc_thinking = None, rc_timeout_seconds = 300,
     rc_cache_control_breakpoints = 4, rc_extra_params = [],
     rc_max_retries = 3, rc_backoff_initial = 1 / 2, rc_backoff_max = 8,
     rc_max_tool_iterations = 5, rc_soft_iteration_cap = True, rc_unknown_tool_threshold = 10,
     rc_arg_loop_threshold = 4, rc_stop_reason_recovery_attempts = 1,
     rc_length_recovery_attempts = 1, rc_length_recovery_growth = 2, rc_failover_chain = [],
     rc_failover_empty_streak_threshold = 3, rc_failover_registry = None,
     rc_failover_cycle = False, rc_compaction_threshold_ratio = 85 / 100,
     rc_preemptive_compaction = False, rc_max_compression_self_heals = 3,
     rc_compress_then_retry = True, rc_tool_result_storage_dir = None, rc_tool_policy = None,
     rc_hook_runner = None,
     rc_hook_context = \<lparr>hc_run_id = None, hc_agent_id = None, hc_session_id = None,
       hc_session_key = None, hc_workspace_dir = None, hc_model_provider = None,
       hc_model_id = None, hc_trigger = None, hc_channel = None\<rparr>\<rparr>"

definition demo_turn :: "(request \<Rightarrow> nat \<Rightarrow> event list \<times> nat) \<Rightarrow> nat step_result" where
  "demo_turn stream = run_agent_turn (demo_env stream) demo_model ''api'' None [] [demo_tool]
     demo_config [] 0"

lemma demo_tool_turn:
  "\<exists>r st. demo_turn demo_stream = Finished r st \<and> tu_stopped_reason r = ''end_turn'' \<and>
     length (tu_attempts r) = 2 \<and> length (tu_appended r) = 3 \<and> tool_uses (tu_final_message r) = []"
proof -
  have "case demo_turn demo_stream of
      Finished r st \<Rightarrow> tu_stopped_reason r = ''end_turn'' \<and> length (tu_attempts r) = 2 \<and>
        length (tu_appended r) = 3 \<and> tool_uses (tu_final_message r) = []
    | _ \<Rightarrow> False"
    by code_simp
  then show ?thesis by (auto split: step_result.splits)
qed

lemma demo_bad_turn: "demo_turn bad_stream = Raised ValidationError"
proof -
  have "case demo_turn bad_stream of Raised e \<Rightarrow> e = ValidationError | _ \<Rightarrow> False"
    by code_simp
  then show ?thesis by (auto split: step_result.splits)
qed

end
