(* ===== verification/ImagePrune.thy ===== *)
theory ImagePrune
  imports TokenBudget
begin

section \<open>Pruning old images\<close>

text \<open>
  \<open>oxenclaw/pi/run/history_image_prune.py\<close>: image blocks before the last \<open>keep\<close> user turns become
  a line of text. \<open>prune_scan\<close> is the backward loop that finds the boundary, \<open>prune_message\<close> the
  replacement in one message, \<open>prune_old_images\<close> the whole pass, returning the new list and the
  count. The lemmas show that the tail is untouched, that no image is left before the boundary,
  that the count is the number of images lost and that a second pass finds nothing.
\<close>

definition placeholder_text :: string where
  "placeholder_text =
    ''(image attached earlier in the conversation '' @ [CHR 0x82] @ '' pruned to save context)''"

definition vision_keep_turns :: "(string \<times> int) list" where
  "vision_keep_turns =
    [(''claude'', 6), (''anthropic'', 6), (''gpt-4'', 6), (''qwen'', 4), (''gemma'', 4),
     (''llava'', 3), (''default'', 2)]"

definition vision_keep_turns_for :: "string option \<Rightarrow> int" where
  "vision_keep_turns_for model_id =
    (case model_id of
       None \<Rightarrow> 2
     | Some m \<Rightarrow> if m = [] then 2 else first_family (lower m) vision_keep_turns 2)"

definition replace_image :: "block \<Rightarrow> block" where
  "replace_image b = (if is_image b then TextContent placeholder_text else b)"

definition count_images :: "block list \<Rightarrow> nat" where
  "count_images bs = length (filter is_image bs)"

fun prune_message :: "message \<Rightarrow> message \<times> nat" where
  "prune_message (UserMessage (CStr s)) = (UserMessage (CStr s), 0)"
| "prune_message (UserMessage (CBlocks bs)) =
    (if 0 < count_images bs
     then (UserMessage (CBlocks (map replace_image bs)), count_images bs)
     else (UserMessage (CBlocks bs), 0))"
| "prune_message (AssistantMessage a) =
    (if 0 < count_images (am_content a)
     then (AssistantMessage (a\<lparr>am_content := map replace_image (am_content a)\<rparr>),
           count_images (am_content a))
     else (AssistantMessage a, 0))"
| "prune_message m = (m, 0)"

text \<open>
  The loop from the end: the list is given in reverse, \<open>count\<close> user turns have been seen. The
  result is the final count and the boundary, which is set where the count first exceeds \<open>keep\<close>.
\<close>

fun prune_scan :: "int \<Rightarrow> int \<Rightarrow> message list \<Rightarrow> int \<times> nat option" where
  "prune_scan keep count [] = (count, None)"
| "prune_scan keep count (m # earlier) =
    (if is_user m
     then (if keep < count + 1 then (count + 1, Some (length earlier + 1))
           else prune_scan keep (count + 1) earlier)
     else prune_scan keep count earlier)"

definition prune_old_images :: "message list \<Rightarrow> int \<Rightarrow> message list \<times> nat" where
  "prune_old_images ms keep_recent_user_turns =
    (let keep = (if keep_recent_user_turns < 0 then 0 else keep_recent_user_turns)
     in case prune_scan keep 0 (rev ms) of (count, found) \<Rightarrow>
          let boundary = (case found of None \<Rightarrow> 0 | Some b \<Rightarrow> b)
          in if count \<le> keep then (ms, 0)
             else (map (fst \<circ> prune_message) (take boundary ms) @ drop boundary ms,
                   sum_list (map (snd \<circ> prune_message) (take boundary ms))))"

subsection \<open>Lemmas\<close>

fun message_images :: "message \<Rightarrow> nat" where
  "message_images (UserMessage (CBlocks bs)) = count_images bs"
| "message_images (AssistantMessage a) = count_images (am_content a)"
| "message_images _ = 0"

definition user_turns :: "message list \<Rightarrow> int" where
  "user_turns ms = int (length (filter is_user ms))"

lemma count_images_replaced [simp]: "count_images (map replace_image bs) = 0"
  by (auto simp: count_images_def replace_image_def filter_empty_conv)

lemma replace_image_id: "count_images bs = 0 \<Longrightarrow> map replace_image bs = bs"
  by (induction bs) (auto simp: count_images_def replace_image_def)

lemma prune_message_images:
  "message_images (fst (prune_message m)) = 0 \<and> snd (prune_message m) = message_images m"
  by (cases m rule: prune_message.cases) auto

lemma prune_message_user [simp]: "is_user (fst (prune_message m)) = is_user m"
  by (cases m rule: prune_message.cases) auto

lemma prune_message_idem: "prune_message (fst (prune_message m)) = (fst (prune_message m), 0)"
  by (cases m rule: prune_message.cases) auto

lemma prune_message_same: "message_images m = 0 \<Longrightarrow> fst (prune_message m) = m"
  by (cases m rule: prune_message.cases) auto

text \<open>
  What the scan finds: with \<open>n\<close> more user turns allowed, the boundary is just after the
  (\<open>n + 1\<close>)-th user turn from the end, so exactly \<open>n\<close> user turns follow it.
\<close>

lemma prune_scan_None:
  "count \<le> keep \<Longrightarrow> prune_scan keep count es = (c, None) \<Longrightarrow>
   c = count + user_turns es \<and> c \<le> keep"
  by (induction keep count es rule: prune_scan.induct) (auto simp: user_turns_def split: if_splits)

lemma prune_scan_Some:
  "count \<le> keep \<Longrightarrow> prune_scan keep count es = (c, Some b) \<Longrightarrow>
   c = keep + 1 \<and> 0 < b \<and> b \<le> length es \<and> is_user (es ! (length es - b)) \<and>
   user_turns (take (length es - b) es) = keep - count"
proof (induction keep count es rule: prune_scan.induct)
  case (1 keep count)
  then show ?case by simp
next
  case (2 keep count m es)
  show ?case
  proof (cases "is_user m \<and> keep < count + 1")
    case True
    with 2(3,4) show ?thesis by (auto simp: user_turns_def)
  next
    case False
    then have IH: "c = keep + 1 \<and> 0 < b \<and> b \<le> length es \<and> is_user (es ! (length es - b)) \<and>
      user_turns (take (length es - b) es) = keep - (if is_user m then count + 1 else count)"
      using 2 by (cases "is_user m") auto
    then have "length (m # es) - b = Suc (length es - b)" by auto
    with IH show ?thesis by (auto simp: user_turns_def)
  qed
qed


lemma prune_old_images_cases:
  fixes ms :: "message list"
  obtains (few) "user_turns ms \<le> max 0 k" and "prune_old_images ms k = (ms, 0)"
  | (cut) b where "0 < b" and "b \<le> length ms" and "user_turns (drop b ms) = max 0 k"
      and "is_user (ms ! (b - 1))"
      and "prune_old_images ms k =
            (map (fst \<circ> prune_message) (take b ms) @ drop b ms,
             sum_list (map (snd \<circ> prune_message) (take b ms)))"
proof -
  let ?keep = "if k < 0 then 0 else k"
  have keep: "?keep = max 0 k" by simp
  obtain c f where sc: "prune_scan ?keep 0 (rev ms) = (c, f)" by fastforce
  show thesis
  proof (cases f)
    case None
    with sc prune_scan_None [of 0 ?keep "rev ms" c] have "c = user_turns ms" "c \<le> ?keep"
      by (auto simp: user_turns_def rev_filter [symmetric])
    then show thesis
      using few sc None keep by (simp add: prune_old_images_def Let_def)
  next
    case (Some b)
    with sc prune_scan_Some [of 0 ?keep "rev ms" c b]
    have s: "c = ?keep + 1" "0 < b" "b \<le> length ms" "is_user (rev ms ! (length ms - b))"
      "user_turns (take (length ms - b) (rev ms)) = ?keep"
      by auto
    have "user_turns (drop b ms) = ?keep"
      using s(3,5) by (simp add: user_turns_def take_rev rev_filter [symmetric])
    moreover have "is_user (ms ! (b - 1))"
      using s(2,3,4) by (simp add: rev_nth)
    ultimately show thesis
      using cut [of b] s sc Some keep by (simp add: prune_old_images_def Let_def)
  qed
qed

text \<open>The pass changes no message's kind and leaves the number of messages alone.\<close>

lemma prune_length [keep_laws]: "length (fst (prune_old_images ms k)) = length ms"
  by (rule prune_old_images_cases [of ms k]) auto

lemma prune_is_user [keep_laws]:
  "map is_user (fst (prune_old_images ms k)) = map is_user ms"
proof (rule prune_old_images_cases [of ms k])
  fix b
  assume "b \<le> length ms"
    and "prune_old_images ms k = (map (fst \<circ> prune_message) (take b ms) @ drop b ms,
           sum_list (map (snd \<circ> prune_message) (take b ms)))"
  then have "map is_user (fst (prune_old_images ms k)) =
      map is_user (take b ms) @ map is_user (drop b ms)"
    by (simp add: comp_def)
  then show ?thesis by (metis append_take_drop_id map_append)
qed simp

lemma sum_prune_counts:
  "sum_list (map (snd \<circ> prune_message) ms) = sum_list (map message_images ms)"
  by (induction ms) (simp_all add: prune_message_images)

lemma pruned_images_zero:
  "sum_list (map message_images (map (fst \<circ> prune_message) ms)) = 0"
  by (induction ms) (simp_all add: prune_message_images)

lemma sum_images_split:
  "sum_list (map message_images ms) =
     sum_list (map message_images (take b ms)) + sum_list (map message_images (drop b ms))"
  by (metis append_take_drop_id map_append sum_list_append)

subsection \<open>Properties\<close>

text \<open>Pruning keeps the last \<open>keep\<close> user turns with their images and removes every image before the
  boundary; the count it returns is the number of images that are gone; the number and the kinds
  of the messages stay.\<close>

lemma prune_keeps_recent_turns:
  "\<exists>b \<le> length ms. (user_turns (drop b ms) = max 0 k \<or> b = 0 \<and> user_turns ms \<le> max 0 k) \<and>
     drop b (fst (prune_old_images ms k)) = drop b ms \<and>
     sum_list (map message_images (take b (fst (prune_old_images ms k)))) = 0 \<and>
     snd (prune_old_images ms k) =
       sum_list (map message_images ms) - sum_list (map message_images (fst (prune_old_images ms k))) \<and>
     map is_user (fst (prune_old_images ms k)) = map is_user ms"
proof (rule prune_old_images_cases [of ms k])
  assume "user_turns ms \<le> max 0 k" and "prune_old_images ms k = (ms, 0)"
  then show ?thesis by (intro exI [of _ 0]) simp
next
  fix b
  assume b: "b \<le> length ms" and u: "user_turns (drop b ms) = max 0 k"
    and p: "prune_old_images ms k =
      (map (fst \<circ> prune_message) (take b ms) @ drop b ms,
       sum_list (map (snd \<circ> prune_message) (take b ms)))"
  have kinds: "map is_user (fst (prune_old_images ms k)) = map is_user ms" by (rule prune_is_user)
  have "sum_list (map message_images ms) -
      sum_list (map message_images (fst (prune_old_images ms k))) =
      sum_list (map message_images (take b ms))"
    using sum_images_split [of ms b] pruned_images_zero [of "take b ms"]
    by (simp add: p del: map_map sum_list_eq_0_iff)
  then show ?thesis
    using b u kinds pruned_images_zero [of "take b ms"] sum_prune_counts [of "take b ms"]
    by (intro exI [of _ b]) (simp add: p)
qed

end
