(* ===== verification/ReplaySanitizer.thy ===== *)
theory ReplaySanitizer
  imports Messages
begin

section \<open>The replay sanitiser\<close>

text \<open>
  \<open>oxenclaw/pi/run/replay_sanitizer.py\<close>: dropping malformed tool calls from a reloaded transcript.
  The Python walks the list in place and pops emptied messages; the model returns the new list
  with the report. An assistant message that was empty from the start is kept, as in the source,
  where only a message that lost a block can be removed. The lemmas show that the result is
  well formed, that the pass is idempotent and that nothing but malformed tool calls is lost.
\<close>

definition replay_tool_name_max :: nat where
  "replay_tool_name_max = 64"

record sanitize_report =
  sr_dropped_blocks :: nat
  sr_dropped_messages :: nat

fun is_well_formed :: "string set option \<Rightarrow> block \<Rightarrow> bool" where
  "is_well_formed allowed (ToolUseBlock i raw_name inp) =
    (if strip i = [] then False
     else if \<not> is_dict inp then False
     else let name = strip raw_name
          in if name = [] \<or> replay_tool_name_max < length name then False
             else if list_ex is_space name then False
             else (case allowed of
                     None \<Rightarrow> True
                   | Some names \<Rightarrow> names = {} \<or> name \<in> names))"
| "is_well_formed allowed _ = True"

text \<open>One message: what is left of it (\<open>None\<close> when it goes) and how many blocks were dropped.\<close>

fun sanitize_message :: "string set option \<Rightarrow> message \<Rightarrow> message option \<times> nat" where
  "sanitize_message allowed (AssistantMessage a) =
    (let kept = filter (is_well_formed allowed) (am_content a);
         dropped = length (am_content a) - length kept
     in if length kept \<noteq> length (am_content a)
        then (if kept = [] then (None, dropped)
              else (Some (AssistantMessage (a\<lparr>am_content := kept\<rparr>)), dropped))
        else (Some (AssistantMessage a), dropped))"
| "sanitize_message allowed m = (Some m, 0)"

fun sanitize_replay_tool_calls ::
  "string set option \<Rightarrow> message list \<Rightarrow> message list \<times> sanitize_report" where
  "sanitize_replay_tool_calls allowed [] =
     ([], \<lparr>sr_dropped_blocks = 0, sr_dropped_messages = 0\<rparr>)"
| "sanitize_replay_tool_calls allowed (m # ms) =
    (case sanitize_message allowed m of (r, d) \<Rightarrow>
       (case sanitize_replay_tool_calls allowed ms of (rest, rep) \<Rightarrow>
          (case r of
             None \<Rightarrow> (rest, rep\<lparr>sr_dropped_blocks := d + sr_dropped_blocks rep,
                               sr_dropped_messages := 1 + sr_dropped_messages rep\<rparr>)
           | Some m' \<Rightarrow> (m' # rest, rep\<lparr>sr_dropped_blocks := d + sr_dropped_blocks rep\<rparr>))))"

subsection \<open>Lemmas\<close>

text \<open>What a provider accepts: every tool call is well formed.\<close>

fun replayable :: "string set option \<Rightarrow> message \<Rightarrow> bool" where
  "replayable allowed (AssistantMessage a) = list_all (is_well_formed allowed) (am_content a)"
| "replayable allowed _ = True"

lemma filter_length_eq: "length (filter P xs) = length xs \<longleftrightarrow> list_all P xs"
proof (induction xs)
  case Nil
  show ?case by simp
next
  case (Cons x xs)
  have "length (filter P xs) \<noteq> Suc (length xs)"
    using length_filter_le [of P xs] by linarith
  with Cons show ?case by auto
qed

lemma sanitize_message_replayable:
  "sanitize_message allowed m = (Some m', d) \<Longrightarrow> replayable allowed m'"
  by (cases m) (auto simp: Let_def list_all_iff filter_length_eq split: if_splits)

lemma sanitize_message_id: "replayable allowed m \<Longrightarrow> sanitize_message allowed m = (Some m, 0)"
  by (cases m) (auto simp: Let_def filter_length_eq filter_id_conv list_all_iff)

lemma sanitize_replayable:
  "m \<in> set (fst (sanitize_replay_tool_calls allowed ms)) \<Longrightarrow> replayable allowed m"
proof (induction ms)
  case Nil
  then show ?case by simp
next
  case (Cons x ms)
  then show ?case
    by (auto split: prod.splits option.splits dest: sanitize_message_replayable)
qed

lemma sanitize_id:
  "list_all (replayable allowed) ms \<Longrightarrow>
   sanitize_replay_tool_calls allowed ms =
     (ms, \<lparr>sr_dropped_blocks = 0, sr_dropped_messages = 0\<rparr>)"
  by (induction ms) (auto simp: sanitize_message_id)

text \<open>The blocks of a transcript; the pass keeps exactly the well-formed ones, in order.\<close>

fun message_blocks :: "message \<Rightarrow> block list" where
  "message_blocks (AssistantMessage a) = am_content a"
| "message_blocks _ = []"

lemma sanitize_message_blocks:
  "sanitize_message allowed m = (r, d) \<Longrightarrow>
   (case r of None \<Rightarrow> [] | Some m' \<Rightarrow> message_blocks m') =
     filter (is_well_formed allowed) (message_blocks m) \<and>
   d = length (filter (\<lambda>b. \<not> is_well_formed allowed b) (message_blocks m))"
proof (cases m)
  case (AssistantMessage a)
  have "length (filter (is_well_formed allowed) (am_content a)) +
        length (filter (\<lambda>b. \<not> is_well_formed allowed b) (am_content a)) = length (am_content a)"
    by (rule sum_length_filter_compl)
  moreover assume "sanitize_message allowed m = (r, d)"
  ultimately show ?thesis
    using AssistantMessage
    by (auto simp: Let_def filter_length_eq filter_id_conv list_all_iff split: if_splits)
qed auto

lemma sanitize_blocks:
  "concat (map message_blocks (fst (sanitize_replay_tool_calls allowed ms))) =
     filter (is_well_formed allowed) (concat (map message_blocks ms)) \<and>
   sr_dropped_blocks (snd (sanitize_replay_tool_calls allowed ms)) =
     length (filter (\<lambda>b. \<not> is_well_formed allowed b) (concat (map message_blocks ms)))"
proof (induction ms)
  case Nil
  then show ?case by simp
next
  case (Cons m ms)
  obtain r d where r: "sanitize_message allowed m = (r, d)" by fastforce
  from sanitize_message_blocks [OF r] Cons r show ?case
    by (auto split: prod.splits option.splits)
qed

subsection \<open>Properties\<close>

text \<open>What the sanitiser keeps. Every message it returns is replayable; its blocks are exactly the
  well-formed blocks of the transcript in their order; it counts what it drops; and a second pass
  changes nothing.\<close>

lemma sanitizer_keeps_well_formed:
  "list_all (replayable allowed) (fst (sanitize_replay_tool_calls allowed ms)) \<and>
   concat (map message_blocks (fst (sanitize_replay_tool_calls allowed ms))) =
     filter (is_well_formed allowed) (concat (map message_blocks ms)) \<and>
   sr_dropped_blocks (snd (sanitize_replay_tool_calls allowed ms)) =
     length (filter (\<lambda>b. \<not> is_well_formed allowed b) (concat (map message_blocks ms))) \<and>
   fst (sanitize_replay_tool_calls allowed (fst (sanitize_replay_tool_calls allowed ms))) =
     fst (sanitize_replay_tool_calls allowed ms)"
proof -
  have "list_all (replayable allowed) (fst (sanitize_replay_tool_calls allowed ms))"
    using sanitize_replayable by (auto simp: list_all_iff)
  with sanitize_blocks [of allowed ms] sanitize_id [OF this] show ?thesis by simp
qed

end
