(* ===== verification/AuthPool.thy ===== *)
theory AuthPool
  imports Prelude
begin

section \<open>The pool of API keys\<close>

text \<open>
  \<open>AuthKeyPool\<close> of \<open>oxenclaw/pi/auth_pool.py\<close>: several keys per provider, a strategy that picks one,
  cooldowns after failures, and a lock that pins one key. \<open>time.time()\<close> is the argument \<open>now\<close> of an
  operation, read once; \<open>random.choice\<close> is the argument \<open>rnd\<close>, which gives an index below its
  argument. The lemmas say which key a call can return, that round robin is fair, and how long a key
  that failed stays out.
\<close>

datatype pool_strategy = RoundRobin | FillFirst | LeastUsed | RandomKey

record pool_entry =
  pe_key_id :: string
  pe_api_key :: string
  pe_failure_count :: int
  pe_last_failure :: "real option"
  pe_cooldown_until :: real
  pe_use_count :: int

definition pool_entry_new :: "string \<Rightarrow> string \<Rightarrow> pool_entry" where
  "pool_entry_new key_id api_key =
    \<lparr>pe_key_id = key_id, pe_api_key = api_key, pe_failure_count = 0, pe_last_failure = None,
     pe_cooldown_until = 0, pe_use_count = 0\<rparr>"

definition is_alive :: "real \<Rightarrow> pool_entry \<Rightarrow> bool" where
  "is_alive now e \<longleftrightarrow> pe_cooldown_until e \<le> now"

record key_pool =
  kp_cooldown_seconds :: real
  kp_strategy :: pool_strategy
  kp_by_provider :: "(string \<times> pool_entry list) list"
  kp_cursor :: "(string \<times> nat) list"
  kp_locked :: "(string \<times> string) list"

definition key_pool_new :: "real \<Rightarrow> pool_strategy \<Rightarrow> key_pool" where
  "key_pool_new cooldown strategy =
    \<lparr>kp_cooldown_seconds = cooldown, kp_strategy = strategy, kp_by_provider = [], kp_cursor = [],
     kp_locked = []\<rparr>"

definition entries_of :: "key_pool \<Rightarrow> string \<Rightarrow> pool_entry list" where
  "entries_of pool provider =
    (case map_of (kp_by_provider pool) provider of None \<Rightarrow> [] | Some es \<Rightarrow> es)"

definition set_entries :: "string \<Rightarrow> pool_entry list \<Rightarrow> key_pool \<Rightarrow> key_pool" where
  "set_entries provider es pool =
    pool\<lparr>kp_by_provider := dict_set provider es (kp_by_provider pool)\<rparr>"

subsection \<open>The operations\<close>

definition pool_add :: "string \<Rightarrow> string \<Rightarrow> string \<Rightarrow> key_pool \<Rightarrow> key_pool" where
  "pool_add provider key_id api_key pool =
    set_entries provider (entries_of pool provider @ [pool_entry_new key_id api_key]) pool"

definition pool_lock :: "string \<Rightarrow> string \<Rightarrow> key_pool \<Rightarrow> key_pool" where
  "pool_lock provider key_id pool = pool\<lparr>kp_locked := dict_set provider key_id (kp_locked pool)\<rparr>"

definition pool_unlock :: "string \<Rightarrow> key_pool \<Rightarrow> key_pool" where
  "pool_unlock provider pool = pool\<lparr>kp_locked := dict_pop provider (kp_locked pool)\<rparr>"

text \<open>The position of the first entry that has the property, from position \<open>i\<close> on.\<close>

fun find_from :: "(pool_entry \<Rightarrow> bool) \<Rightarrow> nat \<Rightarrow> pool_entry list \<Rightarrow> nat option" where
  "find_from P i [] = None"
| "find_from P i (e # es) = (if P e then Some i else find_from P (Suc i) es)"

text \<open>\<open>min(alive, key=...)\<close>: the first of the least used living keys.\<close>

fun least_used :: "real \<Rightarrow> nat \<Rightarrow> pool_entry list \<Rightarrow> (nat \<times> int) option \<Rightarrow> nat option" where
  "least_used now i [] best = map_option fst best"
| "least_used now i (e # es) best =
    least_used now (Suc i) es
      (if is_alive now e \<and> (case best of None \<Rightarrow> True | Some (_, n) \<Rightarrow> pe_use_count e < n)
       then Some (i, pe_use_count e) else best)"

text \<open>The loop of round robin: the offsets that are left, from \<open>start\<close>.\<close>

fun round_robin :: "real \<Rightarrow> pool_entry list \<Rightarrow> nat \<Rightarrow> nat list \<Rightarrow> nat option" where
  "round_robin now es start [] = None"
| "round_robin now es start (offset # offsets) =
    (let i = (start + offset) mod length es
     in if is_alive now (es ! i) then Some i else round_robin now es start offsets)"

definition alive_indices :: "real \<Rightarrow> pool_entry list \<Rightarrow> nat list" where
  "alive_indices now es = filter (\<lambda>i. is_alive now (es ! i)) [0..<length es]"

definition pick_key :: "real \<Rightarrow> (nat \<Rightarrow> nat) \<Rightarrow> string \<Rightarrow> key_pool \<Rightarrow> nat option" where
  "pick_key now rnd provider pool =
    (let es = entries_of pool provider; alive = alive_indices now es
     in if alive = [] then None
        else case kp_strategy pool of
               FillFirst \<Rightarrow> Some (hd alive)
             | LeastUsed \<Rightarrow> least_used now 0 es None
             | RandomKey \<Rightarrow> Some (alive ! rnd (length alive))
             | RoundRobin \<Rightarrow>
                 round_robin now es
                   ((case map_of (kp_cursor pool) provider of None \<Rightarrow> 0 | Some c \<Rightarrow> c) mod length es)
                   [0..<length es])"

text \<open>Use the key at position \<open>i\<close>.\<close>

definition use_key :: "string \<Rightarrow> nat \<Rightarrow> key_pool \<Rightarrow> (string \<times> string) option \<times> key_pool" where
  "use_key provider i pool =
    (let es = entries_of pool provider; e = es ! i
     in (Some (pe_key_id e, pe_api_key e),
         set_entries provider (es[i := e\<lparr>pe_use_count := pe_use_count e + 1\<rparr>]) pool))"

definition locked_index :: "string \<Rightarrow> key_pool \<Rightarrow> nat option" where
  "locked_index provider pool =
    (case map_of (kp_locked pool) provider of
       None \<Rightarrow> None
     | Some k \<Rightarrow> find_from (\<lambda>e. pe_key_id e = k) 0 (entries_of pool provider))"

definition pool_get ::
  "real \<Rightarrow> (nat \<Rightarrow> nat) \<Rightarrow> string \<Rightarrow> key_pool \<Rightarrow> (string \<times> string) option \<times> key_pool" where
  "pool_get now rnd provider pool =
    (if entries_of pool provider = [] then (None, pool)
     else case locked_index provider pool of
       Some i \<Rightarrow> use_key provider i pool
     | None \<Rightarrow>
        (case pick_key now rnd provider pool of
           None \<Rightarrow> (None, pool)
         | Some i \<Rightarrow>
             use_key provider i
               (if kp_strategy pool = RoundRobin
                then pool\<lparr>kp_cursor := dict_set provider
                       ((i + 1) mod length (entries_of pool provider)) (kp_cursor pool)\<rparr>
                else pool)))"

definition cooldown_for :: "key_pool \<Rightarrow> real option \<Rightarrow> int \<Rightarrow> real" where
  "cooldown_for pool retry_after failures =
    (case retry_after of
       Some r \<Rightarrow> (if 0 < r then min r 3600
                 else kp_cooldown_seconds pool * (if 3 \<le> failures then 5 else 1))
     | None \<Rightarrow> kp_cooldown_seconds pool * (if 3 \<le> failures then 5 else 1))"

definition fail_entry :: "key_pool \<Rightarrow> real \<Rightarrow> real option \<Rightarrow> pool_entry \<Rightarrow> pool_entry" where
  "fail_entry pool now retry_after e =
    (if (case pe_last_failure e of None \<Rightarrow> False | Some t \<Rightarrow> now - t < 5) then e
     else e\<lparr>pe_failure_count := pe_failure_count e + 1, pe_last_failure := Some now,
            pe_cooldown_until := now + cooldown_for pool retry_after (pe_failure_count e + 1)\<rparr>)"

definition report_failure :: "real \<Rightarrow> string \<Rightarrow> string \<Rightarrow> real option \<Rightarrow> key_pool \<Rightarrow> key_pool" where
  "report_failure now provider key_id retry_after pool =
    (let es = entries_of pool provider
     in case find_from (\<lambda>e. pe_key_id e = key_id) 0 es of
          None \<Rightarrow> pool
        | Some i \<Rightarrow> set_entries provider (es[i := fail_entry pool now retry_after (es ! i)]) pool)"

definition succeed_entry :: "string \<Rightarrow> pool_entry \<Rightarrow> pool_entry" where
  "succeed_entry key_id e =
    (if pe_key_id e = key_id \<and> pe_failure_count e \<noteq> 0
     then e\<lparr>pe_failure_count := 0, pe_cooldown_until := 0\<rparr> else e)"

definition report_success :: "string \<Rightarrow> string \<Rightarrow> key_pool \<Rightarrow> key_pool" where
  "report_success provider key_id pool =
    (if entries_of pool provider = [] then pool
     else set_entries provider (map (succeed_entry key_id) (entries_of pool provider)) pool)"

record key_status =
  ks_key_id :: string
  ks_alive :: bool
  ks_failure_count :: int
  ks_cooldown_until :: real
  ks_last_failure :: "real option"
  ks_use_count :: int

definition keys_for :: "real \<Rightarrow> string \<Rightarrow> key_pool \<Rightarrow> key_status list" where
  "keys_for now provider pool =
    map (\<lambda>e. \<lparr>ks_key_id = pe_key_id e, ks_alive = is_alive now e,
              ks_failure_count = pe_failure_count e, ks_cooldown_until = pe_cooldown_until e,
              ks_last_failure = pe_last_failure e, ks_use_count = pe_use_count e\<rparr>)
      (entries_of pool provider)"

subsection \<open>Lemmas on the choice\<close>

lemma find_from_Some:
  "find_from P i es = Some k \<Longrightarrow> i \<le> k \<and> k < i + length es \<and> P (es ! (k - i))"
  by (induction P i es rule: find_from.induct) (auto simp: nth_Cons' split: if_splits)

lemma find_from_None: "find_from P i es = None \<longleftrightarrow> list_all (\<lambda>e. \<not> P e) es"
  by (induction P i es rule: find_from.induct) auto

lemma least_used_Some:
  "least_used now i es best = Some k \<Longrightarrow>
   (\<exists>n. best = Some (k, n)) \<or> (i \<le> k \<and> k < i + length es \<and> is_alive now (es ! (k - i)))"
proof (induction now i es best rule: least_used.induct)
  case (1 now i best)
  then show ?case by auto
next
  case (2 now i e es best)
  let ?b = "is_alive now e \<and> (case best of None \<Rightarrow> True | Some (_, n) \<Rightarrow> pe_use_count e < n)"
  have "(\<exists>n. (if ?b then Some (i, pe_use_count e) else best) = Some (k, n)) \<or>
      Suc i \<le> k \<and> k < Suc i + length es \<and> is_alive now (es ! (k - Suc i))"
    using 2 by simp
  then show ?case
    by (cases ?b) (auto simp: nth_Cons')
qed

lemma least_used_None:
  "least_used now i es best = None \<longleftrightarrow> best = None \<and> list_all (\<lambda>e. \<not> is_alive now e) es"
  by (induction now i es best rule: least_used.induct) auto

lemma round_robin_Some:
  "round_robin now es start offs = Some k \<Longrightarrow> es \<noteq> [] \<Longrightarrow> k < length es \<and> is_alive now (es ! k)"
  by (induction now es start offs rule: round_robin.induct) (auto simp: Let_def split: if_splits)

lemma round_robin_None:
  "round_robin now es start offs = None \<longleftrightarrow>
     list_all (\<lambda>k. \<not> is_alive now (es ! ((start + k) mod length es))) offs"
  by (induction now es start offs rule: round_robin.induct) (auto simp: Let_def)

lemma alive_indices_Nil: "alive_indices now es = [] \<longleftrightarrow> list_all (\<lambda>e. \<not> is_alive now e) es"
  by (auto simp: alive_indices_def list_all_length filter_empty_conv)

lemma in_alive_indices: "i \<in> set (alive_indices now es) \<longleftrightarrow> i < length es \<and> is_alive now (es ! i)"
  by (auto simp: alive_indices_def)

lemma pick_key_alive:
  assumes "pick_key now rnd provider pool = Some i" and "\<And>n. 0 < n \<Longrightarrow> rnd n < n"
  shows "i < length (entries_of pool provider) \<and> is_alive now (entries_of pool provider ! i)"
proof -
  let ?es = "entries_of pool provider"
  from assms(1) have ne: "alive_indices now ?es \<noteq> []"
    by (auto simp: pick_key_def Let_def split: if_splits)
  then have "?es \<noteq> []" by (auto simp: alive_indices_Nil)
  show ?thesis
  proof (cases "kp_strategy pool")
    case RoundRobin
    with assms(1) ne \<open>?es \<noteq> []\<close> show ?thesis
      by (auto simp: pick_key_def Let_def dest: round_robin_Some)
  next
    case FillFirst
    with assms(1) ne have "i \<in> set (alive_indices now ?es)" by (auto simp: pick_key_def Let_def)
    then show ?thesis by (simp add: in_alive_indices)
  next
    case LeastUsed
    with assms(1) ne have "least_used now 0 ?es None = Some i" by (simp add: pick_key_def Let_def)
    from least_used_Some [OF this] show ?thesis by simp
  next
    case RandomKey
    with assms ne have "i \<in> set (alive_indices now ?es)" by (auto simp: pick_key_def Let_def)
    then show ?thesis by (simp add: in_alive_indices)
  qed
qed

lemma pick_key_None:
  assumes "pick_key now rnd provider pool = None"
  shows "list_all (\<lambda>e. \<not> is_alive now e) (entries_of pool provider)"
proof (cases "alive_indices now (entries_of pool provider) = []")
  case True
  then show ?thesis by (simp add: alive_indices_Nil)
next
  case False
  let ?es = "entries_of pool provider"
  show ?thesis
  proof (cases "kp_strategy pool")
    case RoundRobin
    define c where "c = (case map_of (kp_cursor pool) provider of None \<Rightarrow> 0 | Some c \<Rightarrow> c) mod length ?es"
    from RoundRobin False assms have "round_robin now ?es c [0..<length ?es] = None"
      by (simp add: pick_key_def Let_def c_def)
    then have r: "\<not> is_alive now (?es ! ((c + k) mod length ?es))" if "k < length ?es" for k
      using that by (simp add: round_robin_None list_all_iff)
    have "\<not> is_alive now (?es ! i)" if i: "i < length ?es" for i
    proof -
      have c: "c < length ?es" unfolding c_def using i by (intro mod_less_divisor) auto
      define k where "k = (i + length ?es - c) mod length ?es"
      have "k < length ?es" unfolding k_def using i by (intro mod_less_divisor) auto
      moreover have "(c + k) mod length ?es = i"
        unfolding k_def using c i by (simp add: mod_add_right_eq)
      ultimately show ?thesis using r [of k] by simp
    qed
    then show ?thesis by (simp add: list_all_length)
  qed (use assms False in \<open>simp_all add: pick_key_def Let_def least_used_None\<close>)
qed

subsection \<open>Lemmas on the entries\<close>

lemma entries_set [simp]: "entries_of (set_entries p es pool) q = (if q = p then es else entries_of pool q)"
  by (simp add: entries_of_def set_entries_def map_of_dict_set)

lemma set_entries_fields [simp]:
  "kp_strategy (set_entries p es pool) = kp_strategy pool"
  "kp_cursor (set_entries p es pool) = kp_cursor pool"
  "kp_locked (set_entries p es pool) = kp_locked pool"
  by (simp_all add: set_entries_def)

lemma entries_cursor [simp]: "entries_of (pool\<lparr>kp_cursor := c\<rparr>) q = entries_of pool q"
  by (simp add: entries_of_def)

definition key_of :: "pool_entry \<Rightarrow> string \<times> string" where
  "key_of e = (pe_key_id e, pe_api_key e)"

lemma use_key_simps [simp]:
  "fst (use_key p i pool) = Some (key_of (entries_of pool p ! i))"
  "kp_strategy (snd (use_key p i pool)) = kp_strategy pool"
  "kp_cursor (snd (use_key p i pool)) = kp_cursor pool"
  "kp_locked (snd (use_key p i pool)) = kp_locked pool"
  by (simp_all add: use_key_def key_of_def Let_def)

subsection \<open>Properties\<close>

text \<open>The two ways in which a call answers.\<close>

lemma pool_get_cases:
  obtains (empty) "entries_of pool p = []" "pool_get now rnd p pool = (None, pool)"
  | (pinned) i where "locked_index p pool = Some i" "pool_get now rnd p pool = use_key p i pool"
  | (none) "locked_index p pool = None" "pick_key now rnd p pool = None"
      "pool_get now rnd p pool = (None, pool)"
  | (picked) i pool1 where "locked_index p pool = None" "pick_key now rnd p pool = Some i"
      "entries_of pool1 p = entries_of pool p" "pool_get now rnd p pool = use_key p i pool1"
proof (cases "entries_of pool p = []")
  case True
  then show thesis by (intro empty) (simp_all add: pool_get_def)
next
  case False
  show thesis
  proof (cases "locked_index p pool")
    case (Some i)
    with False show thesis by (intro pinned) (simp_all add: pool_get_def)
  next
    case locked: None
    show thesis
    proof (cases "pick_key now rnd p pool")
      case None
      with False locked show thesis by (intro none) (simp_all add: pool_get_def)
    next
      case (Some i)
      with False locked show thesis by (intro picked [of i]) (simp_all add: pool_get_def)
    qed
  qed
qed

lemma locked_index_entry:
  "locked_index p pool = Some i \<Longrightarrow>
   i < length (entries_of pool p) \<and> map_of (kp_locked pool) p = Some (pe_key_id (entries_of pool p ! i))"
  by (auto simp: locked_index_def split: option.splits dest: find_from_Some)

text \<open>A key that the pool hands out is one of the provider's, and it is not cooling down unless it is
  the pinned one; nothing is handed out only when every key is cooling down.\<close>

lemma pool_hands_out_living_keys:
  assumes "\<forall>n > 0. rnd n < n"
  shows "case fst (pool_get now rnd p pool) of
      None \<Rightarrow> list_all (\<lambda>e. \<not> is_alive now e) (entries_of pool p) \<and> snd (pool_get now rnd p pool) = pool
    | Some k \<Rightarrow>
        \<exists>e. e \<in> set (entries_of pool p) \<and> k = key_of e \<and>
          (is_alive now e \<or> map_of (kp_locked pool) p = Some (pe_key_id e))"
proof (cases rule: pool_get_cases [of pool p now rnd])
  case empty
  then show ?thesis by simp
next
  case (pinned i)
  then show ?thesis using locked_index_entry [OF pinned(1)] nth_mem by auto
next
  case none
  then show ?thesis using pick_key_None by auto
next
  case (picked i pool1)
  then show ?thesis using pick_key_alive [OF picked(2)] assms nth_mem by auto
qed

definition demo_pool :: key_pool where
  "demo_pool = report_failure 100 ''p'' ''a'' (Some 7200)
     (pool_add ''p'' ''b'' ''kb'' (pool_add ''p'' ''a'' ''ka'' (key_pool_new 60 RoundRobin)))"

text \<open>A provider whose keys rotate: \<open>ks\<close> are its keys, \<open>cs\<close> the ends of their cooldowns.\<close>

definition rotating :: "string \<Rightarrow> (string \<times> string) list \<Rightarrow> real list \<Rightarrow> nat \<Rightarrow> key_pool \<Rightarrow> bool" where
  "rotating p ks cs c pool \<longleftrightarrow>
     kp_strategy pool = RoundRobin \<and> map_of (kp_locked pool) p = None \<and>
     map key_of (entries_of pool p) = ks \<and> map pe_cooldown_until (entries_of pool p) = cs \<and>
     (case map_of (kp_cursor pool) p of None \<Rightarrow> 0 | Some k \<Rightarrow> k) mod length ks = c mod length ks"

lemma round_robin_first:
  assumes "list_all (is_alive now) es" and "c < length es"
  shows "round_robin now es c [0..<length es] = Some c"
proof -
  have "0 < length es" using assms(2) by linarith
  then have "[0..<length es] = 0 # [Suc 0..<length es]" by (rule upt_conv_Cons)
  with assms show ?thesis by (simp add: list_all_length Let_def)
qed

lemma rotating_step:
  assumes r: "rotating p ks cs c pool" and alive: "list_all (\<lambda>u. u \<le> now) cs" and ne: "ks \<noteq> []"
  obtains pool' where "pool_get now rnd p pool = (Some (ks ! (c mod length ks)), pool')"
    and "rotating p ks cs (c + 1) pool'"
proof -
  let ?es = "entries_of pool p"
  let ?i = "c mod length ks"
  let ?pool1 = "pool\<lparr>kp_cursor := dict_set p ((?i + 1) mod length ?es) (kp_cursor pool)\<rparr>"
  have len: "length ?es = length ks" using r by (metis rotating_def length_map)
  have i: "?i < length ?es" using ne by (simp add: len)
  have all: "list_all (is_alive now) ?es"
    using r alive by (auto simp: rotating_def is_alive_def list_all_iff)
  then have some: "alive_indices now ?es \<noteq> []" using ne len by (cases ?es) (auto simp: alive_indices_Nil)
  have "pick_key now rnd p pool = Some ?i"
    using r some round_robin_first [OF all i] len by (simp add: pick_key_def rotating_def Let_def)
  moreover have "locked_index p pool = None" using r by (simp add: rotating_def locked_index_def)
  moreover have "?es \<noteq> []" using i by auto
  ultimately have get: "pool_get now rnd p pool = use_key p ?i ?pool1"
    using r by (simp add: pool_get_def rotating_def)
  have "key_of (?es ! ?i) = ks ! ?i" using r i by (auto simp: rotating_def)
  with get have "fst (pool_get now rnd p pool) = Some (ks ! ?i)" by simp
  moreover have "rotating p ks cs (c + 1) (snd (use_key p ?i ?pool1))"
  proof -
    have "map key_of (?es[?i := (?es ! ?i)\<lparr>pe_use_count := n\<rparr>]) = map key_of ?es" for n
      using i by (simp add: map_update key_of_def) (metis key_of_def list_update_id nth_map)
    moreover have "map pe_cooldown_until (?es[?i := (?es ! ?i)\<lparr>pe_use_count := n\<rparr>]) =
        map pe_cooldown_until ?es" for n
      using i by (simp add: map_update) (metis list_update_id nth_map)
    ultimately show ?thesis
      using r by (simp add: rotating_def use_key_def Let_def map_of_dict_set len mod_Suc_eq)
  qed
  ultimately show thesis using that get by (metis prod.collapse)
qed

fun pool_gets :: "(nat \<Rightarrow> nat) \<Rightarrow> string \<Rightarrow> real list \<Rightarrow> key_pool \<Rightarrow> (string \<times> string) option list" where
  "pool_gets rnd p [] pool = []"
| "pool_gets rnd p (now # nows) pool =
    (let (k, pool') = pool_get now rnd p pool in k # pool_gets rnd p nows pool')"

lemma rotating_gets:
  assumes "rotating p ks cs c pool" and "\<And>now. now \<in> set nows \<Longrightarrow> list_all (\<lambda>u. u \<le> now) cs"
    and "ks \<noteq> []"
  shows "pool_gets rnd p nows pool = map (\<lambda>i. Some (ks ! ((c + i) mod length ks))) [0..<length nows]"
  using assms(1,2)
proof (induction nows arbitrary: c pool)
  case Nil
  show ?case by simp
next
  case (Cons now nows)
  from Cons.prems(2) have "list_all (\<lambda>u. u \<le> now) cs" by simp
  then obtain pool' where get: "pool_get now rnd p pool = (Some (ks ! (c mod length ks)), pool')"
    and next_pool: "rotating p ks cs (c + 1) pool'"
    by (rule rotating_step [OF Cons.prems(1) _ assms(3)])
  have "pool_gets rnd p nows pool' =
      map (\<lambda>i. Some (ks ! ((c + 1 + i) mod length ks))) [0..<length nows]"
    by (rule Cons.IH [OF next_pool]) (use Cons.prems(2) in simp)
  moreover have "[0..<length (now # nows)] = 0 # map Suc [0..<length nows]"
    by (simp add: map_Suc_upt upt_conv_Cons del: upt_Suc)
  ultimately show ?case using get by simp
qed

text \<open>Round robin is fair. While the keys of a provider live and none is pinned, as many calls as there
  are keys hand out every key once, in their order from the cursor on.\<close>

lemma round_robin_is_fair:
  assumes "rotating p ks cs c pool" and "ks \<noteq> []" and "length nows = length ks"
    and "\<forall>now \<in> set nows. list_all (\<lambda>u. u \<le> now) cs"
  shows "pool_gets rnd p nows pool = map Some (rotate c ks)"
proof -
  have "pool_gets rnd p nows pool = map (\<lambda>i. Some (ks ! ((c + i) mod length ks))) [0..<length ks]"
    using rotating_gets [OF assms(1) _ assms(2), of nows rnd] assms(3,4) by simp
  also have "\<dots> = map Some (rotate c ks)"
    by (rule nth_equalityI) (simp_all add: nth_rotate add.commute)
  finally show ?thesis .
qed

text \<open>A key that failed stays out. After a failure that is not folded into one of the five seconds
  before, the key is not handed out again until its cooldown is over, unless it is pinned; the
  cooldown is what the provider asked for, up to an hour, or the configured one, five times as long
  from the third failure on.\<close>

lemma failed_key_stays_out:
  assumes "\<forall>n > 0. rnd n < n"
    and "distinct (map pe_key_id (entries_of pool p))" and "e \<in> set (entries_of pool p)"
    and "case pe_last_failure e of None \<Rightarrow> True | Some t \<Rightarrow> 5 \<le> now - t"
    and "map_of (kp_locked pool) p \<noteq> Some (pe_key_id e)"
    and "later < now + cooldown_for pool retry_after (pe_failure_count e + 1)"
  shows "fst (pool_get later rnd p (report_failure now p (pe_key_id e) retry_after pool)) \<noteq>
    Some (key_of e)"
proof
  let ?es = "entries_of pool p"
  let ?pool = "report_failure now p (pe_key_id e) retry_after pool"
  assume got: "fst (pool_get later rnd p ?pool) = Some (key_of e)"
  obtain i where find: "find_from (\<lambda>x. pe_key_id x = pe_key_id e) 0 ?es = Some i"
    using assms(3) find_from_None [of "\<lambda>x. pe_key_id x = pe_key_id e" 0 ?es]
    by (cases "find_from (\<lambda>x. pe_key_id x = pe_key_id e) 0 ?es") (auto simp: list_all_iff)
  from find_from_Some [OF find] have i: "i < length ?es" "pe_key_id (?es ! i) = pe_key_id e" by auto
  have e: "?es ! i = e"
    using assms(2,3) i by (metis in_set_conv_nth length_map nth_eq_iff_index_eq nth_map)
  let ?f = "fail_entry pool now retry_after e"
  have es': "entries_of ?pool p = ?es[i := ?f]" and locked: "kp_locked ?pool = kp_locked pool"
    using find e by (simp_all add: report_failure_def)
  obtain x where x: "x \<in> set (?es[i := ?f])" "key_of x = key_of e"
      "is_alive later x \<or> map_of (kp_locked pool) p = Some (pe_key_id x)"
    using pool_hands_out_living_keys [OF assms(1), where now = later and p = p and pool = ?pool] got unfolding es' locked by auto
  have "x = ?f"
  proof (rule ccontr)
    assume "x \<noteq> ?f"
    from x(1) obtain j where j: "j < length ?es" "x = ?es[i := ?f] ! j"
      by (auto simp: in_set_conv_nth)
    with \<open>x \<noteq> ?f\<close> have "j \<noteq> i" by auto
    with j have "j < length ?es" "j \<noteq> i" "x = ?es ! j" by auto
    moreover from this x(2) e have "pe_key_id (?es ! j) = pe_key_id (?es ! i)"
      by (simp add: key_of_def)
    ultimately show False
      using nth_eq_iff_index_eq [OF assms(2), of j i] i(1) by simp
  qed
  moreover have "pe_key_id ?f = pe_key_id e"
    and "pe_cooldown_until ?f = now + cooldown_for pool retry_after (pe_failure_count e + 1)"
    using assms(4) by (auto simp: fail_entry_def split: option.splits)
  ultimately show False using x(3) assms(5,6) by (auto simp: is_alive_def)
qed

text \<open>A failure just after a success is lost: the success clears the cooldown and not the time of the last
  failure, so the new failure counts as a duplicate of the old one.\<close>

lemma failure_after_success_ignored:
  assumes "pe_last_failure e = Some t" and "now - t < 5"
  shows "is_alive now (fail_entry pool now retry_after (succeed_entry (pe_key_id e) e)) \<longleftrightarrow>
    is_alive now (succeed_entry (pe_key_id e) e)"
  using assms by (simp add: fail_entry_def succeed_entry_def)

end
