(* ===== verification/Traces.thy ===== *)
theory Traces
  imports Prelude
begin

section \<open>Traces of a component\<close>

text \<open>
  A component whose operations interleave is a partial step function: from an action and a state to
  the next state and the outputs of the action, nothing where the action is impossible. \<open>runs\<close> are
  its traces, \<open>run_steps\<close> computes them, and the locale \<open>trace_invariant\<close> proves a relation between the
  first state, the actions, the outputs and the last state of every trace from its preservation by
  each step. \<open>Lanes\<close>, \<open>Approvals\<close>, \<open>NetGuard\<close>, \<open>FileState\<close> and \<open>FsTools\<close> interpret it.
\<close>

inductive runs ::
  "('a \<Rightarrow> 's \<Rightarrow> ('s \<times> 'o list) option) \<Rightarrow> 's \<Rightarrow> 'a list \<Rightarrow> 'o list \<Rightarrow> 's \<Rightarrow> bool"
  for step s0 where
  start: "runs step s0 [] [] s0"
| step: "runs step s0 as os s \<Longrightarrow> step a s = Some (s', new) \<Longrightarrow>
    runs step s0 (as @ [a]) (os @ new) s'"

inductive_cases runs_NilE: "runs step s0 [] os s"

fun run_steps ::
  "('a \<Rightarrow> 's \<Rightarrow> ('s \<times> 'o list) option) \<Rightarrow> 'a list \<Rightarrow> 's \<Rightarrow> ('o list \<times> 's) option" where
  "run_steps step [] s = Some ([], s)"
| "run_steps step (a # as) s =
    (case step a s of
       None \<Rightarrow> None
     | Some (s', new) \<Rightarrow> map_option (\<lambda>(os, t). (new @ os, t)) (run_steps step as s'))"

lemma runs_append: "runs step s bs ps t \<Longrightarrow> runs step s0 as os s \<Longrightarrow> runs step s0 (as @ bs) (os @ ps) t"
proof (induction rule: runs.induct)
  case start
  then show ?case by simp
next
  case (step bs ps s' a t new)
  then have "runs step s0 (as @ bs) (os @ ps) s'" by blast
  from runs.step [of step, OF this step.hyps(2)] show ?case by simp
qed

lemma run_steps_runs: "run_steps step as s = Some (os, t) \<Longrightarrow> runs step s as os t"
proof (induction as arbitrary: s os)
  case Nil
  then show ?case by (auto intro: runs.start)
next
  case (Cons a as)
  then obtain s' new ps where a: "step a s = Some (s', new)" and ps: "run_steps step as s' = Some (ps, t)"
    and os: "os = new @ ps"
    by (auto split: option.splits)
  have "runs step s ([] @ [a]) ([] @ new) s'" by (rule runs.step [of step, OF runs.start a])
  from runs_append [OF Cons.IH [OF ps] this] show ?case by (simp add: os)
qed

locale trace_invariant =
  fixes step :: "'a \<Rightarrow> 's \<Rightarrow> ('s \<times> 'o list) option"
    and init :: "'s \<Rightarrow> bool"
    and inv :: "'s \<Rightarrow> 'a list \<Rightarrow> 'o list \<Rightarrow> 's \<Rightarrow> bool"
  assumes inv_start: "init s0 \<Longrightarrow> inv s0 [] [] s0"
    and inv_step: "init s0 \<Longrightarrow> inv s0 as os s \<Longrightarrow> step a s = Some (s', new) \<Longrightarrow>
      inv s0 (as @ [a]) (os @ new) s'"
begin

lemma holds: "runs step s0 as os s \<Longrightarrow> init s0 \<Longrightarrow> inv s0 as os s"
  by (induction rule: runs.induct) (auto intro: inv_start inv_step)

end

end
