(* ===== verification/Lanes.thy ===== *)
theory Lanes
  imports Traces
begin

section \<open>Concurrency lanes\<close>

text \<open>
  \<open>LaneRegistry\<close> of \<open>oxenclaw/agents/lanes.py\<close>: turns of one session run one after another, and a
  semaphore caps the turns of all sessions. A call of \<open>run\<close> is a task; it suspends where the source
  awaits the semaphore, the lock of its lane and the turn itself, so its life is a sequence of
  actions: \<open>Call\<close> up to the first suspension, \<open>WakeGlobal\<close> and \<open>WakeLane\<close> when asyncio resumes
  the first waiter, \<open>Finish\<close> when the turn returns or raises, \<open>Cancel\<close> when the task is cancelled.
  \<open>asyncio.Lock\<close> and \<open>asyncio.Semaphore\<close> are the library's: waiters are served in their order,
  and a newcomer waits when anybody does. \<open>time.monotonic()\<close> is the argument \<open>now\<close>. The lemmas
  show mutual exclusion in a lane, the cap, arrival order, and that no state is stuck.
\<close>

datatype busy_policy = Block | Queue | Interrupt | Steer

text \<open>The tuple \<open>(agent_id, session_key)\<close>.\<close>

datatype lane_key = LaneKey string string

type_synonym task = nat

text \<open>The state of a lane; the lock is its flag and its waiters, an abort event its flag when there is one.\<close>

record lane_state =
  ls_locked :: bool
  ls_waiters :: "task list"
  ls_abort :: "bool option"
  ls_pending :: "string list"
  ls_queued_at :: "real option"
  ls_in_flight_iter :: int
  ls_in_flight_tool :: string

definition lane_state_new :: lane_state where
  "lane_state_new =
    \<lparr>ls_locked = False, ls_waiters = [], ls_abort = None, ls_pending = [], ls_queued_at = None,
     ls_in_flight_iter = 0, ls_in_flight_tool = []\<rparr>"

definition BUSY_ACK_DEBOUNCE_S :: real where
  "BUSY_ACK_DEBOUNCE_S = 30"

text \<open>Where a call of \<open>run\<close> is: it awaits the semaphore, it awaits its lane, or its turn runs.\<close>

datatype phase = AwaitGlobal | AwaitLane | Running

record lane_registry =
  lr_lanes :: "(lane_key \<times> lane_state) list"
  lr_capacity :: "int option"
  lr_permits :: int
  lr_sem_waiters :: "task list"
  lr_policy :: busy_policy
  lr_last_ack :: "(lane_key \<times> real) list"
  lr_in_flight :: int
  lr_calls :: "task \<rightharpoonup> lane_key \<times> phase"

definition has_sem :: "lane_registry \<Rightarrow> bool" where
  "has_sem r \<longleftrightarrow> (case lr_capacity r of None \<Rightarrow> False | Some n \<Rightarrow> 0 < n)"

definition lane_registry_new :: "int option \<Rightarrow> busy_policy \<Rightarrow> lane_registry" where
  "lane_registry_new capacity policy =
    \<lparr>lr_lanes = [], lr_capacity = capacity,
     lr_permits = (case capacity of None \<Rightarrow> 0 | Some n \<Rightarrow> n), lr_sem_waiters = [],
     lr_policy = policy, lr_last_ack = [], lr_in_flight = 0, lr_calls = Map.empty\<rparr>"

subsection \<open>Lanes and their bookkeeping\<close>

definition lane_of :: "lane_registry \<Rightarrow> lane_key \<Rightarrow> lane_state" where
  "lane_of r k = (case map_of (lr_lanes r) k of None \<Rightarrow> lane_state_new | Some s \<Rightarrow> s)"

definition set_lane :: "lane_key \<Rightarrow> lane_state \<Rightarrow> lane_registry \<Rightarrow> lane_registry" where
  "set_lane k s r = r\<lparr>lr_lanes := dict_set k s (lr_lanes r)\<rparr>"

text \<open>\<open>lane\<close>: the lane is created when it is looked up first.\<close>

definition touch_lane :: "lane_key \<Rightarrow> lane_registry \<Rightarrow> lane_registry" where
  "touch_lane k r = set_lane k (lane_of r k) r"

definition maybe_busy_ack :: "real \<Rightarrow> lane_key \<Rightarrow> lane_registry \<Rightarrow> bool \<times> lane_registry" where
  "maybe_busy_ack now k r0 =
    (let r = touch_lane k r0; s = lane_of r k;
         queued_at = (case ls_queued_at s of None \<Rightarrow> now | Some q \<Rightarrow> if q = 0 then now else q);
         last_ack = (case map_of (lr_last_ack r) k of None \<Rightarrow> 0 | Some a \<Rightarrow> a)
     in if \<not> ls_locked s then (False, r)
        else if now - queued_at < BUSY_ACK_DEBOUNCE_S then (False, r)
        else if now - last_ack < BUSY_ACK_DEBOUNCE_S then (False, r)
        else (True, r\<lparr>lr_last_ack := dict_set k now (lr_last_ack r)\<rparr>))"

definition queue_message :: "real \<Rightarrow> lane_key \<Rightarrow> string \<Rightarrow> lane_registry \<Rightarrow> lane_registry" where
  "queue_message now k m r =
    (let s = lane_of r k
     in set_lane k
          (s\<lparr>ls_queued_at := (case ls_queued_at s of None \<Rightarrow> Some now | q \<Rightarrow> q),
             ls_pending := ls_pending s @ [m]\<rparr>) r)"

definition signal_abort :: "lane_key \<Rightarrow> lane_registry \<Rightarrow> bool \<times> lane_registry" where
  "signal_abort k r =
    (if ls_abort (lane_of r k) = Some False
     then (True, set_lane k ((lane_of r k)\<lparr>ls_abort := Some True\<rparr>) r)
     else (False, touch_lane k r))"

subsection \<open>The stages of run\<close>

text \<open>
  The stages return the turns that they start. \<open>begin_turn\<close> is the body of the two \<open>async with\<close>
  blocks up to the turn, with the lock taken.
\<close>

definition begin_turn ::
  "task \<Rightarrow> lane_key \<Rightarrow> lane_registry \<Rightarrow> lane_registry \<times> (task \<times> lane_key) list" where
  "begin_turn t k r =
    ((set_lane k ((lane_of r k)\<lparr>ls_locked := True, ls_queued_at := None\<rparr>) r)
       \<lparr>lr_in_flight := lr_in_flight r + 1, lr_calls := (lr_calls r)(t \<mapsto> (k, Running))\<rparr>,
     [(t, k)])"

definition acquire_lane ::
  "task \<Rightarrow> lane_key \<Rightarrow> lane_registry \<Rightarrow> lane_registry \<times> (task \<times> lane_key) list" where
  "acquire_lane t k r =
    (let s = lane_of r k
     in if \<not> ls_locked s \<and> ls_waiters s = [] then begin_turn t k r
        else ((set_lane k (s\<lparr>ls_waiters := ls_waiters s @ [t]\<rparr>) r)
                \<lparr>lr_calls := (lr_calls r)(t \<mapsto> (k, AwaitLane))\<rparr>, []))"

text \<open>What \<open>run\<close> does before it awaits anything: the abort signal and the time stamp.\<close>

definition note_busy :: "real \<Rightarrow> lane_key \<Rightarrow> lane_registry \<Rightarrow> lane_registry" where
  "note_busy now k r0 =
    (let r1 = touch_lane k r0;
         r2 = (if ls_locked (lane_of r1 k) \<and> lr_policy r1 = Interrupt then snd (signal_abort k r1) else r1);
         s = lane_of r2 k
     in if ls_queued_at s = None \<and> ls_locked s
        then set_lane k (s\<lparr>ls_queued_at := Some now\<rparr>) r2 else r2)"

definition start_call ::
  "real \<Rightarrow> task \<Rightarrow> lane_key \<Rightarrow> lane_registry \<Rightarrow> lane_registry \<times> (task \<times> lane_key) list" where
  "start_call now t k r0 =
    (let r = note_busy now k r0
     in if \<not> has_sem r then acquire_lane t k r
        else if 0 < lr_permits r \<and> lr_sem_waiters r = []
        then acquire_lane t k (r\<lparr>lr_permits := lr_permits r - 1\<rparr>)
        else (r\<lparr>lr_sem_waiters := lr_sem_waiters r @ [t],
                lr_calls := (lr_calls r)(t \<mapsto> (k, AwaitGlobal))\<rparr>, []))"

definition drop_call :: "task \<Rightarrow> lane_registry \<Rightarrow> lane_registry" where
  "drop_call t r = r\<lparr>lr_calls := (lr_calls r)(t := None)\<rparr>"

definition release_permit :: "lane_registry \<Rightarrow> lane_registry" where
  "release_permit r = (if has_sem r then r\<lparr>lr_permits := lr_permits r + 1\<rparr> else r)"

text \<open>The \<open>finally\<close> block and the two exits.\<close>

definition end_turn :: "task \<Rightarrow> lane_key \<Rightarrow> lane_registry \<Rightarrow> lane_registry" where
  "end_turn t k r =
    release_permit
      (drop_call t ((set_lane k ((lane_of r k)\<lparr>ls_locked := False\<rparr>) r)\<lparr>lr_in_flight := lr_in_flight r - 1\<rparr>))"

subsection \<open>The actions\<close>

datatype lane_action =
    Call real task lane_key
  | WakeGlobal
  | WakeLane lane_key
  | Finish task
  | Cancel task
  | QueueMessage real lane_key string
  | SignalAbort lane_key
  | BusyAck real lane_key
  | InstallAbort lane_key "bool option"

fun lane_step ::
  "lane_action \<Rightarrow> lane_registry \<Rightarrow> (lane_registry \<times> (task \<times> lane_key) list) option" where
  "lane_step (Call now t k) r = (if lr_calls r t = None then Some (start_call now t k r) else None)"
| "lane_step WakeGlobal r =
    (case lr_sem_waiters r of
       [] \<Rightarrow> None
     | t # ts \<Rightarrow>
        (case lr_calls r t of
           Some (k, AwaitGlobal) \<Rightarrow>
             if 0 < lr_permits r
             then Some (acquire_lane t k
                    (drop_call t (r\<lparr>lr_permits := lr_permits r - 1, lr_sem_waiters := ts\<rparr>)))
             else None
         | _ \<Rightarrow> None))"
| "lane_step (WakeLane k) r =
    (case ls_waiters (lane_of r k) of
       [] \<Rightarrow> None
     | t # ts \<Rightarrow>
         if \<not> ls_locked (lane_of r k)
         then Some (begin_turn t k
                (drop_call t (set_lane k ((lane_of r k)\<lparr>ls_waiters := ts\<rparr>) r)))
         else None)"
| "lane_step (Finish t) r =
    (case lr_calls r t of Some (k, Running) \<Rightarrow> Some (end_turn t k r, []) | _ \<Rightarrow> None)"
| "lane_step (Cancel t) r =
    (case lr_calls r t of
       None \<Rightarrow> None
     | Some (k, AwaitGlobal) \<Rightarrow>
         Some (drop_call t (r\<lparr>lr_sem_waiters := removeAll t (lr_sem_waiters r)\<rparr>), [])
     | Some (k, AwaitLane) \<Rightarrow>
         Some (release_permit (drop_call t
           (set_lane k ((lane_of r k)\<lparr>ls_waiters := removeAll t (ls_waiters (lane_of r k))\<rparr>) r)), [])
     | Some (k, Running) \<Rightarrow> Some (end_turn t k r, []))"
| "lane_step (QueueMessage now k m) r = Some (queue_message now k m r, [])"
| "lane_step (SignalAbort k) r = Some (snd (signal_abort k r), [])"
| "lane_step (BusyAck now k) r = Some (snd (maybe_busy_ack now k r), [])"
| "lane_step (InstallAbort k a) r = Some (set_lane k ((lane_of r k)\<lparr>ls_abort := a\<rparr>) r, [])"

text \<open>The traces: the actions, the turns they start in their order, and the state they lead to.\<close>

abbreviation lane_trace ::
  "lane_registry \<Rightarrow> lane_action list \<Rightarrow> (task \<times> lane_key) list \<Rightarrow> lane_registry \<Rightarrow> bool" where
  "lane_trace \<equiv> runs lane_step"

text \<open>\<open>stats\<close>: lanes, locks held, turns in flight and what the cap leaves.\<close>

record lane_stats =
  st_lock_count :: nat
  st_locks_held :: nat
  st_capacity :: "int option"
  st_policy :: busy_policy
  st_global :: "(int \<times> int) option"

definition lane_stats_of :: "lane_registry \<Rightarrow> lane_stats" where
  "lane_stats_of r =
    \<lparr>st_lock_count = length (lr_lanes r),
     st_locks_held = length (filter (\<lambda>(k, s). ls_locked s) (lr_lanes r)),
     st_capacity = lr_capacity r, st_policy = lr_policy r,
     st_global = (case lr_capacity r of
        Some n \<Rightarrow> if 0 < n then Some (lr_in_flight r, max 0 (n - lr_in_flight r)) else None
      | None \<Rightarrow> None)\<rparr>"

subsection \<open>Lookup of lanes\<close>

lemma lane_of_set [simp]: "lane_of (set_lane k s r) j = (if j = k then s else lane_of r j)"
  by (simp add: lane_of_def set_lane_def map_of_dict_set)

lemma lane_of_frame [simp]:
  "lane_of (r\<lparr>lr_permits := n\<rparr>) j = lane_of r j"
  "lane_of (r\<lparr>lr_sem_waiters := ts\<rparr>) j = lane_of r j"
  "lane_of (r\<lparr>lr_in_flight := i\<rparr>) j = lane_of r j"
  "lane_of (r\<lparr>lr_calls := c\<rparr>) j = lane_of r j"
  "lane_of (r\<lparr>lr_last_ack := a\<rparr>) j = lane_of r j"
  by (simp_all add: lane_of_def)

lemma set_lane_frame [simp]:
  "lr_capacity (set_lane k s r) = lr_capacity r" "lr_permits (set_lane k s r) = lr_permits r"
  "lr_sem_waiters (set_lane k s r) = lr_sem_waiters r" "lr_policy (set_lane k s r) = lr_policy r"
  "lr_in_flight (set_lane k s r) = lr_in_flight r" "lr_calls (set_lane k s r) = lr_calls r"
  by (simp_all add: set_lane_def)

lemma has_sem_frame [simp]:
  "has_sem (set_lane k s r) = has_sem r"
  "has_sem (r\<lparr>lr_permits := n\<rparr>) = has_sem r"
  "has_sem (r\<lparr>lr_sem_waiters := ts\<rparr>) = has_sem r"
  "has_sem (r\<lparr>lr_in_flight := i\<rparr>) = has_sem r"
  "has_sem (r\<lparr>lr_calls := c\<rparr>) = has_sem r"
  by (simp_all add: has_sem_def)

subsection \<open>The invariant\<close>

definition in_phase :: "lane_registry \<Rightarrow> lane_key \<Rightarrow> phase \<Rightarrow> task set" where
  "in_phase r k p = {t. lr_calls r t = Some (k, p)}"

definition running :: "lane_registry \<Rightarrow> task set" where
  "running r = {t. \<exists>k. lr_calls r t = Some (k, Running)}"

definition awaiting :: "lane_registry \<Rightarrow> task set" where
  "awaiting r = {t. \<exists>k. lr_calls r t = Some (k, AwaitGlobal)}"

text \<open>The calls that hold a permit of the semaphore.\<close>

definition holding :: "lane_registry \<Rightarrow> task set" where
  "holding r = {t. \<exists>k p. lr_calls r t = Some (k, p) \<and> p \<noteq> AwaitGlobal}"

lemma phase_frame [simp]:
  "in_phase (r\<lparr>lr_permits := n\<rparr>) k p = in_phase r k p"
  "running (r\<lparr>lr_permits := n\<rparr>) = running r"
  "holding (r\<lparr>lr_permits := n\<rparr>) = holding r"
  "awaiting (r\<lparr>lr_permits := n\<rparr>) = awaiting r"
  by (simp_all add: in_phase_def running_def holding_def awaiting_def)

definition lane_ok :: "lane_registry \<Rightarrow> lane_key \<Rightarrow> bool" where
  "lane_ok r k \<longleftrightarrow>
     in_phase r k AwaitLane = set (ls_waiters (lane_of r k)) \<and> distinct (ls_waiters (lane_of r k)) \<and>
     (if ls_locked (lane_of r k) then \<exists>t. in_phase r k Running = {t} else in_phase r k Running = {})"

text \<open>
  \<open>lanes_inv c\<close> holds between two actions with \<open>c = 0\<close>; inside an action that moves a call from one
  place to the next, \<open>c = 1\<close> counts the permit on its way.
\<close>

definition lanes_inv :: "int \<Rightarrow> lane_registry \<Rightarrow> bool" where
  "lanes_inv c r \<longleftrightarrow>
     (\<forall>k. lane_ok r k) \<and> finite (dom (lr_calls r)) \<and>
     distinct (lr_sem_waiters r) \<and>
     set (lr_sem_waiters r) = awaiting r \<and>
     lr_in_flight r = int (card (running r)) \<and>
     (if has_sem r
      then 0 \<le> lr_permits r \<and> lr_capacity r = Some (lr_permits r + c + int (card (holding r)))
      else lr_sem_waiters r = [])"

lemma finite_calls:
  "finite (dom (lr_calls r)) \<Longrightarrow> finite (running r) \<and> finite (holding r)"
  by (auto simp: running_def holding_def dom_def elim!: finite_subset [rotated])

lemma inv_lane_ok: "lanes_inv c r \<Longrightarrow> lane_ok r k"
  by (simp add: lanes_inv_def)

lemma inv_finite: "lanes_inv c r \<Longrightarrow> finite (dom (lr_calls r)) \<and> finite (running r) \<and> finite (holding r)"
  using finite_calls [of r] by (simp add: lanes_inv_def)

text \<open>Moving one call: its sets before and after.\<close>

lemma calls_upd:
  assumes "lr_calls r' = (lr_calls r)(t \<mapsto> (k, p))" and "lr_calls r t = None"
  shows "in_phase r' j q = (if j = k \<and> q = p then insert t (in_phase r j q) else in_phase r j q)"
    and "running r' = (if p = Running then insert t (running r) else running r)"
    and "holding r' = (if p \<noteq> AwaitGlobal then insert t (holding r) else holding r)"
    and "t \<notin> running r" and "t \<notin> holding r" and "t \<notin> in_phase r j q"
    and "awaiting r' = (if p = AwaitGlobal then insert t (awaiting r) else awaiting r)"
  using assms by (auto simp: in_phase_def running_def holding_def awaiting_def)

lemma calls_drop:
  assumes "lr_calls r' = (lr_calls r)(t := None)"
  shows "in_phase r' j q = in_phase r j q - {t}" and "running r' = running r - {t}"
    and "holding r' = holding r - {t}" and "awaiting r' = awaiting r - {t}"
  using assms by (auto simp: in_phase_def running_def holding_def awaiting_def)

lemma lane_ok_other:
  assumes "lane_ok r j" and "lane_of r' j = lane_of r j"
    and "\<And>q. q \<noteq> AwaitGlobal \<Longrightarrow> in_phase r' j q = in_phase r j q"
  shows "lane_ok r' j"
  using assms by (simp add: lane_ok_def)

lemma begin_turn_inv:
  assumes inv: "lanes_inv 1 r" and fresh: "lr_calls r t = None" and free: "\<not> ls_locked (lane_of r k)"
  shows "lanes_inv 0 (fst (begin_turn t k r))"
proof -
  let ?r = "fst (begin_turn t k r)"
  have calls: "lr_calls ?r = (lr_calls r)(t \<mapsto> (k, Running))" by (simp add: begin_turn_def)
  note upd = calls_upd [OF calls fresh]
  have frame: "lr_sem_waiters ?r = lr_sem_waiters r" "lr_permits ?r = lr_permits r"
      "lr_capacity ?r = lr_capacity r" "has_sem ?r = has_sem r" "lr_in_flight ?r = lr_in_flight r + 1"
    by (simp_all add: begin_turn_def)
  have "lane_ok ?r j" for j
  proof (cases "j = k")
    case True
    have lane: "lane_of ?r k = (lane_of r k)\<lparr>ls_locked := True, ls_queued_at := None\<rparr>"
      by (simp add: begin_turn_def)
    show ?thesis
      using inv_lane_ok [OF inv, of k] free True by (simp add: lane_ok_def lane upd(1))
  next
    case False
    then show ?thesis
      by (intro lane_ok_other [OF inv_lane_ok [OF inv]]) (simp_all add: upd(1), simp add: begin_turn_def)
  qed
  then show ?thesis
    using inv inv_finite [OF inv] upd(2-5,7) by (simp add: lanes_inv_def frame calls)
qed

lemma acquire_lane_inv:
  assumes inv: "lanes_inv 1 r" and fresh: "lr_calls r t = None"
  shows "lanes_inv 0 (fst (acquire_lane t k r))"
proof (cases "\<not> ls_locked (lane_of r k) \<and> ls_waiters (lane_of r k) = []")
  case True
  then show ?thesis using begin_turn_inv [OF inv fresh] by (simp add: acquire_lane_def)
next
  case False
  let ?r = "fst (acquire_lane t k r)"
  have calls: "lr_calls ?r = (lr_calls r)(t \<mapsto> (k, AwaitLane))"
    using False by (auto simp: acquire_lane_def Let_def)
  note upd = calls_upd [OF calls fresh]
  have frame: "lr_sem_waiters ?r = lr_sem_waiters r" "lr_permits ?r = lr_permits r"
      "lr_capacity ?r = lr_capacity r" "has_sem ?r = has_sem r" "lr_in_flight ?r = lr_in_flight r"
    using False by (auto simp: acquire_lane_def Let_def)
  have lane: "lane_of ?r j = (if j = k then (lane_of r k)\<lparr>ls_waiters := ls_waiters (lane_of r k) @ [t]\<rparr>
      else lane_of r j)" for j
    using False by (auto simp: acquire_lane_def Let_def)
  have "lane_ok ?r j" for j
  proof (cases "j = k")
    case True
    have ok: "lane_ok r k" by (rule inv_lane_ok [OF inv])
    then have "t \<notin> set (ls_waiters (lane_of r k))" using upd(6) [of k AwaitLane] by (simp add: lane_ok_def)
    with ok True show ?thesis by (auto simp: lane_ok_def upd(1) lane)
  next
    case False
    then show ?thesis
      by (intro lane_ok_other [OF inv_lane_ok [OF inv]]) (simp_all add: upd(1) lane)
  qed
  then show ?thesis
    using inv inv_finite [OF inv] upd(2-5,7) by (simp add: lanes_inv_def frame calls)
qed

text \<open>What only touches the bookkeeping of a lane.\<close>

definition same_locks :: "lane_registry \<Rightarrow> lane_registry \<Rightarrow> bool" where
  "same_locks r r' \<longleftrightarrow>
     (\<forall>k. ls_locked (lane_of r' k) = ls_locked (lane_of r k) \<and>
          ls_waiters (lane_of r' k) = ls_waiters (lane_of r k)) \<and>
     lr_calls r' = lr_calls r \<and> lr_sem_waiters r' = lr_sem_waiters r \<and>
     lr_permits r' = lr_permits r \<and> lr_capacity r' = lr_capacity r \<and>
     lr_in_flight r' = lr_in_flight r \<and> lr_policy r' = lr_policy r"

lemma same_locks_refl [simp]: "same_locks r r"
  by (simp add: same_locks_def)

lemma same_locks_trans: "same_locks a b \<Longrightarrow> same_locks b c \<Longrightarrow> same_locks a c"
  by (simp add: same_locks_def)

lemma same_locks_set:
  "ls_locked s = ls_locked (lane_of r k) \<Longrightarrow> ls_waiters s = ls_waiters (lane_of r k) \<Longrightarrow>
   same_locks r (set_lane k s r)"
  by (simp add: same_locks_def)

lemma same_locks_inv:
  assumes "same_locks r r'"
  shows "lanes_inv c r' = lanes_inv c r"
proof -
  have calls: "lr_calls r' = lr_calls r" using assms by (simp add: same_locks_def)
  then have "in_phase r' = in_phase r" "running r' = running r" "holding r' = holding r"
      "awaiting r' = awaiting r"
    by (simp_all add: in_phase_def running_def holding_def awaiting_def fun_eq_iff)
  moreover from this have "lane_ok r' = lane_ok r"
    using assms by (simp add: fun_eq_iff lane_ok_def same_locks_def)
  moreover have "has_sem r' = has_sem r" using assms by (simp add: has_sem_def same_locks_def)
  moreover have "lr_sem_waiters r' = lr_sem_waiters r" "lr_permits r' = lr_permits r"
      "lr_capacity r' = lr_capacity r" "lr_in_flight r' = lr_in_flight r"
    using assms by (simp_all add: same_locks_def)
  ultimately show ?thesis unfolding lanes_inv_def by (simp only: calls)
qed

lemma same_locks_touch [simp]: "same_locks r (touch_lane k r)"
  by (simp add: touch_lane_def same_locks_set)

lemma same_locks_abort [simp]: "same_locks r (snd (signal_abort k r))"
  by (simp add: signal_abort_def same_locks_set)

lemma same_locks_queue [simp]: "same_locks r (queue_message now k m r)"
  by (simp add: queue_message_def Let_def same_locks_set)

lemma same_locks_ack [simp]: "same_locks r (snd (maybe_busy_ack now k r))"
proof -
  let ?r = "touch_lane k r"
  have "same_locks ?r (?r\<lparr>lr_last_ack := d\<rparr>)" for d by (simp add: same_locks_def)
  then have "same_locks r (?r\<lparr>lr_last_ack := d\<rparr>)" for d
    by (rule same_locks_trans [OF same_locks_touch])
  then show ?thesis by (simp add: maybe_busy_ack_def Let_def)
qed

lemma same_locks_note [simp]: "same_locks r (note_busy now k r)"
proof -
  let ?r1 = "touch_lane k r"
  let ?r2 = "if ls_locked (lane_of ?r1 k) \<and> lr_policy ?r1 = Interrupt then snd (signal_abort k ?r1) else ?r1"
  have "same_locks r (snd (signal_abort k ?r1))"
    by (rule same_locks_trans [OF same_locks_touch same_locks_abort])
  then have "same_locks r ?r2" by simp
  moreover have "same_locks ?r2 (note_busy now k r)"
    by (simp add: note_busy_def Let_def same_locks_set)
  ultimately show ?thesis by (rule same_locks_trans)
qed

text \<open>The permit of a call on its way.\<close>

lemma no_sem_inv: "\<not> has_sem r \<Longrightarrow> lanes_inv c r = lanes_inv c' r"
  by (simp add: lanes_inv_def)

lemma take_permit_inv:
  assumes "lanes_inv 0 r" and "0 < lr_permits r" and "has_sem r"
  shows "lanes_inv 1 (r\<lparr>lr_permits := lr_permits r - 1\<rparr>)"
  using assms by (simp add: lanes_inv_def lane_ok_def)

lemma release_permit_inv: "lanes_inv 1 r \<Longrightarrow> lanes_inv 0 (release_permit r)"
  by (cases "has_sem r") (auto simp: release_permit_def lanes_inv_def lane_ok_def)

lemma drop_global_inv:
  assumes inv: "lanes_inv 0 r" and t: "lr_calls r t = Some (k, AwaitGlobal)"
  shows "lanes_inv 0 (drop_call t (r\<lparr>lr_sem_waiters := removeAll t (lr_sem_waiters r)\<rparr>))"
proof -
  let ?r = "drop_call t (r\<lparr>lr_sem_waiters := removeAll t (lr_sem_waiters r)\<rparr>)"
  have calls: "lr_calls ?r = (lr_calls r)(t := None)" by (simp add: drop_call_def)
  note drop = calls_drop [OF calls]
  have same: "in_phase ?r j q = in_phase r j q" if "q \<noteq> AwaitGlobal" for j q
    unfolding drop(1) using t that by (auto simp: in_phase_def)
  have "running r - {t} = running r" "holding r - {t} = holding r"
    using t by (auto simp: running_def holding_def)
  moreover have "lane_ok ?r j" for j
    using inv_lane_ok [OF inv, of j] by (simp add: lane_ok_def same) (simp add: drop_call_def)
  moreover have "distinct (removeAll t (lr_sem_waiters r))"
    using inv by (simp add: lanes_inv_def distinct_removeAll)
  moreover have "lr_sem_waiters ?r = removeAll t (lr_sem_waiters r)" "has_sem ?r = has_sem r"
      "lr_permits ?r = lr_permits r" "lr_capacity ?r = lr_capacity r" "lr_in_flight ?r = lr_in_flight r"
    by (simp_all add: drop_call_def)
  ultimately show ?thesis
    using inv by (auto simp: lanes_inv_def drop calls)
qed

lemma drop_lane_inv:
  assumes inv: "lanes_inv 0 r" and t: "lr_calls r t = Some (k, AwaitLane)"
    and ws: "ws = removeAll t (ls_waiters (lane_of r k))"
  shows "lanes_inv 1 (drop_call t (set_lane k ((lane_of r k)\<lparr>ls_waiters := ws\<rparr>) r))"
proof -
  let ?r = "drop_call t (set_lane k ((lane_of r k)\<lparr>ls_waiters := ws\<rparr>) r)"
  have calls: "lr_calls ?r = (lr_calls r)(t := None)" by (simp add: drop_call_def)
  note drop = calls_drop [OF calls]
  have same: "in_phase ?r j q = in_phase r j q" if "j \<noteq> k \<or> q \<noteq> AwaitLane" for j q
    unfolding drop(1) using t that by (auto simp: in_phase_def)
  have left: "in_phase ?r k AwaitLane = in_phase r k AwaitLane - {t}" by (rule drop(1))
  have rest: "set ws = set (ls_waiters (lane_of r k)) - {t}" "distinct ws"
    using inv_lane_ok [OF inv, of k] by (simp_all add: ws lane_ok_def distinct_removeAll)
  have frame: "lane_of ?r j = (if j = k then (lane_of r k)\<lparr>ls_waiters := ws\<rparr> else lane_of r j)"
      "lr_permits ?r = lr_permits r" "lr_capacity ?r = lr_capacity r" "has_sem ?r = has_sem r"
      "lr_sem_waiters ?r = lr_sem_waiters r" "lr_in_flight ?r = lr_in_flight r" for j
    by (simp_all add: drop_call_def)
  have "lane_ok ?r j" for j
    using inv_lane_ok [OF inv, of j] rest
    by (cases "j = k") (simp_all add: lane_ok_def same frame left)
  moreover have "running r - {t} = running r" using t by (auto simp: running_def)
  moreover have "awaiting r - {t} = awaiting r" using t by (auto simp: awaiting_def)
  moreover have "t \<in> holding r" using t by (auto simp: holding_def)
  then have "int (card (holding r - {t})) = int (card (holding r)) - 1"
    using inv_finite [OF inv] card_Suc_Diff1 [of "holding r" t] by simp
  ultimately show ?thesis
    using inv by (auto simp: lanes_inv_def drop frame calls)
qed

lemma end_turn_inv:
  assumes inv: "lanes_inv 0 r" and t: "lr_calls r t = Some (k, Running)"
  shows "lanes_inv 0 (end_turn t k r)"
proof -
  define u where
    "u = drop_call t ((set_lane k ((lane_of r k)\<lparr>ls_locked := False\<rparr>) r)\<lparr>lr_in_flight := lr_in_flight r - 1\<rparr>)"
  have calls: "lr_calls u = (lr_calls r)(t := None)" by (simp add: u_def drop_call_def)
  note drop = calls_drop [OF calls]
  have same: "in_phase u j q = in_phase r j q" if "j \<noteq> k \<or> q \<noteq> Running" for j q
    unfolding drop(1) using t that by (auto simp: in_phase_def)
  have frame: "lane_of u j = (if j = k then (lane_of r k)\<lparr>ls_locked := False\<rparr> else lane_of r j)"
      "lr_permits u = lr_permits r" "lr_capacity u = lr_capacity r" "has_sem u = has_sem r"
      "lr_sem_waiters u = lr_sem_waiters r" "lr_in_flight u = lr_in_flight r - 1" for j
    by (simp_all add: u_def drop_call_def)
  have mem: "t \<in> in_phase r k Running" using t by (simp add: in_phase_def)
  have left: "in_phase u k Running = in_phase r k Running - {t}" by (rule drop(1))
  have "lane_ok u j" for j
    using inv_lane_ok [OF inv, of j] mem
    by (cases "j = k") (auto simp: lane_ok_def same frame left split: if_splits)
  moreover have "awaiting r - {t} = awaiting r" using t by (auto simp: awaiting_def)
  moreover have "t \<in> holding r" "t \<in> running r" using t by (auto simp: holding_def running_def)
  then have "int (card (holding r - {t})) = int (card (holding r)) - 1"
      "int (card (running r - {t})) = int (card (running r)) - 1"
    using inv_finite [OF inv] card_Suc_Diff1 [of "holding r" t] card_Suc_Diff1 [of "running r" t]
    by simp_all
  ultimately have "lanes_inv 1 u"
    using inv by (auto simp: lanes_inv_def drop frame calls)
  then show ?thesis unfolding end_turn_def u_def by (rule release_permit_inv)
qed

subsection \<open>Every action keeps the invariant\<close>

text \<open>The first waiter of the semaphore leaves its queue and takes a permit.\<close>

lemma wake_global_inv:
  assumes inv: "lanes_inv 0 r" and w: "lr_sem_waiters r = t # ts"
    and t: "lr_calls r t = Some (k, AwaitGlobal)" and p: "0 < lr_permits r"
  shows "lanes_inv 1 (drop_call t (r\<lparr>lr_permits := lr_permits r - 1, lr_sem_waiters := ts\<rparr>))"
proof -
  have "distinct (t # ts)" and sem: "has_sem r"
    using inv w by (auto simp: lanes_inv_def split: if_splits)
  then have "removeAll t (lr_sem_waiters r) = ts" by (simp add: w)
  with drop_global_inv [OF inv t] have "lanes_inv 0 (drop_call t (r\<lparr>lr_sem_waiters := ts\<rparr>))" by simp
  moreover have "has_sem (drop_call t (r\<lparr>lr_sem_waiters := ts\<rparr>))" using sem by (simp add: drop_call_def)
  moreover have "drop_call t (r\<lparr>lr_permits := lr_permits r - 1, lr_sem_waiters := ts\<rparr>) =
      (drop_call t (r\<lparr>lr_sem_waiters := ts\<rparr>))
        \<lparr>lr_permits := lr_permits (drop_call t (r\<lparr>lr_sem_waiters := ts\<rparr>)) - 1\<rparr>"
    by (cases r) (simp add: drop_call_def)
  moreover have "0 < lr_permits (drop_call t (r\<lparr>lr_sem_waiters := ts\<rparr>))" using p by (simp add: drop_call_def)
  ultimately show ?thesis using take_permit_inv [of "drop_call t (r\<lparr>lr_sem_waiters := ts\<rparr>)"] by simp
qed

lemma wake_lane_inv:
  assumes inv: "lanes_inv 0 r" and w: "ls_waiters (lane_of r k) = t # ts"
  shows "lanes_inv 1 (drop_call t (set_lane k ((lane_of r k)\<lparr>ls_waiters := ts\<rparr>) r))"
proof -
  have "t \<in> in_phase r k AwaitLane" and "distinct (t # ts)"
    using inv_lane_ok [OF inv, of k] by (simp_all add: lane_ok_def w)
  then show ?thesis using drop_lane_inv [OF inv, of t k ts] by (simp add: in_phase_def w)
qed

lemma start_call_inv:
  assumes inv: "lanes_inv 0 r0" and fresh: "lr_calls r0 t = None"
  shows "lanes_inv 0 (fst (start_call now t k r0))"
proof -
  let ?r = "note_busy now k r0"
  have inv': "lanes_inv 0 ?r" using inv same_locks_inv [OF same_locks_note] by blast
  have fresh': "lr_calls ?r t = None" using fresh same_locks_note [of r0 now k] by (simp add: same_locks_def)
  show ?thesis
  proof (cases "has_sem ?r")
    case False
    then have "lanes_inv 1 ?r" using inv' no_sem_inv by blast
    with False acquire_lane_inv [OF _ fresh'] show ?thesis by (simp add: start_call_def)
  next
    case sem: True
    show ?thesis
    proof (cases "0 < lr_permits ?r \<and> lr_sem_waiters ?r = []")
      case True
      with take_permit_inv [OF inv' _ sem]
      have "lanes_inv 1 (?r\<lparr>lr_permits := lr_permits ?r - 1\<rparr>)" by simp
      from acquire_lane_inv [OF this, of t k] fresh' True sem show ?thesis
        by (simp add: start_call_def Let_def)
    next
      case False
      define u where "u = ?r\<lparr>lr_sem_waiters := lr_sem_waiters ?r @ [t],
        lr_calls := (lr_calls ?r)(t \<mapsto> (k, AwaitGlobal))\<rparr>"
      have calls: "lr_calls u = (lr_calls ?r)(t \<mapsto> (k, AwaitGlobal))" by (simp add: u_def)
      note upd = calls_upd [OF calls fresh']
      have "lane_ok u j" for j
        by (rule lane_ok_other [OF inv_lane_ok [OF inv']])
           (simp_all add: upd(1), simp add: u_def)
      moreover have "t \<notin> awaiting ?r" using fresh' by (auto simp: awaiting_def)
      moreover have "lr_sem_waiters u = lr_sem_waiters ?r @ [t]" "has_sem u = has_sem ?r"
          "lr_permits u = lr_permits ?r" "lr_capacity u = lr_capacity ?r" "lr_in_flight u = lr_in_flight ?r"
        by (simp_all add: u_def)
      ultimately have "lanes_inv 0 u"
        using inv' sem upd(2,3,7) calls by (auto simp: lanes_inv_def)
      with False sem show ?thesis by (auto simp: start_call_def u_def Let_def)
    qed
  qed
qed

lemma lane_step_inv:
  assumes inv: "lanes_inv 0 r" and step: "lane_step a r = Some (r', new)"
  shows "lanes_inv 0 r'"
proof (cases a)
  case (Call now t k)
  with step have "lr_calls r t = None" "r' = fst (start_call now t k r)" by (auto split: if_splits)
  with start_call_inv [OF inv] show ?thesis by simp
next
  case WakeGlobal
  with step obtain t ts k where w: "lr_sem_waiters r = t # ts" "lr_calls r t = Some (k, AwaitGlobal)"
      "0 < lr_permits r"
    and r': "r' = fst (acquire_lane t k (drop_call t (r\<lparr>lr_permits := lr_permits r - 1, lr_sem_waiters := ts\<rparr>)))"
    by (auto split: list.splits option.splits phase.splits if_splits)
  show ?thesis
    unfolding r' by (rule acquire_lane_inv [OF wake_global_inv [OF inv w]]) (simp add: drop_call_def)
next
  case (WakeLane k)
  with step obtain t ts where w: "ls_waiters (lane_of r k) = t # ts" and free: "\<not> ls_locked (lane_of r k)"
    and r': "r' = fst (begin_turn t k (drop_call t (set_lane k ((lane_of r k)\<lparr>ls_waiters := ts\<rparr>) r)))"
    by (auto split: list.splits if_splits)
  show ?thesis
    unfolding r' by (rule begin_turn_inv [OF wake_lane_inv [OF inv w]]) (use free in \<open>simp_all add: drop_call_def\<close>)
next
  case (Finish t)
  with step obtain k where "lr_calls r t = Some (k, Running)" "r' = end_turn t k r"
    by (auto split: option.splits phase.splits)
  with end_turn_inv [OF inv] show ?thesis by simp
next
  case (Cancel t)
  then obtain k p where t: "lr_calls r t = Some (k, p)" using step by (auto split: option.splits)
  show ?thesis
  proof (cases p)
    case AwaitGlobal
    with step Cancel t have "r' = drop_call t (r\<lparr>lr_sem_waiters := removeAll t (lr_sem_waiters r)\<rparr>)"
      by simp
    moreover from t AwaitGlobal have "lr_calls r t = Some (k, AwaitGlobal)" by simp
    ultimately show ?thesis using drop_global_inv [OF inv] by simp
  next
    case AwaitLane
    with step Cancel t have "r' = release_permit (drop_call t
        (set_lane k ((lane_of r k)\<lparr>ls_waiters := removeAll t (ls_waiters (lane_of r k))\<rparr>) r))"
      by simp
    moreover from t AwaitLane have "lr_calls r t = Some (k, AwaitLane)" by simp
    ultimately show ?thesis using release_permit_inv [OF drop_lane_inv [OF inv _ refl]] by simp
  next
    case Running
    with step Cancel t have "r' = end_turn t k r" by simp
    with t Running end_turn_inv [OF inv] show ?thesis by simp
  qed
next
  case (QueueMessage now k m)
  with step inv show ?thesis using same_locks_inv [OF same_locks_queue] by auto
next
  case (SignalAbort k)
  with step inv show ?thesis using same_locks_inv [OF same_locks_abort] by auto
next
  case (BusyAck now k)
  with step inv show ?thesis using same_locks_inv [OF same_locks_ack] by auto
next
  case (InstallAbort k b)
  with step inv show ?thesis using same_locks_inv [OF same_locks_set, of "(lane_of r k)\<lparr>ls_abort := b\<rparr>" r k]
    by simp
qed

lemma lanes_inv_start: "lanes_inv 0 (lane_registry_new capacity policy)"
  by (auto simp: lanes_inv_def lane_registry_new_def lane_ok_def in_phase_def running_def holding_def
      awaiting_def has_sem_def lane_of_def lane_state_new_def split: option.splits)

interpretation lane_safety: trace_invariant lane_step "lanes_inv 0" "\<lambda>r0 as starts r. lanes_inv 0 r"
  by unfold_locales (auto intro: lane_step_inv)

subsection \<open>Arrival order\<close>

fun arrival :: "lane_key \<Rightarrow> lane_action \<Rightarrow> task list" where
  "arrival k (Call now t j) = (if j = k then [t] else [])"
| "arrival k _ = []"

definition arrivals :: "lane_key \<Rightarrow> lane_action list \<Rightarrow> task list" where
  "arrivals k as = concat (map (arrival k) as)"

definition started :: "lane_key \<Rightarrow> (task \<times> lane_key) list \<Rightarrow> task list" where
  "started k ss = map fst (filter (\<lambda>s. snd s = k) ss)"

text \<open>The calls of a lane that wait, in the order in which they will start.\<close>

definition queue_in :: "lane_registry \<Rightarrow> lane_key \<Rightarrow> task list" where
  "queue_in r k =
     ls_waiters (lane_of r k) @ filter (\<lambda>u. lr_calls r u = Some (k, AwaitGlobal)) (lr_sem_waiters r)"

lemma started_append [simp]: "started k (ss @ ss') = started k ss @ started k ss'"
  by (simp add: started_def)

lemma started_simps [simp]: "started k [] = []" "started k [(t, j)] = (if j = k then [t] else [])"
  by (simp_all add: started_def)

lemma arrivals_append [simp]: "arrivals k (as @ [a]) = arrivals k as @ arrival k a"
  by (simp add: arrivals_def)

lemma filter_calls_upd:
  "t \<notin> set ts \<Longrightarrow> filter (\<lambda>u. ((lr_calls r)(t := x)) u = y) ts = filter (\<lambda>u. lr_calls r u = y) ts"
  by (rule filter_cong) auto

lemma acquire_lane_queue:
  assumes "acquire_lane t j r = (r', new)" and "t \<notin> set (lr_sem_waiters r)"
  shows "started k new @ queue_in r' k =
    ls_waiters (lane_of r k) @ (if k = j then [t] else []) @
    filter (\<lambda>u. lr_calls r u = Some (k, AwaitGlobal)) (lr_sem_waiters r)"
proof (cases "\<not> ls_locked (lane_of r j) \<and> ls_waiters (lane_of r j) = []")
  case True
  with assms show ?thesis
    by (auto simp: acquire_lane_def begin_turn_def queue_in_def filter_calls_upd simp del: fun_upd_apply)
next
  case False
  then have "acquire_lane t j r =
      ((set_lane j ((lane_of r j)\<lparr>ls_waiters := ls_waiters (lane_of r j) @ [t]\<rparr>) r)
         \<lparr>lr_calls := (lr_calls r)(t \<mapsto> (j, AwaitLane))\<rparr>, [])"
    by (auto simp: acquire_lane_def Let_def)
  with assms show ?thesis
    by (auto simp: queue_in_def filter_calls_upd simp del: fun_upd_apply)
qed

lemma same_locks_queue_in: "same_locks r r' \<Longrightarrow> queue_in r' k = queue_in r k"
  by (simp add: same_locks_def queue_in_def)

lemma start_call_queue:
  assumes inv: "lanes_inv 0 r0" and fresh: "lr_calls r0 t = None"
    and st: "start_call now t j r0 = (r', new)"
  shows "started k new @ queue_in r' k = queue_in r0 k @ (if j = k then [t] else [])"
proof -
  define r where "r = note_busy now j r0"
  have same: "same_locks r0 r" by (simp add: r_def)
  have inv': "lanes_inv 0 r" using inv same_locks_inv [OF same] by blast
  have fresh': "lr_calls r t = None" using fresh same by (simp add: same_locks_def)
  have q: "queue_in r0 k = queue_in r k" using same_locks_queue_in [OF same] by simp
  have st': "start_call now t j r0 =
    (if \<not> has_sem r then acquire_lane t j r
     else if 0 < lr_permits r \<and> lr_sem_waiters r = []
     then acquire_lane t j (r\<lparr>lr_permits := lr_permits r - 1\<rparr>)
     else (r\<lparr>lr_sem_waiters := lr_sem_waiters r @ [t],
             lr_calls := (lr_calls r)(t \<mapsto> (j, AwaitGlobal))\<rparr>, []))"
    by (simp add: start_call_def r_def Let_def)
  have notin: "t \<notin> set (lr_sem_waiters r)" using inv' fresh' by (auto simp: lanes_inv_def awaiting_def)
  show ?thesis
  proof (cases "has_sem r \<and> \<not> (0 < lr_permits r \<and> lr_sem_waiters r = [])")
    case True
    with st st' have "r' = r\<lparr>lr_sem_waiters := lr_sem_waiters r @ [t],
        lr_calls := (lr_calls r)(t \<mapsto> (j, AwaitGlobal))\<rparr>" "new = []" by auto
    then show ?thesis
      using notin q by (simp add: queue_in_def filter_calls_upd del: fun_upd_apply) simp
  next
    case False
    have nil: "lr_sem_waiters r = []"
      using False inv' by (auto simp: lanes_inv_def)
    define u where "u = (if has_sem r then r\<lparr>lr_permits := lr_permits r - 1\<rparr> else r)"
    from False st st' have acq: "acquire_lane t j u = (r', new)" by (auto simp: u_def split: if_splits)
    have "lr_sem_waiters u = []" "lane_of u = lane_of r" using nil by (simp_all add: u_def fun_eq_iff)
    with acquire_lane_queue [OF acq, of k] q nil show ?thesis by (auto simp: queue_in_def)
  qed
qed

lemma subseq_removeAll: "subseq (removeAll t xs) xs"
  unfolding removeAll_filter_not_eq by (rule subseq_filter_left)

lemma release_permit_queue [simp]: "queue_in (release_permit r) k = queue_in r k"
  by (simp add: release_permit_def queue_in_def)

lemma end_turn_queue:
  assumes "lr_calls r t = Some (j, Running)"
  shows "queue_in (end_turn t j r) k = queue_in r k"
proof -
  have "filter (\<lambda>u. ((lr_calls r)(t := None)) u = Some (k, AwaitGlobal)) ts =
      filter (\<lambda>u. lr_calls r u = Some (k, AwaitGlobal)) ts" for ts
    by (rule filter_cong) (use assms in auto)
  then show ?thesis
    unfolding end_turn_def release_permit_queue
    by (simp add: drop_call_def queue_in_def del: fun_upd_apply)
qed

text \<open>One action: a call starts from the front of its queue, joins it at the end, or leaves it.\<close>

lemma lane_step_queue:
  assumes inv: "lanes_inv 0 r" and step: "lane_step a r = Some (r', new)"
  shows "subseq (started k new @ queue_in r' k) (queue_in r k @ arrival k a)"
proof (cases a)
  case (Call now t j)
  with step have "lr_calls r t = None" "start_call now t j r = (r', new)" by (auto split: if_splits)
  from start_call_queue [OF inv this, of k] Call show ?thesis by simp
next
  case WakeGlobal
  with step obtain t ts j where w: "lr_sem_waiters r = t # ts" "lr_calls r t = Some (j, AwaitGlobal)"
    and acq: "acquire_lane t j (drop_call t (r\<lparr>lr_permits := lr_permits r - 1, lr_sem_waiters := ts\<rparr>)) =
      (r', new)"
    by (auto split: list.splits option.splits phase.splits if_splits)
  have "t \<notin> set ts" using inv w by (simp add: lanes_inv_def)
  then have "started k new @ queue_in r' k = queue_in r k"
    using acquire_lane_queue [OF acq, of k] w
    by (simp add: drop_call_def queue_in_def filter_calls_upd del: fun_upd_apply)
  with WakeGlobal show ?thesis by simp
next
  case (WakeLane j)
  with step obtain t ts where w: "ls_waiters (lane_of r j) = t # ts"
    and b: "begin_turn t j (drop_call t (set_lane j ((lane_of r j)\<lparr>ls_waiters := ts\<rparr>) r)) = (r', new)"
    by (auto split: list.splits if_splits)
  have "lr_calls r t = Some (j, AwaitLane)"
    using inv_lane_ok [OF inv, of j] w by (auto simp: lane_ok_def in_phase_def)
  then have "t \<notin> set (lr_sem_waiters r)" using inv by (auto simp: lanes_inv_def awaiting_def)
  with b w have "started k new @ queue_in r' k = queue_in r k"
    by (auto simp: begin_turn_def drop_call_def queue_in_def filter_calls_upd simp del: fun_upd_apply)
  with WakeLane show ?thesis by simp
next
  case (Finish t)
  with step obtain j where "lr_calls r t = Some (j, Running)" "r' = end_turn t j r" "new = []"
    by (auto split: option.splits phase.splits)
  with end_turn_queue [of r t j k] Finish show ?thesis by simp
next
  case (Cancel t)
  then obtain j p where t: "lr_calls r t = Some (j, p)" using step by (auto split: option.splits)
  show ?thesis
  proof (cases p)
    case AwaitGlobal
    with step Cancel t have "r' = drop_call t (r\<lparr>lr_sem_waiters := removeAll t (lr_sem_waiters r)\<rparr>)"
        "new = []" by simp_all
    moreover have "subseq (filter (\<lambda>u. lr_calls r u = Some (k, AwaitGlobal)) (removeAll t (lr_sem_waiters r)))
        (filter (\<lambda>u. lr_calls r u = Some (k, AwaitGlobal)) (lr_sem_waiters r))"
      by (rule subseq_filter [OF subseq_removeAll])
    ultimately show ?thesis
      using Cancel
      by (simp add: queue_in_def drop_call_def filter_calls_upd subseq_append' del: fun_upd_apply)
  next
    case AwaitLane
    with step Cancel t have r': "r' = release_permit (drop_call t
        (set_lane j ((lane_of r j)\<lparr>ls_waiters := removeAll t (ls_waiters (lane_of r j))\<rparr>) r))"
      and new: "new = []" by simp_all
    have "t \<notin> set (lr_sem_waiters r)" using inv t AwaitLane by (auto simp: lanes_inv_def awaiting_def)
    then have "subseq (queue_in r' k) (queue_in r k)"
      unfolding r' release_permit_queue
      using list_emb_append_mono [OF subseq_removeAll [of t "ls_waiters (lane_of r j)"] subseq_order.refl]
      by (simp add: queue_in_def drop_call_def filter_calls_upd del: fun_upd_apply)
    with new Cancel show ?thesis by simp
  next
    case Running
    with step Cancel t have "r' = end_turn t j r" "new = []" by simp_all
    with t Running Cancel end_turn_queue [of r t j k] show ?thesis by simp
  qed
next
  case (QueueMessage now j m)
  with step show ?thesis using same_locks_queue_in [OF same_locks_queue] by auto
next
  case (SignalAbort j)
  with step show ?thesis using same_locks_queue_in [OF same_locks_abort] by auto
next
  case (BusyAck now j)
  with step show ?thesis using same_locks_queue_in [OF same_locks_ack] by auto
next
  case (InstallAbort j b)
  with step show ?thesis
    using same_locks_queue_in [OF same_locks_set, of "(lane_of r j)\<lparr>ls_abort := b\<rparr>" r j k] by auto
qed

text \<open>The order of one lane, as an invariant of the traces.\<close>

definition in_order :: "lane_key \<Rightarrow> lane_action list \<Rightarrow> (task \<times> lane_key) list \<Rightarrow> lane_registry \<Rightarrow> bool" where
  "in_order k as starts r \<longleftrightarrow> lanes_inv 0 r \<and> subseq (started k starts @ queue_in r k) (arrivals k as)"

lemma in_order_step:
  assumes "in_order k as starts r" and "lane_step a r = Some (r', new)"
  shows "in_order k (as @ [a]) (starts @ new) r'"
proof -
  have inv: "lanes_inv 0 r" and order: "subseq (started k starts @ queue_in r k) (arrivals k as)"
    using assms(1) by (simp_all add: in_order_def)
  from lane_step_queue [OF inv assms(2), of k]
  have "subseq (started k starts @ started k new @ queue_in r' k)
      (started k starts @ queue_in r k @ arrival k a)"
    by (simp add: subseq_append')
  also have "subseq \<dots> (arrivals k as @ arrival k a)"
    using list_emb_append_mono [OF order subseq_order.refl, of "arrival k a"] by simp
  finally show ?thesis using lane_step_inv [OF inv assms(2)] by (simp add: in_order_def)
qed

interpretation lane_order: trace_invariant lane_step "\<lambda>r. lanes_inv 0 r \<and> queue_in r k = []"
    "\<lambda>r0. in_order k" for k
  by unfold_locales (simp add: in_order_def arrivals_def, rule in_order_step)

subsection \<open>Properties\<close>

lemma card_running_holding: "lanes_inv c r \<Longrightarrow> card (running r) \<le> card (holding r)"
  using inv_finite by (auto simp: running_def holding_def intro!: card_mono)

text \<open>C36. Mutual exclusion and the cap. In every state that the registry can reach, at most one turn of a
  lane runs, the counter of turns in flight is the number of running turns, and with a cap there are
  no more of them than the cap.\<close>

theorem lanes_exclude:
  assumes "lane_trace (lane_registry_new capacity policy) as starts r"
  shows "(\<forall>k t u. lr_calls r t = Some (k, Running) \<and> lr_calls r u = Some (k, Running) \<longrightarrow> t = u) \<and>
    lr_in_flight r = int (card (running r)) \<and>
    (case lr_capacity r of Some n \<Rightarrow> (if 0 < n then int (card (running r)) \<le> n else True) | None \<Rightarrow> True)"
proof -
  have inv: "lanes_inv 0 r" by (rule lane_safety.holds [OF assms lanes_inv_start])
  have "t = u" if "lr_calls r t = Some (k, Running)" "lr_calls r u = Some (k, Running)" for k t u
  proof -
    have "t \<in> in_phase r k Running" "u \<in> in_phase r k Running" using that by (simp_all add: in_phase_def)
    with inv_lane_ok [OF inv, of k] show ?thesis by (auto simp: lane_ok_def split: if_splits)
  qed
  moreover have "int (card (running r)) \<le> n" if "lr_capacity r = Some n" "0 < n" for n
    using inv that card_running_holding [OF inv] by (simp add: lanes_inv_def has_sem_def)
  ultimately show ?thesis using inv by (auto simp: lanes_inv_def split: option.split)
qed

definition demo_lane :: lane_key where
  "demo_lane = LaneKey ''agent'' ''main''"

text \<open>Two calls of one lane under a cap of two: the second one waits for the first.\<close>

definition demo_lanes :: lane_registry where
  "demo_lanes = (case lane_step (Call 0 1 demo_lane) (lane_registry_new (Some 2) Queue) of
     Some (r, _) \<Rightarrow> (case lane_step (Call 1 2 demo_lane) r of Some (r', _) \<Rightarrow> r' | None \<Rightarrow> r)
   | None \<Rightarrow> lane_registry_new (Some 2) Queue)"

lemma demo_lanes_trace:
  "lane_trace (lane_registry_new (Some 2) Queue) [Call 0 1 demo_lane, Call 1 2 demo_lane]
     [(1, demo_lane)] demo_lanes"
proof (rule run_steps_runs)
  let ?r0 = "lane_registry_new (Some 2) Queue"
  have "case lane_step (Call 0 1 demo_lane) ?r0 of
      Some (r, new) \<Rightarrow> new = [(1, demo_lane)] \<and>
        (case lane_step (Call 1 2 demo_lane) r of Some (r', new') \<Rightarrow> new' = [] | None \<Rightarrow> False)
    | None \<Rightarrow> False"
    by code_simp
  then show "run_steps lane_step [Call 0 1 demo_lane, Call 1 2 demo_lane] ?r0 = Some ([(1, demo_lane)], demo_lanes)"
    by (auto simp: demo_lanes_def split: option.splits)
qed

theorem lanes_exclude_witness:
  "lr_in_flight demo_lanes = int (card (running demo_lanes)) \<and> int (card (running demo_lanes)) \<le> 2"
proof -
  have "lr_capacity demo_lanes = Some 2" by code_simp
  with lanes_exclude [OF demo_lanes_trace] show ?thesis by simp
qed

text \<open>Arrival order. The turns of a lane start in the order in which they were asked for, whatever the
  other lanes do: the turns that have started, followed by the calls that wait, are the calls in
  their order, without those that were cancelled while they waited.\<close>

lemma lanes_keep_arrival_order:
  assumes "lane_trace (lane_registry_new capacity policy) as starts r"
  shows "subseq (started k starts @ queue_in r k) (arrivals k as)"
proof -
  have "queue_in (lane_registry_new capacity policy) k = []"
    by (simp add: queue_in_def lane_registry_new_def lane_of_def lane_state_new_def)
  with lane_order.holds [OF assms] lanes_inv_start show ?thesis by (auto simp: in_order_def)
qed

text \<open>C37. No state is stuck. While a call is in progress, a turn can end, or a waiter can be resumed: a call
  that waits for its lane never blocks the turn it waits for.\<close>

theorem lanes_make_progress:
  assumes "lane_trace (lane_registry_new capacity policy) as starts r" and "lr_calls r t \<noteq> None"
  shows "(\<exists>u. lane_step (Finish u) r \<noteq> None) \<or> (\<exists>k. lane_step (WakeLane k) r \<noteq> None) \<or>
    lane_step WakeGlobal r \<noteq> None"
proof (cases "running r = {}")
  case False
  then obtain u k where "lr_calls r u = Some (k, Running)" by (auto simp: running_def)
  then have "lane_step (Finish u) r \<noteq> None" by simp
  then show ?thesis by blast
next
  case idle: True
  have inv: "lanes_inv 0 r" by (rule lane_safety.holds [OF assms(1) lanes_inv_start])
  have free: "\<not> ls_locked (lane_of r k)" for k
    using inv_lane_ok [OF inv, of k] idle by (auto simp: lane_ok_def in_phase_def running_def split: if_splits)
  show ?thesis
  proof (cases "holding r = {}")
    case False
    then obtain u k p where u: "lr_calls r u = Some (k, p)" "p \<noteq> AwaitGlobal" by (auto simp: holding_def)
    with idle have "p = AwaitLane" by (cases p) (auto simp: running_def)
    with u have "u \<in> set (ls_waiters (lane_of r k))"
      using inv_lane_ok [OF inv, of k] by (auto simp: lane_ok_def in_phase_def)
    then have "lane_step (WakeLane k) r \<noteq> None" using free [of k] by (auto split: list.split)
    then show ?thesis by blast
  next
    case none: True
    obtain k p where t: "lr_calls r t = Some (k, p)" using assms(2) by auto
    with none have "p = AwaitGlobal" by (auto simp: holding_def)
    with t have "t \<in> set (lr_sem_waiters r)" using inv by (auto simp: lanes_inv_def awaiting_def)
    then obtain v vs where w: "lr_sem_waiters r = v # vs" by (cases "lr_sem_waiters r") auto
    then have "v \<in> awaiting r" using inv by (auto simp: lanes_inv_def)
    then obtain j where "lr_calls r v = Some (j, AwaitGlobal)" by (auto simp: awaiting_def)
    moreover have "0 < lr_permits r"
      using inv none w by (auto simp: lanes_inv_def has_sem_def split: if_splits option.splits)
    ultimately have "lane_step WakeGlobal r \<noteq> None" using w by simp
    then show ?thesis by blast
  qed
qed

theorem lanes_make_progress_witness:
  "(\<exists>u. lane_step (Finish u) demo_lanes \<noteq> None) \<or> (\<exists>k. lane_step (WakeLane k) demo_lanes \<noteq> None) \<or>
   lane_step WakeGlobal demo_lanes \<noteq> None"
proof -
  have "lr_calls demo_lanes 2 \<noteq> None" by code_simp
  from lanes_make_progress [OF demo_lanes_trace this] show ?thesis .
qed

end
