(* ===== verification/Regex.thy ===== *)
theory Regex
  imports Prelude
begin

section \<open>Regular expressions\<close>

text \<open>
  The part of Python's \<open>re\<close> that the modelled modules use. A \<open>cursor\<close> is a place in a text: the
  character before it, if any, and what follows. \<open>ends r c\<close> lists the cursors at which a match of
  \<open>r\<close> that begins at \<open>c\<close> can end, in the order in which the backtracking matcher tries them, and
  \<open>regex_search\<close> is \<open>re.search\<close> as a test. The relation \<open>matches\<close> is the meaning of the
  expressions, and \<open>ends_matches\<close> shows that the matcher computes it. A repetition stops at an
  empty iteration, which cannot lead to a new place.
\<close>

datatype cursor = At (prev: "char option") (rest: string)

datatype regex =
    Eps
  | Cls "char \<Rightarrow> bool"
  | Seq regex regex
  | Alt regex regex
  | Star regex
  | Bos
  | Eos
  | WordB

definition word_before :: "char option \<Rightarrow> bool" where
  "word_before p \<longleftrightarrow> (case p of None \<Rightarrow> False | Some c \<Rightarrow> is_word c)"

definition word_after :: "string \<Rightarrow> bool" where
  "word_after s \<longleftrightarrow> (case s of [] \<Rightarrow> False | c # _ \<Rightarrow> is_word c)"

text \<open>\<open>$\<close> holds at the end and before a last line feed.\<close>

definition at_end :: "string \<Rightarrow> bool" where
  "at_end s \<longleftrightarrow> s = [] \<or> s = newline"

fun iterate :: "(cursor \<Rightarrow> cursor list) \<Rightarrow> nat \<Rightarrow> cursor \<Rightarrow> cursor list" where
  "iterate f 0 c = [c]"
| "iterate f (Suc n) c =
    concat (map (iterate f n) (filter (\<lambda>d. length (rest d) < length (rest c)) (f c))) @ [c]"

primrec ends :: "regex \<Rightarrow> cursor \<Rightarrow> cursor list" where
  "ends Eps c = [c]"
| "ends (Cls p) c = (case rest c of [] \<Rightarrow> [] | x # s \<Rightarrow> if p x then [At (Some x) s] else [])"
| "ends (Seq r1 r2) c = concat (map (ends r2) (ends r1 c))"
| "ends (Alt r1 r2) c = ends r1 c @ ends r2 c"
| "ends (Star r) c = iterate (ends r) (length (rest c)) c"
| "ends Bos c = (if prev c = None then [c] else [])"
| "ends Eos c = (if at_end (rest c) then [c] else [])"
| "ends WordB c = (if word_before (prev c) \<noteq> word_after (rest c) then [c] else [])"

fun search_from :: "regex \<Rightarrow> char option \<Rightarrow> string \<Rightarrow> bool" where
  "search_from r p [] \<longleftrightarrow> ends r (At p []) \<noteq> []"
| "search_from r p (x # s) \<longleftrightarrow> ends r (At p (x # s)) \<noteq> [] \<or> search_from r (Some x) s"

definition regex_search :: "regex \<Rightarrow> string \<Rightarrow> bool" where
  "regex_search r s \<longleftrightarrow> search_from r None s"

subsection \<open>Notation of the patterns\<close>

fun seqs :: "regex list \<Rightarrow> regex" where
  "seqs [] = Eps"
| "seqs [r] = r"
| "seqs (r # r' # rs) = Seq r (seqs (r' # rs))"

fun alts :: "regex list \<Rightarrow> regex" where
  "alts [] = Cls (\<lambda>_. False)"
| "alts [r] = r"
| "alts (r # r' # rs) = Alt r (alts (r' # rs))"

definition opt :: "regex \<Rightarrow> regex" where
  "opt r = Alt r Eps"

definition plus1 :: "regex \<Rightarrow> regex" where
  "plus1 r = Seq r (Star r)"

definition one_of :: "string \<Rightarrow> regex" where
  "one_of cs = Cls (\<lambda>x. x \<in> set cs)"

definition none_of :: "string \<Rightarrow> regex" where
  "none_of cs = Cls (\<lambda>x. x \<notin> set cs)"

definition lit :: "string \<Rightarrow> regex" where
  "lit s = seqs (map (\<lambda>c. Cls (\<lambda>x. x = c)) s)"

text \<open>A literal under \<open>IGNORECASE\<close>.\<close>

definition lit_ci :: "string \<Rightarrow> regex" where
  "lit_ci s = seqs (map (\<lambda>c. Cls (\<lambda>x. lower_char x = lower_char c)) s)"

definition words_ci :: "string list \<Rightarrow> regex" where
  "words_ci ws = alts (map lit_ci ws)"

definition sp :: regex where
  "sp = Cls is_space"

definition nsp :: regex where
  "nsp = Cls (\<lambda>x. \<not> is_space x)"

definition wordc :: regex where
  "wordc = Cls is_word"

text \<open>\<open>.\<close> without \<open>DOTALL\<close>, and \<open>[a-zA-Z]\<close> and \<open>[a-z0-9]\<close> under \<open>IGNORECASE\<close>.\<close>

definition dot :: regex where
  "dot = Cls (\<lambda>x. x \<noteq> CHR 0x0A)"

definition is_letter :: "char \<Rightarrow> bool" where
  "is_letter c \<longleftrightarrow> (let n = ch c in (65 \<le> n \<and> n \<le> 90) \<or> (97 \<le> n \<and> n \<le> 122))"

definition is_digit :: "char \<Rightarrow> bool" where
  "is_digit c \<longleftrightarrow> 48 \<le> ch c \<and> ch c \<le> 57"

lemma is_letter_code [code]:
  "is_letter (Char b0 b1 b2 b3 b4 b5 b6 b7) \<longleftrightarrow> b6 \<and> \<not> b7 \<and> letter_low b0 b1 b2 b3 b4"
  by (cases b0; cases b1; cases b2; cases b3; cases b4; cases b5; cases b6; cases b7;
      simp add: is_letter_def letter_low_def)

lemma is_digit_code [code]:
  "is_digit (Char b0 b1 b2 b3 b4 b5 b6 b7) \<longleftrightarrow>
    \<not> b7 \<and> \<not> b6 \<and> b5 \<and> b4 \<and> (b3 \<longrightarrow> \<not> b1 \<and> \<not> b2)"
  by (cases b0; cases b1; cases b2; cases b3; cases b4; cases b5; cases b6; cases b7;
      simp add: is_digit_def)

definition letter_ci :: regex where
  "letter_ci = Cls is_letter"

definition alnum_ci :: regex where
  "alnum_ci = Cls (\<lambda>x. is_letter x \<or> is_digit x)"

subsection \<open>The meaning of an expression\<close>

inductive matches :: "regex \<Rightarrow> cursor \<Rightarrow> cursor \<Rightarrow> bool" where
  eps: "matches Eps c c"
| cls: "rest c = x # s \<Longrightarrow> p x \<Longrightarrow> matches (Cls p) c (At (Some x) s)"
| seq: "matches r1 c d \<Longrightarrow> matches r2 d e \<Longrightarrow> matches (Seq r1 r2) c e"
| alt1: "matches r1 c d \<Longrightarrow> matches (Alt r1 r2) c d"
| alt2: "matches r2 c d \<Longrightarrow> matches (Alt r1 r2) c d"
| star0: "matches (Star r) c c"
| star1: "matches r c d \<Longrightarrow> matches (Star r) d e \<Longrightarrow> matches (Star r) c e"
| bos: "prev c = None \<Longrightarrow> matches Bos c c"
| eos: "at_end (rest c) \<Longrightarrow> matches Eos c c"
| wordb: "word_before (prev c) \<noteq> word_after (rest c) \<Longrightarrow> matches WordB c c"

inductive_simps matches_simps:
  "matches Eps c d" "matches (Cls p) c d" "matches (Seq r1 r2) c d" "matches (Alt r1 r2) c d"
  "matches Bos c d" "matches Eos c d" "matches WordB c d"

inductive_cases matches_StarE: "matches (Star r) c d"

text \<open>A match reads a piece of the text: an empty one leaves the cursor where it is.\<close>

definition reads :: "cursor \<Rightarrow> cursor \<Rightarrow> bool" where
  "reads c d \<longleftrightarrow> d = c \<or>
     (\<exists>u. u \<noteq> [] \<and> rest c = u @ rest d \<and> prev d = Some (last u))"

lemma reads_trans: "reads c d \<Longrightarrow> reads d e \<Longrightarrow> reads c e"
  unfolding reads_def by (smt (verit) append.assoc append_is_Nil_conv last_appendR)

lemma matches_reads: "matches r c d \<Longrightarrow> reads c d"
proof (induction rule: matches.induct)
  case (cls c x s p)
  then show ?case by (auto simp: reads_def intro: exI [of _ "[x]"])
next
  case (seq r1 c d r2 e)
  then show ?case using reads_trans by blast
next
  case (star1 r c d e)
  then show ?case using reads_trans by blast
qed (auto simp: reads_def)

lemma reads_shorter: "reads c d \<Longrightarrow> d = c \<or> length (rest d) < length (rest c)"
  by (auto simp: reads_def)

lemma iterate_sound:
  assumes "\<And>c d. d \<in> set (f c) \<Longrightarrow> matches r c d" and "d \<in> set (iterate f n c)"
  shows "matches (Star r) c d"
  using assms(2)
proof (induction n arbitrary: c)
  case 0
  then show ?case by (simp add: star0)
next
  case (Suc n)
  then show ?case using assms(1) by (auto intro: star0 star1)
qed

lemma iterate_complete:
  assumes "\<And>c d. matches r c d \<Longrightarrow> d \<in> set (f c)"
  shows "matches (Star r) c d \<Longrightarrow> length (rest c) \<le> n \<Longrightarrow> d \<in> set (iterate f n c)"
proof (induction "Star r" c d arbitrary: n rule: matches.induct)
  case (star0 c)
  show ?case by (cases n) auto
next
  case (star1 c d e)
  from reads_shorter [OF matches_reads [OF star1.hyps(1)]] show ?case
  proof
    assume "d = c"
    with star1.hyps(4) star1.prems show ?thesis by simp
  next
    assume less: "length (rest d) < length (rest c)"
    with star1.prems obtain m where n: "n = Suc m" by (cases n) auto
    with less star1.prems star1.hyps(4) [of m] assms [OF star1.hyps(1)] show ?thesis by auto
  qed
qed

theorem ends_matches: "d \<in> set (ends r c) \<longleftrightarrow> matches r c d"
proof (induction r arbitrary: c d)
  case (Star r)
  show ?case
    using iterate_sound [of "ends r" r d] iterate_complete [of r "ends r" c d] Star by auto
qed (auto simp: matches_simps split: list.splits)

lemma ends_ne: "ends r c \<noteq> [] \<longleftrightarrow> (\<exists>d. matches r c d)"
  unfolding ends_matches [symmetric] by (cases "ends r c") auto

text \<open>The places of a text at which a search may begin.\<close>

definition after :: "char option \<Rightarrow> string \<Rightarrow> char option" where
  "after p u = (if u = [] then p else Some (last u))"

lemma after_simps [simp]:
  "after p [] = p" "after p (x # u) = after (Some x) u" "after p (u @ v) = after (after p u) v"
  by (auto simp: after_def)

lemma search_from_iff:
  "search_from r p s \<longleftrightarrow> (\<exists>u t d. s = u @ t \<and> matches r (At (after p u) t) d)"
proof (induction s arbitrary: p)
  case Nil
  show ?case by (simp add: ends_ne)
next
  case (Cons x s)
  note IH = Cons.IH
  show ?case (is "_ = ?place")
  proof
    assume "search_from r p (x # s)"
    then consider "\<exists>d. matches r (At p (x # s)) d" | "search_from r (Some x) s"
      by (auto simp: ends_ne)
    then show ?place
    proof cases
      case 1
      then obtain d where "x # s = [] @ (x # s)" "matches r (At (after p []) (x # s)) d" by auto
      then show ?thesis by blast
    next
      case 2
      then obtain u t d where "s = u @ t" "matches r (At (after (Some x) u) t) d"
        unfolding Cons.IH by blast
      then have "x # s = (x # u) @ t" "matches r (At (after p (x # u)) t) d" by auto
      then show ?thesis by blast
    qed
  next
    assume ?place
    then obtain u t d where "x # s = u @ t" "matches r (At (after p u) t) d" by blast
    then show "search_from r p (x # s)"
    proof (cases u)
      case Nil
      with \<open>x # s = u @ t\<close> \<open>matches r (At (after p u) t) d\<close> show ?thesis by (auto simp: ends_ne)
    next
      case (Cons y v)
      with \<open>x # s = u @ t\<close> \<open>matches r (At (after p u) t) d\<close>
      have "s = v @ t" "matches r (At (after (Some x) v) t) d" by auto
      then have "search_from r (Some x) s" unfolding IH by blast
      then show ?thesis by simp
    qed
  qed
qed

lemma regex_search_iff:
  "regex_search r s \<longleftrightarrow> (\<exists>u t d. s = u @ t \<and> matches r (At (after None u) t) d)"
  by (simp add: regex_search_def search_from_iff)

subsection \<open>Expressions that do not look at the start of the text\<close>

primrec bos_free :: "regex \<Rightarrow> bool" where
  "bos_free Eps \<longleftrightarrow> True"
| "bos_free (Cls p) \<longleftrightarrow> True"
| "bos_free (Seq r1 r2) \<longleftrightarrow> bos_free r1 \<and> bos_free r2"
| "bos_free (Alt r1 r2) \<longleftrightarrow> bos_free r1 \<and> bos_free r2"
| "bos_free (Star r) \<longleftrightarrow> bos_free r"
| "bos_free Bos \<longleftrightarrow> False"
| "bos_free Eos \<longleftrightarrow> True"
| "bos_free WordB \<longleftrightarrow> True"

text \<open>Cursors that such an expression cannot tell apart.\<close>

definition alike :: "cursor \<Rightarrow> cursor \<Rightarrow> bool" where
  "alike c d \<longleftrightarrow> rest c = rest d \<and> word_before (prev c) = word_before (prev d)"

lemma alike_refl [simp]: "alike c c"
  by (simp add: alike_def)

lemma matches_alike:
  "matches r c d \<Longrightarrow> bos_free r \<Longrightarrow> alike c c' \<Longrightarrow> \<exists>d'. matches r c' d' \<and> alike d d'"
proof (induction arbitrary: c' rule: matches.induct)
  case (cls c x s p)
  then show ?case by (auto simp: alike_def intro: matches.cls intro!: exI [of _ "At (Some x) s"])
next
  case (seq r1 c d r2 e)
  then show ?case by (metis bos_free.simps(3) matches.seq)
next
  case (alt1 r1 c d r2)
  then show ?case by (metis bos_free.simps(4) matches.alt1)
next
  case (alt2 r2 c d r1)
  then show ?case by (metis bos_free.simps(4) matches.alt2)
next
  case (star1 r c d e)
  then show ?case by (metis bos_free.simps(5) matches.star1)
qed (auto simp: alike_def matches_simps intro: matches.star0)

lemma bos_free_seqs [simp]: "bos_free (seqs rs) \<longleftrightarrow> list_all bos_free rs"
  by (induction rs rule: seqs.induct) auto

lemma bos_free_alts [simp]: "bos_free (alts rs) \<longleftrightarrow> list_all bos_free rs"
  by (induction rs rule: alts.induct) auto

lemma bos_free_pieces [simp]:
  "bos_free (opt r) = bos_free r" "bos_free (plus1 r) = bos_free r" "bos_free (one_of cs)"
  "bos_free (none_of cs)" "bos_free (lit s)" "bos_free (lit_ci s)" "bos_free (words_ci ws)"
  "bos_free sp" "bos_free nsp" "bos_free wordc" "bos_free dot" "bos_free letter_ci" "bos_free alnum_ci"
  by (simp_all add: opt_def plus1_def one_of_def none_of_def lit_def lit_ci_def words_ci_def sp_def
      nsp_def wordc_def dot_def letter_ci_def alnum_ci_def list_all_iff)

text \<open>White space before a repetition of white space is read by it.\<close>

lemma matches_spaces:
  "blank w \<Longrightarrow> matches (Star sp) (At (after q w) s) d \<Longrightarrow> matches (Star sp) (At q (w @ s)) d"
proof (induction w arbitrary: q)
  case Nil
  then show ?case by simp
next
  case (Cons x w)
  then have "matches sp (At q ((x # w) @ s)) (At (Some x) (w @ s))"
    by (auto simp: sp_def blank_def intro: matches.cls)
  with Cons show ?case by (auto simp: blank_def intro: matches.star1)
qed

end
