(* ===== verification/Whitelist.thy ===== *)
theory Whitelist
  imports Regex
begin

section \<open>The whitelist of shell commands\<close>

text \<open>
  \<open>oxenclaw/approvals/whitelist.py\<close>: which shell commands run without asking a human, with the
  part of the library's \<open>shlex\<close> that it uses (\<open>shlex.split\<close> in POSIX mode, without comments).
  The environment variables are arguments. A frozen set of entries is a list; only membership counts.
\<close>

subsection \<open>Splitting a command into words\<close>

datatype shlex_state = Gap | Bare | Quote char | Esc "char option"

abbreviation backslash :: char where
  "backslash \<equiv> CHR 0x5C"

definition shlex_space :: "char \<Rightarrow> bool" where
  "shlex_space c \<longleftrightarrow> c \<in> {CHR '' '', CHR 0x09, CHR 0x0D, CHR 0x0A}"

definition shlex_quote :: "char \<Rightarrow> bool" where
  "shlex_quote c \<longleftrightarrow> c = CHR 0x22 \<or> c = CHR 0x27"

text \<open>
  The reader's loop: its state, the token so far, whether the token had quotes, and the rest of the
  text. \<open>Esc\<close> holds the state to go back to: the quotation mark, or none for a bare word.
\<close>

fun shlex_go :: "shlex_state \<Rightarrow> string \<Rightarrow> bool \<Rightarrow> string \<Rightarrow> py_error + string list" where
  "shlex_go (Quote q) tok quoted [] = Inl ValueError"
| "shlex_go (Esc e) tok quoted [] = Inl ValueError"
| "shlex_go Gap tok quoted [] = Inr (if tok \<noteq> [] \<or> quoted then [tok] else [])"
| "shlex_go Bare tok quoted [] = Inr (if tok \<noteq> [] \<or> quoted then [tok] else [])"
| "shlex_go Gap tok quoted (c # s) =
    (if shlex_space c
     then (if tok \<noteq> [] \<or> quoted then bind_err (shlex_go Gap [] False s) (\<lambda>ts. Inr (tok # ts))
           else shlex_go Gap tok quoted s)
     else if c = backslash then shlex_go (Esc None) tok quoted s
     else if shlex_quote c then shlex_go (Quote c) tok quoted s
     else shlex_go Bare [c] quoted s)"
| "shlex_go Bare tok quoted (c # s) =
    (if shlex_space c
     then (if tok \<noteq> [] \<or> quoted then bind_err (shlex_go Gap [] False s) (\<lambda>ts. Inr (tok # ts))
           else shlex_go Gap tok quoted s)
     else if shlex_quote c then shlex_go (Quote c) tok quoted s
     else if c = backslash then shlex_go (Esc None) tok quoted s
     else shlex_go Bare (tok @ [c]) quoted s)"
| "shlex_go (Quote q) tok quoted (c # s) =
    (if c = q then shlex_go Bare tok True s
     else if c = backslash \<and> q = CHR 0x22 then shlex_go (Esc (Some q)) tok True s
     else shlex_go (Quote q) (tok @ [c]) True s)"
| "shlex_go (Esc e) tok quoted (c # s) =
    (case e of
       None \<Rightarrow> shlex_go Bare (tok @ [c]) quoted s
     | Some q \<Rightarrow>
         shlex_go (Quote q) (if c \<noteq> backslash \<and> c \<noteq> q then tok @ [backslash, c] else tok @ [c]) quoted s)"

definition shlex_split :: "string \<Rightarrow> py_error + string list" where
  "shlex_split s = shlex_go Gap [] False s"

subsection \<open>The entries\<close>

definition BUILTIN_READONLY :: "string list" where
  "BUILTIN_READONLY =
    [''cat'', ''head'', ''tail'', ''less'', ''more'', ''wc'', ''file'', ''stat'',
     ''ls'', ''find'', ''tree'', ''pwd'',
     ''grep'', ''egrep'', ''fgrep'', ''rg'', ''ripgrep'', ''awk'', ''sort'', ''uniq'', ''cut'', ''tr'',
     ''tee'',
     ''env'', ''printenv'', ''whoami'', ''id'', ''hostname'', ''uname'', ''date'',
     ''echo'', ''printf'',
     ''ping'', ''nslookup'', ''dig'', ''host'',
     ''jq'', ''yq'',
     ''yf'']"

definition normalize_entry :: "string \<Rightarrow> string" where
  "normalize_entry entry = join '' '' (split_ws entry)"

definition env_entries :: "string \<Rightarrow> string list" where
  "env_entries raw =
    (if strip raw = [] then []
     else filter (\<lambda>t. t \<noteq> []) (map normalize_entry (split_on CHR '','' raw)))"

text \<open>\<open>env_var\<close> is the value of \<open>OXENCLAW_SHELL_WHITELIST\<close>, if it is set.\<close>

definition build_shell_whitelist ::
  "string list \<Rightarrow> string option \<Rightarrow> string option \<Rightarrow> string list \<Rightarrow> string list" where
  "build_shell_whitelist skill_bins env_extra env_var extra =
    BUILTIN_READONLY @
    map normalize_entry (filter (\<lambda>b. b \<noteq> []) skill_bins) @
    env_entries (case env_extra of Some e \<Rightarrow> e | None \<Rightarrow> (case env_var of Some v \<Rightarrow> v | None \<Rightarrow> [])) @
    filter (\<lambda>t. t \<noteq> []) (map normalize_entry extra)"

subsection \<open>The decision\<close>

definition DANGEROUS_METACHARS :: regex where
  "DANGEROUS_METACHARS =
    alts [lit '';'', lit ''||'', lit ''&&'', lit ''>'', lit ''<'', lit [CHR 0x60], lit ''$('',
          lit [backslash, CHR 0x0A], lit newline]"

definition segment_first_match :: "string list \<Rightarrow> string list \<Rightarrow> bool" where
  "segment_first_match tokens whitelist =
    (case tokens of
       [] \<Rightarrow> False
     | [t] \<Rightarrow> t \<in> set whitelist
     | t # u # _ \<Rightarrow> t \<in> set whitelist \<or> t @ '' '' @ u \<in> set whitelist)"

definition segment_ok :: "string list \<Rightarrow> string \<Rightarrow> bool" where
  "segment_ok whitelist seg =
    (case shlex_split seg of Inl e \<Rightarrow> False | Inr tokens \<Rightarrow> segment_first_match tokens whitelist)"

definition is_auto_approvable :: "string \<Rightarrow> string list \<Rightarrow> bool" where
  "is_auto_approvable command whitelist =
    (if command = [] \<or> strip command = [] then False
     else if regex_search DANGEROUS_METACHARS command then False
     else let segments = map strip (split_on CHR ''|'' command)
          in list_all (\<lambda>s. s \<noteq> []) segments \<and> list_all (segment_ok whitelist) segments)"

definition flag_on :: "string option \<Rightarrow> bool" where
  "flag_on v = (lower (strip (case v of Some s \<Rightarrow> s | None \<Rightarrow> [])) \<in> {''1'', ''true'', ''yes'', ''on''})"

text \<open>The values of \<open>OXENCLAW_ASSISTANT_SHELL\<close> and of \<open>OXENCLAW_GATEWAY_BIN_AUTO_INSTALL\<close>.\<close>

definition assistant_shell_enabled :: "string option \<Rightarrow> bool" where
  "assistant_shell_enabled env_var = flag_on env_var"

definition gateway_bin_auto_install_enabled :: "string option \<Rightarrow> bool" where
  "gateway_bin_auto_install_enabled env_var = flag_on env_var"

subsection \<open>Metacharacters\<close>

lemma matches_lit: "matches (lit p) c d \<Longrightarrow> rest c = p @ rest d"
proof (induction p arbitrary: c)
  case Nil
  then show ?case by (simp add: lit_def matches_simps)
next
  case (Cons x p)
  show ?case
  proof (cases p)
    case Nil
    with Cons.prems show ?thesis by (auto simp: lit_def matches_simps)
  next
    case (Cons y q)
    with Cons.prems obtain e where "matches (Cls (\<lambda>z. z = x)) c e" "matches (lit p) e d"
      by (auto simp: lit_def matches_simps)
    with Cons.IH [of e] show ?thesis by (auto simp: matches_simps)
  qed
qed

lemma lit_matches: "p \<noteq> [] \<Longrightarrow> matches (lit p) (At q (p @ s)) (At (after q p) s)"
proof (induction p arbitrary: q)
  case Nil
  then show ?case by simp
next
  case (Cons x p)
  have x: "matches (Cls (\<lambda>z. z = x)) (At q (x # p @ s)) (At (Some x) (p @ s))"
    by (rule matches.cls) simp_all
  show ?case
  proof (cases p)
    case Nil
    with x show ?thesis by (simp add: lit_def)
  next
    case (Cons y r)
    with x Cons.IH [of "Some x"] show ?thesis by (auto simp: lit_def intro: matches.seq)
  qed
qed

lemma search_lit: "p \<noteq> [] \<Longrightarrow> regex_search (lit p) s \<longleftrightarrow> contains p s"
proof
  assume "regex_search (lit p) s"
  then obtain u t d where "s = u @ t" "matches (lit p) (At (after None u) t) d"
    unfolding regex_search_iff by blast
  with matches_lit [OF this(2)] have "s = u @ p @ rest d" by simp
  then show "contains p s" unfolding contains_iff_sublist sublist_def by blast
next
  assume "p \<noteq> []" "contains p s"
  then obtain u t where "s = u @ p @ t" unfolding contains_iff_sublist sublist_def by blast
  with lit_matches [OF \<open>p \<noteq> []\<close>] show "regex_search (lit p) s"
    unfolding regex_search_iff by blast
qed

lemma search_Alt: "regex_search (Alt r1 r2) s \<longleftrightarrow> regex_search r1 s \<or> regex_search r2 s"
  unfolding regex_search_iff by (auto simp: matches_simps)

definition metachars :: "string list" where
  "metachars = ['';'', ''||'', ''&&'', ''>'', ''<'', [CHR 0x60], ''$('', [backslash, CHR 0x0A], newline]"

lemma dangerous_metachars:
  "regex_search DANGEROUS_METACHARS s \<longleftrightarrow> list_ex (\<lambda>p. contains p s) metachars"
  by (simp add: DANGEROUS_METACHARS_def metachars_def search_Alt search_lit newline_def)

subsection \<open>Pipelines\<close>

lemma sublist_sep:
  assumes "sublist p (s @ c # t)" and "c \<notin> set p"
  shows "sublist p s \<or> sublist p t"
proof -
  from assms(1) obtain a b where e: "s @ c # t = a @ p @ b" by (auto simp: sublist_def)
  then consider v where "a = s @ v" "c # t = v @ p @ b" | v where "s = a @ v" "v @ c # t = p @ b"
    by (auto simp: append_eq_append_conv2)
  then show ?thesis
  proof cases
    case 1
    show ?thesis
    proof (cases v)
      case Nil
      with 1 assms(2) show ?thesis by (cases p) auto
    next
      case (Cons y v')
      with 1 show ?thesis by (auto simp: sublist_def)
    qed
  next
    case 2
    then consider w where "v = p @ w" | w where "p = v @ w" "c # t = w @ b"
      by (auto simp: append_eq_append_conv2)
    then show ?thesis
    proof cases
      case 1
      with 2 show ?thesis by (auto simp: sublist_def)
    next
      case 2
      with assms(2) have "w = []" by (cases w) auto
      with 2 \<open>s = a @ v\<close> show ?thesis by (simp add: sublist_def) blast
    qed
  qed
qed

lemma contains_sep:
  "c \<notin> set p \<Longrightarrow> contains p (s @ c # t) \<longleftrightarrow> contains p s \<or> contains p t"
  unfolding contains_iff_sublist using sublist_sep [of p s c t]
  by (metis sublist_append_leftI sublist_append_rightI sublist_Cons_right sublist_order.order_trans)

lemma contains_bars:
  "contains ''||'' (s @ CHR ''|'' # t) \<longleftrightarrow>
   contains ''||'' s \<or> contains ''||'' t \<or> (s \<noteq> [] \<and> last s = CHR ''|'') \<or> (t \<noteq> [] \<and> hd t = CHR ''|'')"
proof (induction s)
  case Nil
  show ?case by (cases t) auto
next
  case (Cons x s)
  show ?case by (cases s) (use Cons in auto)
qed

lemma split_on_last_empty: "s \<noteq> [] \<Longrightarrow> last s = c \<Longrightarrow> [] \<in> set (split_on c s)"
  using split_on_append [of c "butlast s" "[]"] append_butlast_last_id [of s] by simp

lemma split_on_hd_empty: "s \<noteq> [] \<Longrightarrow> hd s = c \<Longrightarrow> [] \<in> set (split_on c s)"
  by (cases s) auto

lemma blank_segments: "blank s \<Longrightarrow> \<not> is_space c \<Longrightarrow> split_on c s = [s]"
  by (induction s) (auto simp: blank_def)

definition clean :: "string \<Rightarrow> bool" where
  "clean s \<longleftrightarrow> \<not> regex_search DANGEROUS_METACHARS s"

definition segments_ok :: "string list \<Rightarrow> string \<Rightarrow> bool" where
  "segments_ok whitelist s \<longleftrightarrow>
     list_all (\<lambda>s. strip s \<noteq> [] \<and> segment_ok whitelist (strip s)) (split_on CHR ''|'' s)"

lemma bar_not_space [simp]: "\<not> is_space CHR ''|''"
  by (simp add: is_space_def)

lemma segments_ok_not_blank: "segments_ok whitelist s \<Longrightarrow> strip s \<noteq> []"
  by (auto simp: segments_ok_def strip_eq_Nil_iff blank_segments)

lemma is_auto_approvable_eq:
  "is_auto_approvable s whitelist \<longleftrightarrow> clean s \<and> segments_ok whitelist s"
  using segments_ok_not_blank [of whitelist s]
  by (auto simp: is_auto_approvable_def clean_def segments_ok_def list_all_iff)

lemma segments_ok_append:
  "segments_ok whitelist (s @ CHR ''|'' # t) \<longleftrightarrow> segments_ok whitelist s \<and> segments_ok whitelist t"
  by (simp add: segments_ok_def split_on_append)

lemma segments_ok_ends:
  assumes "segments_ok whitelist s" and "s \<noteq> []"
  shows "last s \<noteq> CHR ''|''" "hd s \<noteq> CHR ''|''"
  using assms split_on_last_empty [of s "CHR ''|''"] split_on_hd_empty [of s "CHR ''|''"]
  unfolding segments_ok_def list_all_iff by (metis strip_Nil)+

lemma clean_append:
  assumes "segments_ok whitelist s" "segments_ok whitelist t"
  shows "clean (s @ CHR ''|'' # t) \<longleftrightarrow> clean s \<and> clean t"
  using segments_ok_ends [OF assms(1)] segments_ok_ends [OF assms(2)]
  by (auto simp: clean_def dangerous_metachars metachars_def contains_sep contains_bars newline_def)

subsection \<open>What slips through\<close>

text \<open>
  A single \<open>&\<close> also separates commands, and it is neither refused nor a segment boundary: only the
  first of the commands is looked at.
\<close>

lemma background_command_approved:
  "is_auto_approvable ''ls & rm -r x'' BUILTIN_READONLY"
  by (simp add: is_auto_approvable_eq clean_def dangerous_metachars metachars_def newline_def
      segments_ok_def strip_def lstrip_def rstrip_def is_space_def segment_ok_def shlex_split_def
      shlex_space_def shlex_quote_def segment_first_match_def BUILTIN_READONLY_def)

text \<open>Some of the entries run other programs, write files or delete them.\<close>

lemma mutating_commands_approved:
  "is_auto_approvable ''env rm -r x'' BUILTIN_READONLY"
  "is_auto_approvable ''find . -delete'' BUILTIN_READONLY"
  "is_auto_approvable ''echo x | tee y'' BUILTIN_READONLY"
  by (simp_all add: is_auto_approvable_eq clean_def dangerous_metachars metachars_def newline_def
      segments_ok_def strip_def lstrip_def rstrip_def is_space_def segment_ok_def shlex_split_def
      shlex_space_def shlex_quote_def segment_first_match_def BUILTIN_READONLY_def)

subsection \<open>Properties\<close>

text \<open>A pipeline bypasses the approval queue exactly if each of its two parts does, for every pair of
  commands: no command becomes acceptable, or hides, behind a whitelisted one in a pipe.\<close>

lemma pipeline_approved:
  "is_auto_approvable (s @ ''|'' @ t) whitelist \<longleftrightarrow>
   is_auto_approvable s whitelist \<and> is_auto_approvable t whitelist"
  using clean_append [of whitelist s t] segments_ok_append [of whitelist s t]
  by (auto simp: is_auto_approvable_eq)

end
