(* ===== verification/CommandGate.thy ===== *)
theory CommandGate
  imports Regex
begin

section \<open>The command gate of the shell tool\<close>

text \<open>
  \<open>oxenclaw/security/command_gate.py\<close>: the patterns of refused and of dangerous commands, their
  order, the classification, and the approvals that a session has collected. All patterns but the
  fork bomb and \<open>git branch -D\<close> ignore case.
\<close>

subsection \<open>Verdicts\<close>

datatype verdict = Passed | Dangerous | Hardline

text \<open>The verdicts in the order of their severity.\<close>

instantiation verdict :: linorder
begin

definition severity :: "verdict \<Rightarrow> nat" where
  "severity v = (case v of Passed \<Rightarrow> 0 | Dangerous \<Rightarrow> 1 | Hardline \<Rightarrow> 2)"

definition less_eq_verdict :: "verdict \<Rightarrow> verdict \<Rightarrow> bool" where
  "less_eq_verdict v w \<longleftrightarrow> severity v \<le> severity w"

definition less_verdict :: "verdict \<Rightarrow> verdict \<Rightarrow> bool" where
  "less_verdict v w \<longleftrightarrow> severity v < severity w"

instance
  by standard
     (auto simp: less_eq_verdict_def less_verdict_def severity_def split: verdict.splits)

end

subsection \<open>Command positions\<close>

definition start_position :: regex where
  "start_position = alts [Bos, one_of ('';&|'' @ [CHR 0x0A, CHR 0x60]), lit ''$('']"

definition wrappers :: "regex list" where
  "wrappers =
    [opt (seqs [lit_ci ''sudo'', plus1 sp, Star (seqs [lit ''-'', plus1 nsp, plus1 sp])]),
     opt (seqs [lit_ci ''env'', plus1 sp,
                Star (seqs [plus1 wordc, lit ''='', Star nsp, plus1 sp])]),
     Star (seqs [words_ci [''exec'', ''nohup'', ''setsid'', ''time''], plus1 sp]),
     Star sp]"

text \<open>\<open>CMDPOS rs\<close> is the prefix \<open>_CMDPOS\<close> before the pattern \<open>rs\<close>.\<close>

definition CMDPOS :: "regex list \<Rightarrow> regex" where
  "CMDPOS rs = Seq start_position (Seq (Star sp) (seqs (wrappers @ rs)))"

subsection \<open>Patterns\<close>

definition space_or_end :: regex where
  "space_or_end = alts [sp, Eos]"

definition slash_space_or_end :: regex where
  "slash_space_or_end = alts [lit ''/'', sp, Eos]"

text \<open>\<open>rm\<close> with a recursive flag, up to the white space before its operand.\<close>

definition rm_recursive :: "regex list" where
  "rm_recursive =
    [lit_ci ''rm'', plus1 sp, Star (seqs [lit ''-'', Star letter_ci, plus1 sp]), opt (lit ''-''),
     Star letter_ci, lit_ci ''r'', Star letter_ci, opt (lit_ci ''f''), Star nsp, plus1 sp]"

definition block_device :: "regex list" where
  "block_device =
    [lit_ci ''/dev/'', words_ci [''sd'', ''nvme'', ''hd'', ''mmcblk'', ''vd'', ''xvd''], Star alnum_ci]"

definition HARDLINE_PATTERNS :: "(regex \<times> string) list" where
  "HARDLINE_PATTERNS =
    [(CMDPOS (rm_recursive @ [lit ''/'', space_or_end]), ''rm -rf of root filesystem''),
     (CMDPOS (rm_recursive @
        [lit ''/'', words_ci [''etc'', ''var'', ''usr'', ''bin'', ''sbin'', ''boot'', ''lib'', ''lib64'', ''root'', ''home''],
         slash_space_or_end]), ''rm -rf of system directory''),
     (CMDPOS (rm_recursive @ [alts [lit ''~'', lit_ci ''$HOME''], slash_space_or_end]),
      ''rm -rf of home directory''),
     (CMDPOS [lit_ci ''mkfs'', opt (seqs [lit ''.'', plus1 alnum_ci]), WordB], ''mkfs (format filesystem)''),
     (seqs ([WordB, lit_ci ''dd'', WordB, Star dot, WordB, lit_ci ''of=''] @ block_device),
      ''dd to raw block device''),
     (seqs ([lit ''>'', Star sp] @ block_device @ [WordB]), ''redirect to raw block device''),
     (seqs [lit '':()'', Star sp, lit ''{'', Star sp, lit '':'', Star sp, lit ''|'', Star sp, lit '':'',
            Star sp, lit ''&'', Star sp, lit ''}'', Star sp, lit '';'', Star sp, lit '':''], ''fork bomb''),
     (CMDPOS [lit_ci ''kill'', plus1 sp, Star (seqs [lit ''-'', plus1 nsp, plus1 sp]), lit ''-1'', WordB],
      ''kill all processes''),
     (CMDPOS [words_ci [''shutdown'', ''reboot'', ''halt'', ''poweroff''], WordB], ''system shutdown/reboot''),
     (CMDPOS [lit_ci ''init'', plus1 sp, one_of ''06'', WordB], ''init 0/6''),
     (CMDPOS [lit_ci ''systemctl'', plus1 sp, words_ci [''poweroff'', ''reboot'', ''halt'', ''kexec''], WordB],
      ''systemctl poweroff/reboot''),
     (CMDPOS [lit_ci ''chmod'', plus1 sp, Star (seqs [lit ''-'', Star nsp, plus1 sp]), opt (lit ''-''),
              Star nsp, lit_ci ''R'', Star nsp, plus1 sp, lit ''777'', plus1 sp, lit ''/'', space_or_end],
      ''chmod -R 777 of root''),
     (seqs [WordB, words_ci [''curl'', ''wget''], WordB, Star (none_of [CHR 0x0A, CHR ''|'']), lit ''|'',
            Star sp, opt (lit_ci ''ba''), lit_ci ''sh'', WordB], ''curl|sh remote execution''),
     (seqs [WordB, lit_ci ''eval'', plus1 sp, opt (one_of [CHR 0x22, CHR 0x27]), lit ''$('', Star sp,
            words_ci [''curl'', ''wget''], WordB], ''eval $(curl ...) remote execution'')]"

definition DANGEROUS_PATTERNS :: "(regex \<times> string) list" where
  "DANGEROUS_PATTERNS =
    [(CMDPOS [lit_ci ''rm'', plus1 sp, Star (seqs [lit ''-'', Star letter_ci, plus1 sp]), opt (lit ''-''),
              Star letter_ci, lit_ci ''r'', Star letter_ci, lit_ci ''f''], ''rm -rf of user path''),
     (CMDPOS [lit_ci ''rm'', plus1 sp, Star (seqs [lit ''-'', Star letter_ci, plus1 sp]),
              lit_ci ''--recursive'', WordB], ''rm --recursive''),
     (seqs [WordB, lit_ci ''git'', plus1 sp, lit_ci ''push'', WordB, Star dot, lit_ci ''--force'', WordB],
      ''git push --force''),
     (seqs [WordB, lit_ci ''git'', plus1 sp, lit_ci ''push'', WordB, Star dot, sp, lit_ci ''-f'', space_or_end],
      ''git push -f''),
     (seqs [WordB, lit_ci ''git'', plus1 sp, lit_ci ''reset'', plus1 sp, lit_ci ''--hard'', WordB],
      ''git reset --hard''),
     (seqs [WordB, lit_ci ''git'', plus1 sp, lit_ci ''clean'', plus1 sp, lit ''-'', Star nsp, lit_ci ''f''],
      ''git clean -f''),
     (seqs [WordB, lit ''git'', plus1 sp, lit ''branch'', plus1 sp, lit ''-D'', WordB], ''git branch -D''),
     (CMDPOS [lit_ci ''dd'', plus1 sp, Star dot, WordB, lit_ci ''if=''], ''dd disk copy''),
     (CMDPOS [lit_ci ''chmod'', plus1 sp, Star (seqs [lit ''-'', Star nsp, plus1 sp]), opt (lit ''-''),
              Star nsp, lit_ci ''R''], ''chmod -R (broad recursion)''),
     (CMDPOS [lit_ci ''npm'', plus1 sp, lit_ci ''publish'', WordB], ''npm publish''),
     (CMDPOS [lit_ci ''pip'', plus1 sp, lit_ci ''install'', plus1 sp, opt (seqs [Star dot, sp]),
              lit_ci ''--user'', WordB], ''pip install --user''),
     (seqs [lit ''|'', Star sp, lit_ci ''sudo'', WordB], ''pipe into sudo''),
     (seqs [lit ''>>'', Star sp, opt (one_of [CHR 0x22, CHR 0x27]), opt (alts [lit ''~'', lit_ci ''$HOME'']),
            opt (lit ''/''), lit ''.'',
            words_ci [''bashrc'', ''zshrc'', ''profile'', ''bash_profile'', ''zshenv'', ''zprofile''], WordB],
      ''append to shell rc file''),
     (seqs [WordB, lit_ci ''xargs'', plus1 sp, Star dot, WordB, lit_ci ''rm'', WordB], ''xargs with rm''),
     (seqs [WordB, lit_ci ''find'', WordB, Star dot, lit_ci ''-exec'', plus1 sp,
            opt (seqs [lit ''/'', Star nsp, lit ''/'']), lit_ci ''rm'', WordB], ''find -exec rm''),
     (seqs [WordB, lit_ci ''find'', WordB, Star dot, lit_ci ''-delete'', WordB], ''find -delete'')]"

subsection \<open>Classification\<close>

definition first_label :: "(regex \<times> string) list \<Rightarrow> string \<Rightarrow> string option" where
  "first_label ps cmd = map_option snd (List.find (\<lambda>(r, label). regex_search r cmd) ps)"

definition detect_command_threats :: "string \<Rightarrow> verdict \<times> string option" where
  "detect_command_threats cmd =
    (case first_label HARDLINE_PATTERNS cmd of
       Some label \<Rightarrow> (Hardline, Some label)
     | None \<Rightarrow>
        (case first_label DANGEROUS_PATTERNS cmd of
           Some label \<Rightarrow> (Dangerous, Some label)
         | None \<Rightarrow> (Passed, None)))"

subsection \<open>Session approvals\<close>

record command_gate =
  cg_approved :: "(string \<times> string list) list"
  cg_yolo :: "string list"

definition command_gate_new :: command_gate where
  "command_gate_new = \<lparr>cg_approved = [], cg_yolo = []\<rparr>"

definition approved_labels :: "string \<Rightarrow> command_gate \<Rightarrow> string list" where
  "approved_labels session g = (case map_of (cg_approved g) session of Some ls \<Rightarrow> ls | None \<Rightarrow> [])"

definition is_session_approved :: "string \<Rightarrow> string \<Rightarrow> command_gate \<Rightarrow> bool" where
  "is_session_approved session label g \<longleftrightarrow> label \<in> set (approved_labels session g)"

definition approve_session :: "string \<Rightarrow> string \<Rightarrow> command_gate \<Rightarrow> command_gate" where
  "approve_session session label g =
    g\<lparr>cg_approved := dict_set session (List.insert label (approved_labels session g)) (cg_approved g)\<rparr>"

definition enable_yolo :: "string \<Rightarrow> command_gate \<Rightarrow> command_gate" where
  "enable_yolo session g = g\<lparr>cg_yolo := List.insert session (cg_yolo g)\<rparr>"

definition disable_yolo :: "string \<Rightarrow> command_gate \<Rightarrow> command_gate" where
  "disable_yolo session g = g\<lparr>cg_yolo := removeAll session (cg_yolo g)\<rparr>"

definition is_yolo :: "string \<Rightarrow> command_gate \<Rightarrow> bool" where
  "is_yolo session g \<longleftrightarrow> session \<in> set (cg_yolo g)"

definition clear_gate :: "string option \<Rightarrow> command_gate \<Rightarrow> command_gate" where
  "clear_gate session g =
    (case session of
       None \<Rightarrow> \<lparr>cg_approved = [], cg_yolo = []\<rparr>
     | Some s \<Rightarrow> \<lparr>cg_approved = dict_pop s (cg_approved g), cg_yolo = removeAll s (cg_yolo g)\<rparr>)"

lemma session_approvals:
  "is_session_approved s l (approve_session s' l' g) \<longleftrightarrow>
     (s = s' \<and> l = l') \<or> is_session_approved s l g"
  by (auto simp: is_session_approved_def approve_session_def approved_labels_def map_of_dict_set)

lemma session_cleared:
  "is_session_approved s l (clear_gate c g) \<longleftrightarrow> c \<noteq> None \<and> c \<noteq> Some s \<and> is_session_approved s l g"
  "is_yolo s (clear_gate c g) \<longleftrightarrow> c \<noteq> None \<and> c \<noteq> Some s \<and> is_yolo s g"
  by (auto simp: is_session_approved_def is_yolo_def clear_gate_def approved_labels_def map_of_dict_pop
      split: option.split)

subsection \<open>Commands behind a separator\<close>

text \<open>A pattern is found in a command wherever the command stands after a separator.\<close>

definition portable :: "regex \<Rightarrow> bool" where
  "portable r \<longleftrightarrow> bos_free r \<or> (\<exists>rs. r = CMDPOS rs \<and> list_all bos_free rs)"

lemma portable_Seq [simp]: "bos_free (Seq r1 r2) \<Longrightarrow> portable (Seq r1 r2)"
  by (simp add: portable_def)

lemma portable_CMDPOS [simp]: "list_all bos_free rs \<Longrightarrow> portable (CMDPOS rs)"
  unfolding portable_def by blast

lemma wrappers_free [simp]: "list_all bos_free wrappers"
  by (simp add: wrappers_def)

lemma rm_free [simp]: "list_all bos_free rm_recursive" "list_all bos_free block_device"
  by (simp_all add: rm_recursive_def block_device_def)

lemma ends_free [simp]: "bos_free space_or_end" "bos_free slash_space_or_end"
  by (simp_all add: space_or_end_def slash_space_or_end_def)

lemma portable_raw_device [simp]: "portable (seqs (lit ''>'' # Star sp # block_device @ [WordB]))"
  by (simp add: block_device_def)

lemma hardline_portable: "list_all (\<lambda>(r, label). portable r) HARDLINE_PATTERNS"
  by (simp add: HARDLINE_PATTERNS_def block_device_def)

lemma dangerous_portable: "list_all (\<lambda>(r, label). portable r) DANGEROUS_PATTERNS"
  by (simp add: DANGEROUS_PATTERNS_def)

definition separators :: string where
  "separators = '';&|'' @ [CHR 0x0A, CHR 0x60]"

definition separated :: "string \<Rightarrow> bool" where
  "separated v \<longleftrightarrow> (\<exists>p x w. v = p @ x # w \<and> x \<in> set separators \<and> blank w)"

lemma separator_not_word: "x \<in> set separators \<Longrightarrow> \<not> is_word x"
  by (auto simp: separators_def is_word_def)

lemma space_not_word: "is_space x \<Longrightarrow> \<not> is_word x"
  by (auto simp: is_space_def is_word_def Let_def)

lemma separated_not_word: "x \<in> set separators \<Longrightarrow> blank w \<Longrightarrow> \<not> word_before (after (Some x) w)"
  by (cases w rule: rev_cases)
     (auto simp: word_before_def separator_not_word space_not_word blank_def after_def)

lemma start_alternatives:
  "matches start_position c d \<longleftrightarrow>
     matches Bos c d \<or> matches (Alt (one_of separators) (lit ''$('')) c d"
  by (simp add: start_position_def separators_def matches_simps)

lemma separator_starts: "x \<in> set separators \<Longrightarrow> matches start_position (At q (x # s)) (At (Some x) s)"
  by (auto simp: start_alternatives one_of_def matches_simps)

lemma portable_at_start:
  assumes r: "portable r" and m: "matches r (At None s) d" and x: "x \<in> set separators" and w: "blank w"
  shows "(\<exists>d. matches r (At (after (Some x) w) s) d) \<or> (\<exists>d. matches r (At q (x # w @ s)) d)"
proof -
  let ?c = "At None s" and ?c' = "At (after (Some x) w) s"
  have alike: "alike ?c ?c'" using separated_not_word [OF x w] by (simp add: alike_def word_before_def)
  from r consider "bos_free r" | rs where "r = CMDPOS rs" "list_all bos_free rs"
    unfolding portable_def by blast
  then show ?thesis
  proof cases
    case 1
    from matches_alike [OF m 1 alike] show ?thesis by blast
  next
    case 2
    let ?body = "seqs (wrappers @ rs)" and ?other = "Alt (one_of separators) (lit ''$('')"
    have free: "bos_free ?body" using 2(2) by simp
    from m 2(1) obtain c1 where c1: "matches start_position ?c c1" "matches (Seq (Star sp) ?body) c1 d"
      by (auto simp: CMDPOS_def matches_simps)
    from c1(1) consider "c1 = ?c" | "matches ?other ?c c1"
      unfolding start_alternatives by (auto simp: matches_simps)
    then show ?thesis
    proof cases
      case 1
      with c1(2) obtain c2 where c2: "matches (Star sp) ?c c2" "matches ?body c2 d"
        by (auto simp: matches_simps)
      from matches_alike [OF c2(1) _ alike] obtain c2' where
        c2': "matches (Star sp) ?c' c2'" "alike c2 c2'" by auto
      from matches_alike [OF c2(2) free c2'(2)] obtain d' where "matches ?body c2' d'" by blast
      moreover have "matches (Star sp) (At (Some x) (w @ s)) c2'" by (rule matches_spaces [OF w c2'(1)])
      ultimately show ?thesis
        unfolding 2(1) CMDPOS_def using separator_starts [OF x] by (blast intro: matches.seq)
    next
      case 2
      then have "matches (Seq ?other (Seq (Star sp) ?body)) ?c d" using c1(2) by (rule matches.seq)
      from matches_alike [OF this _ alike] free obtain d' where
        "matches (Seq ?other (Seq (Star sp) ?body)) ?c' d'" by auto
      then have "matches r ?c' d'"
        unfolding \<open>r = CMDPOS rs\<close> CMDPOS_def using start_alternatives
        by (auto simp: matches_simps(3))
      then show ?thesis by blast
    qed
  qed
qed

lemma search_behind:
  assumes r: "portable r" and s: "regex_search r s" and v: "separated v"
  shows "regex_search r (v @ s)"
proof -
  from v obtain p x w where v: "v = p @ x # w" "x \<in> set separators" "blank w"
    unfolding separated_def by blast
  from s obtain u t d where u: "s = u @ t" "matches r (At (after None u) t) d"
    unfolding regex_search_iff by blast
  show ?thesis
  proof (cases "u = []")
    case False
    then have "after None u = after None (v @ u)" by (simp add: after_def)
    with u show ?thesis unfolding regex_search_iff by (metis append.assoc)
  next
    case True
    with u portable_at_start [OF r _ v(2,3), of s d "after None p"]
    consider d' where "matches r (At (after None v) s) d'" | d' where "matches r (At (after None p) (x # w @ s)) d'"
      by (auto simp: v(1))
    then show ?thesis
      unfolding regex_search_iff v(1) by cases (metis v(1), metis append.assoc append_Cons)
  qed
qed

lemma first_label_behind:
  assumes "list_all (\<lambda>(r, label). portable r) ps" and "first_label ps s \<noteq> None" and "separated v"
  shows "first_label ps (v @ s) \<noteq> None"
  using assms search_behind [OF _ _ assms(3)]
  unfolding first_label_def list_all_iff option.map_disc_iff find_None_iff by fast

lemma detect_verdict:
  "fst (detect_command_threats s) =
    (if first_label HARDLINE_PATTERNS s \<noteq> None then Hardline
     else if first_label DANGEROUS_PATTERNS s \<noteq> None then Dangerous else Passed)"
  by (auto simp: detect_command_threats_def split: option.split)

subsection \<open>What slips through\<close>

text \<open>
  The patterns for the root directory want white space or the end after the slash, and the flags in
  one word: a separator after the slash lowers the verdict, and with the flags apart there is none.
\<close>

lemma root_removal_lowered: "fst (detect_command_threats ''rm -rf /;ls'') = Dangerous"
  by code_simp

lemma root_removal_passes: "detect_command_threats ''rm -r -f /'' = (Passed, None)"
  by code_simp

subsection \<open>Properties\<close>

text \<open>C33. A command keeps its verdict, or gets a worse one, behind any text that ends in a command separator
  and white space: what is refused alone is refused at the end of a sequence, a pipe or a
  background list.\<close>

theorem verdict_behind_separator:
  assumes "x \<in> set separators" and "blank w"
  shows "fst (detect_command_threats s) \<le> fst (detect_command_threats (p @ x # w @ s))"
proof -
  have "separated (p @ x # w)"
    using assms unfolding separated_def by blast
  then show ?thesis
    using first_label_behind [OF hardline_portable, of s "p @ x # w"]
      first_label_behind [OF dangerous_portable, of s "p @ x # w"]
    by (auto simp: detect_verdict less_eq_verdict_def severity_def)
qed

theorem verdict_behind_separator_witness:
  "fst (detect_command_threats ''ls; reboot'') = Hardline"
proof -
  have "fst (detect_command_threats ''reboot'') = Hardline" by code_simp
  with verdict_behind_separator [of "CHR '';''" "'' ''" "''reboot''" "''ls''"]
  show ?thesis
    by (cases "fst (detect_command_threats ''ls; reboot'')")
       (auto simp: blank_def is_space_def separators_def less_eq_verdict_def severity_def)
qed

end
