(* ===== verification/Approvals.thy ===== *)
theory Approvals
  imports ToolExec Traces
begin

section \<open>Approvals\<close>

text \<open>
  \<open>oxenclaw/approvals/models.py\<close>, \<open>manager.py\<close> and \<open>tool_wrap.py\<close>. A request waits on a future until
  somebody resolves or cancels it, its timeout fires, or its caller goes away. The manager is a
  record; \<open>request\<close> is cut where it awaits: \<open>open_request\<close> up to there, and \<open>deliver\<close>, \<open>expire\<close> and
  \<open>abandon\<close> for the three ways on. A timeout may win against a resolution that has not been
  delivered yet, as in \<open>asyncio.wait_for\<close>. Identifiers and time stamps are arguments; \<open>fails\<close> says
  which snapshot cannot be written. The lemmas show who can approve, that the first decision stands,
  and what the snapshot on disk holds.
\<close>

datatype approval_status = PENDING | APPROVED | DENIED | CANCELLED | TIMED_OUT

record approval_request =
  aq_id :: string
  aq_prompt :: string
  aq_context :: json
  aq_requested_at :: real

record approval_result =
  as_id :: string
  as_status :: approval_status
  as_reason :: "string option"
  as_resolved_at :: real

definition approved :: "approval_result \<Rightarrow> bool" where
  "approved r \<longleftrightarrow> as_status r = APPROVED"

datatype approval_file = NoFile | CorruptFile | Snapshot "approval_request list"

datatype approval_event = Requested approval_request | Closed string

record approval_manager =
  am_pending :: "(string \<times> (approval_request \<times> approval_result option)) list"
  am_token :: "string option"
  am_persistent :: bool
  am_file :: approval_file
  am_notifies :: bool
  am_events :: "approval_event list"

subsection \<open>Start\<close>

definition resolve_approver_token :: "string option \<Rightarrow> string option \<Rightarrow> string option" where
  "resolve_approver_token explicit env =
    (case explicit of
       Some (c # s) \<Rightarrow> Some (c # s)
     | _ \<Rightarrow> (case env of Some (c # s) \<Rightarrow> Some (c # s) | _ \<Rightarrow> None))"

text \<open>The snapshot of an earlier process is logged and removed; \<open>unlinks\<close> says whether that works.\<close>

definition on_startup_load :: "bool \<Rightarrow> bool \<Rightarrow> approval_file \<Rightarrow> approval_file" where
  "on_startup_load persistent unlinks file =
    (if persistent
     then case file of Snapshot (q # qs) \<Rightarrow> (if unlinks then NoFile else file) | _ \<Rightarrow> file
     else file)"

definition approval_manager_new ::
  "bool \<Rightarrow> bool \<Rightarrow> bool \<Rightarrow> approval_file \<Rightarrow> string option \<Rightarrow> string option \<Rightarrow> approval_manager" where
  "approval_manager_new notifies persistent unlinks file token env =
    \<lparr>am_pending = [], am_token = resolve_approver_token token env, am_persistent = persistent,
     am_file = on_startup_load persistent unlinks file, am_notifies = notifies, am_events = []\<rparr>"

subsection \<open>Operations\<close>

definition pending_requests :: "approval_manager \<Rightarrow> approval_request list" where
  "pending_requests m = map (\<lambda>(i, q, f). q) (am_pending m)"

definition am_get :: "string \<Rightarrow> approval_manager \<Rightarrow> approval_request option" where
  "am_get i m = map_option fst (map_of (am_pending m) i)"

definition persist :: "(approval_request list \<Rightarrow> bool) \<Rightarrow> approval_manager \<Rightarrow> approval_manager" where
  "persist fails m =
    (if am_persistent m \<and> \<not> fails (pending_requests m)
     then m\<lparr>am_file := Snapshot (pending_requests m)\<rparr> else m)"

definition emit :: "approval_event \<Rightarrow> approval_manager \<Rightarrow> approval_manager" where
  "emit e m = (if am_notifies m then m\<lparr>am_events := am_events m @ [e]\<rparr> else m)"

definition ascii :: "string \<Rightarrow> bool" where
  "ascii s \<longleftrightarrow> list_all (\<lambda>c. ch c < 128) s"

text \<open>\<open>hmac.compare_digest\<close> compares ASCII strings and refuses others.\<close>

definition require_approver :: "string option \<Rightarrow> approval_manager \<Rightarrow> py_error + unit" where
  "require_approver offered m =
    (case am_token m of
       None \<Rightarrow> Inr ()
     | Some t \<Rightarrow>
        (case offered of
           None \<Rightarrow> Inl ApprovalAuthError
         | Some s \<Rightarrow>
             if \<not> (ascii s \<and> ascii t) then Inl TypeError
             else if s = t then Inr () else Inl ApprovalAuthError))"

definition open_request ::
  "(approval_request list \<Rightarrow> bool) \<Rightarrow> approval_request \<Rightarrow> approval_manager \<Rightarrow> approval_manager" where
  "open_request fails q m =
    emit (Requested q) (persist fails (m\<lparr>am_pending := dict_set (aq_id q) (q, None) (am_pending m)\<rparr>))"

text \<open>The \<open>finally\<close> block of \<open>request\<close>.\<close>

definition close_request ::
  "(approval_request list \<Rightarrow> bool) \<Rightarrow> string \<Rightarrow> approval_manager \<Rightarrow> approval_manager" where
  "close_request fails i m =
    emit (Closed i) (persist fails (m\<lparr>am_pending := dict_pop i (am_pending m)\<rparr>))"

definition set_result :: "string \<Rightarrow> approval_result \<Rightarrow> approval_manager \<Rightarrow> approval_manager" where
  "set_result i r m =
    (case map_of (am_pending m) i of
       None \<Rightarrow> m
     | Some (q, f) \<Rightarrow> m\<lparr>am_pending := dict_set i (q, Some r) (am_pending m)\<rparr>)"

text \<open>Whether a request waits for a decision: it is pending and its future is not done.\<close>

definition undecided :: "string \<Rightarrow> approval_manager \<Rightarrow> bool" where
  "undecided i m \<longleftrightarrow> (case map_of (am_pending m) i of Some (q, None) \<Rightarrow> True | _ \<Rightarrow> False)"

definition am_resolve ::
  "string \<Rightarrow> bool \<Rightarrow> string option \<Rightarrow> string option \<Rightarrow> real \<Rightarrow> approval_manager \<Rightarrow>
   py_error + (approval_result option \<times> approval_manager)" where
  "am_resolve i ok reason token now m =
    bind_err (require_approver token m) (\<lambda>_.
      if undecided i m
      then let r = \<lparr>as_id = i, as_status = (if ok then APPROVED else DENIED), as_reason = reason,
                    as_resolved_at = now\<rparr>
           in Inr (Some r, set_result i r m)
      else Inr (None, m))"

definition cancelled_result :: "string \<Rightarrow> string option \<Rightarrow> real \<Rightarrow> approval_result" where
  "cancelled_result i reason now =
    \<lparr>as_id = i, as_status = CANCELLED, as_reason = reason, as_resolved_at = now\<rparr>"

definition am_cancel ::
  "string \<Rightarrow> string option \<Rightarrow> string option \<Rightarrow> real \<Rightarrow> approval_manager \<Rightarrow>
   py_error + (bool \<times> approval_manager)" where
  "am_cancel i reason token now m =
    bind_err (require_approver token m) (\<lambda>_.
      if undecided i m then Inr (True, set_result i (cancelled_result i reason now) m)
      else Inr (False, m))"

fun cancel_each ::
  "string option \<Rightarrow> real \<Rightarrow> string list \<Rightarrow> approval_manager \<Rightarrow> int \<times> approval_manager" where
  "cancel_each reason now [] m = (0, m)"
| "cancel_each reason now (i # is) m =
    (if undecided i m
     then let (n, m') = cancel_each reason now is (set_result i (cancelled_result i reason now) m)
          in (n + 1, m')
     else cancel_each reason now is m)"

definition am_cancel_all ::
  "string option \<Rightarrow> real \<Rightarrow> approval_manager \<Rightarrow> int \<times> approval_manager" where
  "am_cancel_all reason now m = cancel_each reason now (map fst (am_pending m)) m"

text \<open>The three ways in which the caller of \<open>request\<close> goes on.\<close>

definition deliver ::
  "(approval_request list \<Rightarrow> bool) \<Rightarrow> string \<Rightarrow> approval_manager \<Rightarrow>
   (approval_result \<times> approval_manager) option" where
  "deliver fails i m =
    (case map_of (am_pending m) i of
       Some (q, Some r) \<Rightarrow> Some (r, close_request fails i m)
     | _ \<Rightarrow> None)"

definition expire ::
  "(approval_request list \<Rightarrow> bool) \<Rightarrow> string \<Rightarrow> real \<Rightarrow> approval_manager \<Rightarrow>
   (approval_result \<times> approval_manager) option" where
  "expire fails i now m =
    (case map_of (am_pending m) i of
       None \<Rightarrow> None
     | Some _ \<Rightarrow> Some (\<lparr>as_id = i, as_status = TIMED_OUT, as_reason = None, as_resolved_at = now\<rparr>,
                        close_request fails i m))"

subsection \<open>Traces\<close>

datatype approval_action =
    Open approval_request
  | Resolve string bool "string option" "string option" real
  | CancelOne string "string option" "string option" real
  | CancelAll "string option" real
  | Deliver string
  | Expire string real
  | Abandon string

text \<open>One action: the new state and the result that a caller of \<open>request\<close> gets, if any.\<close>

fun approval_step ::
  "(approval_request list \<Rightarrow> bool) \<Rightarrow> approval_action \<Rightarrow> approval_manager \<Rightarrow>
   (approval_manager \<times> approval_result list) option" where
  "approval_step fails (Open q) m =
    (if map_of (am_pending m) (aq_id q) = None then Some (open_request fails q m, []) else None)"
| "approval_step fails (Resolve i ok reason token now) m =
    (case am_resolve i ok reason token now m of
       Inl e \<Rightarrow> Some (m, []) | Inr (r, m') \<Rightarrow> Some (m', []))"
| "approval_step fails (CancelOne i reason token now) m =
    (case am_cancel i reason token now m of
       Inl e \<Rightarrow> Some (m, []) | Inr (b, m') \<Rightarrow> Some (m', []))"
| "approval_step fails (CancelAll reason now) m = Some (snd (am_cancel_all reason now m), [])"
| "approval_step fails (Deliver i) m = map_option (\<lambda>(r, m'). (m', [r])) (deliver fails i m)"
| "approval_step fails (Expire i now) m = map_option (\<lambda>(r, m'). (m', [r])) (expire fails i now m)"
| "approval_step fails (Abandon i) m =
    (case map_of (am_pending m) i of None \<Rightarrow> None | Some _ \<Rightarrow> Some (close_request fails i m, []))"

abbreviation approval_trace ::
  "(approval_request list \<Rightarrow> bool) \<Rightarrow> approval_manager \<Rightarrow> approval_action list \<Rightarrow>
   approval_result list \<Rightarrow> approval_manager \<Rightarrow> bool" where
  "approval_trace fails \<equiv> runs (approval_step fails)"

subsection \<open>Gated tools\<close>

definition default_format_prompt :: "string \<Rightarrow> json \<Rightarrow> string" where
  "default_format_prompt tool_name args =
    ''Approve tool call '' @ repr_str tool_name @ '' with args '' @ repr_json args @ ''?''"

definition status_value :: "approval_status \<Rightarrow> string" where
  "status_value s = (case s of PENDING \<Rightarrow> ''pending'' | APPROVED \<Rightarrow> ''approved'' | DENIED \<Rightarrow> ''denied''
     | CANCELLED \<Rightarrow> ''cancelled'' | TIMED_OUT \<Rightarrow> ''timed_out'')"

definition refusal_verb :: "approval_status \<Rightarrow> string" where
  "refusal_verb s =
    (case s of DENIED \<Rightarrow> ''denied by approver'' | TIMED_OUT \<Rightarrow> ''no approver responded in time''
     | CANCELLED \<Rightarrow> ''approval cancelled'' | _ \<Rightarrow> ''not approved ('' @ status_value s @ '')'')"

definition refusal_text :: "approval_result \<Rightarrow> string" where
  "refusal_text r =
    ''tool call '' @ refusal_verb (as_status r) @
    (case as_reason r of Some (c # s) \<Rightarrow> '': '' @ c # s | _ \<Rightarrow> [])"

text \<open>\<open>execute\<close> of the wrapper after \<open>request\<close> has returned.\<close>

definition gated_outcome ::
  "approval_result \<Rightarrow> 'w tool \<Rightarrow> json \<Rightarrow> 'w \<Rightarrow> tool_outcome \<times> 'w" where
  "gated_outcome r t args w =
    (if as_status r = APPROVED then tl_execute t args w else (OutText (refusal_text r), w))"

text \<open>The wrapped tools; \<open>ask\<close> is the manager's \<open>request\<close> as a tool sees it.\<close>

definition gated_tool ::
  "(string \<Rightarrow> json \<Rightarrow> 'w \<Rightarrow> approval_result \<times> 'w) \<Rightarrow> (string \<Rightarrow> json \<Rightarrow> string) \<Rightarrow> 'w tool \<Rightarrow> 'w tool" where
  "gated_tool ask fmt t =
    \<lparr>tl_name = tl_name t,
     tl_description = tl_description t @ '' (requires human approval before execution)'',
     tl_schema = tl_schema t,
     tl_execute = (\<lambda>args w.
       let (r, w') = ask (fmt (tl_name t) args)
                       (JObj [(''tool'', JStr (tl_name t)), (''args'', args)]) w
       in gated_outcome r t args w')\<rparr>"

definition gated_tool_with_whitelist ::
  "(string \<Rightarrow> json \<Rightarrow> 'w \<Rightarrow> approval_result \<times> 'w) \<Rightarrow> (json \<Rightarrow> bool) \<Rightarrow>
   (string \<Rightarrow> json \<Rightarrow> string) \<Rightarrow> 'w tool \<Rightarrow> 'w tool" where
  "gated_tool_with_whitelist ask auto_approve fmt t =
    \<lparr>tl_name = tl_name t,
     tl_description = tl_description t @
       '' (read-only invocations auto-approve; mutating ones require human approval)'',
     tl_schema = tl_schema t,
     tl_execute = (\<lambda>args w.
       if auto_approve args then tl_execute t args w
       else let (r, w') = ask (fmt (tl_name t) args)
                            (JObj [(''tool'', JStr (tl_name t)), (''args'', args)]) w
            in gated_outcome r t args w')\<rparr>"

subsection \<open>What the operations do to a request\<close>

text \<open>The entry of a request: its request and its decision.\<close>

abbreviation entry :: "approval_manager \<Rightarrow> string \<Rightarrow> (approval_request \<times> approval_result option) option" where
  "entry m i \<equiv> map_of (am_pending m) i"

lemma persist_frame [simp]:
  "am_pending (persist fails m) = am_pending m" "am_token (persist fails m) = am_token m"
  "am_persistent (persist fails m) = am_persistent m"
  by (simp_all add: persist_def)

lemma emit_frame [simp]:
  "am_pending (emit e m) = am_pending m" "am_token (emit e m) = am_token m"
  "am_persistent (emit e m) = am_persistent m" "am_file (emit e m) = am_file m"
  by (simp_all add: emit_def)

lemma open_frame [simp]:
  "entry (open_request fails q m) i = (if i = aq_id q then Some (q, None) else entry m i)"
  "am_token (open_request fails q m) = am_token m"
  by (simp_all add: open_request_def map_of_dict_set)

lemma close_frame [simp]:
  "entry (close_request fails j m) i = (if i = j then None else entry m i)"
  "am_token (close_request fails j m) = am_token m"
  by (simp_all add: close_request_def map_of_dict_pop)

lemma set_result_entry [simp]:
  "entry (set_result j r m) i =
     (if i = j then map_option (\<lambda>(q, f). (q, Some r)) (entry m i) else entry m i)"
  "am_token (set_result j r m) = am_token m"
  by (auto simp: set_result_def map_of_dict_set split: option.split)

lemma undecided_entry: "undecided i m \<longleftrightarrow> (\<exists>q. entry m i = Some (q, None))"
  by (auto simp: undecided_def split: option.splits)

text \<open>What cancelling all requests does to one of them.\<close>

lemma cancel_each_entry:
  "entry (snd (cancel_each reason now is m)) i = entry m i \<or>
   (\<exists>q. entry m i = Some (q, None) \<and>
      entry (snd (cancel_each reason now is m)) i = Some (q, Some (cancelled_result i reason now)))"
proof (induction reason now "is" m rule: cancel_each.induct)
  case (1 reason now m)
  show ?case by simp
next
  case (2 reason now j js m)
  show ?case
  proof (cases "undecided j m")
    case True
    then obtain q where q: "entry m j = Some (q, None)" by (auto simp: undecided_entry)
    from 2(1) [OF True] True q show ?thesis
      by (cases "i = j") (auto simp: Let_def case_prod_beta)
  next
    case False
    with 2(2) show ?thesis by simp
  qed
qed

lemma cancel_each_token [simp]: "am_token (snd (cancel_each reason now is m)) = am_token m"
  by (induction reason now "is" m rule: cancel_each.induct) (auto simp: Let_def case_prod_beta)

subsection \<open>Decisions\<close>

text \<open>An approval that the manager accepts: by anybody without a token, with the token otherwise.\<close>

definition authorised :: "string option \<Rightarrow> approval_action list \<Rightarrow> string \<Rightarrow> bool" where
  "authorised token as i \<longleftrightarrow>
     (\<exists>reason offered now. Resolve i True reason offered now \<in> set as \<and>
        (token = None \<or> offered = token))"

lemma require_approver_token:
  "require_approver offered m = Inr u \<Longrightarrow> am_token m = None \<or> offered = am_token m"
  by (auto simp: require_approver_def split: option.splits if_splits)

text \<open>What a decision that is on record or was delivered says.\<close>

definition sound :: "string option \<Rightarrow> approval_action list \<Rightarrow> approval_result \<Rightarrow> bool" where
  "sound token as r \<longleftrightarrow> as_status r = APPROVED \<longrightarrow> authorised token as (as_id r)"

definition decisions_sound :: "string option \<Rightarrow> approval_action list \<Rightarrow> approval_manager \<Rightarrow> bool" where
  "decisions_sound token as m \<longleftrightarrow>
     am_token m = token \<and>
     (\<forall>i q r. entry m i = Some (q, Some r) \<longrightarrow> as_id r = i \<and> sound token as r)"

lemma sound_more: "sound token as r \<Longrightarrow> sound token (as @ bs) r"
  by (auto simp: sound_def authorised_def)

lemma decisions_more: "decisions_sound token as m \<Longrightarrow> decisions_sound token (as @ bs) m"
  by (auto simp: decisions_sound_def intro: sound_more)

lemma decisions_less:
  assumes "decisions_sound token as m" and "am_token m' = am_token m"
    and "\<And>i q r. entry m' i = Some (q, Some r) \<Longrightarrow>
      entry m i = Some (q, Some r) \<or> (as_id r = i \<and> sound token as r)"
  shows "decisions_sound token as m'"
  unfolding decisions_sound_def
proof (intro conjI allI impI)
  show "am_token m' = token" using assms(1,2) by (simp add: decisions_sound_def)
next
  fix i q r
  assume "entry m' i = Some (q, Some r)"
  from assms(3) [OF this] assms(1) show "as_id r = i" and "sound token as r"
    by (auto simp: decisions_sound_def)
qed

lemma resolve_sound:
  assumes dec: "decisions_sound token as m"
    and res: "am_resolve i ok reason offered now m = Inr (x, m')"
    and mem: "Resolve i ok reason offered now \<in> set as"
  shows "decisions_sound token as m'"
proof (cases "undecided i m")
  case False
  with res dec show ?thesis by (auto simp: am_resolve_def bind_err_Inr)
next
  case True
  let ?r = "\<lparr>as_id = i, as_status = (if ok then APPROVED else DENIED), as_reason = reason,
    as_resolved_at = now\<rparr>"
  from True res have m': "m' = set_result i ?r m" and req: "require_approver offered m = Inr ()"
    by (auto simp: am_resolve_def bind_err_Inr Let_def)
  have "token = None \<or> offered = token"
    using require_approver_token [OF req] dec by (auto simp: decisions_sound_def)
  then have "authorised token as i" if ok
    using mem that unfolding authorised_def by simp blast
  then have "sound token as ?r" by (simp add: sound_def)
  then show ?thesis
    unfolding m' by (intro decisions_less [OF dec]) (auto split: if_splits option.splits)
qed

lemma cancelled_sound [simp]: "sound token as (cancelled_result i reason now)"
  by (simp add: sound_def cancelled_result_def)

lemma approval_step_sound:
  assumes dec: "decisions_sound token as m" and step: "approval_step fails a m = Some (m', new)"
  shows "decisions_sound token (as @ [a]) m' \<and> list_all (sound token (as @ [a])) new"
proof -
  let ?as = "as @ [a]"
  have dec': "decisions_sound token ?as m" by (rule decisions_more [OF dec])
  show ?thesis
  proof (cases a)
    case (Open q)
    with step have "m' = open_request fails q m" "new = []" by (auto split: if_splits)
    then show ?thesis by (auto intro!: decisions_less [OF dec'] split: if_splits)
  next
    case (Resolve i ok reason offered now)
    with step show ?thesis
      using dec' resolve_sound [OF dec', of i ok reason offered now] by (auto split: sum.splits)
  next
    case (CancelOne i reason offered now)
    have "decisions_sound token ?as (set_result i (cancelled_result i reason now) m)"
      by (rule decisions_less [OF dec'])
         (auto simp: cancelled_result_def sound_def split: if_splits option.splits)
    with CancelOne step dec' show ?thesis
      by (auto simp: am_cancel_def bind_err_Inr split: sum.splits if_splits)
  next
    case (CancelAll reason now)
    have "decisions_sound token ?as (snd (am_cancel_all reason now m))"
    proof (rule decisions_less [OF dec'])
      show "am_token (snd (am_cancel_all reason now m)) = am_token m" by (simp add: am_cancel_all_def)
    next
      fix i q r
      assume "entry (snd (am_cancel_all reason now m)) i = Some (q, Some r)"
      with cancel_each_entry [of reason now "map fst (am_pending m)" m i]
      show "entry m i = Some (q, Some r) \<or> as_id r = i \<and> sound token ?as r"
        by (auto simp: am_cancel_all_def) (simp add: cancelled_result_def)
    qed
    with CancelAll step show ?thesis by simp
  next
    case (Deliver i)
    with step obtain r q where e: "entry m i = Some (q, Some r)" and m': "m' = close_request fails i m"
      and new: "new = [r]"
      by (auto simp: deliver_def split: option.splits)
    have "sound token ?as r" using dec' e by (auto simp: decisions_sound_def)
    with new show ?thesis unfolding m' by (auto intro!: decisions_less [OF dec'] split: if_splits)
  next
    case (Expire i now)
    with step have "m' = close_request fails i m" and
      new: "new = [\<lparr>as_id = i, as_status = TIMED_OUT, as_reason = None, as_resolved_at = now\<rparr>]"
      by (auto simp: expire_def split: option.splits)
    then show ?thesis by (auto simp: sound_def intro!: decisions_less [OF dec'] split: if_splits)
  next
    case (Abandon i)
    with step have "m' = close_request fails i m" "new = []" by (auto split: option.splits)
    then show ?thesis by (auto intro!: decisions_less [OF dec'] split: if_splits)
  qed
qed

text \<open>The token of the manager does not change, and what it hands out is sound.\<close>

definition sound_so_far ::
  "approval_manager \<Rightarrow> approval_action list \<Rightarrow> approval_result list \<Rightarrow> approval_manager \<Rightarrow> bool" where
  "sound_so_far m0 as rs m \<longleftrightarrow>
     decisions_sound (am_token m0) as m \<and> list_all (sound (am_token m0) as) rs"

interpretation approvals_sound:
  trace_invariant "approval_step fails" "\<lambda>m. am_pending m = []" sound_so_far for fails
proof
  show "sound_so_far m0 [] [] m0" if "am_pending m0 = []" for m0
    using that by (simp add: sound_so_far_def decisions_sound_def)
next
  fix m0 as rs m a m' new
  assume ok: "sound_so_far m0 as rs m" and step: "approval_step fails a m = Some (m', new)"
  then have "list_all (sound (am_token m0) (as @ [a])) rs"
    by (auto simp: sound_so_far_def list_all_iff intro: sound_more)
  with approval_step_sound [OF _ step] ok show "sound_so_far m0 (as @ [a]) (rs @ new) m'"
    by (auto simp: sound_so_far_def)
qed

subsection \<open>The decision stands\<close>

text \<open>The actions that end a request.\<close>

fun ends :: "string \<Rightarrow> approval_action \<Rightarrow> bool" where
  "ends i (Deliver j) \<longleftrightarrow> j = i"
| "ends i (Expire j now) \<longleftrightarrow> j = i"
| "ends i (Abandon j) \<longleftrightarrow> j = i"
| "ends i _ \<longleftrightarrow> False"

lemma approval_step_keeps:
  assumes e: "entry m i = Some (q, Some r)" and step: "approval_step fails a m = Some (m', new)"
    and "\<not> ends i a"
  shows "entry m' i = Some (q, Some r)"
proof (cases a)
  case (Resolve j ok reason offered now)
  with step e show ?thesis
    by (auto simp: am_resolve_def bind_err_Inr undecided_entry Let_def split: sum.splits if_splits)
next
  case (CancelOne j reason offered now)
  with step e show ?thesis
    by (auto simp: am_cancel_def bind_err_Inr undecided_entry split: sum.splits if_splits)
next
  case (CancelAll reason now)
  with step e cancel_each_entry [of reason now "map fst (am_pending m)" m i] show ?thesis
    by (auto simp: am_cancel_all_def)
qed (use assms in \<open>auto simp: deliver_def expire_def split: option.splits if_splits\<close>)

subsection \<open>The snapshot\<close>

lemma pending_requests_dict_set:
  "map_of d i = Some (q, f) \<Longrightarrow>
   map (\<lambda>(i, q, f). q) (dict_set i (q, r) d) = map (\<lambda>(i, q, f). q) d"
  by (induction d) (auto split: if_splits)

lemma set_result_requests [simp]: "pending_requests (set_result i r m) = pending_requests m"
  by (auto simp: set_result_def pending_requests_def pending_requests_dict_set split: option.split)

lemma set_result_file [simp]:
  "am_file (set_result i r m) = am_file m" "am_persistent (set_result i r m) = am_persistent m"
  by (auto simp: set_result_def split: option.split)

lemma cancel_each_file [simp]:
  "pending_requests (snd (cancel_each reason now is m)) = pending_requests m"
  "am_file (snd (cancel_each reason now is m)) = am_file m"
  "am_persistent (snd (cancel_each reason now is m)) = am_persistent m"
  by (induction reason now "is" m rule: cancel_each.induct) (auto simp: Let_def case_prod_beta)

definition snapshot_ok :: "approval_manager \<Rightarrow> bool" where
  "snapshot_ok m \<longleftrightarrow> am_persistent m \<and>
     (am_pending m = [] \<or> am_file m = Snapshot (pending_requests m))"

lemma persist_snapshot: "am_persistent m \<Longrightarrow> snapshot_ok (persist (\<lambda>qs. False) m)"
  by (simp add: snapshot_ok_def persist_def pending_requests_def)

lemma emit_snapshot: "snapshot_ok (emit e m) = snapshot_ok m"
  by (simp add: snapshot_ok_def pending_requests_def)

lemma pending_requests_Nil: "am_pending m = [] \<longleftrightarrow> pending_requests m = []"
  by (simp add: pending_requests_def)

lemma snapshot_set_result [simp]: "snapshot_ok (set_result i r m) = snapshot_ok m"
  by (simp add: snapshot_ok_def pending_requests_Nil)

lemma snapshot_cancel_each [simp]: "snapshot_ok (snd (cancel_each reason now is m)) = snapshot_ok m"
  by (simp add: snapshot_ok_def pending_requests_Nil)

lemma approval_step_snapshot:
  assumes ok: "snapshot_ok m" and step: "approval_step (\<lambda>qs. False) a m = Some (m', new)"
  shows "snapshot_ok m'"
proof -
  have "am_persistent m" using ok by (simp add: snapshot_ok_def)
  then have opened: "snapshot_ok (open_request (\<lambda>qs. False) q m)"
    and closed: "snapshot_ok (close_request (\<lambda>qs. False) i m)" for q i
    by (simp_all add: open_request_def close_request_def emit_snapshot persist_snapshot)
  show ?thesis
  proof (cases a)
    case (Resolve i good reason offered now)
    with step ok show ?thesis
      by (auto simp: am_resolve_def bind_err_Inr Let_def split: sum.splits if_splits)
  next
    case (CancelOne i reason offered now)
    with step ok show ?thesis by (auto simp: am_cancel_def bind_err_Inr split: sum.splits if_splits)
  next
    case (CancelAll reason now)
    with step ok show ?thesis by (auto simp: am_cancel_all_def)
  qed (use step in \<open>auto simp: deliver_def expire_def opened closed split: option.splits if_splits\<close>)
qed

interpretation approvals_snapshot:
  trace_invariant "approval_step (\<lambda>qs. False)" "\<lambda>m. am_pending m = [] \<and> am_persistent m"
    "\<lambda>m0 as rs m. snapshot_ok m"
  by unfold_locales (simp add: snapshot_ok_def, rule approval_step_snapshot)

subsection \<open>Properties\<close>

text \<open>C35. No approval, no run. In every history of a manager that starts without requests, a gated tool runs on a
  delivered result only if the history has an approval of the request it belongs to, and that approval
  presented the approver token where the manager has one. A manager without a token, which is what the gateway
  has unless its environment sets one, takes the approval of anybody. On every other result
  the tool is not run, the world stays as it is, and the model gets a refusal.\<close>

theorem no_approval_no_run:
  assumes "approval_trace fails m0 as rs m" and "am_pending m0 = []" and "r \<in> set rs"
    and "\<And>reason offered now. Resolve (as_id r) True reason offered now \<in> set as \<Longrightarrow>
      am_token m0 \<noteq> None \<and> offered \<noteq> am_token m0"
  shows "gated_outcome r t args w = (OutText (refusal_text r), w)"
proof -
  from approvals_sound.holds [OF assms(1,2)] assms(3) have "sound (am_token m0) as r"
    by (auto simp: sound_so_far_def list_all_iff)
  moreover have "\<not> authorised (am_token m0) as (as_id r)" using assms(4) by (force simp: authorised_def)
  ultimately show ?thesis by (auto simp: sound_def gated_outcome_def)
qed

text \<open>Without a token everybody is an approver.\<close>

lemma tokenless_manager_accepts_anybody:
  "am_token m = None \<Longrightarrow> undecided i m \<Longrightarrow>
    \<exists>r m'. am_resolve i True reason offered now m = Inr (Some r, m') \<and> as_status r = APPROVED"
  by (simp add: am_resolve_def require_approver_def Let_def)

definition demo_request :: approval_request where
  "demo_request = \<lparr>aq_id = ''r1'', aq_prompt = ''rm?'', aq_context = JObj [], aq_requested_at = 0\<rparr>"

definition demo_manager :: approval_manager where
  "demo_manager = approval_manager_new True True True NoFile (Some ''secret'') None"

text \<open>A request that is approved with a wrong token and then times out.\<close>

definition demo_actions :: "approval_action list" where
  "demo_actions = [Open demo_request, Resolve ''r1'' True None (Some ''guess'') 1, Expire ''r1'' 60]"

definition demo_timeout :: approval_result where
  "demo_timeout = \<lparr>as_id = ''r1'', as_status = TIMED_OUT, as_reason = None, as_resolved_at = 60\<rparr>"

lemma demo_approval_trace:
  "\<exists>m. approval_trace (\<lambda>qs. False) demo_manager demo_actions [demo_timeout] m"
proof -
  let ?f = "\<lambda>qs. False"
  have entry0: "entry demo_manager ''r1'' = None"
    by (simp add: demo_manager_def approval_manager_new_def)
  let ?m1 = "open_request ?f demo_request demo_manager"
  have s1: "approval_step ?f (Open demo_request) demo_manager = Some (?m1, [])"
    using entry0 by (simp add: demo_request_def)
  have "require_approver (Some ''guess'') ?m1 = Inl ApprovalAuthError"
    by (simp add: require_approver_def ascii_def demo_manager_def approval_manager_new_def
        resolve_approver_token_def)
  then have s2: "approval_step ?f (Resolve ''r1'' True None (Some ''guess'') 1) ?m1 = Some (?m1, [])"
    by (simp add: am_resolve_def)
  have s3: "approval_step ?f (Expire ''r1'' 60) ?m1 = Some (close_request ?f ''r1'' ?m1, [demo_timeout])"
    by (simp add: expire_def demo_request_def demo_timeout_def)
  have t1: "approval_trace ?f demo_manager ([] @ [Open demo_request]) ([] @ []) ?m1"
    by (rule runs.step [of "approval_step ?f", OF runs.start s1])
  have t2: "approval_trace ?f demo_manager
      (([] @ [Open demo_request]) @ [Resolve ''r1'' True None (Some ''guess'') 1]) (([] @ []) @ []) ?m1"
    by (rule runs.step [of "approval_step ?f", OF t1 s2])
  from runs.step [of "approval_step ?f", OF t2 s3] show ?thesis by (auto simp: demo_actions_def)
qed

theorem no_approval_no_run_witness:
  "\<forall>t :: nat tool. gated_outcome demo_timeout t (JObj []) 3 =
     (OutText ''tool call no approver responded in time'', 3)"
proof
  fix t :: "nat tool"
  obtain m where m: "approval_trace (\<lambda>qs. False) demo_manager demo_actions [demo_timeout] m"
    using demo_approval_trace by blast
  have "am_pending demo_manager = []" "am_token demo_manager = Some ''secret''"
    by (simp_all add: demo_manager_def approval_manager_new_def resolve_approver_token_def)
  then have "gated_outcome demo_timeout t (JObj []) 3 = (OutText (refusal_text demo_timeout), 3)"
    using no_approval_no_run [OF m, of demo_timeout t "JObj []" 3]
    by (simp add: demo_actions_def)
  then show "gated_outcome demo_timeout t (JObj []) 3 =
      (OutText ''tool call no approver responded in time'', 3)"
    by (simp add: refusal_text_def refusal_verb_def demo_timeout_def)
qed

text \<open>The first decision stands. Once a request is decided, no later resolution or cancellation changes
  the decision while the request is pending, and it is this decision that its caller gets.\<close>

lemma first_decision_stands:
  assumes "approval_trace fails m as rs m'" and "map_of (am_pending m) i = Some (q, Some r)"
    and "list_all (\<lambda>a. \<not> ends i a) as"
  shows "map_of (am_pending m') i = Some (q, Some r) \<and>
    deliver fails i m' = Some (r, close_request fails i m')"
proof -
  have "entry m' i = Some (q, Some r)"
    using assms(1,3)
  proof (induction rule: runs.induct)
    case start
    show ?case by (rule assms(2))
  next
    case (step as rs m a m' new)
    then show ?case using approval_step_keeps [OF _ step.hyps(2)] by simp
  qed
  then show ?thesis by (simp add: deliver_def)
qed

text \<open>The snapshot. While the writes succeed, the file of a persistent manager lists exactly the
  requests that are pending, whenever there are any.\<close>

lemma snapshot_lists_pending:
  assumes "approval_trace (\<lambda>qs. False) m0 as rs m" and "am_pending m0 = []" and "am_persistent m0"
  shows "am_pending m = [] \<or> am_file m = Snapshot (pending_requests m)"
  using approvals_snapshot.holds [OF assms(1)] assms(2,3) by (simp add: snapshot_ok_def)

end
