(* ===== verification/ToolArgs.thy ===== *)
theory ToolArgs
  imports Messages
begin

section \<open>Tool arguments\<close>

text \<open>
  \<open>oxenclaw/tools_pkg/_arg_aliases.py\<close>, the aliases that small models use for the arguments of a tool,
  and \<open>_desc.py\<close>, the text of a tool's description.
\<close>

subsection \<open>Argument aliases\<close>

definition is_truthy :: "json option \<Rightarrow> bool" where
  "is_truthy v =
    (case v of None \<Rightarrow> False | Some JNull \<Rightarrow> False | Some (JStr s) \<Rightarrow> strip s \<noteq> [] | Some _ \<Rightarrow> True)"

fun first_truthy :: "(string \<times> json) list \<Rightarrow> string list \<Rightarrow> json option" where
  "first_truthy out [] = None"
| "first_truthy out (a # as) = (if is_truthy (map_of out a) then map_of out a else first_truthy out as)"

definition fold_canonical :: "string \<times> string list \<Rightarrow> (string \<times> json) list \<Rightarrow> (string \<times> json) list" where
  "fold_canonical ca out =
    (let (canonical, aliases) = ca;
         out1 = (if is_truthy (map_of out canonical) then out
                 else (case first_truthy out aliases of
                         Some v \<Rightarrow> dict_set canonical v out
                       | None \<Rightarrow> out))
     in fold dict_pop aliases out1)"

definition fold_aliases :: "(string \<times> string list) list \<Rightarrow> json \<Rightarrow> json" where
  "fold_aliases mapping data =
    (case data of JObj kvs \<Rightarrow> JObj (fold fold_canonical mapping kvs) | _ \<Rightarrow> data)"

subsection \<open>Descriptions\<close>

definition hermes_desc ::
  "string \<Rightarrow> string list \<Rightarrow> string list \<Rightarrow> (string \<times> string) list \<Rightarrow> string \<Rightarrow> string" where
  "hermes_desc summary when_use when_skip alternatives notes =
    join '' ''
      ([strip summary] @
       (if when_use = [] then [] else [''WHEN TO USE: '' @ join ''; '' (map strip when_use) @ ''.'']) @
       (if when_skip = [] then [] else [''WHEN NOT TO USE: '' @ join ''; '' (map strip when_skip) @ ''.'']) @
       (if alternatives = [] then []
        else [''ALTERNATIVES: '' @ join ''; '' (map (\<lambda>(name, why). name @ '' ('' @ why @ '')'') alternatives) @ ''.'']) @
       (if notes = [] then [] else [''IMPORTANT: '' @ strip notes]))"

end
