(* ===== verification/ShellTool.thy ===== *)
theory ShellTool
  imports Whitelist CommandGate Approvals ToolArgs
begin

section \<open>The shell tool of the assistant\<close>

text \<open>
  \<open>shell_run_tool\<close> of \<open>oxenclaw/tools_pkg/fs_tools.py\<close> with the aliases of its arguments
  (\<open>_arg_aliases.py\<close>) and its description (\<open>_desc.py\<close>), and the tool that
  \<open>oxenclaw/cli/gateway_cmd.py\<close> registers from it: behind the whitelist and the approval queue.
  Parameters of the model are the process (\<open>spawn\<close>), the approval manager as a tool sees it (\<open>ask\<close>),
  and of pydantic the coercion to float, the schema and the text of a validation error.
\<close>

subsection \<open>Description\<close>

definition shell_description :: string where
  "shell_description =
    hermes_desc
      ''Run an arbitrary shell command (via sh -c) and return stdout+stderr. Exit code is included in the output header.''
      [''no dedicated tool exists for this operation'', ''you need a one-off pipe / git plumbing / build invocation'']
      [''reading a file (use read_file)'', ''editing a file (use edit / write_file)'',
       ''searching content (use grep) or filenames (use glob)'', ''long-running processes (use process_tool)'']
      [(''read_file'', ''cat / head / tail''), (''edit'', ''sed / awk in-place edits''), (''grep'', ''grep -r''),
       (''glob'', ''find -name''), (''process_tool'', ''background processes'')]
      ''REQUIRES human approval. Hardline / dangerous patterns are blocked outright.''"

subsection \<open>Arguments\<close>

record shell_args =
  sa_command :: string
  sa_timeout :: real
  sa_cwd :: "string option"

definition COMMAND_ALIASES :: "string list" where
  "COMMAND_ALIASES = [''cmd'', ''shell'', ''shell_command'', ''script'', ''exec'', ''run'']"

definition shell_aliases :: "(string \<times> string list) list" where
  "shell_aliases =
    [(''command'', COMMAND_ALIASES),
     (''cwd'', [''dir'', ''directory'', ''working_dir'', ''workingDir'', ''path''])]"

definition timeout_arg :: "(json \<Rightarrow> real option) \<Rightarrow> json option \<Rightarrow> real option" where
  "timeout_arg as_float v =
    (case v of
       None \<Rightarrow> Some 30
     | Some j \<Rightarrow>
        (case as_float j of
           None \<Rightarrow> None
         | Some x \<Rightarrow> if 0 < x \<and> x \<le> 300 then Some x else None))"

definition cwd_arg :: "json option \<Rightarrow> string option option" where
  "cwd_arg v = (case v of None \<Rightarrow> Some None | Some JNull \<Rightarrow> Some None | Some (JStr s) \<Rightarrow> Some (Some s) | Some _ \<Rightarrow> None)"

text \<open>\<open>_ShellRunArgs.model_validate\<close>: unknown fields are refused.\<close>

definition validate_shell_args :: "(json \<Rightarrow> real option) \<Rightarrow> json \<Rightarrow> py_error + shell_args" where
  "validate_shell_args as_float data =
    (case fold_aliases shell_aliases data of
       JObj kvs \<Rightarrow>
        (if \<not> fst ` set kvs \<subseteq> {''command'', ''timeout_seconds'', ''cwd''} then Inl ValidationError
         else (case (map_of kvs ''command'', timeout_arg as_float (map_of kvs ''timeout_seconds''),
                     cwd_arg (map_of kvs ''cwd'')) of
                 (Some (JStr c), Some t, Some d) \<Rightarrow> Inr \<lparr>sa_command = c, sa_timeout = t, sa_cwd = d\<rparr>
               | _ \<Rightarrow> Inl ValidationError))
     | _ \<Rightarrow> Inl ValidationError)"

subsection \<open>The tool\<close>

text \<open>What the process does: it cannot be started, it runs out of time, or it ends with a code and its
  decoded output.\<close>

datatype spawn_result = SpawnFailed string | SpawnTimeout | Exited int string

definition shell_output :: "int \<Rightarrow> string \<Rightarrow> string" where
  "shell_output code out =
    (let header = ''[exit '' @ show_int code @ '']'';
         stdout = (if 16000 < length out
                   then take 16000 out @ newline @ ''[...truncated '' @ show_nat (length out - 16000) @ '' chars]''
                   else out)
     in if stdout = [] then header else header @ newline @ stdout)"

definition shell_handler ::
  "(real \<Rightarrow> string) \<Rightarrow> (string \<Rightarrow> string option \<Rightarrow> real \<Rightarrow> 'w \<Rightarrow> spawn_result \<times> 'w) \<Rightarrow>
   shell_args \<Rightarrow> 'w \<Rightarrow> string \<times> 'w" where
  "shell_handler show_float spawn a w =
    (case detect_command_threats (sa_command a) of
       (Hardline, label) \<Rightarrow>
         (''shell error: BLOCKED (hardline) '' @ [CHR 0x82] @ '' '' @ the label @
          ''. This command is on the unconditional blocklist and cannot be executed via the agent.'', w)
     | (Dangerous, label) \<Rightarrow>
         (''shell error: BLOCKED (dangerous) '' @ [CHR 0x82] @ '' '' @ the label @
          ''. This command needs explicit operator approval; use the dashboard'' @ [CHR 0x27] @
          ''s approve-command UI before retrying.'', w)
     | (Passed, label) \<Rightarrow>
         (case spawn (sa_command a) (sa_cwd a) (sa_timeout a) w of
            (SpawnFailed exc, w') \<Rightarrow> (''shell_run error: '' @ exc, w')
          | (SpawnTimeout, w') \<Rightarrow>
              (''shell_run: command timed out after '' @ show_float (sa_timeout a) @ ''s'', w')
          | (Exited code out, w') \<Rightarrow> (shell_output code out, w')))"

definition shell_run_tool ::
  "(json \<Rightarrow> real option) \<Rightarrow> (json \<Rightarrow> string) \<Rightarrow> json \<Rightarrow> (real \<Rightarrow> string) \<Rightarrow>
   (string \<Rightarrow> string option \<Rightarrow> real \<Rightarrow> 'w \<Rightarrow> spawn_result \<times> 'w) \<Rightarrow> 'w tool" where
  "shell_run_tool as_float invalid_text schema show_float spawn =
    \<lparr>tl_name = ''shell'', tl_description = shell_description, tl_schema = schema,
     tl_execute = (\<lambda>args w.
       case validate_shell_args as_float args of
         Inl e \<Rightarrow> (OutRaised (invalid_text args), w)
       | Inr a \<Rightarrow> (let (out, w') = shell_handler show_float spawn a w in (OutText out, w')))\<rparr>"

definition py_str :: "json \<Rightarrow> string" where
  "py_str v = (case v of JStr s \<Rightarrow> s | _ \<Rightarrow> repr_json v)"

text \<open>The predicate that the gateway gives to \<open>gated_tool_with_whitelist\<close>.\<close>

definition shell_auto_approve :: "string list \<Rightarrow> json \<Rightarrow> bool" where
  "shell_auto_approve whitelist args =
    (case args of
       JObj kvs \<Rightarrow>
         is_auto_approvable (case map_of kvs ''command'' of Some v \<Rightarrow> py_str v | None \<Rightarrow> []) whitelist
     | _ \<Rightarrow> False)"

definition assistant_shell ::
  "(string \<Rightarrow> json \<Rightarrow> 'w \<Rightarrow> approval_result \<times> 'w) \<Rightarrow> string list \<Rightarrow> 'w tool \<Rightarrow> 'w tool" where
  "assistant_shell ask whitelist shell =
    gated_tool_with_whitelist ask (shell_auto_approve whitelist) default_format_prompt shell"

text \<open>The registration, under the feature flag.\<close>

definition assistant_shell_tools ::
  "string option \<Rightarrow> string option \<Rightarrow> string list \<Rightarrow>
   (string \<Rightarrow> json \<Rightarrow> 'w \<Rightarrow> approval_result \<times> 'w) \<Rightarrow> 'w tool \<Rightarrow> 'w tool list" where
  "assistant_shell_tools shell_flag whitelist_var skill_bins ask shell =
    (if assistant_shell_enabled shell_flag
     then [assistant_shell ask (build_shell_whitelist skill_bins None whitelist_var []) shell]
     else [])"

subsection \<open>The command that is judged is the command that runs\<close>

lemma map_of_fold_pop: "map_of (fold dict_pop ks d) k = (if k \<in> set ks then None else map_of d k)"
  by (induction ks arbitrary: d) (auto simp: map_of_dict_pop)

lemma fold_canonical_keeps:
  assumes "k = c \<Longrightarrow> is_truthy (map_of d k)" and "k \<notin> set as"
  shows "map_of (fold_canonical (c, as) d) k = map_of d k"
  using assms
  by (auto simp: fold_canonical_def Let_def map_of_fold_pop map_of_dict_set split: option.split)

lemma folded_command:
  assumes "is_truthy (map_of kvs ''command'')"
  shows "map_of (fold fold_canonical shell_aliases kvs) ''command'' = map_of kvs ''command''"
proof -
  let ?d = "fold_canonical (''command'', COMMAND_ALIASES) kvs"
  have "map_of ?d ''command'' = map_of kvs ''command''"
    by (rule fold_canonical_keeps) (use assms in \<open>simp_all add: COMMAND_ALIASES_def\<close>)
  moreover have "map_of (fold_canonical (''cwd'', as) ?d) ''command'' = map_of ?d ''command''"
    if "''command'' \<notin> set as" for as
    by (rule fold_canonical_keeps) (use that in simp_all)
  ultimately show ?thesis by (simp add: shell_aliases_def)
qed

lemma auto_approved_nonblank: "is_auto_approvable c whitelist \<Longrightarrow> strip c \<noteq> []"
  by (auto simp: is_auto_approvable_def split: if_splits)

text \<open>A command that is \<open>null\<close> is judged by the word \<open>None\<close>, and an alias may then supply the command.\<close>

definition null_loophole :: "string list \<Rightarrow> json \<Rightarrow> bool" where
  "null_loophole whitelist args \<longleftrightarrow>
    ''None'' \<in> set whitelist \<and>
    (case args of JObj kvs \<Rightarrow> map_of kvs ''command'' = Some JNull | _ \<Rightarrow> False)"

lemma null_command: "is_auto_approvable ''None'' whitelist \<longleftrightarrow> ''None'' \<in> set whitelist"
  by (simp add: is_auto_approvable_eq clean_def dangerous_metachars metachars_def newline_def
      segments_ok_def strip_def lstrip_def rstrip_def is_space_def segment_ok_def shlex_split_def
      shlex_space_def shlex_quote_def segment_first_match_def)

lemma auto_approved_command:
  assumes "\<not> null_loophole whitelist args" and "shell_auto_approve whitelist args" and "validate_shell_args as_float args = Inr a"
  shows "is_auto_approvable (sa_command a) whitelist"
proof -
  from assms(2) obtain kvs v where kvs: "args = JObj kvs" "map_of kvs ''command'' = Some v"
    "is_auto_approvable (py_str v) whitelist"
    by (auto simp: shell_auto_approve_def is_auto_approvable_def split: json.splits option.splits)
  have "is_truthy (Some v) \<or> v = JNull"
    using auto_approved_nonblank [OF kvs(3)] by (cases v) (auto simp: is_truthy_def py_str_def)
  then show ?thesis
  proof
    assume "is_truthy (Some v)"
    with folded_command [of kvs] kvs have "map_of (fold fold_canonical shell_aliases kvs) ''command'' = Some v"
      by simp
    with assms(3) kvs have "v = JStr (sa_command a)"
      by (auto simp: validate_shell_args_def fold_aliases_def split: if_splits option.splits json.splits)
    with kvs(3) show ?thesis by (simp add: py_str_def)
  next
    assume "v = JNull"
    with kvs assms(1) show ?thesis by (simp add: py_str_def null_command null_loophole_def)
  qed
qed

lemma validated_outcome:
  "tl_execute (shell_run_tool as_float invalid_text schema show_float spawn) args w =
    (case validate_shell_args as_float args of
       Inl e \<Rightarrow> (OutRaised (invalid_text args), w)
     | Inr a \<Rightarrow> (let (out, w') = shell_handler show_float spawn a w in (OutText out, w')))"
  by (simp add: shell_run_tool_def)

text \<open>A call whose command is not cleared does not depend on what a process would do.\<close>

lemma handler_ignores_spawn:
  "fst (detect_command_threats (sa_command a)) \<noteq> Passed \<Longrightarrow>
   shell_handler show_float spawn a w = shell_handler show_float spawn' a w"
  by (auto simp: shell_handler_def split: prod.split verdict.split)

subsection \<open>Properties\<close>

text \<open>The loophole at work: a whitelist with the word \<open>None\<close> lets any command through.\<close>

lemma null_loophole_runs:
  "shell_auto_approve [''None''] (JObj [(''command'', JNull), (''cmd'', JStr ''touch x'')])"
  "\<not> is_auto_approvable ''touch x'' [''None'']"
  "map_sum id sa_command (validate_shell_args (\<lambda>j. None) (JObj [(''command'', JNull), (''cmd'', JStr ''touch x'')])) =
    Inr ''touch x''"
  by code_simp+

text \<open>C17. The shell runs a command only if the command gate lets it pass and, besides, the whitelist admits
  that very command, or a human has approved the call, or the whitelist holds the word \<open>None\<close> and the call gives
  \<open>null\<close> for the command. Otherwise the result and the world do not depend on the process at all, whatever
  aliases the arguments use. (The last case is a loophole: the call is judged as the command \<open>None\<close>, and an
  alias supplies another one.)\<close>

theorem shell_runs_cleared_commands:
  assumes "\<And>a. validate_shell_args as_float args = Inr a \<Longrightarrow>
      fst (detect_command_threats (sa_command a)) = Passed \<Longrightarrow>
      \<not> is_auto_approvable (sa_command a) whitelist \<and> \<not> null_loophole whitelist args \<and>
      (\<forall>prompt context. as_status (fst (ask prompt context w)) \<noteq> APPROVED)"
  shows "tl_execute (assistant_shell ask whitelist
           (shell_run_tool as_float invalid_text schema show_float spawn)) args w =
         tl_execute (assistant_shell ask whitelist
           (shell_run_tool as_float invalid_text schema show_float spawn')) args w"
proof (cases "validate_shell_args as_float args")
  case (Inl e)
  then show ?thesis
    by (simp add: assistant_shell_def gated_tool_with_whitelist_def gated_outcome_def
        shell_run_tool_def case_prod_beta Let_def)
next
  case (Inr a)
  show ?thesis
  proof (cases "fst (detect_command_threats (sa_command a)) = Passed")
    case True
    note cleared = assms [OF Inr True]
    with auto_approved_command [OF _ _ Inr, of whitelist]
    have "\<not> shell_auto_approve whitelist args" "\<And>p c. as_status (fst (ask p c w)) \<noteq> APPROVED"
      by auto
    then show ?thesis
      by (simp add: assistant_shell_def gated_tool_with_whitelist_def gated_outcome_def
          shell_run_tool_def case_prod_beta Let_def)
  next
    case False
    then have "shell_handler show_float spawn a v = shell_handler show_float spawn' a v" for v
      by (rule handler_ignores_spawn)
    with Inr show ?thesis
      by (simp add: assistant_shell_def gated_tool_with_whitelist_def gated_outcome_def
          shell_run_tool_def case_prod_beta Let_def)
  qed
qed

definition demo_ask :: "string \<Rightarrow> json \<Rightarrow> nat \<Rightarrow> approval_result \<times> nat" where
  "demo_ask prompt context w =
    (\<lparr>as_id = ''r'', as_status = APPROVED, as_reason = None, as_resolved_at = 0\<rparr>, w)"

theorem shell_runs_cleared_commands_witness:
  "\<forall>spawn :: string \<Rightarrow> string option \<Rightarrow> real \<Rightarrow> nat \<Rightarrow> spawn_result \<times> nat.
   tl_execute (assistant_shell demo_ask BUILTIN_READONLY
       (shell_run_tool (\<lambda>j. None) (\<lambda>j. []) JNull (\<lambda>x. []) spawn))
     (JObj [(''cmd'', JStr ''ls; reboot'')]) 0 =
   tl_execute (assistant_shell demo_ask BUILTIN_READONLY
       (shell_run_tool (\<lambda>j. None) (\<lambda>j. []) JNull (\<lambda>x. []) (\<lambda>c d t w. (SpawnTimeout, w + 1))))
     (JObj [(''cmd'', JStr ''ls; reboot'')]) 0"
proof -
  let ?args = "JObj [(''cmd'', JStr ''ls; reboot'')]"
  have v: "validate_shell_args (\<lambda>j. None) ?args =
      Inr \<lparr>sa_command = ''ls; reboot'', sa_timeout = 30, sa_cwd = None\<rparr>"
    by (simp add: validate_shell_args_def fold_aliases_def shell_aliases_def fold_canonical_def
        COMMAND_ALIASES_def is_truthy_def strip_def lstrip_def rstrip_def is_space_def dict_pop_def
        timeout_arg_def cwd_arg_def)
  have "fst (detect_command_threats ''ls; reboot'') = Hardline" by code_simp
  with v have "\<And>a. validate_shell_args (\<lambda>j. None) ?args = Inr a \<Longrightarrow>
      fst (detect_command_threats (sa_command a)) \<noteq> Passed"
    by auto
  then show ?thesis
    by (intro allI shell_runs_cleared_commands) blast
qed

end
