(* ===== verification/Compaction.thy ===== *)
theory Compaction
  imports TurnProps
begin

section \<open>Compaction of a conversation\<close>

text \<open>
  \<open>oxenclaw/pi/compaction.py\<close> with the token estimate of \<open>pi/tokens.py\<close> and the sessions of
  \<open>pi/session.py\<close>: the decision and the boundary, the summary in place of the dropped messages, the
  guard against useless passes, and the structured pipeline with its deduplication, pruning and repair
  of orphaned tool pairs. The summariser, MD5, \<open>tiktoken\<close>, the clock and fresh identifiers are
  parameters. The pipeline changes the caller's messages in place: it returns them beside its result.
\<close>

subsection \<open>Token estimates\<close>

text \<open>\<open>enc\<close> is the length of the encoding by \<open>tiktoken\<close>, if it is installed. \<open>round\<close> of a quotient by
  3.5 never meets a tie.\<close>

definition estimate_text :: "(string \<Rightarrow> int) option \<Rightarrow> string \<Rightarrow> int" where
  "estimate_text enc s =
    (if s = [] then 0
     else (case enc of
             Some f \<Rightarrow> f s
           | None \<Rightarrow> max 1 ((4 * int (length s) + 7) div 14)))"

fun estimate_block :: "(string \<Rightarrow> int) option \<Rightarrow> block \<Rightarrow> int" where
  "estimate_block enc (TextContent s) = estimate_text enc s"
| "estimate_block enc (ThinkingBlock s sig) = estimate_text enc s"
| "estimate_block enc (ToolUseBlock i name inp) =
    estimate_text enc (json_dumps False False inp) + estimate_text enc name"
| "estimate_block enc (ImageContent mt d) = 1500"

fun estimate_content :: "(string \<Rightarrow> int) option \<Rightarrow> content \<Rightarrow> int" where
  "estimate_content enc (CStr s) = estimate_text enc s"
| "estimate_content enc (CBlocks bs) = sum_list (map (estimate_block enc) bs)"

fun estimate_message :: "(string \<Rightarrow> int) option \<Rightarrow> message \<Rightarrow> int" where
  "estimate_message enc (SystemMessage s) = estimate_text enc s"
| "estimate_message enc (UserMessage c) = estimate_content enc c"
| "estimate_message enc (AssistantMessage a) = estimate_content enc (CBlocks (am_content a))"
| "estimate_message enc (ToolResultMessage rs) =
    sum_list (map (\<lambda>r. estimate_content enc (tr_content r)) rs)"

definition PER_MESSAGE_OVERHEAD :: int where
  "PER_MESSAGE_OVERHEAD = 4"

definition estimate_tokens :: "(string \<Rightarrow> int) option \<Rightarrow> message list \<Rightarrow> int" where
  "estimate_tokens enc ms = sum_list (map (\<lambda>m. PER_MESSAGE_OVERHEAD + estimate_message enc m) ms)"

definition MODEL_CONTEXT_TOKENS :: "(string \<times> int) list" where
  "MODEL_CONTEXT_TOKENS =
    [(''claude-sonnet-4-6'', 1000000), (''claude-sonnet-4-5'', 200000), (''claude-opus-4-7'', 200000),
     (''claude-haiku-4-5'', 200000), (''claude-haiku-4-5-20251001'', 200000),
     (''gpt-4o'', 128000), (''gpt-4o-mini'', 128000), (''gpt-4-turbo'', 128000), (''o1'', 200000),
     (''o3'', 200000),
     (''gemini-1.5-pro'', 2000000), (''gemini-2.0-flash'', 1000000), (''gemini-2.5-pro'', 2000000),
     (''gemma4:latest'', 131072), (''gemma4:e2b'', 131072), (''gemma4:e4b'', 131072),
     (''gemma4:26b'', 262144), (''gemma4:31b'', 262144), (''qwen3.5:9b'', 262144),
     (''qwen2.5:7b-instruct'', 32768), (''llama3.1:8b'', 128000), (''mistral-nemo:12b'', 128000),
     (''gemma3:4b'', 8192), (''deepseek-r1:7b'', 32768)]"

definition model_context_window :: "string \<Rightarrow> int \<Rightarrow> int" where
  "model_context_window model_id dflt =
    (case map_of MODEL_CONTEXT_TOKENS model_id of Some n \<Rightarrow> n | None \<Rightarrow> dflt)"

subsection \<open>The guard\<close>

record compaction_guard =
  gd_history :: "(int \<times> int) list"
  gd_threshold_ratio :: real

definition guard_record :: "int \<Rightarrow> int \<Rightarrow> compaction_guard \<Rightarrow> compaction_guard" where
  "guard_record before after g =
    (let h = gd_history g @ [(before, after)]
     in g\<lparr>gd_history := (if 3 < length h then drop (length h - 3) h else h)\<rparr>)"

definition guard_reset :: "compaction_guard \<Rightarrow> compaction_guard" where
  "guard_reset g = g\<lparr>gd_history := []\<rparr>"

definition saved_little :: "real \<Rightarrow> int \<times> int \<Rightarrow> bool" where
  "saved_little threshold p =
    (let (before, after) = p
     in 0 < before \<and> real_of_int (before - after) / real_of_int before < threshold)"

text \<open>Whether the last two passes saved little each.\<close>

definition two_useless :: "real \<Rightarrow> (int \<times> int) list \<Rightarrow> bool" where
  "two_useless threshold h \<longleftrightarrow>
     2 \<le> length h \<and> list_all (saved_little threshold) (drop (length h - 2) h)"

definition guard_should_skip :: "compaction_guard \<Rightarrow> bool" where
  "guard_should_skip g = two_useless (gd_threshold_ratio g) (gd_history g)"

definition should_skip_compaction :: "compaction_guard \<Rightarrow> int \<Rightarrow> real \<Rightarrow> bool" where
  "should_skip_compaction g current_size threshold_pct =
    two_useless (max 0 threshold_pct / 100) (gd_history g)"

subsection \<open>Deciding\<close>

record compaction_plan =
  cp_needed :: bool
  cp_keep_tail_count :: nat
  cp_drop_indexes :: "nat list"
  cp_reason :: string
  cp_tokens_before :: int
  cp_tokens_after :: int

definition no_plan :: "nat \<Rightarrow> string \<Rightarrow> int \<Rightarrow> compaction_plan" where
  "no_plan keep reason tokens =
    \<lparr>cp_needed = False, cp_keep_tail_count = keep, cp_drop_indexes = [], cp_reason = reason,
     cp_tokens_before = tokens, cp_tokens_after = tokens\<rparr>"

definition has_tool_use :: "assistant \<Rightarrow> bool" where
  "has_tool_use a \<longleftrightarrow> list_ex is_tool_use (am_content a)"

definition safe_boundary :: "message list \<Rightarrow> nat \<Rightarrow> bool" where
  "safe_boundary ms i =
    (if i = 0 \<or> length ms \<le> i then True
     else (case (ms ! (i - 1), ms ! i) of
             (AssistantMessage a, ToolResultMessage rs) \<Rightarrow> \<not> has_tool_use a
           | _ \<Rightarrow> True))"

text \<open>The loop that moves the boundary to the right until it is safe or at the end.\<close>

function next_boundary :: "message list \<Rightarrow> nat \<Rightarrow> nat" where
  "next_boundary ms i =
    (if i < length ms \<and> \<not> safe_boundary ms i then next_boundary ms (i + 1) else i)"
  by pat_completeness auto
termination
  by (relation "measure (\<lambda>(ms, i). length ms - i)") auto

declare next_boundary.simps [simp del]

definition decide_compaction ::
  "(string \<Rightarrow> int) option \<Rightarrow> message list \<Rightarrow> int \<Rightarrow> real \<Rightarrow> int \<Rightarrow> string \<Rightarrow> bool \<Rightarrow>
   compaction_guard option \<Rightarrow> real \<Rightarrow> compaction_plan" where
  "decide_compaction enc ms context_tokens ratio keep_tail_turns reason forced guard pct =
    (if ms = [] then no_plan 0 reason 0
     else
       let now = estimate_tokens enc ms;
           threshold = py_int (real_of_int context_tokens * ratio)
       in if \<not> forced \<and> now < threshold then no_plan 0 reason now
          else if (case guard of Some g \<Rightarrow> should_skip_compaction g now pct | None \<Rightarrow> False)
            then no_plan 0 reason now
          else
            let n = length ms;
                tail_start = next_boundary ms (nat (max 1 (int n - keep_tail_turns)))
            in if n \<le> tail_start then no_plan n reason now
               else
                 let dropped = sum_list (map (\<lambda>i. estimate_tokens enc [ms ! i]) [0..<tail_start])
                 in \<lparr>cp_needed = True, cp_keep_tail_count = n - tail_start,
                     cp_drop_indexes = [0..<tail_start], cp_reason = reason, cp_tokens_before = now,
                     cp_tokens_after = now - dropped + max 200 (dropped div 10)\<rparr>)"

subsection \<open>Applying a plan\<close>

record compaction_entry =
  ce_id :: string
  ce_summary :: string
  ce_replaced :: "nat list"
  ce_created_at :: real
  ce_reason :: string
  ce_tokens_before :: int
  ce_tokens_after :: int
  ce_archive_path :: "string option"

definition summary_message :: "nat \<Rightarrow> string \<Rightarrow> message" where
  "summary_message n summary =
    SystemMessage (''[COMPACTED SUMMARY of '' @ show_nat n @ '' prior messages]'' @ newline @ summary)"

definition apply_compaction ::
  "(string \<Rightarrow> int) option \<Rightarrow> string \<Rightarrow> real \<Rightarrow> message list \<Rightarrow> compaction_plan \<Rightarrow>
   (message list \<Rightarrow> string) \<Rightarrow> message list \<times> compaction_entry" where
  "apply_compaction enc uuid now ms plan summarizer =
    (if \<not> cp_needed plan
     then (ms, \<lparr>ce_id = uuid, ce_summary = [], ce_replaced = [], ce_created_at = now,
                ce_reason = cp_reason plan, ce_tokens_before = cp_tokens_before plan,
                ce_tokens_after = cp_tokens_before plan, ce_archive_path = None\<rparr>)
     else
       let dropped = map ((!) ms) (cp_drop_indexes plan);
           summary = summarizer dropped;
           tail = (if cp_drop_indexes plan = [] then ms
                   else drop (Max (set (cp_drop_indexes plan)) + 1) ms);
           new = summary_message (length dropped) summary # tail
       in (new, \<lparr>ce_id = uuid, ce_summary = summary, ce_replaced = cp_drop_indexes plan,
                 ce_created_at = now, ce_reason = cp_reason plan,
                 ce_tokens_before = cp_tokens_before plan, ce_tokens_after = estimate_tokens enc new,
                 ce_archive_path = None\<rparr>))"

record agent_session =
  se_id :: string
  se_title :: "string option"
  se_agent_id :: string
  se_model_id :: "string option"
  se_messages :: "message list"
  se_compactions :: "compaction_entry list"
  se_created_at :: real
  se_updated_at :: real
  se_metadata :: json

definition maybe_compact ::
  "(string \<Rightarrow> int) option \<Rightarrow> string \<Rightarrow> real \<Rightarrow> int \<Rightarrow> (message list \<Rightarrow> string) \<Rightarrow> real \<Rightarrow> int \<Rightarrow>
   string \<Rightarrow> bool \<Rightarrow> agent_session \<Rightarrow> bool \<times> agent_session" where
  "maybe_compact enc uuid now context_tokens summarizer ratio keep_tail_turns reason forced s =
    (let plan = decide_compaction enc (se_messages s) context_tokens ratio keep_tail_turns reason forced
                  None 10
     in if \<not> cp_needed plan then (False, s)
        else let (new, entry) = apply_compaction enc uuid now (se_messages s) plan summarizer
             in (True, s\<lparr>se_messages := new, se_compactions := se_compactions s @ [entry]\<rparr>))"

definition truncating_summarizer :: "message list \<Rightarrow> string" where
  "truncating_summarizer ms =
    (if ms = [] then []
     else
       let first = List.find is_user ms;
           last = List.find (\<lambda>m. case m of AssistantMessage a \<Rightarrow> True | _ \<Rightarrow> False) (rev ms)
       in join newline
            ([''('' @ show_nat (length ms) @ '' messages compacted)''] @
             (case first of
                Some (UserMessage (CStr s)) \<Rightarrow> [''First user turn: '' @ take 300 s]
              | Some (UserMessage (CBlocks bs)) \<Rightarrow> [''First user turn: (multi-block)'']
              | _ \<Rightarrow> []) @
             (case last of
                Some (AssistantMessage a) \<Rightarrow>
                  (case List.find is_text (am_content a) of
                     Some (TextContent s) \<Rightarrow> [''Last assistant turn: '' @ take 300 s]
                   | _ \<Rightarrow> [])
              | _ \<Rightarrow> [])))"

subsection \<open>Tool results and tool arguments\<close>

text \<open>A number with commas between its groups of three digits.\<close>

definition pad3 :: "nat \<Rightarrow> string" where
  "pad3 n = (let s = show_nat n in replicate (3 - length s) CHR ''0'' @ s)"

function show_commas :: "nat \<Rightarrow> string" where
  "show_commas n =
    (if n < 1000 then show_nat n else show_commas (n div 1000) @ '','' @ pad3 (n mod 1000))"
  by pat_completeness auto
termination
  by (relation "measure id") auto

declare show_commas.simps [simp del]

text \<open>How the one-line summary of a tool's result is built: the words around a number of lines, around a
  number of characters, around both, the start of the text, or fixed words.\<close>

datatype result_summary =
    Lines string string
  | Chars string string
  | LinesChars string string string
  | Head string
  | Fixed string

definition RESULT_SUMMARIES :: "(string \<times> result_summary) list" where
  "RESULT_SUMMARIES =
    [(''shell'', LinesChars ''ran command -> '' '' lines output, '' '' chars''),
     (''read_file'', Chars ''read file ('' '' chars)''), (''read_pdf'', Chars ''read pdf ('' '' chars)''),
     (''write_file'', Lines ''wrote file ('' '' lines)''), (''edit'', Chars ''applied edit ('' '' chars result)''),
     (''list_dir'', Lines ''listed dir ('' '' entries)''), (''grep'', Lines ''searched ('' '' lines result)''),
     (''glob'', Lines ''matched files ('' '' matches)''),
     (''search_files'', Lines ''content search ('' '' matches)''),
     (''memory_save'', Chars ''saved fact ('' '' chars)''),
     (''memory_search'', LinesChars ''recall ('' '' hits, '' '' chars)''),
     (''memory_get'', Chars ''read memory ('' '' chars)''), (''web_search'', Chars ''search ('' '' chars result)''),
     (''web_fetch'', Chars ''fetched URL ('' '' chars)''), (''weather'', Head []), (''get_time'', Head []),
     (''github'', Chars ''called ('' '' chars result)''), (''wiki_search'', Lines ''vault search ('' '' hits)''),
     (''wiki_get'', Chars ''read page ('' '' chars)''), (''wiki_save'', Fixed ''wrote page''),
     (''summarize'', Chars ''summarised ('' '' chars)''), (''skill_resolver'', Chars ''resolved skill ('' '' chars)''),
     (''subagents'', Chars ''delegated ('' '' chars result)''),
     (''coding_agent'', Chars ''delegated ('' '' chars result)''), (''healthcheck'', Head []),
     (''cron'', Fixed ''scheduled job''), (''process'', Fixed ''managed process''),
     (''message'', Chars ''sent ('' '' chars)''),
     (''browser_navigate'', Chars ''acted ('' '' chars)''), (''browser_snapshot'', Chars ''acted ('' '' chars)''),
     (''browser_screenshot'', Chars ''acted ('' '' chars)''), (''browser_click'', Chars ''acted ('' '' chars)''),
     (''browser_fill'', Chars ''acted ('' '' chars)''), (''browser_evaluate'', Chars ''acted ('' '' chars)''),
     (''browser_download'', Chars ''acted ('' '' chars)''),
     (''sessions_yield'', Chars ''session op ('' '' chars)''), (''sessions_spawn'', Chars ''session op ('' '' chars)''),
     (''sessions_status'', Chars ''session op ('' '' chars)''), (''sessions_list'', Chars ''session op ('' '' chars)''),
     (''sessions_history'', Chars ''session op ('' '' chars)''), (''sessions_send'', Chars ''session op ('' '' chars)''),
     (''session_logs'', Lines ''read logs ('' '' lines)'')]"

definition line_count :: "string \<Rightarrow> nat" where
  "line_count body = (if strip body = [] then 0 else length (filter (\<lambda>c. c = CHR 0x0A) body) + 1)"

definition summarize_tool_result :: "string \<Rightarrow> string \<Rightarrow> string" where
  "summarize_tool_result name body =
    ''['' @ name @ ''] '' @
    (case map_of RESULT_SUMMARIES name of
       Some (Lines a b) \<Rightarrow> a @ show_nat (line_count body) @ b
     | Some (Chars a b) \<Rightarrow> a @ show_commas (length body) @ b
     | Some (LinesChars a b c) \<Rightarrow> a @ show_nat (line_count body) @ b @ show_commas (length body) @ c
     | Some (Head a) \<Rightarrow> take 80 body
     | Some (Fixed a) \<Rightarrow> a
     | None \<Rightarrow> ''tool result ('' @ show_commas (length body) @ '' chars)'')"

fun shrink_json :: "int \<Rightarrow> json \<Rightarrow> json" where
  "shrink_json budget (JStr s) =
    (if budget < int (length s) then JStr (slice_to budget s @ ''...(truncated)'') else JStr s)"
| "shrink_json budget (JObj kvs) = JObj (map (\<lambda>(k, v). (k, shrink_json budget v)) kvs)"
| "shrink_json budget (JArr xs) = JArr (map (shrink_json budget) xs)"
| "shrink_json budget j = j"

definition truncate_args_json :: "string \<Rightarrow> int \<Rightarrow> string" where
  "truncate_args_json args_json max_chars =
    (if args_json = [] \<or> int (length args_json) \<le> max_chars then args_json
     else (case json_loads args_json of
             None \<Rightarrow> json_dumps True False
               (JObj [(''_truncated'', JBool True),
                      (''_raw_head'', JStr (slice_to (min max_chars 200) args_json))])
           | Some parsed \<Rightarrow> json_dumps False False (shrink_json (max 64 (max_chars div 4)) parsed)))"

definition tool_result_body :: "tool_result \<Rightarrow> string" where
  "tool_result_body r =
    (case tr_content r of
       CStr s \<Rightarrow> s
     | CBlocks bs \<Rightarrow> join newline (concat (map (\<lambda>b. case b of TextContent s \<Rightarrow> [s] | _ \<Rightarrow> []) bs)))"

definition set_body :: "string \<Rightarrow> tool_result \<Rightarrow> tool_result" where
  "set_body s r = r\<lparr>tr_content := CStr s\<rparr>"

subsection \<open>Deduplication\<close>

text \<open>\<open>seen\<close> maps the digest of a body to the call whose result has it.\<close>

definition dedup_block ::
  "(string \<Rightarrow> string) \<Rightarrow> tool_result \<Rightarrow> (string \<times> string) list \<Rightarrow>
   tool_result \<times> (string \<times> string) list \<times> nat" where
  "dedup_block md5 r seen =
    (let body = tool_result_body r; digest = take 12 (md5 body)
     in if length body < 200 then (r, seen, 0)
        else (case map_of seen digest of
                Some anchor \<Rightarrow>
                  (set_body (''[dedup: same as earlier tool_result '' @ anchor @ '']'') r, seen, 1)
              | None \<Rightarrow> (r, dict_set digest (tr_tool_use_id r) seen, 0)))"

fun dedup_blocks ::
  "(string \<Rightarrow> string) \<Rightarrow> tool_result list \<Rightarrow> (string \<times> string) list \<Rightarrow>
   tool_result list \<times> (string \<times> string) list \<times> nat" where
  "dedup_blocks md5 [] seen = ([], seen, 0)"
| "dedup_blocks md5 (r # rs) seen =
    (let (r', seen1, n1) = dedup_block md5 r seen; (rs', seen2, n2) = dedup_blocks md5 rs seen1
     in (r' # rs', seen2, n1 + n2))"

text \<open>The messages from the last one to the first.\<close>

fun dedup_reversed ::
  "(string \<Rightarrow> string) \<Rightarrow> message list \<Rightarrow> (string \<times> string) list \<Rightarrow> message list \<times> nat" where
  "dedup_reversed md5 [] seen = ([], 0)"
| "dedup_reversed md5 (ToolResultMessage rs # ms) seen =
    (let (rs', seen1, n1) = dedup_blocks md5 rs seen; (ms', n2) = dedup_reversed md5 ms seen1
     in (ToolResultMessage rs' # ms', n1 + n2))"
| "dedup_reversed md5 (m # ms) seen = (let (ms', n) = dedup_reversed md5 ms seen in (m # ms', n))"

definition dedup_tool_results :: "(string \<Rightarrow> string) \<Rightarrow> message list \<Rightarrow> message list \<times> nat" where
  "dedup_tool_results md5 ms = (let (ms', n) = dedup_reversed md5 (rev ms) [] in (rev ms', n))"

subsection \<open>Repair of orphaned tool pairs\<close>

definition use_ids :: "message list \<Rightarrow> string list" where
  "use_ids ms =
    concat (map (\<lambda>m. case m of AssistantMessage a \<Rightarrow> map tool_id (tool_uses a) | _ \<Rightarrow> []) ms)"

definition result_ids :: "message list \<Rightarrow> string list" where
  "result_ids ms =
    concat (map (\<lambda>m. case m of ToolResultMessage rs \<Rightarrow> map tr_tool_use_id rs | _ \<Rightarrow> []) ms)"

text \<open>A message that loses all its results is removed.\<close>

fun drop_orphans :: "string list \<Rightarrow> message list \<Rightarrow> message list \<times> nat" where
  "drop_orphans ids [] = ([], 0)"
| "drop_orphans ids (ToolResultMessage rs # ms) =
    (let kept = filter (\<lambda>r. tr_tool_use_id r \<in> set ids) rs; (ms', n) = drop_orphans ids ms
     in (if kept = [] \<and> rs \<noteq> [] then ms' else ToolResultMessage kept # ms',
         n + (length rs - length kept)))"
| "drop_orphans ids (m # ms) = (let (ms', n) = drop_orphans ids ms in (m # ms', n))"

text \<open>The effect on a message that others share: a message that is removed is left as it is.\<close>

definition strip_orphans :: "string list \<Rightarrow> message \<Rightarrow> message" where
  "strip_orphans ids m =
    (case m of
       ToolResultMessage rs \<Rightarrow>
         (let kept = filter (\<lambda>r. tr_tool_use_id r \<in> set ids) rs
          in if kept = [] then m else ToolResultMessage kept)
     | _ \<Rightarrow> m)"

definition stub_result :: "string \<Rightarrow> tool_result" where
  "stub_result i =
    \<lparr>tr_tool_use_id = i,
     tr_content = CStr (''[tool_result missing '' @ [CHR 0x82] @ '' call did not complete in this view]''),
     tr_is_error = False\<rparr>"

text \<open>\<open>missing\<close> are the calls without a result; each gets a stub after the answer that makes it.\<close>

fun insert_stubs :: "string list \<Rightarrow> message list \<Rightarrow> message list \<times> nat" where
  "insert_stubs missing [] = ([], 0)"
| "insert_stubs missing (AssistantMessage a # ms) =
    (let pending = filter (\<lambda>i. i \<in> set missing) (map tool_id (tool_uses a))
     in if pending = [] then (let (ms', n) = insert_stubs missing ms in (AssistantMessage a # ms', n))
        else (let (ms', n) = insert_stubs (filter (\<lambda>i. i \<notin> set pending) missing) ms
              in (AssistantMessage a # ToolResultMessage (map stub_result pending) # ms',
                  n + length pending)))"
| "insert_stubs missing (m # ms) = (let (ms', n) = insert_stubs missing ms in (m # ms', n))"

definition sanitize_tool_pairs :: "message list \<Rightarrow> message list \<times> nat" where
  "sanitize_tool_pairs ms =
    (let (ms1, n1) = drop_orphans (use_ids ms) ms;
         (ms2, n2) = insert_stubs (filter (\<lambda>i. i \<notin> set (result_ids ms)) (use_ids ms)) ms1
     in (ms2, n1 + n2))"

subsection \<open>The boundary of the pipeline\<close>

fun is_results :: "message \<Rightarrow> bool" where
  "is_results (ToolResultMessage rs) = True"
| "is_results _ = False"

text \<open>The last position before \<open>k\<close> that does not hold tool results.\<close>

fun before_results :: "message list \<Rightarrow> nat \<Rightarrow> nat option" where
  "before_results ms 0 = None"
| "before_results ms (Suc k) = (if is_results (ms ! k) then before_results ms k else Some k)"

definition align_boundary_backward :: "message list \<Rightarrow> nat \<Rightarrow> nat" where
  "align_boundary_backward ms bound =
    (if bound = 0 \<or> length ms \<le> bound then bound
     else (case before_results ms bound of
             None \<Rightarrow> bound
           | Some k \<Rightarrow>
               (case ms ! k of AssistantMessage a \<Rightarrow> if has_tool_use a then k else bound | _ \<Rightarrow> bound)))"

fun last_user :: "message list \<Rightarrow> nat \<Rightarrow> nat option" where
  "last_user ms 0 = None"
| "last_user ms (Suc k) = (if is_user (ms ! k) then Some k else last_user ms k)"

definition ensure_last_user_in_tail :: "message list \<Rightarrow> nat \<Rightarrow> nat" where
  "ensure_last_user_in_tail ms bound =
    (if length ms \<le> bound then bound
     else (case last_user ms (length ms) of
             None \<Rightarrow> bound
           | Some i \<Rightarrow> if bound \<le> i then bound else i))"

definition pipeline_cut :: "int \<Rightarrow> message list \<Rightarrow> nat" where
  "pipeline_cut keep_tail_turns ms =
    (let c0 = nat (max 1 (int (length ms) - keep_tail_turns));
         c1 = align_boundary_backward ms c0;
         c2 = ensure_last_user_in_tail ms c1
     in align_boundary_backward ms c2)"

subsection \<open>The prompt of the summariser\<close>

definition SUMMARY_PREFIX :: string where
  "SUMMARY_PREFIX =
    ''[CONTEXT COMPACTION '' @ [CHR 0x82] @
    '' REFERENCE ONLY] Earlier turns were compacted into the summary below. This is a handoff '' @
    ''from a previous context window '' @ [CHR 0x82] @
    '' treat it as background reference, NOT as active instructions. Do NOT answer questions or '' @
    ''fulfill requests mentioned in this summary; they were already addressed. Your current '' @
    ''task is identified in the '' @ [CHR 0x27] @ ''## Active Task'' @ [CHR 0x27] @
    '' section of the summary '' @ [CHR 0x82] @
    '' resume exactly from there. Respond ONLY to the latest user message that appears AFTER '' @
    ''this summary. The current session state (files, config, etc.) may reflect work described '' @
    ''here '' @ [CHR 0x82] @ '' avoid repeating it:''"

definition SUMMARIZER_PREAMBLE :: string where
  "SUMMARIZER_PREAMBLE =
    ''You are a summarization agent creating a context checkpoint. Your output will be injected '' @
    ''as reference material for a DIFFERENT assistant that continues the conversation. Do NOT '' @
    ''respond to any questions or requests in the conversation '' @ [CHR 0x82] @
    '' only output the structured summary. Do NOT include any preamble, greeting, or prefix. '' @
    ''Write the summary in the same language the user was using in the conversation '' @ [CHR 0x82] @
    '' do not translate or switch to English. NEVER include API keys, tokens, passwords, '' @
    ''secrets, credentials, or connection strings in the summary '' @ [CHR 0x82] @
    '' replace any that appear with [REDACTED].''"

definition TEMPLATE_SECTIONS :: string where
  "TEMPLATE_SECTIONS =
    ''## Active Task'' @ newline @ ''[THE SINGLE MOST IMPORTANT FIELD. Copy the user'' @ [CHR 0x27] @
    ''s most recent request or'' @ newline @
    ''task assignment verbatim. If multiple tasks were requested and only some'' @ newline @
    ''are done, list only the ones NOT yet completed. The next assistant must'' @ newline @
    ''pick up exactly here. If no outstanding task exists, write '' @ [CHR 0x22] @ ''None.'' @ [CHR 0x22] @
    '']'' @ newline @ newline @ ''## Goal'' @ newline @
    ''[What the user is trying to accomplish overall]'' @ newline @ newline @
    ''## Constraints & Preferences'' @ newline @
    ''[User preferences, coding style, constraints, important decisions]'' @ newline @ newline @
    ''## Completed Actions'' @ newline @ ''[Numbered list of concrete actions taken '' @ [CHR 0x82] @
    '' include tool used, target, and'' @ newline @ ''outcome. Format each as: N. ACTION target '' @
    [CHR 0x82] @ '' outcome [tool: name]'' @ newline @
    ''Be specific with file paths, commands, line numbers, and results.]'' @ newline @ newline @
    ''## Active State'' @ newline @ ''[Current working state '' @ [CHR 0x82] @
    '' files, branches, tests, running processes, env]'' @ newline @ newline @ ''## In Progress'' @
    newline @ ''[Work currently underway '' @ [CHR 0x82] @
    '' what was being done when compaction fired]'' @ newline @ newline @ ''## Blocked'' @ newline @
    ''[Any blockers, errors, or issues not yet resolved. Include exact errors.]'' @ newline @ newline @
    ''## Key Decisions'' @ newline @ ''[Important technical decisions and WHY they were made]'' @ newline @
    newline @ ''## Resolved Questions'' @ newline @
    ''[Questions the user asked that were ALREADY answered '' @ [CHR 0x82] @ '' include the answer]'' @
    newline @ newline @ ''## Pending User Asks'' @ newline @
    ''[Questions or requests from the user that have NOT yet been answered. If'' @ newline @
    ''none, write '' @ [CHR 0x22] @ ''None.'' @ [CHR 0x22] @ '']'' @ newline @ newline @
    ''## Relevant Files'' @ newline @ ''[Files read, modified, or created '' @ [CHR 0x82] @
    '' with brief note on each]'' @ newline @ newline @ ''## Remaining Work'' @ newline @
    ''[What remains to be done '' @ [CHR 0x82] @ '' framed as context, not instructions]'' @ newline @
    newline @ ''## Critical Context'' @ newline @
    ''[Any specific values, error messages, configuration details, or data that'' @ newline @
    ''would be lost without explicit preservation. NEVER include API keys,'' @ newline @
    ''tokens, passwords, or credentials '' @ [CHR 0x82] @ '' write [REDACTED] instead.]'' @ newline @
    newline @ ''Write only the summary body. Do not include any preamble or prefix.''"

definition clip_text :: "string \<Rightarrow> string" where
  "clip_text s =
    (if 6000 < length s
     then take 4000 s @ newline @ ''...[truncated]...'' @ newline @ drop (length s - 1500) s
     else s)"

definition user_text :: "content \<Rightarrow> string" where
  "user_text c =
    (case c of
       CStr s \<Rightarrow> s
     | CBlocks bs \<Rightarrow> join '' '' (map (\<lambda>b. case b of TextContent s \<Rightarrow> s | _ \<Rightarrow> []) bs))"

text \<open>\<open>b.input or {}\<close> is the input itself: only the empty object is falsy among objects.\<close>

definition tool_line :: "block \<Rightarrow> string" where
  "tool_line b =
    (case b of
       ToolUseBlock i name inp \<Rightarrow>
         ''  '' @ name @ ''('' @ truncate_args_json (json_dumps False False inp) 1500 @ '')''
     | _ \<Rightarrow> [])"

definition assistant_part :: "assistant \<Rightarrow> string" where
  "assistant_part a =
    (let body = clip_text (join newline
                  (concat (map (\<lambda>b. case b of TextContent s \<Rightarrow> [s] | _ \<Rightarrow> []) (am_content a))));
         tools = map tool_line (tool_uses a)
     in if tools = [] then body
        else (if body = [] then [] else body @ newline) @ ''[Tool calls:'' @ newline @
             join newline tools @ newline @ '']'')"

fun message_parts :: "message \<Rightarrow> string list" where
  "message_parts (SystemMessage s) = [''[SYSTEM]: '' @ clip_text s]"
| "message_parts (UserMessage c) = [''[USER]: '' @ clip_text (user_text c)]"
| "message_parts (AssistantMessage a) = [''[ASSISTANT]: '' @ assistant_part a]"
| "message_parts (ToolResultMessage rs) =
    map (\<lambda>r. ''[TOOL RESULT '' @ tr_tool_use_id r @ '']: '' @ clip_text (tool_result_body r)) rs"

definition serialize_messages :: "message list \<Rightarrow> string" where
  "serialize_messages ms = join (newline @ newline) (concat (map message_parts ms))"

definition summary_prompt :: "string \<Rightarrow> string option \<Rightarrow> string option \<Rightarrow> string" where
  "summary_prompt serialized prior insights =
    (let insights_block =
       (case insights of
          Some (c # s) \<Rightarrow>
            newline @ ''PROVIDER-EXTRACTED INSIGHTS (preserve verbatim in the summary):'' @ newline @ c # s @ newline
        | _ \<Rightarrow> [])
     in case prior of
          Some (c # s) \<Rightarrow>
            SUMMARIZER_PREAMBLE @ newline @ newline @
    ''You are updating a context compaction summary. A previous compaction produced the summary '' @
    ''below. New conversation turns have occurred since then and need to be incorporated.'' @ newline @
    newline @
            ''PREVIOUS SUMMARY:'' @ newline @ c # s @ newline @ newline @
            ''NEW TURNS TO INCORPORATE:'' @ newline @ serialized @ newline @ insights_block @ newline @
    ''Update the summary using this exact structure. PRESERVE all existing information that is '' @
    ''still relevant. ADD new completed actions to the numbered list. Move items from '' @ [CHR 0x27] @
    ''In Progress'' @ [CHR 0x27] @ '' to '' @ [CHR 0x27] @ ''Completed Actions'' @ [CHR 0x27] @
    '' when done. Move answered questions to '' @ [CHR 0x27] @ ''Resolved Questions'' @ [CHR 0x27] @
    ''. CRITICAL: Update '' @ [CHR 0x27] @ ''## Active Task'' @ [CHR 0x27] @ '' to reflect the user'' @
    [CHR 0x27] @ ''s most recent unfulfilled request.'' @ newline @ newline @
            TEMPLATE_SECTIONS
        | _ \<Rightarrow>
            SUMMARIZER_PREAMBLE @ newline @ newline @
    ''Create a structured handoff summary for a different assistant that will continue this '' @
    ''conversation after earlier turns are compacted.'' @ newline @ newline @
            ''TURNS TO SUMMARIZE:'' @ newline @ serialized @ newline @ insights_block @ newline @
            ''Use this exact structure:'' @ newline @ newline @ TEMPLATE_SECTIONS)"

text \<open>\<open>llm\<close> answers a prompt, with nothing or with an error at times.\<close>

definition llm_structured_summarizer ::
  "(string \<Rightarrow> py_error + string) \<Rightarrow> message list \<Rightarrow> string option \<Rightarrow> string option \<Rightarrow> py_error + string" where
  "llm_structured_summarizer llm ms prior insights =
    bind_err (llm (summary_prompt (serialize_messages ms) prior insights)) (\<lambda>answer.
      let body = strip answer
      in Inr (if body = [] then [] else SUMMARY_PREFIX @ newline @ body))"

subsection \<open>The pipeline\<close>

definition prune_result :: "tool_result \<Rightarrow> tool_result" where
  "prune_result r =
    (let body = tool_result_body r
     in if 200 < length body then set_body (summarize_tool_result ''unknown'' body) r else r)"

definition prune_block :: "block \<Rightarrow> block" where
  "prune_block b =
    (case b of
       ToolUseBlock i name inp \<Rightarrow>
         (let args_json = json_dumps False False inp
          in if 4000 < length args_json
             then ToolUseBlock i name
                    (case json_loads (truncate_args_json args_json 4000) of
                       Some v \<Rightarrow> v | None \<Rightarrow> JObj [(''_truncated'', JBool True)])
             else b)
     | _ \<Rightarrow> b)"

fun prune_message :: "message \<Rightarrow> message" where
  "prune_message (ToolResultMessage rs) = ToolResultMessage (map prune_result rs)"
| "prune_message (AssistantMessage a) = AssistantMessage (a\<lparr>am_content := map prune_block (am_content a)\<rparr>)"
| "prune_message m = m"

text \<open>What the pipeline leaves behind: its result, the caller's messages, and the guard.\<close>

record pipeline_outcome =
  po_result :: "py_error + (message list \<times> string option)"
  po_caller :: "message list"
  po_guard :: "compaction_guard option"

definition structured_summarizer_pipeline ::
  "(string \<Rightarrow> int) option \<Rightarrow> (string \<Rightarrow> string) \<Rightarrow> (string \<Rightarrow> py_error + string) \<Rightarrow> string option \<Rightarrow>
   compaction_guard option \<Rightarrow> int \<Rightarrow> string option \<Rightarrow> message list \<Rightarrow> pipeline_outcome" where
  "structured_summarizer_pipeline enc md5 llm prior guard keep_tail_turns insights ms =
    (if (case guard of Some g \<Rightarrow> guard_should_skip g | None \<Rightarrow> False)
     then \<lparr>po_result = Inr (ms, prior), po_caller = ms, po_guard = guard\<rparr>
     else if ms = [] then \<lparr>po_result = Inr ([], prior), po_caller = [], po_guard = guard\<rparr>
     else
       let before = estimate_tokens enc ms;
           working = fst (dedup_tool_results md5 ms);
           bound = pipeline_cut keep_tail_turns working
       in if bound = 0
          then \<lparr>po_result = Inr (working, prior), po_caller = working,
                po_guard = map_option (guard_record before before) guard\<rparr>
          else
            let pre = map prune_message (take bound working);
                tail = drop bound working
            in (case llm_structured_summarizer llm pre prior insights of
                  Inl e \<Rightarrow> \<lparr>po_result = Inl e, po_caller = pre @ tail, po_guard = guard\<rparr>
                | Inr summary \<Rightarrow>
                    let new = (if summary = [] then tail else SystemMessage summary # tail);
                        repaired = fst (sanitize_tool_pairs new)
                    in \<lparr>po_result = Inr (repaired, if summary = [] then prior else Some summary),
                        po_caller = pre @ map (strip_orphans (use_ids new)) tail,
                        po_guard = map_option (guard_record before (estimate_tokens enc repaired)) guard\<rparr>))"

subsection \<open>The boundary\<close>

lemma next_boundary_ge: "i \<le> next_boundary ms i"
proof (induction ms i rule: next_boundary.induct)
  case (1 ms i)
  then show ?case by (subst next_boundary.simps) (auto split: if_splits)
qed

lemma next_boundary_safe: "next_boundary ms i < length ms \<Longrightarrow> safe_boundary ms (next_boundary ms i)"
proof (induction ms i rule: next_boundary.induct)
  case (1 ms i)
  show ?case
  proof (cases "i < length ms \<and> \<not> safe_boundary ms i")
    case True
    with 1 show ?thesis by (simp add: next_boundary.simps [of ms i])
  next
    case False
    with 1(2) show ?thesis by (auto simp: next_boundary.simps [of ms i] split: if_splits)
  qed
qed

text \<open>
  A transcript in which every answer that calls tools is followed at once by the results of exactly
  its calls, and no results stand anywhere else.
\<close>

fun paired :: "message list \<Rightarrow> bool" where
  "paired [] \<longleftrightarrow> True"
| "paired [AssistantMessage a] \<longleftrightarrow> \<not> calls_tools a"
| "paired (AssistantMessage a # m # ms) \<longleftrightarrow>
     (if calls_tools a
      then (case m of
              ToolResultMessage rs \<Rightarrow>
                map tr_tool_use_id rs = map tool_id (tool_uses a) \<and> paired ms
            | _ \<Rightarrow> False)
      else paired (m # ms))"
| "paired (ToolResultMessage rs # ms) \<longleftrightarrow> False"
| "paired (UserMessage c # ms) \<longleftrightarrow> paired ms"
| "paired (SystemMessage c # ms) \<longleftrightarrow> paired ms"

lemma paired_no_results_first: "paired (ToolResultMessage rs # ms) \<longleftrightarrow> False"
  by simp

text \<open>A transcript can be cut in front of every message that is not the results of the calls before it.\<close>

lemma paired_drop: "paired ms \<Longrightarrow> k < length ms \<Longrightarrow> \<not> is_results (ms ! k) \<Longrightarrow> paired (drop k ms)"
proof (induction ms arbitrary: k rule: paired.induct)
  case (3 a m ms)
  show ?case
  proof (cases k)
    case 0
    with 3 show ?thesis by simp
  next
    case (Suc j)
    show ?thesis
    proof (cases "calls_tools a")
      case True
      with 3(3) obtain rs where m: "m = ToolResultMessage rs" and p: "paired ms"
        by (auto split: message.splits)
      with Suc 3(5) obtain i where "j = Suc i" by (cases j) auto
      with Suc 3(1) [OF True m p, of i] 3(4,5) m show ?thesis by simp
    next
      case False
      with 3(3) have "paired (m # ms)" by simp
      with 3(2) [OF False this, of j] 3(4,5) Suc show ?thesis by simp
    qed
  qed
next
  case (5 c ms)
  then show ?case by (cases k) auto
next
  case (6 c ms)
  then show ?case by (cases k) auto
qed auto

lemma calls_have_uses: "calls_tools a \<Longrightarrow> has_tool_use a"
  by (auto simp: calls_tools_def has_tool_use_def tool_uses_def list_ex_iff filter_empty_conv)

lemma paired_safe:
  "paired ms \<Longrightarrow> 0 < k \<Longrightarrow> k < length ms \<Longrightarrow> safe_boundary ms k \<Longrightarrow> \<not> is_results (ms ! k)"
proof (induction ms arbitrary: k rule: paired.induct)
  case (3 a m ms)
  from 3(4) obtain j where k: "k = Suc j" by (cases k) auto
  show ?case
  proof (cases "calls_tools a")
    case True
    with 3(3) obtain rs where m: "m = ToolResultMessage rs" and p: "paired ms"
      by (auto split: message.splits)
    show ?thesis
    proof (cases j)
      case 0
      with 3(6) k m calls_have_uses [OF True] show ?thesis by (simp add: safe_boundary_def)
    next
      case (Suc i)
      show ?thesis
      proof (cases i)
        case 0
        then show ?thesis using k Suc 3(5) p by (cases ms rule: paired.cases) auto
      next
        case (Suc h)
        with 3(1) [OF True m p, of i] 3(5,6) k \<open>j = Suc i\<close> show ?thesis by (simp add: safe_boundary_def)
      qed
    qed
  next
    case False
    with 3(3) have p: "paired (m # ms)" by simp
    show ?thesis
    proof (cases j)
      case 0
      then show ?thesis using k p by (cases m) auto
    next
      case (Suc i)
      with 3(2) [OF False p, of j] 3(5,6) k show ?thesis by (simp add: safe_boundary_def)
    qed
  qed
next
  case (5 c ms)
  then obtain j where k: "k = Suc j" by (cases k) auto
  show ?case
  proof (cases j)
    case 0
    with k 5 show ?thesis by (cases ms rule: paired.cases) auto
  next
    case (Suc i)
    with 5 k show ?thesis by (simp add: safe_boundary_def)
  qed
next
  case (6 c ms)
  then obtain j where k: "k = Suc j" by (cases k) auto
  show ?case
  proof (cases j)
    case 0
    with k 6 show ?thesis by (cases ms rule: paired.cases) auto
  next
    case (Suc i)
    with 6 k show ?thesis by (simp add: safe_boundary_def)
  qed
qed auto

lemma plan_needed:
  assumes "plan = decide_compaction enc ms context_tokens ratio keep reason forced guard pct"
    and "cp_needed plan"
  obtains k where "0 < k" "k < length ms" "cp_drop_indexes plan = [0..<k]" "safe_boundary ms k"
    "int (length ms - k) \<le> keep" "cp_keep_tail_count plan = length ms - k"
proof -
  let ?i = "nat (max 1 (int (length ms) - keep))"
  let ?k = "next_boundary ms ?i"
  from assms have k: "?k < length ms" "cp_drop_indexes plan = [0..<?k]"
    "cp_keep_tail_count plan = length ms - ?k"
    by (auto simp: decide_compaction_def no_plan_def Let_def split: if_splits)
  have "?i \<le> ?k" by (rule next_boundary_ge)
  then have "0 < ?k" "int (length ms - ?k) \<le> keep" using k(1) by linarith+
  with k next_boundary_safe [OF k(1)] show thesis using that by blast
qed

lemma apply_plan:
  assumes "cp_needed plan" and "cp_drop_indexes plan = [0..<k]" and "0 < k" and "k < length ms"
  shows "apply_compaction enc uuid now ms plan summarizer =
    (let summary = summarizer (take k ms); new = summary_message k summary # drop k ms
     in (new, \<lparr>ce_id = uuid, ce_summary = summary, ce_replaced = [0..<k], ce_created_at = now,
               ce_reason = cp_reason plan, ce_tokens_before = cp_tokens_before plan,
               ce_tokens_after = estimate_tokens enc new, ce_archive_path = None\<rparr>))"
proof -
  have "map ((!) ms) [0..<k] = take k ms" by (rule nth_equalityI) (use assms(4) in auto)
  moreover have "Max {0..<k} + 1 = k"
  proof -
    have "Max {0..<k} = k - 1" by (rule Max_eqI) (use assms(3) in auto)
    with assms(3) show ?thesis by simp
  qed
  ultimately show ?thesis using assms by (simp add: apply_compaction_def Let_def)
qed

subsection \<open>The repair\<close>

lemma use_ids_simps [simp]:
  "use_ids [] = []" "use_ids (AssistantMessage a # ms) = map tool_id (tool_uses a) @ use_ids ms"
  "use_ids (ToolResultMessage rs # ms) = use_ids ms" "use_ids (UserMessage c # ms) = use_ids ms"
  "use_ids (SystemMessage s # ms) = use_ids ms"
  by (simp_all add: use_ids_def)

lemma result_ids_simps [simp]:
  "result_ids [] = []" "result_ids (AssistantMessage a # ms) = result_ids ms"
  "result_ids (ToolResultMessage rs # ms) = map tr_tool_use_id rs @ result_ids ms"
  "result_ids (UserMessage c # ms) = result_ids ms" "result_ids (SystemMessage s # ms) = result_ids ms"
  by (simp_all add: result_ids_def)

lemma drop_orphans_ids:
  "use_ids (fst (drop_orphans ids ms)) = use_ids ms"
  "result_ids (fst (drop_orphans ids ms)) = filter (\<lambda>i. i \<in> set ids) (result_ids ms)"
  by (induction ids ms rule: drop_orphans.induct)
     (auto simp: Let_def case_prod_beta filter_map comp_def filter_empty_conv)

lemma insert_stubs_uses: "use_ids (fst (insert_stubs missing ms)) = use_ids ms"
  by (induction missing ms rule: insert_stubs.induct) (auto simp: Let_def case_prod_beta)

lemma stub_ids: "map tr_tool_use_id (map stub_result is) = is"
  by (induction "is") (auto simp: stub_result_def)

lemma insert_stubs_results:
  "set (result_ids (fst (insert_stubs missing ms))) =
   set (result_ids ms) \<union> (set missing \<inter> set (use_ids ms))"
proof (induction missing ms rule: insert_stubs.induct)
  case (2 missing a ms)
  let ?pending = "filter (\<lambda>i. i \<in> set missing) (map tool_id (tool_uses a))"
  show ?case
  proof (cases "?pending = []")
    case True
    with 2(1) show ?thesis by (auto simp: Let_def case_prod_beta filter_empty_conv)
  next
    case False
    with 2(2) [OF refl False] show ?thesis
      by (auto simp: Let_def case_prod_beta stub_ids [simplified] stub_result_def)
  qed
qed (auto simp: Let_def case_prod_beta)

lemma sanitize_closes: "set (use_ids (fst (sanitize_tool_pairs ms))) = set (result_ids (fst (sanitize_tool_pairs ms)))"
  by (auto simp: sanitize_tool_pairs_def case_prod_beta insert_stubs_uses drop_orphans_ids
      insert_stubs_results)

text \<open>What is said, without the tool results.\<close>

abbreviation said :: "message list \<Rightarrow> message list" where
  "said ms \<equiv> filter (\<lambda>m. \<not> is_results m) ms"

lemma drop_orphans_said: "said (fst (drop_orphans ids ms)) = said ms"
  by (induction ids ms rule: drop_orphans.induct) (auto simp: Let_def case_prod_beta)

lemma insert_stubs_said: "said (fst (insert_stubs missing ms)) = said ms"
  by (induction missing ms rule: insert_stubs.induct) (auto simp: Let_def case_prod_beta)

lemma sanitize_said: "said (fst (sanitize_tool_pairs ms)) = said ms"
  by (simp add: sanitize_tool_pairs_def case_prod_beta insert_stubs_said drop_orphans_said)

subsection \<open>The deduplication\<close>

lemma dedup_block_frame: "same_frame r (fst (dedup_block md5 r seen))"
  by (auto simp: dedup_block_def same_frame_def set_body_def Let_def split: option.split)

lemma dedup_blocks_frame: "list_all2 same_frame rs (fst (dedup_blocks md5 rs seen))"
proof (induction rs arbitrary: seen)
  case Nil
  show ?case by simp
next
  case (Cons r rs)
  with dedup_block_frame [of r md5 seen] show ?case by (simp add: case_prod_beta Let_def)
qed

lemma dedup_reversed_frame: "list_all2 same_message_frame ms (fst (dedup_reversed md5 ms seen))"
proof (induction ms arbitrary: seen)
  case Nil
  show ?case by simp
next
  case (Cons m ms)
  then show ?case by (cases m) (auto simp: case_prod_beta Let_def dedup_blocks_frame)
qed

lemma dedup_frame: "list_all2 same_message_frame ms (fst (dedup_tool_results md5 ms))"
  using dedup_reversed_frame [of "rev ms" md5 "[]"]
  by (simp add: dedup_tool_results_def case_prod_beta list_all2_rev1)

lemma frame_said: "list_all2 same_message_frame ms ms' \<Longrightarrow> said ms' = said ms"
proof (induction rule: list_all2_induct)
  case Nil
  then show ?case by simp
next
  case (Cons m ms m' ms')
  then show ?case by (cases m) auto
qed

lemma frame_ids:
  "list_all2 same_message_frame ms ms' \<Longrightarrow> use_ids ms' = use_ids ms \<and> result_ids ms' = result_ids ms"
proof (induction rule: list_all2_induct)
  case Nil
  then show ?case by simp
next
  case (Cons m ms m' ms')
  then show ?case by (cases m) (auto simp: same_frame_ids)
qed

lemma frame_user: "same_message_frame m m' \<Longrightarrow> is_user m' = is_user m"
  by (cases m) auto

subsection \<open>The boundary of the pipeline\<close>

lemma before_results_less: "before_results ms k = Some i \<Longrightarrow> i < k"
proof (induction k)
  case (Suc k)
  then show ?case by (auto split: if_splits simp: less_Suc_eq)
qed simp

lemma align_le: "align_boundary_backward ms k \<le> k"
  by (auto simp: align_boundary_backward_def dest!: before_results_less
      split: option.split message.split)

lemma last_user_at:
  assumes "list_all2 same_message_frame (xs @ UserMessage c # ys) ms" and "list_all (\<lambda>m. \<not> is_user m) ys"
  shows "last_user ms (length ms) = Some (length xs)"
proof -
  obtain as b bs where ms: "ms = as @ b # bs" "length as = length xs" "list_all2 same_message_frame ys bs"
    "same_message_frame (UserMessage c) b"
    using assms(1) by (auto simp: list_all2_append1 list_all2_Cons1 dest: list_all2_lengthD)
  have b: "is_user b" using ms(4) by simp
  have bs: "list_all (\<lambda>m. \<not> is_user m) bs"
    using ms(3) assms(2) by (induction rule: list_all2_induct) (auto simp: frame_user)
  have "j \<le> length bs \<Longrightarrow> last_user ms (Suc (length as) + j) = Some (length as)" for j
  proof (induction j)
    case 0
    with b show ?case by (simp add: ms(1) nth_append)
  next
    case (Suc j)
    then have "\<not> is_user (bs ! j)" using bs by (simp add: list_all_length)
    with Suc show ?case by (simp add: ms(1) nth_append)
  qed
  from this [of "length bs"] show ?thesis by (simp add: ms(1,2))
qed

lemma pipeline_cut_le:
  assumes "1 \<le> keep" and "2 \<le> length ms" and "last_user ms (length ms) = Some i"
  shows "pipeline_cut keep ms \<le> i"
proof -
  let ?c0 = "nat (max 1 (int (length ms) - keep))"
  let ?c1 = "align_boundary_backward ms ?c0"
  have "?c0 < length ms" using assms(1,2) by linarith
  then have "?c1 < length ms" using align_le [of ms ?c0] by linarith
  with assms(3) have "ensure_last_user_in_tail ms ?c1 \<le> i"
    by (simp add: ensure_last_user_in_tail_def)
  with align_le [of ms "ensure_last_user_in_tail ms ?c1"] show ?thesis
    unfolding pipeline_cut_def Let_def by linarith
qed

text \<open>The outcomes of the pipeline.\<close>

lemma pipeline_cases:
  assumes "po_result (structured_summarizer_pipeline enc md5 llm prior guard keep insights ms) = Inr (new, p)"
  obtains (kept) "list_all2 same_message_frame ms new"
  | (summarised) working bound us where "list_all2 same_message_frame ms working"
      "bound = pipeline_cut keep working" "list_all (\<lambda>m. \<not> is_results m) us"
      "new = fst (sanitize_tool_pairs (us @ drop bound working))"
proof -
  let ?w = "fst (dedup_tool_results md5 ms)"
  have same: "list_all2 same_message_frame ms ms" by (simp add: list_all2_refl)
  have dedup: "list_all2 same_message_frame ms ?w" by (rule dedup_frame)
  consider "new = ms" | "new = ?w"
    | summary where "new = fst (sanitize_tool_pairs
        (if summary = [] then drop (pipeline_cut keep ?w) ?w else SystemMessage summary # drop (pipeline_cut keep ?w) ?w))"
  proof (cases "(case guard of Some g \<Rightarrow> guard_should_skip g | None \<Rightarrow> False) \<or> ms = []")
    case True
    with assms have "new = ms"
      by (cases "case guard of Some g \<Rightarrow> guard_should_skip g | None \<Rightarrow> False")
         (simp_all add: structured_summarizer_pipeline_def)
    then show ?thesis by (rule that(1))
  next
    case ran: False
    show ?thesis
    proof (cases "pipeline_cut keep ?w = 0")
      case True
      with ran assms have "new = ?w" by (simp add: structured_summarizer_pipeline_def Let_def)
      then show ?thesis by (rule that(2))
    next
      case False
      with ran assms obtain summary where
        "llm_structured_summarizer llm (map prune_message (take (pipeline_cut keep ?w) ?w)) prior insights = Inr summary"
        and "new = fst (sanitize_tool_pairs
          (if summary = [] then drop (pipeline_cut keep ?w) ?w else SystemMessage summary # drop (pipeline_cut keep ?w) ?w))"
        by (simp add: structured_summarizer_pipeline_def Let_def split: sum.splits)
      then show ?thesis by (rule_tac that(3))
    qed
  qed
  then show thesis
  proof cases
    case 1
    with same show ?thesis by (simp add: kept)
  next
    case 2
    with dedup show ?thesis by (simp add: kept)
  next
    case (3 summary)
    show ?thesis
      by (rule summarised [OF dedup refl, of "if summary = [] then [] else [SystemMessage summary]"])
         (use 3 in auto)
  qed
qed

lemma pipeline_returns:
  assumes "\<And>q. \<exists>a. llm q = Inr a"
  shows "\<exists>new p. po_result (structured_summarizer_pipeline enc md5 llm prior guard keep insights ms) = Inr (new, p)"
proof -
  have "\<exists>s. llm_structured_summarizer llm xs prior insights = Inr s" for xs
    using assms [of "summary_prompt (serialize_messages xs) prior insights"]
    by (auto simp: llm_structured_summarizer_def Let_def)
  then obtain s where s: "\<And>xs. llm_structured_summarizer llm xs prior insights = Inr (s xs)" by metis
  show ?thesis by (simp add: structured_summarizer_pipeline_def Let_def s)
qed

text \<open>
  A conversation of one message is summarised as a whole: the boundary is then the end, where neither
  the alignment nor the rule for the user's last message applies.
\<close>

lemma single_message_summarised: "pipeline_cut 6 [UserMessage c] = 1"
  by (simp add: pipeline_cut_def align_boundary_backward_def ensure_last_user_in_tail_def)

subsection \<open>Properties\<close>


definition demo_session :: agent_session where
  "demo_session =
    \<lparr>se_id = ''s'', se_title = None, se_agent_id = ''default'', se_model_id = None,
     se_messages = [UserMessage (CStr ''a''), AssistantMessage (assistant_text ''b'' None),
                    UserMessage (CStr ''c'')],
     se_compactions = [], se_created_at = 0, se_updated_at = 0,
     se_metadata = JObj []\<rparr>"


text \<open>C14. The pipeline leaves no orphan: if it summarises, then afterwards every tool call has a result and
  every result answers a call; otherwise the calls and the results are those of the input.\<close>

theorem pipeline_closes_pairs:
  assumes "po_result (structured_summarizer_pipeline enc md5 llm prior guard keep insights ms) = Inr (new, p)"
  shows "set (use_ids new) = set (result_ids new) \<or>
    (use_ids new = use_ids ms \<and> result_ids new = result_ids ms \<and> said new = said ms)"
  using assms
proof (cases rule: pipeline_cases)
  case kept
  then show ?thesis using frame_ids frame_said by blast
next
  case (summarised working bound us)
  then show ?thesis using sanitize_closes by blast
qed

definition demo_call :: message where
  "demo_call = AssistantMessage \<lparr>am_content = [ToolUseBlock ''t1'' ''ls'' (JObj [])],
     am_stop_reason = Some ''tool_use'', am_usage = None\<rparr>"

theorem pipeline_closes_pairs_witness:
  "\<exists>new p. po_result (structured_summarizer_pipeline None id (\<lambda>q. Inr ''s'') None None 1 None
       [UserMessage (CStr ''a''), demo_call, UserMessage (CStr ''b'')]) = Inr (new, p) \<and>
     (set (use_ids new) = set (result_ids new) \<or>
      (use_ids new = [''t1''] \<and> result_ids new = [] \<and>
       said new = [UserMessage (CStr ''a''), demo_call, UserMessage (CStr ''b'')]))"
proof -
  let ?ms = "[UserMessage (CStr ''a''), demo_call, UserMessage (CStr ''b'')]"
  obtain new p where r: "po_result (structured_summarizer_pipeline None id (\<lambda>q. Inr ''s'') None None 1 None ?ms) =
      Inr (new, p)"
    using pipeline_returns [of "\<lambda>q. Inr ''s''"] by blast
  from pipeline_closes_pairs [OF r] r show ?thesis
    by (auto simp: demo_call_def tool_uses_def)
qed

text \<open>C13. The pipeline never summarises the task at hand away: the last message of the user and everything
  that was said after it stay, word for word and at the end, if a tail is kept at all and the
  conversation has more than one message.\<close>

theorem pipeline_keeps_task:
  assumes "po_result (structured_summarizer_pipeline enc md5 llm prior guard keep insights
      (xs @ UserMessage c # ys)) = Inr (new, p)"
    and "list_all (\<lambda>m. \<not> is_user m) ys" and "1 \<le> keep" and "xs @ ys \<noteq> []"
  shows "\<exists>us. said new = us @ UserMessage c # said ys"
  using assms(1)
proof (cases rule: pipeline_cases)
  case kept
  then show ?thesis using frame_said [OF kept] by auto
next
  case (summarised working bound us)
  have len: "length working = length xs + 1 + length ys"
    using list_all2_lengthD [OF summarised(1)] by simp
  then have "2 \<le> length working" using assms(4) by (cases xs; cases ys) auto
  from pipeline_cut_le [OF assms(3) this last_user_at [OF summarised(1) assms(2)]] summarised(2)
  have b: "bound \<le> length xs" by simp
  from list_all2_dropI [OF summarised(1), of bound]
  have "said (drop bound working) = said (drop bound (xs @ UserMessage c # ys))" by (rule frame_said)
  also have "\<dots> = said (drop bound xs) @ UserMessage c # said ys" using b by simp
  finally show ?thesis using summarised(3,4) sanitize_said by auto
qed

theorem pipeline_keeps_task_witness:
  "\<exists>new p us. po_result (structured_summarizer_pipeline None id (\<lambda>q. Inr ''s'') None None 1 None
       [demo_call, UserMessage (CStr ''b''), demo_call]) = Inr (new, p) \<and>
     said new = us @ [UserMessage (CStr ''b''), demo_call]"
proof -
  let ?ms = "[demo_call] @ UserMessage (CStr ''b'') # [demo_call]"
  obtain new p where r: "po_result (structured_summarizer_pipeline None id (\<lambda>q. Inr ''s'') None None 1 None ?ms) =
      Inr (new, p)"
    using pipeline_returns [of "\<lambda>q. Inr ''s''"] by blast
  from pipeline_keeps_task [OF r] have "\<exists>us. said new = us @ [UserMessage (CStr ''b''), demo_call]"
    by (simp add: demo_call_def)
  with r show ?thesis by auto
qed

end
