(* ===== verification/Texts.thy ===== *)
theory Texts
  imports Prelude
begin

section \<open>Texts, lines and keys\<close>

text \<open>
  Text operations of Python that several components use: replacing and counting, splitting into lines
  (\<open>split\<close> and \<open>splitlines\<close>), the line ends that reading a text file translates, collapsing runs, and the
  order of keys in a dictionary.
\<close>

subsection \<open>Operations\<close>

text \<open>\<open>replace_all p r s\<close> is \<open>s.replace(p, r)\<close> and \<open>count_sub p s\<close> is \<open>s.count(p)\<close> for a \<open>p\<close> that is not empty.\<close>

fun replace_all :: "string \<Rightarrow> string \<Rightarrow> string \<Rightarrow> string" where
  "replace_all p r [] = []"
| "replace_all p r (c # cs) =
    (if p \<noteq> [] \<and> prefix p (c # cs) then r @ replace_all p r (drop (length p - 1) cs)
     else c # replace_all p r cs)"

fun count_sub :: "string \<Rightarrow> string \<Rightarrow> nat" where
  "count_sub p [] = 0"
| "count_sub p (c # cs) =
    (if p \<noteq> [] \<and> prefix p (c # cs) then Suc (count_sub p (drop (length p - 1) cs)) else count_sub p cs)"

definition lines :: "string \<Rightarrow> string list" where
  "lines s = split_on (CHR 0x0A) s"

text \<open>Every run of characters that satisfy \<open>P\<close> becomes one space.\<close>

function squeeze_by :: "(char \<Rightarrow> bool) \<Rightarrow> string \<Rightarrow> string" where
  "squeeze_by P [] = []"
| "squeeze_by P (c # cs) =
    (if P c then CHR '' '' # squeeze_by P (dropWhile P cs) else c # squeeze_by P cs)"
  by pat_completeness auto
termination
  by (relation "measure (length \<circ> snd)") (simp_all add: length_dropWhile_le le_imp_less_Suc)

text \<open>\<open>dict.fromkeys\<close>: the first occurrences in their order.\<close>

fun from_keys_acc :: "'a list \<Rightarrow> 'a list \<Rightarrow> 'a list" where
  "from_keys_acc seen [] = []"
| "from_keys_acc seen (x # xs) =
    (if x \<in> set seen then from_keys_acc seen xs else x # from_keys_acc (x # seen) xs)"

definition from_keys :: "'a list \<Rightarrow> 'a list" where
  "from_keys xs = from_keys_acc [] xs"

text \<open>\<open>text.splitlines(keepends=True)\<close>.\<close>

definition line_end :: "char \<Rightarrow> bool" where
  "line_end c \<longleftrightarrow> (let n = ch c in (10 \<le> n \<and> n \<le> 13) \<or> (28 \<le> n \<and> n \<le> 30) \<or> n = 133)"

fun splitlines_acc :: "string \<Rightarrow> string \<Rightarrow> string list" where
  "splitlines_acc acc [] = (if acc = [] then [] else [rev acc])"
| "splitlines_acc acc [c] = [rev (c # acc)]"
| "splitlines_acc acc (c # d # s) =
    (if c = CHR 0x0D \<and> d = CHR 0x0A then rev (d # c # acc) # splitlines_acc [] s
     else if line_end c then rev (c # acc) # splitlines_acc [] (d # s)
     else splitlines_acc (c # acc) (d # s))"

definition splitlines :: "string \<Rightarrow> string list" where
  "splitlines s = splitlines_acc [] s"

text \<open>\<open>text.splitlines()\<close>: the same without the line ends.\<close>

definition bare_line :: "string \<Rightarrow> string" where
  "bare_line s =
    (if 2 \<le> length s \<and> drop (length s - 2) s = [CHR 0x0D, CHR 0x0A] then take (length s - 2) s
     else if s \<noteq> [] \<and> line_end (last s) then butlast s else s)"

text \<open>The line ends of a file that is read as text: a carriage return, with or without a line feed, is a line feed.\<close>

fun universal_newlines :: "string \<Rightarrow> string" where
  "universal_newlines [] = []"
| "universal_newlines [c] = [if c = CHR 0x0D then CHR 0x0A else c]"
| "universal_newlines (c # d # s) =
    (if c \<noteq> CHR 0x0D then c # universal_newlines (d # s)
     else if d = CHR 0x0A then CHR 0x0A # universal_newlines s
     else CHR 0x0A # universal_newlines (d # s))"

lemma universal_newlines_free: "CHR 0x0D \<notin> set (universal_newlines s)"
  by (induction s rule: universal_newlines.induct) auto

lemma universal_newlines_id: "CHR 0x0D \<notin> set s \<Longrightarrow> universal_newlines s = s"
  by (induction s rule: universal_newlines.induct) auto

lemma universal_newlines_idem [simp]: "universal_newlines (universal_newlines s) = universal_newlines s"
  by (rule universal_newlines_id [OF universal_newlines_free])

subsection \<open>Lines\<close>

lemma lines_ne [simp]: "lines s \<noteq> []"
  by (simp add: lines_def)

lemma join_lines [simp]: "join newline (lines s) = s"
  by (simp add: lines_def newline_def)

lemma split_on_whole: "c \<notin> set s \<Longrightarrow> split_on c s = [s]"
  by (induction s) auto

lemma set_split_on: "x \<in> set (split_on c s) \<Longrightarrow> set x \<subseteq> set s"
proof (induction s arbitrary: x)
  case (Cons a s)
  obtain y ys where "split_on c s = y # ys" by (cases "split_on c s") auto
  with Cons.prems Cons.IH [of y] Cons.IH [of x] show ?case by (auto split: if_splits)
qed simp

lemma lines_join:
  "xs \<noteq> [] \<Longrightarrow> \<forall>x \<in> set xs. CHR 0x0A \<notin> set x \<Longrightarrow> lines (join newline xs) = xs"
  by (induction xs) (auto simp: join_Cons lines_def newline_def split_on_append split_on_whole)

lemma lines_free: "x \<in> set (lines s) \<Longrightarrow> CHR 0x0A \<notin> set x"
  unfolding lines_def by (rule split_on_free)

lemma join_inject:
  assumes "join newline xs = join newline ys" and "xs \<noteq> []" and "ys \<noteq> []"
    and "\<forall>x \<in> set xs. CHR 0x0A \<notin> set x" and "\<forall>y \<in> set ys. CHR 0x0A \<notin> set y"
  shows "xs = ys"
  using lines_join [OF assms(2,4)] lines_join [OF assms(3,5)] unfolding assms(1) by (rule trans [OF sym])

subsection \<open>Keys\<close>

lemma set_from_keys_acc: "set (from_keys_acc seen xs) = set xs - set seen"
  by (induction seen xs rule: from_keys_acc.induct) auto

lemma set_from_keys [simp]: "set (from_keys xs) = set xs"
  by (simp add: from_keys_def set_from_keys_acc)

lemma concat_splitlines_acc: "concat (splitlines_acc acc s) = rev acc @ s"
  by (induction acc s rule: splitlines_acc.induct) auto

lemma concat_splitlines: "concat (splitlines s) = s"
  by (simp add: splitlines_def concat_splitlines_acc)

end
