(* ===== verification/NetPolicy.thy ===== *)
theory NetPolicy
  imports Texts
begin

section \<open>Network policies\<close>

text \<open>
  \<open>oxenclaw/security/net/policy.py\<close>: which hosts, ports and schemes an outbound request may use, and
  how the policies of several callers are merged. The glob matcher of the library (\<open>fnmatchcase\<close>) is
  the parameter \<open>glob\<close>: pattern, then name. The environment is a dictionary.
\<close>

datatype net_error = NetPolicyError | SsrFBlockedError | UrlValueError

subsection \<open>Policies\<close>

record net_policy =
  np_allowed_hostnames :: "string list"
  np_denied_hostnames :: "string list"
  np_allow_private_network :: bool
  np_allow_loopback :: bool
  np_extra_allowed_ports :: "int list"
  np_allowed_schemes :: "string list"

definition DEFAULT_PORTS :: "int list" where
  "DEFAULT_PORTS = [80, 443]"

definition default_policy :: net_policy where
  "default_policy =
    \<lparr>np_allowed_hostnames = [], np_denied_hostnames = [], np_allow_private_network = False,
     np_allow_loopback = False, np_extra_allowed_ports = [], np_allowed_schemes = [''http'', ''https'']\<rparr>"

text \<open>The constructor refuses a pattern that is allowed and denied.\<close>

definition checked_policy :: "net_policy \<Rightarrow> net_error + net_policy" where
  "checked_policy p =
    (if list_ex (\<lambda>pat. pat \<in> set (np_denied_hostnames p)) (np_allowed_hostnames p)
     then Inl NetPolicyError else Inr p)"

definition hostname_matches :: "(string \<Rightarrow> string \<Rightarrow> bool) \<Rightarrow> string \<Rightarrow> string list \<Rightarrow> bool" where
  "hostname_matches glob host patterns = list_ex (\<lambda>pat. glob (lower pat) (lower host)) patterns"

definition is_hostname_allowed :: "(string \<Rightarrow> string \<Rightarrow> bool) \<Rightarrow> net_policy \<Rightarrow> string \<Rightarrow> bool" where
  "is_hostname_allowed glob p hostname =
    (let host = lower hostname
     in if hostname_matches glob host (np_denied_hostnames p) then False
        else if np_allowed_hostnames p = [] then True
        else hostname_matches glob host (np_allowed_hostnames p))"

definition is_port_allowed :: "net_policy \<Rightarrow> int \<Rightarrow> bool" where
  "is_port_allowed p port \<longleftrightarrow> port \<in> set DEFAULT_PORTS \<or> port \<in> set (np_extra_allowed_ports p)"

definition is_scheme_allowed :: "net_policy \<Rightarrow> string \<Rightarrow> bool" where
  "is_scheme_allowed p scheme \<longleftrightarrow> lower scheme \<in> set (np_allowed_schemes p)"

definition with_extra_allow :: "string list \<Rightarrow> net_policy \<Rightarrow> net_error + net_policy" where
  "with_extra_allow patterns p =
    checked_policy (p\<lparr>np_allowed_hostnames := from_keys (np_allowed_hostnames p @ patterns)\<rparr>)"

subsection \<open>Merging\<close>

definition merge_lists :: "'a list \<Rightarrow> 'a list \<Rightarrow> 'a list" where
  "merge_lists a b = (if a = [] then b else if b = [] then a else filter (\<lambda>x. x \<in> set b) a)"

definition merge_two :: "net_policy \<Rightarrow> net_policy \<Rightarrow> net_error + net_policy" where
  "merge_two out p =
    checked_policy
      \<lparr>np_allowed_hostnames = merge_lists (np_allowed_hostnames out) (np_allowed_hostnames p),
       np_denied_hostnames = from_keys (np_denied_hostnames out @ np_denied_hostnames p),
       np_allow_private_network = (np_allow_private_network out \<and> np_allow_private_network p),
       np_allow_loopback = (np_allow_loopback out \<and> np_allow_loopback p),
       np_extra_allowed_ports = merge_lists (np_extra_allowed_ports out) (np_extra_allowed_ports p),
       np_allowed_schemes = merge_lists (np_allowed_schemes out) (np_allowed_schemes p)\<rparr>"

fun merge_from :: "net_policy \<Rightarrow> net_policy list \<Rightarrow> net_error + net_policy" where
  "merge_from out [] = Inr out"
| "merge_from out (p # ps) = bind_err (merge_two out p) (\<lambda>out'. merge_from out' ps)"

definition merge_policies :: "net_policy option list \<Rightarrow> net_error + net_policy" where
  "merge_policies policies =
    (case concat (map (\<lambda>p. case p of None \<Rightarrow> [] | Some q \<Rightarrow> [q]) policies) of
       [] \<Rightarrow> Inr default_policy
     | p # ps \<Rightarrow> merge_from p ps)"

subsection \<open>The policy of the environment\<close>

definition csv :: "string option \<Rightarrow> string list" where
  "csv v =
    (case v of
       None \<Rightarrow> []
     | Some s \<Rightarrow> if s = [] then [] else filter (\<lambda>p. p \<noteq> []) (map strip (split_on CHR '','' s)))"

text \<open>\<open>parse_int\<close> is \<open>int(text)\<close>, nothing where it raises.\<close>

definition ports :: "(string \<Rightarrow> int option) \<Rightarrow> string option \<Rightarrow> int list" where
  "ports parse_int v =
    (case v of
       None \<Rightarrow> []
     | Some s \<Rightarrow>
        if s = [] then []
        else concat (map (\<lambda>tok. case parse_int tok of Some n \<Rightarrow> [n] | None \<Rightarrow> [])
               (filter (\<lambda>t. t \<noteq> []) (map strip (split_on CHR '','' s)))))"

definition env_flag :: "string option \<Rightarrow> bool" where
  "env_flag v = (case v of None \<Rightarrow> False | Some s \<Rightarrow> lower s \<in> {''1'', ''true'', ''yes''})"

definition policy_from_env ::
  "(string \<Rightarrow> int option) \<Rightarrow> (string \<rightharpoonup> string) \<Rightarrow> net_error + net_policy" where
  "policy_from_env parse_int env =
    checked_policy
      \<lparr>np_allowed_hostnames = csv (env ''OXENCLAW_NET_ALLOW_HOSTS''),
       np_denied_hostnames = csv (env ''OXENCLAW_NET_DENY_HOSTS''),
       np_allow_private_network = env_flag (env ''OXENCLAW_NET_ALLOW_PRIVATE''),
       np_allow_loopback = env_flag (env ''OXENCLAW_NET_ALLOW_LOOPBACK''),
       np_extra_allowed_ports = ports parse_int (env ''OXENCLAW_NET_EXTRA_PORTS''),
       np_allowed_schemes = [''http'', ''https'']\<rparr>"

subsection \<open>What a merge allows\<close>

lemma hostname_matches_mono:
  "hostname_matches glob h ps \<Longrightarrow> set ps \<subseteq> set qs \<Longrightarrow> hostname_matches glob h qs"
  by (auto simp: hostname_matches_def list_ex_iff)

lemma checked_policy_Inr: "checked_policy p = Inr q \<Longrightarrow> q = p"
  by (simp add: checked_policy_def split: if_splits)

text \<open>A list that restricts, as long as the other one does not empty it.\<close>

definition tighter :: "'a list \<Rightarrow> 'a list \<Rightarrow> bool" where
  "tighter xs ys \<longleftrightarrow> ys = [] \<or> (xs \<noteq> [] \<and> set xs \<subseteq> set ys)"

lemma tighter_refl: "tighter xs xs"
  by (simp add: tighter_def)

lemma tighter_trans: "tighter xs ys \<Longrightarrow> tighter ys zs \<Longrightarrow> tighter xs zs"
  by (auto simp: tighter_def)

lemma merge_lists_tighter:
  assumes "a = [] \<or> c \<in> set a" and "b = [] \<or> c \<in> set b"
  shows "tighter (merge_lists a b) a" "tighter (merge_lists a b) b"
    "merge_lists a b = [] \<or> c \<in> set (merge_lists a b)"
proof -
  have "a \<noteq> [] \<Longrightarrow> b \<noteq> [] \<Longrightarrow> c \<in> set (filter (\<lambda>x. x \<in> set b) a)" using assms by simp
  then have "a \<noteq> [] \<Longrightarrow> b \<noteq> [] \<Longrightarrow> filter (\<lambda>x. x \<in> set b) a \<noteq> []" by (metis empty_iff empty_set)
  with assms show "tighter (merge_lists a b) a" "tighter (merge_lists a b) b"
    "merge_lists a b = [] \<or> c \<in> set (merge_lists a b)"
    by (auto simp: tighter_def merge_lists_def)
qed

text \<open>\<open>stricter q p\<close>: what \<open>q\<close> restricts, \<open>p\<close> does not restrict more; ports apart.\<close>

definition stricter :: "net_policy \<Rightarrow> net_policy \<Rightarrow> bool" where
  "stricter q p \<longleftrightarrow>
     tighter (np_allowed_hostnames q) (np_allowed_hostnames p) \<and>
     set (np_denied_hostnames p) \<subseteq> set (np_denied_hostnames q) \<and>
     (np_allow_private_network q \<longrightarrow> np_allow_private_network p) \<and>
     (np_allow_loopback q \<longrightarrow> np_allow_loopback p) \<and>
     tighter (np_allowed_schemes q) (np_allowed_schemes p)"

lemma stricter_refl: "stricter p p"
  by (simp add: stricter_def tighter_refl)

lemma stricter_trans: "stricter r q \<Longrightarrow> stricter q p \<Longrightarrow> stricter r p"
  unfolding stricter_def using tighter_trans by blast

text \<open>A pattern and a scheme that all policies share, where they restrict at all.\<close>

definition shares :: "string \<Rightarrow> string \<Rightarrow> net_policy \<Rightarrow> bool" where
  "shares pat scheme p \<longleftrightarrow>
     (np_allowed_hostnames p = [] \<or> pat \<in> set (np_allowed_hostnames p)) \<and>
     (np_allowed_schemes p = [] \<or> scheme \<in> set (np_allowed_schemes p))"

lemma merge_two_stricter:
  assumes "merge_two a b = Inr c" and "shares pat scheme a" and "shares pat scheme b"
  shows "stricter c a" "stricter c b" "shares pat scheme c"
proof -
  note c = checked_policy_Inr [OF assms(1) [unfolded merge_two_def]]
  from assms(2,3) merge_lists_tighter [of "np_allowed_hostnames a" pat "np_allowed_hostnames b"]
    merge_lists_tighter [of "np_allowed_schemes a" scheme "np_allowed_schemes b"]
  show "stricter c a" "stricter c b" "shares pat scheme c"
    by (auto simp: c stricter_def shares_def)
qed

lemma merge_from_stricter:
  assumes "merge_from out ps = Inr q" and "shares pat scheme out" and "list_all (shares pat scheme) ps"
  shows "stricter q out \<and> list_all (stricter q) ps"
  using assms
proof (induction out ps arbitrary: q rule: merge_from.induct)
  case (1 out)
  then show ?case by (simp add: stricter_refl)
next
  case (2 out p ps)
  then obtain m where m: "merge_two out p = Inr m" "merge_from m ps = Inr q"
    by (auto simp: bind_err_Inr)
  from merge_two_stricter [OF m(1) 2(3)] 2(4) have s: "stricter m out" "stricter m p" "shares pat scheme m"
    by auto
  from 2(1) [OF m(2) s(3)] 2(4) have "stricter q m \<and> list_all (stricter q) ps" by simp
  with s stricter_trans show ?case by auto
qed

lemma stricter_hostname:
  assumes "stricter q p" and "is_hostname_allowed glob q h"
  shows "is_hostname_allowed glob p h"
  using assms hostname_matches_mono [of glob "lower h"]
  by (auto simp: is_hostname_allowed_def stricter_def tighter_def Let_def split: if_splits)

lemma stricter_scheme:
  "stricter q p \<Longrightarrow> np_allowed_schemes p \<noteq> [] \<Longrightarrow> is_scheme_allowed q s \<Longrightarrow> is_scheme_allowed p s"
  by (auto simp: stricter_def tighter_def is_scheme_allowed_def)

subsection \<open>What slips through\<close>

text \<open>
  An empty intersection of allowlists is an empty allowlist, and that allows every host; and a policy
  without extra ports, which allows the standard ports only, takes over the ports of the others.
\<close>

definition only_host :: "string \<Rightarrow> net_policy" where
  "only_host pat = default_policy\<lparr>np_allowed_hostnames := [pat]\<rparr>"

lemma disjoint_allowlists_allow_all:
  assumes "pat \<noteq> pat'"
  shows "\<exists>q. merge_policies [Some (only_host pat), Some (only_host pat')] = Inr q \<and>
    is_hostname_allowed glob q h"
  using assms
  by (simp add: merge_policies_def merge_two_def merge_lists_def only_host_def default_policy_def
      checked_policy_def is_hostname_allowed_def hostname_matches_def from_keys_def Let_def)

lemma ports_broadened:
  "\<exists>q. merge_policies [Some default_policy, Some (default_policy\<lparr>np_extra_allowed_ports := [22]\<rparr>)] = Inr q \<and>
    is_port_allowed q 22 \<and> \<not> is_port_allowed default_policy 22"
  by (simp add: merge_policies_def merge_two_def merge_lists_def default_policy_def checked_policy_def
      is_port_allowed_def DEFAULT_PORTS_def from_keys_def)

subsection \<open>Properties\<close>

text \<open>A merge is at least as strict as each of its policies: what hosts it allows, each allows, and it
  opens private networks, the loopback or a scheme only if all do. This needs a host pattern
  and a scheme that all the lists which restrict have in common: without one the merge would allow
  everything.\<close>

lemma merge_at_least_as_strict:
  assumes "merge_policies policies = Inr q" and "Some p \<in> set policies"
    and "\<And>r. Some r \<in> set policies \<Longrightarrow> shares pat scheme r"
  shows "(is_hostname_allowed glob q h \<longrightarrow> is_hostname_allowed glob p h) \<and>
    (np_allow_private_network q \<longrightarrow> np_allow_private_network p) \<and>
    (np_allow_loopback q \<longrightarrow> np_allow_loopback p) \<and>
    (np_allowed_schemes p \<noteq> [] \<and> is_scheme_allowed q s \<longrightarrow> is_scheme_allowed p s)"
proof -
  define real where "real = concat (map (\<lambda>p. case p of None \<Rightarrow> [] | Some q \<Rightarrow> [q]) policies)"
  have mem: "r \<in> set real \<longleftrightarrow> Some r \<in> set policies" for r
    by (force simp: real_def split: option.splits)
  then have "real \<noteq> []" using assms(2) by auto
  then obtain r rs where real: "real = r # rs" by (cases real) auto
  with assms(1) have "merge_from r rs = Inr q" by (simp add: merge_policies_def real_def)
  moreover have "shares pat scheme r" "list_all (shares pat scheme) rs"
    using assms(3) mem real by (auto simp: list_all_iff)
  ultimately have "stricter q r \<and> list_all (stricter q) rs" by (rule merge_from_stricter)
  moreover have "p \<in> set (r # rs)" using mem [of p] assms(2) real by simp
  ultimately have "stricter q p" by (auto simp: list_all_iff)
  with stricter_hostname stricter_scheme show ?thesis by (auto simp: stricter_def)
qed

end
