(* ===== verification/NetGuard.thy ===== *)
theory NetGuard
  imports NetPolicy Regex Traces
begin

section \<open>Outbound connections\<close>

text \<open>
  \<open>oxenclaw/security/net/ssrf.py\<close> and \<open>pinning.py\<close>: the classification of addresses, the check of a
  URL before a request, and the resolver that validates and pins the addresses of a host. Addresses
  are integers, as in the library's \<open>ipaddress\<close>, whose tables of special networks are written out
  (Python 3.11.10 and later). Parameters of the model are \<open>urlparse\<close>, \<open>ip_address\<close> (nothing where it
  raises), \<open>inet_aton\<close>, the glob matcher, the clock and the answers of the DNS.
\<close>

subsection \<open>Addresses\<close>

datatype ip = V4 int | V6 int

definition v4 :: "int \<Rightarrow> int \<Rightarrow> int \<Rightarrow> int \<Rightarrow> int" where
  "v4 a b c d = ((a * 256 + b) * 256 + c) * 256 + d"

text \<open>An IPv6 network from its leading groups.\<close>

definition v6 :: "int list \<Rightarrow> int" where
  "v6 gs = foldl (\<lambda>n g. n * 65536 + g) 0 gs * 65536 ^ (8 - length gs)"

definition in_net :: "nat \<Rightarrow> int \<Rightarrow> int \<times> nat \<Rightarrow> bool" where
  "in_net width a net = (a div 2 ^ (width - snd net) = fst net div 2 ^ (width - snd net))"

abbreviation in_net4 :: "int \<Rightarrow> int \<times> nat \<Rightarrow> bool" where
  "in_net4 \<equiv> in_net 32"

abbreviation in_net6 :: "int \<Rightarrow> int \<times> nat \<Rightarrow> bool" where
  "in_net6 \<equiv> in_net 128"

definition loopback4 :: "int \<Rightarrow> bool" where
  "loopback4 a = in_net4 a (v4 127 0 0 0, 8)"

definition link_local4 :: "int \<Rightarrow> bool" where
  "link_local4 a = in_net4 a (v4 169 254 0 0, 16)"

definition multicast4 :: "int \<Rightarrow> bool" where
  "multicast4 a = in_net4 a (v4 224 0 0 0, 4)"

definition reserved4 :: "int \<Rightarrow> bool" where
  "reserved4 a = in_net4 a (v4 240 0 0 0, 4)"

definition private_networks4 :: "(int \<times> nat) list" where
  "private_networks4 =
    [(v4 0 0 0 0, 8), (v4 10 0 0 0, 8), (v4 127 0 0 0, 8), (v4 169 254 0 0, 16), (v4 172 16 0 0, 12),
     (v4 192 0 0 0, 24), (v4 192 0 0 170, 31), (v4 192 0 2 0, 24), (v4 192 168 0 0, 16),
     (v4 198 18 0 0, 15), (v4 198 51 100 0, 24), (v4 203 0 113 0, 24), (v4 240 0 0 0, 4),
     (v4 255 255 255 255, 32)]"

definition private4 :: "int \<Rightarrow> bool" where
  "private4 a \<longleftrightarrow> list_ex (in_net4 a) private_networks4 \<and>
     \<not> list_ex (in_net4 a) [(v4 192 0 0 9, 32), (v4 192 0 0 10, 32)]"

definition ipv4_mapped :: "int \<Rightarrow> int option" where
  "ipv4_mapped a = (if a div 2 ^ 32 = 0xFFFF then Some (a mod 2 ^ 32) else None)"

definition sixtofour :: "int \<Rightarrow> int option" where
  "sixtofour a = (if a div 2 ^ 112 = 0x2002 then Some (a div 2 ^ 80 mod 2 ^ 32) else None)"

text \<open>The server and the client of a Teredo address; the client is stored inverted.\<close>

definition teredo :: "int \<Rightarrow> (int \<times> int) option" where
  "teredo a = (if a div 2 ^ 96 = 0x20010000 then Some (a div 2 ^ 64 mod 2 ^ 32, (- a - 1) mod 2 ^ 32) else None)"

definition link_local6 :: "int \<Rightarrow> bool" where
  "link_local6 a = in_net6 a (v6 [0xFE80], 10)"

definition multicast6 :: "int \<Rightarrow> bool" where
  "multicast6 a = in_net6 a (v6 [0xFF00], 8)"

definition private_networks6 :: "(int \<times> nat) list" where
  "private_networks6 =
    [(1, 128), (0, 128), (v6 [0, 0, 0, 0, 0, 0xFFFF], 96), (v6 [0x64, 0xFF9B, 1], 48), (v6 [0x100], 64),
     (v6 [0x2001], 23), (v6 [0x2001, 0xDB8], 32), (v6 [0x2002], 16), (v6 [0xFC00], 7), (v6 [0xFE80], 10)]"

definition private_exceptions6 :: "(int \<times> nat) list" where
  "private_exceptions6 =
    [(v6 [0x2001, 1, 0, 0, 0, 0, 0, 1], 128), (v6 [0x2001, 1, 0, 0, 0, 0, 0, 2], 128), (v6 [0x2001, 3], 32),
     (v6 [0x2001, 4, 0x112], 48), (v6 [0x2001, 0x20], 28), (v6 [0x2001, 0x30], 28)]"

definition private6 :: "int \<Rightarrow> bool" where
  "private6 a =
    (case ipv4_mapped a of
       Some b \<Rightarrow> private4 b
     | None \<Rightarrow> list_ex (in_net6 a) private_networks6 \<and> \<not> list_ex (in_net6 a) private_exceptions6)"

definition reserved_networks6 :: "(int \<times> nat) list" where
  "reserved_networks6 =
    [(0, 8), (v6 [0x100], 8), (v6 [0x200], 7), (v6 [0x400], 6), (v6 [0x800], 5), (v6 [0x1000], 4),
     (v6 [0x4000], 3), (v6 [0x6000], 3), (v6 [0x8000], 3), (v6 [0xA000], 3), (v6 [0xC000], 3),
     (v6 [0xE000], 4), (v6 [0xF000], 5), (v6 [0xF800], 6), (v6 [0xFE00], 9)]"

definition reserved6 :: "int \<Rightarrow> bool" where
  "reserved6 a = list_ex (in_net6 a) reserved_networks6"

subsection \<open>Classification\<close>

definition is_ipv4_in_ipv6 :: "int \<Rightarrow> int option" where
  "is_ipv4_in_ipv6 a =
    (case ipv4_mapped a of
       Some b \<Rightarrow> Some b
     | None \<Rightarrow>
        (case sixtofour a of
           Some b \<Rightarrow> Some b
         | None \<Rightarrow> map_option snd (teredo a)))"

definition packed4 :: "int \<Rightarrow> int list" where
  "packed4 a = [a div 2 ^ 24, a div 2 ^ 16 mod 256, a div 2 ^ 8 mod 256, a mod 256]"

definition show_ip4 :: "int \<Rightarrow> string" where
  "show_ip4 a = join ''.'' (map show_int (packed4 a))"

definition classify4 :: "bool \<Rightarrow> bool \<Rightarrow> int \<Rightarrow> string option" where
  "classify4 allow_private allow_loopback a =
    (let p0 = packed4 a ! 0; p1 = packed4 a ! 1
     in if loopback4 a \<and> \<not> allow_loopback then Some ''IPv4 loopback (127/8)''
        else if link_local4 a then Some ''IPv4 link-local (169.254/16)''
        else if multicast4 a then Some ''IPv4 multicast''
        else if reserved4 a then Some ''IPv4 reserved (240/4)''
        else if a = v4 255 255 255 255 then Some ''IPv4 broadcast''
        else if p0 = 0 then Some ''IPv4 0.0.0.0/8''
        else if p0 = 100 \<and> 64 \<le> p1 \<and> p1 < 128 then Some ''IPv4 CGNAT (100.64/10)''
        else if p0 = 198 \<and> (p1 = 18 \<or> p1 = 19) then Some ''IPv4 RFC2544 benchmark (198.18/15)''
        else if private4 a \<and> \<not> allow_private then Some ''IPv4 private (RFC1918)''
        else None)"

definition classify_blocked :: "bool \<Rightarrow> bool \<Rightarrow> ip \<Rightarrow> string option" where
  "classify_blocked allow_private allow_loopback a =
    (case a of
       V4 n \<Rightarrow> classify4 allow_private allow_loopback n
     | V6 n \<Rightarrow>
        (case (case is_ipv4_in_ipv6 n of
                 None \<Rightarrow> None
               | Some e \<Rightarrow>
                   map_option (\<lambda>inner. ''IPv6-embedded IPv4 '' @ show_ip4 e @ '': '' @ inner)
                     (classify4 allow_private allow_loopback e)) of
           Some reason \<Rightarrow> Some reason
         | None \<Rightarrow>
            (if n = 1 \<and> \<not> allow_loopback then Some ''IPv6 loopback (::1)''
             else if link_local6 n then Some ''IPv6 link-local (fe80::/10)''
             else if multicast6 n then Some ''IPv6 multicast''
             else if private6 n \<and> \<not> allow_private then Some ''IPv6 private/ULA''
             else if reserved6 n then Some ''IPv6 reserved''
             else None)))"

subsection \<open>Literals and URLs\<close>

definition octet :: regex where
  "octet =
    alts [seqs [lit ''25'', one_of ''012345''], seqs [lit ''2'', one_of ''01234'', Cls is_digit],
          seqs [lit ''1'', Cls is_digit, Cls is_digit], seqs [opt (one_of ''123456789''), Cls is_digit]]"

definition CANONICAL_IPV4 :: regex where
  "CANONICAL_IPV4 = seqs [Bos, octet, lit ''.'', octet, lit ''.'', octet, lit ''.'', octet, Eos]"

definition is_canonical_ipv4 :: "string \<Rightarrow> bool" where
  "is_canonical_ipv4 host \<longleftrightarrow> ends CANONICAL_IPV4 (At None host) \<noteq> []"

definition strip_dots :: "string \<Rightarrow> string" where
  "strip_dots host = rev (dropWhile (\<lambda>c. c = CHR ''.'') (rev host))"

definition is_loose_ipv4_literal :: "(string \<Rightarrow> bool) \<Rightarrow> string \<Rightarrow> bool" where
  "is_loose_ipv4_literal aton host =
    (let h = strip_dots host
     in if h \<noteq> host \<and> (is_canonical_ipv4 h \<or> aton h) then True
        else if is_canonical_ipv4 host then False
        else aton host)"

record url_parts =
  up_scheme :: string
  up_hostname :: "string option"
  up_port :: "net_error + int option"

definition strip_brackets :: "string \<Rightarrow> string" where
  "strip_brackets h =
    (let p = (\<lambda>c. c = CHR ''['' \<or> c = CHR '']'') in rev (dropWhile p (rev (dropWhile p h))))"

definition assert_url_allowed ::
  "(string \<Rightarrow> net_error + url_parts) \<Rightarrow> (string \<Rightarrow> ip option) \<Rightarrow> (string \<Rightarrow> bool) \<Rightarrow>
   (string \<Rightarrow> string \<Rightarrow> bool) \<Rightarrow> string \<Rightarrow> net_policy \<Rightarrow> net_error + string" where
  "assert_url_allowed urlparse ip_address aton glob url policy =
    bind_err (urlparse url) (\<lambda>parsed.
      if \<not> is_scheme_allowed policy (up_scheme parsed) then Inl SsrFBlockedError
      else (case up_hostname parsed of
        None \<Rightarrow> Inl SsrFBlockedError
      | Some host \<Rightarrow>
         if host = [] then Inl SsrFBlockedError
         else bind_err (up_port parsed) (\<lambda>port.
           if (case port of Some n \<Rightarrow> \<not> is_port_allowed policy n | None \<Rightarrow> False) then Inl SsrFBlockedError
           else if is_loose_ipv4_literal aton host then Inl SsrFBlockedError
           else if (case ip_address (strip_brackets host) of
                      None \<Rightarrow> False
                    | Some a \<Rightarrow> classify_blocked (np_allow_private_network policy) (np_allow_loopback policy) a \<noteq> None)
             then Inl SsrFBlockedError
           else if \<not> is_hostname_allowed glob policy host then Inl SsrFBlockedError
           else Inr host)))"

definition assert_ip_allowed :: "(string \<Rightarrow> ip option) \<Rightarrow> net_policy \<Rightarrow> string \<Rightarrow> net_error + ip" where
  "assert_ip_allowed ip_address policy ip_str =
    (case ip_address ip_str of
       None \<Rightarrow> Inl SsrFBlockedError
     | Some a \<Rightarrow>
        (case classify_blocked (np_allow_private_network policy) (np_allow_loopback policy) a of
           Some reason \<Rightarrow> Inl SsrFBlockedError
         | None \<Rightarrow> Inr a))"

subsection \<open>The pinning resolver\<close>

datatype family = AF_INET | AF_INET6 | AF_OTHER int

datatype cache_key = CacheKey string family

record pinned_entry =
  pn_addresses :: "string list"
  pn_family :: family
  pn_cached_at :: real

record pinned_resolver =
  pr_policy :: net_policy
  pr_ttl :: real
  pr_cache :: "(cache_key \<times> pinned_entry) list"
  pr_validated :: "(string \<times> string list) list"

definition pinned_resolver_new :: "net_policy \<Rightarrow> real \<Rightarrow> pinned_resolver" where
  "pinned_resolver_new policy ttl = \<lparr>pr_policy = policy, pr_ttl = ttl, pr_cache = [], pr_validated = []\<rparr>"

definition replace_policy :: "net_policy \<Rightarrow> pinned_resolver \<Rightarrow> pinned_resolver" where
  "replace_policy policy st = st\<lparr>pr_policy := policy, pr_cache := [], pr_validated := []\<rparr>"

definition close_resolver :: "pinned_resolver \<Rightarrow> pinned_resolver" where
  "close_resolver st = st\<lparr>pr_cache := [], pr_validated := []\<rparr>"

definition validated_of :: "pinned_resolver \<Rightarrow> string \<Rightarrow> string list" where
  "validated_of st host = (case map_of (pr_validated st) host of Some ips \<Rightarrow> ips | None \<Rightarrow> [])"

definition mark_validated :: "string \<Rightarrow> string list \<Rightarrow> pinned_resolver \<Rightarrow> pinned_resolver" where
  "mark_validated host ips st = st\<lparr>pr_validated := dict_set host ips (pr_validated st)\<rparr>"

text \<open>
  The loop over the answer of the DNS: the addresses kept, or the error of the first one that the
  policy refuses; what was validated before it stays recorded.
\<close>

fun validate_infos ::
  "(string \<Rightarrow> ip option) \<Rightarrow> string \<Rightarrow> (family \<times> string) list \<Rightarrow> pinned_resolver \<Rightarrow>
   (net_error + string list) \<times> pinned_resolver" where
  "validate_infos ip_address host [] st = (Inr [], st)"
| "validate_infos ip_address host ((fam, ip_str) # infos) st =
    (if fam \<noteq> AF_INET \<and> fam \<noteq> AF_INET6 then validate_infos ip_address host infos st
     else
       let seen = validated_of st host
       in if ip_str \<in> set seen
          then (case validate_infos ip_address host infos (mark_validated host seen st) of
                  (Inl e, st') \<Rightarrow> (Inl e, st') | (Inr others, st') \<Rightarrow> (Inr (ip_str # others), st'))
          else (case assert_ip_allowed ip_address (pr_policy st) ip_str of
                  Inl e \<Rightarrow> (Inl e, mark_validated host seen st)
                | Inr a \<Rightarrow>
                   (case validate_infos ip_address host infos (mark_validated host (ip_str # seen) st) of
                      (Inl e, st') \<Rightarrow> (Inl e, st') | (Inr others, st') \<Rightarrow> (Inr (ip_str # others), st'))))"

text \<open>\<open>answer\<close> is what \<open>getaddrinfo\<close> returns, nothing where it raises.\<close>

definition resolve_pinned ::
  "(string \<Rightarrow> ip option) \<Rightarrow> real \<Rightarrow> (family \<times> string) list option \<Rightarrow> string \<Rightarrow> family \<Rightarrow>
   pinned_resolver \<Rightarrow> (net_error + string list) \<times> pinned_resolver" where
  "resolve_pinned ip_address now answer host fam st =
    (case (case map_of (pr_cache st) (CacheKey host fam) of
             Some e \<Rightarrow> if now - pn_cached_at e < pr_ttl st then Some e else None
           | None \<Rightarrow> None) of
       Some e \<Rightarrow> (Inr (pn_addresses e), st)
     | None \<Rightarrow>
        (case answer of
           None \<Rightarrow> (Inl SsrFBlockedError, st)
         | Some infos \<Rightarrow>
            (case validate_infos ip_address host infos st of
               (Inl e, st') \<Rightarrow> (Inl e, st')
             | (Inr addresses, st') \<Rightarrow>
                 if addresses = [] then (Inl SsrFBlockedError, st')
                 else let unique = from_keys addresses
                      in (Inr unique,
                          st'\<lparr>pr_cache := dict_set (CacheKey host fam)
                                \<lparr>pn_addresses = unique, pn_family = fam, pn_cached_at = now\<rparr> (pr_cache st')\<rparr>))))"

subsection \<open>Histories\<close>

datatype resolver_action =
    Lookup real "(family \<times> string) list option" string family
  | SwapPolicy net_policy
  | CloseResolver

text \<open>The outputs are the addresses handed out, each with the policy in force.\<close>

fun resolver_step ::
  "(string \<Rightarrow> ip option) \<Rightarrow> resolver_action \<Rightarrow> pinned_resolver \<Rightarrow>
   (pinned_resolver \<times> (net_policy \<times> string) list) option" where
  "resolver_step ip_address (Lookup now answer host fam) st =
    (case resolve_pinned ip_address now answer host fam st of
       (Inl e, st') \<Rightarrow> Some (st', [])
     | (Inr addresses, st') \<Rightarrow> Some (st', map (\<lambda>a. (pr_policy st, a)) addresses))"
| "resolver_step ip_address (SwapPolicy policy) st = Some (replace_policy policy st, [])"
| "resolver_step ip_address CloseResolver st = Some (close_resolver st, [])"

subsection \<open>Embedded addresses\<close>

text \<open>A number written as a high and a low part.\<close>

lemma split_parts: "0 \<le> a \<Longrightarrow> a < m \<Longrightarrow> (k * m + a) div m = k \<and> (k * m + a) mod m = (a :: int)"
  by simp

lemma mapped_embeds:
  assumes "0 \<le> a" "a < 2 ^ 32"
  shows "is_ipv4_in_ipv6 (0xFFFF * 2 ^ 32 + a) = Some a"
  using split_parts [OF assms, of "0xFFFF"] by (simp only: is_ipv4_in_ipv6_def ipv4_mapped_def) simp

lemma sixtofour_embeds:
  assumes "0 \<le> a" "a < 2 ^ 32" "0 \<le> low" "low < 2 ^ 80"
  shows "is_ipv4_in_ipv6 (0x2002 * 2 ^ 112 + a * 2 ^ 80 + low) = Some a"
proof -
  let ?n = "0x2002 * 2 ^ 112 + a * 2 ^ 80 + low"
  have d80: "?n div 2 ^ 80 = 0x2002 * 2 ^ 32 + a" using assms by simp
  have "?n div 2 ^ 112 = ?n div 2 ^ 80 div 2 ^ 32" by (simp add: zdiv_zmult2_eq [symmetric])
  also have "\<dots> = 0x2002" unfolding d80 using assms by simp
  finally have d112: "?n div 2 ^ 112 = 0x2002" .
  have "?n div 2 ^ 32 \<noteq> 0xFFFF"
  proof
    assume "?n div 2 ^ 32 = 0xFFFF"
    then have "?n div 2 ^ 32 div 2 ^ 80 = 0" by simp
    moreover have "?n div 2 ^ 32 div 2 ^ 80 = ?n div 2 ^ 112" by (simp add: zdiv_zmult2_eq [symmetric])
    ultimately show False using d112 by simp
  qed
  moreover have "?n div 2 ^ 80 mod 2 ^ 32 = a" unfolding d80 using split_parts [OF assms(1,2)] by blast
  ultimately show ?thesis using d112
    by (simp only: is_ipv4_in_ipv6_def ipv4_mapped_def sixtofour_def) simp
qed

lemma teredo_embeds:
  assumes "0 \<le> a" "a < 2 ^ 32" "0 \<le> mid" "mid < 2 ^ 64"
  shows "is_ipv4_in_ipv6 (0x20010000 * 2 ^ 96 + mid * 2 ^ 32 + (2 ^ 32 - 1 - a)) = Some a"
proof -
  let ?n = "0x20010000 * 2 ^ 96 + mid * 2 ^ 32 + (2 ^ 32 - 1 - a) :: int"
  have d32: "?n div 2 ^ 32 = 0x20010000 * 2 ^ 64 + mid" using assms by simp
  have "?n div 2 ^ 96 = ?n div 2 ^ 32 div 2 ^ 64" by (simp add: zdiv_zmult2_eq [symmetric])
  also have "\<dots> = 0x20010000" unfolding d32 using assms by simp
  finally have d96: "?n div 2 ^ 96 = 0x20010000" .
  have "?n div 2 ^ 112 = ?n div 2 ^ 96 div 2 ^ 16" by (simp add: zdiv_zmult2_eq [symmetric])
  then have d112: "?n div 2 ^ 112 = 0x2001" unfolding d96 by simp
  have "?n div 2 ^ 32 \<noteq> 0xFFFF" unfolding d32 using assms by simp
  moreover have "(- ?n - 1) mod 2 ^ 32 = a"
  proof -
    have "- ?n - 1 = a + (- 0x20010000 * 2 ^ 64 - mid - 1) * 2 ^ 32" by (simp add: algebra_simps)
    then show ?thesis using assms by (simp only: mod_mult_self1) simp
  qed
  ultimately show ?thesis using d96 d112
    by (simp only: is_ipv4_in_ipv6_def ipv4_mapped_def sixtofour_def teredo_def) simp
qed

lemma embedded_blocked:
  "is_ipv4_in_ipv6 n = Some a \<Longrightarrow> classify4 ap al a \<noteq> None \<Longrightarrow> classify_blocked ap al (V6 n) \<noteq> None"
  by (auto simp: classify_blocked_def)

subsection \<open>What slips through\<close>

text \<open>
  The flag for the loopback opens nothing by itself: 127.0.0.1 is also a private address, and ::1 also
  a reserved one, whatever the flags are.
\<close>

lemma loopback_flag_ineffective:
  "classify_blocked False True (V4 (v4 127 0 0 1)) \<noteq> None"
  "classify_blocked allow_private True (V6 1) \<noteq> None"
proof -
  show "classify_blocked False True (V4 (v4 127 0 0 1)) \<noteq> None" by code_simp
  have "classify_blocked True True (V6 1) \<noteq> None" by code_simp
  moreover have "classify_blocked False True (V6 1) \<noteq> None" by code_simp
  ultimately show "classify_blocked allow_private True (V6 1) \<noteq> None" by (cases allow_private) simp_all
qed

subsection \<open>Validated addresses\<close>

definition usable :: "(string \<Rightarrow> ip option) \<Rightarrow> net_policy \<Rightarrow> string \<Rightarrow> bool" where
  "usable ip_address policy a \<longleftrightarrow> (\<exists>n. assert_ip_allowed ip_address policy a = Inr n)"

definition resolver_ok :: "(string \<Rightarrow> ip option) \<Rightarrow> pinned_resolver \<Rightarrow> bool" where
  "resolver_ok ip_address st \<longleftrightarrow>
     (\<forall>h. list_all (usable ip_address (pr_policy st)) (validated_of st h)) \<and>
     (\<forall>k e. map_of (pr_cache st) k = Some e \<longrightarrow> list_all (usable ip_address (pr_policy st)) (pn_addresses e))"

lemma mark_validated_simps [simp]:
  "validated_of (mark_validated h ips st) h' = (if h' = h then ips else validated_of st h')"
  "pr_policy (mark_validated h ips st) = pr_policy st" "pr_cache (mark_validated h ips st) = pr_cache st"
  "pr_ttl (mark_validated h ips st) = pr_ttl st"
  by (auto simp: mark_validated_def validated_of_def map_of_dict_set)

lemma validate_infos_ok:
  assumes "validate_infos ip_address host infos st = (r, st')" and "resolver_ok ip_address st"
  shows "resolver_ok ip_address st' \<and> pr_policy st' = pr_policy st \<and> pr_cache st' = pr_cache st \<and>
    pr_ttl st' = pr_ttl st \<and> (\<forall>as. r = Inr as \<longrightarrow> list_all (usable ip_address (pr_policy st)) as)"
  using assms
proof (induction ip_address host infos st arbitrary: r st' rule: validate_infos.induct)
  case (1 ip_address host st)
  then show ?case by auto
next
  case (2 ip_address host fam ip_str infos st)
  let ?seen = "validated_of st host"
  have seen: "resolver_ok ip_address (mark_validated host ?seen st)"
    using 2(5) by (simp add: resolver_ok_def)
  show ?case
  proof (cases "fam \<noteq> AF_INET \<and> fam \<noteq> AF_INET6")
    case True
    with 2(4) have "validate_infos ip_address host infos st = (r, st')" by simp
    from 2(1) [OF True this 2(5)] show ?thesis .
  next
    case fam: False
    show ?thesis
    proof (cases "ip_str \<in> set ?seen")
      case True
      then have "usable ip_address (pr_policy st) ip_str"
        using 2(5) by (auto simp: resolver_ok_def list_all_iff)
      moreover obtain r1 st1 where v: "validate_infos ip_address host infos (mark_validated host ?seen st) = (r1, st1)"
        by fastforce
      moreover have "st' = st1 \<and> r = (case r1 of Inl e \<Rightarrow> Inl e | Inr others \<Rightarrow> Inr (ip_str # others))"
        using 2(4) fam True v by (auto split: sum.splits)
      ultimately show ?thesis using 2(2) [OF fam refl True v seen] by (cases r1) auto
    next
      case fresh: False
      show ?thesis
      proof (cases "assert_ip_allowed ip_address (pr_policy st) ip_str")
        case (Inl e)
        with 2(4) fam fresh seen show ?thesis by auto
      next
        case (Inr n)
        then have u: "usable ip_address (pr_policy st) ip_str" by (auto simp: usable_def)
        then have "resolver_ok ip_address (mark_validated host (ip_str # ?seen) st)"
          using 2(5) by (simp add: resolver_ok_def)
        moreover obtain r1 st1
          where v: "validate_infos ip_address host infos (mark_validated host (ip_str # ?seen) st) = (r1, st1)"
          by fastforce
        moreover have "st' = st1 \<and> r = (case r1 of Inl e \<Rightarrow> Inl e | Inr others \<Rightarrow> Inr (ip_str # others))"
          using 2(4) fam fresh Inr v by (auto split: sum.splits)
        ultimately show ?thesis using 2(3) [OF fam refl fresh Inr v] u by (cases r1) auto
      qed
    qed
  qed
qed

lemma resolve_ok:
  assumes "resolve_pinned ip_address now answer host fam st = (r, st')" and ok: "resolver_ok ip_address st"
  shows "resolver_ok ip_address st' \<and> pr_policy st' = pr_policy st \<and> pr_ttl st' = pr_ttl st \<and>
    (\<forall>as. r = Inr as \<longrightarrow> list_all (usable ip_address (pr_policy st)) as)"
proof (cases "case map_of (pr_cache st) (CacheKey host fam) of
             Some e \<Rightarrow> if now - pn_cached_at e < pr_ttl st then Some e else None
           | None \<Rightarrow> None")
  case (Some e)
  then have "map_of (pr_cache st) (CacheKey host fam) = Some e" by (auto split: option.splits if_splits)
  with ok have "list_all (usable ip_address (pr_policy st)) (pn_addresses e)" by (simp add: resolver_ok_def)
  with assms Some show ?thesis by (auto simp: resolve_pinned_def)
next
  case uncached: None
  show ?thesis
  proof (cases answer)
    case None
    with assms uncached show ?thesis by (auto simp: resolve_pinned_def)
  next
    case (Some infos)
    obtain r1 st1 where v: "validate_infos ip_address host infos st = (r1, st1)" by fastforce
    from validate_infos_ok [OF v ok] have v1: "resolver_ok ip_address st1" "pr_policy st1 = pr_policy st"
      "pr_ttl st1 = pr_ttl st" "\<And>as. r1 = Inr as \<Longrightarrow> list_all (usable ip_address (pr_policy st)) as"
      by auto
    show ?thesis
    proof (cases r1)
      case (Inl e)
      with assms uncached Some v v1 show ?thesis by (auto simp: resolve_pinned_def)
    next
      case (Inr addrs)
      show ?thesis
      proof (cases "addrs = []")
        case True
        with assms uncached Some v v1 Inr show ?thesis by (auto simp: resolve_pinned_def)
      next
        case False
        let ?e = "\<lparr>pn_addresses = from_keys addrs, pn_family = fam, pn_cached_at = now\<rparr>"
        have u: "list_all (usable ip_address (pr_policy st)) (from_keys addrs)"
          using v1(4) [OF Inr] by (simp add: list_all_iff)
        have st': "st' = st1\<lparr>pr_cache := dict_set (CacheKey host fam) ?e (pr_cache st1)\<rparr>"
          and r: "r = Inr (from_keys addrs)"
          using assms(1) uncached Some v Inr False by (auto simp: resolve_pinned_def Let_def)
        have "resolver_ok ip_address st'"
          using v1(1,2) u by (auto simp: resolver_ok_def st' validated_of_def map_of_dict_set)
        with u v1(2,3) show ?thesis by (simp add: st' r)
      qed
    qed
  qed
qed

definition outputs_ok :: "(string \<Rightarrow> ip option) \<Rightarrow> (net_policy \<times> string) list \<Rightarrow> bool" where
  "outputs_ok ip_address os \<longleftrightarrow> list_all (\<lambda>(p, a). usable ip_address p a) os"

lemma resolver_step_ok:
  assumes "resolver_ok ip_address st" and "resolver_step ip_address act st = Some (st', new)"
  shows "resolver_ok ip_address st' \<and> outputs_ok ip_address new"
proof (cases act)
  case (Lookup now answer host fam)
  obtain r st1 where r: "resolve_pinned ip_address now answer host fam st = (r, st1)" by fastforce
  from resolve_ok [OF r assms(1)] assms(2) Lookup r show ?thesis
    by (cases r) (auto simp: outputs_ok_def list_all_iff)
next
  case (SwapPolicy policy)
  with assms show ?thesis by (auto simp: replace_policy_def resolver_ok_def outputs_ok_def validated_of_def)
next
  case CloseResolver
  with assms show ?thesis by (auto simp: close_resolver_def resolver_ok_def outputs_ok_def validated_of_def)
qed

interpretation resolver: trace_invariant "resolver_step ip_address" "resolver_ok ip_address"
    "\<lambda>st0 acts os st. resolver_ok ip_address st \<and> outputs_ok ip_address os" for ip_address
proof
  show "resolver_ok ip_address st0 \<and> outputs_ok ip_address []" if "resolver_ok ip_address st0" for st0
    using that by (simp add: outputs_ok_def)
next
  fix st0 as os st a st' new
  assume "resolver_ok ip_address st \<and> outputs_ok ip_address os"
    and "resolver_step ip_address a st = Some (st', new)"
  with resolver_step_ok [of ip_address st a st' new]
  show "resolver_ok ip_address st' \<and> outputs_ok ip_address (os @ new)"
    by (auto simp: outputs_ok_def)
qed

lemma resolver_ok_new: "resolver_ok ip_address (pinned_resolver_new policy ttl)"
  by (simp add: resolver_ok_def pinned_resolver_new_def validated_of_def)

subsection \<open>Pinned addresses\<close>

text \<open>A lookup before a given time.\<close>

fun lookup_before :: "real \<Rightarrow> resolver_action \<Rightarrow> bool" where
  "lookup_before t (Lookup now answer host fam) \<longleftrightarrow> now < t"
| "lookup_before t _ \<longleftrightarrow> False"

lemma pinned_step:
  assumes "resolver_step ip_address act st = Some (st', new)" and "lookup_before (pn_cached_at e + pr_ttl st) act"
    and "map_of (pr_cache st) k = Some e" and "resolver_ok ip_address st"
  shows "map_of (pr_cache st') k = Some e \<and> pr_ttl st' = pr_ttl st"
proof -
  from assms(2) obtain now answer host fam where act: "act = Lookup now answer host fam"
    and now: "now < pn_cached_at e + pr_ttl st"
    by (cases act) auto
  obtain r where r: "resolve_pinned ip_address now answer host fam st = (r, st')"
    using assms(1) act by (auto split: prod.splits sum.splits)
  show ?thesis
  proof (cases "k = CacheKey host fam")
    case True
    with assms(3) now r show ?thesis by (auto simp: resolve_pinned_def)
  next
    case False
    have "map_of (pr_cache st') k = map_of (pr_cache st) k"
    proof (cases "answer")
      case None
      with r show ?thesis by (auto simp: resolve_pinned_def split: option.splits)
    next
      case (Some infos)
      obtain r1 st1 where v: "validate_infos ip_address host infos st = (r1, st1)" by fastforce
      from validate_infos_ok [OF v assms(4)] have "pr_cache st1 = pr_cache st" by blast
      with r Some v False show ?thesis
        by (auto simp: resolve_pinned_def map_of_dict_set Let_def split: option.splits sum.splits if_splits)
    qed
    with resolve_ok [OF r assms(4)] assms(3) show ?thesis by simp
  qed
qed

subsection \<open>Properties\<close>

text \<open>C34. No address behind the back of the policy. Whatever the DNS answers, and in every history of
  lookups and policy changes, each address that the resolver hands out for a connection is one that the
  policy in force at that moment admits.\<close>

theorem resolver_hands_out_allowed:
  assumes "runs (resolver_step ip_address) (pinned_resolver_new policy ttl) acts os st"
    and "(p, a) \<in> set os"
  shows "\<exists>n. ip_address a = Some n \<and>
    classify_blocked (np_allow_private_network p) (np_allow_loopback p) n = None"
proof -
  from resolver.holds [OF assms(1) resolver_ok_new] assms(2) have "usable ip_address p a"
    by (auto simp: outputs_ok_def list_all_iff)
  then show ?thesis by (auto simp: usable_def assert_ip_allowed_def split: option.splits)
qed

definition demo_ip :: "string \<Rightarrow> ip option" where
  "demo_ip a = (if a = ''8.8.8.8'' then Some (V4 (v4 8 8 8 8))
                else if a = ''10.0.0.1'' then Some (V4 (v4 10 0 0 1)) else None)"

text \<open>A host that answers with a public address first and with a private one afterwards.\<close>

definition demo_rebinding :: "resolver_action list" where
  "demo_rebinding =
    [Lookup 0 (Some [(AF_INET, ''8.8.8.8'')]) ''h'' AF_INET,
     Lookup 100 (Some [(AF_INET, ''10.0.0.1'')]) ''h'' AF_INET]"

lemma demo_public: "assert_ip_allowed demo_ip default_policy ''8.8.8.8'' = Inr (V4 (v4 8 8 8 8))"
  by (simp add: assert_ip_allowed_def demo_ip_def default_policy_def classify_blocked_def classify4_def
      packed4_def v4_def in_net_def loopback4_def link_local4_def multicast4_def reserved4_def
      private4_def private_networks4_def)

lemma demo_private: "assert_ip_allowed demo_ip default_policy ''10.0.0.1'' = Inl SsrFBlockedError"
  by (simp add: assert_ip_allowed_def demo_ip_def default_policy_def classify_blocked_def classify4_def
      packed4_def v4_def in_net_def loopback4_def link_local4_def multicast4_def reserved4_def
      private4_def private_networks4_def)

lemma demo_rebinding_runs:
  "\<exists>st. runs (resolver_step demo_ip) (pinned_resolver_new default_policy 60) demo_rebinding
     [(default_policy, ''8.8.8.8'')] st"
proof -
  have "\<exists>st. run_steps (resolver_step demo_ip) demo_rebinding (pinned_resolver_new default_policy 60) =
      Some ([(default_policy, ''8.8.8.8'')], st)"
    by (simp add: demo_rebinding_def pinned_resolver_new_def resolve_pinned_def validated_of_def
        mark_validated_def demo_public demo_private from_keys_def Let_def)
  then show ?thesis by (auto intro: run_steps_runs)
qed

theorem resolver_hands_out_allowed_witness:
  "\<exists>n. demo_ip ''8.8.8.8'' = Some n \<and> classify_blocked False False n = None"
proof -
  obtain st where "runs (resolver_step demo_ip) (pinned_resolver_new default_policy 60) demo_rebinding
     [(default_policy, ''8.8.8.8'')] st"
    using demo_rebinding_runs by blast
  from resolver_hands_out_allowed [OF this, of default_policy "''8.8.8.8''"] show ?thesis
    by (simp add: default_policy_def)
qed

text \<open>Pinning. Once a lookup has cached the addresses of a host, every lookup of that host before the
  entry expires returns these addresses, whatever the DNS says by then and whichever other hosts were
  looked up in between.\<close>

lemma pinned_until_expiry:
  assumes "resolver_ok ip_address st" and "map_of (pr_cache st) (CacheKey host fam) = Some e"
    and "runs (resolver_step ip_address) st acts os st'"
    and "list_all (lookup_before (pn_cached_at e + pr_ttl st)) acts"
    and "now < pn_cached_at e + pr_ttl st"
  shows "resolve_pinned ip_address now answer host fam st' = (Inr (pn_addresses e), st')"
proof -
  have "map_of (pr_cache st') (CacheKey host fam) = Some e \<and> pr_ttl st' = pr_ttl st \<and> resolver_ok ip_address st'"
    using assms(3,4)
  proof (induction rule: runs.induct)
    case start
    show ?case using assms(1,2) by simp
  next
    case (step as os s a s' new)
    then have IH: "map_of (pr_cache s) (CacheKey host fam) = Some e" "pr_ttl s = pr_ttl st" "resolver_ok ip_address s"
      and "lookup_before (pn_cached_at e + pr_ttl s) a"
      by auto
    from pinned_step [OF step.hyps(2) this(4) IH(1,3)] resolver_step_ok [OF IH(3) step.hyps(2)] IH(2)
    show ?case by simp
  qed
  with assms(5) show ?thesis by (auto simp: resolve_pinned_def)
qed

definition demo_pinned :: pinned_resolver where
  "demo_pinned = snd (resolve_pinned demo_ip 0 (Some [(AF_INET, ''8.8.8.8'')]) ''h'' AF_INET
     (pinned_resolver_new default_policy 60))"

text \<open>An IPv4 address that the policy refuses is refused in each of the IPv6 forms that embed it: the
  mapped form, 6to4 with every subnet and interface, and Teredo with every server, flags and port.\<close>

lemma embedded_addresses_blocked:
  assumes "classify4 allow_private allow_loopback a \<noteq> None" and "0 \<le> a" and "a < 2 ^ 32"
    and "0 \<le> low" and "low < 2 ^ 80" and "0 \<le> mid" and "mid < 2 ^ 64"
  shows "classify_blocked allow_private allow_loopback (V6 (0xFFFF * 2 ^ 32 + a)) \<noteq> None \<and>
    classify_blocked allow_private allow_loopback (V6 (0x2002 * 2 ^ 112 + a * 2 ^ 80 + low)) \<noteq> None \<and>
    classify_blocked allow_private allow_loopback
      (V6 (0x20010000 * 2 ^ 96 + mid * 2 ^ 32 + (2 ^ 32 - 1 - a))) \<noteq> None"
  using embedded_blocked [OF mapped_embeds [OF assms(2,3)] assms(1)]
    embedded_blocked [OF sixtofour_embeds [OF assms(2-5)] assms(1)]
    embedded_blocked [OF teredo_embeds [OF assms(2,3,6,7)] assms(1)]
  by blast

end
