(* ===== verification/FileState.thy ===== *)
theory FileState
  imports ToolExec Traces
begin

section \<open>The file-state registry\<close>

text \<open>
  \<open>oxenclaw/tools_pkg/file_state.py\<close>: which agent read and wrote which file when, and the warning before
  a write of stale content. \<open>resolve\<close> (\<open>Path.resolve\<close>), the clock and what the disk answers (the time of
  modification, existence) are arguments. The history of the accesses is the specification: a
  trace of the registry answers as the history does.
\<close>

subsection \<open>State\<close>

datatype stale_kind = SiblingWrote | MtimeDrift | WriteWithoutRead

record stale_warning =
  sw_kind :: stale_kind
  sw_message :: string
  sw_last_writer :: "string option"
  sw_last_writer_at :: "real option"

record read_stamp =
  last_read_at :: real
  last_read_mtime :: real
  partial_read :: bool

datatype read_key = ReadKey string string

text \<open>The locks are numbered in the order of their creation.\<close>

record file_registry =
  fr_reads :: "(read_key \<times> read_stamp) list"
  fr_last_writer :: "(string \<times> string \<times> real) list"
  fr_path_locks :: "(string \<times> nat) list"
  fr_next_lock :: nat

definition file_registry_new :: file_registry where
  "file_registry_new = \<lparr>fr_reads = [], fr_last_writer = [], fr_path_locks = [], fr_next_lock = 0\<rparr>"

subsection \<open>Operations\<close>

definition lock_for :: "string \<Rightarrow> file_registry \<Rightarrow> nat \<times> file_registry" where
  "lock_for resolved fr =
    (case map_of (fr_path_locks fr) resolved of
       Some lock \<Rightarrow> (lock, fr)
     | None \<Rightarrow> (fr_next_lock fr, fr\<lparr>fr_path_locks := dict_set resolved (fr_next_lock fr) (fr_path_locks fr),
                                fr_next_lock := fr_next_lock fr + 1\<rparr>))"

text \<open>\<open>disk_mtime\<close> is what \<open>os.path.getmtime\<close> returns, nothing where it raises.\<close>

definition register_read ::
  "real \<Rightarrow> real option \<Rightarrow> string \<Rightarrow> string \<Rightarrow> real option \<Rightarrow> bool \<Rightarrow> file_registry \<Rightarrow> file_registry" where
  "register_read now disk_mtime task_id resolved mtime partial fr =
    (case (case mtime of Some m \<Rightarrow> Some m | None \<Rightarrow> disk_mtime) of
       None \<Rightarrow> fr
     | Some m \<Rightarrow>
        fr\<lparr>fr_reads := dict_set (ReadKey task_id resolved)
             \<lparr>last_read_at = now, last_read_mtime = m, partial_read = partial\<rparr> (fr_reads fr)\<rparr>)"

definition register_write ::
  "real \<Rightarrow> real option \<Rightarrow> string \<Rightarrow> string \<Rightarrow> real option \<Rightarrow> file_registry \<Rightarrow> file_registry" where
  "register_write now disk_mtime task_id resolved mtime fr =
    (let m = (case mtime of Some m \<Rightarrow> m | None \<Rightarrow> (case disk_mtime of Some m \<Rightarrow> m | None \<Rightarrow> now))
     in fr\<lparr>fr_last_writer := dict_set resolved (task_id, now) (fr_last_writer fr),
           fr_reads := dict_set (ReadKey task_id resolved)
             \<lparr>last_read_at = now, last_read_mtime = m, partial_read = False\<rparr> (fr_reads fr)\<rparr>)"

definition sibling_warning :: "string \<Rightarrow> read_stamp option \<Rightarrow> string \<Rightarrow> (string \<times> real) option \<Rightarrow> stale_warning option" where
  "sibling_warning task_id stamp resolved last_writer =
    (case last_writer of
       None \<Rightarrow> None
     | Some (writer_tid, writer_ts) \<Rightarrow>
        if writer_tid = task_id then None
        else (case stamp of
                None \<Rightarrow>
                  Some \<lparr>sw_kind = SiblingWrote,
                        sw_message = ''another agent ('' @ repr_str writer_tid @ '') wrote to '' @ resolved @
                          '' but this agent never read it'',
                        sw_last_writer = Some writer_tid, sw_last_writer_at = Some writer_ts\<rparr>
              | Some st \<Rightarrow>
                  if last_read_at st < writer_ts
                  then Some \<lparr>sw_kind = SiblingWrote,
                             sw_message = ''another agent ('' @ repr_str writer_tid @ '') wrote to '' @ resolved @
                               '' after this agent'' @ [CHR 0x27] @ ''s last read'',
                             sw_last_writer = Some writer_tid, sw_last_writer_at = Some writer_ts\<rparr>
                  else None))"

definition drift_warning :: "real option \<Rightarrow> read_stamp \<Rightarrow> string \<Rightarrow> stale_warning option" where
  "drift_warning disk_mtime st resolved =
    (if (case disk_mtime of Some m \<Rightarrow> m \<noteq> last_read_mtime st | None \<Rightarrow> False)
     then Some \<lparr>sw_kind = MtimeDrift,
                sw_message = resolved @ '' was modified on disk after this agent'' @ [CHR 0x27] @ ''s last read'',
                sw_last_writer = None, sw_last_writer_at = None\<rparr>
     else if partial_read st
     then Some \<lparr>sw_kind = MtimeDrift, sw_message = resolved @ '' was last read with offset/limit pagination'',
                sw_last_writer = None, sw_last_writer_at = None\<rparr>
     else None)"

definition check_stale ::
  "real option \<Rightarrow> bool \<Rightarrow> string \<Rightarrow> string \<Rightarrow> file_registry \<Rightarrow> stale_warning option" where
  "check_stale disk_mtime exists_on_disk task_id resolved fr =
    (let stamp = map_of (fr_reads fr) (ReadKey task_id resolved);
         last_writer = map_of (fr_last_writer fr) resolved
     in case sibling_warning task_id stamp resolved last_writer of
          Some w \<Rightarrow> Some w
        | None \<Rightarrow>
           (case stamp of
              Some st \<Rightarrow> drift_warning disk_mtime st resolved
            | None \<Rightarrow>
                if exists_on_disk
                then Some \<lparr>sw_kind = WriteWithoutRead,
                           sw_message = resolved @ '' exists but was not read by this agent'',
                           sw_last_writer = None, sw_last_writer_at = None\<rparr>
                else None))"

definition written_since :: "string \<Rightarrow> file_registry \<Rightarrow> string \<Rightarrow> bool" where
  "written_since task_id fr p =
    (case map_of (fr_last_writer fr) p of
       None \<Rightarrow> False
     | Some (writer_tid, writer_ts) \<Rightarrow>
        if writer_tid = task_id then False
        else (case map_of (fr_reads fr) (ReadKey task_id p) of
                None \<Rightarrow> True | Some st \<Rightarrow> last_read_at st < writer_ts))"

definition writes_since :: "string \<Rightarrow> string list \<Rightarrow> file_registry \<Rightarrow> string list" where
  "writes_since task_id resolved_paths fr = filter (written_since task_id fr) resolved_paths"

definition clear_registry :: "file_registry \<Rightarrow> file_registry" where
  "clear_registry fr = fr\<lparr>fr_reads := [], fr_last_writer := [], fr_path_locks := []\<rparr>"

subsection \<open>Histories\<close>

text \<open>
  The accesses of all agents in the order in which they take the lock of the registry: a read that found the
  file, a write, each with the agent, the path, the clock reading it was stamped with and the modification time
  registered; a question for staleness, with what the disk answers. Nothing is assumed of the
  readings: the wall clock may stand still or go back, and a write reads it before it takes the lock.
\<close>

datatype file_access =
    ReadFile string string real real bool
  | WroteFile string string real real
  | AskStale string string "real option" bool

fun file_step :: "file_access \<Rightarrow> file_registry \<Rightarrow> (file_registry \<times> stale_warning option list) option" where
  "file_step (ReadFile t p now m partial) fr = Some (register_read now None t p (Some m) partial fr, [])"
| "file_step (WroteFile t p now m) fr = Some (register_write now None t p (Some m) fr, [])"
| "file_step (AskStale t p disk_mtime present) fr = Some (fr, [check_stale disk_mtime present t p fr])"

text \<open>The newest access comes first: the last write of a file, and the last access of an agent to it.\<close>

fun last_write :: "string \<Rightarrow> file_access list \<Rightarrow> (string \<times> real) option" where
  "last_write p [] = None"
| "last_write p (WroteFile t' p' now m # as) = (if p' = p then Some (t', now) else last_write p as)"
| "last_write p (_ # as) = last_write p as"

fun last_access :: "string \<Rightarrow> string \<Rightarrow> file_access list \<Rightarrow> (real \<times> real \<times> bool) option" where
  "last_access t p [] = None"
| "last_access t p (ReadFile t' p' now m partial # as) =
    (if t' = t \<and> p' = p then Some (now, m, partial) else last_access t p as)"
| "last_access t p (WroteFile t' p' now m # as) =
    (if t' = t \<and> p' = p then Some (now, m, False) else last_access t p as)"
| "last_access t p (AskStale t' p' m e # as) = last_access t p as"

text \<open>The last write is another agent's and is stamped later than this agent's last access, if there is one.\<close>

definition foreign_write :: "string \<Rightarrow> string \<Rightarrow> file_access list \<Rightarrow> bool" where
  "foreign_write t p as \<longleftrightarrow>
    (case last_write p as of
       None \<Rightarrow> False
     | Some (writer, written_at) \<Rightarrow>
        writer \<noteq> t \<and> (case last_access t p as of None \<Rightarrow> True | Some (tm, m, partial) \<Rightarrow> tm < written_at))"

text \<open>The same by the order of the accesses alone: another agent wrote the file after this agent's last access.\<close>

fun written_after :: "string \<Rightarrow> string \<Rightarrow> file_access list \<Rightarrow> bool" where
  "written_after t p [] \<longleftrightarrow> False"
| "written_after t p (ReadFile t' p' now m partial # as) \<longleftrightarrow> \<not> (t' = t \<and> p' = p) \<and> written_after t p as"
| "written_after t p (WroteFile t' p' now m # as) \<longleftrightarrow> (if p' = p then t' \<noteq> t else written_after t p as)"
| "written_after t p (AskStale t' p' m e # as) \<longleftrightarrow> written_after t p as"

fun access_times :: "file_access list \<Rightarrow> real list" where
  "access_times [] = []"
| "access_times (ReadFile t p now m partial # as) = now # access_times as"
| "access_times (WroteFile t p now m # as) = now # access_times as"
| "access_times (AskStale t p m e # as) = access_times as"

lemma access_times_append [simp]: "access_times (as @ bs) = access_times as @ access_times bs"
  by (induction as rule: access_times.induct) simp_all

lemma access_times_rev: "access_times (rev as) = rev (access_times as)"
  by (induction as rule: access_times.induct) simp_all

lemma last_write_time: "last_write p as = Some (t, tm) \<Longrightarrow> tm \<in> set (access_times as)"
  by (induction p as rule: last_write.induct) (auto split: if_splits)

lemma last_access_time: "last_access t p as = Some (tm, m, partial) \<Longrightarrow> tm \<in> set (access_times as)"
  by (induction t p as rule: last_access.induct) (auto split: if_splits)

text \<open>With a clock that moves forward from access to access, the stamps tell the order.\<close>

lemma foreign_write_order:
  "sorted_wrt (>) (access_times as) \<Longrightarrow> foreign_write t p as = written_after t p as"
proof (induction t p as rule: written_after.induct)
  case (2 t p t' p' now m partial as)
  show ?case
  proof (cases "t' = t \<and> p' = p")
    case True
    have "\<not> now < tm" if "last_write p as = Some (w, tm)" for w tm
      using last_write_time [OF that] 2(2) by auto
    with True show ?thesis by (auto simp: foreign_write_def split: option.split)
  next
    case False
    then have "foreign_write t p (ReadFile t' p' now m partial # as) = foreign_write t p as"
      by (simp only: foreign_write_def last_access.simps last_write.simps if_False)
    with False 2 show ?thesis by simp
  qed
next
  case (3 t p t' p' now m as)
  show ?case
  proof (cases "p' = p")
    case True
    have "tm < now" if "last_access t p as = Some (tm, m', partial)" for tm m' partial
      using last_access_time [OF that] 3(2) by auto
    with True show ?thesis by (auto simp: foreign_write_def split: option.split)
  next
    case False
    then have "last_access t p (WroteFile t' p' now m # as) = last_access t p as"
      "last_write p (WroteFile t' p' now m # as) = last_write p as" by auto
    then have "foreign_write t p (WroteFile t' p' now m # as) = foreign_write t p as"
      by (simp only: foreign_write_def)
    with False 3 show ?thesis by simp
  qed
next
  case (4 t p t' p' m e as)
  have "foreign_write t p (AskStale t' p' m e # as) = foreign_write t p as"
    by (simp only: foreign_write_def last_access.simps last_write.simps)
  with 4 show ?case by simp
qed (simp add: foreign_write_def)

text \<open>The kind of warning that the history calls for.\<close>

definition stale_spec :: "real option \<Rightarrow> bool \<Rightarrow> string \<Rightarrow> string \<Rightarrow> file_access list \<Rightarrow> stale_kind option" where
  "stale_spec disk_mtime present t p as =
    (if foreign_write t p as then Some SiblingWrote
     else (case last_access t p as of
             Some (tm, m, partial) \<Rightarrow>
               if (\<exists>m'. disk_mtime = Some m' \<and> m' \<noteq> m) \<or> partial then Some MtimeDrift else None
           | None \<Rightarrow> if present then Some WriteWithoutRead else None))"

subsection \<open>The registry follows the history\<close>

definition registry_follows :: "file_access list \<Rightarrow> file_registry \<Rightarrow> bool" where
  "registry_follows as fr \<longleftrightarrow>
     (\<forall>p. map_of (fr_last_writer fr) p = last_write p as) \<and>
     (\<forall>t p. map_option (\<lambda>st. (last_read_at st, last_read_mtime st, partial_read st)) (map_of (fr_reads fr) (ReadKey t p)) =
        last_access t p as)"

lemma registry_follows_new: "registry_follows [] file_registry_new"
  by (simp add: registry_follows_def file_registry_new_def)

lemma registry_follows_step: "registry_follows as fr \<Longrightarrow> file_step a fr = Some (fr', new) \<Longrightarrow> registry_follows (a # as) fr'"
  by (cases a) (auto simp: registry_follows_def register_read_def register_write_def map_of_dict_set)

interpretation file_registry: trace_invariant file_step "\<lambda>fr. fr = file_registry_new" "\<lambda>fr0 as os fr. registry_follows (rev as) fr"
  by unfold_locales (simp_all add: registry_follows_new registry_follows_step)

lemma written_since_follows: "registry_follows as fr \<Longrightarrow> written_since t fr p = foreign_write t p as"
proof -
  assume f: "registry_follows as fr"
  then have "last_access t p as =
      map_option (\<lambda>st. (last_read_at st, last_read_mtime st, partial_read st)) (map_of (fr_reads fr) (ReadKey t p))"
    and "last_write p as = map_of (fr_last_writer fr) p"
    by (simp_all add: registry_follows_def)
  then show ?thesis by (auto simp: written_since_def foreign_write_def split: option.splits)
qed

lemma sibling_warning_iff:
  "sibling_warning t (map_of (fr_reads fr) (ReadKey t p)) p (map_of (fr_last_writer fr) p) = None \<longleftrightarrow>
     \<not> written_since t fr p"
  by (auto simp: sibling_warning_def written_since_def split: option.splits)

lemma sibling_warning_kind:
  "sibling_warning t stamp p writer = Some w \<Longrightarrow> sw_kind w = SiblingWrote"
  by (auto simp: sibling_warning_def split: option.splits if_splits)

lemma check_stale_kind:
  assumes f: "registry_follows as fr"
  shows "map_option sw_kind (check_stale m e t p fr) = stale_spec m e t p as"
proof (cases "foreign_write t p as")
  case True
  with written_since_follows [OF f] sibling_warning_iff [of t fr p] obtain w
    where w: "sibling_warning t (map_of (fr_reads fr) (ReadKey t p)) p (map_of (fr_last_writer fr) p) = Some w"
    by auto
  with sibling_warning_kind [OF w] True show ?thesis by (simp add: check_stale_def stale_spec_def)
next
  case False
  with written_since_follows [OF f] sibling_warning_iff [of t fr p]
  have n: "sibling_warning t (map_of (fr_reads fr) (ReadKey t p)) p (map_of (fr_last_writer fr) p) = None"
    by simp
  have l: "last_access t p as =
      map_option (\<lambda>st. (last_read_at st, last_read_mtime st, partial_read st)) (map_of (fr_reads fr) (ReadKey t p))"
    using f by (simp add: registry_follows_def)
  show ?thesis
    using False n
    by (auto simp: check_stale_def stale_spec_def l drift_warning_def split: option.splits)
qed

text \<open>
  The order of the stamps is not the order of the accesses: a write that is stamped like the read before it is
  not noticed, nor one that was stamped before a read and took the lock after it.
\<close>

lemma tie_hides_write:
  assumes "tm \<le> now"
  shows "\<exists>os fr. runs file_step file_registry_new [ReadFile ''a'' ''f'' now m False, WroteFile ''b'' ''f'' tm m'] os fr \<and>
    check_stale (Some m) True ''a'' ''f'' fr = None"
proof -
  let ?acts = "[ReadFile ''a'' ''f'' now m False, WroteFile ''b'' ''f'' tm m']"
  obtain os fr where "run_steps file_step ?acts file_registry_new = Some (os, fr)" by simp
  note r = run_steps_runs [OF this]
  have "check_stale (Some m) True ''a'' ''f'' fr = None"
    using check_stale_kind [OF file_registry.holds [OF r refl], of "Some m" True "''a''" "''f''"] assms
    by (simp add: stale_spec_def foreign_write_def)
  with r show ?thesis by blast
qed

subsection \<open>Properties\<close>

text \<open>C20. The registry forgets nothing. Whatever agents read and write which files in which order and however
  the clock runs, a question for staleness is answered as the whole history demands: a sibling's write
  exactly if the last write of the file was another agent's and is stamped later than this agent's
  last access, else a drift exactly if the disk shows another modification time than that access or it saw only a
  part, else a write without a read exactly if the file exists and was never accessed. When the
  clock readings increase from access to access, that a write is stamped later is the same as that it
  came later; otherwise a write can go unnoticed.\<close>

theorem staleness_follows_history:
  assumes "runs file_step file_registry_new acts os fr"
  shows "map_option sw_kind (check_stale m e t p fr) = stale_spec m e t p (rev acts) \<and>
    writes_since t ps fr = filter (\<lambda>q. foreign_write t q (rev acts)) ps \<and>
    (sorted_wrt (<) (access_times acts) \<longrightarrow> (\<forall>q. foreign_write t q (rev acts) = written_after t q (rev acts)))"
proof -
  from file_registry.holds [OF assms refl] have f: "registry_follows (rev acts) fr" .
  then have "written_since t fr = (\<lambda>q. foreign_write t q (rev acts))"
    using written_since_follows by blast
  moreover have "sorted_wrt (>) (access_times (rev acts))" if "sorted_wrt (<) (access_times acts)"
    using that by (simp add: access_times_rev sorted_wrt_rev)
  ultimately show ?thesis using check_stale_kind [OF f] foreign_write_order by (simp add: writes_since_def)
qed

definition demo_accesses :: "file_access list" where
  "demo_accesses =
    [ReadFile ''a'' ''f'' 0 1 False, WroteFile ''b'' ''f'' 1 2, AskStale ''a'' ''f'' (Some 2) True, ReadFile ''b'' ''g'' 3 1 True]"

theorem staleness_follows_history_witness:
  "\<exists>fr :: file_registry. map_option sw_kind (check_stale (Some 2) True ''a'' ''f'' fr) = Some SiblingWrote \<and>
     writes_since ''a'' [''f'', ''g''] fr = [''f''] \<and> foreign_write ''a'' ''f'' (rev demo_accesses) = written_after ''a'' ''f'' (rev demo_accesses)"
proof -
  have "\<exists>os fr. run_steps file_step demo_accesses file_registry_new = Some (os, fr)"
    by (simp add: demo_accesses_def)
  then obtain os fr where r: "run_steps file_step demo_accesses file_registry_new = Some (os, fr)" by blast
  from staleness_follows_history [OF run_steps_runs [OF r], of "Some 2" True "''a''" "''f''" "[''f'', ''g'']"] show ?thesis
    by (intro exI [of _ fr]) (simp add: stale_spec_def foreign_write_def demo_accesses_def)
qed

end
