(* ===== verification/Difflib.thy ===== *)
theory Difflib
  imports Prelude
begin

section \<open>Similarity of texts\<close>

text \<open>
  The similarity ratio of the standard library's \<open>difflib.SequenceMatcher\<close>, which
  \<open>oxenclaw/tools_pkg/fuzzy_match.py\<close> uses for its last strategy. \<open>a\<close> and \<open>b\<close> are its two sequences;
  characters of \<open>b\<close> that occur too often are \<open>popular\<close> and start no match. Every match of
  the matcher is a run that both texts have, and the runs together are a common subsequence.
\<close>

subsection \<open>The longest match\<close>

fun count_char :: "char \<Rightarrow> string \<Rightarrow> nat" where
  "count_char c [] = 0"
| "count_char c (x # xs) = (if x = c then Suc (count_char c xs) else count_char c xs)"

definition popular :: "string \<Rightarrow> char \<Rightarrow> bool" where
  "popular b c \<longleftrightarrow> 200 \<le> length b \<and> length b div 100 + 1 < count_char c b"

text \<open>
  One row of the table: at \<open>j\<close> the length of the longest common run that ends at the row's character
  of \<open>a\<close> and at \<open>b ! j\<close>. The argument \<open>d\<close> is the entry of the row before at \<open>j - 1\<close>.
\<close>

fun match_row :: "(char \<Rightarrow> bool) \<Rightarrow> char \<Rightarrow> nat \<Rightarrow> string \<Rightarrow> nat list \<Rightarrow> nat list" where
  "match_row pop c d (y # ys) (p # ps) =
    (if y = c \<and> \<not> pop c then Suc d else 0) # match_row pop c p ys ps"
| "match_row pop c d ys ps = []"

datatype run = Run nat nat nat

text \<open>The first entry of a row that is longer than the best one so far.\<close>

fun best_in_row :: "nat \<Rightarrow> nat \<Rightarrow> nat list \<Rightarrow> run \<Rightarrow> run" where
  "best_in_row i j [] best = best"
| "best_in_row i j (k # ks) (Run bi bj bk) =
    best_in_row i (Suc j) ks (if bk < k then Run (Suc i - k) (Suc j - k) k else Run bi bj bk)"

fun best_run :: "(char \<Rightarrow> bool) \<Rightarrow> nat \<Rightarrow> string \<Rightarrow> string \<Rightarrow> nat list \<Rightarrow> run \<Rightarrow> run" where
  "best_run pop i [] b ps best = best"
| "best_run pop i (x # xs) b ps best =
    (let row = match_row pop x 0 b ps in best_run pop (Suc i) xs b row (best_in_row i 0 row best))"

text \<open>The extension of a match to both sides, over popular characters too.\<close>

fun extend_back :: "string \<Rightarrow> string \<Rightarrow> nat \<Rightarrow> nat \<Rightarrow> nat \<Rightarrow> run" where
  "extend_back a b (Suc i) (Suc j) k =
    (if a ! i = b ! j then extend_back a b i j (Suc k) else Run (Suc i) (Suc j) k)"
| "extend_back a b i j k = Run i j k"

fun common_length :: "string \<Rightarrow> string \<Rightarrow> nat" where
  "common_length (x # xs) (y # ys) = (if x = y then Suc (common_length xs ys) else 0)"
| "common_length xs ys = 0"

definition longest_match :: "(char \<Rightarrow> bool) \<Rightarrow> string \<Rightarrow> string \<Rightarrow> run" where
  "longest_match pop a b =
    (case best_run pop 0 a b (replicate (length b) 0) (Run 0 0 0) of
       Run bi bj bk \<Rightarrow>
         (case extend_back a b bi bj bk of
            Run i j k \<Rightarrow> Run i j (k + common_length (drop (i + k) a) (drop (j + k) b))))"

definition is_run :: "string \<Rightarrow> string \<Rightarrow> run \<Rightarrow> bool" where
  "is_run a b r =
    (case r of Run i j k \<Rightarrow>
       i + k \<le> length a \<and> j + k \<le> length b \<and> take k (drop i a) = take k (drop j b))"

text \<open>The entries of a row are lengths of runs that end there.\<close>

definition row_ok :: "string \<Rightarrow> string \<Rightarrow> nat \<Rightarrow> nat list \<Rightarrow> bool" where
  "row_ok a b i ps \<longleftrightarrow> length ps = length b \<and>
     (\<forall>j < length b. ps ! j \<le> i \<and> ps ! j \<le> Suc j \<and> is_run a b (Run (i - ps ! j) (Suc j - ps ! j) (ps ! j)))"

lemma match_row_nth:
  "length ps = length ys \<Longrightarrow> length (match_row pop c d ys ps) = length ys \<and>
   (\<forall>j < length ys. match_row pop c d ys ps ! j =
      (if ys ! j = c \<and> \<not> pop c then Suc (case j of 0 \<Rightarrow> d | Suc j' \<Rightarrow> ps ! j') else 0))"
proof (induction pop c d ys ps rule: match_row.induct)
  case (1 pop c d y ys p ps)
  then have IH: "length (match_row pop c p ys ps) = length ys"
    "\<And>j. j < length ys \<Longrightarrow> match_row pop c p ys ps ! j =
       (if ys ! j = c \<and> \<not> pop c then Suc (case j of 0 \<Rightarrow> p | Suc j' \<Rightarrow> ps ! j') else 0)"
    by simp_all
  show ?case
  proof (intro conjI allI impI)
    show "length (match_row pop c d (y # ys) (p # ps)) = length (y # ys)" using IH(1) by simp
  next
    fix j
    assume "j < length (y # ys)"
    then show "match_row pop c d (y # ys) (p # ps) ! j =
        (if (y # ys) ! j = c \<and> \<not> pop c then Suc (case j of 0 \<Rightarrow> d | Suc j' \<Rightarrow> (p # ps) ! j') else 0)"
      using IH(2) by (cases j) (auto split: nat.split)
  qed
qed simp_all

lemma run_snoc:
  assumes "is_run a b (Run i j k)" and "i + k < length a" and "j + k < length b" and "a ! (i + k) = b ! (j + k)"
  shows "is_run a b (Run i j (Suc k))"
  using assms by (simp add: is_run_def take_Suc_conv_app_nth)

lemma run_cons:
  assumes "is_run a b (Run (Suc i) (Suc j) k)" and "a ! i = b ! j"
  shows "is_run a b (Run i j (Suc k))"
proof -
  from assms have "drop i a = a ! i # drop (Suc i) a" "drop j b = b ! j # drop (Suc j) b"
    by (simp_all only: is_run_def run.case) (metis Cons_nth_drop_Suc Suc_le_lessD add_leE add_Suc)+
  with assms show ?thesis by (simp add: is_run_def)
qed

lemma empty_run: "i \<le> length a \<Longrightarrow> j \<le> length b \<Longrightarrow> is_run a b (Run i j 0)"
  by (simp add: is_run_def)

lemma match_row_ok:
  assumes "row_ok a b i ps" and "i < length a"
  shows "row_ok a b (Suc i) (match_row pop (a ! i) 0 b ps)"
proof -
  let ?row = "match_row pop (a ! i) 0 b ps"
  from assms have len: "length ps = length b" by (simp add: row_ok_def)
  note row = match_row_nth [OF len, of pop "a ! i" 0]
  have "?row ! j \<le> Suc i \<and> ?row ! j \<le> Suc j \<and> is_run a b (Run (Suc i - ?row ! j) (Suc j - ?row ! j) (?row ! j))"
    if j: "j < length b" for j
  proof (cases "b ! j = a ! i \<and> \<not> pop (a ! i)")
    case False
    with row j have "?row ! j = 0" by auto
    with assms(2) j show ?thesis by (simp add: empty_run)
  next
    case True
    show ?thesis
    proof (cases j)
      case 0
      with True row j have r: "?row ! j = 1" by auto
      from True assms(2) j 0 have "is_run a b (Run i 0 (Suc 0))"
        by (intro run_snoc empty_run) simp_all
      with r 0 show ?thesis by simp
    next
      case (Suc j')
      with True row j have r: "?row ! j = Suc (ps ! j')" by auto
      from assms(1) j Suc have p: "ps ! j' \<le> i" "ps ! j' \<le> Suc j'"
        "is_run a b (Run (i - ps ! j') (Suc j' - ps ! j') (ps ! j'))"
        by (auto simp: row_ok_def)
      from p True assms(2) j Suc have "is_run a b (Run (i - ps ! j') (Suc j' - ps ! j') (Suc (ps ! j')))"
        by (intro run_snoc) simp_all
      with p r Suc show ?thesis by simp
    qed
  qed
  with row show ?thesis by (simp add: row_ok_def)
qed

lemma best_in_row_ok:
  assumes "is_run a b best" and "\<forall>j' < length ks. is_run a b (Run (Suc i - ks ! j') (Suc (j + j') - ks ! j') (ks ! j'))"
  shows "is_run a b (best_in_row i j ks best)"
  using assms
proof (induction i j ks best rule: best_in_row.induct)
  case (2 i j k ks bi bj bk)
  have "is_run a b (Run (Suc i - k) (Suc j - k) k)" using spec [OF 2(3), of 0] by simp
  moreover have "\<forall>j' < length ks. is_run a b (Run (Suc i - ks ! j') (Suc (Suc j + j') - ks ! j') (ks ! j'))"
    using 2(3) by (metis Suc_mono add_Suc_shift length_Cons nth_Cons_Suc)
  ultimately show ?case using 2(1,2) by simp
qed simp_all

lemma best_run_ok:
  assumes "is_run a b best" and "row_ok a b i ps" and "drop i a = xs" and "i \<le> length a"
  shows "is_run a b (best_run pop i xs b ps best)"
  using assms
proof (induction pop i xs b ps best rule: best_run.induct)
  case (2 pop i x xs b ps best)
  then have i: "i < length a" "a ! i = x" "drop (Suc i) a = xs"
    by (auto simp: drop_Suc nth_via_drop tl_drop [symmetric]) (metis drop_eq_Nil list.distinct(1) not_le)
  let ?row = "match_row pop x 0 b ps"
  from match_row_ok [OF 2(3) i(1), of pop] i(2) have row: "row_ok a b (Suc i) ?row" by simp
  then have "is_run a b (best_in_row i 0 ?row best)"
    using 2(2) by (intro best_in_row_ok) (auto simp: row_ok_def)
  with 2(1) [OF refl _ row i(3)] i(1) show ?case by (simp add: Let_def)
qed simp

lemma extend_back_ok: "is_run a b (Run i j k) \<Longrightarrow> is_run a b (extend_back a b i j k)"
  by (induction a b i j k rule: extend_back.induct) (auto intro: run_cons)

lemma common_length_ok:
  "common_length xs ys \<le> length xs \<and> common_length xs ys \<le> length ys \<and>
   take (common_length xs ys) xs = take (common_length xs ys) ys"
  by (induction xs ys rule: common_length.induct) auto

lemma longest_match_ok: "is_run a b (longest_match pop a b)"
proof -
  have "row_ok a b 0 (replicate (length b) 0)" by (simp add: row_ok_def is_run_def)
  then have r: "is_run a b (best_run pop 0 a b (replicate (length b) 0) (Run 0 0 0))"
    by (intro best_run_ok) (simp_all add: empty_run)
  obtain bi bj bk where e: "best_run pop 0 a b (replicate (length b) 0) (Run 0 0 0) = Run bi bj bk"
    by (cases "best_run pop 0 a b (replicate (length b) 0) (Run 0 0 0)")
  obtain i j k where f: "extend_back a b bi bj bk = Run i j k" by (cases "extend_back a b bi bj bk")
  from extend_back_ok [OF r [unfolded e]] have "is_run a b (Run i j k)" by (simp add: f)
  with common_length_ok [of "drop (i + k) a" "drop (j + k) b"] show ?thesis
    by (auto simp: longest_match_def is_run_def e f take_add add.commute)
qed

subsection \<open>The ratio\<close>

text \<open>The characters in all matches: the longest one, then what is left and right of it.\<close>

function matched :: "(char \<Rightarrow> bool) \<Rightarrow> string \<Rightarrow> string \<Rightarrow> nat" where
  "matched pop a b =
    (case longest_match pop a b of
       Run i j k \<Rightarrow>
         if k = 0 then 0
         else k + matched pop (take i a) (take j b) + matched pop (drop (i + k) a) (drop (j + k) b))"
  by pat_completeness auto
termination
proof (relation "measure (\<lambda>(pop, a, b). length a)")
  show "wf (measure (\<lambda>(pop, a, b). length a))" by simp
next
  fix pop a b i j k
  assume "longest_match pop a b = Run i j k" "k \<noteq> 0"
  with longest_match_ok [of a b pop] have "i < length a" by (simp add: is_run_def)
  then show "((pop, take i a, take j b), pop, a, b) \<in> measure (\<lambda>(pop, a, b). length a)"
    and "((pop, drop (i + k) a, drop (j + k) b), pop, a, b) \<in> measure (\<lambda>(pop, a, b). length a)"
    using \<open>k \<noteq> 0\<close> by simp_all
qed

declare matched.simps [simp del]

definition ratio :: "string \<Rightarrow> string \<Rightarrow> real" where
  "ratio a b =
    (if length a + length b = 0 then 1
     else 2 * real (matched (popular b) a b) / real (length a + length b))"

text \<open>What is counted is the length of a subsequence that both texts have.\<close>

lemma matched_common: "\<exists>c. subseq c a \<and> subseq c b \<and> length c = matched pop a b"
proof (induction pop a b rule: matched.induct)
  case (1 pop a b)
  obtain i j k where m: "longest_match pop a b = Run i j k" by (cases "longest_match pop a b")
  show ?case
  proof (cases "k = 0")
    case True
    with m show ?thesis by (intro exI [of _ "[]"]) (simp add: matched.simps)
  next
    case False
    from 1(1) [OF m False] obtain l
      where l: "subseq l (take i a)" "subseq l (take j b)" "length l = matched pop (take i a) (take j b)"
      by blast
    from 1(2) [OF m False] obtain r
      where r: "subseq r (drop (i + k) a)" "subseq r (drop (j + k) b)"
        "length r = matched pop (drop (i + k) a) (drop (j + k) b)"
      by blast
    let ?c = "take k (drop i a)"
    have run: "i + k \<le> length a" "?c = take k (drop j b)"
      using longest_match_ok [of a b pop] m by (simp_all add: is_run_def)
    have split: "xs = take n xs @ take k (drop n xs) @ drop (n + k) xs" for n and xs :: string
      by (metis append_take_drop_id drop_drop add.commute)
    have "subseq (l @ ?c @ r) (take i a @ ?c @ drop (i + k) a)"
      using l r by (intro list_emb_append_mono) simp_all
    moreover have "subseq (l @ ?c @ r) (take j b @ take k (drop j b) @ drop (j + k) b)"
      using l r run(2) by (intro list_emb_append_mono) simp_all
    moreover have "length (l @ ?c @ r) = matched pop a b"
      using l(3) r(3) m False run(1) by (subst matched.simps) simp
    ultimately show ?thesis using split [of a i] split [of b j] by metis
  qed
qed

lemma ratio_common:
  assumes "t \<le> ratio a b"
  shows "\<exists>c. subseq c a \<and> subseq c b \<and> t * real (length a + length b) \<le> 2 * real (length c)"
proof (cases "length a + length b = 0")
  case True
  then show ?thesis by (intro exI [of _ "[]"]) simp
next
  case False
  obtain c where c: "subseq c a" "subseq c b" "length c = matched (popular b) a b"
    using matched_common by blast
  define n where "n = real (length a + length b)"
  have "0 < n" using False unfolding n_def by linarith
  moreover have "t \<le> 2 * real (length c) / n"
    using assms unfolding ratio_def if_not_P [OF False] c(3) n_def .
  ultimately have "t * real (length a + length b) \<le> 2 * real (length c)"
    by (simp add: pos_le_divide_eq n_def)
  with c show ?thesis by blast
qed

lemma ratio_bounds: "0 \<le> ratio a b \<and> ratio a b \<le> 1"
proof -
  obtain c where c: "subseq c a" "subseq c b" "length c = matched (popular b) a b"
    using matched_common by blast
  then have "2 * matched (popular b) a b \<le> length a + length b"
    using list_emb_length [OF c(1)] list_emb_length [OF c(2)] by simp
  then have "2 * real (matched (popular b) a b) \<le> real (length a + length b)"
    by (metis of_nat_le_iff of_nat_mult of_nat_numeral)
  then show ?thesis by (auto simp: ratio_def divide_le_eq_1)
qed

end
