(* ===== verification/FuzzyMatch.thy ===== *)
theory FuzzyMatch
  imports Difflib Texts
begin

section \<open>Fuzzy find and replace\<close>

text \<open>
  \<open>oxenclaw/tools_pkg/fuzzy_match.py\<close>: the chain of matchers behind the edit tool. A strategy takes the
  content, the text to find and its replacement, and returns the new content and the number of
  matches, or nothing. The similarity ratio is that of theory \<open>Difflib\<close>.
\<close>

subsection \<open>Text operations\<close>

definition crlf :: string where
  "crlf = [CHR 0x0D, CHR 0x0A]"

text \<open>\<open>re.sub(r"[ \t]+", " ", s)\<close>.\<close>

definition is_blank :: "char \<Rightarrow> bool" where
  "is_blank c \<longleftrightarrow> c = CHR '' '' \<or> c = CHR 0x09"

definition squeeze :: "string \<Rightarrow> string" where
  "squeeze s = squeeze_by is_blank s"

definition UNICODE_MAP :: "(char \<times> string) list" where
  "UNICODE_MAP =
    [(CHR 0x84, [CHR 0x22]), (CHR 0x86, [CHR 0x22]), (CHR 0x87, [CHR 0x27]), (CHR 0x88, [CHR 0x27]),
     (CHR 0x82, ''--''), (CHR 0x89, ''-''), (CHR 0x83, ''...''), (CHR 0xA0, '' '')]"

definition unicode_normalize :: "string \<Rightarrow> string" where
  "unicode_normalize text = foldl (\<lambda>out (src, dst). replace_all [src] dst out) text UNICODE_MAP"

definition unescape :: "string \<Rightarrow> string" where
  "unescape s =
    replace_all [CHR 0x5C, CHR ''r''] [CHR 0x0D]
      (replace_all [CHR 0x5C, CHR ''t''] [CHR 0x09] (replace_all [CHR 0x5C, CHR ''n''] newline s))"

subsection \<open>Splicing\<close>

definition splice_one :: "string \<Rightarrow> string list \<Rightarrow> nat \<times> nat \<Rightarrow> string list" where
  "splice_one new ls m = take (fst m) ls @ lines new @ drop (snd m) ls"

definition splice_lines :: "string \<Rightarrow> string list \<Rightarrow> (nat \<times> nat) list \<Rightarrow> string \<Rightarrow> string" where
  "splice_lines original content_lines matches new =
    (let nl = if contains crlf original \<and> contains newline original then crlf else newline;
         result_lines = foldl (splice_one new) content_lines (rev (sort_key fst matches))
     in join nl result_lines)"

text \<open>
  What the strategies on lines share: the blocks of \<open>n\<close> lines that satisfy a test, all of them replaced.
\<close>

definition matching_blocks :: "nat \<Rightarrow> string list \<Rightarrow> (string list \<Rightarrow> bool) \<Rightarrow> (nat \<times> nat) list" where
  "matching_blocks n ls ok =
    map (\<lambda>i. (i, i + n)) (filter (\<lambda>i. ok (take n (drop i ls))) [0..<length ls - n + 1])"

definition replace_blocks ::
  "string \<Rightarrow> nat \<Rightarrow> string list \<Rightarrow> (string list \<Rightarrow> bool) \<Rightarrow> string \<Rightarrow> (string \<times> nat) option" where
  "replace_blocks content n norm_lines ok new =
    (if n = 0 \<or> length norm_lines < n then None
     else let matches = matching_blocks n norm_lines ok
          in if matches = [] then None
             else Some (splice_lines content (lines content) matches new, length matches))"

subsection \<open>The strategies\<close>

definition exact :: "string \<Rightarrow> string \<Rightarrow> string \<Rightarrow> (string \<times> nat) option" where
  "exact content old new =
    (if \<not> contains old content then None else Some (replace_all old new content, count_sub old content))"

definition trim_line :: "string \<Rightarrow> string" where
  "trim_line s = lstrip (rstrip s)"

definition line_trimmed :: "string \<Rightarrow> string \<Rightarrow> string \<Rightarrow> (string \<times> nat) option" where
  "line_trimmed content old new =
    (let old_lines = map trim_line (lines old); pat = join newline old_lines
     in replace_blocks content (length old_lines) (map trim_line (lines content))
          (\<lambda>block. join newline block = pat) new)"

definition whitespace_normalized :: "string \<Rightarrow> string \<Rightarrow> string \<Rightarrow> (string \<times> nat) option" where
  "whitespace_normalized content old new =
    (let old_n = squeeze old; norm_content_full = squeeze content
     in if old_n = old \<and> norm_content_full = content then None
        else if \<not> contains old_n norm_content_full then None
        else replace_blocks content (length (lines old_n)) (map squeeze (lines content))
               (\<lambda>block. join newline block = old_n) new)"

definition indentation_flexible :: "string \<Rightarrow> string \<Rightarrow> string \<Rightarrow> (string \<times> nat) option" where
  "indentation_flexible content old new =
    (let old_lines = map lstrip (lines old); pat = join newline old_lines
     in replace_blocks content (length old_lines) (map lstrip (lines content))
          (\<lambda>block. join newline block = pat) new)"

definition escape_normalized :: "string \<Rightarrow> string \<Rightarrow> string \<Rightarrow> (string \<times> nat) option" where
  "escape_normalized content old new =
    (let old_u = unescape old
     in if old_u = old then None
        else if \<not> contains old_u content then None
        else Some (replace_all old_u new content, count_sub old_u content))"

definition unicode_normalized :: "string \<Rightarrow> string \<Rightarrow> string \<Rightarrow> (string \<times> nat) option" where
  "unicode_normalized content old new =
    (let norm_content = unicode_normalize content; norm_old = unicode_normalize old
     in if norm_content = content \<and> norm_old = old then None
        else replace_blocks content (length (lines norm_old)) (lines norm_content)
               (\<lambda>block. join newline block = norm_old) new)"

definition block_anchor :: "string \<Rightarrow> string \<Rightarrow> string \<Rightarrow> (string \<times> nat) option" where
  "block_anchor content old new =
    (let old_lines = lines old; n = length old_lines
     in if n < 4 then None
        else replace_blocks content n (lines content)
               (\<lambda>block. strip (block ! 0) = strip (old_lines ! 0) \<and> strip (block ! 1) = strip (old_lines ! 1) \<and>
                  strip (block ! (n - 2)) = strip (old_lines ! (n - 2)) \<and>
                  strip (block ! (n - 1)) = strip (old_lines ! (n - 1))) new)"

definition context_aware :: "string \<Rightarrow> string \<Rightarrow> string \<Rightarrow> (string \<times> nat) option" where
  "context_aware content old new =
    replace_blocks content (length (lines old)) (lines content)
      (\<lambda>block. 0.92 \<le> ratio (join newline block) old) new"

definition detect_escape_drift :: "string \<Rightarrow> string \<Rightarrow> bool" where
  "detect_escape_drift content old_str \<longleftrightarrow>
    list_ex (\<lambda>suspect. contains suspect old_str \<and> \<not> contains suspect content)
      [[CHR 0x5C, CHR 0x27], [CHR 0x5C, CHR 0x22]]"

subsection \<open>The chain\<close>

record fuzzy_error =
  fe_message :: string
  fe_tried :: "string list"
  fe_near_miss :: string

definition STRATEGIES :: "(string \<times> (string \<Rightarrow> string \<Rightarrow> string \<Rightarrow> (string \<times> nat) option)) list" where
  "STRATEGIES =
    [(''exact'', exact), (''line_trimmed'', line_trimmed), (''whitespace_normalized'', whitespace_normalized),
     (''indentation_flexible'', indentation_flexible), (''escape_normalized'', escape_normalized),
     (''unicode_normalized'', unicode_normalized), (''block_anchor'', block_anchor),
     (''context_aware'', context_aware)]"

text \<open>The first strategy that matches, with the names tried so far.\<close>

fun first_match ::
  "(string \<times> (string \<Rightarrow> string \<Rightarrow> string \<Rightarrow> (string \<times> nat) option)) list \<Rightarrow> string list \<Rightarrow> string \<Rightarrow> string \<Rightarrow>
   string \<Rightarrow> (string \<times> string \<times> nat \<times> string list) option" where
  "first_match [] tried content old new = None"
| "first_match ((name, fn) # fns) tried content old new =
    (case fn content old new of
       None \<Rightarrow> first_match fns (tried @ [name]) content old new
     | Some (new_content, count) \<Rightarrow> Some (name, new_content, count, tried @ [name]))"

text \<open>The window of 200 characters that is most like \<open>old\<close>, in steps of 64.\<close>

definition best_window :: "string \<Rightarrow> string \<Rightarrow> nat" where
  "best_window content old =
    snd (foldl (\<lambda>(best, best_idx) i.
        let score = ratio (take 200 (drop i content)) old
        in if best < score then (score, i) else (best, best_idx))
      (0 :: real, 0) (map (\<lambda>k. 64 * k) [0..<(max 1 (length content - 200) + 63) div 64]))"

definition near_miss :: "string \<Rightarrow> string \<Rightarrow> string" where
  "near_miss content old =
    (if 200 < length content then take 200 (drop (best_window content old) content) else take 200 content)"

definition count_message :: "nat \<Rightarrow> nat \<Rightarrow> string \<Rightarrow> string" where
  "count_message expected_count count name =
    ''expected '' @ show_nat expected_count @ '' match(es), found '' @ show_nat count @ '' (strategy '' @
    [CHR 0x27] @ name @ [CHR 0x27] @ ''). Provide more context in old_str to disambiguate.''"

definition DRIFT_MESSAGE :: string where
  "DRIFT_MESSAGE =
    ''escape-drift detected: old_str carries literal '' @ [CHR 0x5C, CHR 0x27] @ '' or '' @
    [CHR 0x5C, CHR 0x22] @ '' sequences absent from the file. Likely a JSON tool-call '' @
    ''serialisation artifact '' @ [CHR 0x82] @ '' re-emit without the spurious backslash.''"

definition fuzzy_find_and_replace ::
  "string \<Rightarrow> string \<Rightarrow> string \<Rightarrow> nat \<Rightarrow> fuzzy_error + (string \<times> string)" where
  "fuzzy_find_and_replace content old_str new_str expected_count =
    (if old_str = [] then
       Inl \<lparr>fe_message = ''old_str must not be empty'', fe_tried = [], fe_near_miss = []\<rparr>
     else if old_str = new_str then
       Inl \<lparr>fe_message = ''old_str and new_str are identical '' @ [CHR 0x82] @ '' no-op refused'',
            fe_tried = [], fe_near_miss = []\<rparr>
     else if detect_escape_drift content old_str then
       Inl \<lparr>fe_message = DRIFT_MESSAGE, fe_tried = [''escape_drift_guard''], fe_near_miss = []\<rparr>
     else (case first_match STRATEGIES [] content old_str new_str of
             Some (name, new_content, count, tried) \<Rightarrow>
               if count \<noteq> expected_count
               then Inl \<lparr>fe_message = count_message expected_count count name, fe_tried = tried,
                         fe_near_miss = take 200 old_str\<rparr>
               else Inr (new_content, name)
           | None \<Rightarrow>
               Inl \<lparr>fe_message = ''no strategy could place the patch'', fe_tried = map fst STRATEGIES,
                    fe_near_miss = near_miss content old_str\<rparr>))"

subsection \<open>Lines\<close>

text \<open>A rewriting of texts that works on each line separately.\<close>

locale linewise =
  fixes f :: "string \<Rightarrow> string"
  assumes across: "f (x @ newline @ y) = f x @ newline @ f y"
    and inside: "CHR 0x0A \<notin> set x \<Longrightarrow> CHR 0x0A \<notin> set (f x)"
begin

lemma f_join: "xs \<noteq> [] \<Longrightarrow> f (join newline xs) = join newline (map f xs)"
  by (induction xs) (auto simp: join_Cons across)

lemma lines_f: "lines (f s) = map f (lines s)"
proof -
  have "f s = join newline (map f (lines s))" using f_join [of "lines s"] by simp
  then show ?thesis using lines_join [of "map f (lines s)"] by (auto simp: inside lines_free)
qed

end

lemma squeeze_across: "squeeze (x @ newline @ y) = squeeze x @ newline @ squeeze y"
  unfolding squeeze_def
proof (induction is_blank x rule: squeeze_by.induct)
  case 1
  show ?case by (simp add: newline_def is_blank_def)
next
  case (2 c cs)
  have "dropWhile is_blank (cs @ newline @ y) = dropWhile is_blank cs @ newline @ y"
    by (induction cs) (auto simp: newline_def is_blank_def)
  with 2 show ?case by simp
qed

lemma squeeze_inside: "CHR 0x0A \<notin> set x \<Longrightarrow> CHR 0x0A \<notin> set (squeeze x)"
  unfolding squeeze_def
proof (induction is_blank x rule: squeeze_by.induct)
  case (2 c cs)
  then have "CHR 0x0A \<notin> set (dropWhile is_blank cs)" by (auto dest: set_dropWhileD)
  with 2 show ?case by simp
qed simp

interpretation squeezed: linewise squeeze
  by unfold_locales (simp_all add: squeeze_across squeeze_inside)

lemma replace_char: "replace_all [c] d s = concat (map (\<lambda>x. if x = c then d else [x]) s)"
  by (induction s) auto

lemma foldl_append_distrib:
  "(\<And>p s t. f (s @ t) p = f s p @ f t p) \<Longrightarrow> foldl f (s @ t) ps = foldl f s ps @ foldl f t ps"
  by (induction ps arbitrary: s t) simp_all

lemma unicode_append: "unicode_normalize (s @ t) = unicode_normalize s @ unicode_normalize t"
  unfolding unicode_normalize_def by (rule foldl_append_distrib) (auto simp: replace_char)

lemma unicode_inside: "CHR 0x0A \<notin> set x \<Longrightarrow> CHR 0x0A \<notin> set (unicode_normalize x)"
proof -
  have "CHR 0x0A \<notin> set (foldl (\<lambda>out (src, dst). replace_all [src] dst out) x ps)"
    if "CHR 0x0A \<notin> set x" and "\<forall>p \<in> set ps. CHR 0x0A \<notin> set (snd p)" for ps :: "(char \<times> string) list"
    using that by (induction ps arbitrary: x) (auto simp: replace_char)
  moreover have "\<forall>p \<in> set UNICODE_MAP. CHR 0x0A \<notin> set (snd p)" by (simp add: UNICODE_MAP_def)
  ultimately show "CHR 0x0A \<notin> set x \<Longrightarrow> CHR 0x0A \<notin> set (unicode_normalize x)"
    by (simp add: unicode_normalize_def)
qed

interpretation normalized: linewise unicode_normalize
proof
  have "unicode_normalize newline = newline"
    by code_simp
  then show "unicode_normalize (x @ newline @ y) = unicode_normalize x @ newline @ unicode_normalize y" for x y
    by (simp add: unicode_append)
qed (rule unicode_inside)

lemma trim_line_free: "CHR 0x0A \<notin> set x \<Longrightarrow> CHR 0x0A \<notin> set (trim_line x)"
  unfolding trim_line_def lstrip_def rstrip_def
  by (metis set_dropWhileD set_rev)

lemma lstrip_free: "CHR 0x0A \<notin> set x \<Longrightarrow> CHR 0x0A \<notin> set (lstrip x)"
  unfolding lstrip_def by (metis set_dropWhileD)

subsection \<open>One replacement\<close>

lemma replace_none: "count_sub p s = 0 \<Longrightarrow> replace_all p r s = s"
  by (induction p s rule: count_sub.induct) (auto split: if_splits)

lemma replace_once:
  "count_sub p s = 1 \<Longrightarrow> \<exists>pre post. s = pre @ p @ post \<and> replace_all p r s = pre @ r @ post"
proof (induction p s rule: count_sub.induct)
  case (2 p c cs)
  show ?case
  proof (cases "p \<noteq> [] \<and> prefix p (c # cs)")
    case True
    then obtain post where post: "c # cs = p @ post" by (auto simp: prefix_def)
    with True have "drop (length p - 1) cs = post" by (cases p) auto
    with 2(3) True have "replace_all p r (c # cs) = r @ post" by (simp add: replace_none)
    with post show ?thesis by (intro exI [of _ "[]"] exI [of _ post]) simp
  next
    case False
    with 2(3) have "count_sub p cs = 1" by auto
    with 2(2) False obtain pre post where "cs = pre @ p @ post" "replace_all p r cs = pre @ r @ post" by blast
    with False show ?thesis by (intro exI [of _ "c # pre"] exI [of _ post]) auto
  qed
qed simp

text \<open>Replacing a block of lines leaves what stands before and after it.\<close>

lemma join_splice:
  assumes "0 < n" and "i + n \<le> length ls"
  obtains pre post where
    "\<And>block. block \<noteq> [] \<Longrightarrow> join sep (take i ls @ block @ drop (i + n) ls) = pre @ join sep block @ post"
proof -
  define pre where "pre = (if take i ls = [] then [] else join sep (take i ls) @ sep)"
  define post where "post = (if drop (i + n) ls = [] then [] else sep @ join sep (drop (i + n) ls))"
  have "join sep (take i ls @ block @ drop (i + n) ls) = pre @ join sep block @ post" if "block \<noteq> []" for block
    using that by (simp add: pre_def post_def join_append)
  then show thesis by (rule that)
qed

lemma splice_single:
  assumes "\<not> contains crlf content"
  shows "splice_lines content ls [(i, j)] new = join newline (take i ls @ lines new @ drop j ls)"
  using assms by (simp add: splice_lines_def splice_one_def)

lemma replace_blocks_once:
  assumes "replace_blocks content n nls ok new = Some (out, 1)" and "\<not> contains crlf content"
    and "length nls = length (lines content)"
  obtains pre m post i where "content = pre @ m @ post" "out = pre @ new @ post"
    "lines m = take n (drop i (lines content))" "ok (take n (drop i nls))" "0 < n" "i + n \<le> length nls"
proof -
  let ?L = "lines content"
  from assms(1) have n: "0 < n" "n \<le> length nls" and one: "length (matching_blocks n nls ok) = 1"
    and out: "out = splice_lines content ?L (matching_blocks n nls ok) new"
    by (auto simp: replace_blocks_def Let_def split: if_splits)
  from one have "length (filter (\<lambda>i. ok (take n (drop i nls))) [0..<length nls - n + 1]) = Suc 0"
    unfolding matching_blocks_def length_map by simp
  then obtain i where i: "filter (\<lambda>i. ok (take n (drop i nls))) [0..<length nls - n + 1] = [i]"
    unfolding length_Suc_conv by blast
  have "i \<in> set (filter (\<lambda>i. ok (take n (drop i nls))) [0..<length nls - n + 1])" unfolding i by simp
  then have ok: "ok (take n (drop i nls))" and "i < length nls - n + 1"
    unfolding set_filter mem_Collect_eq set_upt by (blast, simp only: atLeastLessThan_iff)
  then have le: "i + n \<le> length nls" using n(2) by simp
  have "matching_blocks n nls ok = [(i, i + n)]" unfolding matching_blocks_def i by simp
  with out have out: "out = join newline (take i ?L @ lines new @ drop (i + n) ?L)"
    by (simp only: splice_single [OF assms(2)])
  from n(1) le assms(3) obtain pre post where parts: "\<And>block. block \<noteq> [] \<Longrightarrow>
      join newline (take i ?L @ block @ drop (i + n) ?L) = pre @ join newline block @ post"
    using join_splice [of n i ?L newline] by metis
  let ?b = "take n (drop i ?L)"
  have ne: "?b \<noteq> []" using n(1) le assms(3) by simp
  have "?L = take i ?L @ ?b @ drop (i + n) ?L" by (metis append_take_drop_id drop_drop add.commute)
  with parts [OF ne] have "content = pre @ join newline ?b @ post" by (metis join_lines)
  moreover from parts [of "lines new"] out have "out = pre @ new @ post" by simp
  moreover have "lines (join newline ?b) = ?b"
    using ne by (intro lines_join) (auto dest: in_set_takeD in_set_dropD lines_free)
  ultimately show thesis using that ok le n(1) by blast
qed

lemma take_drop_map: "take n (drop i (map f xs)) = map f (take n (drop i xs))"
  by (simp add: take_map drop_map)

text \<open>The two cases of a normalisation: of every line separately, and of the whole text.\<close>

lemma blocks_by_line:
  assumes "replace_blocks content (length (lines old)) (map f (lines content))
      (\<lambda>block. join newline block = join newline (map f (lines old))) new = Some (out, 1)"
    and "\<not> contains crlf content" and free: "\<And>x. CHR 0x0A \<notin> set x \<Longrightarrow> CHR 0x0A \<notin> set (f x)"
  shows "\<exists>pre m post. content = pre @ m @ post \<and> out = pre @ new @ post \<and> map f (lines m) = map f (lines old)"
proof -
  from assms(1,2) obtain pre m post i where m: "content = pre @ m @ post" "out = pre @ new @ post"
    "lines m = take (length (lines old)) (drop i (lines content))"
    "join newline (take (length (lines old)) (drop i (map f (lines content)))) = join newline (map f (lines old))"
    by (rule replace_blocks_once) auto
  then have "join newline (map f (lines m)) = join newline (map f (lines old))" by (simp add: take_drop_map)
  then have "map f (lines m) = map f (lines old)"
    by (rule join_inject) (auto simp: free lines_free)
  with m show ?thesis by blast
qed

lemma blocks_by_text:
  assumes "replace_blocks content (length (lines (f old))) (map f (lines content))
      (\<lambda>block. join newline block = f old) new = Some (out, 1)"
    and "\<not> contains crlf content" and "linewise f"
  shows "\<exists>pre m post. content = pre @ m @ post \<and> out = pre @ new @ post \<and> f m = f old"
proof -
  from assms(1,2) obtain pre m post i where m: "content = pre @ m @ post" "out = pre @ new @ post"
    "lines m = take (length (lines (f old))) (drop i (lines content))"
    "join newline (take (length (lines (f old))) (drop i (map f (lines content)))) = f old"
    by (rule replace_blocks_once) auto
  then have "join newline (map f (lines m)) = f old" by (simp add: take_drop_map)
  with linewise.f_join [OF assms(3), of "lines m"] have "f m = f old" by simp
  with m show ?thesis by blast
qed

subsection \<open>What an edit changes\<close>

text \<open>How the text that an edit replaces resembles the text asked for, by the strategy that found it.\<close>

definition resembles :: "string \<Rightarrow> string \<Rightarrow> string \<Rightarrow> bool" where
  "resembles name m old \<longleftrightarrow>
     name = ''exact'' \<and> m = old \<or>
     name = ''line_trimmed'' \<and> map trim_line (lines m) = map trim_line (lines old) \<or>
     name = ''whitespace_normalized'' \<and> squeeze m = squeeze old \<or>
     name = ''indentation_flexible'' \<and> map lstrip (lines m) = map lstrip (lines old) \<or>
     name = ''escape_normalized'' \<and> m = unescape old \<or>
     name = ''unicode_normalized'' \<and> unicode_normalize m = unicode_normalize old \<or>
     name = ''block_anchor'' \<and> length (lines m) = length (lines old) \<and>
       (\<forall>k \<in> {0, 1, length (lines old) - 2, length (lines old) - 1}.
          strip (lines m ! k) = strip (lines old ! k)) \<or>
     name = ''context_aware'' \<and>
       (\<exists>c. subseq c m \<and> subseq c old \<and> 0.92 * real (length m + length old) \<le> 2 * real (length c))"

lemma strategy_once:
  assumes "(name, fn) \<in> set STRATEGIES" and "fn content old new = Some (out, 1)" and "\<not> contains crlf content"
  shows "\<exists>pre m post. content = pre @ m @ post \<and> out = pre @ new @ post \<and> resembles name m old"
proof -
  have whole: "\<exists>pre m post. content = pre @ m @ post \<and> out = pre @ new @ post \<and> m = old'"
    if "out = replace_all old' new content" "count_sub old' content = 1" for old'
    using replace_once [OF that(2), of new] that(1) by blast
  consider "name = ''exact''" "fn = exact" | "name = ''line_trimmed''" "fn = line_trimmed"
    | "name = ''whitespace_normalized''" "fn = whitespace_normalized"
    | "name = ''indentation_flexible''" "fn = indentation_flexible"
    | "name = ''escape_normalized''" "fn = escape_normalized"
    | "name = ''unicode_normalized''" "fn = unicode_normalized"
    | "name = ''block_anchor''" "fn = block_anchor" | "name = ''context_aware''" "fn = context_aware"
    using assms(1) unfolding STRATEGIES_def list.set insert_iff empty_iff prod.inject
    by (elim disjE conjE FalseE) (erule (1) that)+
  then show ?thesis
  proof cases
    case 1
    with assms(2) whole [of old] show ?thesis
      by (auto simp: exact_def resembles_def split: if_splits)
  next
    case 2
    with assms(2) have "replace_blocks content (length (lines old)) (map trim_line (lines content))
        (\<lambda>block. join newline block = join newline (map trim_line (lines old))) new = Some (out, 1)"
      by (simp add: line_trimmed_def Let_def)
    from blocks_by_line [OF this assms(3) trim_line_free] 2 show ?thesis by (simp add: resembles_def)
  next
    case 3
    with assms(2) have "replace_blocks content (length (lines (squeeze old))) (map squeeze (lines content))
        (\<lambda>block. join newline block = squeeze old) new = Some (out, 1)"
      by (simp add: whitespace_normalized_def Let_def split: if_splits)
    from blocks_by_text [OF this assms(3) squeezed.linewise_axioms] 3 show ?thesis by (simp add: resembles_def)
  next
    case 4
    with assms(2) have "replace_blocks content (length (lines old)) (map lstrip (lines content))
        (\<lambda>block. join newline block = join newline (map lstrip (lines old))) new = Some (out, 1)"
      by (simp add: indentation_flexible_def Let_def)
    from blocks_by_line [OF this assms(3) lstrip_free] 4 show ?thesis by (simp add: resembles_def)
  next
    case 5
    with assms(2) whole [of "unescape old"] show ?thesis
      by (auto simp: escape_normalized_def resembles_def Let_def split: if_splits)
  next
    case 6
    with assms(2) have "replace_blocks content (length (lines (unicode_normalize old)))
        (map unicode_normalize (lines content)) (\<lambda>block. join newline block = unicode_normalize old) new = Some (out, 1)"
      by (simp add: unicode_normalized_def Let_def normalized.lines_f split: if_splits)
    from blocks_by_text [OF this assms(3) normalized.linewise_axioms] 6 show ?thesis by (simp add: resembles_def)
  next
    case 7
    let ?n = "length (lines old)"
    let ?ok = "\<lambda>block. strip (block ! 0) = strip (lines old ! 0) \<and> strip (block ! 1) = strip (lines old ! 1) \<and>
      strip (block ! (?n - 2)) = strip (lines old ! (?n - 2)) \<and> strip (block ! (?n - 1)) = strip (lines old ! (?n - 1))"
    from assms(2) 7(2) have "replace_blocks content ?n (lines content) ?ok new = Some (out, 1)"
      by (simp add: block_anchor_def Let_def split: if_splits)
    then obtain pre m post i
      where m: "content = pre @ m @ post" "out = pre @ new @ post" "lines m = take ?n (drop i (lines content))"
        "?ok (take ?n (drop i (lines content)))" "0 < ?n" "i + ?n \<le> length (lines content)"
      by (rule replace_blocks_once [OF _ assms(3) refl])
    from m(3,6) have "length (lines m) = ?n" by simp
    moreover have "?ok (lines m)" using m(4) unfolding m(3) .
    ultimately have "resembles name m old" using 7(1) by (simp add: resembles_def)
    with m(1,2) show ?thesis by blast
  next
    case 8
    with assms(2) have "replace_blocks content (length (lines old)) (lines content)
        (\<lambda>block. 0.92 \<le> ratio (join newline block) old) new = Some (out, 1)"
      by (simp add: context_aware_def)
    then obtain pre m post i
      where m: "content = pre @ m @ post" "out = pre @ new @ post"
        "lines m = take (length (lines old)) (drop i (lines content))"
        "0.92 \<le> ratio (join newline (take (length (lines old)) (drop i (lines content)))) old"
        "0 < length (lines old)" "i + length (lines old) \<le> length (lines content)"
      by (rule replace_blocks_once [OF _ assms(3) refl])
    then have "0.92 \<le> ratio m old" by (metis join_lines)
    from ratio_common [OF this] have "resembles name m old" using 8(1) by (simp add: resembles_def)
    with m(1,2) show ?thesis by blast
  qed
qed

lemma first_match_strategy:
  "first_match fns tried content old new = Some (name, out, count, tried') \<Longrightarrow>
   \<exists>fn. (name, fn) \<in> set fns \<and> fn content old new = Some (out, count)"
proof (induction fns arbitrary: tried)
  case (Cons f fns)
  then show ?case by (cases f) (auto split: option.splits prod.splits)
qed simp

lemma fuzzy_Inr:
  assumes "fuzzy_find_and_replace content old new n = Inr (out, name)"
  shows "old \<noteq> [] \<and> old \<noteq> new \<and> (\<exists>fn. (name, fn) \<in> set STRATEGIES \<and> fn content old new = Some (out, n))"
  using assms first_match_strategy [of STRATEGIES "[]" content old new name out n]
  by (auto simp: fuzzy_find_and_replace_def split: if_splits option.splits)

lemma suspect_in: "contains q p \<Longrightarrow> contains p s \<Longrightarrow> contains q s"
  unfolding contains_iff_sublist by (rule sublist_order.order_trans)

text \<open>An exact occurrence always decides.\<close>

lemma exact_decides:
  assumes "old \<noteq> []" and "old \<noteq> new" and "contains old content"
  shows "fuzzy_find_and_replace content old new n =
    (if count_sub old content = n then Inr (replace_all old new content, ''exact'')
     else Inl \<lparr>fe_message = count_message n (count_sub old content) ''exact'', fe_tried = [''exact''],
               fe_near_miss = take 200 old\<rparr>)"
proof -
  have "\<not> detect_escape_drift content old"
    using suspect_in assms(3) by (auto simp: detect_escape_drift_def)
  then show ?thesis using assms by (simp add: fuzzy_find_and_replace_def STRATEGIES_def exact_def)
qed

subsection \<open>What goes wrong\<close>

text \<open>
  In a file with CRLF line ends the lines keep their CR when the content is split, and the splice joins
  them with CRLF: every line end that the edit does not replace is doubled.
\<close>

lemma crlf_doubled:
  "fuzzy_find_and_replace (''a '' @ crlf @ ''b'' @ crlf @ ''c'') ''b '' ''d'' 1 =
     Inr (''a '' @ CHR 0x0D # crlf @ ''d'' @ crlf @ ''c'', ''line_trimmed'')"
  by code_simp

text \<open>
  Matches of the strategies on lines may overlap. The replacements are then made on top of each other:
  two are reported, and one is left.
\<close>

lemma overlapping_matches_lost:
  "fuzzy_find_and_replace (''x'' @ newline @ ''x'' @ newline @ ''x'') ('' x'' @ newline @ '' x'') ''y'' 2 =
     Inr (''y'', ''line_trimmed'')"
  by code_simp

subsection \<open>Properties\<close>

text \<open>C19. A fuzzy edit is local. When one match is expected and an edit succeeds, exactly one contiguous stretch
  of the file changes: it becomes the new text, everything before and after it is kept character by
  character, and the stretch resembles the text asked for in the way the strategy promises. Files
  with CRLF line ends are excepted, which the strategies on lines damage.\<close>

theorem edit_is_local:
  assumes "fuzzy_find_and_replace content old new 1 = Inr (out, name)" and "\<not> contains crlf content"
  shows "\<exists>pre m post. content = pre @ m @ post \<and> out = pre @ new @ post \<and> resembles name m old"
  using fuzzy_Inr [OF assms(1)] strategy_once [OF _ _ assms(2)] by blast

theorem edit_is_local_witness:
  "\<exists>pre m post. ''if x:'' @ newline @ ''  y = 1'' @ newline @ ''z'' = pre @ m @ post \<and>
     ''if x:'' @ newline @ ''  y = 2'' @ newline @ ''z'' = pre @ ''  y = 2'' @ post \<and>
     resembles ''line_trimmed'' m '' y = 1 ''"
proof -
  let ?c = "''if x:'' @ newline @ ''  y = 1'' @ newline @ ''z''"
  have "fuzzy_find_and_replace ?c '' y = 1 '' ''  y = 2'' 1 =
      Inr (''if x:'' @ newline @ ''  y = 2'' @ newline @ ''z'', ''line_trimmed'')"
    by code_simp
  moreover have "\<not> contains crlf ?c" by code_simp
  ultimately show ?thesis by (rule edit_is_local)
qed

end
