(* ===== verification/FsTools.thy ===== *)
theory FsTools
  imports FileState FuzzyMatch ToolArgs
begin

section \<open>The file tools\<close>

text \<open>
  \<open>read_file\<close>, \<open>write_file\<close> and \<open>edit\<close> of \<open>oxenclaw/tools_pkg/fs_tools.py\<close>. The disk maps directory entries,
  named by their canonical paths, to nodes, symbolic links among them; the handlers act on it and on the
  file-state registry. Of the operating system and the libraries the model takes as parameters (record
  \<open>fs_env\<close>): how paths are written, the entry a path leads to when links are followed (\<open>os_resolve\<close>) and the
  entry it names when a final link is not (\<open>os_entry\<close>), UTF-8 with the exception of a text that cannot be
  encoded, the names of temporary files, the mode of a new file, and which calls fail, with the
  text of the exception and what a failed write leaves in the file.
\<close>

subsection \<open>The disk\<close>

record file_node =
  fn_bytes :: string
  fn_mtime :: real
  fn_mode :: int

datatype node = FileNode file_node | DirNode | LinkNode string

type_synonym disk = "string \<Rightarrow> node option"

datatype fs_call =
    CallStat string | CallMkdirs string | CallWrite string | CallRead string
  | CallTemp string | CallWriteTemp string | CallReplace string string | CallUnlink string

datatype fault = Fault string string

record fs_env =
  os_path_str :: "string \<Rightarrow> string"
  os_resolve :: "disk \<Rightarrow> string \<Rightarrow> string"
  os_entry :: "disk \<Rightarrow> string \<Rightarrow> string"
  os_parents :: "disk \<Rightarrow> string \<Rightarrow> string list"
  os_decode :: "string \<Rightarrow> string option"
  os_encode :: "string \<Rightarrow> string + string"
  os_temp_name :: "disk \<Rightarrow> string \<Rightarrow> string"
  os_new_mode :: int
  os_fault :: "fs_call \<Rightarrow> disk \<Rightarrow> fault option"
  os_strftime :: "real \<Rightarrow> string"

record fs_state =
  fs_disk :: disk
  fs_registry :: file_registry

definition disk_mtime :: "disk \<Rightarrow> string \<Rightarrow> real option" where
  "disk_mtime d r = (case d r of Some (FileNode f) \<Rightarrow> Some (fn_mtime f) | _ \<Rightarrow> None)"

text \<open>
  \<open>p.exists()\<close> and \<open>p.is_file()\<close>: what stands where the path leads, or the exception of a \<open>stat\<close> that fails for
  another reason than that nothing is there. A link that leads nowhere counts as nothing.
\<close>

definition stat_node :: "fs_env \<Rightarrow> string \<Rightarrow> disk \<Rightarrow> string + node option" where
  "stat_node env r d = (case os_fault env (CallStat r) d of Some (Fault exc left) \<Rightarrow> Inl exc | None \<Rightarrow> Inr (d r))"

text \<open>\<open>open(p, "w")\<close> and a write: an existing file keeps its mode.\<close>

definition put_text :: "fs_env \<Rightarrow> real \<Rightarrow> string \<Rightarrow> string \<Rightarrow> disk \<Rightarrow> disk" where
  "put_text env mtime r bytes d =
    d(r \<mapsto> FileNode \<lparr>fn_bytes = bytes, fn_mtime = mtime,
            fn_mode = (case d r of Some (FileNode f) \<Rightarrow> fn_mode f | _ \<Rightarrow> os_new_mode env)\<rparr>)"

definition make_dirs :: "string list \<Rightarrow> disk \<Rightarrow> disk" where
  "make_dirs ps d = fold (\<lambda>q d. if d q = None then d(q \<mapsto> DirNode) else d) ps d"

subsection \<open>What the tools share\<close>

definition PATH_ALIASES :: "string list" where
  "PATH_ALIASES = [''file'', ''filepath'', ''file_path'', ''filename'', ''fileName'', ''filePath'']"

definition current_task_id :: string where
  "current_task_id = ''main''"

definition looks_binary :: "string \<Rightarrow> bool" where
  "looks_binary text =
    (if text = [] then False
     else let sample = take 1024 text;
              ctrl = length (filter (\<lambda>c. ch c < 32 \<and> c \<notin> {CHR 0x09, CHR 0x0A, CHR 0x0D, CHR 0x0C}) sample)
          in 0.05 < real ctrl / real (length sample))"

text \<open>The warning before a write; only a sibling's write gives one.\<close>

definition warning_prefix :: "fs_env \<Rightarrow> string \<Rightarrow> fs_state \<Rightarrow> string" where
  "warning_prefix env r st =
    (case check_stale (disk_mtime (fs_disk st) r) (fs_disk st r \<noteq> None) current_task_id r (fs_registry st) of
       None \<Rightarrow> []
     | Some stale \<Rightarrow>
        if sw_kind stale = SiblingWrote
        then ''[WARN: another agent wrote to this file at '' @
             (case sw_last_writer_at stale of Some t \<Rightarrow> os_strftime env t | None \<Rightarrow> ''?'') @
             ''; you may be overwriting their changes. If you'' @ [CHR 0x27] @
             ''re certain, re-read first.]'' @ newline
        else [])"

definition note_write :: "real \<Rightarrow> string \<Rightarrow> disk \<Rightarrow> fs_state \<Rightarrow> fs_state" where
  "note_write now r d st =
    \<lparr>fs_disk = d, fs_registry = register_write now (disk_mtime d r) current_task_id r None (fs_registry st)\<rparr>"

subsection \<open>read_file\<close>

record read_args =
  ra_path :: string
  ra_max_chars :: int
  ra_start_line :: int
  ra_end_line :: "int option"
  ra_with_line_numbers :: bool

text \<open>\<open>f"{i:4d}"\<close> and the box-drawing bar.\<close>

definition pad4 :: "string \<Rightarrow> string" where
  "pad4 s = replicate (4 - length s) CHR '' '' @ s"

definition number_line :: "int \<times> string \<Rightarrow> string" where
  "number_line il = pad4 (show_int (fst il)) @ CHR 0x8A # '' '' @ snd il"

definition selected_text :: "read_args \<Rightarrow> string list \<Rightarrow> string" where
  "selected_text a ls =
    (let total = int (length ls);
         start = max 1 (ra_start_line a);
         end_line = min (case ra_end_line a of Some e \<Rightarrow> e | None \<Rightarrow> total) total;
         selected = drop (nat (start - 1)) (take (nat end_line) ls);
         text = (if ra_with_line_numbers a
                 then concat (map number_line (zip (map (\<lambda>k. start + int k) [0..<length selected]) selected))
                 else concat selected)
     in if ra_max_chars a < int (length text)
        then slice_to (ra_max_chars a) text @ newline @ ''[...truncated '' @
             show_int (int (length text) - ra_max_chars a) @ '' chars]''
        else text)"

definition is_partial :: "read_args \<Rightarrow> string list \<Rightarrow> bool" where
  "is_partial a ls \<longleftrightarrow>
    1 < max 1 (ra_start_line a) \<or>
    min (case ra_end_line a of Some e \<Rightarrow> e | None \<Rightarrow> int (length ls)) (int (length ls)) < int (length ls)"

definition hex_bytes :: "string \<Rightarrow> string" where
  "hex_bytes bs = concat (map (\<lambda>c. [hex_digit (ch c div 16), hex_digit (ch c mod 16)]) bs)"

definition binary_notice :: "string \<Rightarrow> string" where
  "binary_notice raw =
    ''(binary file: '' @ show_nat (length raw) @ '' bytes, sniff='' @ hex_bytes (take 16 raw) @ '')''"

definition read_handler :: "fs_env \<Rightarrow> real \<Rightarrow> read_args \<Rightarrow> fs_state \<Rightarrow> tool_outcome \<times> fs_state" where
  "read_handler env now a st =
    (let p = os_path_str env (ra_path a); r = os_resolve env (fs_disk st) p
     in case stat_node env r (fs_disk st) of
          Inl exc \<Rightarrow> (OutRaised exc, st)
        | Inr None \<Rightarrow> (OutText (''read_file error: '' @ p @ '' does not exist''), st)
        | Inr (Some DirNode) \<Rightarrow> (OutText (''read_file error: '' @ p @ '' is not a regular file''), st)
        | Inr (Some (LinkNode t)) \<Rightarrow> (OutText (''read_file error: '' @ p @ '' does not exist''), st)
        | Inr (Some (FileNode f)) \<Rightarrow>
           (case os_fault env (CallRead r) (fs_disk st) of
              Some (Fault exc left) \<Rightarrow> (OutRaised exc, st)
            | None \<Rightarrow>
               (case os_decode env (fn_bytes f) of
                  None \<Rightarrow> (OutText (binary_notice (fn_bytes f)), st)
                | Some full_text \<Rightarrow>
                   if CHR 0x00 \<in> set full_text \<or> looks_binary full_text
                   then (OutText (binary_notice (fn_bytes f)), st)
                   else let ls = splitlines full_text
                        in (OutText (selected_text a ls),
                            st\<lparr>fs_registry := register_read now (disk_mtime (fs_disk st) r) current_task_id r None
                                 (is_partial a ls) (fs_registry st)\<rparr>))))"

subsection \<open>write_file\<close>

record write_args =
  wa_path :: string
  wa_content :: string
  wa_create_parents :: bool

text \<open>The file is opened, and so emptied, before a text that cannot be encoded raises.\<close>

definition write_handler :: "fs_env \<Rightarrow> real \<Rightarrow> real \<Rightarrow> write_args \<Rightarrow> fs_state \<Rightarrow> tool_outcome \<times> fs_state" where
  "write_handler env now mtime a st =
    (let p = os_path_str env (wa_path a);
         warning = warning_prefix env (os_resolve env (fs_disk st) p) st;
         made = (if \<not> wa_create_parents a then Inr (fs_disk st)
                 else (case os_fault env (CallMkdirs p) (fs_disk st) of
                         Some (Fault exc left) \<Rightarrow> Inl exc
                       | None \<Rightarrow> Inr (make_dirs (os_parents env (fs_disk st) p) (fs_disk st))))
     in case made of
          Inl exc \<Rightarrow> (OutText (''write_file error: '' @ exc), st)
        | Inr d \<Rightarrow>
           (let r = os_resolve env d p
            in case os_fault env (CallWrite r) d of
              Some (Fault exc left) \<Rightarrow>
                (OutText (''write_file error: '' @ exc), st\<lparr>fs_disk := put_text env mtime r left d\<rparr>)
            | None \<Rightarrow>
               (case os_encode env (wa_content a) of
                  Inl exc \<Rightarrow> (OutRaised exc, st\<lparr>fs_disk := put_text env mtime r [] d\<rparr>)
                | Inr bytes \<Rightarrow>
                   (OutText (warning @ ''wrote '' @ show_nat (length (wa_content a)) @ '' chars to '' @ p),
                    note_write now r (put_text env mtime r bytes d) st))))"

subsection \<open>edit\<close>

record edit_args =
  ea_path :: string
  ea_old_str :: string
  ea_new_str :: string
  ea_count :: int

text \<open>The clean-up of a temporary file that cannot be used.\<close>

definition drop_temp :: "fs_env \<Rightarrow> string \<Rightarrow> disk \<Rightarrow> disk" where
  "drop_temp env tmp d = (case os_fault env (CallUnlink tmp) d of None \<Rightarrow> d(tmp := None) | Some _ \<Rightarrow> d)"

text \<open>
  \<open>mkstemp\<close> creates the temporary file with mode 0600 (octal), and \<open>os.replace\<close> moves it with its mode to the
  entry that the path names. An \<open>OSError\<close> is reported, any other exception leaves the tool.
\<close>

datatype replace_outcome = Replaced | ReplaceFailed string | ReplaceRaised string

definition replace_file :: "fs_env \<Rightarrow> real \<Rightarrow> string \<Rightarrow> string \<Rightarrow> disk \<Rightarrow> replace_outcome \<times> disk" where
  "replace_file env mtime p new_text d =
    (case os_fault env (CallTemp p) d of
       Some (Fault exc left) \<Rightarrow> (ReplaceFailed exc, d)
     | None \<Rightarrow>
        (let tmp = os_temp_name env d p; target = os_entry env d p;
             file = (\<lambda>bytes. FileNode \<lparr>fn_bytes = bytes, fn_mtime = mtime, fn_mode = 384\<rparr>);
             d1 = d(tmp \<mapsto> file [])
         in case os_encode env new_text of
              Inl exc \<Rightarrow> (ReplaceRaised exc, drop_temp env tmp d1)
            | Inr bytes \<Rightarrow>
               (case os_fault env (CallWriteTemp tmp) d1 of
                  Some (Fault exc left) \<Rightarrow> (ReplaceFailed exc, drop_temp env tmp (d1(tmp \<mapsto> file left)))
                | None \<Rightarrow>
                   (let d2 = d1(tmp \<mapsto> file bytes)
                    in case os_fault env (CallReplace tmp target) d2 of
                         Some (Fault exc left) \<Rightarrow> (ReplaceFailed exc, drop_temp env tmp d2)
                       | None \<Rightarrow> (Replaced, d2(tmp := None, target := d2 tmp))))))"

definition edit_error :: "string \<Rightarrow> tool_outcome" where
  "edit_error msg = OutText (''edit error: '' @ msg)"

definition edit_handler :: "fs_env \<Rightarrow> real \<Rightarrow> real \<Rightarrow> edit_args \<Rightarrow> fs_state \<Rightarrow> tool_outcome \<times> fs_state" where
  "edit_handler env now mtime a st =
    (let p = os_path_str env (ea_path a); d = fs_disk st; r = os_resolve env d p
     in case stat_node env r d of
          Inl exc \<Rightarrow> (OutRaised exc, st)
        | Inr None \<Rightarrow> (edit_error (p @ '' does not exist''), st)
        | Inr (Some (LinkNode t)) \<Rightarrow> (edit_error (p @ '' does not exist''), st)
        | Inr (Some DirNode) \<Rightarrow> (edit_error (p @ '' is not a regular file''), st)
        | Inr (Some (FileNode f)) \<Rightarrow>
           if ea_old_str a = [] then (edit_error ''old_str must not be empty'', st)
           else if ea_old_str a = ea_new_str a
           then (edit_error (''old_str and new_str are identical '' @ [CHR 0x82] @ '' no-op refused''), st)
           else (case os_fault env (CallRead r) d of
              Some (Fault exc left) \<Rightarrow> (edit_error exc, st)
            | None \<Rightarrow>
               (case os_decode env (fn_bytes f) of
                  None \<Rightarrow> (edit_error (p @ '' is not a UTF-8 text file''), st)
                | Some text \<Rightarrow>
                   (let warning = warning_prefix env r st
                    in case fuzzy_find_and_replace text (ea_old_str a) (ea_new_str a) (nat (ea_count a)) of
                         Inl e \<Rightarrow> (edit_error (fe_message e), st)
                       | Inr (new_text, strategy) \<Rightarrow>
                          (case replace_file env mtime p new_text d of
                             (ReplaceFailed exc, d') \<Rightarrow> (edit_error exc, st\<lparr>fs_disk := d'\<rparr>)
                           | (ReplaceRaised exc, d') \<Rightarrow> (OutRaised exc, st\<lparr>fs_disk := d'\<rparr>)
                           | (Replaced, d') \<Rightarrow>
                               (OutText (warning @ ''edited '' @ p @ '': '' @ show_int (ea_count a) @
                                  '' replacement(s)''), note_write now (os_resolve env d' p) d' st))))))"

subsection \<open>Arguments and tools\<close>

text \<open>
  The input models: aliases, no unknown fields, types and bounds. \<open>as_int\<close> and \<open>as_bool\<close> are pydantic's
  coercions.
\<close>

definition int_field :: "(json \<Rightarrow> int option) \<Rightarrow> (int \<Rightarrow> bool) \<Rightarrow> int \<Rightarrow> json option \<Rightarrow> int option" where
  "int_field as_int ok def v =
    (case v of
       None \<Rightarrow> Some def
     | Some j \<Rightarrow> (case as_int j of None \<Rightarrow> None | Some n \<Rightarrow> if ok n then Some n else None))"

definition optional_int_field :: "(json \<Rightarrow> int option) \<Rightarrow> (int \<Rightarrow> bool) \<Rightarrow> json option \<Rightarrow> int option option" where
  "optional_int_field as_int ok v =
    (case v of
       None \<Rightarrow> Some None
     | Some JNull \<Rightarrow> Some None
     | Some j \<Rightarrow> (case as_int j of None \<Rightarrow> None | Some n \<Rightarrow> if ok n then Some (Some n) else None))"

definition bool_field :: "(json \<Rightarrow> bool option) \<Rightarrow> bool \<Rightarrow> json option \<Rightarrow> bool option" where
  "bool_field as_bool def v = (case v of None \<Rightarrow> Some def | Some j \<Rightarrow> as_bool j)"

definition str_field :: "json option \<Rightarrow> string option" where
  "str_field v = (case v of Some (JStr s) \<Rightarrow> Some s | _ \<Rightarrow> None)"

definition model_fields :: "(string \<times> string list) list \<Rightarrow> string list \<Rightarrow> json \<Rightarrow> (string \<times> json) list option" where
  "model_fields aliases names data =
    (case fold_aliases aliases data of
       JObj kvs \<Rightarrow> if fst ` set kvs \<subseteq> set names then Some kvs else None
     | _ \<Rightarrow> None)"

definition validate_read_args ::
  "(json \<Rightarrow> int option) \<Rightarrow> (json \<Rightarrow> bool option) \<Rightarrow> json \<Rightarrow> py_error + read_args" where
  "validate_read_args as_int as_bool data =
    (case model_fields [(''path'', PATH_ALIASES)]
            [''path'', ''max_chars'', ''start_line'', ''end_line'', ''with_line_numbers''] data of
       None \<Rightarrow> Inl ValidationError
     | Some kvs \<Rightarrow>
        (case (str_field (map_of kvs ''path''),
               int_field as_int (\<lambda>n. 0 < n \<and> n \<le> 500000) 32000 (map_of kvs ''max_chars''),
               int_field as_int (\<lambda>n. 1 \<le> n) 1 (map_of kvs ''start_line''),
               optional_int_field as_int (\<lambda>n. 1 \<le> n) (map_of kvs ''end_line''),
               bool_field as_bool True (map_of kvs ''with_line_numbers'')) of
           (Some p, Some m, Some s, Some e, Some b) \<Rightarrow>
             Inr \<lparr>ra_path = p, ra_max_chars = m, ra_start_line = s, ra_end_line = e, ra_with_line_numbers = b\<rparr>
         | _ \<Rightarrow> Inl ValidationError))"

definition validate_write_args :: "(json \<Rightarrow> bool option) \<Rightarrow> json \<Rightarrow> py_error + write_args" where
  "validate_write_args as_bool data =
    (case model_fields [(''path'', PATH_ALIASES),
              (''content'', [''text'', ''body'', ''data'', ''value'', ''source''])]
            [''path'', ''content'', ''create_parents''] data of
       None \<Rightarrow> Inl ValidationError
     | Some kvs \<Rightarrow>
        (case (str_field (map_of kvs ''path''), str_field (map_of kvs ''content''),
               bool_field as_bool True (map_of kvs ''create_parents'')) of
           (Some p, Some c, Some b) \<Rightarrow> Inr \<lparr>wa_path = p, wa_content = c, wa_create_parents = b\<rparr>
         | _ \<Rightarrow> Inl ValidationError))"

definition validate_edit_args :: "(json \<Rightarrow> int option) \<Rightarrow> json \<Rightarrow> py_error + edit_args" where
  "validate_edit_args as_int data =
    (case model_fields [(''path'', PATH_ALIASES),
              (''old_str'', [''old'', ''old_text'', ''find'', ''search'', ''from'', ''before'']),
              (''new_str'', [''new'', ''new_text'', ''replace'', ''to'', ''after'', ''replacement''])]
            [''path'', ''old_str'', ''new_str'', ''count''] data of
       None \<Rightarrow> Inl ValidationError
     | Some kvs \<Rightarrow>
        (case (str_field (map_of kvs ''path''), str_field (map_of kvs ''old_str''),
               str_field (map_of kvs ''new_str''), int_field as_int (\<lambda>n. 1 \<le> n) 1 (map_of kvs ''count'')) of
           (Some p, Some old, Some new, Some n) \<Rightarrow>
             Inr \<lparr>ea_path = p, ea_old_str = old, ea_new_str = new, ea_count = n\<rparr>
         | _ \<Rightarrow> Inl ValidationError))"

definition edit_description :: string where
  "edit_description =
    hermes_desc
      ''Targeted string-replace file editor (token-efficient). Reads the file, verifies the expected count of old_str, then replaces and atomically writes.''
      [''you need a localised change in an existing file'', ''you can quote the exact old_str so the match is unambiguous'']
      [''the file does not exist yet (use write_file)'', ''you want to replace most of the file (use write_file)'',
       ''old_str == new_str (no-op refused)'']
      [(''write_file'', ''create new or full rewrite'')]
      (''Rejects if occurrence count mismatches `count`. REQUIRES human approval before execution.'')"

text \<open>The tools; \<open>schema\<close> and the text of a validation error are pydantic's.\<close>

definition edit_tool ::
  "fs_env \<Rightarrow> (json \<Rightarrow> int option) \<Rightarrow> (json \<Rightarrow> string) \<Rightarrow> json \<Rightarrow> real \<Rightarrow> real \<Rightarrow> fs_state tool" where
  "edit_tool env as_int invalid_text schema now mtime =
    \<lparr>tl_name = ''edit'', tl_description = edit_description, tl_schema = schema,
     tl_execute = (\<lambda>args st.
       case validate_edit_args as_int args of
         Inl e \<Rightarrow> (OutRaised (invalid_text args), st)
       | Inr a \<Rightarrow> edit_handler env now mtime a st)\<rparr>"

subsection \<open>What an edit does to the disk\<close>

lemma replace_file_failed:
  assumes "replace_file env mtime p new_text d = (o', d')" and "o' \<noteq> Replaced"
  shows "q \<noteq> os_temp_name env d p \<Longrightarrow> d' q = d q"
  using assms
  by (auto simp: replace_file_def drop_temp_def Let_def split: option.splits fault.splits sum.splits)

lemma replace_file_done:
  assumes "replace_file env mtime p new_text d = (Replaced, d')" and "d (os_temp_name env d p) = None"
    and "d (os_entry env d p) \<noteq> None"
  shows "\<exists>bytes. os_encode env new_text = Inr bytes \<and>
      d' (os_entry env d p) = Some (FileNode \<lparr>fn_bytes = bytes, fn_mtime = mtime, fn_mode = 384\<rparr>)"
    and "q \<noteq> os_entry env d p \<Longrightarrow> d' q = d q"
  using assms
  by (auto simp: replace_file_def drop_temp_def Let_def split: option.splits fault.splits sum.splits)

lemma edit_cases:
  assumes "edit_handler env now mtime a st = (out, st')" and "p = os_path_str env (ea_path a)"
    and "r = os_resolve env (fs_disk st) p"
  obtains (refused) msg where "out = edit_error msg \<or> out = OutRaised msg" "st' = st"
  | (failed) msg f new_text o' where "out = edit_error msg \<or> out = OutRaised msg" "fs_disk st r = Some (FileNode f)"
      "replace_file env mtime p new_text (fs_disk st) = (o', fs_disk st')" "o' \<noteq> Replaced" "fs_registry st' = fs_registry st"
  | (edited) f body new_text name d' where "fs_disk st r = Some (FileNode f)"
      "os_decode env (fn_bytes f) = Some body"
      "fuzzy_find_and_replace body (ea_old_str a) (ea_new_str a) (nat (ea_count a)) = Inr (new_text, name)"
      "replace_file env mtime p new_text (fs_disk st) = (Replaced, d')" "st' = note_write now (os_resolve env d' p) d' st"
      "out = OutText (warning_prefix env r st @ ''edited '' @ p @ '': '' @ show_int (ea_count a) @ '' replacement(s)'')"
proof (cases "\<exists>f. stat_node env r (fs_disk st) = Inr (Some (FileNode f))")
  case False
  show thesis
  proof (cases "stat_node env r (fs_disk st)")
    case (Inl exc)
    with assms refused show thesis by (auto simp: edit_handler_def Let_def)
  next
    case (Inr n)
    with False assms refused show thesis
      by (cases n) (auto simp: edit_handler_def Let_def split: node.splits)
  qed
next
  case True
  then obtain f where stat: "stat_node env r (fs_disk st) = Inr (Some (FileNode f))" by blast
  then have node: "fs_disk st r = Some (FileNode f)" by (auto simp: stat_node_def split: option.splits fault.splits)
  show thesis
  proof (cases "ea_old_str a = [] \<or> ea_old_str a = ea_new_str a")
    case True
    with assms stat refused show thesis by (auto simp: edit_handler_def Let_def split: if_splits)
  next
    case args: False
    show thesis
    proof (cases "os_fault env (CallRead r) (fs_disk st)")
      case (Some e)
      with assms stat args refused show thesis by (cases e) (auto simp: edit_handler_def Let_def)
    next
      case readable: None
      show thesis
      proof (cases "os_decode env (fn_bytes f)")
        case None
        with assms stat args readable refused show thesis by (auto simp: edit_handler_def Let_def)
      next
        case body: (Some body)
        show thesis
        proof (cases "fuzzy_find_and_replace body (ea_old_str a) (ea_new_str a) (nat (ea_count a))")
          case (Inl e)
          with assms stat args readable body refused show thesis by (auto simp: edit_handler_def Let_def)
        next
          case fuzzy: (Inr res)
          obtain new_text name where res: "res = (new_text, name)" by (cases res)
          obtain o' d' where w: "replace_file env mtime p new_text (fs_disk st) = (o', d')" by fastforce
          note all = assms stat args readable body fuzzy res w
          show thesis
          proof (cases o')
            case Replaced
            with all node edited show thesis by (auto simp: edit_handler_def Let_def)
          next
            case (ReplaceFailed exc)
            with all have "out = edit_error exc \<and> st' = st\<lparr>fs_disk := d'\<rparr>" by (auto simp: edit_handler_def Let_def)
            with node w ReplaceFailed show thesis by (intro failed [of exc f new_text o']) simp_all
          next
            case (ReplaceRaised exc)
            with all have "out = OutRaised exc \<and> st' = st\<lparr>fs_disk := d'\<rparr>" by (auto simp: edit_handler_def Let_def)
            with node w ReplaceRaised show thesis by (intro failed [of exc f new_text o']) simp_all
          qed
        qed
      qed
    qed
  qed
qed

subsection \<open>Reading in pieces\<close>

text \<open>A file read in two windows, without line numbers and below the cap, is read whole.\<close>

lemma windows_cover:
  assumes "0 < k" and "int (length s) \<le> cap"
  shows "selected_text \<lparr>ra_path = p, ra_max_chars = cap, ra_start_line = 1, ra_end_line = Some k,
        ra_with_line_numbers = False\<rparr> (splitlines s) @
      selected_text \<lparr>ra_path = p, ra_max_chars = cap, ra_start_line = k + 1, ra_end_line = None,
        ra_with_line_numbers = False\<rparr> (splitlines s) = s"
proof -
  define ls where "ls = splitlines s"
  define total where "total = int (length ls)"
  have whole: "concat (take n ls) @ concat (drop n ls) = s" for n
    unfolding ls_def by (metis append_take_drop_id concat_append concat_splitlines)
  have "\<not> cap < int (length xs) \<and> \<not> cap < int (length ys)" if "xs @ ys = s" for xs ys
    using that assms(2) by auto
  from this [OF whole] have cap: "\<not> cap < int (length (concat (take n ls)))" "\<not> cap < int (length (concat (drop n ls)))" for n
    by blast+
  have "take (nat (min k total)) ls = take (nat k) ls" unfolding total_def by (cases "k \<le> int (length ls)") simp_all
  then have "selected_text \<lparr>ra_path = p, ra_max_chars = cap, ra_start_line = 1, ra_end_line = Some k,
      ra_with_line_numbers = False\<rparr> ls = concat (take (nat k) ls)"
    using cap by (simp add: selected_text_def Let_def total_def)
  moreover have "selected_text \<lparr>ra_path = p, ra_max_chars = cap, ra_start_line = k + 1, ra_end_line = None,
      ra_with_line_numbers = False\<rparr> ls = concat (drop (nat k) ls)"
    using cap assms(1) by (simp add: selected_text_def Let_def)
  ultimately show ?thesis using whole [of "nat k"] unfolding ls_def by simp
qed

subsection \<open>The warning that never comes\<close>

text \<open>
  Every tool registers its accesses under the same agent, so for the tools there is no sibling. In
  every history of tool calls, whatever changes the disk in between, no write or edit carries the warning.
\<close>

datatype fs_action =
    DoRead real read_args
  | DoWrite real real write_args
  | DoEdit real real edit_args
  | Outside disk

fun fs_step :: "fs_env \<Rightarrow> fs_action \<Rightarrow> fs_state \<Rightarrow> (fs_state \<times> tool_outcome list) option" where
  "fs_step env (DoRead now a) st = (let (out, st') = read_handler env now a st in Some (st', [out]))"
| "fs_step env (DoWrite now mtime a) st = (let (out, st') = write_handler env now mtime a st in Some (st', [out]))"
| "fs_step env (DoEdit now mtime a) st = (let (out, st') = edit_handler env now mtime a st in Some (st', [out]))"
| "fs_step env (Outside d) st = Some (st\<lparr>fs_disk := d\<rparr>, [])"

definition only_main :: "fs_state \<Rightarrow> bool" where
  "only_main st \<longleftrightarrow> (\<forall>r w. map_of (fr_last_writer (fs_registry st)) r = Some w \<longrightarrow> fst w = current_task_id)"

lemma only_main_note [intro]: "only_main st \<Longrightarrow> only_main (note_write now r d st)"
  by (auto simp: only_main_def note_write_def register_write_def map_of_dict_set)

lemma only_main_registry: "only_main st \<Longrightarrow> fs_registry st' = fs_registry st \<Longrightarrow> only_main st'"
  by (simp add: only_main_def)

lemma only_main_read:
  assumes "only_main st" and "read_handler env now a st = (out, st')"
  shows "only_main st'"
proof -
  have "fr_last_writer (fs_registry st') = fr_last_writer (fs_registry st)"
    using assms(2)
    by (auto simp: read_handler_def Let_def register_read_def split: option.splits sum.splits node.splits fault.splits if_splits)
  with assms(1) show ?thesis by (simp add: only_main_def)
qed

lemma only_main_write: "only_main st \<Longrightarrow> write_handler env now mtime a st = (out, st') \<Longrightarrow> only_main st'"
  by (auto simp: write_handler_def Let_def only_main_registry
      split: option.splits sum.splits fault.splits if_splits)

lemma only_main_edit:
  assumes "only_main st" and "edit_handler env now mtime a st = (out, st')"
  shows "only_main st'"
  using assms(2) refl refl
proof (cases rule: edit_cases)
  case refused
  with assms(1) show ?thesis by simp
next
  case failed
  from only_main_registry [OF assms(1) failed(5)] show ?thesis .
next
  case edited
  with assms(1) show ?thesis by auto
qed

lemma only_main_step: "only_main st \<Longrightarrow> fs_step env act st = Some (st', new) \<Longrightarrow> only_main st'"
  by (cases act) (auto split: prod.splits intro: only_main_read only_main_write only_main_edit only_main_registry)

interpretation fs_tools: trace_invariant "fs_step env" only_main "\<lambda>st0 acts os st. only_main st" for env
  by unfold_locales (auto intro: only_main_step)

lemma only_main_no_warning:
  assumes "only_main st"
  shows "warning_prefix env r st = []"
proof -
  have "sibling_warning current_task_id stamp r (map_of (fr_last_writer (fs_registry st)) r) = None" for stamp
    using assms by (auto simp: sibling_warning_def only_main_def split: option.split)
  then show ?thesis
    by (auto simp: warning_prefix_def check_stale_def drift_warning_def Let_def split: option.splits)
qed

lemma tools_never_warn:
  assumes "runs (fs_step env) \<lparr>fs_disk = d, fs_registry = file_registry_new\<rparr> acts os st"
  shows "warning_prefix env r st = []"
proof (rule only_main_no_warning)
  show "only_main st"
    by (rule fs_tools.holds [OF assms]) (simp add: only_main_def file_registry_new_def)
qed

subsection \<open>Properties\<close>

text \<open>C18. An edit is all or nothing. Whichever call fails and at whatever point, an edit either reports an error
  or raises, and leaves every entry of the disk and the registry as they were, save perhaps for its temporary
  file; or it leaves exactly the patched text of the file that the path leads to, in the entry that the path
  names, with no other entry changed. These two are the same unless the path is a symbolic link, which
  becomes a regular file while the file it led to keeps its old text. The temporary name is free,
  and a path that leads to a file names an entry.\<close>

theorem edit_all_or_nothing:
  assumes "edit_handler env now mtime a st = (out, st')" and "p = os_path_str env (ea_path a)"
    and "r = os_resolve env (fs_disk st) p" and "e = os_entry env (fs_disk st) p"
    and "fs_disk st (os_temp_name env (fs_disk st) p) = None"
    and "fs_disk st r \<noteq> None \<Longrightarrow> fs_disk st e \<noteq> None"
  shows "(\<exists>msg. (out = edit_error msg \<or> out = OutRaised msg) \<and> fs_registry st' = fs_registry st \<and>
        (\<forall>q. fs_disk st' q = fs_disk st q \<or> q = os_temp_name env (fs_disk st) p)) \<or>
    (\<exists>f f' body new_text name. fs_disk st r = Some (FileNode f) \<and> os_decode env (fn_bytes f) = Some body \<and>
        fuzzy_find_and_replace body (ea_old_str a) (ea_new_str a) (nat (ea_count a)) = Inr (new_text, name) \<and>
        fs_disk st' e = Some (FileNode f') \<and> os_encode env new_text = Inr (fn_bytes f') \<and>
        (\<forall>q. fs_disk st' q = fs_disk st q \<or> q = e))"
  using assms(1-3)
proof (cases rule: edit_cases)
  case refused
  then show ?thesis by auto
next
  case (failed exc f new_text o')
  with replace_file_failed [OF failed(3,4)] show ?thesis by blast
next
  case (edited f body new_text name d')
  have d: "fs_disk st (os_entry env (fs_disk st) p) \<noteq> None" using assms(4,6) edited(1) by auto
  obtain bytes where "os_encode env new_text = Inr bytes"
    "d' e = Some (FileNode \<lparr>fn_bytes = bytes, fn_mtime = mtime, fn_mode = 384\<rparr>)"
    using replace_file_done(1) [OF edited(4) assms(5) d] assms(4) by auto
  moreover have "d' q = fs_disk st q \<or> q = e" for q
    using replace_file_done(2) [OF edited(4) assms(5) d, of q] assms(4) by auto
  ultimately show ?thesis using edited(1-3,5) by (intro disjI2) (auto simp: note_write_def)
qed

text \<open>A small machine for the witness: plain paths and links, bytes that are their text, and a disk that may be full.\<close>

definition demo_fs_env :: "bool \<Rightarrow> fs_env" where
  "demo_fs_env full =
    \<lparr>os_path_str = id, os_resolve = (\<lambda>d p. case d p of Some (LinkNode q) \<Rightarrow> q | _ \<Rightarrow> p), os_entry = (\<lambda>d p. p),
     os_parents = (\<lambda>d p. []), os_decode = Some, os_encode = Inr, os_temp_name = (\<lambda>d p. ''tmp''), os_new_mode = 420,
     os_fault = (\<lambda>c d. if full \<and> c = CallWriteTemp ''tmp'' then Some (Fault ''no space'' []) else None),
     os_strftime = (\<lambda>t. ''now'')\<rparr>"

definition demo_disk :: fs_state where
  "demo_disk =
    \<lparr>fs_disk = [''f'' \<mapsto> FileNode \<lparr>fn_bytes = ''one two'', fn_mtime = 1, fn_mode = 493\<rparr>],
     fs_registry = file_registry_new\<rparr>"

definition demo_edit :: edit_args where
  "demo_edit = \<lparr>ea_path = ''f'', ea_old_str = ''two'', ea_new_str = ''2'', ea_count = 1\<rparr>"

lemma demo_patch: "fuzzy_find_and_replace ''one two'' ''two'' ''2'' (Suc 0) = Inr (''one 2'', ''exact'')"
  by code_simp

text \<open>An edit resets the mode of the file: it is that of the temporary file.\<close>

lemma edit_resets_mode:
  "\<exists>f. fs_disk (snd (edit_handler (demo_fs_env False) 2 2 demo_edit demo_disk)) ''f'' = Some (FileNode f) \<and>
     fn_bytes f = ''one 2'' \<and> fn_mode f = 384"
  by (simp add: edit_handler_def demo_fs_env_def demo_disk_def demo_edit_def demo_patch replace_file_def
      stat_node_def note_write_def Let_def)

text \<open>An edit through a symbolic link replaces the link; the file behind it keeps its text.\<close>

lemma edit_replaces_link:
  "\<exists>f. fs_disk (snd (edit_handler (demo_fs_env False) 2 2 (demo_edit\<lparr>ea_path := ''l''\<rparr>)
       (demo_disk\<lparr>fs_disk := (fs_disk demo_disk)(''l'' \<mapsto> LinkNode ''f'')\<rparr>))) ''l'' = Some (FileNode f) \<and>
     fn_bytes f = ''one 2''"
  "fs_disk (snd (edit_handler (demo_fs_env False) 2 2 (demo_edit\<lparr>ea_path := ''l''\<rparr>)
       (demo_disk\<lparr>fs_disk := (fs_disk demo_disk)(''l'' \<mapsto> LinkNode ''f'')\<rparr>))) ''f'' = fs_disk demo_disk ''f''"
  by (simp_all add: edit_handler_def demo_fs_env_def demo_disk_def demo_edit_def demo_patch replace_file_def
      stat_node_def note_write_def Let_def)

theorem edit_all_or_nothing_witness:
  "\<exists>out st'. edit_handler (demo_fs_env True) 2 2 demo_edit demo_disk = (out, st') \<and>
     out = edit_error ''no space'' \<and> fs_disk st' ''g'' = None"
proof -
  obtain out st' where e: "edit_handler (demo_fs_env True) 2 2 demo_edit demo_disk = (out, st')" by fastforce
  have out: "out = edit_error ''no space''"
    using e by (auto simp: edit_handler_def demo_fs_env_def demo_disk_def demo_edit_def demo_patch replace_file_def
        stat_node_def drop_temp_def Let_def)
  have paths: "''f'' = os_path_str (demo_fs_env True) (ea_path demo_edit)"
    "''f'' = os_resolve (demo_fs_env True) (fs_disk demo_disk) ''f''"
    "''f'' = os_entry (demo_fs_env True) (fs_disk demo_disk) ''f''"
    "fs_disk demo_disk (os_temp_name (demo_fs_env True) (fs_disk demo_disk) ''f'') = None"
    by (simp_all add: demo_fs_env_def demo_disk_def demo_edit_def)
  have "fs_disk st' ''g'' = fs_disk demo_disk ''g'' \<or> ''g'' = os_temp_name (demo_fs_env True) (fs_disk demo_disk) ''f'' \<or> ''g'' = ''f''"
    using edit_all_or_nothing [OF e paths] by blast
  then have "fs_disk st' ''g'' = None" by (simp add: demo_fs_env_def demo_disk_def)
  with e out show ?thesis by blast
qed

end
