(* ===== verification/MemoryRank.thy ===== *)
theory MemoryRank
  imports Texts Json "HOL-Library.Multiset"
begin

section \<open>Ranking of memories\<close>

text \<open>
  \<open>oxenclaw/memory/mmr.py\<close>, \<open>hybrid.py\<close>, \<open>temporal_decay.py\<close> and the search of \<open>retriever.py\<close>, with the
  data of \<open>models.py\<close>. The vector store, the full-text index, the embedding and the class of CJK
  letters are parameters. A float is a real; a
  modification time that is not finite is \<open>None\<close>.
\<close>

subsection \<open>Data\<close>

record memory_chunk =
  mc_id :: string
  mc_path :: string
  mc_source :: string
  mc_start_line :: int
  mc_end_line :: int
  mc_text :: string
  mc_hash :: string

record search_result =
  sr_chunk :: memory_chunk
  sr_score :: real
  sr_distance :: real

definition citation :: "search_result \<Rightarrow> string" where
  "citation r =
    mc_path (sr_chunk r) @ '':'' @ show_int (mc_start_line (sr_chunk r)) @ ''-'' @ show_int (mc_end_line (sr_chunk r))"

text \<open>\<open>sorted(items, key=score, reverse=True)\<close> keeps the order of equal scores.\<close>

definition sort_by_score :: "search_result list \<Rightarrow> search_result list" where
  "sort_by_score rs = sort_key (\<lambda>r. - sr_score r) rs"

subsection \<open>Tokens and similarity\<close>

definition token_char :: "char \<Rightarrow> bool" where
  "token_char c \<longleftrightarrow> (let n = ch c in (97 \<le> n \<and> n \<le> 122) \<or> (48 \<le> n \<and> n \<le> 57) \<or> n = 95)"

text \<open>\<open>findall\<close> of a character class with \<open>+\<close>: the maximal runs.\<close>

fun runs_acc :: "(char \<Rightarrow> bool) \<Rightarrow> string \<Rightarrow> string \<Rightarrow> string list" where
  "runs_acc P acc [] = (if acc = [] then [] else [rev acc])"
| "runs_acc P acc (c # s) =
    (if P c then runs_acc P (c # acc) s
     else if acc = [] then runs_acc P [] s else rev acc # runs_acc P [] s)"

definition find_runs :: "(char \<Rightarrow> bool) \<Rightarrow> string \<Rightarrow> string list" where
  "find_runs P s = runs_acc P [] s"

definition tokenize :: "(char \<Rightarrow> bool) \<Rightarrow> string \<Rightarrow> string list" where
  "tokenize is_cjk text =
    (let low = lower text;
         ascii_tokens = find_runs token_char low;
         cjk_data = filter (\<lambda>(c, i). is_cjk c) (zip low [0..<length low]);
         bigrams = concat (map (\<lambda>((c, i), (d, j)). if j = i + 1 then [[c, d]] else [])
                             (zip cjk_data (tl cjk_data)));
         unigrams = map (\<lambda>(c, i). [c]) cjk_data
     in remdups (ascii_tokens @ bigrams @ unigrams))"

text \<open>A set of tokens is a list without repetitions.\<close>

definition jaccard_similarity :: "string list \<Rightarrow> string list \<Rightarrow> real" where
  "jaccard_similarity a b =
    (if a = [] \<and> b = [] then 1
     else if a = [] \<or> b = [] then 0
     else let (smaller, larger) = (if length a \<le> length b then (a, b) else (b, a));
              common = length (filter (\<lambda>t. t \<in> set larger) smaller);
              all = int (length a) + int (length b) - int common
          in if all = 0 then 0 else real common / real_of_int all)"

definition text_similarity :: "(char \<Rightarrow> bool) \<Rightarrow> string \<Rightarrow> string \<Rightarrow> real" where
  "text_similarity is_cjk a b = jaccard_similarity (tokenize is_cjk a) (tokenize is_cjk b)"

definition max_similarity :: "string list \<Rightarrow> string list list \<Rightarrow> real" where
  "max_similarity candidate selected =
    foldl (\<lambda>best sel. let sim = jaccard_similarity candidate sel in if best < sim then sim else best) 0 selected"

subsection \<open>Maximal marginal relevance\<close>

record mmr_config =
  mmr_enabled :: bool
  mmr_lambda :: real

definition DEFAULT_MMR_CONFIG :: mmr_config where
  "DEFAULT_MMR_CONFIG = \<lparr>mmr_enabled = False, mmr_lambda = 0.7\<rparr>"

text \<open>The best candidate so far: its index, its objective and its score.\<close>

datatype pick = NoPick | Pick nat real real

text \<open>One pass over the candidates that are not chosen yet.\<close>

definition better_pick ::
  "real \<Rightarrow> real list \<Rightarrow> real list \<Rightarrow> (nat \<Rightarrow> bool) \<Rightarrow> (nat \<Rightarrow> real) \<Rightarrow> pick \<Rightarrow> nat \<Rightarrow> pick" where
  "better_pick lam relevance scores chosen sim best i =
    (if chosen i then best
     else let mmr = lam * relevance ! i - (1 - lam) * sim i
          in case best of
               NoPick \<Rightarrow> Pick i mmr (scores ! i)
             | Pick b best_mmr best_score \<Rightarrow>
                 if best_mmr < mmr \<or> (mmr = best_mmr \<and> best_score < scores ! i)
                 then Pick i mmr (scores ! i) else best)"

definition best_pick :: "real \<Rightarrow> real list \<Rightarrow> real list \<Rightarrow> (nat \<Rightarrow> bool) \<Rightarrow> (nat \<Rightarrow> real) \<Rightarrow> pick" where
  "best_pick lam relevance scores chosen sim =
    foldl (better_pick lam relevance scores chosen sim) NoPick [0..<length scores]"

record mmr_state =
  ms_chosen :: "bool list"
  ms_max_sim :: "real list"
  ms_order :: "nat list"

definition mmr_round :: "real \<Rightarrow> real list \<Rightarrow> real list \<Rightarrow> string list list \<Rightarrow> mmr_state \<Rightarrow> mmr_state" where
  "mmr_round lam relevance scores tokens st =
    (case best_pick lam relevance scores (\<lambda>i. ms_chosen st ! i) (\<lambda>i. ms_max_sim st ! i) of
       NoPick \<Rightarrow> st
     | Pick b m s \<Rightarrow>
        (let chosen = (ms_chosen st)[b := True]
         in \<lparr>ms_chosen = chosen,
             ms_max_sim = map (\<lambda>j. if chosen ! j then ms_max_sim st ! j
                                    else let sim = jaccard_similarity (tokens ! j) (tokens ! b)
                                         in if ms_max_sim st ! j < sim then sim else ms_max_sim st ! j)
                            [0..<length scores],
             ms_order = ms_order st @ [b]\<rparr>))"

definition relevance_of :: "real list \<Rightarrow> real list" where
  "relevance_of scores =
    (let max_score = Max (set scores); min_score = Min (set scores); score_range = max_score - min_score
     in map (\<lambda>s. if score_range = 0 then 1 else (s - min_score) / score_range) scores)"

definition mmr_order :: "real \<Rightarrow> real list \<Rightarrow> string list list \<Rightarrow> nat list" where
  "mmr_order lam scores tokens =
    (let n = length scores
     in ms_order ((mmr_round lam (relevance_of scores) scores tokens ^^ n)
          \<lparr>ms_chosen = replicate n False, ms_max_sim = replicate n 0, ms_order = []\<rparr>))"

definition mmr_rerank :: "(char \<Rightarrow> bool) \<Rightarrow> mmr_config \<Rightarrow> search_result list \<Rightarrow> search_result list" where
  "mmr_rerank is_cjk config items =
    (if \<not> mmr_enabled config \<or> length items \<le> 1 then items
     else let lam = max 0 (min 1 (mmr_lambda config))
          in if lam = 1 then sort_by_score items
             else map (\<lambda>i. items ! i)
                    (mmr_order lam (map sr_score items) (map (\<lambda>r. tokenize is_cjk (mc_text (sr_chunk r))) items)))"

subsection \<open>Hybrid search\<close>

record hybrid_config =
  hy_enabled :: bool
  hy_vector_weight :: real
  hy_text_weight :: real
  hy_candidate_multiplier :: int

definition DEFAULT_HYBRID_CONFIG :: hybrid_config where
  "DEFAULT_HYBRID_CONFIG =
    \<lparr>hy_enabled = False, hy_vector_weight = 0.7, hy_text_weight = 0.3, hy_candidate_multiplier = 3\<rparr>"

definition build_fts_query :: "string \<Rightarrow> string option" where
  "build_fts_query raw =
    (let tokens = find_runs is_word (lower raw)
     in if tokens = [] then None
        else Some (join '' AND ''
               (map (\<lambda>t. CHR 0x22 # filter (\<lambda>c. c \<noteq> CHR 0x22) t @ [CHR 0x22]) tokens)))"

text \<open>A rank that is not finite is \<open>None\<close>.\<close>

definition bm25_rank_to_score :: "real option \<Rightarrow> real" where
  "bm25_rank_to_score rank =
    (case rank of
       None \<Rightarrow> 1 / (1 + 999)
     | Some x \<Rightarrow> if x < 0 then - x / (1 + - x) else 1 / (1 + x))"

text \<open>A hit of one or both legs: the representative, its vector score and its text score.\<close>

datatype hybrid_hit = Hit search_result real real

definition add_keyword :: "(string \<times> hybrid_hit) list \<Rightarrow> search_result \<Rightarrow> (string \<times> hybrid_hit) list" where
  "add_keyword by_id r =
    (let k = mc_id (sr_chunk r)
     in dict_set k (case map_of by_id k of
                      Some (Hit e vs ts) \<Rightarrow> Hit e vs (sr_score r)
                    | None \<Rightarrow> Hit r 0 (sr_score r)) by_id)"

definition hybrid_hits :: "search_result list \<Rightarrow> search_result list \<Rightarrow> (string \<times> hybrid_hit) list" where
  "hybrid_hits vector keyword =
    foldl add_keyword
      (foldl (\<lambda>by_id r. dict_set (mc_id (sr_chunk r)) (Hit r (sr_score r) 0) by_id) [] vector) keyword"

definition combine_hit :: "hybrid_config \<Rightarrow> hybrid_hit \<Rightarrow> search_result" where
  "combine_hit config h =
    (case h of Hit e vs ts \<Rightarrow>
       \<lparr>sr_chunk = sr_chunk e, sr_score = hy_vector_weight config * vs + hy_text_weight config * ts,
        sr_distance = sr_distance e\<rparr>)"

definition merge_hybrid_results ::
  "hybrid_config \<Rightarrow> search_result list \<Rightarrow> search_result list \<Rightarrow> search_result list" where
  "merge_hybrid_results config vector keyword =
    sort_by_score (map (combine_hit config \<circ> snd) (hybrid_hits vector keyword))"

subsection \<open>Temporal decay\<close>

record decay_config =
  td_enabled :: bool
  td_half_life_days :: real

definition DEFAULT_TEMPORAL_DECAY_CONFIG :: decay_config where
  "DEFAULT_TEMPORAL_DECAY_CONFIG = \<lparr>td_enabled = False, td_half_life_days = 30\<rparr>"

definition DAY_SECONDS :: int where
  "DAY_SECONDS = 86400"

definition normalise_path :: "string \<Rightarrow> string" where
  "normalise_path relpath =
    (let p = map (\<lambda>c. if c = CHR 0x5C then CHR ''/'' else c) relpath
     in if prefix ''./'' p then drop 2 p else p)"

text \<open>The date in \<open>(?:^|/)memory/YYYY-MM-DD.md$\<close>; \<open>$\<close> also matches before a final line end.\<close>

definition dated_path :: "string \<Rightarrow> (int \<times> int \<times> int) option" where
  "dated_path s =
    (let t = (if s \<noteq> [] \<and> last s = CHR 0x0A then butlast s else s);
         pre = take (length t - 20) t; u = drop (length t - 20) t;
         y = take 4 (drop 7 u); m = take 2 (drop 12 u); d = take 2 (drop 15 u)
     in if length u = 20 \<and> (pre = [] \<or> last pre = CHR ''/'') \<and> take 7 u = ''memory/'' \<and>
           u ! 11 = CHR ''-'' \<and> u ! 14 = CHR ''-'' \<and> drop 17 u = ''.md'' \<and> list_all is_digit (y @ m @ d)
        then Some (int (nat_of_digits y), int (nat_of_digits m), int (nat_of_digits d)) else None)"

definition is_leap :: "int \<Rightarrow> bool" where
  "is_leap y \<longleftrightarrow> y mod 4 = 0 \<and> (y mod 100 \<noteq> 0 \<or> y mod 400 = 0)"

definition month_lengths :: "int \<Rightarrow> int list" where
  "month_lengths y = [31, if is_leap y then 29 else 28, 31, 30, 31, 30, 31, 31, 30, 31, 30, 31]"

text \<open>\<open>datetime(y, m, d, tzinfo=UTC).timestamp()\<close>, nothing where the date does not exist.\<close>

definition date_timestamp :: "int \<Rightarrow> int \<Rightarrow> int \<Rightarrow> int option" where
  "date_timestamp y m d =
    (if 1 \<le> y \<and> y \<le> 9999 \<and> 1 \<le> m \<and> m \<le> 12 \<and> 1 \<le> d \<and> d \<le> month_lengths y ! nat (m - 1)
     then Some (DAY_SECONDS *
       ((y - 1) * 365 + (y - 1) div 4 - (y - 1) div 100 + (y - 1) div 400 +
        sum_list (take (nat (m - 1)) (month_lengths y)) + d - 719163))
     else None)"

definition parse_memory_date_from_path :: "string \<Rightarrow> int option" where
  "parse_memory_date_from_path relpath =
    (case dated_path (normalise_path relpath) of
       None \<Rightarrow> None
     | Some (y, m, d) \<Rightarrow> date_timestamp y m d)"

definition is_evergreen_memory_path :: "string \<Rightarrow> bool" where
  "is_evergreen_memory_path relpath =
    (let p = normalise_path relpath
     in if p = ''MEMORY.md'' then True
        else if \<not> prefix ''memory/'' p then False
        else dated_path p = None)"

definition to_decay_lambda :: "real \<Rightarrow> real" where
  "to_decay_lambda half_life_days = (if half_life_days \<le> 0 then 0 else ln 2 / half_life_days)"

definition decay_multiplier :: "real \<Rightarrow> real \<Rightarrow> real" where
  "decay_multiplier age_in_days half_life_days =
    (let lam = to_decay_lambda half_life_days; clamped_age = max 0 age_in_days
     in if lam \<le> 0 then 1 else exp (- lam * clamped_age))"

definition apply_decay :: "real \<Rightarrow> real \<Rightarrow> real \<Rightarrow> real" where
  "apply_decay score age_in_days half_life_days = score * decay_multiplier age_in_days half_life_days"

definition chunk_age_days :: "string \<Rightarrow> real option \<Rightarrow> real \<Rightarrow> real option" where
  "chunk_age_days chunk_path file_mtime now =
    (case parse_memory_date_from_path chunk_path of
       Some t \<Rightarrow> Some (max 0 (now - real_of_int t) / real_of_int DAY_SECONDS)
     | None \<Rightarrow>
        if is_evergreen_memory_path chunk_path then None
        else (case file_mtime of
                None \<Rightarrow> None
              | Some mt \<Rightarrow> Some (max 0 (now - mt) / real_of_int DAY_SECONDS)))"

definition decay_result :: "(string \<Rightarrow> real option) \<Rightarrow> decay_config \<Rightarrow> real \<Rightarrow> search_result \<Rightarrow> search_result" where
  "decay_result file_mtimes config now r =
    (case chunk_age_days (mc_path (sr_chunk r)) (file_mtimes (mc_path (sr_chunk r))) now of
       None \<Rightarrow> r
     | Some age \<Rightarrow> r\<lparr>sr_score := apply_decay (sr_score r) age (td_half_life_days config)\<rparr>)"

definition apply_temporal_decay_to_results ::
  "(string \<Rightarrow> real option) \<Rightarrow> decay_config \<Rightarrow> real \<Rightarrow> search_result list \<Rightarrow> search_result list" where
  "apply_temporal_decay_to_results file_mtimes config now results =
    (if \<not> td_enabled config then results
     else sort_by_score (map (decay_result file_mtimes config now) results))"

subsection \<open>Search\<close>

text \<open>The store: hits with distances for a vector, hits with scores for a full-text query, and file times.\<close>

record 'v memory_store =
  st_search_vector :: "'v \<Rightarrow> int \<Rightarrow> string option \<Rightarrow> (memory_chunk \<times> real) list"
  st_search_fts :: "string \<Rightarrow> int \<Rightarrow> string option \<Rightarrow> (memory_chunk \<times> real) list"
  st_file_mtimes :: "string \<Rightarrow> real option"

definition enabled :: "('a \<Rightarrow> bool) \<Rightarrow> 'a option \<Rightarrow> bool" where
  "enabled P x = (case x of None \<Rightarrow> False | Some c \<Rightarrow> P c)"

definition pool_size :: "int \<Rightarrow> hybrid_config option \<Rightarrow> mmr_config option \<Rightarrow> int" where
  "pool_size k hybrid mmr =
    (if enabled hy_enabled hybrid then max (k * hy_candidate_multiplier (the hybrid)) k
     else if enabled mmr_enabled mmr then max (k * 3) (k + 5)
     else k)"

definition vector_result :: "memory_chunk \<times> real \<Rightarrow> search_result" where
  "vector_result hit = \<lparr>sr_chunk = fst hit, sr_score = max 0 (1 - snd hit), sr_distance = snd hit\<rparr>"

definition keyword_result :: "memory_chunk \<times> real \<Rightarrow> search_result" where
  "keyword_result hit = \<lparr>sr_chunk = fst hit, sr_score = snd hit, sr_distance = 0\<rparr>"

definition candidates ::
  "'v memory_store \<Rightarrow> 'v \<Rightarrow> string \<Rightarrow> int \<Rightarrow> string option \<Rightarrow> hybrid_config option \<Rightarrow> search_result list" where
  "candidates store query_vec query pool_k source hybrid =
    (let vector = map vector_result (st_search_vector store query_vec pool_k source)
     in if \<not> enabled hy_enabled hybrid then vector
        else merge_hybrid_results (the hybrid) vector
               (case build_fts_query query of
                  None \<Rightarrow> []
                | Some q \<Rightarrow> map keyword_result (st_search_fts store q pool_k source)))"

text \<open>\<open>MemoryRetriever.search\<close>; \<open>embedder\<close> gives the vectors of the query.\<close>

definition memory_search ::
  "(char \<Rightarrow> bool) \<Rightarrow> (string \<Rightarrow> 'v list) \<Rightarrow> 'v memory_store \<Rightarrow> string \<Rightarrow> int \<Rightarrow> string option \<Rightarrow>
   hybrid_config option \<Rightarrow> mmr_config option \<Rightarrow> decay_config option \<Rightarrow> real \<Rightarrow> search_result list" where
  "memory_search is_cjk embedder store query k source hybrid mmr decay now =
    (if strip query = [] then []
     else (case embedder query of
             [] \<Rightarrow> []
           | query_vec # vs \<Rightarrow>
              (let found = candidates store query_vec query (pool_size k hybrid mmr) source hybrid;
                   decayed = (if enabled td_enabled decay
                              then apply_temporal_decay_to_results (st_file_mtimes store) (the decay) now found
                              else found);
                   ranked = (if enabled mmr_enabled mmr then mmr_rerank is_cjk (the mmr) decayed else decayed)
               in slice_to k ranked)))"

subsection \<open>Greedy choice\<close>

text \<open>What a candidate adds to those already selected.\<close>

definition marginal :: "real \<Rightarrow> real list \<Rightarrow> string list list \<Rightarrow> nat list \<Rightarrow> nat \<Rightarrow> real" where
  "marginal lam relevance tokens selected i =
    lam * relevance ! i - (1 - lam) * max_similarity (tokens ! i) (map (\<lambda>j. tokens ! j) selected)"

lemma better_pick_simps:
  "better_pick lam relevance scores chosen sim NoPick i =
    (if chosen i then NoPick else Pick i (lam * relevance ! i - (1 - lam) * sim i) (scores ! i))"
  "better_pick lam relevance scores chosen sim (Pick b m s) i =
    (if \<not> chosen i \<and> (m < lam * relevance ! i - (1 - lam) * sim i \<or>
          (lam * relevance ! i - (1 - lam) * sim i = m \<and> s < scores ! i))
     then Pick i (lam * relevance ! i - (1 - lam) * sim i) (scores ! i) else Pick b m s)"
  by (simp_all add: better_pick_def Let_def)

lemma best_pick_spec:
  fixes sim :: "nat \<Rightarrow> real" and lam :: real and relevance :: "real list"
  defines "obj \<equiv> \<lambda>i. lam * relevance ! i - (1 - lam) * sim i"
  shows "case foldl (better_pick lam relevance scores chosen sim) NoPick [0..<n] of
     NoPick \<Rightarrow> \<forall>i < n. chosen i
   | Pick b m s \<Rightarrow> b < n \<and> \<not> chosen b \<and> m = obj b \<and> (\<forall>i < n. \<not> chosen i \<longrightarrow> obj i \<le> obj b)"
proof (induction n)
  case (Suc n)
  let ?best = "foldl (better_pick lam relevance scores chosen sim) NoPick [0..<n]"
  have step: "foldl (better_pick lam relevance scores chosen sim) NoPick [0..<Suc n] =
    better_pick lam relevance scores chosen sim ?best n"
    by simp
  show ?case
  proof (cases ?best)
    case NoPick
    with Suc show ?thesis unfolding step by (simp add: better_pick_simps obj_def less_Suc_eq)
  next
    case (Pick b m s)
    with Suc have b: "b < n" "\<not> chosen b" "m = obj b" "\<forall>i < n. \<not> chosen i \<longrightarrow> obj i \<le> obj b" by auto
    show ?thesis
    proof (cases "\<not> chosen n \<and> (obj b < obj n \<or> (obj n = obj b \<and> s < scores ! n))")
      case False
      with b have "better_pick lam relevance scores chosen sim (Pick b m s) n = Pick b m s"
        by (auto simp: better_pick_simps obj_def)
      with False b show ?thesis unfolding step Pick by (auto simp: less_Suc_eq)
    next
      case True
      with b have "better_pick lam relevance scores chosen sim (Pick b m s) n = Pick n (obj n) (scores ! n)"
        by (auto simp: better_pick_simps obj_def)
      with True b show ?thesis unfolding step Pick by (force simp: less_Suc_eq)
    qed
  qed
qed simp

lemma max_similarity_snoc:
  "max_similarity c (sel @ [s]) =
    (if max_similarity c sel < jaccard_similarity c s then jaccard_similarity c s else max_similarity c sel)"
  by (simp add: max_similarity_def Let_def)

definition greedy :: "real \<Rightarrow> real list \<Rightarrow> string list list \<Rightarrow> nat \<Rightarrow> nat list \<Rightarrow> bool" where
  "greedy lam relevance tokens n order \<longleftrightarrow>
     (\<forall>t < length order. \<forall>i < n. i \<notin> set (take t order) \<longrightarrow>
        marginal lam relevance tokens (take t order) i \<le> marginal lam relevance tokens (take t order) (order ! t))"

lemma greedy_snoc:
  assumes "greedy lam rel tok n order"
    and "\<forall>i < n. i \<notin> set order \<longrightarrow> marginal lam rel tok order i \<le> marginal lam rel tok order b"
  shows "greedy lam rel tok n (order @ [b])"
  using assms by (auto simp: greedy_def nth_append less_Suc_eq)

definition mmr_ok :: "real \<Rightarrow> real list \<Rightarrow> string list list \<Rightarrow> nat \<Rightarrow> nat \<Rightarrow> mmr_state \<Rightarrow> bool" where
  "mmr_ok lam rel tok n t st \<longleftrightarrow>
     length (ms_chosen st) = n \<and> length (ms_max_sim st) = n \<and> length (ms_order st) = t \<and>
     distinct (ms_order st) \<and> set (ms_order st) \<subseteq> {..<n} \<and> greedy lam rel tok n (ms_order st) \<and>
     (\<forall>i < n. ms_chosen st ! i \<longleftrightarrow> i \<in> set (ms_order st)) \<and>
     (\<forall>i < n. i \<notin> set (ms_order st) \<longrightarrow>
        ms_max_sim st ! i = max_similarity (tok ! i) (map (\<lambda>j. tok ! j) (ms_order st)))"

lemma mmr_round_ok:
  assumes ok: "mmr_ok lam rel tok n t st" and "t < n" and n: "n = length scores"
  shows "mmr_ok lam rel tok n (Suc t) (mmr_round lam rel scores tok st)"
proof -
  let ?ch = "\<lambda>i. ms_chosen st ! i" and ?sim = "\<lambda>i. ms_max_sim st ! i"
  let ?o = "ms_order st"
  note st = ok [unfolded mmr_ok_def]
  have marg: "lam * rel ! i - (1 - lam) * ?sim i = marginal lam rel tok ?o i" if "i < n" "i \<notin> set ?o" for i
    using st that by (simp add: marginal_def)
  note spec = best_pick_spec [where lam = lam and relevance = rel and scores = scores and chosen = ?ch and sim = ?sim and n = n]
  have "card (set ?o) = t" using st distinct_card [of ?o] by simp
  then have "card (set ?o) \<noteq> card {..<n}" using \<open>t < n\<close> by simp
  then have "set ?o \<noteq> {..<n}" by metis
  then have "\<exists>i < n. \<not> ?ch i" using st by blast
  with spec obtain b m s where pick: "best_pick lam rel scores ?ch ?sim = Pick b m s"
    and b: "b < n" "\<not> ?ch b"
    and best: "\<forall>i < n. \<not> ?ch i \<longrightarrow> lam * rel ! i - (1 - lam) * ?sim i \<le> lam * rel ! b - (1 - lam) * ?sim b"
    unfolding best_pick_def n by (auto split: pick.splits)
  have bo: "b \<notin> set ?o" using b st by blast
  let ?st' = "mmr_round lam rel scores tok st"
  have order: "ms_order ?st' = ?o @ [b]" and chosen: "ms_chosen ?st' = (ms_chosen st)[b := True]"
    and sims: "ms_max_sim ?st' = map (\<lambda>j. if (ms_chosen st)[b := True] ! j then ?sim j
                 else let sim = jaccard_similarity (tok ! j) (tok ! b) in if ?sim j < sim then sim else ?sim j)
               [0..<n]"
    using pick n by (simp_all add: mmr_round_def Let_def)
  have chosen_iff: "ms_chosen ?st' ! i \<longleftrightarrow> i \<in> set (?o @ [b])" if "i < n" for i
    using that st chosen by (cases "i = b") auto
  have "greedy lam rel tok n (?o @ [b])"
    using st best b(1) bo marg by (intro greedy_snoc) auto
  moreover have "ms_max_sim ?st' ! i = max_similarity (tok ! i) (map (\<lambda>j. tok ! j) (?o @ [b]))"
    if "i < n" "i \<notin> set (?o @ [b])" for i
  proof -
    have "\<not> (ms_chosen st)[b := True] ! i" using chosen_iff [OF that(1)] that(2) chosen by simp
    moreover have "?sim i = max_similarity (tok ! i) (map (\<lambda>j. tok ! j) ?o)" using st that by simp
    ultimately show ?thesis using that(1) by (simp add: sims max_similarity_snoc Let_def)
  qed
  ultimately show ?thesis
    using st order chosen sims chosen_iff b(1) bo by (simp add: mmr_ok_def)
qed

lemma mmr_rounds_ok:
  assumes "n = length scores" and "t \<le> n"
  shows "mmr_ok lam rel tok n t ((mmr_round lam rel scores tok ^^ t)
      \<lparr>ms_chosen = replicate n False, ms_max_sim = replicate n 0, ms_order = []\<rparr>)"
  using assms(2)
proof (induction t)
  case 0
  show ?case by (simp add: mmr_ok_def greedy_def max_similarity_def)
next
  case (Suc t)
  then show ?case using mmr_round_ok [OF _ _ assms(1)] by simp
qed

lemma mmr_order_ok:
  "length (mmr_order lam scores tok) = length scores \<and> distinct (mmr_order lam scores tok) \<and>
   set (mmr_order lam scores tok) = {..<length scores} \<and>
   greedy lam (relevance_of scores) tok (length scores) (mmr_order lam scores tok)"
proof -
  note ok = mmr_rounds_ok [OF refl order_refl, where lam = lam and rel = "relevance_of scores" and scores = scores and
      tok = tok, unfolded mmr_ok_def]
  then have o: "length (mmr_order lam scores tok) = length scores" "distinct (mmr_order lam scores tok)"
    "set (mmr_order lam scores tok) \<subseteq> {..<length scores}"
    "greedy lam (relevance_of scores) tok (length scores) (mmr_order lam scores tok)"
    by (simp_all add: mmr_order_def Let_def)
  then have "set (mmr_order lam scores tok) = {..<length scores}"
    by (intro card_subset_eq) (simp_all add: distinct_card)
  with o show ?thesis by simp
qed

lemma mset_mmr_order:
  assumes "length items = length scores"
  shows "mset (map (\<lambda>i. items ! i) (mmr_order lam scores tok)) = mset items"
proof -
  have "distinct (mmr_order lam scores tok)" "set (mmr_order lam scores tok) = set [0..<length items]"
    using mmr_order_ok [where lam = lam and scores = scores and tok = tok] assms
    by (simp_all add: atLeast0LessThan)
  then have "mset (mmr_order lam scores tok) = mset [0..<length items]"
    by (intro set_eq_iff_mset_eq_distinct [THEN iffD1]) simp_all
  then have "mset (map (\<lambda>i. items ! i) (mmr_order lam scores tok)) = mset (map (\<lambda>i. items ! i) [0..<length items])"
    by (simp only: mset_map)
  then show ?thesis by (simp only: map_nth)
qed

lemma mset_mmr_rerank: "mset (mmr_rerank is_cjk config items) = mset items"
  using mset_mmr_order [of items "map sr_score items"]
  by (simp add: mmr_rerank_def sort_by_score_def Let_def)

subsection \<open>Half-lives\<close>

lemma decay_half:
  assumes "0 < h"
  shows "decay_multiplier h h = 1 / 2"
  using assms
  by (simp add: decay_multiplier_def to_decay_lambda_def Let_def divide_le_0_iff exp_minus)

lemma decay_bounds: "0 < decay_multiplier age h \<and> decay_multiplier age h \<le> 1"
proof (cases "h \<le> 0")
  case True
  then show ?thesis by (simp add: decay_multiplier_def to_decay_lambda_def)
next
  case False
  then have "0 < ln 2 / h" by simp
  then show ?thesis
    using False by (simp add: decay_multiplier_def to_decay_lambda_def Let_def)
qed

lemma decay_antimono:
  assumes "age \<le> age'"
  shows "decay_multiplier age' h \<le> decay_multiplier age h"
proof (cases "h \<le> 0")
  case True
  then show ?thesis by (simp add: decay_multiplier_def to_decay_lambda_def)
next
  case False
  then have "0 \<le> ln 2 / h" by simp
  then have "(ln 2 / h) * max 0 age \<le> (ln 2 / h) * max 0 age'" using assms by (intro mult_left_mono) simp_all
  then show ?thesis using False by (simp add: decay_multiplier_def to_decay_lambda_def Let_def)
qed

subsection \<open>Merged hits\<close>

abbreviation id_of :: "search_result \<Rightarrow> string" where
  "id_of r \<equiv> mc_id (sr_chunk r)"

definition find_id :: "string \<Rightarrow> search_result list \<Rightarrow> search_result option" where
  "find_id k rs = List.find (\<lambda>r. id_of r = k) rs"

text \<open>The score that a leg gives a chunk; a chunk it did not find scores nothing.\<close>

definition score_in :: "string \<Rightarrow> search_result list \<Rightarrow> real" where
  "score_in k rs = (case find_id k rs of None \<Rightarrow> 0 | Some r \<Rightarrow> sr_score r)"

lemma find_id_snoc:
  "id_of r \<notin> id_of ` set rs \<Longrightarrow> find_id k (rs @ [r]) = (if k = id_of r then Some r else find_id k rs)"
  by (induction rs) (auto simp: find_id_def)

lemma find_id_None: "find_id k rs = None \<longleftrightarrow> k \<notin> id_of ` set rs"
  by (auto simp: find_id_def find_None_iff)

lemma vector_hits:
  "distinct (map id_of vector) \<Longrightarrow>
   map_of (foldl (\<lambda>by_id r. dict_set (id_of r) (Hit r (sr_score r) 0) by_id) [] vector) k =
     map_option (\<lambda>r. Hit r (sr_score r) 0) (find_id k vector)"
proof (induction vector rule: rev_induct)
  case (snoc r vector)
  then show ?case by (simp add: map_of_dict_set find_id_snoc)
qed (simp add: find_id_def)

lemma add_keyword_map:
  "map_of (add_keyword d r) k =
    (if k = id_of r
     then Some (case map_of d k of Some (Hit e vs ts) \<Rightarrow> Hit e vs (sr_score r) | None \<Rightarrow> Hit r 0 (sr_score r))
     else map_of d k)"
  by (simp add: add_keyword_def Let_def map_of_dict_set)

lemma keyword_hits:
  assumes "distinct (map id_of keyword)" and "\<And>k. map_of start k = map_option (\<lambda>r. Hit r (sr_score r) 0) (find_id k vector)"
  shows "map_of (foldl add_keyword start keyword) k =
    (case find_id k vector of
       Some r \<Rightarrow> Some (Hit r (sr_score r) (score_in k keyword))
     | None \<Rightarrow> map_option (\<lambda>r. Hit r 0 (sr_score r)) (find_id k keyword))"
  using assms(1)
proof (induction keyword arbitrary: k rule: rev_induct)
  case Nil
  then show ?case using assms(2) by (simp add: find_id_def score_in_def split: option.split)
next
  case (snoc r keyword)
  then have new: "id_of r \<notin> id_of ` set keyword" and IH: "\<And>k. map_of (foldl add_keyword start keyword) k =
    (case find_id k vector of
       Some r \<Rightarrow> Some (Hit r (sr_score r) (score_in k keyword))
     | None \<Rightarrow> map_option (\<lambda>r. Hit r 0 (sr_score r)) (find_id k keyword))"
    by auto
  from new have "find_id (id_of r) keyword = None" by (simp add: find_id_None)
  then show ?case
    using IH find_id_snoc [OF new]
    by (simp add: add_keyword_map score_in_def split: option.split)
qed

lemma distinct_keys_foldl:
  assumes "\<And>d r. distinct (map fst d) \<Longrightarrow> distinct (map fst (f d r))" and "distinct (map fst d)"
  shows "distinct (map fst (foldl f d rs))"
  using assms(2) by (induction rs arbitrary: d) (simp_all add: assms(1))

lemma distinct_hits: "distinct (map fst (hybrid_hits vector keyword))"
  unfolding hybrid_hits_def
  by (intro distinct_keys_foldl) (simp_all add: add_keyword_def Let_def distinct_dict_set)

lemma hybrid_hits_map:
  assumes "distinct (map id_of vector)" and "distinct (map id_of keyword)"
  shows "map_of (hybrid_hits vector keyword) k =
    (case find_id k vector of
       Some r \<Rightarrow> Some (Hit r (sr_score r) (score_in k keyword))
     | None \<Rightarrow> map_option (\<lambda>r. Hit r 0 (sr_score r)) (find_id k keyword))"
  unfolding hybrid_hits_def by (rule keyword_hits [OF assms(2) vector_hits [OF assms(1)]])

lemma find_id_id: "find_id k rs = Some r \<Longrightarrow> id_of r = k \<and> r \<in> set rs"
  by (auto simp: find_id_def find_Some_iff)

lemma hybrid_hit:
  assumes "distinct (map id_of vector)" and "distinct (map id_of keyword)" and "(k, h) \<in> set (hybrid_hits vector keyword)"
  shows "id_of (combine_hit config h) = k \<and>
    sr_score (combine_hit config h) =
      hy_vector_weight config * score_in k vector + hy_text_weight config * score_in k keyword"
proof -
  have "map_of (hybrid_hits vector keyword) k = Some h" using distinct_hits assms(3) by simp
  then show ?thesis
    unfolding hybrid_hits_map [OF assms(1,2)]
    by (auto simp: combine_hit_def score_in_def split: option.splits dest: find_id_id)
qed

lemma hybrid_ids:
  assumes "distinct (map id_of vector)" and "distinct (map id_of keyword)"
  shows "fst ` set (hybrid_hits vector keyword) = id_of ` set vector \<union> id_of ` set keyword"
proof -
  have "k \<in> fst ` set (hybrid_hits vector keyword) \<longleftrightarrow> map_of (hybrid_hits vector keyword) k \<noteq> None" for k
    by (simp add: map_of_eq_None_iff)
  moreover have "map_of (hybrid_hits vector keyword) k = None \<longleftrightarrow> k \<notin> id_of ` set vector \<and> k \<notin> id_of ` set keyword" for k
    unfolding hybrid_hits_map [OF assms] by (simp split: option.split flip: find_id_None)
  ultimately show ?thesis by (intro set_eqI) (simp only: Un_iff, blast)
qed

lemma sorted_by_score: "sorted_wrt (\<lambda>r r'. sr_score r' \<le> sr_score r) (sort_by_score rs)"
proof -
  have "sorted (map (\<lambda>r. - sr_score r) (sort_by_score rs))" by (simp add: sort_by_score_def)
  then show ?thesis by (simp add: sorted_map)
qed

subsection \<open>Properties\<close>

text \<open>C32. The diversity re-ranking is the greedy one. The incremental algorithm, which keeps the largest
  similarity of every candidate up to date, orders all items, each once, and each next item has the
  largest marginal relevance among those left: relevance against the largest similarity to the items
  already selected, computed from scratch.\<close>

theorem mmr_is_greedy:
  assumes "order = mmr_order lam scores tokens"
  shows "distinct order \<and> set order = {..<length scores} \<and>
    (\<forall>t < length scores. \<forall>i < length scores. i \<notin> set (take t order) \<longrightarrow>
       marginal lam (relevance_of scores) tokens (take t order) i \<le>
       marginal lam (relevance_of scores) tokens (take t order) (order ! t))"
  using mmr_order_ok [where lam = lam and scores = scores and tok = tokens] assms
  by (simp add: greedy_def)

theorem mmr_is_greedy_witness:
  "\<exists>order. mmr_order (1/2) [1, 0] [[''a''], [''b'']] = order \<and> distinct order \<and> set order = {..<2}"
  using mmr_is_greedy [OF refl, where lam = "1/2" and scores = "[1, 0]" and tokens = "[[''a''], [''b'']]"]
  by simp

text \<open>The hybrid merge loses no hit and repeats none: it returns exactly the chunks that the vector search
  or the keyword search found, each once, scored with the weighted sum of what the two searches gave
  it, best first.\<close>

lemma hybrid_merges_each_once:
  assumes "distinct (map id_of vector)" and "distinct (map id_of keyword)"
  shows "id_of ` set (merge_hybrid_results config vector keyword) = id_of ` set vector \<union> id_of ` set keyword \<and>
    distinct (map id_of (merge_hybrid_results config vector keyword)) \<and>
    (\<forall>r \<in> set (merge_hybrid_results config vector keyword). sr_score r =
       hy_vector_weight config * score_in (id_of r) vector + hy_text_weight config * score_in (id_of r) keyword) \<and>
    sorted_wrt (\<lambda>r r'. sr_score r' \<le> sr_score r) (merge_hybrid_results config vector keyword)"
proof -
  let ?h = "hybrid_hits vector keyword" and ?m = "merge_hybrid_results config vector keyword"
  have hit: "id_of (combine_hit config (snd x)) = fst x" "sr_score (combine_hit config (snd x)) =
      hy_vector_weight config * score_in (fst x) vector + hy_text_weight config * score_in (fst x) keyword"
    if "x \<in> set ?h" for x
    using hybrid_hit [OF assms, of "fst x" "snd x" config] that by simp_all
  have set_m: "set ?m = (combine_hit config \<circ> snd) ` set ?h" by (simp add: merge_hybrid_results_def sort_by_score_def)
  have "map (id_of \<circ> (combine_hit config \<circ> snd)) ?h = map fst ?h" using hit(1) by simp
  then have "distinct (map (id_of \<circ> (combine_hit config \<circ> snd)) ?h)" by (metis distinct_hits)
  then have "distinct (map id_of (map (combine_hit config \<circ> snd) ?h))" by simp
  moreover have "mset (map id_of ?m) = mset (map id_of (map (combine_hit config \<circ> snd) ?h))"
    by (simp only: mset_map merge_hybrid_results_def sort_by_score_def mset_sort)
  ultimately have "distinct (map id_of ?m)" using mset_eq_imp_distinct_iff by blast
  moreover have "id_of ` set ?m = fst ` set ?h" using hit(1) by (force simp: set_m)
  moreover have "\<forall>r \<in> set ?m. sr_score r =
      hy_vector_weight config * score_in (id_of r) vector + hy_text_weight config * score_in (id_of r) keyword"
    using hit by (simp add: set_m)
  ultimately show ?thesis using hybrid_ids [OF assms] sorted_by_score by (simp add: merge_hybrid_results_def)
qed

definition demo_hit :: "string \<Rightarrow> real \<Rightarrow> search_result" where
  "demo_hit i s =
    \<lparr>sr_chunk = \<lparr>mc_id = i, mc_path = ''p'', mc_source = ''memory'', mc_start_line = 1, mc_end_line = 1,
       mc_text = [], mc_hash = []\<rparr>, sr_score = s, sr_distance = 0\<rparr>"

end
