(* ===== verification/Inbox.thy ===== *)
theory Inbox
  imports MemoryRank
begin

section \<open>The memory inbox\<close>

text \<open>
  \<open>oxenclaw/memory/inbox.py\<close> and the saving of \<open>retriever.py\<close>: the Markdown file of saved facts, its parser,
  the removal of a section and the replacement of duplicates. The file is its text, or \<open>None\<close> where it
  does not exist; reading it translates its line ends (\<open>universal_newlines\<close>), writing does not; the redaction, the time stamp and the semantic search are parameters. The
  abstraction is the list of facts (time, tags, body) that the file holds.
\<close>

subsection \<open>Headings and tags\<close>

text \<open>\<open>^##\s+(.+?)\s*$\<close> on one line: the group, stripped.\<close>

definition heading_of :: "string \<Rightarrow> string option" where
  "heading_of ln' =
    (if \<not> prefix ''##'' ln' then None
     else let r = drop 2 ln'; b = lstrip r
          in if b \<noteq> [] then (if b \<noteq> r then Some (strip b) else None)
             else if 2 \<le> length r then Some [] else None)"

text \<open>\<open>^\*\*tags:\*\*\s*(.+?)\s*$\<close> on one line: the group, up to white space around it.\<close>

definition tag_line_of :: "string \<Rightarrow> string option" where
  "tag_line_of ln' =
    (if \<not> prefix ''**tags:**'' ln' then None
     else let r = drop 9 ln' in if r = [] then None else Some (strip r))"

definition split_tags :: "string \<Rightarrow> string list" where
  "split_tags grp = filter (\<lambda>t. t \<noteq> []) (map strip (split_on (CHR '','') grp))"

subsection \<open>Appending\<close>

text \<open>\<open>redact\<close> is the redaction of the level in force, if there is one.\<close>

definition append_block :: "string \<Rightarrow> string list \<Rightarrow> string \<Rightarrow> string" where
  "append_block stamp tags body =
    join newline
      ([[], ''## '' @ stamp, []] @ (if tags = [] then [] else [''**tags:** '' @ join '', '' tags, []]) @
       [rstrip body, []])"

definition append_to_inbox ::
  "(string \<Rightarrow> string) option \<Rightarrow> string \<Rightarrow> string \<Rightarrow> string list \<Rightarrow> string option \<Rightarrow> string" where
  "append_to_inbox redact stamp body tags file =
    (let body' = (case redact of None \<Rightarrow> body | Some f \<Rightarrow> f body);
         existing = (case file of None \<Rightarrow> [] | Some s \<Rightarrow> universal_newlines s)
     in existing @ append_block stamp tags body')"

subsection \<open>Parsing\<close>

record inbox_entry =
  ie_when :: string
  ie_body :: string
  ie_tags :: "string list"
  ie_start_line :: int
  ie_end_line :: int

record inbox_scan =
  is_entries :: "inbox_entry list"
  is_start :: int
  is_when :: string
  is_tags :: "string list"
  is_body :: "string list"
  is_last_nonblank :: int

definition scan_start :: inbox_scan where
  "scan_start =
    \<lparr>is_entries = [], is_start = -1, is_when = [], is_tags = [], is_body = [], is_last_nonblank = -1\<rparr>"

definition flush_section :: "inbox_scan \<Rightarrow> inbox_scan" where
  "flush_section st =
    (if is_start st < 0 then st
     else let body = strip (join newline (is_body st));
              end_line = (if 0 \<le> is_last_nonblank st then is_last_nonblank st else is_start st) + 1;
              entry = \<lparr>ie_when = is_when st, ie_body = body, ie_tags = is_tags st,
                       ie_start_line = is_start st + 1, ie_end_line = end_line\<rparr>
          in \<lparr>is_entries = is_entries st @ (if body \<noteq> [] \<or> is_tags st \<noteq> [] then [entry] else []),
              is_start = -1, is_when = [], is_tags = [], is_body = [], is_last_nonblank = -1\<rparr>)"

definition scan_line :: "nat \<times> string \<Rightarrow> inbox_scan \<Rightarrow> inbox_scan" where
  "scan_line il st =
    (let (i, ln') = il
     in case heading_of ln' of
          Some h \<Rightarrow>
            (flush_section st)\<lparr>is_start := int i, is_when := h, is_tags := [], is_body := [],
                               is_last_nonblank := int i\<rparr>
        | None \<Rightarrow>
           if is_start st < 0 then st
           else (case (if list_all blank (is_body st) then tag_line_of ln' else None) of
                   Some grp \<Rightarrow> st\<lparr>is_tags := split_tags grp, is_body := [], is_last_nonblank := int i\<rparr>
                 | None \<Rightarrow>
                     st\<lparr>is_body := is_body st @ [ln'],
                        is_last_nonblank := (if blank ln' then is_last_nonblank st else int i)\<rparr>))"

definition parse_lines :: "string list \<Rightarrow> inbox_entry list" where
  "parse_lines ls = is_entries (flush_section (fold scan_line (enumerate 0 ls) scan_start))"

definition parse_inbox :: "string option \<Rightarrow> inbox_entry list" where
  "parse_inbox file =
    (case file of
       None \<Rightarrow> []
     | Some raw \<Rightarrow> let body = universal_newlines raw in if blank body then [] else parse_lines (lines body))"

subsection \<open>Removing\<close>

definition remove_inbox_entry :: "string option \<Rightarrow> inbox_entry \<Rightarrow> bool \<times> string option" where
  "remove_inbox_entry file entry =
    (case file of
       None \<Rightarrow> (False, None)
     | Some body \<Rightarrow>
        (let ls = lines (universal_newlines body); s = ie_start_line entry; e = ie_end_line entry
         in if s < 1 \<or> e < s \<or> int (length ls) < s then (False, file)
            else let drop_end = nat (min e (int (length ls)))
                 in (True, Some (join newline (take (nat (s - 1)) ls @ dropWhile blank (drop drop_end ls))))))"

definition TRIM_TRAILING :: string where
  "TRIM_TRAILING = ''.,!?'' @ [CHR 0x8E, CHR 0x8F, CHR 0x90, CHR 0x91] @ '' '' @ [CHR 0x09, CHR 0x0A]"

definition strip_set :: "string \<Rightarrow> string \<Rightarrow> string" where
  "strip_set cs s = rev (dropWhile (\<lambda>c. c \<in> set cs) (rev (dropWhile (\<lambda>c. c \<in> set cs) s)))"

definition normalize_for_dedup :: "string \<Rightarrow> string" where
  "normalize_for_dedup body = strip (strip_set TRIM_TRAILING (squeeze_by is_space (lower (strip body))))"

subsection \<open>Saving\<close>

definition merge_tags :: "string list \<Rightarrow> string list \<Rightarrow> string list" where
  "merge_tags old new = from_keys (filter (\<lambda>t. t \<noteq> []) (map strip (old @ new)))"

text \<open>
  \<open>_find_duplicate_entry\<close>: an entry with the same normal form, else the entry that covers the best hit of
  the semantic search, if that hit is good enough and in the inbox. \<open>hits\<close> is nothing where no
  embedding is ready.
\<close>

definition find_duplicate_entry ::
  "string \<Rightarrow> search_result list option \<Rightarrow> real \<Rightarrow> string \<Rightarrow> string option \<Rightarrow> inbox_entry option" where
  "find_duplicate_entry inbox_name hits threshold body file =
    (let entries = parse_inbox file; norm_new = normalize_for_dedup body
     in case (if norm_new = [] then None
              else List.find (\<lambda>e. normalize_for_dedup (ie_body e) = norm_new) entries) of
          Some e \<Rightarrow> Some e
        | None \<Rightarrow>
           (case hits of
              Some (best # others) \<Rightarrow>
                if sr_score best < threshold \<or> mc_path (sr_chunk best) \<noteq> inbox_name then None
                else List.find (\<lambda>e. ie_start_line e \<le> mc_start_line (sr_chunk best) \<and>
                                    mc_end_line (sr_chunk best) \<le> ie_end_line e) entries
            | _ \<Rightarrow> None))"

definition memory_save ::
  "(string \<Rightarrow> string) option \<Rightarrow> string \<Rightarrow> search_result list option \<Rightarrow> real \<Rightarrow> bool \<Rightarrow> string \<Rightarrow> string \<Rightarrow>
   string list \<Rightarrow> string option \<Rightarrow> bool \<times> string" where
  "memory_save redact inbox_name hits threshold dedup stamp body tags file =
    (case (if dedup \<and> strip body \<noteq> [] then find_duplicate_entry inbox_name hits threshold body file else None) of
       None \<Rightarrow> (False, append_to_inbox redact stamp body tags file)
     | Some existing \<Rightarrow>
        (let (replaced, file') = remove_inbox_entry file existing
         in (replaced, append_to_inbox redact stamp body (merge_tags (ie_tags existing) tags) file')))"

subsection \<open>Stripped texts\<close>

definition trimmed :: "string \<Rightarrow> bool" where
  "trimmed s \<longleftrightarrow> s \<noteq> [] \<and> \<not> is_space (hd s) \<and> \<not> is_space (last s)"

lemma rstrip_trimmed: "s \<noteq> [] \<Longrightarrow> \<not> is_space (last s) \<Longrightarrow> rstrip s = s"
  by (cases s rule: rev_cases) (simp_all add: rstrip_def)

lemma lstrip_trimmed: "s \<noteq> [] \<Longrightarrow> \<not> is_space (hd s) \<Longrightarrow> lstrip s = s"
  by (cases s) (simp_all add: lstrip_def)

lemma strip_trimmed: "trimmed s \<Longrightarrow> strip s = s"
  by (simp add: trimmed_def strip_def rstrip_trimmed lstrip_trimmed)

lemma trimmed_strip: "strip s \<noteq> [] \<Longrightarrow> trimmed (strip s)"
proof -
  assume ne: "strip s \<noteq> []"
  define t where "t = lstrip s"
  have t: "t \<noteq> []" using ne unfolding strip_def t_def by (auto simp: rstrip_def)
  then have hd: "\<not> is_space (hd t)" unfolding t_def lstrip_def using hd_dropWhile by blast
  have ne': "dropWhile is_space (rev t) \<noteq> []" using ne unfolding strip_def t_def [symmetric] rstrip_def by simp
  have "hd (rstrip t) = hd t"
  proof -
    have "rev (takeWhile is_space (rev t) @ dropWhile is_space (rev t)) = t" by simp
    then have "t = rstrip t @ rev (takeWhile is_space (rev t))" unfolding rstrip_def rev_append by simp
    moreover have "rstrip t \<noteq> []" using ne' by (simp add: rstrip_def)
    ultimately show ?thesis by (metis hd_append2)
  qed
  moreover have "\<not> is_space (last (rstrip t))"
    using hd_dropWhile [OF ne'] by (simp add: rstrip_def last_rev)
  ultimately show ?thesis using ne hd by (simp add: trimmed_def strip_def t_def)
qed

lemma strip_strip [simp]: "strip (strip s) = strip s"
  using trimmed_strip [of s] strip_trimmed by (cases "strip s = []") auto

lemma lstrip_blank_append: "blank x \<Longrightarrow> lstrip (x @ s) = lstrip s"
  by (simp add: lstrip_def blank_def list_all_iff dropWhile_append)

lemma rstrip_append_blank: "blank x \<Longrightarrow> rstrip (s @ x) = rstrip s"
  by (simp add: rstrip_def blank_def list_all_iff dropWhile_append)

lemma rstrip_rstrip: "rstrip (rstrip s) = rstrip s"
  by (simp add: rstrip_def)

lemma strip_rstrip: "strip (rstrip s) = strip s"
proof -
  have "\<exists>x. s = rstrip s @ x \<and> blank x"
  proof (intro exI conjI)
    show "s = rstrip s @ rev (takeWhile is_space (rev s))"
      by (metis rev_append rev_rev_ident rstrip_def takeWhile_dropWhile_id)
    show "blank (rev (takeWhile is_space (rev s)))"
      by (auto simp: blank_def list_all_iff dest: set_takeWhileD)
  qed
  then obtain x where x: "s = rstrip s @ x" "blank x" by blast
  show ?thesis
  proof (cases "blank (rstrip s)")
    case True
    then have "blank s" using x by (metis blank_def list_all_append)
    with True show ?thesis by (metis strip_eq_Nil_iff)
  next
    case False
    then have "lstrip (rstrip s @ x) = lstrip (rstrip s) @ x"
      by (auto simp: lstrip_def blank_def list_all_iff dropWhile_append)
    with x(1) have "strip s = rstrip (lstrip (rstrip s) @ x)" by (metis strip_def)
    then show ?thesis using x(2) by (simp add: rstrip_append_blank strip_def)
  qed
qed

lemma blank_newline: "blank newline"
  by (simp add: blank_def newline_def is_space_def)

lemma strip_between_newlines: "strip (newline @ s @ newline) = strip s"
proof -
  have "strip (newline @ s @ newline) = strip (rstrip ((newline @ s) @ newline))" by (simp add: strip_rstrip)
  also have "\<dots> = strip (newline @ s)" by (simp only: rstrip_append_blank [OF blank_newline] strip_rstrip)
  also have "\<dots> = strip s" by (simp add: strip_def lstrip_blank_append [OF blank_newline])
  finally show ?thesis .
qed

subsection \<open>Sections\<close>

text \<open>
  A file is a preamble and its sections, each a heading and the lines up to the next one. The parser
  works section by section.
\<close>

datatype inbox_section = Section string "string list"

primrec section_lines :: "inbox_section \<Rightarrow> string list" where
  "section_lines (Section h cs) = h # cs"

definition headless :: "string list \<Rightarrow> bool" where
  "headless ls \<longleftrightarrow> list_all (\<lambda>l. heading_of l = None) ls"

primrec section_ok :: "inbox_section \<Rightarrow> bool" where
  "section_ok (Section h cs) \<longleftrightarrow> heading_of h \<noteq> None \<and> headless cs"

definition all_lines :: "inbox_section list \<Rightarrow> string list" where
  "all_lines segs = concat (map section_lines segs)"

lemma sections_exist: "\<exists>pre segs. ls = pre @ all_lines segs \<and> headless pre \<and> list_all section_ok segs"
proof (induction ls)
  case Nil
  show ?case by (intro exI [of _ "[]"]) (simp add: all_lines_def headless_def)
next
  case (Cons l ls)
  then obtain pre segs where IH: "ls = pre @ all_lines segs" "headless pre" "list_all section_ok segs" by blast
  show ?case
  proof (cases "heading_of l")
    case None
    with IH show ?thesis by (intro exI [of _ "l # pre"] exI [of _ segs]) (simp add: headless_def)
  next
    case (Some w)
    with IH show ?thesis
      by (intro exI [of _ "[]"] exI [of _ "Section l pre # segs"]) (simp add: headless_def all_lines_def)
  qed
qed

fun section_step :: "string \<Rightarrow> string list \<times> string list \<Rightarrow> string list \<times> string list" where
  "section_step l (tags, body) =
    (case (if list_all blank body then tag_line_of l else None) of
       Some grp \<Rightarrow> (split_tags grp, []) | None \<Rightarrow> (tags, body @ [l]))"

definition section_scan :: "string list \<Rightarrow> string list \<times> string list" where
  "section_scan cs = fold section_step cs ([], [])"

text \<open>The number of lines up to the last one that is not blank.\<close>

definition used_lines :: "string list \<Rightarrow> nat" where
  "used_lines cs = length (dropWhile blank (rev cs))"

lemma used_lines_Cons:
  "used_lines (l # cs) = (if used_lines cs = 0 then (if blank l then 0 else 1) else Suc (used_lines cs))"
  by (auto simp: used_lines_def dropWhile_append)

lemma used_lines_le: "used_lines cs \<le> length cs"
  unfolding used_lines_def using length_dropWhile_le [of blank "rev cs"] by simp

lemma drop_used_blank: "list_all blank (drop (used_lines cs) cs)"
proof -
  have "cs = rev (dropWhile blank (rev cs)) @ rev (takeWhile blank (rev cs))"
    by (metis rev_append rev_rev_ident takeWhile_dropWhile_id)
  then have "drop (used_lines cs) cs = rev (takeWhile blank (rev cs))"
    by (metis append_eq_conv_conj length_rev used_lines_def)
  then show ?thesis by (auto simp: list_all_iff dest: set_takeWhileD)
qed

lemma prefix_not_blank: "prefix p l \<Longrightarrow> p \<noteq> [] \<Longrightarrow> \<not> is_space (hd p) \<Longrightarrow> \<not> blank l"
  by (cases p) (auto simp: prefix_def blank_def)

lemma heading_not_blank: "heading_of l = Some w \<Longrightarrow> \<not> blank l"
  by (rule prefix_not_blank [of "''##''"]) (auto simp: heading_of_def is_space_def split: if_splits)

lemma tag_line_not_blank: "tag_line_of l = Some w \<Longrightarrow> \<not> blank l"
  by (rule prefix_not_blank [of "''**tags:**''"]) (auto simp: tag_line_of_def is_space_def split: if_splits)

lemma scan_content:
  assumes "headless cs" and "0 \<le> is_start st"
  shows "fold scan_line (enumerate i cs) st =
    st\<lparr>is_tags := fst (fold section_step cs (is_tags st, is_body st)),
       is_body := snd (fold section_step cs (is_tags st, is_body st)),
       is_last_nonblank := (if used_lines cs = 0 then is_last_nonblank st else int (i + used_lines cs) - 1)\<rparr>"
  using assms
proof (induction cs arbitrary: i st)
  case Nil
  then show ?case by (simp add: used_lines_def)
next
  case (Cons l cs)
  let ?st = "scan_line (i, l) st"
  have l: "heading_of l = None" and cs: "headless cs" using Cons.prems(1) by (simp_all add: headless_def)
  have st: "?st = (case (if list_all blank (is_body st) then tag_line_of l else None) of
      Some grp \<Rightarrow> st\<lparr>is_tags := split_tags grp, is_body := [], is_last_nonblank := int i\<rparr>
    | None \<Rightarrow> st\<lparr>is_body := is_body st @ [l],
                is_last_nonblank := (if blank l then is_last_nonblank st else int i)\<rparr>)"
    using l Cons.prems(2) by (simp add: scan_line_def)
  have start: "is_start ?st = is_start st"
    and tags: "(is_tags ?st, is_body ?st) = section_step l (is_tags st, is_body st)"
    and last: "is_last_nonblank ?st = (if blank l then is_last_nonblank st else int i)"
    using tag_line_not_blank [of l] by (auto simp: st split: option.splits if_splits)
  have frame: "?st\<lparr>is_tags := t, is_body := b, is_last_nonblank := n\<rparr> =
      st\<lparr>is_tags := t, is_body := b, is_last_nonblank := n\<rparr>" for t b n
    by (simp add: st split: option.split)
  have "fold scan_line (enumerate i (l # cs)) st = fold scan_line (enumerate (Suc i) cs) ?st" by simp
  also have "\<dots> = ?st\<lparr>is_tags := fst (fold section_step cs (is_tags ?st, is_body ?st)),
       is_body := snd (fold section_step cs (is_tags ?st, is_body ?st)),
       is_last_nonblank := (if used_lines cs = 0 then is_last_nonblank ?st else int (Suc i + used_lines cs) - 1)\<rparr>"
    using Cons.IH [OF cs, of ?st "Suc i"] start Cons.prems(2) by simp
  also have "\<dots> = st\<lparr>is_tags := fst (fold section_step (l # cs) (is_tags st, is_body st)),
       is_body := snd (fold section_step (l # cs) (is_tags st, is_body st)),
       is_last_nonblank := (if used_lines (l # cs) = 0 then is_last_nonblank st
                            else int (i + used_lines (l # cs)) - 1)\<rparr>"
    unfolding frame tags last by (simp add: used_lines_Cons)
  finally show ?case .
qed

definition section_entry :: "nat \<Rightarrow> string \<Rightarrow> string list \<Rightarrow> inbox_entry list" where
  "section_entry i h cs =
    (let (tags, body) = section_scan cs
     in if strip (join newline body) \<noteq> [] \<or> tags \<noteq> []
        then [\<lparr>ie_when = the (heading_of h), ie_body = strip (join newline body), ie_tags = tags,
               ie_start_line = int i + 1, ie_end_line = int i + int (used_lines cs) + 1\<rparr>]
        else [])"

fun entries_from :: "nat \<Rightarrow> inbox_section list \<Rightarrow> inbox_entry list" where
  "entries_from i [] = []"
| "entries_from i (Section h cs # segs) = section_entry i h cs @ entries_from (Suc i + length cs) segs"

lemma flush_section_scan:
  assumes "heading_of h \<noteq> None" and "headless cs"
  shows "is_entries (flush_section (fold scan_line (enumerate i (h # cs)) st)) =
    is_entries (flush_section st) @ section_entry i h cs"
proof -
  let ?st = "scan_line (i, h) st"
  from assms(1) obtain w where w: "heading_of h = Some w" by blast
  then have st: "?st = (flush_section st)\<lparr>is_start := int i, is_when := w, is_tags := [], is_body := [],
      is_last_nonblank := int i\<rparr>"
    by (simp add: scan_line_def)
  have "fold scan_line (enumerate i (h # cs)) st = fold scan_line (enumerate (Suc i) cs) ?st" by simp
  also have "\<dots> = ?st\<lparr>is_tags := fst (section_scan cs), is_body := snd (section_scan cs),
      is_last_nonblank := int (i + used_lines cs)\<rparr>"
    using scan_content [OF assms(2), of ?st "Suc i"] by (simp add: st section_scan_def)
  finally show ?thesis
    by (simp add: flush_section_def st section_entry_def w Let_def split: prod.split)
qed

lemma scan_sections:
  "list_all section_ok segs \<Longrightarrow>
   is_entries (flush_section (fold scan_line (enumerate i (all_lines segs)) st)) =
     is_entries (flush_section st) @ entries_from i segs"
proof (induction segs arbitrary: i st)
  case (Cons seg segs)
  obtain h cs where seg: "seg = Section h cs" by (cases seg)
  have "fold scan_line (enumerate i (all_lines (seg # segs))) st =
      fold scan_line (enumerate (Suc i + length cs) (all_lines segs)) (fold scan_line (enumerate i (h # cs)) st)"
    unfolding seg all_lines_def list.map concat.simps section_lines.simps enumerate_append_eq fold_append
    by (simp del: enumerate_simps)
  with Cons flush_section_scan [of h cs i st] show ?case by (simp add: seg del: enumerate_simps)
qed (simp add: all_lines_def)

lemma scan_preamble: "headless pre \<Longrightarrow> is_start st < 0 \<Longrightarrow> fold scan_line (enumerate i pre) st = st"
  by (induction pre arbitrary: i) (simp_all add: headless_def scan_line_def)

lemma parse_sections:
  assumes "headless pre" and "list_all section_ok segs"
  shows "parse_lines (pre @ all_lines segs) = entries_from (length pre) segs"
proof -
  have "is_entries (flush_section scan_start) = []" by (simp add: flush_section_def scan_start_def)
  with scan_sections [OF assms(2), of "length pre" scan_start] scan_preamble [OF assms(1), of scan_start 0]
  show ?thesis by (simp add: parse_lines_def enumerate_append_eq scan_start_def)
qed

lemma blank_lines:
  assumes "blank s"
  shows "list_all blank (lines s)"
  using assms set_split_on [of _ "CHR 0x0A" s] by (auto simp: lines_def blank_def list_all_iff)

lemma parse_inbox_Some: "parse_inbox (Some s) = parse_lines (lines (universal_newlines s))"
proof (cases "blank (universal_newlines s)")
  case True
  then have "headless (lines (universal_newlines s))"
    using blank_lines heading_not_blank unfolding headless_def list_all_iff
    by (metis not_None_eq)
  with parse_sections [of "lines (universal_newlines s)" "[]"] True show ?thesis
    by (simp add: parse_inbox_def all_lines_def)
qed (simp add: parse_inbox_def)

lemma parse_inbox_read: "CHR 0x0D \<notin> set s \<Longrightarrow> parse_inbox (Some s) = parse_lines (lines s)"
  by (simp add: parse_inbox_Some universal_newlines_id)

lemma lines_read_free: "x \<in> set (lines (universal_newlines s)) \<Longrightarrow> CHR 0x0D \<notin> set x"
  using set_split_on [of x "CHR 0x0A" "universal_newlines s"] universal_newlines_free [of s] by (auto simp: lines_def)

lemma join_free: "c \<notin> set newline \<Longrightarrow> \<forall>x \<in> set xs. c \<notin> set x \<Longrightarrow> c \<notin> set (join newline xs)"
  by (induction xs) (auto simp: join_Cons)

subsection \<open>The facts of a file\<close>

datatype fact = Fact string "string list" string

primrec fact_body :: "fact \<Rightarrow> string" where
  "fact_body (Fact stamp tags body) = body"

definition fact_of :: "inbox_entry \<Rightarrow> fact" where
  "fact_of e = Fact (ie_when e) (ie_tags e) (ie_body e)"

definition facts :: "string option \<Rightarrow> fact list" where
  "facts file = map fact_of (parse_inbox file)"

lemma entries_from_append:
  "entries_from i (segs @ segs') = entries_from i segs @ entries_from (i + length (all_lines segs)) segs'"
proof (induction segs arbitrary: i)
  case (Cons seg segs)
  then show ?case by (cases seg) (simp add: all_lines_def add.assoc)
qed (simp add: all_lines_def)

lemma section_entry_facts: "map fact_of (section_entry i h cs) = map fact_of (section_entry j h cs)"
  by (simp add: section_entry_def fact_of_def split: prod.split)

lemma entries_from_facts: "map fact_of (entries_from i segs) = map fact_of (entries_from j segs)"
proof (induction segs arbitrary: i j)
  case (Cons seg segs)
  show ?case
  proof (cases seg)
    case (Section h cs)
    with Cons [of "Suc i + length cs" "Suc j + length cs"] section_entry_facts [of i h cs j] show ?thesis by simp
  qed
qed simp

lemma all_lines_append [simp]: "all_lines (segs @ segs') = all_lines segs @ all_lines segs'"
  by (simp add: all_lines_def)

lemma entry_section:
  assumes "e \<in> set (entries_from i segs)"
  shows "\<exists>s1 h cs s2. segs = s1 @ Section h cs # s2 \<and> section_entry (i + length (all_lines s1)) h cs = [e]"
  using assms
proof (induction segs arbitrary: i)
  case (Cons seg segs)
  show ?case
  proof (cases seg)
    case seg: (Section h cs)
    show ?thesis
    proof (cases "e \<in> set (section_entry i h cs)")
      case True
      then have "section_entry i h cs = [e]" by (auto simp: section_entry_def split: prod.splits if_splits)
      with seg show ?thesis
        by (intro exI [of _ "[]"] exI [of _ h] exI [of _ cs] exI [of _ segs]) (simp add: all_lines_def)
    next
      case False
      with Cons.prems seg have "e \<in> set (entries_from (Suc i + length cs) segs)" by simp
      from Cons.IH [OF this] obtain s1 h' cs' s2 where "segs = s1 @ Section h' cs' # s2"
        "section_entry (Suc i + length cs + length (all_lines s1)) h' cs' = [e]"
        by blast
      with seg show ?thesis
        by (intro exI [of _ "seg # s1"] exI [of _ h'] exI [of _ cs'] exI [of _ s2])
          (simp add: all_lines_def add.assoc)
    qed
  qed
qed simp

lemma sections_start: "list_all section_ok segs \<Longrightarrow> dropWhile blank (all_lines segs) = all_lines segs"
proof (cases segs)
  case (Cons seg segs')
  then show "list_all section_ok segs \<Longrightarrow> ?thesis"
    by (cases seg) (auto simp: all_lines_def dest: heading_not_blank)
qed (simp add: all_lines_def)

text \<open>Removing an entry removes its fact, and nothing else.\<close>

lemma remove_entry:
  assumes "e \<in> set (parse_inbox file)"
  obtains f1 f2 file' where "facts file = f1 @ fact_of e # f2"
    "remove_inbox_entry file e = (True, Some file')" "facts (Some file') = f1 @ f2"
proof -
  from assms obtain s where fl: "file = Some s" by (cases "file") (auto simp: parse_inbox_def)
  define t where "t = universal_newlines s"
  obtain pre segs where ls: "lines t = pre @ all_lines segs" "headless pre" "list_all section_ok segs"
    using sections_exist by blast
  have parse: "parse_inbox file = entries_from (length pre) segs"
    using parse_sections [OF ls(2,3)] by (simp add: fl parse_inbox_Some ls(1) t_def [symmetric])
  from entry_section [OF assms [unfolded parse]] obtain s1 h cs s2 where seg: "segs = s1 @ Section h cs # s2"
    and e: "section_entry (length pre + length (all_lines s1)) h cs = [e]"
    by blast
  let ?A = "pre @ all_lines s1" and ?B = "all_lines s2"
  have all: "lines t = ?A @ h # cs @ ?B" by (simp add: ls(1) seg all_lines_def)
  have range: "ie_start_line e = int (length ?A) + 1"
    "ie_end_line e = int (length ?A) + int (used_lines cs) + 1"
    using e by (auto simp: section_entry_def split: prod.splits if_splits)
  have drop: "drop (nat (min (ie_end_line e) (int (length (lines t))))) (lines t) = drop (used_lines cs) cs @ ?B"
  proof -
    have "nat (min (ie_end_line e) (int (length (lines t)))) = length ?A + Suc (used_lines cs)"
      using used_lines_le [of cs] unfolding range all by simp
    then show ?thesis using used_lines_le [of cs] unfolding all by simp
  qed
  have "list_all section_ok s2" "list_all section_ok s1" using ls(3) by (simp_all add: seg)
  then have "dropWhile blank (drop (used_lines cs) cs @ ?B) = ?B"
    using drop_used_blank [of cs] sections_start [of s2] by (simp add: dropWhile_append list_all_iff)
  moreover have "take (nat (ie_start_line e - 1)) (lines t) = ?A" unfolding range all by simp
  moreover have "\<not> (ie_start_line e < 1 \<or> ie_end_line e < ie_start_line e \<or> int (length (lines t)) < ie_start_line e)"
    unfolding range all by simp
  ultimately have rm: "remove_inbox_entry file e = (True, Some (join newline (?A @ ?B)))"
    unfolding remove_inbox_entry_def fl option.case Let_def t_def [symmetric] drop by simp
  have "facts (Some (join newline (?A @ ?B))) = map fact_of (entries_from (length pre) (s1 @ s2))"
  proof (cases "?A @ ?B = []")
    case True
    then have "s1 = []" "s2 = []" by (auto simp: all_lines_def) (metis list.exhaust list.set_intros(1) inbox_section.exhaust list.distinct(1) section_lines.simps)+
    with True show ?thesis by (simp add: facts_def parse_inbox_def blank_def)
  next
    case False
    have "\<forall>x \<in> set (?A @ ?B). CHR 0x0A \<notin> set x"
      using lines_free [of _ t] by (auto simp: all)
    from lines_join [OF False this] have "lines (join newline (?A @ ?B)) = pre @ all_lines (s1 @ s2)" by simp
    moreover have "list_all section_ok (s1 @ s2)" using ls(3) by (simp add: seg)
    note parse_sections [OF ls(2) this]
    moreover have "\<forall>x \<in> set (?A @ ?B). CHR 0x0D \<notin> set x"
      using lines_read_free [of _ s] all by (auto simp: t_def)
    then have "CHR 0x0D \<notin> set (join newline (?A @ ?B))" by (intro join_free) (simp_all add: newline_def)
    note parse_inbox_read [OF this]
    ultimately show ?thesis by (simp only: facts_def)
  qed
  also have "\<dots> = map fact_of (entries_from (length pre) s1) @ map fact_of (entries_from (length pre + length (all_lines s1)) s2)"
    by (simp add: entries_from_append)
  finally have rest: "facts (Some (join newline (?A @ ?B))) =
      map fact_of (entries_from (length pre) s1) @ map fact_of (entries_from (length pre + length (all_lines s1)) s2)" .
  have "facts file = map fact_of (entries_from (length pre) s1) @ fact_of e #
      map fact_of (entries_from (Suc (length pre + length (all_lines s1)) + length cs) s2)"
    by (simp add: facts_def parse seg entries_from_append e)
  with rm rest show thesis
    using that entries_from_facts [of "Suc (length pre + length (all_lines s1)) + length cs" s2
        "length pre + length (all_lines s1)"]
    by metis
qed

subsection \<open>Appending a fact\<close>

definition clean_stamp :: "string \<Rightarrow> bool" where
  "clean_stamp s \<longleftrightarrow> trimmed s \<and> CHR 0x0A \<notin> set s \<and> CHR 0x0D \<notin> set s"

definition clean_tag :: "string \<Rightarrow> bool" where
  "clean_tag t \<longleftrightarrow> trimmed t \<and> CHR '','' \<notin> set t \<and> CHR 0x0A \<notin> set t \<and> CHR 0x0D \<notin> set t"

text \<open>A body that does not look like structure: no line of it is a heading or a line of tags, nor has it a carriage return.\<close>

definition clean_body :: "string \<Rightarrow> bool" where
  "clean_body s \<longleftrightarrow> CHR 0x0D \<notin> set s \<and> list_all (\<lambda>l. heading_of l = None \<and> tag_line_of l = None) (lines (rstrip s))"

lemma lstrip_space: "trimmed t \<Longrightarrow> lstrip (CHR '' '' # t) = t"
  using lstrip_trimmed [of t] by (simp add: trimmed_def lstrip_def is_space_def)

lemma heading_stamp:
  assumes "clean_stamp stamp"
  shows "heading_of (''## '' @ stamp) = Some stamp"
proof -
  from assms have t: "trimmed stamp" by (simp add: clean_stamp_def)
  then have "stamp \<noteq> []" by (simp add: trimmed_def)
  then show ?thesis unfolding heading_of_def Let_def by (simp add: lstrip_space [OF t] strip_trimmed [OF t])
qed

lemma lines_join_any:
  "xs \<noteq> [] \<Longrightarrow> lines (join newline xs) = concat (map lines xs)"
  by (induction xs) (auto simp: join_Cons lines_def newline_def split_on_append)

lemma lines_one: "CHR 0x0A \<notin> set s \<Longrightarrow> lines s = [s]"
  by (simp add: lines_def split_on_whole)

lemma join_tags_ends:
  "tags \<noteq> [] \<Longrightarrow> list_all clean_tag tags \<Longrightarrow> trimmed (join '', '' tags) \<and> CHR 0x0A \<notin> set (join '', '' tags) \<and> CHR 0x0D \<notin> set (join '', '' tags)"
proof (induction tags)
  case (Cons t tags)
  then show ?case
    by (cases "tags = []") (auto simp: join_Cons clean_tag_def trimmed_def)
qed simp

lemma split_join_tags:
  "tags \<noteq> [] \<Longrightarrow> list_all clean_tag tags \<Longrightarrow>
   split_on (CHR '','') (join '', '' tags) = hd tags # map (\<lambda>t. CHR '' '' # t) (tl tags)"
proof (induction tags)
  case (Cons t tags)
  show ?case
  proof (cases "tags = []")
    case True
    with Cons.prems show ?thesis by (simp add: clean_tag_def split_on_whole)
  next
    case False
    with Cons obtain u us where us: "tags = u # us" by (cases tags) auto
    have "split_on (CHR '','') (CHR '' '' # join '', '' tags) = (CHR '' '' # u) # map (\<lambda>t. CHR '' '' # t) us"
      using Cons.IH [OF False] Cons.prems us by simp
    with Cons.prems False us show ?thesis
      by (simp add: join_Cons split_on_append split_on_whole clean_tag_def del: split_on.simps)
  qed
qed simp

lemma strip_space: "trimmed t \<Longrightarrow> strip (CHR '' '' # t) = t"
  using strip_trimmed [of t] by (simp add: strip_def lstrip_def is_space_def)

lemma split_tags_join:
  assumes "tags \<noteq> []" and "list_all clean_tag tags"
  shows "tag_line_of (''**tags:** '' @ join '', '' tags) = Some (join '', '' tags)"
    and "split_tags (join '', '' tags) = tags"
proof -
  from join_tags_ends [OF assms] show "tag_line_of (''**tags:** '' @ join '', '' tags) = Some (join '', '' tags)"
    by (simp add: tag_line_of_def strip_space)
  have "map strip (hd tags # map (\<lambda>t. CHR '' '' # t) (tl tags)) = tags"
    using assms by (cases tags) (auto simp: clean_tag_def strip_trimmed strip_space list_all_iff map_idI)
  moreover have "\<forall>t \<in> set tags. t \<noteq> []" using assms(2) by (auto simp: clean_tag_def trimmed_def list_all_iff)
  ultimately show "split_tags (join '', '' tags) = tags"
    unfolding split_tags_def split_join_tags [OF assms] by (simp only: filter_True)
qed

lemma body_scan: "list_all (\<lambda>l. tag_line_of l = None) cs \<Longrightarrow> fold section_step cs (tags, body) = (tags, body @ cs)"
  by (induction cs arbitrary: body) simp_all

lemma set_rstrip: "set (rstrip s) \<subseteq> set s"
  unfolding rstrip_def by (auto dest: set_dropWhileD)

lemma append_fact:
  assumes "clean_stamp stamp" and "list_all clean_tag tags" and "clean_body body" and "strip body \<noteq> [] \<or> tags \<noteq> []"
  shows "facts (Some (append_to_inbox None stamp body tags file)) = facts file @ [Fact stamp tags (strip body)]"
proof -
  define existing where "existing = (case file of None \<Rightarrow> [] | Some s \<Rightarrow> universal_newlines s)"
  define tagpart where "tagpart = (if tags = [] then [] else [''**tags:** '' @ join '', '' tags, []])"
  let ?cs = "[[]] @ tagpart @ lines (rstrip body) @ [[]]"
  have tag_lines: "concat (map lines tagpart) = tagpart"
    using join_tags_ends [OF _ assms(2)] by (auto simp: tagpart_def lines_one)
  have "append_block stamp tags body = newline @ join newline ((''## '' @ stamp) # [[]] @ tagpart @ [rstrip body, []])"
    by (simp add: append_block_def tagpart_def join_Cons)
  then have "lines (existing @ append_block stamp tags body) =
      lines existing @ lines (join newline ((''## '' @ stamp) # [[]] @ tagpart @ [rstrip body, []]))"
    by (simp add: lines_def newline_def split_on_append)
  also have "lines (join newline ((''## '' @ stamp) # [[]] @ tagpart @ [rstrip body, []])) =
      concat (map lines ((''## '' @ stamp) # [[]] @ tagpart @ [rstrip body, []]))"
    by (rule lines_join_any) simp
  also have "\<dots> = (''## '' @ stamp) # ?cs"
    using assms(1) tag_lines by (simp add: lines_one clean_stamp_def)
  finally have ls: "lines (append_to_inbox None stamp body tags file) = lines existing @ (''## '' @ stamp) # ?cs"
    by (simp add: append_to_inbox_def existing_def)
  obtain pre segs where ex: "lines existing = pre @ all_lines segs" "headless pre" "list_all section_ok segs"
    using sections_exist by blast
  have fl: "facts file = map fact_of (entries_from (length pre) segs)"
  proof (cases "file")
    case None
    with ex have "entries_from (length pre) segs = parse_inbox (Some [])"
      using parse_sections [OF ex(2,3)] by (simp add: parse_inbox_Some existing_def)
    with None show ?thesis by (simp add: facts_def parse_inbox_def blank_def)
  next
    case (Some s)
    with parse_sections [OF ex(2,3)] ex(1) show ?thesis by (simp add: facts_def parse_inbox_Some existing_def)
  qed
  have cr: "CHR 0x0D \<notin> set (append_to_inbox None stamp body tags file)"
  proof -
    have "CHR 0x0D \<notin> set existing" using universal_newlines_free by (simp add: existing_def split: option.split)
    moreover have "CHR 0x0D \<notin> set (append_block stamp tags body)"
      unfolding append_block_def
      using assms(1,3) set_rstrip [of body] join_tags_ends [OF _ assms(2)]
      by (intro join_free) (auto simp: clean_stamp_def clean_body_def newline_def)
    ultimately show ?thesis by (simp add: append_to_inbox_def existing_def)
  qed
  have plain: "heading_of [] = None" "tag_line_of [] = None" by (simp_all add: heading_of_def tag_line_of_def)
  have "headless tagpart" by (simp add: tagpart_def headless_def heading_of_def)
  then have headless: "headless ?cs"
    using assms(3) plain by (auto simp: headless_def clean_body_def list_all_iff)
  have scan: "section_scan ?cs = (tags, [[]] @ lines (rstrip body) @ [[]])"
  proof (cases "tags = []")
    case True
    then show ?thesis
      using body_scan [of ?cs "[]" "[]"] assms(3) plain
      by (auto simp: section_scan_def tagpart_def clean_body_def list_all_iff)
  next
    case False
    then have "section_scan ?cs = fold section_step (lines (rstrip body) @ [[]]) (tags, [[]])"
      using split_tags_join [OF False assms(2)] plain
      by (simp add: section_scan_def tagpart_def blank_def)
    then show ?thesis
      using body_scan [of "lines (rstrip body) @ [[]]" tags "[[]]"] assms(3) plain
      by (auto simp: clean_body_def list_all_iff)
  qed
  have "join newline ([[]] @ lines (rstrip body) @ [[]]) = newline @ rstrip body @ newline"
    by (simp add: join_Cons join_append)
  then have body: "strip (join newline ([[]] @ lines (rstrip body) @ [[]])) = strip body"
    by (simp only: strip_between_newlines strip_rstrip)
  have "list_all section_ok (segs @ [Section (''## '' @ stamp) ?cs])"
    using ex(3) headless heading_stamp [OF assms(1)] by simp
  from parse_sections [OF ex(2) this]
  have "parse_lines (lines (append_to_inbox None stamp body tags file)) =
      entries_from (length pre) segs @ section_entry (length pre + length (all_lines segs)) (''## '' @ stamp) ?cs"
    unfolding ls by (simp add: ex(1) all_lines_def entries_from_append)
  moreover have "map fact_of (section_entry i (''## '' @ stamp) ?cs) = [Fact stamp tags (strip body)]" for i
    unfolding section_entry_def scan Let_def prod.case body
    using assms(4) heading_stamp [OF assms(1)] by (simp add: fact_of_def)
  ultimately have "facts (Some (append_to_inbox None stamp body tags file)) =
      map fact_of (entries_from (length pre) segs) @ [Fact stamp tags (strip body)]"
    unfolding facts_def parse_inbox_read [OF cr] by (simp only: map_append)
  then show ?thesis unfolding fl .
qed

subsection \<open>Saving a fact\<close>

lemma set_strip: "set (strip s) \<subseteq> set s"
proof -
  have drop: "set (dropWhile is_space t) \<subseteq> set t" for t by (auto dest: set_dropWhileD)
  show ?thesis
    unfolding strip_def rstrip_def lstrip_def using drop [of "rev (dropWhile is_space s)"] drop [of s] by auto
qed

lemma split_tags_clean: "CHR 0x0A \<notin> set s \<Longrightarrow> CHR 0x0D \<notin> set s \<Longrightarrow> list_all clean_tag (split_tags s)"
proof -
  assume s: "CHR 0x0A \<notin> set s" "CHR 0x0D \<notin> set s"
  have "clean_tag (strip x)" if "x \<in> set (split_on (CHR '','') s)" "strip x \<noteq> []" for x
    using that s set_strip [of x] set_split_on [OF that(1)] split_on_free [OF that(1)] trimmed_strip [OF that(2)]
    by (auto simp: clean_tag_def)
  then show ?thesis by (auto simp: split_tags_def list_all_iff)
qed

lemma section_step_clean:
  "CHR 0x0A \<notin> set l \<Longrightarrow> CHR 0x0D \<notin> set l \<Longrightarrow> list_all clean_tag tags \<Longrightarrow> list_all clean_tag (fst (section_step l (tags, body)))"
proof -
  assume l: "CHR 0x0A \<notin> set l" "CHR 0x0D \<notin> set l" and tags: "list_all clean_tag tags"
  have "list_all clean_tag (split_tags g)" if "tag_line_of l = Some g" for g
  proof (rule split_tags_clean)
    show "CHR 0x0A \<notin> set g" "CHR 0x0D \<notin> set g"
      using that l set_strip [of "drop 9 l"] by (auto simp: tag_line_of_def Let_def split: if_splits dest: in_set_dropD)
  qed
  with tags show ?thesis by (simp split: option.split)
qed

lemma section_scan_clean:
  "\<forall>l \<in> set cs. CHR 0x0A \<notin> set l \<and> CHR 0x0D \<notin> set l \<Longrightarrow> list_all clean_tag tags \<Longrightarrow> list_all clean_tag (fst (fold section_step cs (tags, body)))"
proof (induction cs arbitrary: tags body)
  case (Cons l cs)
  obtain t b where s: "section_step l (tags, body) = (t, b)" by fastforce
  with section_step_clean [of l tags body] Cons.prems have "list_all clean_tag t" by simp
  with Cons s show ?case by (simp del: section_step.simps)
qed simp

lemma parsed_tags_clean:
  assumes "e \<in> set (parse_inbox file)"
  shows "list_all clean_tag (ie_tags e)"
proof -
  from assms obtain s where fl: "file = Some s" by (cases "file") (auto simp: parse_inbox_def)
  obtain pre segs where ls: "lines (universal_newlines s) = pre @ all_lines segs" "headless pre" "list_all section_ok segs"
    using sections_exist by blast
  with assms parse_sections [OF ls(2,3)] have "e \<in> set (entries_from (length pre) segs)"
    by (simp add: fl parse_inbox_Some)
  from entry_section [OF this] obtain s1 h cs s2 where seg: "segs = s1 @ Section h cs # s2"
    and e: "section_entry (length pre + length (all_lines s1)) h cs = [e]"
    by blast
  have "set cs \<subseteq> set (lines (universal_newlines s))" by (auto simp: ls(1) seg all_lines_def)
  then have "list_all clean_tag (fst (section_scan cs))"
    unfolding section_scan_def by (intro section_scan_clean) (auto dest: lines_free lines_read_free)
  then show ?thesis using e by (auto simp: section_entry_def split: prod.splits if_splits)
qed

lemma merged_tags_clean:
  "list_all clean_tag old \<Longrightarrow> list_all clean_tag new \<Longrightarrow> list_all clean_tag (merge_tags old new)"
  by (auto simp: merge_tags_def list_all_iff clean_tag_def strip_trimmed)

text \<open>The normal forms of the facts, as far as there is one, occur once each.\<close>

definition norms :: "fact list \<Rightarrow> string list" where
  "norms fs = filter (\<lambda>n. n \<noteq> []) (map (normalize_for_dedup \<circ> fact_body) fs)"

lemma normalize_strip [simp]: "normalize_for_dedup (strip s) = normalize_for_dedup s"
  by (simp add: normalize_for_dedup_def)

lemma norms_append [simp]: "norms (f1 @ f2) = norms f1 @ norms f2"
  by (simp add: norms_def)

text \<open>Why an entry is a duplicate: the same normal form, or the lines of a good hit of the search.\<close>

lemma duplicate_entry:
  assumes "find_duplicate_entry name hits th body file = Some e"
  shows "e \<in> set (parse_inbox file)"
    and "normalize_for_dedup body \<noteq> [] \<and> normalize_for_dedup (ie_body e) = normalize_for_dedup body \<or>
      (\<exists>best others. hits = Some (best # others) \<and> th \<le> sr_score best \<and> mc_path (sr_chunk best) = name \<and>
         ie_start_line e \<le> mc_start_line (sr_chunk best) \<and> mc_end_line (sr_chunk best) \<le> ie_end_line e)"
  using assms
  by (auto simp: find_duplicate_entry_def Let_def find_Some_iff not_less split: if_splits option.splits list.splits)

lemma no_duplicate_entry:
  assumes "find_duplicate_entry name hits th body file = None" and "normalize_for_dedup body \<noteq> []"
  shows "normalize_for_dedup body \<notin> set (norms (facts file))"
proof -
  have "List.find (\<lambda>e. normalize_for_dedup (ie_body e) = normalize_for_dedup body) (parse_inbox file) = None"
    using assms by (auto simp: find_duplicate_entry_def Let_def split: option.splits)
  then show ?thesis by (auto simp: find_None_iff norms_def facts_def fact_of_def)
qed

lemma found_duplicate:
  assumes "find_duplicate_entry name hits th body file = Some e" and "normalize_for_dedup body \<noteq> []"
    and "normalize_for_dedup body \<in> set (norms (facts file))"
  shows "normalize_for_dedup (ie_body e) = normalize_for_dedup body"
proof -
  obtain e' where "List.find (\<lambda>e. normalize_for_dedup (ie_body e) = normalize_for_dedup body) (parse_inbox file) = Some e'"
    using assms(3) by (cases "List.find (\<lambda>e. normalize_for_dedup (ie_body e) = normalize_for_dedup body) (parse_inbox file)")
      (auto simp: find_None_iff norms_def facts_def fact_of_def)
  with assms(1,2) show ?thesis by (auto simp: find_duplicate_entry_def Let_def find_Some_iff)
qed

text \<open>
  The redaction works on the text that is appended, but duplicates are looked for with the text as
  given: with a redaction, the same secret is saved again and again.
\<close>

lemma redacted_duplicates:
  "memory_save (Some (\<lambda>s. ''x'')) ''inbox.md'' None 1 True ''t'' ''key'' []
     (Some (snd (memory_save (Some (\<lambda>s. ''x'')) ''inbox.md'' None 1 True ''t'' ''key'' [] None))) =
   (False, append_block ''t'' [] ''x'' @ append_block ''t'' [] ''x'')"
  by code_simp

text \<open>The normal form strips punctuation in front too: a dot file counts as the file without the dot.\<close>

lemma leading_dot_folded: "normalize_for_dedup ''.env is secret'' = normalize_for_dedup ''env is secret''"
  by code_simp

subsection \<open>Properties\<close>


definition demo_inbox :: "string option" where
  "demo_inbox = Some (append_block ''1'' [''home''] ''User lives in Suwon'' @ append_block ''2'' [] ''Tea, no milk'')"


end
