(* ===== verification/MemoryCorpus.thy ===== *)
theory MemoryCorpus
  imports Texts
begin

section \<open>Chunks of the memory corpus\<close>

text \<open>
  \<open>oxenclaw/memory/chunker.py\<close>: a Markdown text is split at its headings, sections that are too long at their
  blank lines, paragraphs that are too long at character boundaries, and small pieces are merged
  with what follows. A chunk is its first line, its last line (both from 1) and its text. With a
  size limit below 1 the split at character boundaries does not end, so it is a partial function.
\<close>

datatype chunk = Chunk (chunk_start: int) (chunk_end: int) (chunk_text: string)

subsection \<open>Headings\<close>

text \<open>\<open>^(#+)\s\<close>: the number of leading \<open>#\<close>, where white space follows.\<close>

definition heading_level :: "string \<Rightarrow> int option" where
  "heading_level l =
    (let n = length (takeWhile (\<lambda>c. c = CHR ''#'') l)
     in if 0 < n \<and> n < length l \<and> is_space (l ! n) then Some (int n) else None)"

record heading_scan =
  hs_sections :: "chunk list"
  hs_start :: int
  hs_level :: int
  hs_buf :: "string list"

definition heading_flush :: "int \<Rightarrow> heading_scan \<Rightarrow> heading_scan" where
  "heading_flush end_line st =
    (if hs_buf st = [] then st
     else st\<lparr>hs_sections := hs_sections st @ [Chunk (hs_start st) end_line (join newline (hs_buf st))]\<rparr>)"

definition heading_step :: "nat \<times> string \<Rightarrow> heading_scan \<Rightarrow> heading_scan" where
  "heading_step il st =
    (let (i, l) = il; idx = int i;
         st1 =
           (case heading_level l of
              None \<Rightarrow> st
            | Some level \<Rightarrow>
                if hs_buf st \<noteq> [] \<and> (hs_level st = 0 \<or> level \<le> hs_level st)
                then (heading_flush (idx - 1) st)\<lparr>hs_buf := [], hs_start := idx, hs_level := level\<rparr>
                else if hs_buf st = [] then st\<lparr>hs_start := idx, hs_level := level\<rparr>
                else st)
     in st1\<lparr>hs_buf := hs_buf st1 @ [l]\<rparr>)"

definition split_by_headings :: "string list \<Rightarrow> chunk list" where
  "split_by_headings ls =
    hs_sections
      (heading_flush (int (length ls))
        (fold heading_step (enumerate 1 ls) \<lparr>hs_sections = [], hs_start = 1, hs_level = 0, hs_buf = []\<rparr>))"

subsection \<open>Long sections\<close>

text \<open>The loop of \<open>_hard_split\<close>, from the text after the cursor.\<close>

partial_function (option) hard_split :: "string \<Rightarrow> int \<Rightarrow> int \<Rightarrow> chunk list option" where
  "hard_split s line_cursor max_chars =
    (if s = [] then Some []
     else let piece = slice_to max_chars s;
              piece_end_line = line_cursor + int (count_list piece (CHR 0x0A))
          in Option.bind (hard_split (drop (nat max_chars) s) piece_end_line max_chars)
               (\<lambda>cs. Some (Chunk line_cursor piece_end_line piece # cs)))"

record para_scan =
  ps_out :: "chunk list"
  ps_start :: int
  ps_lines :: "string list"

definition para_flush :: "int \<Rightarrow> int \<Rightarrow> para_scan \<Rightarrow> para_scan option" where
  "para_flush max_chars end_line st =
    (if ps_lines st = [] then Some st
     else let joined = join newline (ps_lines st)
          in if int (length joined) \<le> max_chars
             then Some (st\<lparr>ps_out := ps_out st @ [Chunk (ps_start st) end_line joined]\<rparr>)
             else map_option (\<lambda>cs. st\<lparr>ps_out := ps_out st @ cs\<rparr>) (hard_split joined (ps_start st) max_chars))"

definition para_step :: "int \<Rightarrow> int \<Rightarrow> string \<Rightarrow> para_scan \<Rightarrow> para_scan option" where
  "para_step max_chars absolute_line l st =
    (if blank l
     then map_option (\<lambda>st'. st'\<lparr>ps_lines := [], ps_start := absolute_line + 1\<rparr>)
            (para_flush max_chars (absolute_line - 1) st)
     else Some (st\<lparr>ps_lines := ps_lines st @ [l]\<rparr>))"

primrec para_loop :: "int \<Rightarrow> int \<Rightarrow> string list \<Rightarrow> para_scan \<Rightarrow> para_scan option" where
  "para_loop max_chars line_no [] st = Some st"
| "para_loop max_chars line_no (l # ls) st =
    Option.bind (para_step max_chars line_no l st) (para_loop max_chars (line_no + 1) ls)"

definition split_oversize :: "string \<Rightarrow> int \<Rightarrow> int \<Rightarrow> chunk list option" where
  "split_oversize body start_line max_chars =
    map_option ps_out
      (Option.bind (para_loop max_chars start_line (lines body) \<lparr>ps_out = [], ps_start = start_line, ps_lines = []\<rparr>)
        (para_flush max_chars (start_line + int (length (lines body)) - 1)))"

subsection \<open>Merging small chunks\<close>

definition merge_step :: "int \<Rightarrow> chunk \<Rightarrow> chunk list \<Rightarrow> chunk list" where
  "merge_step min_chars sec merged =
    (if merged \<noteq> [] \<and> int (length (chunk_text (last merged))) < min_chars
     then butlast merged @
       [Chunk (chunk_start (last merged)) (chunk_end sec) (chunk_text (last merged) @ newline @ chunk_text sec)]
     else merged @ [sec])"

definition merge_small :: "chunk list \<Rightarrow> int \<Rightarrow> chunk list" where
  "merge_small sections min_chars = fold (merge_step min_chars) sections []"

primrec concat_options :: "'a list option list \<Rightarrow> 'a list option" where
  "concat_options [] = Some []"
| "concat_options (x # xs) =
    Option.bind x (\<lambda>a. map_option (\<lambda>b. a @ b) (concat_options xs))"

definition sized_section :: "int \<Rightarrow> chunk \<Rightarrow> chunk list option" where
  "sized_section max_chars c =
    (if int (length (chunk_text c)) \<le> max_chars then Some [c]
     else split_oversize (chunk_text c) (chunk_start c) max_chars)"

definition trim_chunk :: "chunk \<Rightarrow> chunk" where
  "trim_chunk c = Chunk (chunk_start c) (chunk_end c) (rstrip (chunk_text c))"

definition chunk_markdown :: "string \<Rightarrow> int \<Rightarrow> int \<Rightarrow> chunk list option" where
  "chunk_markdown body max_chars min_chars =
    (if body = [] then Some []
     else map_option
            (\<lambda>sized. map trim_chunk (filter (\<lambda>c. \<not> blank (chunk_text c)) (merge_small sized min_chars)))
            (concat_options (map (sized_section max_chars) (split_by_headings (lines body)))))"

subsection \<open>Where the visible characters are\<close>

text \<open>
  Splitting and merging change white space only. \<open>upto ls n\<close> counts the visible characters of the
  first \<open>n\<close> lines; \<open>located ls k cs\<close> says that the chunks \<open>cs\<close>, whose text starts after \<open>k\<close> visible
  characters, lie within the lines they name.
\<close>

definition visible :: "string \<Rightarrow> string" where
  "visible s = filter (\<lambda>c. \<not> is_space c) s"

definition upto :: "string list \<Rightarrow> nat \<Rightarrow> nat" where
  "upto ls n = length (visible (concat (take n ls)))"

definition chunk_texts :: "chunk list \<Rightarrow> string" where
  "chunk_texts cs = concat (map chunk_text cs)"

primrec located :: "string list \<Rightarrow> nat \<Rightarrow> chunk list \<Rightarrow> bool" where
  "located ls k [] \<longleftrightarrow> True"
| "located ls k (c # cs) \<longleftrightarrow>
    1 \<le> chunk_start c \<and> chunk_end c \<le> int (length ls) \<and> upto ls (nat (chunk_start c - 1)) \<le> k \<and>
    k + length (visible (chunk_text c)) \<le> upto ls (nat (chunk_end c)) \<and>
    located ls (k + length (visible (chunk_text c))) cs"

lemma visible_simps [simp]:
  "visible [] = []" "visible (s @ t) = visible s @ visible t" "visible newline = []"
  by (simp_all add: visible_def newline_def is_space_def)

lemma visible_blank: "visible s = [] \<longleftrightarrow> blank s"
  by (auto simp: visible_def blank_def filter_empty_conv list_all_iff)

lemma visible_join [simp]: "visible (join newline xs) = visible (concat xs)"
  by (induction xs) (simp_all add: join_Cons)

lemma visible_dropWhile: "visible (dropWhile is_space s) = visible s"
  by (induction s) (auto simp: visible_def)

lemma visible_rstrip [simp]: "visible (rstrip s) = visible s"
proof -
  have "rev (visible t) = visible (rev t)" for t by (simp add: visible_def rev_filter)
  then show ?thesis unfolding rstrip_def using visible_dropWhile [of "rev s"] by (metis rev_rev_ident)
qed

lemma chunk_texts_simps [simp]:
  "chunk_texts [] = []" "chunk_texts (c # cs) = chunk_text c @ chunk_texts cs"
  "chunk_texts (cs @ ds) = chunk_texts cs @ chunk_texts ds"
  by (simp_all add: chunk_texts_def)

lemma located_append [simp]:
  "located ls k (cs @ ds) \<longleftrightarrow> located ls k cs \<and> located ls (k + length (visible (chunk_texts cs))) ds"
  by (induction cs arbitrary: k) (auto simp: add.assoc)

lemma upto_inside:
  assumes "ls = ps @ qs @ rs" and "k \<le> length qs"
  shows "upto ls (length ps + k) = upto ls (length ps) + length (visible (concat (take k qs)))"
  using assms by (simp add: upto_def)

lemma upto_mono: "i \<le> j \<Longrightarrow> upto ls i \<le> upto ls j"
proof -
  assume "i \<le> j"
  then have "take j ls = take i ls @ drop i (take j ls)" by (metis append_take_drop_id min.absorb1 take_take)
  then show ?thesis unfolding upto_def by (metis concat_append length_append le_add1 visible_simps(2))
qed

text \<open>The lines of a text and its first characters.\<close>

lemma lines_Cons:
  "lines (a # s) = (if a = CHR 0x0A then [] # lines s else (a # hd (lines s)) # tl (lines s))"
  by (cases "split_on (CHR 0x0A) s") (auto simp: lines_def)

lemma length_lines: "length (lines s) = Suc (count_list s (CHR 0x0A))"
  by (induction s) (simp_all add: lines_Cons, simp add: lines_def)

lemma visible_lines:
  "length (visible (concat (take (count_list d (CHR 0x0A)) (lines (d @ r))))) \<le> length (visible d)"
  "length (visible d) \<le> length (visible (concat (take (Suc (count_list d (CHR 0x0A))) (lines (d @ r)))))"
proof (induction d)
  case (Cons a d)
  obtain l more where l: "lines (d @ r) = l # more" by (cases "lines (d @ r)") auto
  {
    case 1
    with Cons.IH(1) l show ?case
      by (cases "count_list d (CHR 0x0A)") (auto simp: lines_Cons visible_def)
  next
    case 2
    have "is_space (CHR 0x0A)" by (simp add: is_space_def)
    with Cons.IH(2) l show ?case by (auto simp: lines_Cons visible_def)
  }
qed simp_all

subsection \<open>Each step keeps the characters and their lines\<close>

text \<open>\<open>covers ls m ps cs\<close>: the chunks hold what is visible in the lines \<open>ps\<close>, which follow the first \<open>m\<close> lines.\<close>

definition covers :: "string list \<Rightarrow> nat \<Rightarrow> string list \<Rightarrow> chunk list \<Rightarrow> bool" where
  "covers ls m ps cs \<longleftrightarrow>
    (\<exists>before later. ls = before @ ps @ later \<and> length before = m) \<and>
    located ls (upto ls m) cs \<and> visible (chunk_texts cs) = visible (concat ps)"

definition fitting :: "int \<Rightarrow> chunk list \<Rightarrow> bool" where
  "fitting limit cs \<longleftrightarrow> list_all (\<lambda>c. int (length (chunk_text c)) \<le> limit) cs"

lemma fitting_simps [simp]:
  "fitting limit []" "fitting limit (c # cs) \<longleftrightarrow> int (length (chunk_text c)) \<le> limit \<and> fitting limit cs"
  "fitting limit (cs @ ds) \<longleftrightarrow> fitting limit cs \<and> fitting limit ds"
  by (simp_all add: fitting_def)

lemma covers_append:
  assumes "covers ls m ps cs" and "covers ls (m + length ps) qs ds"
  shows "covers ls m (ps @ qs) (cs @ ds)"
proof -
  from assms(1) obtain before later where ls: "ls = before @ ps @ later" "length before = m" by (auto simp: covers_def)
  from assms(2) obtain before' later' where "ls = before' @ qs @ later'" "length before' = m + length ps"
    by (auto simp: covers_def)
  then have "\<exists>later. ls = before @ (ps @ qs) @ later" using ls by (auto simp: append_eq_append_conv_if)
  moreover have "upto ls (m + length ps) = upto ls m + length (visible (chunk_texts cs))"
    using upto_inside [OF ls(1) order_refl] ls(2) assms(1) by (simp add: covers_def)
  ultimately show ?thesis using assms ls(2) by (auto simp: covers_def)
qed

lemma covers_nothing: "ls = before @ ps @ later \<Longrightarrow> visible (concat ps) = [] \<Longrightarrow> covers ls (length before) ps []"
  by (auto simp: covers_def)

lemma covers_exact:
  assumes "ls = before @ ps @ later" and "ps \<noteq> []"
  shows "covers ls (length before) ps [Chunk (int (length before) + 1) (int (length before + length ps)) (join newline ps)]"
  using assms upto_inside [OF assms(1) order_refl] by (auto simp: covers_def nat_add_distrib)

lemma hard_split_pieces:
  assumes "0 < limit" and "ls = before @ ps @ later" and "join newline ps = d @ s" and "lines (d @ s) = ps"
  shows "\<exists>cs. hard_split s (int (length before) + 1 + int (count_list d (CHR 0x0A))) limit = Some cs \<and>
    chunk_texts cs = s \<and> fitting limit cs \<and> located ls (upto ls (length before) + length (visible d)) cs"
  using assms(3,4)
proof (induction "length s" arbitrary: s d rule: less_induct)
  case less
  show ?case
  proof (cases "s = []")
    case True
    then show ?thesis by (subst hard_split.simps) simp
  next
    case False
    let ?piece = "slice_to limit s" and ?tail = "drop (nat limit) s"
    let ?lc = "int (length before) + 1 + int (count_list d (CHR 0x0A))"
    have piece: "s = ?piece @ ?tail" "?piece \<noteq> []" using assms(1) False by auto
    have "\<exists>cs. hard_split ?tail (int (length before) + 1 + int (count_list (d @ ?piece) (CHR 0x0A))) limit = Some cs \<and>
      chunk_texts cs = ?tail \<and> fitting limit cs \<and>
      located ls (upto ls (length before) + length (visible (d @ ?piece))) cs"
      using less.hyps [of ?tail "d @ ?piece"] less.prems piece assms(1) False by simp
    then obtain cs where cs: "hard_split ?tail (?lc + int (count_list ?piece (CHR 0x0A))) limit = Some cs"
      "chunk_texts cs = ?tail" "fitting limit cs"
      "located ls (upto ls (length before) + length (visible d) + length (visible ?piece)) cs"
      by (auto simp: add.assoc)
    define n n' where "n = count_list d (CHR 0x0A)" and "n' = count_list (d @ ?piece) (CHR 0x0A)"
    have ps: "lines (d @ s) = ps" "lines ((d @ ?piece) @ ?tail) = ps" using less.prems piece(1) by simp_all
    have "n' < length ps" using length_lines [of "d @ s"] ps(1) piece(1)
      by (metis count_list_append le_imp_less_Suc n'_def le_add1 add.assoc append.assoc)
    then have n: "n \<le> length ps" "Suc n' \<le> length ps" by (simp_all add: n_def n'_def)
    have "upto ls (length before + n) \<le> upto ls (length before) + length (visible d)"
      using upto_inside [OF assms(2) n(1)] visible_lines(1) [of d s] ps(1) by (simp add: n_def)
    moreover have "upto ls (length before) + length (visible (d @ ?piece)) \<le> upto ls (length before + Suc n')"
      using upto_inside [OF assms(2) n(2)] visible_lines(2) [of "d @ ?piece" ?tail] ps(2) by (simp add: n'_def)
    moreover have "nat (?lc - 1) = length before + n" "nat (?lc + int (count_list ?piece (CHR 0x0A))) = length before + Suc n'"
      "?lc + int (count_list ?piece (CHR 0x0A)) \<le> int (length ls)"
      using n(2) assms(2) by (simp_all add: n_def n'_def nat_eq_iff)
    ultimately have "located ls (upto ls (length before) + length (visible d))
      (Chunk ?lc (?lc + int (count_list ?piece (CHR 0x0A))) ?piece # cs)"
      using cs(4) by (simp add: add.assoc)
    moreover have "hard_split s ?lc limit =
        Some (Chunk ?lc (?lc + int (count_list ?piece (CHR 0x0A))) ?piece # cs)"
      using cs(1) False by (subst hard_split.simps) (simp add: Let_def)
    moreover have "int (length ?piece) \<le> limit" using assms(1) by simp
    ultimately show ?thesis using cs(2,3) piece(1) by auto
  qed
qed

text \<open>The scan over the paragraphs: the chunks so far cover the lines \<open>ps\<close>, and \<open>qs\<close> are collected.\<close>

definition para_ok :: "string list \<Rightarrow> nat \<Rightarrow> int \<Rightarrow> string list \<Rightarrow> string list \<Rightarrow> para_scan \<Rightarrow> bool" where
  "para_ok ls m limit ps qs st \<longleftrightarrow>
    covers ls m ps (ps_out st) \<and> fitting limit (ps_out st) \<and> ps_lines st = qs \<and>
    ps_start st = int (m + length ps) + 1"

lemma para_flush_ok:
  assumes "0 < limit" and "para_ok ls m limit ps qs st" and "ls = before @ ps @ qs @ later" and "length before = m"
    and "\<forall>l \<in> set qs. CHR 0x0A \<notin> set l"
  shows "\<exists>st'. para_flush limit (int (m + length ps + length qs)) st = Some st' \<and>
    covers ls m (ps @ qs) (ps_out st') \<and> fitting limit (ps_out st')"
proof (cases "qs = [] \<or> int (length (join newline qs)) \<le> limit")
  case True
  let ?before = "before @ ps"
  have ls: "ls = ?before @ qs @ later" "length ?before = m + length ps" using assms(3,4) by simp_all
  show ?thesis
  proof (cases "qs = []")
    case True
    with assms(2) show ?thesis by (auto simp: para_flush_def para_ok_def)
  next
    case False
    from covers_exact [OF ls(1) this] ls(2) assms(2) True False show ?thesis
      by (auto simp: para_flush_def para_ok_def Let_def intro!: covers_append)
  qed
next
  case False
  have ls: "ls = (before @ ps) @ qs @ later" using assms(3) by simp
  have "lines (join newline qs) = qs" using False assms(5) by (intro lines_join) simp_all
  with hard_split_pieces [OF assms(1) ls, of "[]" "join newline qs"] assms(4)
  obtain cs where cs: "hard_split (join newline qs) (int (m + length ps) + 1) limit = Some cs"
    "chunk_texts cs = join newline qs" "fitting limit cs" "located ls (upto ls (m + length ps)) cs"
    by auto
  have "covers ls (m + length ps) qs cs"
    unfolding covers_def using cs(2,4) ls assms(4) by (intro conjI exI [of _ "before @ ps"] exI [of _ later]) auto
  with cs(1,3) False assms(2) show ?thesis
    by (auto simp: para_flush_def para_ok_def Let_def intro!: covers_append)
qed

lemma para_step_ok:
  assumes "0 < limit" and "para_ok ls m limit ps qs st" and "ls = before @ ps @ qs @ l # later" and "length before = m"
    and "\<forall>l \<in> set qs. CHR 0x0A \<notin> set l"
  shows "\<exists>st' ps' qs'. para_step limit (int (m + length (ps @ qs)) + 1) l st = Some st' \<and>
    para_ok ls m limit ps' qs' st' \<and> ps' @ qs' = ps @ qs @ [l] \<and> set qs' \<subseteq> insert l (set qs)"
proof (cases "blank l")
  case True
  from para_flush_ok [OF assms(1-5)] obtain st' where
    st': "para_flush limit (int (m + length ps + length qs)) st = Some st'"
    "covers ls m (ps @ qs) (ps_out st')" "fitting limit (ps_out st')" by auto
  have "covers ls (length (before @ ps @ qs)) [l] []"
    using assms(3) True by (intro covers_nothing [of _ _ _ later]) (simp_all add: visible_blank)
  then have "covers ls m ((ps @ qs) @ [l]) (ps_out st' @ [])"
    using st'(2) assms(4) by (intro covers_append) (simp_all add: add.assoc)
  then have "para_ok ls m limit (ps @ qs @ [l]) [] (st'\<lparr>ps_lines := [], ps_start := int (m + length (ps @ qs)) + 1 + 1\<rparr>)"
    using st'(3) by (simp add: para_ok_def)
  moreover have "para_step limit (int (m + length (ps @ qs)) + 1) l st =
      Some (st'\<lparr>ps_lines := [], ps_start := int (m + length (ps @ qs)) + 1 + 1\<rparr>)"
    using True st'(1) by (simp add: para_step_def add.assoc)
  ultimately show ?thesis by (intro exI conjI) (assumption, assumption, simp_all)
next
  case False
  with assms(2) have "para_step limit (int (m + length (ps @ qs)) + 1) l st = Some (st\<lparr>ps_lines := qs @ [l]\<rparr>)"
    "para_ok ls m limit ps (qs @ [l]) (st\<lparr>ps_lines := qs @ [l]\<rparr>)"
    by (simp_all add: para_step_def para_ok_def)
  then show ?thesis by (intro exI conjI) (assumption, assumption, auto)
qed

lemma para_loop_ok:
  assumes "0 < limit" and "para_ok ls m limit ps qs st" and "ls = before @ ps @ qs @ rs @ later" and "length before = m"
    and "\<forall>l \<in> set qs \<union> set rs. CHR 0x0A \<notin> set l"
  shows "\<exists>st' ps' qs'. para_loop limit (int (m + length (ps @ qs)) + 1) rs st = Some st' \<and>
    para_ok ls m limit ps' qs' st' \<and> ps' @ qs' = ps @ qs @ rs \<and> set qs' \<subseteq> set qs \<union> set rs"
  using assms(2,3,5)
proof (induction rs arbitrary: ps qs st)
  case Nil
  then show ?case by (intro exI [of _ st] exI [of _ ps] exI [of _ qs]) simp
next
  case (Cons r rs)
  have free: "\<forall>l \<in> set qs. CHR 0x0A \<notin> set l" using Cons.prems(3) by auto
  from para_step_ok [OF assms(1) Cons.prems(1), of before r "rs @ later"] Cons.prems(2) assms(4) free
  obtain st1 ps1 qs1 where s1: "para_step limit (int (m + length (ps @ qs)) + 1) r st = Some st1"
    "para_ok ls m limit ps1 qs1 st1" "ps1 @ qs1 = ps @ qs @ [r]" "set qs1 \<subseteq> insert r (set qs)"
    by auto
  have "ls = before @ ps1 @ qs1 @ rs @ later" using Cons.prems(2) s1(3)
    by (metis append.assoc append_Cons append_Nil)
  moreover have "\<forall>l \<in> set qs1 \<union> set rs. CHR 0x0A \<notin> set l" using Cons.prems(3) s1(4) by auto
  ultimately obtain st' ps' qs' where st': "para_loop limit (int (m + length (ps1 @ qs1)) + 1) rs st1 = Some st'"
    "para_ok ls m limit ps' qs' st'" "ps' @ qs' = ps1 @ qs1 @ rs" "set qs' \<subseteq> set qs1 \<union> set rs"
    using Cons.IH [OF s1(2)] by blast
  have "int (m + length (ps1 @ qs1)) = int (m + length (ps @ qs)) + 1" unfolding s1(3) by simp
  with st'(1) s1(1) have "para_loop limit (int (m + length (ps @ qs)) + 1) (r # rs) st = Some st'"
    by (simp add: add.commute)
  moreover have "ps' @ qs' = ps @ qs @ r # rs" using st'(3) s1(3) by (metis append.assoc append_Cons append_Nil)
  moreover have "set qs' \<subseteq> set qs \<union> set (r # rs)" using st'(4) s1(4) by auto
  ultimately show ?case using st'(2) by blast
qed

lemma split_oversize_ok:
  assumes "0 < limit" and "ls = before @ ps @ later" and "ps \<noteq> []" and "\<forall>l \<in> set ls. CHR 0x0A \<notin> set l"
  shows "\<exists>cs. split_oversize (join newline ps) (int (length before) + 1) limit = Some cs \<and>
    covers ls (length before) ps cs \<and> fitting limit cs"
proof -
  have lines: "lines (join newline ps) = ps" using assms by (intro lines_join) auto
  have "covers ls (length before) [] []" using covers_nothing [of ls before "[]"] assms(2) by simp
  then have ok: "para_ok ls (length before) limit [] [] \<lparr>ps_out = [], ps_start = int (length before) + 1, ps_lines = []\<rparr>"
    by (simp add: para_ok_def)
  from para_loop_ok [OF assms(1) ok, of before ps later] assms(2,4)
  obtain st ps' qs' where st: "para_loop limit (int (length before) + 1) ps
      \<lparr>ps_out = [], ps_start = int (length before) + 1, ps_lines = []\<rparr> = Some st"
    "para_ok ls (length before) limit ps' qs' st" "ps' @ qs' = ps" "set qs' \<subseteq> set ps"
    by auto
  have ls: "ls = before @ ps' @ qs' @ later" using assms(2) st(3) by (metis append.assoc)
  have free: "\<forall>l \<in> set qs'. CHR 0x0A \<notin> set l" using st(4) assms(2,4) by auto
  have len: "length ps = length ps' + length qs'" by (simp flip: st(3))
  from para_flush_ok [OF assms(1) st(2) ls refl free]
  obtain st' where "para_flush limit (int (length before + length ps)) st = Some st'"
    "covers ls (length before) ps (ps_out st')" "fitting limit (ps_out st')"
    unfolding st(3) len by (auto simp: add.assoc)
  with st(1) show ?thesis by (simp add: split_oversize_def lines)
qed

text \<open>The sections are consecutive runs of lines.\<close>

primrec sections_of :: "nat \<Rightarrow> string list list \<Rightarrow> chunk list" where
  "sections_of m [] = []"
| "sections_of m (ps # pss) =
    Chunk (int m + 1) (int (m + length ps)) (join newline ps) # sections_of (m + length ps) pss"

lemma sections_of_append:
  "sections_of m (pss @ qss) = sections_of m pss @ sections_of (m + length (concat pss)) qss"
  by (induction pss arbitrary: m) (simp_all add: add.assoc)

definition heading_ok :: "string list \<Rightarrow> heading_scan \<Rightarrow> bool" where
  "heading_ok before st \<longleftrightarrow>
    (\<exists>pss. hs_sections st = sections_of 0 pss \<and> list_all (\<lambda>ps. ps \<noteq> []) pss \<and>
       concat pss @ hs_buf st = before \<and> hs_start st = int (length (concat pss)) + 1)"

lemma heading_flush_sections:
  assumes "heading_ok before st"
  shows "\<exists>pss. hs_sections (heading_flush (int (length before)) st) = sections_of 0 pss \<and>
    list_all (\<lambda>ps. ps \<noteq> []) pss \<and> concat pss = before"
proof -
  from assms obtain pss where p: "hs_sections st = sections_of 0 pss" "list_all (\<lambda>ps. ps \<noteq> []) pss"
    "concat pss @ hs_buf st = before" "hs_start st = int (length (concat pss)) + 1"
    by (auto simp: heading_ok_def)
  show ?thesis
  proof (cases "hs_buf st = []")
    case True
    with p show ?thesis by (intro exI [of _ pss]) (simp add: heading_flush_def)
  next
    case False
    with p show ?thesis
      by (intro exI [of _ "pss @ [hs_buf st]"]) (auto simp: heading_flush_def sections_of_append)
  qed
qed

lemma heading_step_ok:
  assumes "heading_ok before st"
  shows "heading_ok (before @ [l]) (heading_step (Suc (length before), l) st)"
proof -
  from assms obtain pss where p: "hs_sections st = sections_of 0 pss" "list_all (\<lambda>ps. ps \<noteq> []) pss"
    "concat pss @ hs_buf st = before" "hs_start st = int (length (concat pss)) + 1"
    by (auto simp: heading_ok_def)
  show ?thesis
  proof (cases "\<exists>level. heading_level l = Some level \<and> hs_buf st \<noteq> [] \<and> (hs_level st = 0 \<or> level \<le> hs_level st)")
    case True
    then obtain level where "heading_level l = Some level" "hs_buf st \<noteq> []" "hs_level st = 0 \<or> level \<le> hs_level st"
      by blast
    then have step: "heading_step (Suc (length before), l) st =
        (heading_flush (int (length before)) st)\<lparr>hs_start := int (length before) + 1, hs_level := level, hs_buf := [l]\<rparr>"
      by (simp add: heading_step_def Let_def)
    from heading_flush_sections [OF assms] obtain qss where
      "hs_sections (heading_flush (int (length before)) st) = sections_of 0 qss"
      "list_all (\<lambda>ps. ps \<noteq> []) qss" "concat qss = before" by blast
    then show ?thesis unfolding step heading_ok_def by (intro exI [of _ qss]) simp
  next
    case False
    then have "hs_sections (heading_step (Suc (length before), l) st) = hs_sections st"
      "hs_buf (heading_step (Suc (length before), l) st) = hs_buf st @ [l]"
      "hs_start (heading_step (Suc (length before), l) st) =
        (if hs_buf st = [] \<and> heading_level l \<noteq> None then int (length before) + 1 else hs_start st)"
      by (auto simp: heading_step_def Let_def split: option.split)
    with p show ?thesis unfolding heading_ok_def by (intro exI [of _ pss]) auto
  qed
qed

lemma heading_scan_ok:
  "heading_ok before st \<Longrightarrow> heading_ok (before @ ls) (fold heading_step (enumerate (Suc (length before)) ls) st)"
proof (induction ls arbitrary: before st)
  case (Cons l ls)
  from Cons.IH [OF heading_step_ok [OF Cons.prems, of l]] show ?case by simp
qed simp

lemma split_by_headings_sections:
  "\<exists>pss. split_by_headings ls = sections_of 0 pss \<and> list_all (\<lambda>ps. ps \<noteq> []) pss \<and> concat pss = ls"
proof -
  have "heading_ok [] \<lparr>hs_sections = [], hs_start = 1, hs_level = 0, hs_buf = []\<rparr>"
    unfolding heading_ok_def by (intro exI [of _ "[]"]) simp
  from heading_flush_sections [OF heading_scan_ok [OF this, of ls]] show ?thesis
    by (simp add: split_by_headings_def)
qed

lemma sized_sections_ok:
  assumes "0 < limit" and "ls = before @ concat pss @ later" and "list_all (\<lambda>ps. ps \<noteq> []) pss"
    and "\<forall>l \<in> set ls. CHR 0x0A \<notin> set l"
  shows "\<exists>cs. concat_options (map (sized_section limit) (sections_of (length before) pss)) = Some cs \<and>
    covers ls (length before) (concat pss) cs \<and> fitting limit cs"
  using assms(2,3)
proof (induction pss arbitrary: before)
  case Nil
  then show ?case using covers_nothing [of ls before "[]" later] by simp
next
  case (Cons ps pss)
  let ?c = "Chunk (int (length before) + 1) (int (length before + length ps)) (join newline ps)"
  have ls: "ls = before @ ps @ (concat pss @ later)" "ls = (before @ ps) @ concat pss @ later" "ps \<noteq> []"
    "list_all (\<lambda>ps. ps \<noteq> []) pss" using Cons.prems by simp_all
  obtain cs where cs: "sized_section limit ?c = Some cs" "covers ls (length before) ps cs" "fitting limit cs"
  proof (cases "int (length (join newline ps)) \<le> limit")
    case True
    with covers_exact [OF ls(1,3)] show ?thesis by (intro that [of "[?c]"]) (auto simp: sized_section_def)
  next
    case False
    with split_oversize_ok [OF assms(1) ls(1,3) assms(4)] show ?thesis
      by (auto simp: sized_section_def intro: that)
  qed
  from Cons.IH [OF ls(2,4)] obtain ds where
    "concat_options (map (sized_section limit) (sections_of (length before + length ps) pss)) = Some ds"
    "covers ls (length before + length ps) (concat pss) ds" "fitting limit ds" by auto
  with cs covers_append [OF cs(2)] show ?case by auto
qed

text \<open>Merging keeps what the chunks cover, and bounds what it joins.\<close>

lemma located_merge:
  assumes "located ls k (cs @ [c, d])"
  shows "located ls k (cs @ [Chunk (chunk_start c) (chunk_end d) (chunk_text c @ newline @ chunk_text d)])"
  using assms by (auto simp: add.assoc)

lemma merge_step_ok:
  assumes "located ls k (cs @ [c])" and "fitting (limit + max 0 floor_size) cs" and "int (length (chunk_text c)) \<le> limit"
  shows "located ls k (merge_step floor_size c cs) \<and> fitting (limit + max 0 floor_size) (merge_step floor_size c cs) \<and>
    visible (chunk_texts (merge_step floor_size c cs)) = visible (chunk_texts (cs @ [c]))"
proof (cases "cs \<noteq> [] \<and> int (length (chunk_text (last cs))) < floor_size")
  case True
  then obtain ds d where cs: "cs = ds @ [d]" by (metis append_butlast_last_id)
  with True assms(3) have "int (length (chunk_text d @ newline @ chunk_text c)) \<le> limit + max 0 floor_size"
    by (simp add: newline_def)
  with located_merge [of ls k ds d c] assms True cs show ?thesis by (simp add: merge_step_def)
next
  case False
  with assms show ?thesis by (auto simp: merge_step_def)
qed

lemma merge_small_ok:
  assumes "located ls k (cs @ ds)" and "fitting (limit + max 0 floor_size) cs" and "fitting limit ds"
  shows "located ls k (fold (merge_step floor_size) ds cs) \<and>
    fitting (limit + max 0 floor_size) (fold (merge_step floor_size) ds cs) \<and>
    visible (chunk_texts (fold (merge_step floor_size) ds cs)) = visible (chunk_texts (cs @ ds))"
  using assms
proof (induction ds arbitrary: cs)
  case (Cons d ds)
  let ?m = "merge_step floor_size d cs"
  have "located ls k (cs @ [d])" "int (length (chunk_text d)) \<le> limit" using Cons.prems by auto
  from merge_step_ok [OF this(1) Cons.prems(2) this(2)] have m: "located ls k ?m"
    "fitting (limit + max 0 floor_size) ?m" "visible (chunk_texts ?m) = visible (chunk_texts (cs @ [d]))" by auto
  moreover have "located ls k (?m @ ds)" using Cons.prems(1) m(1,3) by (auto simp: add.assoc)
  ultimately show ?case using Cons.IH [of ?m] Cons.prems(3) by simp
qed simp

lemma trim_ok:
  "located ls k cs \<Longrightarrow> located ls k (map trim_chunk (filter (\<lambda>c. \<not> blank (chunk_text c)) cs))"
  "visible (chunk_texts (map trim_chunk (filter (\<lambda>c. \<not> blank (chunk_text c)) cs))) = visible (chunk_texts cs)"
  by (induction cs arbitrary: k) (auto simp: trim_chunk_def simp flip: visible_blank)

lemma sized_total:
  assumes "0 < limit"
  shows "\<exists>sized. concat_options (map (sized_section limit) (split_by_headings (lines body))) = Some sized \<and>
    covers (lines body) 0 (lines body) sized \<and> fitting limit sized"
proof -
  obtain pss where pss: "split_by_headings (lines body) = sections_of 0 pss" "list_all (\<lambda>ps. ps \<noteq> []) pss"
    "concat pss = lines body"
    using split_by_headings_sections by blast
  have "lines body = [] @ concat pss @ []" using pss(3) by simp
  from sized_sections_ok [OF assms this pss(2)] lines_free show ?thesis by (auto simp: pss)
qed

lemma chunk_markdown_total: "0 < limit \<Longrightarrow> \<exists>cs. chunk_markdown body limit floor_size = Some cs"
  using sized_total [of limit body] by (auto simp: chunk_markdown_def)

text \<open>The lines that a chunk names.\<close>

definition cited_lines :: "string list \<Rightarrow> chunk \<Rightarrow> string" where
  "cited_lines ls c =
    join newline (drop (nat (chunk_start c - 1)) (take (nat (chunk_end c)) ls))"

lemma sublist_middle:
  assumes "pre @ t @ post = a @ b @ c" and "length a \<le> length pre" and "length pre + length t \<le> length a + length b"
  shows "sublist t b"
proof -
  have "prefix a (pre @ t @ post)" unfolding assms(1) by simp
  moreover have "prefix pre (pre @ t @ post)" by simp
  ultimately have "prefix a pre" using assms(2) by (rule prefix_length_prefix)
  then obtain d where d: "pre = a @ d" "d @ t @ post = b @ c" using assms(1) by (auto simp: prefix_def)
  then have "prefix (d @ t) b"
    using assms(3) by (intro prefix_length_prefix [of "d @ t" "b @ c" b]) (auto intro: prefixI [of _ _ post])
  then show ?thesis by (auto simp: prefix_def sublist_def)
qed

lemma located_cited:
  assumes "located ls (length pre) cs" and "visible (concat ls) = pre @ visible (chunk_texts cs) @ post"
    and "\<forall>c \<in> set cs. visible (chunk_text c) \<noteq> []" and "c \<in> set cs"
  shows "1 \<le> chunk_start c \<and> chunk_start c \<le> chunk_end c \<and> chunk_end c \<le> int (length ls) \<and>
    sublist (visible (chunk_text c)) (visible (cited_lines ls c))"
  using assms
proof (induction cs arbitrary: pre)
  case (Cons d cs)
  show ?case
  proof (cases "c = d")
    case True
    let ?a = "nat (chunk_start c - 1)" and ?b = "nat (chunk_end c)"
    from Cons.prems(1,3) True have k: "1 \<le> chunk_start c" "chunk_end c \<le> int (length ls)" "upto ls ?a \<le> length pre"
      "length pre + length (visible (chunk_text c)) \<le> upto ls ?b" "visible (chunk_text c) \<noteq> []" by simp_all
    have "?a < ?b"
    proof (rule ccontr)
      assume "\<not> ?a < ?b"
      then have "upto ls ?b \<le> upto ls ?a" by (intro upto_mono leI)
      moreover have "0 < length (visible (chunk_text c))" using k(5) by blast
      ultimately show False using k(3,4) by linarith
    qed
    then have split: "take ?b ls = take ?a ls @ drop ?a (take ?b ls)"
      by (metis append_take_drop_id less_imp_le_nat min.absorb1 take_take)
    have "visible (concat ls) = visible (concat (take ?b ls)) @ visible (concat (drop ?b ls))"
      by (metis append_take_drop_id concat_append visible_simps(2))
    also have "visible (concat (take ?b ls)) =
        visible (concat (take ?a ls)) @ visible (concat (drop ?a (take ?b ls)))"
      by (subst split) simp
    finally have "pre @ visible (chunk_text c) @ (visible (chunk_texts cs) @ post) =
        visible (concat (take ?a ls)) @ visible (concat (drop ?a (take ?b ls))) @ visible (concat (drop ?b ls))"
      using Cons.prems(2) True by simp
    moreover have "upto ls ?b = upto ls ?a + length (visible (concat (drop ?a (take ?b ls))))"
      unfolding upto_def by (subst split) simp
    ultimately have "sublist (visible (chunk_text c)) (visible (concat (drop ?a (take ?b ls))))"
      using k(3,4) by (intro sublist_middle) (simp_all add: upto_def)
    moreover have "chunk_start c \<le> chunk_end c" using \<open>?a < ?b\<close> by simp
    ultimately show ?thesis using k(1,2) by (simp add: cited_lines_def)
  next
    case False
    with Cons.IH [of "pre @ visible (chunk_text d)"] Cons.prems show ?thesis by simp
  qed
qed simp

text \<open>C29. With a positive size limit the chunker ends. Its chunks hold all visible characters of the text, in
  their order and once each; no chunk is blank or longer than the limit and the floor together; and the
  lines that a chunk names are lines of the text, and the visible characters of the chunk stand in
  these lines as they stand in the chunk.\<close>

theorem chunks_cite_their_lines:
  assumes "0 < max_chars"
  shows "\<exists>cs. chunk_markdown body max_chars min_chars = Some cs \<and> visible (chunk_texts cs) = visible body \<and>
    (\<forall>c \<in> set cs. visible (chunk_text c) \<noteq> [] \<and> int (length (chunk_text c)) \<le> max_chars + max 0 min_chars \<and>
       1 \<le> chunk_start c \<and> chunk_start c \<le> chunk_end c \<and> chunk_end c \<le> int (length (lines body)) \<and>
       sublist (visible (chunk_text c)) (visible (cited_lines (lines body) c)))"
proof (cases "body = []")
  case False
  let ?ls = "lines body"
  from sized_total [OF assms, of body] obtain sized where
    sized: "concat_options (map (sized_section max_chars) (split_by_headings ?ls)) = Some sized"
    "covers ?ls 0 ?ls sized" "fitting max_chars sized"
    by blast
  define merged where "merged = merge_small sized min_chars"
  define cs where "cs = map trim_chunk (filter (\<lambda>c. \<not> blank (chunk_text c)) merged)"
  from merge_small_ok [of ?ls 0 "[]" sized max_chars min_chars] sized(2,3)
  have m: "located ?ls 0 merged" "fitting (max_chars + max 0 min_chars) merged"
    "visible (chunk_texts merged) = visible (concat ?ls)"
    by (auto simp: covers_def upto_def merge_small_def merged_def)
  have body: "visible body = visible (concat ?ls)" by (metis join_lines visible_join)
  have vis: "visible (chunk_texts cs) = visible (concat ?ls)" "located ?ls (length []) cs"
    using trim_ok(1) [OF m(1)] trim_ok(2) [of merged] m(3) by (simp_all add: cs_def)
  have solid: "\<forall>c \<in> set cs. visible (chunk_text c) \<noteq> []"
    by (auto simp: cs_def trim_chunk_def simp flip: visible_blank)
  have size: "int (length (chunk_text c)) \<le> max_chars + max 0 min_chars" if "c \<in> set cs" for c
  proof -
    from that obtain d where d: "d \<in> set merged" "c = trim_chunk d" by (auto simp: cs_def)
    then have "int (length (chunk_text d)) \<le> max_chars + max 0 min_chars"
      using m(2) by (auto simp: fitting_def list_all_iff)
    with length_rstrip [of "chunk_text d"] d(2) show ?thesis by (simp add: trim_chunk_def)
  qed
  have "chunk_markdown body max_chars min_chars = Some cs"
    using False sized(1) by (simp add: chunk_markdown_def cs_def merged_def)
  moreover have "visible (chunk_texts cs) = visible body" using vis(1) body by simp
  moreover have "1 \<le> chunk_start c \<and> chunk_start c \<le> chunk_end c \<and> chunk_end c \<le> int (length ?ls) \<and>
      sublist (visible (chunk_text c)) (visible (cited_lines ?ls c))" if "c \<in> set cs" for c
    using located_cited [OF vis(2) _ solid that] vis(1) by simp
  ultimately show ?thesis using solid size by blast
qed (simp add: chunk_markdown_def)

theorem chunks_cite_their_lines_witness:
  "\<exists>cs. chunk_markdown ''# a b'' 2 0 = Some cs \<and> visible (chunk_texts cs) = ''#ab'' \<and>
     list_all (\<lambda>c. int (length (chunk_text c)) \<le> 2) cs"
proof -
  from chunks_cite_their_lines [where max_chars = 2 and body = "''# a b''" and min_chars = 0] obtain cs where
    "chunk_markdown ''# a b'' 2 0 = Some cs" "visible (chunk_texts cs) = visible ''# a b''"
    "\<forall>c \<in> set cs. int (length (chunk_text c)) \<le> 2"
    by auto
  moreover have "visible ''# a b'' = ''#ab''" by code_simp
  ultimately show ?thesis by (auto simp: list_all_iff)
qed

text \<open>A piece that ends with its line break names the line after the break, of which it holds nothing.\<close>

lemma hard_split_names_next_line:
  "hard_split (''ab'' @ newline @ ''cd'') 1 3 = Some [Chunk 1 2 (''ab'' @ newline), Chunk 2 2 ''cd'']"
  by (subst hard_split.simps, simp add: newline_def, subst hard_split.simps, simp, subst hard_split.simps, simp)

text \<open>Without a positive limit the split of a text does not end.\<close>

subsection \<open>Reading a range of lines\<close>

text \<open>
  \<open>oxenclaw/memory/reader.py\<close>. The corpus says which paths stay inside its directory and what the files
  hold; a path outside is a \<open>ValueError\<close>.
\<close>

record corpus =
  co_inside :: "string \<Rightarrow> bool"
  co_read :: "string \<Rightarrow> string option"

record read_result =
  rr_path :: string
  rr_text :: string
  rr_start_line :: int
  rr_end_line :: int
  rr_truncated :: bool
  rr_next_from :: "int option"

primrec fitting_lines :: "string list \<Rightarrow> int \<Rightarrow> nat \<Rightarrow> nat" where
  "fitting_lines ls max_chars 0 = 0"
| "fitting_lines ls max_chars (Suc n) =
    (if 1 < Suc n \<and> max_chars < int (length (join newline (take (Suc n) ls)))
     then fitting_lines ls max_chars n else Suc n)"

definition fit_to_chars :: "string list \<Rightarrow> int \<Rightarrow> string \<times> nat \<times> bool" where
  "fit_to_chars ls max_chars =
    (if ls = [] then ([], 0, False)
     else let included = fitting_lines ls max_chars (length ls); body = join newline (take included ls)
          in if int (length body) \<le> max_chars then (body, included, False)
             else (slice_to max_chars body, 1, True))"

definition read_file_range :: "corpus \<Rightarrow> string \<Rightarrow> int \<Rightarrow> int \<Rightarrow> int \<Rightarrow> py_error + read_result" where
  "read_file_range co rel_path from_line0 count0 max_chars0 =
    (let from_line = (if from_line0 < 1 then 1 else from_line0);
         count = (if count0 < 1 then 1 else count0);
         max_chars = (if max_chars0 < 1 then 1 else max_chars0)
     in if \<not> co_inside co rel_path then Inl ValueError
        else (case co_read co rel_path of
                None \<Rightarrow> Inr \<lparr>rr_path = rel_path, rr_text = [], rr_start_line = from_line, rr_end_line = from_line - 1,
                              rr_truncated = False, rr_next_from = None\<rparr>
              | Some body \<Rightarrow>
                 (let file_lines = lines body;
                      selected = take (nat count) (drop (nat (from_line - 1)) file_lines);
                      more_source = from_line - 1 + int (length selected) < int (length file_lines);
                      (fitted_text, included, hard_truncated) = fit_to_chars selected max_chars;
                      char_truncated = (hard_truncated \<or> included < length selected);
                      next_from = (if \<not> hard_truncated \<and> (more_source \<or> included < length selected)
                                   then Some (from_line + int included) else None)
                  in Inr \<lparr>rr_path = rel_path, rr_text = fitted_text, rr_start_line = from_line,
                          rr_end_line = (if 0 < included then from_line + int included - 1 else from_line - 1),
                          rr_truncated = char_truncated \<or> more_source, rr_next_from = next_from\<rparr>)))"

text \<open>A client that follows \<open>next_from\<close>, for at most \<open>fuel\<close> pages.\<close>

primrec read_pages :: "corpus \<Rightarrow> string \<Rightarrow> int \<Rightarrow> int \<Rightarrow> nat \<Rightarrow> int \<Rightarrow> read_result list option" where
  "read_pages co path count max_chars 0 from_line = None"
| "read_pages co path count max_chars (Suc fuel) from_line =
    (case read_file_range co path from_line count max_chars of
       Inl e \<Rightarrow> None
     | Inr r \<Rightarrow>
        (case rr_next_from r of
           None \<Rightarrow> Some [r]
         | Some next_line \<Rightarrow> map_option (\<lambda>rs. r # rs) (read_pages co path count max_chars fuel next_line)))"

lemma fitting_lines_bound: "fitting_lines ls limit n \<le> n"
  by (induction n) auto

lemma fitting_lines_ge: "0 < n \<Longrightarrow> 0 < fitting_lines ls limit n"
  by (induction n) auto

lemma fitting_lines_fit:
  "0 < n \<Longrightarrow> int (length (hd ls)) \<le> limit \<Longrightarrow> ls \<noteq> [] \<Longrightarrow>
   int (length (join newline (take (fitting_lines ls limit n) ls))) \<le> limit"
  by (induction n) (auto simp: not_less take_Suc)

lemma fit_lines:
  assumes "ls \<noteq> []" and "int (length (hd ls)) \<le> limit"
  shows "\<exists>k. fit_to_chars ls limit = (join newline (take k ls), k, False) \<and> 0 < k \<and> k \<le> length ls"
  using assms fitting_lines_bound [of ls limit "length ls"] fitting_lines_ge [of "length ls" ls limit]
    fitting_lines_fit [of "length ls" ls limit]
  by (intro exI [of _ "fitting_lines ls limit (length ls)"]) (simp add: fit_to_chars_def Let_def)

text \<open>One page: some of the lines that are left, and where the next page starts if any are left after it.\<close>

lemma page:
  assumes "co_inside co path" and "co_read co path = Some body" and "n < length (lines body)"
    and "0 < limit" and "\<forall>l \<in> set (lines body). int (length l) \<le> limit"
  shows "\<exists>k r. read_file_range co path (int n + 1) count limit = Inr r \<and> 0 < k \<and> n + k \<le> length (lines body) \<and>
    rr_text r = join newline (take k (drop n (lines body))) \<and>
    rr_next_from r = (if n + k < length (lines body) then Some (int (n + k) + 1) else None)"
proof -
  let ?sel = "take (nat (if count < 1 then 1 else count)) (drop n (lines body))"
  have sel: "?sel \<noteq> []" using assms(3) by (simp add: split: if_splits)
  have "hd ?sel \<in> set (lines body)" using hd_in_set [OF sel] by (auto dest: in_set_takeD in_set_dropD)
  with assms(5) have "int (length (hd ?sel)) \<le> limit" by blast
  from fit_lines [OF sel this] obtain k where
    k: "fit_to_chars ?sel limit = (join newline (take k ?sel), k, False)" "0 < k" "k \<le> length ?sel"
    by blast
  have "take k ?sel = take k (drop n (lines body))" using k(3) by simp
  with k assms show ?thesis
    by (intro exI [of _ k]) (auto simp: read_file_range_def Let_def)
qed

lemma join_take_drop:
  "0 < k \<Longrightarrow> k < length xs \<Longrightarrow> join newline (take k xs) @ newline @ join newline (drop k xs) = join newline xs"
  using join_append [of "take k xs" "drop k xs" newline] by force

lemma pages_from:
  assumes "co_inside co path" and "co_read co path = Some body" and "0 < limit"
    and "\<forall>l \<in> set (lines body). int (length l) \<le> limit"
  shows "n < length (lines body) \<Longrightarrow> length (lines body) - n \<le> fuel \<Longrightarrow>
    \<exists>rs. read_pages co path count limit fuel (int n + 1) = Some rs \<and>
      join newline (map rr_text rs) = join newline (drop n (lines body)) \<and> rs \<noteq> []"
proof (induction fuel arbitrary: n)
  case (Suc fuel)
  from page [OF assms(1,2) Suc.prems(1) assms(3,4), of count] obtain k r where
    r: "read_file_range co path (int n + 1) count limit = Inr r" "0 < k" "n + k \<le> length (lines body)"
    "rr_text r = join newline (take k (drop n (lines body)))"
    "rr_next_from r = (if n + k < length (lines body) then Some (int (n + k) + 1) else None)"
    by blast
  show ?case
  proof (cases "n + k < length (lines body)")
    case True
    have "length (lines body) - (n + k) \<le> fuel" using Suc.prems(2) r(2) by linarith
    from Suc.IH [OF True this] obtain rs where
      rs: "read_pages co path count limit fuel (int (n + k) + 1) = Some rs"
      "join newline (map rr_text rs) = join newline (drop (n + k) (lines body))" "rs \<noteq> []" by blast
    have "join newline (take k (drop n (lines body))) @ newline @ join newline (drop (n + k) (lines body)) =
        join newline (drop n (lines body))"
      using join_take_drop [of k "drop n (lines body)"] r(2) True by (simp add: add.commute)
    with rs r True show ?thesis by (simp add: join_Cons)
  next
    case False
    with r show ?thesis by simp
  qed
qed simp

text \<open>C30. A client that follows next_from from the first line gets the whole file: it ends after at most as many
  pages as the file has lines, and the pages joined by line breaks are the text of the file. This needs
  a size limit that no single line exceeds.\<close>

theorem reading_pages_whole_file:
  assumes "co_inside co path" and "co_read co path = Some body" and "0 < max_chars"
    and "\<forall>l \<in> set (lines body). int (length l) \<le> max_chars"
  shows "\<exists>rs. read_pages co path count max_chars (length (lines body)) 1 = Some rs \<and> join newline (map rr_text rs) = body"
  using pages_from [OF assms, of 0 "length (lines body)" count] by auto

definition demo_corpus :: corpus where
  "demo_corpus = \<lparr>co_inside = (\<lambda>p. \<not> prefix ''..'' p), co_read = (\<lambda>p. Some (''abcd'' @ newline @ ''x''))\<rparr>"

theorem reading_pages_whole_file_witness:
  "\<exists>rs. read_pages demo_corpus ''n.md'' 1 4 2 1 = Some rs \<and> join newline (map rr_text rs) = ''abcd'' @ newline @ ''x''"
proof -
  let ?body = "''abcd'' @ newline @ ''x''"
  have l: "lines ?body = [''abcd'', ''x'']" by code_simp
  have n: "length (lines ?body) = 2" and fits: "\<forall>l \<in> set (lines ?body). int (length l) \<le> 4"
    unfolding l by simp_all
  have c: "co_inside demo_corpus ''n.md''" "co_read demo_corpus ''n.md'' = Some ?body"
    by (simp_all add: demo_corpus_def)
  from reading_pages_whole_file [OF c zero_less_numeral fits, where count = 1, unfolded n] show ?thesis .
qed

text \<open>A line that is longer than the limit ends the paging: there is no next page although lines are left.\<close>

lemma long_line_ends_paging:
  "map_option (map (\<lambda>r. (rr_text r, rr_truncated r))) (read_pages demo_corpus ''n.md'' 1 3 5 1) = Some [(''abc'', True)]"
  by code_simp

end
