(* ===== verification/MemoryIndex.thy ===== *)
theory MemoryIndex
  imports MemoryCorpus
begin

section \<open>The index of the memory corpus\<close>

text \<open>
  \<open>oxenclaw/memory/walker.py\<close>, \<open>embedding_cache.py\<close>, \<open>indexer.py\<close> and the tables of \<open>store.py\<close>: the files of the
  corpus are walked, changed files are chunked and embedded, and the tables are brought up to date.
  The tables are lists of rows and every statement is its effect on them; times of updates are left
  out. Directory listing, globs, SHA-256, decoding, the embedding service, fresh identifiers and the
  rounding to 32-bit floats are parameters. A failing operation leaves the tables as the commits before
  it made them, so the state is returned in every case.
\<close>

subsection \<open>Walking the corpus\<close>

record walker_config =
  wc_allow_globs :: "string list"
  wc_deny_globs :: "string list"
  wc_min_size :: int
  wc_max_size :: int

definition DEFAULT_MAX_DEPTH :: int where
  "DEFAULT_MAX_DEPTH = 16"

definition DEFAULT_MAX_FILE_SIZE_BYTES :: int where
  "DEFAULT_MAX_FILE_SIZE_BYTES = 4 * 1024 * 1024"

text \<open>
  A path that the listing of Markdown files names: its parts below the root, whether it is a link that leaves
  the root, whether it is a file, its time and size, and its bytes, as far as the system gives them.
\<close>

record node =
  nd_parts :: "string list"
  nd_escapes :: bool
  nd_is_file :: bool
  nd_stat :: "(real \<times> int) option"
  nd_data :: "string option"

record walk_entry =
  we_path :: string
  we_mtime :: real
  we_size :: int
  we_data :: string

definition rel_path :: "node \<Rightarrow> string" where
  "rel_path n = join ''/'' (nd_parts n)"

definition glob_match :: "(string \<Rightarrow> string \<Rightarrow> bool) \<Rightarrow> string \<Rightarrow> string list \<Rightarrow> bool" where
  "glob_match fnmatch rel globs = list_ex (fnmatch rel) globs"

definition scan_node ::
  "(string \<Rightarrow> string \<Rightarrow> bool) \<Rightarrow> int \<Rightarrow> int \<Rightarrow> walker_config option \<Rightarrow> node \<Rightarrow> walk_entry list" where
  "scan_node fnmatch max_depth max_file_size_bytes cfg n =
    (let rel = rel_path n;
         max_size = (case cfg of Some c \<Rightarrow> if 0 < wc_max_size c then wc_max_size c else max_file_size_bytes
                               | None \<Rightarrow> max_file_size_bytes);
         min_size = (case cfg of Some c \<Rightarrow> wc_min_size c | None \<Rightarrow> 0);
         denied = (case cfg of Some c \<Rightarrow> glob_match fnmatch rel (wc_deny_globs c) | None \<Rightarrow> False);
         not_allowed = (case cfg of
                          Some c \<Rightarrow> wc_allow_globs c \<noteq> [] \<and> \<not> glob_match fnmatch rel (wc_allow_globs c)
                        | None \<Rightarrow> False)
     in if list_ex (prefix ''.'') (nd_parts n) then []
        else if max_depth < int (length (nd_parts n)) then []
        else if denied \<or> not_allowed then []
        else if nd_escapes n \<or> \<not> nd_is_file n then []
        else (case (nd_stat n, nd_data n) of
                (Some (mtime, bytes_n), Some bytes) \<Rightarrow>
                  if bytes_n < min_size \<or> max_size < bytes_n then []
                  else [\<lparr>we_path = rel, we_mtime = mtime, we_size = bytes_n, we_data = bytes\<rparr>]
              | _ \<Rightarrow> []))"

definition scan_memory_dir ::
  "(string \<Rightarrow> string \<Rightarrow> bool) \<Rightarrow> int \<Rightarrow> int \<Rightarrow> walker_config option \<Rightarrow> node list option \<Rightarrow> walk_entry list" where
  "scan_memory_dir fnmatch max_depth max_file_size_bytes cfg listing =
    (case listing of None \<Rightarrow> [] | Some nodes \<Rightarrow> concat (map (scan_node fnmatch max_depth max_file_size_bytes cfg) nodes))"

subsection \<open>Tables\<close>

type_synonym vec = "real list"

record file_row =
  fr_source :: string
  fr_hash :: string
  fr_mtime :: real
  fr_size :: int

record chunk_row =
  cr_id :: string
  cr_path :: string
  cr_source :: string
  cr_piece :: chunk
  cr_hash :: string
  cr_model :: string

record index_db =
  db_files :: "(string \<times> file_row) list"
  db_chunks :: "chunk_row list"
  db_vec :: "(string \<times> vec) list"
  db_fts :: "(string \<times> string \<times> string \<times> string) list"
  db_dim :: "int option"
  db_meta_dims :: "int option"
  db_meta_model :: "string option"
  db_meta_provider :: "string option"
  db_cache :: "((string \<times> string \<times> string) \<times> vec) list"
  db_next :: nat

datatype store_error =
    DimensionMismatch | ModelMismatch | ProviderMismatch | MissingFile | EmbeddingFailed | LengthMismatch

definition upsert_file :: "string \<Rightarrow> file_row \<Rightarrow> index_db \<Rightarrow> index_db" where
  "upsert_file path row db = db\<lparr>db_files := dict_set path row (db_files db)\<rparr>"

definition chunk_ids :: "string \<Rightarrow> index_db \<Rightarrow> string list" where
  "chunk_ids path db = map cr_id (filter (\<lambda>c. cr_path c = path) (db_chunks db))"

definition drop_chunks :: "string \<Rightarrow> index_db \<Rightarrow> index_db" where
  "drop_chunks path db =
    (let gone = chunk_ids path db
     in db\<lparr>db_vec := filter (\<lambda>(i, v). i \<notin> set gone) (db_vec db),
           db_fts := filter (\<lambda>(t, i, p, s). i \<notin> set gone) (db_fts db),
           db_chunks := filter (\<lambda>c. cr_path c \<noteq> path) (db_chunks db)\<rparr>)"

definition delete_file :: "string \<Rightarrow> index_db \<Rightarrow> index_db" where
  "delete_file path db = (drop_chunks path db)\<lparr>db_files := dict_pop path (db_files db)\<rparr>"

definition list_files :: "string \<Rightarrow> index_db \<Rightarrow> (string \<times> file_row) list" where
  "list_files source db = filter (\<lambda>(p, r). fr_source r = source) (db_files db)"

definition ensure_vec_table :: "int \<Rightarrow> index_db \<Rightarrow> store_error option \<times> index_db" where
  "ensure_vec_table dims db =
    (case db_dim db of
       Some d \<Rightarrow> (if d \<noteq> dims then Some DimensionMismatch else None, db)
     | None \<Rightarrow> (None, db\<lparr>db_dim := Some dims\<rparr>))"

definition differs :: "'a \<Rightarrow> 'a option \<Rightarrow> bool" where
  "differs x y = (case y of None \<Rightarrow> False | Some z \<Rightarrow> z \<noteq> x)"

definition ensure_schema_meta :: "string \<Rightarrow> string \<Rightarrow> int \<Rightarrow> index_db \<Rightarrow> store_error option \<times> index_db" where
  "ensure_schema_meta provider model dims db =
    (if differs dims (db_meta_dims db) then (Some DimensionMismatch, db)
     else if differs model (db_meta_model db) then (Some ModelMismatch, db)
     else if differs provider (db_meta_provider db) then (Some ProviderMismatch, db)
     else ensure_vec_table dims
            (db\<lparr>db_meta_provider := Some provider, db_meta_model := Some model, db_meta_dims := Some dims\<rparr>))"

text \<open>One row of each table; a vector of another dimension than the table and a path without a file row raise.\<close>

definition insert_chunk ::
  "(nat \<Rightarrow> string) \<Rightarrow> (real \<Rightarrow> real) \<Rightarrow> string \<Rightarrow> string \<Rightarrow> string \<Rightarrow> chunk \<times> string \<times> vec \<Rightarrow> index_db \<Rightarrow> index_db" where
  "insert_chunk new_chunk_id f32 path source model row db =
    (let (piece, hash, embedding) = row; cid = new_chunk_id (db_next db)
     in db\<lparr>db_chunks := db_chunks db @ [\<lparr>cr_id = cid, cr_path = path, cr_source = source, cr_piece = piece,
                                        cr_hash = hash, cr_model = model\<rparr>],
           db_vec := db_vec db @ [(cid, map f32 embedding)],
           db_fts := db_fts db @ [(chunk_text piece, cid, path, source)],
           db_next := Suc (db_next db)\<rparr>)"

definition replace_chunks_for_file ::
  "(nat \<Rightarrow> string) \<Rightarrow> (real \<Rightarrow> real) \<Rightarrow> string \<Rightarrow> string \<Rightarrow> string \<Rightarrow> (chunk \<times> string \<times> vec) list \<Rightarrow> index_db \<Rightarrow>
   store_error option \<times> index_db" where
  "replace_chunks_for_file new_chunk_id f32 path source model rows db =
    (case (if rows = [] then (None, db) else ensure_vec_table (int (length (snd (snd (hd rows))))) db) of
       (Some err, db1) \<Rightarrow> (Some err, db1)
     | (None, db1) \<Rightarrow>
         if list_ex (\<lambda>(p, h, v). differs (int (length v)) (db_dim db1)) rows then (Some DimensionMismatch, db1)
         else if rows \<noteq> [] \<and> map_of (db_files db1) path = None then (Some MissingFile, db1)
         else (None, fold (insert_chunk new_chunk_id f32 path source model) rows (drop_chunks path db1)))"

definition clear_all :: "index_db \<Rightarrow> index_db" where
  "clear_all db = db\<lparr>db_vec := [], db_fts := [], db_chunks := [], db_files := []\<rparr>"

definition chunk_file_mtimes :: "index_db \<Rightarrow> string \<Rightarrow> real option" where
  "chunk_file_mtimes db path = map_option fr_mtime (map_of (db_files db) path)"

subsection \<open>The embedding cache\<close>

definition cache_get :: "string \<Rightarrow> string \<Rightarrow> string \<Rightarrow> index_db \<Rightarrow> vec option" where
  "cache_get provider model content_hash db = map_of (db_cache db) (provider, model, content_hash)"

definition cache_put :: "(real \<Rightarrow> real) \<Rightarrow> string \<Rightarrow> string \<Rightarrow> string \<times> vec \<Rightarrow> index_db \<Rightarrow> index_db" where
  "cache_put f32 provider model item db =
    db\<lparr>db_cache := dict_set (provider, model, fst item) (map f32 (snd item)) (db_cache db)\<rparr>"

definition cache_put_many :: "(real \<Rightarrow> real) \<Rightarrow> string \<Rightarrow> string \<Rightarrow> (string \<times> vec) list \<Rightarrow> index_db \<Rightarrow> index_db" where
  "cache_put_many f32 provider model items db = fold (cache_put f32 provider model) items db"

definition is_meaningful_vector :: "vec \<Rightarrow> bool" where
  "is_meaningful_vector v = list_ex (\<lambda>x. 1 / 10 ^ 6 < \<bar>x\<bar>) v"

text \<open>The parameters of the index, and the sizes of the chunker.\<close>

record embedder =
  em_provider :: string
  em_model :: string
  em_embed :: "string list \<Rightarrow> vec list option"

record index_env =
  ix_embedder :: embedder
  ix_sha_text :: "string \<Rightarrow> string"
  ix_sha_bytes :: "string \<Rightarrow> string"
  ix_decode :: "string \<Rightarrow> string"
  ix_f32 :: "real \<Rightarrow> real"
  ix_new_id :: "nat \<Rightarrow> string"
  ix_max_chars :: int
  ix_min_chars :: int

text \<open>The slots of the answer: the cached vectors, and the fresh ones in the slots of the misses.\<close>

fun fill_slots :: "'a option list \<Rightarrow> 'a list \<Rightarrow> 'a list" where
  "fill_slots [] fresh = []"
| "fill_slots (Some v # slots) fresh = v # fill_slots slots fresh"
| "fill_slots (None # slots) (f # fresh) = f # fill_slots slots fresh"
| "fill_slots (None # slots) [] = fill_slots slots []"

definition cached_embed ::
  "index_env \<Rightarrow> string list \<Rightarrow> index_db \<Rightarrow> (store_error + vec list \<times> int) \<times> index_db" where
  "cached_embed env texts db =
    (let em = ix_embedder env; provider = em_provider em; model = em_model em;
         slots = map (\<lambda>t. cache_get provider model (ix_sha_text env t) db) texts;
         misses = map fst (filter (\<lambda>(t, s). s = None) (zip texts slots));
         hits = int (length texts) - int (length misses)
     in if misses = [] then (Inr (fill_slots slots [], hits), db)
        else (case em_embed em misses of
                None \<Rightarrow> (Inl EmbeddingFailed, db)
              | Some fresh \<Rightarrow>
                  if length fresh \<noteq> length misses then (Inl LengthMismatch, db)
                  else (Inr (fill_slots slots fresh, hits),
                        cache_put_many (ix_f32 env) provider model
                          (filter (\<lambda>(h, v). is_meaningful_vector v) (zip (map (ix_sha_text env) misses) fresh)) db)))"

subsection \<open>Synchronising\<close>

datatype halt = SyncRaised store_error | Diverges

record sync_state =
  ss_db :: index_db
  ss_added :: int
  ss_changed :: int
  ss_deleted :: int
  ss_embedded :: int
  ss_hits :: int
  ss_meta_done :: bool

definition chunk_entry :: "index_env \<Rightarrow> walk_entry \<Rightarrow> chunk list option" where
  "chunk_entry env e = chunk_markdown (ix_decode env (we_data e)) (ix_max_chars env) (ix_min_chars env)"

definition row_of :: "index_env \<Rightarrow> string \<Rightarrow> walk_entry \<Rightarrow> file_row" where
  "row_of env source e =
    \<lparr>fr_source = source, fr_hash = ix_sha_bytes env (we_data e), fr_mtime = we_mtime e, fr_size = we_size e\<rparr>"

text \<open>From the pieces of a new or changed file to its rows.\<close>

definition index_pieces ::
  "index_env \<Rightarrow> string \<Rightarrow> walk_entry \<Rightarrow> chunk list \<Rightarrow> bool \<Rightarrow> sync_state \<Rightarrow> sync_state \<times> halt option" where
  "index_pieces env source e pieces is_new st =
    (let em = ix_embedder env; texts = map chunk_text pieces
     in case cached_embed env texts (ss_db st) of
          (Inl err, db1) \<Rightarrow> (st\<lparr>ss_db := db1\<rparr>, Some (SyncRaised err))
        | (Inr (vectors, hits), db1) \<Rightarrow>
           (let st1 = st\<lparr>ss_db := db1, ss_hits := ss_hits st + hits,
                         ss_embedded := ss_embedded st + (int (length texts) - hits)\<rparr>
            in case (if ss_meta_done st1 then (None, db1)
                     else ensure_schema_meta (em_provider em) (em_model em) (int (length (hd vectors))) db1) of
                 (Some err, db2) \<Rightarrow> (st1\<lparr>ss_db := db2\<rparr>, Some (SyncRaised err))
               | (None, db2) \<Rightarrow>
                  (let db3 = upsert_file (we_path e) (row_of env source e) db2;
                       rows = map (\<lambda>(p, v). (p, ix_sha_text env (chunk_text p), v)) (zip pieces vectors)
                   in case replace_chunks_for_file (ix_new_id env) (ix_f32 env) (we_path e) source (em_model em) rows db3 of
                        (Some err, db4) \<Rightarrow> (st1\<lparr>ss_db := db4, ss_meta_done := True\<rparr>, Some (SyncRaised err))
                      | (None, db4) \<Rightarrow>
                         (st1\<lparr>ss_db := db4, ss_meta_done := True,
                              ss_added := ss_added st + (if is_new then 1 else 0),
                              ss_changed := ss_changed st + (if is_new then 0 else 1)\<rparr>, None))))"

definition index_entry ::
  "index_env \<Rightarrow> string \<Rightarrow> (string \<Rightarrow> file_row option) \<Rightarrow> walk_entry \<Rightarrow> sync_state \<Rightarrow> sync_state \<times> halt option" where
  "index_entry env source existing e st =
    (let row = row_of env source e
     in if map_option fr_hash (existing (we_path e)) = Some (fr_hash row)
        then (if map_option (\<lambda>r. (fr_mtime r, fr_size r)) (existing (we_path e)) = Some (we_mtime e, we_size e) then (st, None)
              else (st\<lparr>ss_db := upsert_file (we_path e) row (ss_db st)\<rparr>, None))
        else (case chunk_entry env e of
                None \<Rightarrow> (st, Some Diverges)
              | Some pieces \<Rightarrow>
                  if pieces = [] then
                    (if existing (we_path e) = None then (st, None)
                     else (st\<lparr>ss_db := delete_file (we_path e) (ss_db st), ss_deleted := ss_deleted st + 1\<rparr>, None))
                  else index_pieces env source e pieces (existing (we_path e) = None) st))"

primrec index_entries ::
  "index_env \<Rightarrow> string \<Rightarrow> (string \<Rightarrow> file_row option) \<Rightarrow> walk_entry list \<Rightarrow> sync_state \<Rightarrow> sync_state \<times> halt option" where
  "index_entries env source existing [] st = (st, None)"
| "index_entries env source existing (e # es) st =
    (case index_entry env source existing e st of
       (st', None) \<Rightarrow> index_entries env source existing es st'
     | (st', Some h) \<Rightarrow> (st', Some h))"

definition drop_missing :: "string \<Rightarrow> sync_state \<Rightarrow> sync_state" where
  "drop_missing path st = st\<lparr>ss_db := delete_file path (ss_db st), ss_deleted := ss_deleted st + 1\<rparr>"

definition sync_source :: "index_env \<Rightarrow> string \<Rightarrow> walk_entry list \<Rightarrow> sync_state \<Rightarrow> sync_state \<times> halt option" where
  "sync_source env source entries st =
    (let existing = list_files source (ss_db st); seen = map we_path entries
     in case index_entries env source (map_of existing) entries st of
          (st', Some h) \<Rightarrow> (st', Some h)
        | (st', None) \<Rightarrow>
            (fold drop_missing (filter (\<lambda>p. p \<notin> set seen) (map fst existing)) st', None))"

text \<open>The sources are walked one after the other, with the limits of the walker and without its configuration.\<close>

primrec sync_sources ::
  "index_env \<Rightarrow> (string \<Rightarrow> string \<Rightarrow> bool) \<Rightarrow> (string \<times> node list option) list \<Rightarrow> sync_state \<Rightarrow> sync_state \<times> halt option" where
  "sync_sources env fnmatch [] st = (st, None)"
| "sync_sources env fnmatch (s # ss) st =
    (case sync_source env (fst s)
            (scan_memory_dir fnmatch DEFAULT_MAX_DEPTH DEFAULT_MAX_FILE_SIZE_BYTES None (snd s)) st of
       (st', None) \<Rightarrow> sync_sources env fnmatch ss st'
     | (st', Some h) \<Rightarrow> (st', Some h))"

definition sync_start :: "index_db \<Rightarrow> sync_state" where
  "sync_start db =
    \<lparr>ss_db = db, ss_added = 0, ss_changed = 0, ss_deleted = 0, ss_embedded = 0, ss_hits = 0, ss_meta_done = False\<rparr>"

definition memory_sync ::
  "index_env \<Rightarrow> (string \<Rightarrow> string \<Rightarrow> bool) \<Rightarrow> (string \<times> node list option) list \<Rightarrow> index_db \<Rightarrow> sync_state \<times> halt option" where
  "memory_sync env fnmatch sources db = sync_sources env fnmatch sources (sync_start db)"

subsection \<open>Files and their chunks\<close>

text \<open>What the tables say about a path: its row, and its chunks in their order.\<close>

definition file_of :: "index_db \<Rightarrow> string \<Rightarrow> file_row option" where
  "file_of db = map_of (db_files db)"

definition file_chunks :: "index_db \<Rightarrow> string \<Rightarrow> chunk list" where
  "file_chunks db path = map cr_piece (filter (\<lambda>c. cr_path c = path) (db_chunks db))"

lemma upsert_view [simp]:
  "file_of (upsert_file p r db) = (file_of db)(p \<mapsto> r)" "file_chunks (upsert_file p r db) = file_chunks db"
  by (auto simp: file_of_def file_chunks_def upsert_file_def map_of_dict_set)

lemma drop_chunks_view [simp]:
  "file_of (drop_chunks p db) = file_of db" "file_chunks (drop_chunks p db) = (file_chunks db)(p := [])"
  by (auto simp: file_of_def file_chunks_def drop_chunks_def Let_def fun_eq_iff filter_empty_conv
      intro!: arg_cong [where f = "map cr_piece"] filter_cong)

lemma delete_view [simp]:
  "file_of (delete_file p db) = (file_of db)(p := None)" "file_chunks (delete_file p db) = (file_chunks db)(p := [])"
  using drop_chunks_view [of p db]
  by (simp_all add: file_of_def file_chunks_def delete_file_def drop_chunks_def Let_def map_of_dict_pop fun_eq_iff)

lemma insert_chunk_view:
  "file_of (insert_chunk new_id f32 p source model r db) = file_of db"
  "file_chunks (insert_chunk new_id f32 p source model r db) q = file_chunks db q @ (if q = p then [fst r] else [])"
  by (auto simp: file_of_def file_chunks_def insert_chunk_def Let_def split: prod.split)

lemma insert_chunks_view:
  "file_of (fold (insert_chunk new_id f32 p source model) rows db) = file_of db"
  "file_chunks (fold (insert_chunk new_id f32 p source model) rows db) q = file_chunks db q @ (if q = p then map fst rows else [])"
  by (induction rows arbitrary: db) (simp_all add: insert_chunk_view)

lemma cache_view [simp]:
  "file_of (cache_put_many f32 provider model items db) = file_of db"
  "file_chunks (cache_put_many f32 provider model items db) = file_chunks db"
proof -
  have "file_of (cache_put_many f32 provider model items db) = file_of db \<and>
      file_chunks (cache_put_many f32 provider model items db) = file_chunks db"
    unfolding cache_put_many_def
    by (induction items arbitrary: db) (simp_all add: cache_put_def file_of_def file_chunks_def fun_eq_iff)
  then show "file_of (cache_put_many f32 provider model items db) = file_of db"
    "file_chunks (cache_put_many f32 provider model items db) = file_chunks db" by simp_all
qed

text \<open>The laws of a table of files with their chunks, as far as the indexer relies on them.\<close>

locale file_table =
  fixes row :: "'s \<Rightarrow> string \<Rightarrow> 'r option" and chunks :: "'s \<Rightarrow> string \<Rightarrow> 'c list"
    and remove :: "string \<Rightarrow> 's \<Rightarrow> 's"
  assumes row_remove: "row (remove p s) = (row s)(p := None)"
    and chunks_remove: "chunks (remove p s) = (chunks s)(p := [])"
begin

definition orphan_free :: "'s \<Rightarrow> bool" where
  "orphan_free s \<longleftrightarrow> (\<forall>p. row s p = None \<longrightarrow> chunks s p = [])"

lemma remove_all:
  "row (fold remove ps s) q = (if q \<in> set ps then None else row s q)"
  "chunks (fold remove ps s) q = (if q \<in> set ps then [] else chunks s q)"
  by (induction ps arbitrary: s) (simp_all add: row_remove chunks_remove)

lemma orphan_free_remove: "orphan_free s \<Longrightarrow> orphan_free (remove p s)"
  by (simp add: orphan_free_def row_remove chunks_remove)

end

interpretation memory_store: file_table file_of file_chunks delete_file
  by unfold_locales simp_all

subsection \<open>The dimensions agree\<close>

definition cache_dims :: "embedder \<Rightarrow> nat \<Rightarrow> ((string \<times> string \<times> string) \<times> vec) list \<Rightarrow> bool" where
  "cache_dims em d cache \<longleftrightarrow>
    (\<forall>h v. map_of cache (em_provider em, em_model em, h) = Some v \<longrightarrow> length v = d)"

definition dims_ok :: "index_env \<Rightarrow> nat \<Rightarrow> index_db \<Rightarrow> bool" where
  "dims_ok env d db \<longleftrightarrow>
    (let em = ix_embedder env
     in \<not> differs (int d) (db_dim db) \<and> \<not> differs (int d) (db_meta_dims db) \<and>
        \<not> differs (em_model em) (db_meta_model db) \<and> \<not> differs (em_provider em) (db_meta_provider db) \<and>
        cache_dims em d (db_cache db) \<and>
        list_all (\<lambda>(i, v). length v = d) (db_vec db))"

text \<open>An embedding service that answers every request, with one vector of \<open>d\<close> components for each text.\<close>

definition serves :: "embedder \<Rightarrow> nat \<Rightarrow> bool" where
  "serves em d \<longleftrightarrow>
    (\<forall>ts. \<exists>vs. em_embed em ts = Some vs \<and> length vs = length ts \<and> list_all (\<lambda>v. length v = d) vs)"

lemma fill_slots_filled:
  assumes "length fresh = length (filter (\<lambda>s. s = None) slots)"
  shows "length (fill_slots slots fresh) = length slots \<and>
    set (fill_slots slots fresh) \<subseteq> set fresh \<union> {v. Some v \<in> set slots}"
  using assms by (induction slots fresh rule: fill_slots.induct) auto

lemma cache_put_dims:
  assumes "dims_ok env d db" and "length (snd item) = d"
  shows "dims_ok env d (cache_put f32 provider model item db)"
  using assms by (simp add: dims_ok_def Let_def cache_put_def cache_dims_def map_of_dict_set)

lemma cache_put_many_dims:
  "dims_ok env d db \<Longrightarrow> list_all (\<lambda>i. length (snd i) = d) items \<Longrightarrow>
   dims_ok env d (cache_put_many f32 provider model items db)"
  unfolding cache_put_many_def
  by (induction items arbitrary: db) (simp_all add: cache_put_dims)

lemma cache_put_many_update:
  "cache_put_many f32 provider model items db = db\<lparr>db_cache := db_cache (cache_put_many f32 provider model items db)\<rparr>"
  unfolding cache_put_many_def
proof (induction items arbitrary: db)
  case (Cons i items)
  from Cons.IH [of "cache_put f32 provider model i db"]
  show ?case by (cases db) (simp add: cache_put_def)
qed simp

lemma cached_embed_serves:
  assumes "serves (ix_embedder env) d" and "dims_ok env d db"
  shows "\<exists>vs hits db'. cached_embed env texts db = (Inr (vs, hits), db') \<and> length vs = length texts \<and>
    list_all (\<lambda>v. length v = d) vs \<and> dims_ok env d db' \<and> file_of db' = file_of db \<and> file_chunks db' = file_chunks db \<and>
    db' = db\<lparr>db_cache := db_cache db'\<rparr>"
proof -
  let ?em = "ix_embedder env"
  define slots where "slots = map (\<lambda>t. cache_get (em_provider ?em) (em_model ?em) (ix_sha_text env t) db) texts"
  define misses where "misses = map fst (filter (\<lambda>(t, s). s = None) (zip texts slots))"
  have old: "length v = d" if "Some v \<in> set slots" for v
    using that assms(2) by (fastforce simp: slots_def cache_get_def dims_ok_def cache_dims_def Let_def)
  have len: "length misses = length (filter (\<lambda>s. s = None) slots)" "length slots = length texts"
  proof -
    have "length slots = length texts" by (simp add: slots_def)
    moreover have "length (filter (\<lambda>(t, s). s = None) (zip ts ss)) = length (filter (\<lambda>s. s = None) ss)"
      if "length ss = length ts" for ts :: "string list" and ss :: "vec option list"
      using that by (induction ss ts rule: list_induct2) auto
    ultimately show "length misses = length (filter (\<lambda>s. s = None) slots)" "length slots = length texts"
      by (simp_all add: misses_def)
  qed
  show ?thesis
  proof (cases "misses = []")
    case True
    with fill_slots_filled [of "[]" slots] len old have "length (fill_slots slots []) = length texts"
      "list_all (\<lambda>v. length v = d) (fill_slots slots [])" by (auto simp: list_all_iff)
    moreover have "cached_embed env texts db = (Inr (fill_slots slots [], int (length texts)), db)"
      using True by (simp add: cached_embed_def Let_def slots_def misses_def)
    ultimately show ?thesis using assms(2) by simp
  next
    case False
    from assms(1) obtain fresh where fresh: "em_embed ?em misses = Some fresh" "length fresh = length misses"
      "list_all (\<lambda>v. length v = d) fresh" unfolding serves_def by blast
    let ?batch = "filter (\<lambda>(h, v). is_meaningful_vector v) (zip (map (ix_sha_text env) misses) fresh)"
    let ?db = "cache_put_many (ix_f32 env) (em_provider ?em) (em_model ?em) ?batch db"
    have "cached_embed env texts db =
        (Inr (fill_slots slots fresh, int (length texts) - int (length misses)), ?db)"
      unfolding cached_embed_def Let_def slots_def [symmetric] misses_def [symmetric] using False fresh(1,2) by simp
    moreover have "length (fill_slots slots fresh) = length texts" "list_all (\<lambda>v. length v = d) (fill_slots slots fresh)"
      using fill_slots_filled [of fresh slots] fresh(2,3) len old by (auto simp: list_all_iff)
    moreover have "dims_ok env d ?db"
      using assms(2) fresh(3) by (intro cache_put_many_dims) (auto simp: list_all_iff dest: set_zip_rightD)
    moreover have "?db = db\<lparr>db_cache := db_cache ?db\<rparr>" by (rule cache_put_many_update)
    ultimately show ?thesis
      by (intro exI [of _ "fill_slots slots fresh"] exI [of _ "int (length texts) - int (length misses)"] exI [of _ ?db])
        simp
  qed
qed

subsection \<open>The tables agree\<close>

text \<open>Every chunk has its vector and its full-text row, and identifiers are fresh.\<close>

definition fts_row :: "chunk_row \<Rightarrow> string \<times> string \<times> string \<times> string" where
  "fts_row c = (chunk_text (cr_piece c), cr_id c, cr_path c, cr_source c)"

definition tables_ok :: "index_env \<Rightarrow> index_db \<Rightarrow> bool" where
  "tables_ok env db \<longleftrightarrow>
    map fst (db_vec db) = map cr_id (db_chunks db) \<and> db_fts db = map fts_row (db_chunks db) \<and>
    distinct (map cr_id (db_chunks db)) \<and> (\<forall>c \<in> set (db_chunks db). \<exists>k < db_next db. cr_id c = ix_new_id env k)"

lemma tables_drop_chunks:
  assumes "tables_ok env db"
  shows "tables_ok env (drop_chunks p db)"
proof -
  let ?gone = "set (chunk_ids p db)" and ?cs = "db_chunks db"
  have gone: "cr_id c \<in> ?gone \<longleftrightarrow> cr_path c = p" if "c \<in> set ?cs" for c
    using assms that by (auto simp: chunk_ids_def tables_ok_def distinct_map inj_on_eq_iff)
  have "map fst (filter (\<lambda>(i, v). i \<notin> ?gone) vs) = filter (\<lambda>i. i \<notin> ?gone) (map fst vs)" for vs :: "(string \<times> vec) list"
    by (induction vs) auto
  moreover have keep: "filter (\<lambda>c. cr_id c \<notin> ?gone) ?cs = filter (\<lambda>c. cr_path c \<noteq> p) ?cs"
    using gone by (intro filter_cong) auto
  moreover have "filter (\<lambda>i. i \<notin> ?gone) (map cr_id ?cs) = map cr_id (filter (\<lambda>c. cr_path c \<noteq> p) ?cs)"
    by (simp add: filter_map o_def keep)
  moreover have "filter (\<lambda>(t, i, q, s). i \<notin> ?gone) (map fts_row ?cs) = map fts_row (filter (\<lambda>c. cr_path c \<noteq> p) ?cs)"
    by (simp add: filter_map o_def fts_row_def keep)
  ultimately show ?thesis
    using assms by (auto simp: tables_ok_def drop_chunks_def Let_def distinct_map inj_on_def)
qed

lemma tables_insert:
  assumes "tables_ok env db" and "inj (ix_new_id env)"
  shows "tables_ok env (insert_chunk (ix_new_id env) f32 p source model row db)"
proof -
  have "ix_new_id env (db_next db) \<noteq> cr_id c" if "c \<in> set (db_chunks db)" for c
  proof -
    from assms(1) that obtain k where "k < db_next db" "cr_id c = ix_new_id env k" by (auto simp: tables_ok_def)
    with injD [OF assms(2), of "db_next db" k] show ?thesis by auto
  qed
  with assms(1) show ?thesis
    by (auto simp: tables_ok_def insert_chunk_def Let_def fts_row_def less_Suc_eq split: prod.split)
qed

lemma tables_inserts:
  "tables_ok env db \<Longrightarrow> inj (ix_new_id env) \<Longrightarrow>
   tables_ok env (fold (insert_chunk (ix_new_id env) f32 p source model) rows db)"
  by (induction rows arbitrary: db) (simp_all add: tables_insert)

lemma tables_same:
  "db_vec db' = db_vec db \<Longrightarrow> db_fts db' = db_fts db \<Longrightarrow> db_chunks db' = db_chunks db \<Longrightarrow> db_next db' = db_next db \<Longrightarrow>
   tables_ok env db' \<longleftrightarrow> tables_ok env db"
  by (simp add: tables_ok_def)

lemma dims_drop_chunks:
  assumes "dims_ok env d db"
  shows "dims_ok env d (drop_chunks p db)"
proof -
  have "list_all P xs \<Longrightarrow> list_all P (filter Q xs)" for P Q and xs :: "(string \<times> vec) list"
    by (simp add: list_all_iff)
  then show ?thesis using assms by (simp add: dims_ok_def drop_chunks_def Let_def)
qed

lemma dims_inserts:
  "dims_ok env d db \<Longrightarrow> list_all (\<lambda>r. length (snd (snd r)) = d) rows \<Longrightarrow>
   dims_ok env d (fold (insert_chunk new_id f32 p source model) rows db)"
proof (induction rows arbitrary: db)
  case (Cons r rows)
  then have "dims_ok env d (insert_chunk new_id f32 p source model r db)"
    by (cases r) (simp add: insert_chunk_def dims_ok_def Let_def)
  with Cons show ?case by simp
qed simp

text \<open>What holds of the tables between two steps, and what a step does to the files.\<close>

definition of_source :: "string \<Rightarrow> index_db \<Rightarrow> bool" where
  "of_source source db \<longleftrightarrow> (\<forall>p r. (p, r) \<in> set (db_files db) \<longrightarrow> fr_source r = source)"

definition tidy :: "index_env \<Rightarrow> string \<Rightarrow> nat \<Rightarrow> index_db \<Rightarrow> bool" where
  "tidy env source d db \<longleftrightarrow> dims_ok env d db \<and> tables_ok env db \<and> of_source source db"

lemma tidy_source: "tidy env source d db \<Longrightarrow> file_of db p = Some r \<Longrightarrow> fr_source r = source"
  unfolding tidy_def of_source_def file_of_def by (blast dest: map_of_SomeD)

lemma tidy_upsert:
  assumes "tidy env source d db" and "fr_source r = source"
  shows "tidy env source d (upsert_file p r db)"
proof -
  have "of_source source (upsert_file p r db)"
    using assms set_dict_set [of p r "db_files db"] by (auto simp: tidy_def of_source_def upsert_file_def)
  with assms(1) show ?thesis by (simp add: tidy_def dims_ok_def tables_ok_def upsert_file_def Let_def)
qed

lemma tidy_delete:
  assumes "tidy env source d db"
  shows "tidy env source d (delete_file p db)"
proof -
  have "of_source source (delete_file p db)"
    using assms by (auto simp: tidy_def of_source_def delete_file_def drop_chunks_def Let_def dict_pop_def)
  then show ?thesis using assms dims_drop_chunks [of env d db p] tables_drop_chunks [of env db p]
    by (simp add: tidy_def dims_ok_def tables_ok_def delete_file_def Let_def)
qed

lemma ensure_vec_table_tidy:
  assumes "tidy env source d db"
  shows "\<exists>db'. ensure_vec_table (int d) db = (None, db') \<and> tidy env source d db' \<and> db_dim db' = Some (int d) \<and>
    file_of db' = file_of db \<and> file_chunks db' = file_chunks db"
  using assms
  by (auto simp: ensure_vec_table_def tidy_def of_source_def dims_ok_def tables_ok_def Let_def differs_def file_of_def file_chunks_def
      fun_eq_iff split: option.split)

lemma ensure_schema_meta_tidy:
  assumes "tidy env source d db"
  shows "\<exists>db'. ensure_schema_meta (em_provider (ix_embedder env)) (em_model (ix_embedder env)) (int d) db = (None, db') \<and>
    tidy env source d db' \<and> file_of db' = file_of db \<and> file_chunks db' = file_chunks db"
proof -
  let ?em = "ix_embedder env"
  let ?db = "db\<lparr>db_meta_provider := Some (em_provider ?em), db_meta_model := Some (em_model ?em), db_meta_dims := Some (int d)\<rparr>"
  have "tidy env source d ?db" using assms by (simp add: tidy_def of_source_def dims_ok_def tables_ok_def Let_def differs_def)
  from ensure_vec_table_tidy [OF this] obtain db' where
    db': "ensure_vec_table (int d) ?db = (None, db')" "tidy env source d db'" "file_of db' = file_of ?db" "file_chunks db' = file_chunks ?db"
    by blast
  have "file_of ?db = file_of db" "file_chunks ?db = file_chunks db" by (simp_all add: file_of_def file_chunks_def fun_eq_iff)
  with db' assms show ?thesis by (simp add: ensure_schema_meta_def tidy_def dims_ok_def Let_def)
qed

lemma inserts_files: "db_files (fold (insert_chunk new_id f32 p owner model) rows db) = db_files db"
  by (induction rows arbitrary: db) (auto simp: insert_chunk_def Let_def split: prod.split)

lemma replace_chunks_tidy:
  assumes "tidy env source d db" and "inj (ix_new_id env)" and "rows \<noteq> []" and "list_all (\<lambda>r. length (snd (snd r)) = d) rows"
    and "file_of db p \<noteq> None"
  shows "\<exists>db'. replace_chunks_for_file (ix_new_id env) f32 p owner model rows db = (None, db') \<and> tidy env source d db' \<and>
    file_of db' = file_of db \<and> file_chunks db' = (file_chunks db)(p := map fst rows)"
proof -
  from ensure_vec_table_tidy [OF assms(1)] obtain db1 where
    db1: "ensure_vec_table (int d) db = (None, db1)" "tidy env source d db1" "db_dim db1 = Some (int d)"
    "file_of db1 = file_of db" "file_chunks db1 = file_chunks db" by blast
  let ?db = "fold (insert_chunk (ix_new_id env) f32 p owner model) rows (drop_chunks p db1)"
  have "length (snd (snd (hd rows))) = d" using assms(3,4) by (cases rows) auto
  moreover have "\<not> list_ex (\<lambda>(c, h, v). differs (int (length v)) (db_dim db1)) rows"
    using assms(4) db1(3) by (auto simp: list_ex_iff list_all_iff differs_def)
  moreover have "map_of (db_files db1) p \<noteq> None" using assms(5) db1(4) by (simp add: file_of_def)
  ultimately have "replace_chunks_for_file (ix_new_id env) f32 p owner model rows db = (None, ?db)"
    using assms(3) db1(1) by (simp add: replace_chunks_for_file_def)
  moreover have "of_source source ?db"
    using db1(2) by (simp add: tidy_def of_source_def inserts_files) (simp add: drop_chunks_def Let_def)
  then have "tidy env source d ?db"
    using db1(2) assms(2,4) by (simp add: tidy_def tables_inserts tables_drop_chunks dims_inserts dims_drop_chunks)
  moreover have "file_of ?db = file_of db" "file_chunks ?db = (file_chunks db)(p := map fst rows)"
    using db1(4,5) by (auto simp: insert_chunks_view fun_eq_iff)
  ultimately show ?thesis by blast
qed

subsection \<open>The index mirrors the corpus\<close>

text \<open>The hash of a row is that of some bytes whose chunks are those of the file.\<close>

definition hash_ok :: "index_env \<Rightarrow> index_db \<Rightarrow> string \<Rightarrow> bool" where
  "hash_ok env db p \<longleftrightarrow>
    (\<forall>r. file_of db p = Some r \<longrightarrow>
       (\<exists>bytes. fr_hash r = ix_sha_bytes env bytes \<and>
          chunk_markdown (ix_decode env bytes) (ix_max_chars env) (ix_min_chars env) = Some (file_chunks db p)) \<and>
       file_chunks db p \<noteq> [])"

definition indexed :: "index_env \<Rightarrow> string \<Rightarrow> walk_entry \<Rightarrow> index_db \<Rightarrow> bool" where
  "indexed env source e db \<longleftrightarrow>
    chunk_entry env e = Some (file_chunks db (we_path e)) \<and>
    file_of db (we_path e) = (if file_chunks db (we_path e) = [] then None else Some (row_of env source e))"

definition env_ok :: "index_env \<Rightarrow> nat \<Rightarrow> bool" where
  "env_ok env d \<longleftrightarrow>
    serves (ix_embedder env) d \<and> inj (ix_sha_bytes env) \<and> inj (ix_new_id env) \<and> 0 < ix_max_chars env"

lemma index_pieces_works:
  assumes "env_ok env d" and "tidy env source d (ss_db st)" and "pieces \<noteq> []"
  shows "\<exists>st'. index_pieces env source e pieces is_new st = (st', None) \<and> tidy env source d (ss_db st') \<and>
    file_of (ss_db st') = (file_of (ss_db st))(we_path e \<mapsto> row_of env source e) \<and>
    file_chunks (ss_db st') = (file_chunks (ss_db st))(we_path e := pieces)"
proof -
  let ?em = "ix_embedder env" and ?texts = "map chunk_text pieces"
  have em: "serves ?em d" and ids: "inj (ix_new_id env)" using assms(1) by (simp_all add: env_ok_def)
  have dims: "dims_ok env d (ss_db st)" using assms(2) by (simp add: tidy_def)
  obtain vs hits db1 where e1: "cached_embed env ?texts (ss_db st) = (Inr (vs, hits), db1)" "length vs = length pieces"
    "list_all (\<lambda>v. length v = d) vs" "dims_ok env d db1" "file_of db1 = file_of (ss_db st)"
    "file_chunks db1 = file_chunks (ss_db st)" "db1 = (ss_db st)\<lparr>db_cache := db_cache db1\<rparr>"
    using cached_embed_serves [OF em dims, of ?texts] by auto
  have "tables_ok env ((ss_db st)\<lparr>db_cache := db_cache db1\<rparr>)" "of_source source ((ss_db st)\<lparr>db_cache := db_cache db1\<rparr>)"
    using assms(2) by (simp_all add: tidy_def tables_ok_def of_source_def)
  then have t1: "tidy env source d db1" using e1(4,7) by (simp add: tidy_def)
  have hd: "length (hd vs) = d" using e1(2,3) assms(3) by (cases vs) auto
  obtain db2 where e2: "(if ss_meta_done st then (None, db1)
      else ensure_schema_meta (em_provider ?em) (em_model ?em) (int (length (hd vs))) db1) = (None, db2)"
    "tidy env source d db2" "file_of db2 = file_of (ss_db st)" "file_chunks db2 = file_chunks (ss_db st)"
  proof (cases "ss_meta_done st")
    case True
    then show ?thesis using t1 e1(5,6) by (intro that [of db1]) simp_all
  next
    case False
    from ensure_schema_meta_tidy [OF t1] obtain db2 where
      "ensure_schema_meta (em_provider ?em) (em_model ?em) (int d) db1 = (None, db2)" "tidy env source d db2"
      "file_of db2 = file_of db1" "file_chunks db2 = file_chunks db1" by blast
    with False hd e1(5,6) show ?thesis by (intro that [of db2]) simp_all
  qed
  let ?db3 = "upsert_file (we_path e) (row_of env source e) db2"
  let ?rows = "map (\<lambda>(p, v). (p, ix_sha_text env (chunk_text p), v)) (zip pieces vs)"
  have rows: "?rows \<noteq> []" "list_all (\<lambda>r. length (snd (snd r)) = d) ?rows" "map fst ?rows = pieces"
    using e1(2,3) assms(3) by (auto simp: list_all_iff o_def split_def dest: set_zip_rightD)
  have src: "fr_source (row_of env source e) = source" by (simp add: row_of_def)
  have there: "file_of ?db3 (we_path e) \<noteq> None" by simp
  obtain db4 where e4: "replace_chunks_for_file (ix_new_id env) (ix_f32 env) (we_path e) source (em_model ?em) ?rows ?db3
      = (None, db4)" "tidy env source d db4" "file_of db4 = file_of ?db3"
    "file_chunks db4 = (file_chunks ?db3)(we_path e := map fst ?rows)"
    using replace_chunks_tidy [OF tidy_upsert [OF e2(2) src] ids rows(1,2) there] by blast
  have "\<exists>st'. index_pieces env source e pieces is_new st = (st', None) \<and> ss_db st' = db4"
    using e1(1) e2(1) e4(1) by (simp add: index_pieces_def Let_def)
  with e2(3,4) e4(2-4) rows(3) show ?thesis by auto
qed

lemma index_entry_changed:
  assumes "map_option fr_hash (existing (we_path e)) \<noteq> Some (ix_sha_bytes env (we_data e))"
    and "chunk_entry env e = Some pieces"
  shows "index_entry env source existing e st =
    (if pieces = [] then
       (if existing (we_path e) = None then (st, None)
        else (st\<lparr>ss_db := delete_file (we_path e) (ss_db st), ss_deleted := ss_deleted st + 1\<rparr>, None))
     else index_pieces env source e pieces (existing (we_path e) = None) st)"
proof -
  have "fr_hash (row_of env source e) = ix_sha_bytes env (we_data e)" by (simp add: row_of_def)
  with assms(1) show ?thesis unfolding index_entry_def Let_def assms(2) option.case by (simp only: if_False)
qed

text \<open>One entry: it is indexed afterwards, and the other files are as before.\<close>

lemma index_entry_works:
  assumes "env_ok env d" and "tidy env source d (ss_db st)" and "hash_ok env (ss_db st) (we_path e)"
    and "existing (we_path e) = file_of (ss_db st) (we_path e)"
    and "file_of (ss_db st) (we_path e) = None \<Longrightarrow> file_chunks (ss_db st) (we_path e) = []"
  shows "\<exists>st'. index_entry env source existing e st = (st', None) \<and> tidy env source d (ss_db st') \<and>
    indexed env source e (ss_db st') \<and>
    (\<forall>q. q \<noteq> we_path e \<longrightarrow> file_of (ss_db st') q = file_of (ss_db st) q \<and> file_chunks (ss_db st') q = file_chunks (ss_db st) q)"
proof (cases "map_option fr_hash (existing (we_path e)) = Some (ix_sha_bytes env (we_data e))")
  case True
  then obtain r where r: "file_of (ss_db st) (we_path e) = Some r" "fr_hash r = ix_sha_bytes env (we_data e)"
    using assms(4) by auto
  with assms(3) obtain bytes where b: "fr_hash r = ix_sha_bytes env bytes" "file_chunks (ss_db st) (we_path e) \<noteq> []"
    "chunk_markdown (ix_decode env bytes) (ix_max_chars env) (ix_min_chars env) = Some (file_chunks (ss_db st) (we_path e))"
    by (auto simp: hash_ok_def)
  have "inj (ix_sha_bytes env)" using assms(1) by (simp add: env_ok_def)
  then have "bytes = we_data e" using r(2) b(1) by (simp add: inj_eq)
  with b(3) have ce: "chunk_entry env e = Some (file_chunks (ss_db st) (we_path e))" by (simp add: chunk_entry_def)
  show ?thesis
  proof (cases "(fr_mtime r, fr_size r) = (we_mtime e, we_size e)")
    case True
    then have "r = row_of env source e" using r(2) tidy_source [OF assms(2) r(1)] by (cases r) (simp add: row_of_def)
    moreover have "index_entry env source existing e st = (st, None)"
      using r True assms(4) by (simp add: index_entry_def Let_def row_of_def)
    ultimately show ?thesis using assms(2) ce b(2) r(1) by (simp add: indexed_def)
  next
    case False
    then have "index_entry env source existing e st =
        (st\<lparr>ss_db := upsert_file (we_path e) (row_of env source e) (ss_db st)\<rparr>, None)"
      using r assms(4) by (auto simp: index_entry_def Let_def row_of_def)
    then show ?thesis using assms(2) ce b(2) by (simp add: indexed_def tidy_upsert row_of_def)
  qed
next
  case changed: False
  have "0 < ix_max_chars env" using assms(1) by (simp add: env_ok_def)
  then obtain pieces where p: "chunk_entry env e = Some pieces"
    unfolding chunk_entry_def using chunk_markdown_total by blast
  show ?thesis
  proof (cases "pieces = []")
    case True
    show ?thesis
    proof (cases "existing (we_path e) = None")
      case None: True
      then have "index_entry env source existing e st = (st, None)"
        using True by (simp add: index_entry_changed [where existing = existing and e = e, OF changed p])
      then show ?thesis using assms(2,4,5) None p True by (simp add: indexed_def)
    next
      case False
      then have "index_entry env source existing e st =
          (st\<lparr>ss_db := delete_file (we_path e) (ss_db st), ss_deleted := ss_deleted st + 1\<rparr>, None)"
        unfolding index_entry_changed [where existing = existing and e = e, OF changed p] using True
        by (simp only: if_True if_False simp_thms)
      then show ?thesis using assms(2) p True by (simp add: indexed_def tidy_delete)
    qed
  next
    case False
    then have "index_entry env source existing e st =
        index_pieces env source e pieces (existing (we_path e) = None) st"
      by (simp add: index_entry_changed [where existing = existing and e = e, OF changed p])
    moreover obtain st' where "index_pieces env source e pieces (existing (we_path e) = None) st = (st', None)"
      "tidy env source d (ss_db st')" "file_of (ss_db st') = (file_of (ss_db st))(we_path e \<mapsto> row_of env source e)"
      "file_chunks (ss_db st') = (file_chunks (ss_db st))(we_path e := pieces)"
      using index_pieces_works [OF assms(1,2) False] by blast
    ultimately show ?thesis using False p by (intro exI [of _ st']) (simp add: indexed_def)
  qed
qed

lemma indexed_same:
  "file_of db' (we_path e) = file_of db (we_path e) \<Longrightarrow> file_chunks db' (we_path e) = file_chunks db (we_path e) \<Longrightarrow>
   indexed env source e db' \<longleftrightarrow> indexed env source e db"
  by (simp add: indexed_def)

lemma index_entries_work:
  assumes "env_ok env d" and "tidy env source d (ss_db st)" and "distinct (map we_path es)"
    and "\<And>e. e \<in> set es \<Longrightarrow> hash_ok env (ss_db st) (we_path e)"
    and "\<And>e. e \<in> set es \<Longrightarrow> existing (we_path e) = file_of (ss_db st) (we_path e)"
    and "\<And>p. file_of (ss_db st) p = None \<Longrightarrow> file_chunks (ss_db st) p = []"
  shows "\<exists>st'. index_entries env source existing es st = (st', None) \<and> tidy env source d (ss_db st') \<and>
    (\<forall>e \<in> set es. indexed env source e (ss_db st')) \<and>
    (\<forall>q. q \<notin> we_path ` set es \<longrightarrow> file_of (ss_db st') q = file_of (ss_db st) q \<and> file_chunks (ss_db st') q = file_chunks (ss_db st) q)"
  using assms(2-)
proof (induction es arbitrary: st)
  case (Cons e es)
  have "hash_ok env (ss_db st) (we_path e)" "existing (we_path e) = file_of (ss_db st) (we_path e)"
    using Cons.prems(3,4) by simp_all
  from index_entry_works [where existing = existing and e = e and source = source, OF assms(1) Cons.prems(1) this Cons.prems(5) [of "we_path e"]]
  obtain st1 where
    s1: "index_entry env source existing e st = (st1, None)" "tidy env source d (ss_db st1)" "indexed env source e (ss_db st1)"
    "\<And>q. q \<noteq> we_path e \<Longrightarrow> file_of (ss_db st1) q = file_of (ss_db st) q"
    "\<And>q. q \<noteq> we_path e \<Longrightarrow> file_chunks (ss_db st1) q = file_chunks (ss_db st) q"
    by blast
  have other: "we_path e' \<noteq> we_path e" if "e' \<in> set es" for e'
    using Cons.prems(2) that by (metis distinct.simps(2) image_eqI list.set_map list.simps(9))
  have orphan: "file_chunks (ss_db st1) p = []" if "file_of (ss_db st1) p = None" for p
    using that s1(3,4,5) Cons.prems(5) by (cases "p = we_path e") (auto simp: indexed_def split: if_splits)
  have "\<exists>st'. index_entries env source existing es st1 = (st', None) \<and> tidy env source d (ss_db st') \<and>
    (\<forall>e \<in> set es. indexed env source e (ss_db st')) \<and>
    (\<forall>q. q \<notin> we_path ` set es \<longrightarrow> file_of (ss_db st') q = file_of (ss_db st1) q \<and> file_chunks (ss_db st') q = file_chunks (ss_db st1) q)"
  proof (rule Cons.IH [OF s1(2) _ _ _ orphan])
    show "distinct (map we_path es)" using Cons.prems(2) by simp
    show "hash_ok env (ss_db st1) (we_path e')" if "e' \<in> set es" for e'
      using Cons.prems(3) [of e'] that other [OF that] s1(4,5) by (simp add: hash_ok_def)
    show "existing (we_path e') = file_of (ss_db st1) (we_path e')" if "e' \<in> set es" for e'
      using Cons.prems(4) [of e'] that other [OF that] s1(4) by simp
  qed
  then obtain st' where s': "index_entries env source existing es st1 = (st', None)" "tidy env source d (ss_db st')"
    "\<forall>e \<in> set es. indexed env source e (ss_db st')"
    "\<And>q. q \<notin> we_path ` set es \<Longrightarrow> file_of (ss_db st') q = file_of (ss_db st1) q"
    "\<And>q. q \<notin> we_path ` set es \<Longrightarrow> file_chunks (ss_db st') q = file_chunks (ss_db st1) q"
    by blast
  have "we_path e \<notin> we_path ` set es" using Cons.prems(2) by simp
  then have "indexed env source e (ss_db st')" using s1(3) s'(4,5) by (simp add: indexed_def)
  with s1(1,4,5) s' show ?case by auto
qed simp

definition mirrors :: "index_env \<Rightarrow> string \<Rightarrow> walk_entry list \<Rightarrow> index_db \<Rightarrow> bool" where
  "mirrors env source es db \<longleftrightarrow>
    (\<forall>e \<in> set es. indexed env source e db) \<and>
    (\<forall>p. p \<notin> we_path ` set es \<longrightarrow> file_of db p = None \<and> file_chunks db p = [])"

definition index_ok :: "index_env \<Rightarrow> string \<Rightarrow> nat \<Rightarrow> index_db \<Rightarrow> bool" where
  "index_ok env source d db \<longleftrightarrow>
    tidy env source d db \<and> (\<forall>p. hash_ok env db p) \<and> memory_store.orphan_free db"

lemma mirrors_index_ok:
  assumes "tidy env source d db" and "mirrors env source es db"
  shows "index_ok env source d db"
proof -
  have "hash_ok env db p" for p
  proof (cases "p \<in> we_path ` set es")
    case True
    with assms(2) obtain e where "p = we_path e" "indexed env source e db" by (auto simp: mirrors_def)
    then show ?thesis by (auto simp: hash_ok_def indexed_def chunk_entry_def row_of_def split: if_splits)
  next
    case False
    with assms(2) show ?thesis by (simp add: hash_ok_def mirrors_def)
  qed
  moreover have "memory_store.orphan_free db"
    unfolding memory_store.orphan_free_def
  proof (intro allI impI)
    fix p
    assume "file_of db p = None"
    with assms(2) show "file_chunks db p = []"
      by (cases "p \<in> we_path ` set es") (auto simp: mirrors_def indexed_def split: if_splits)
  qed
  ultimately show ?thesis using assms(1) by (simp add: index_ok_def)
qed

lemma list_files_all: "of_source source db \<Longrightarrow> list_files source db = db_files db"
  by (auto simp: list_files_def of_source_def filter_id_conv)

lemma drop_missing_db: "ss_db (fold drop_missing ps st) = fold delete_file ps (ss_db st)"
  by (induction ps arbitrary: st) (simp_all add: drop_missing_def)

lemma tidy_deletes: "tidy env source d db \<Longrightarrow> tidy env source d (fold delete_file ps db)"
  by (induction ps arbitrary: db) (simp_all add: tidy_delete)

lemma sync_source_works:
  assumes "env_ok env d" and "index_ok env source d (ss_db st)" and "distinct (map we_path es)"
  shows "\<exists>st'. sync_source env source es st = (st', None) \<and> tidy env source d (ss_db st') \<and> mirrors env source es (ss_db st')"
proof -
  let ?db = "ss_db st" and ?seen = "we_path ` set es"
  have ok: "tidy env source d ?db" "\<And>p. hash_ok env ?db p" "\<And>p. file_of ?db p = None \<Longrightarrow> file_chunks ?db p = []"
    using assms(2) by (simp_all add: index_ok_def memory_store.orphan_free_def)
  have files: "list_files source ?db = db_files ?db" using ok(1) by (simp add: tidy_def list_files_all)
  from index_entries_work [OF assms(1) ok(1) assms(3) ok(2) refl ok(3)] obtain st1 where
    s1: "index_entries env source (file_of ?db) es st = (st1, None)" "tidy env source d (ss_db st1)"
    "\<forall>e \<in> set es. indexed env source e (ss_db st1)"
    "\<And>q. q \<notin> ?seen \<Longrightarrow> file_of (ss_db st1) q = file_of ?db q"
    "\<And>q. q \<notin> ?seen \<Longrightarrow> file_chunks (ss_db st1) q = file_chunks ?db q"
    by blast
  let ?gone = "filter (\<lambda>p. p \<notin> ?seen) (map fst (db_files ?db))"
  have sync: "sync_source env source es st = (fold drop_missing ?gone st1, None)"
    using s1(1) by (simp add: sync_source_def files file_of_def)
  let ?db' = "fold delete_file ?gone (ss_db st1)"
  have view: "file_of ?db' q = (if q \<in> set ?gone then None else file_of (ss_db st1) q)"
    "file_chunks ?db' q = (if q \<in> set ?gone then [] else file_chunks (ss_db st1) q)" for q
    by (rule memory_store.remove_all)+
  have "indexed env source e ?db'" if "e \<in> set es" for e
    using s1(3) that by (simp add: indexed_def view)
  moreover have "file_of ?db' q = None \<and> file_chunks ?db' q = []" if "q \<notin> ?seen" for q
  proof (cases "q \<in> set ?gone")
    case False
    then have "file_of ?db q = None" using that by (auto simp: file_of_def map_of_eq_None_iff)
    then show ?thesis using s1(4,5) [OF that] ok(3) by (simp add: view)
  qed (simp add: view)
  ultimately have "mirrors env source es ?db'" by (simp add: mirrors_def)
  with sync s1(2) show ?thesis by (simp add: drop_missing_db tidy_deletes)
qed

text \<open>A second run over the same files does nothing.\<close>

lemma index_entry_again:
  assumes "indexed env source e (ss_db st)" and "existing (we_path e) = file_of (ss_db st) (we_path e)"
  shows "index_entry env source existing e st = (st, None)"
  using assms by (auto simp: indexed_def index_entry_def Let_def row_of_def split: if_splits)

lemma index_entries_again:
  "\<forall>e \<in> set es. indexed env source e (ss_db st) \<Longrightarrow> index_entries env source (file_of (ss_db st)) es st = (st, None)"
  by (induction es) (simp_all add: index_entry_again)

lemma sync_source_again:
  assumes "tidy env source d (ss_db st)" and "mirrors env source es (ss_db st)"
  shows "sync_source env source es st = (st, None)"
proof -
  have files: "list_files source (ss_db st) = db_files (ss_db st)"
    using assms(1) by (simp add: tidy_def list_files_all)
  have "p \<in> we_path ` set es" if "p \<in> fst ` set (db_files (ss_db st))" for p
    using assms(2) that by (force simp: mirrors_def file_of_def map_of_eq_None_iff)
  then have "filter (\<lambda>p. p \<notin> we_path ` set es) (map fst (db_files (ss_db st))) = []"
    by (auto simp: filter_empty_conv)
  moreover have "index_entries env source (map_of (db_files (ss_db st))) es st = (st, None)"
    using index_entries_again [of es env source st] assms(2) by (simp add: mirrors_def file_of_def)
  ultimately show ?thesis by (simp add: sync_source_def files)
qed

lemma scan_node_paths: "map we_path (scan_node fnmatch depth limit cfg n) \<in> {[], [rel_path n]}"
  unfolding scan_node_def Let_def by (cases "nd_stat n"; cases "nd_data n") (simp_all split: prod.split)

lemma scan_paths:
  "distinct (map rel_path nodes) \<Longrightarrow>
   distinct (map we_path (concat (map (scan_node fnmatch depth limit cfg) nodes))) \<and>
   set (map we_path (concat (map (scan_node fnmatch depth limit cfg) nodes))) \<subseteq> rel_path ` set nodes"
proof (induction nodes)
  case (Cons n nodes)
  let ?rest = "map we_path (concat (map (scan_node fnmatch depth limit cfg) nodes))"
  have "distinct ?rest" "set ?rest \<subseteq> rel_path ` set nodes" "rel_path n \<notin> rel_path ` set nodes" using Cons by simp_all
  moreover from this have "rel_path n \<notin> set ?rest" by blast
  moreover have "map we_path (concat (map (scan_node fnmatch depth limit cfg) (n # nodes))) =
      map we_path (scan_node fnmatch depth limit cfg n) @ ?rest" by simp
  ultimately show ?case using scan_node_paths [of fnmatch depth limit cfg n]
    by (elim insertE emptyE) (simp_all only: append_Nil append_Cons distinct.simps list.set image_insert, blast+)
qed simp

text \<open>C28. Synchronising with a corpus directory works and makes the index mirror it: every file that the walk
  yields has a row with its hash, time and size and exactly its chunks, in their order, unless it has
  no chunks; and no other file has anything in the tables. The tables stay consistent with each other,
  so the next synchronisation can rely on them, and a second one over the same files changes nothing.
  This needs a consistent index of this source to begin with, an embedding service that answers with
  vectors of one dimension, and hashes without collisions.\<close>

theorem sync_mirrors_corpus:
  assumes "env_ok env d" and "index_ok env source d db" and "distinct (map rel_path nodes)"
  shows "\<exists>st. memory_sync env fnmatch [(source, Some nodes)] db = (st, None) \<and>
    mirrors env source (scan_memory_dir fnmatch DEFAULT_MAX_DEPTH DEFAULT_MAX_FILE_SIZE_BYTES None (Some nodes)) (ss_db st) \<and>
    index_ok env source d (ss_db st) \<and>
    memory_sync env fnmatch [(source, Some nodes)] (ss_db st) = (sync_start (ss_db st), None)"
proof -
  let ?es = "scan_memory_dir fnmatch DEFAULT_MAX_DEPTH DEFAULT_MAX_FILE_SIZE_BYTES None (Some nodes)"
  have "distinct (map we_path ?es)" using scan_paths [OF assms(3)] by (simp add: scan_memory_dir_def)
  from sync_source_works [OF assms(1) _ this, of source "sync_start db"] assms(2) obtain st where
    st: "sync_source env source ?es (sync_start db) = (st, None)" "tidy env source d (ss_db st)"
    "mirrors env source ?es (ss_db st)"
    by (auto simp: sync_start_def)
  have "sync_source env source ?es (sync_start (ss_db st)) = (sync_start (ss_db st), None)"
    using st(2,3) by (intro sync_source_again [of env source d]) (simp_all add: sync_start_def)
  with st mirrors_index_ok [OF st(2,3)] show ?thesis by (simp add: memory_sync_def)
qed

definition demo_index_env :: "nat \<Rightarrow> index_env" where
  "demo_index_env n =
    \<lparr>ix_embedder = \<lparr>em_provider = ''p'', em_model = ''m'',
       em_embed = (\<lambda>ts. Some (map (\<lambda>t. if t = ''no'' then replicate n 1 else [1]) ts))\<rparr>,
     ix_sha_text = (\<lambda>t. t), ix_sha_bytes = (\<lambda>t. t), ix_decode = (\<lambda>t. t), ix_f32 = (\<lambda>x. x),
     ix_new_id = (\<lambda>k. replicate k (CHR ''a'')), ix_max_chars = 2000, ix_min_chars = 200\<rparr>"

definition empty_index :: index_db where
  "empty_index =
    \<lparr>db_files = [], db_chunks = [], db_vec = [], db_fts = [], db_dim = None, db_meta_dims = None,
     db_meta_model = None, db_meta_provider = None, db_cache = [], db_next = 0\<rparr>"

definition demo_file_node :: "string \<Rightarrow> string \<Rightarrow> node" where
  "demo_file_node name bytes =
    \<lparr>nd_parts = [name], nd_escapes = False, nd_is_file = True, nd_stat = Some (0, int (length bytes)), nd_data = Some bytes\<rparr>"

lemma demo_index_env_ok: "env_ok (demo_index_env 1) 1"
  by (auto simp: env_ok_def demo_index_env_def serves_def list_all_iff inj_def dest: arg_cong [where f = length])

lemma empty_index_ok: "index_ok env source d empty_index"
  by (simp add: index_ok_def tidy_def dims_ok_def tables_ok_def of_source_def cache_dims_def differs_def hash_ok_def
      memory_store.orphan_free_def empty_index_def file_of_def file_chunks_def)

theorem sync_mirrors_corpus_witness:
  "\<exists>st. memory_sync (demo_index_env 1) (\<lambda>p g. False) [(''memory'', Some [demo_file_node ''a.md'' ''yes''])] empty_index = (st, None) \<and>
     file_chunks (ss_db st) ''a.md'' = [Chunk 1 1 ''yes'']"
proof -
  have "distinct (map rel_path [demo_file_node ''a.md'' ''yes''])" by simp
  from sync_mirrors_corpus [OF demo_index_env_ok empty_index_ok this, of "\<lambda>p g. False" "''memory''"] obtain st where
    st: "memory_sync (demo_index_env 1) (\<lambda>p g. False) [(''memory'', Some [demo_file_node ''a.md'' ''yes''])] empty_index = (st, None)"
    "mirrors (demo_index_env 1) ''memory'' (scan_memory_dir (\<lambda>p g. False) DEFAULT_MAX_DEPTH DEFAULT_MAX_FILE_SIZE_BYTES None
       (Some [demo_file_node ''a.md'' ''yes''])) (ss_db st)"
    by blast
  let ?e = "\<lparr>we_path = ''a.md'', we_mtime = 0, we_size = 3, we_data = ''yes''\<rparr>"
  have "scan_memory_dir (\<lambda>p g. False) DEFAULT_MAX_DEPTH DEFAULT_MAX_FILE_SIZE_BYTES None (Some [demo_file_node ''a.md'' ''yes'']) = [?e]"
    by code_simp
  with st(2) have "chunk_entry (demo_index_env 1) ?e = Some (file_chunks (ss_db st) ''a.md'')"
    by (simp add: mirrors_def indexed_def)
  moreover have "chunk_entry (demo_index_env 1) ?e = Some [Chunk 1 1 ''yes'']"
    by code_simp
  ultimately show ?thesis using st(1) by simp
qed

text \<open>
  The row of a file is committed before its chunks. When the chunks then fail, the row has the new hash, and
  the next run, with a service that works again, takes the file for indexed: it stays without chunks.
\<close>

definition broken_index :: index_db where
  "broken_index =
    \<lparr>db_files =
       [(''a.md'', \<lparr>fr_source = ''memory'', fr_hash = ''yes'', fr_mtime = 0, fr_size = 3\<rparr>),
        (''b.md'', \<lparr>fr_source = ''memory'', fr_hash = ''no'', fr_mtime = 0, fr_size = 2\<rparr>)],
     db_chunks = [\<lparr>cr_id = [], cr_path = ''a.md'', cr_source = ''memory'', cr_piece = Chunk 1 1 ''yes'', cr_hash = ''yes'', cr_model = ''m''\<rparr>],
     db_vec = [([], [1])], db_fts = [(''yes'', [], ''a.md'', ''memory'')], db_dim = Some 1, db_meta_dims = Some 1,
     db_meta_model = Some ''m'', db_meta_provider = Some ''p'',
     db_cache = [((''p'', ''m'', ''yes''), [1]), ((''p'', ''m'', ''no''), [1, 1])], db_next = 1\<rparr>"

definition demo_walk :: "walk_entry list" where
  "demo_walk =
    [\<lparr>we_path = ''a.md'', we_mtime = 0, we_size = 3, we_data = ''yes''\<rparr>,
     \<lparr>we_path = ''b.md'', we_mtime = 0, we_size = 2, we_data = ''no''\<rparr>]"

lemma failed_chunks_leave_row:
  "sync_source (demo_index_env 2) ''memory'' demo_walk (sync_start empty_index) =
   (\<lparr>ss_db = broken_index, ss_added = 1, ss_changed = 0, ss_deleted = 0, ss_embedded = 2, ss_hits = 0, ss_meta_done = True\<rparr>,
    Some (SyncRaised DimensionMismatch))"
  by code_simp

lemma failed_chunks_stay_missing:
  "sync_source (demo_index_env 1) ''memory'' demo_walk (sync_start broken_index) = (sync_start broken_index, None)"
  "file_chunks broken_index ''b.md'' = []"
  by code_simp+

end
