(* ===== verification/CuratedMemory.thy ===== *)
theory CuratedMemory
  imports Texts
begin

section \<open>The curated tier of the memory\<close>

text \<open>
  The table \<open>short_term\<close> of \<open>oxenclaw/memory/store.py\<close>: facts with tags that are promoted, reviewed and
  archived. The clock and the random identifiers are arguments. Entries of the same
  time are listed in the order of the table, which SQL leaves open.
\<close>

record short_row =
  sh_id :: string
  sh_source_chunk_id :: "string option"
  sh_text :: string
  sh_tags :: string
  sh_confidence :: real
  sh_promoted_at :: real
  sh_last_reviewed_at :: "real option"
  sh_review_count :: int
  sh_archived_at :: "real option"

record short_view =
  sv_id :: string
  sv_source_chunk_id :: "string option"
  sv_text :: string
  sv_tags :: "string list"
  sv_confidence :: real
  sv_promoted_at :: real
  sv_last_reviewed_at :: "real option"
  sv_review_count :: int
  sv_archived :: bool

definition stored_tags :: "string list \<Rightarrow> string" where
  "stored_tags tags = join '','' (filter (\<lambda>t. t \<noteq> []) (map strip tags))"

text \<open>The identifier is the primary key: one that is taken raises and changes nothing.\<close>

definition short_term_add ::
  "string \<Rightarrow> real \<Rightarrow> string \<Rightarrow> string list \<Rightarrow> real \<Rightarrow> string option \<Rightarrow> short_row list \<Rightarrow> (string \<times> short_row list) option" where
  "short_term_add new_id now body tags confidence source_chunk_id rows =
    (if new_id \<in> sh_id ` set rows then None
     else Some (new_id,
       rows @ [\<lparr>sh_id = new_id, sh_source_chunk_id = source_chunk_id, sh_text = body, sh_tags = stored_tags tags,
                sh_confidence = confidence, sh_promoted_at = now, sh_last_reviewed_at = None,
                sh_review_count = 0, sh_archived_at = None\<rparr>]))"

text \<open>\<open>LIKE\<close> of SQLite: \<open>%\<close> is any text and \<open>_\<close> any character, and ASCII letters match without case.\<close>

fun like_chars :: "string \<Rightarrow> string \<Rightarrow> bool" where
  "like_chars [] s \<longleftrightarrow> s = []"
| "like_chars (p # ps) [] \<longleftrightarrow> p = CHR ''%'' \<and> like_chars ps []"
| "like_chars (p # ps) (c # s) \<longleftrightarrow>
    (if p = CHR ''%'' then like_chars ps (c # s) \<or> like_chars (p # ps) s
     else (p = CHR ''_'' \<or> p = c) \<and> like_chars ps s)"

definition sql_like :: "string \<Rightarrow> string \<Rightarrow> bool" where
  "sql_like pattern s = like_chars (lower pattern) (lower s)"

definition short_term_matches :: "string option \<Rightarrow> bool \<Rightarrow> short_row \<Rightarrow> bool" where
  "short_term_matches tag include_archived r \<longleftrightarrow>
    (include_archived \<or> sh_archived_at r = None) \<and>
    (case tag of
       None \<Rightarrow> True
     | Some t \<Rightarrow> t = [] \<or> sql_like (''%,'' @ t @ '',%'') ('','' @ sh_tags r @ '',''))"

definition split_stored_tags :: "string \<Rightarrow> string list" where
  "split_stored_tags s = filter (\<lambda>t. t \<noteq> []) (split_on (CHR '','') s)"

text \<open>A review at time 0 reads as no review, since the number counts as false.\<close>

definition view_row :: "short_row \<Rightarrow> short_view" where
  "view_row r =
    \<lparr>sv_id = sh_id r, sv_source_chunk_id = sh_source_chunk_id r, sv_text = sh_text r,
     sv_tags = split_stored_tags (sh_tags r), sv_confidence = sh_confidence r, sv_promoted_at = sh_promoted_at r,
     sv_last_reviewed_at = (case sh_last_reviewed_at r of Some t \<Rightarrow> if t = 0 then None else Some t | None \<Rightarrow> None),
     sv_review_count = sh_review_count r, sv_archived = (sh_archived_at r \<noteq> None)\<rparr>"

text \<open>\<open>LIMIT\<close> with a negative number is no limit.\<close>

definition short_term_list :: "string option \<Rightarrow> bool \<Rightarrow> int \<Rightarrow> short_row list \<Rightarrow> short_view list" where
  "short_term_list tag include_archived limit rows =
    (let found = sort_key (\<lambda>r. - sh_promoted_at r) (filter (short_term_matches tag include_archived) rows)
     in map view_row (if limit < 0 then found else take (nat limit) found))"

definition short_term_review :: "real \<Rightarrow> string \<Rightarrow> short_row list \<Rightarrow> bool \<times> short_row list" where
  "short_term_review now entry_id rows =
    (list_ex (\<lambda>r. sh_id r = entry_id) rows,
     map (\<lambda>r. if sh_id r = entry_id
              then r\<lparr>sh_last_reviewed_at := Some now, sh_review_count := sh_review_count r + 1\<rparr> else r) rows)"

definition short_term_archive :: "real \<Rightarrow> string \<Rightarrow> short_row list \<Rightarrow> bool \<times> short_row list" where
  "short_term_archive now entry_id rows =
    (list_ex (\<lambda>r. sh_id r = entry_id \<and> sh_archived_at r = None) rows,
     map (\<lambda>r. if sh_id r = entry_id \<and> sh_archived_at r = None then r\<lparr>sh_archived_at := Some now\<rparr> else r) rows)"

definition short_term_count :: "bool \<Rightarrow> short_row list \<Rightarrow> int" where
  "short_term_count include_archived rows =
    int (length (if include_archived then rows else filter (\<lambda>r. sh_archived_at r = None) rows))"

subsection \<open>Tags\<close>

lemma split_join_commas:
  "xs \<noteq> [] \<Longrightarrow> \<forall>x \<in> set xs. CHR '','' \<notin> set x \<Longrightarrow> split_on (CHR '','') (join '','' xs) = xs"
  by (induction xs) (auto simp: join_Cons split_on_append split_on_whole)

text \<open>The tags of an entry are read back, without white space around them.\<close>

lemma tags_read_back:
  assumes "\<forall>t \<in> set tags. CHR '','' \<notin> set (strip t)"
  shows "split_stored_tags (stored_tags tags) = filter (\<lambda>t. t \<noteq> []) (map strip tags)"
proof (cases "filter (\<lambda>t. t \<noteq> []) (map strip tags) = []")
  case True
  then show ?thesis by (simp add: split_stored_tags_def stored_tags_def)
next
  case False
  have "split_on (CHR '','') (stored_tags tags) = filter (\<lambda>t. t \<noteq> []) (map strip tags)"
    unfolding stored_tags_def using False assms by (intro split_join_commas) auto
  then show ?thesis by (simp add: split_stored_tags_def)
qed

subsection \<open>Archiving hides, reviewing counts\<close>

lemma listed:
  "v \<in> set (short_term_list tag inc limit rows) \<Longrightarrow> \<exists>r \<in> set rows. short_term_matches tag inc r \<and> v = view_row r"
proof -
  let ?found = "sort_key (\<lambda>r. - sh_promoted_at r) (filter (short_term_matches tag inc) rows)"
  assume "v \<in> set (short_term_list tag inc limit rows)"
  then have "v \<in> view_row ` set ?found"
    using set_take_subset [of "nat limit" ?found] by (auto simp: short_term_list_def Let_def split: if_splits)
  then show ?thesis by auto
qed

lemma archived_rows:
  assumes "r \<in> set (snd (short_term_archive now i rows))" and "sh_id r = i"
  shows "sh_archived_at r \<noteq> None"
proof -
  from assms(1) obtain r' where "r' \<in> set rows"
    and r: "r = (if sh_id r' = i \<and> sh_archived_at r' = None then r'\<lparr>sh_archived_at := Some now\<rparr> else r')"
    by (auto simp: short_term_archive_def)
  show ?thesis using assms(2) unfolding r by (cases "sh_id r' = i \<and> sh_archived_at r' = None") auto
qed

lemma archived_is_hidden:
  assumes "v \<in> set (short_term_list tag False limit (snd (short_term_archive now i rows)))"
  shows "sv_id v \<noteq> i"
proof -
  from listed [OF assms] obtain r where "r \<in> set (snd (short_term_archive now i rows))"
    "short_term_matches tag False r" "v = view_row r" by blast
  with archived_rows [of r now i rows] show ?thesis by (auto simp: short_term_matches_def view_row_def)
qed

lemma archive_twice: "\<not> fst (short_term_archive now' i (snd (short_term_archive now i rows)))"
  using archived_rows [of _ now i rows] by (fastforce simp: short_term_archive_def [of now'] list_ex_iff)

lemma ids_unchanged:
  "map sh_id (snd (short_term_review now i rows)) = map sh_id rows"
  "map sh_id (snd (short_term_archive now i rows)) = map sh_id rows"
  by (simp_all add: short_term_review_def short_term_archive_def)

lemma ids_stay_distinct:
  "distinct (map sh_id rows) \<Longrightarrow> short_term_add i now body tags c src rows = Some (j, rows') \<Longrightarrow>
   distinct (map sh_id rows')"
  by (auto simp: short_term_add_def split: if_splits)

text \<open>The tag of a query is a pattern: an underscore in it matches any character, and case does not count.\<close>

lemma tag_query_is_pattern:
  "short_term_matches (Some ''a_c'') False
     \<lparr>sh_id = ''1'', sh_source_chunk_id = None, sh_text = ''x'', sh_tags = stored_tags [''ABC''], sh_confidence = 1,
      sh_promoted_at = 0, sh_last_reviewed_at = None, sh_review_count = 0, sh_archived_at = None\<rparr>"
  by code_simp

end
