(* ===== verification/Sessions.thy ===== *)
theory Sessions
  imports Compaction
begin

section \<open>Session managers\<close>

text \<open>
  \<open>oxenclaw/pi/session.py\<close> and the session tables of \<open>pi/persistence.py\<close>: the two managers of sessions, one with
  a dictionary of objects in memory and one with SQLite tables. A session is an object that its holders
  change in place: the manager in memory stores and hands out the very object, so that a change shows to
  everybody at once, while the tables give every reader an object of its own and learn of a change when it
  is saved. The heap is the list of the session objects, a reference is a place in it, and an object
  is the session with its lists. A message is written by
  pydantic and a value by \<open>json\<close>, which are parameters together with the clock and the identifiers.
  Operations on the tables are their effect on the rows, and a transaction that raises changes nothing.
\<close>

record session_entry =
  sn_id :: string
  sn_title :: "string option"
  sn_agent_id :: string
  sn_model_id :: "string option"
  sn_message_count :: int
  sn_created_at :: real
  sn_updated_at :: real

record create_options =
  op_agent_id :: string
  op_model_id :: "string option"
  op_title :: "string option"
  op_metadata :: "json option"

definition entry_of :: "agent_session \<Rightarrow> session_entry" where
  "entry_of s =
    \<lparr>sn_id = se_id s, sn_title = se_title s, sn_agent_id = se_agent_id s, sn_model_id = se_model_id s,
     sn_message_count = int (length (se_messages s)), sn_created_at = se_created_at s,
     sn_updated_at = se_updated_at s\<rparr>"

text \<open>\<open>dict(opts.metadata or {})\<close> keeps the members; the two times are read one after the other.\<close>

definition new_session :: "string \<Rightarrow> real \<Rightarrow> real \<Rightarrow> create_options \<Rightarrow> agent_session" where
  "new_session new_id created updated opts =
    \<lparr>se_id = new_id, se_title = op_title opts, se_agent_id = op_agent_id opts, se_model_id = op_model_id opts,
     se_messages = [], se_compactions = [], se_created_at = created, se_updated_at = updated,
     se_metadata = (case op_metadata opts of None \<Rightarrow> JObj [] | Some m \<Rightarrow> if truthy m then m else JObj [])\<rparr>"

subsection \<open>In memory\<close>

record session_objects =
  so_heap :: "agent_session list"
  so_sessions :: "(string \<times> nat) list"

definition no_sessions :: session_objects where
  "no_sessions = \<lparr>so_heap = [], so_sessions = []\<rparr>"

definition mem_create :: "string \<Rightarrow> real \<Rightarrow> real \<Rightarrow> create_options \<Rightarrow> session_objects \<Rightarrow> nat \<times> session_objects" where
  "mem_create new_id created updated opts st =
    (let s = new_session new_id created updated opts; r = length (so_heap st)
     in (r, \<lparr>so_heap = so_heap st @ [s], so_sessions = dict_set (se_id s) r (so_sessions st)\<rparr>))"

definition mem_get :: "string \<Rightarrow> session_objects \<Rightarrow> nat option" where
  "mem_get session_id st = map_of (so_sessions st) session_id"

definition mem_list :: "string option \<Rightarrow> session_objects \<Rightarrow> session_entry list" where
  "mem_list agent_id st =
    map entry_of (filter (\<lambda>s. case agent_id of None \<Rightarrow> True | Some a \<Rightarrow> se_agent_id s = a)
      (map (\<lambda>(i, r). so_heap st ! r) (so_sessions st)))"

definition mem_save :: "real \<Rightarrow> nat \<Rightarrow> session_objects \<Rightarrow> session_objects" where
  "mem_save now r st =
    (let s = (so_heap st ! r)\<lparr>se_updated_at := now\<rparr>
     in \<lparr>so_heap = (so_heap st)[r := s], so_sessions = dict_set (se_id s) r (so_sessions st)\<rparr>)"

definition mem_delete :: "string \<Rightarrow> session_objects \<Rightarrow> bool \<times> session_objects" where
  "mem_delete session_id st =
    (map_of (so_sessions st) session_id \<noteq> None, st\<lparr>so_sessions := dict_pop session_id (so_sessions st)\<rparr>)"

text \<open>The holder of a reference changes the object; the manager has no part in it.\<close>

definition change_object :: "(agent_session \<Rightarrow> agent_session) \<Rightarrow> nat \<Rightarrow> session_objects \<Rightarrow> session_objects" where
  "change_object f r st = st\<lparr>so_heap := (so_heap st)[r := f (so_heap st ! r)]\<rparr>"

text \<open>What the manager stores under an identifier, seen as a value.\<close>

definition mem_lookup :: "session_objects \<Rightarrow> string \<Rightarrow> agent_session option" where
  "mem_lookup st i = map_option (\<lambda>r. so_heap st ! r) (mem_get i st)"

text \<open>The references are those of objects, and an object is stored under its own identifier.\<close>

definition linked :: "session_objects \<Rightarrow> bool" where
  "linked st \<longleftrightarrow>
    distinct (map fst (so_sessions st)) \<and>
    list_all (\<lambda>(i, r). r < length (so_heap st) \<and> se_id (so_heap st ! r) = i) (so_sessions st)"

subsection \<open>Values\<close>

text \<open>Dictionaries of sessions as values, which the tables are compared with.\<close>

type_synonym session_values = "(string \<times> agent_session) list"

definition list_values :: "string option \<Rightarrow> session_values \<Rightarrow> session_entry list" where
  "list_values agent_id d =
    map entry_of (filter (\<lambda>s. case agent_id of None \<Rightarrow> True | Some a \<Rightarrow> se_agent_id s = a) (map snd d))"

definition put_value :: "real \<Rightarrow> agent_session \<Rightarrow> session_values \<Rightarrow> session_values" where
  "put_value now s d = dict_set (se_id s) (s\<lparr>se_updated_at := now\<rparr>) d"

subsection \<open>Rows\<close>

record session_row =
  sw_agent_id :: string
  sw_model_id :: "string option"
  sw_title :: "string option"
  sw_created_at :: real
  sw_updated_at :: real
  sw_metadata_json :: string

datatype payload_row = Payload (pl_session: string) (pl_idx: nat) (pl_json: string)

record session_db =
  sd_sessions :: "(string \<times> session_row) list"
  sd_messages :: "payload_row list"
  sd_compactions :: "payload_row list"

record codec =
  cd_dumps :: "bool \<Rightarrow> json \<Rightarrow> string"
  cd_loads :: "string \<Rightarrow> json option"
  cd_message :: "message \<Rightarrow> string"
  cd_read_message :: "string \<Rightarrow> message option"
  cd_float :: "real \<Rightarrow> string"
  cd_read_float :: "string \<Rightarrow> real"

definition json_of_option :: "string option \<Rightarrow> json" where
  "json_of_option x = (case x of None \<Rightarrow> JNull | Some s \<Rightarrow> JStr s)"

definition compaction_json :: "codec \<Rightarrow> compaction_entry \<Rightarrow> json" where
  "compaction_json cd e =
    JObj [(''id'', JStr (ce_id e)), (''summary'', JStr (ce_summary e)),
          (''replaced_message_indexes'', JArr (map (\<lambda>i. JInt (int i)) (ce_replaced e))),
          (''created_at'', JFloat (cd_float cd (ce_created_at e))), (''reason'', JStr (ce_reason e)),
          (''tokens_before'', JInt (ce_tokens_before e)), (''tokens_after'', JInt (ce_tokens_after e)),
          (''original_archive_path'', json_of_option (ce_archive_path e))]"

definition serialize_compaction :: "codec \<Rightarrow> compaction_entry \<Rightarrow> string" where
  "serialize_compaction cd e = cd_dumps cd True (compaction_json cd e)"

text \<open>A member that is missing or of another kind raises; \<open>get\<close> takes a missing path for none.\<close>

fun json_string :: "json option \<Rightarrow> string option" where
  "json_string (Some (JStr s)) = Some s"
| "json_string j = None"

fun json_int :: "json option \<Rightarrow> int option" where
  "json_int (Some (JInt i)) = Some i"
| "json_int j = None"

fun json_float :: "codec \<Rightarrow> json option \<Rightarrow> real option" where
  "json_float cd (Some (JFloat l)) = Some (cd_read_float cd l)"
| "json_float cd (Some (JInt i)) = Some (real_of_int i)"
| "json_float cd j = None"

fun json_indexes :: "json list \<Rightarrow> nat list option" where
  "json_indexes [] = Some []"
| "json_indexes (JInt i # js) = map_option (\<lambda>is. nat i # is) (json_indexes js)"
| "json_indexes (j # js) = None"

fun json_index_list :: "json option \<Rightarrow> nat list option" where
  "json_index_list (Some (JArr js)) = json_indexes js"
| "json_index_list j = None"

fun json_path :: "json option \<Rightarrow> string option option" where
  "json_path None = Some None"
| "json_path (Some JNull) = Some None"
| "json_path (Some (JStr s)) = Some (Some s)"
| "json_path (Some j) = None"

definition read_compaction :: "codec \<Rightarrow> json \<Rightarrow> compaction_entry option" where
  "read_compaction cd j =
    (case (json_string (dict_get ''id'' j), json_string (dict_get ''summary'' j),
           json_index_list (dict_get ''replaced_message_indexes'' j), json_float cd (dict_get ''created_at'' j)) of
       (Some i, Some summary, Some replaced, Some created) \<Rightarrow>
         (case (json_string (dict_get ''reason'' j), json_int (dict_get ''tokens_before'' j),
                json_int (dict_get ''tokens_after'' j), json_path (dict_get ''original_archive_path'' j)) of
            (Some reason, Some before, Some after, Some path) \<Rightarrow>
              Some \<lparr>ce_id = i, ce_summary = summary, ce_replaced = replaced, ce_created_at = created,
                    ce_reason = reason, ce_tokens_before = before, ce_tokens_after = after, ce_archive_path = path\<rparr>
          | _ \<Rightarrow> None)
     | _ \<Rightarrow> None)"

definition deserialize_compaction :: "codec \<Rightarrow> string \<Rightarrow> compaction_entry option" where
  "deserialize_compaction cd payload = Option.bind (cd_loads cd payload) (read_compaction cd)"

primrec all_some :: "'a option list \<Rightarrow> 'a list option" where
  "all_some [] = Some []"
| "all_some (x # xs) = Option.bind x (\<lambda>a. map_option (\<lambda>b. a # b) (all_some xs))"

definition payloads :: "string \<Rightarrow> payload_row list \<Rightarrow> string list" where
  "payloads session_id rows =
    map pl_json (sort_key pl_idx (filter (\<lambda>r. pl_session r = session_id) rows))"

definition numbered :: "string \<Rightarrow> ('a \<Rightarrow> string) \<Rightarrow> 'a list \<Rightarrow> payload_row list" where
  "numbered session_id f xs = map (\<lambda>(i, x). Payload session_id i (f x)) (enumerate 0 xs)"

subsection \<open>In SQLite\<close>

definition row_of_session :: "codec \<Rightarrow> agent_session \<Rightarrow> session_row" where
  "row_of_session cd s =
    \<lparr>sw_agent_id = se_agent_id s, sw_model_id = se_model_id s, sw_title = se_title s,
     sw_created_at = se_created_at s, sw_updated_at = se_updated_at s,
     sw_metadata_json = cd_dumps cd False (se_metadata s)\<rparr>"

text \<open>An identifier that is taken violates the primary key.\<close>

definition sql_create ::
  "codec \<Rightarrow> string \<Rightarrow> real \<Rightarrow> real \<Rightarrow> create_options \<Rightarrow> session_db \<Rightarrow> (agent_session \<times> session_db) option" where
  "sql_create cd new_id created updated opts db =
    (let s = new_session new_id created updated opts
     in if map_of (sd_sessions db) (se_id s) \<noteq> None then None
        else Some (s, db\<lparr>sd_sessions := sd_sessions db @ [(se_id s, row_of_session cd s)]\<rparr>))"

text \<open>\<open>Inl\<close> where a payload cannot be read.\<close>

definition sql_get :: "codec \<Rightarrow> string \<Rightarrow> session_db \<Rightarrow> py_error + agent_session option" where
  "sql_get cd session_id db =
    (case map_of (sd_sessions db) session_id of
       None \<Rightarrow> Inr None
     | Some row \<Rightarrow>
        (case (cd_loads cd (if sw_metadata_json row = [] then ''{}'' else sw_metadata_json row),
               all_some (map (cd_read_message cd) (payloads session_id (sd_messages db))),
               all_some (map (deserialize_compaction cd) (payloads session_id (sd_compactions db)))) of
           (Some metadata, Some ms, Some cs) \<Rightarrow>
             Inr (Some \<lparr>se_id = session_id, se_title = sw_title row, se_agent_id = sw_agent_id row,
                        se_model_id = sw_model_id row, se_messages = ms, se_compactions = cs,
                        se_created_at = sw_created_at row, se_updated_at = sw_updated_at row, se_metadata = metadata\<rparr>)
         | _ \<Rightarrow> Inl ValueError))"

definition sql_entry :: "session_db \<Rightarrow> string \<times> session_row \<Rightarrow> session_entry" where
  "sql_entry db r =
    \<lparr>sn_id = fst r, sn_title = sw_title (snd r), sn_agent_id = sw_agent_id (snd r), sn_model_id = sw_model_id (snd r),
     sn_message_count = int (length (filter (\<lambda>m. pl_session m = fst r) (sd_messages db))),
     sn_created_at = sw_created_at (snd r), sn_updated_at = sw_updated_at (snd r)\<rparr>"

definition sql_list :: "string option \<Rightarrow> session_db \<Rightarrow> session_entry list" where
  "sql_list agent_id db =
    sort_key (\<lambda>e. - sn_updated_at e)
      (map (sql_entry db)
        (filter (\<lambda>r. case agent_id of None \<Rightarrow> True | Some a \<Rightarrow> sw_agent_id (snd r) = a) (sd_sessions db)))"

text \<open>The row of a session that exists keeps its time of creation.\<close>

definition upsert_session :: "codec \<Rightarrow> agent_session \<Rightarrow> (string \<times> session_row) list \<Rightarrow> (string \<times> session_row) list" where
  "upsert_session cd s rows =
    (case map_of rows (se_id s) of
       None \<Rightarrow> rows @ [(se_id s, row_of_session cd s)]
     | Some old \<Rightarrow> dict_set (se_id s) ((row_of_session cd s)\<lparr>sw_created_at := sw_created_at old\<rparr>) rows)"

definition sql_save :: "codec \<Rightarrow> real \<Rightarrow> agent_session \<Rightarrow> session_db \<Rightarrow> session_db" where
  "sql_save cd now session db =
    (let s = session\<lparr>se_updated_at := now\<rparr>; other = (\<lambda>r. pl_session r \<noteq> se_id s)
     in \<lparr>sd_sessions = upsert_session cd s (sd_sessions db),
         sd_messages = filter other (sd_messages db) @ numbered (se_id s) (cd_message cd) (se_messages s),
         sd_compactions = filter other (sd_compactions db) @
           numbered (se_id s) (serialize_compaction cd) (se_compactions s)\<rparr>)"

text \<open>The foreign keys delete the messages and compactions of a session with its row.\<close>

definition sql_delete :: "string \<Rightarrow> session_db \<Rightarrow> bool \<times> session_db" where
  "sql_delete session_id db =
    (if map_of (sd_sessions db) session_id = None then (False, db)
     else (True, \<lparr>sd_sessions = dict_pop session_id (sd_sessions db),
                  sd_messages = filter (\<lambda>r. pl_session r \<noteq> session_id) (sd_messages db),
                  sd_compactions = filter (\<lambda>r. pl_session r \<noteq> session_id) (sd_compactions db)\<rparr>))"

subsection \<open>The tables represent the dictionary\<close>

definition storable :: "codec \<Rightarrow> agent_session \<Rightarrow> bool" where
  "storable cd s \<longleftrightarrow>
    cd_dumps cd False (se_metadata s) \<noteq> [] \<and>
    cd_loads cd (cd_dumps cd False (se_metadata s)) = Some (se_metadata s) \<and>
    list_all (\<lambda>m. cd_read_message cd (cd_message cd m) = Some m) (se_messages s) \<and>
    list_all (\<lambda>e. cd_loads cd (cd_dumps cd True (compaction_json cd e)) = Some (compaction_json cd e) \<and>
                  cd_read_float cd (cd_float cd (ce_created_at e)) = ce_created_at e) (se_compactions s)"

definition rows_of :: "string \<Rightarrow> payload_row list \<Rightarrow> payload_row list" where
  "rows_of i rows = filter (\<lambda>r. pl_session r = i) rows"

definition represents :: "codec \<Rightarrow> session_db \<Rightarrow> session_values \<Rightarrow> bool" where
  "represents cd db d \<longleftrightarrow>
    distinct (map fst d) \<and>
    sd_sessions db = map (\<lambda>(i, s). (i, row_of_session cd s)) d \<and>
    (\<forall>i s. map_of d i = Some s \<longrightarrow>
       se_id s = i \<and> storable cd s \<and> rows_of i (sd_messages db) = numbered i (cd_message cd) (se_messages s) \<and>
       rows_of i (sd_compactions db) = numbered i (serialize_compaction cd) (se_compactions s)) \<and>
    (\<forall>i. map_of d i = None \<longrightarrow> rows_of i (sd_messages db) = [] \<and> rows_of i (sd_compactions db) = [])"

lemma read_compaction_json:
  "cd_read_float cd (cd_float cd (ce_created_at e)) = ce_created_at e \<Longrightarrow> read_compaction cd (compaction_json cd e) = Some e"
proof -
  have ix: "json_indexes (map (\<lambda>i. JInt (int i)) is) = Some is" for "is" by (induction "is") simp_all
  assume "cd_read_float cd (cd_float cd (ce_created_at e)) = ce_created_at e"
  then show ?thesis
    by (cases "ce_archive_path e") (simp_all add: read_compaction_def compaction_json_def ix json_of_option_def)
qed

lemma all_some_back: "list_all (\<lambda>x. g (f x) = Some x) xs \<Longrightarrow> all_some (map g (map f xs)) = Some xs"
  by (induction xs) simp_all

lemma numbered_simps:
  "map pl_json (numbered i f xs) = map f xs" "map pl_idx (numbered i f xs) = [0..<length xs]"
  "rows_of j (numbered i f xs) = (if i = j then numbered i f xs else [])"
proof -
  have "map pl_json (numbered i f xs) = map f (map snd (enumerate 0 xs))"
    unfolding numbered_def map_map by (rule map_cong) auto
  then show "map pl_json (numbered i f xs) = map f xs" by (simp only: map_snd_enumerate)
  show "map pl_idx (numbered i f xs) = [0..<length xs]"
    by (simp add: numbered_def comp_def split_def)
  show "rows_of j (numbered i f xs) = (if i = j then numbered i f xs else [])"
    by (auto simp: rows_of_def numbered_def filter_empty_conv filter_id_conv)
qed

lemma payloads_numbered: "rows_of i rows = numbered i f xs \<Longrightarrow> payloads i rows = map f xs"
  using sort_key_id_if_sorted [of pl_idx "numbered i f xs"]
  by (simp add: payloads_def rows_of_def [symmetric] numbered_simps)

lemma map_of_rows: "map_of (map (\<lambda>(i, s). (i, f s)) d) i = map_option f (map_of d i)"
  by (induction d) auto

lemma dict_set_map: "dict_set k (f v) (map (\<lambda>(i, s). (i, f s)) d) = map (\<lambda>(i, s). (i, f s)) (dict_set k v d)"
  by (induction d) auto

lemma dict_pop_map: "dict_pop k (map (\<lambda>(i, s). (i, f s)) d) = map (\<lambda>(i, s). (i, f s)) (dict_pop k d)"
  by (induction d) (auto simp: dict_pop_def)

lemma get_represents:
  assumes "represents cd db d"
  shows "sql_get cd i db = Inr (map_of d i)"
proof (cases "map_of d i")
  case None
  with assms show ?thesis by (simp add: sql_get_def represents_def map_of_rows)
next
  case (Some s)
  with assms have s: "se_id s = i" "storable cd s" "rows_of i (sd_messages db) = numbered i (cd_message cd) (se_messages s)"
    "rows_of i (sd_compactions db) = numbered i (serialize_compaction cd) (se_compactions s)"
    "map_of (sd_sessions db) i = Some (row_of_session cd s)"
    by (simp_all add: represents_def map_of_rows)
  have "all_some (map (cd_read_message cd) (payloads i (sd_messages db))) = Some (se_messages s)"
    unfolding payloads_numbered [OF s(3)] using s(2) by (intro all_some_back) (simp add: storable_def)
  moreover have "all_some (map (deserialize_compaction cd) (payloads i (sd_compactions db))) = Some (se_compactions s)"
    unfolding payloads_numbered [OF s(4)]
    using s(2) by (intro all_some_back) (auto simp: storable_def deserialize_compaction_def serialize_compaction_def
        list_all_iff read_compaction_json)
  ultimately show ?thesis
    using s(1,2,5) Some by (cases s) (simp add: sql_get_def row_of_session_def storable_def)
qed

lemma rows_of_filter: "rows_of j (filter (\<lambda>r. pl_session r \<noteq> i) rows) = (if i = j then [] else rows_of j rows)"
  by (auto simp: rows_of_def filter_empty_conv conj_commute intro!: filter_cong)

lemma rows_of_append: "rows_of i (r1 @ r2) = rows_of i r1 @ rows_of i r2"
  by (simp add: rows_of_def)

text \<open>A session may be saved where it can be read back and its time of creation is the one stored.\<close>

definition fits :: "codec \<Rightarrow> session_values \<Rightarrow> agent_session \<Rightarrow> bool" where
  "fits cd d s \<longleftrightarrow> storable cd s \<and> (\<forall>s0. map_of d (se_id s) = Some s0 \<longrightarrow> se_created_at s0 = se_created_at s)"

lemma fits_code [code]:
  "fits cd d s \<longleftrightarrow> storable cd s \<and>
    (case map_of d (se_id s) of None \<Rightarrow> True | Some s0 \<Rightarrow> se_created_at s0 = se_created_at s)"
  by (simp add: fits_def split: option.split)

lemma upsert_represents:
  assumes "represents cd db d" and "fits cd d s"
  shows "upsert_session cd (s\<lparr>se_updated_at := now\<rparr>) (sd_sessions db) =
    map (\<lambda>(i, s). (i, row_of_session cd s)) (put_value now s d)"
proof -
  have rows: "sd_sessions db = map (\<lambda>(i, s). (i, row_of_session cd s)) d" using assms(1) by (simp add: represents_def)
  show ?thesis
  proof (cases "map_of d (se_id s)")
    case None
    then show ?thesis by (simp add: upsert_session_def rows map_of_rows put_value_def dict_set_new)
  next
    case (Some s0)
    then have "(row_of_session cd (s\<lparr>se_updated_at := now\<rparr>))\<lparr>sw_created_at := se_created_at s0\<rparr> =
        row_of_session cd (s\<lparr>se_updated_at := now\<rparr>)"
      using assms(2) Some by (simp add: fits_def row_of_session_def)
    moreover have "sw_created_at (row_of_session cd s0) = se_created_at s0" by (simp add: row_of_session_def)
    ultimately show ?thesis
      using Some by (simp add: upsert_session_def rows map_of_rows put_value_def dict_set_map)
  qed
qed

lemma save_represents:
  assumes "represents cd db d" and "fits cd d s"
  shows "represents cd (sql_save cd now s db) (put_value now s d)"
  using assms upsert_represents [OF assms, of now]
  by (auto simp: represents_def sql_save_def Let_def put_value_def map_of_dict_set rows_of_append rows_of_filter
      numbered_simps fits_def storable_def distinct_dict_set split: if_splits)

lemma delete_represents:
  assumes "represents cd db d"
  shows "fst (sql_delete i db) \<longleftrightarrow> map_of d i \<noteq> None" "represents cd (snd (sql_delete i db)) (dict_pop i d)"
proof -
  have rows: "sd_sessions db = map (\<lambda>(i, s). (i, row_of_session cd s)) d" using assms by (simp add: represents_def)
  show "fst (sql_delete i db) \<longleftrightarrow> map_of d i \<noteq> None"
    by (simp add: sql_delete_def rows map_of_rows)
  show "represents cd (snd (sql_delete i db)) (dict_pop i d)"
  proof (cases "map_of d i")
    case None
    then have "dict_pop i d = d" by (auto simp: dict_pop_def filter_id_conv map_of_eq_None_iff)
    with None assms show ?thesis by (simp add: sql_delete_def rows map_of_rows)
  next
    case (Some s)
    with assms show ?thesis
      by (auto simp: represents_def sql_delete_def map_of_rows dict_pop_map map_of_dict_pop rows_of_filter
          distinct_dict_pop split: if_splits)
  qed
qed

lemma create_represents:
  assumes "represents cd db d" and "map_of d i = None" and "storable cd (new_session i t u opts)"
  shows "\<exists>db'. sql_create cd i t u opts db = Some (new_session i t u opts, db') \<and>
    represents cd db' (d @ [(i, new_session i t u opts)])"
proof -
  have rows: "sd_sessions db = map (\<lambda>(i, s). (i, row_of_session cd s)) d" using assms(1) by (simp add: represents_def)
  let ?s = "new_session i t u opts"
  have s: "se_id ?s = i" "se_messages ?s = []" "se_compactions ?s = []" by (simp_all add: new_session_def)
  have "represents cd (db\<lparr>sd_sessions := sd_sessions db @ [(i, row_of_session cd ?s)]\<rparr>) (d @ [(i, ?s)])"
    using assms s by (auto simp: represents_def map_of_eq_None_iff numbered_def map_add_def split: option.splits if_splits)
  then show ?thesis using assms(2) s by (simp add: sql_create_def Let_def rows map_of_rows)
qed

lemma list_represents:
  assumes "represents cd db d"
  shows "sql_list agent_id db = sort_key (\<lambda>e. - sn_updated_at e) (list_values agent_id d)"
proof -
  have rows: "sd_sessions db = map (\<lambda>(i, s). (i, row_of_session cd s)) d" using assms by (simp add: represents_def)
  have "sql_entry db (i, row_of_session cd s) = entry_of s" if "(i, s) \<in> set d" for i s
  proof -
    have "map_of d i = Some s" using assms that by (simp add: represents_def)
    with assms have "se_id s = i" "rows_of i (sd_messages db) = numbered i (cd_message cd) (se_messages s)"
      by (simp_all add: represents_def)
    then show ?thesis by (simp add: sql_entry_def entry_of_def row_of_session_def rows_of_def [symmetric] numbered_def)
  qed
  then have "map (sql_entry db) (filter P (map (\<lambda>(i, s). (i, row_of_session cd s)) d)) = map entry_of (filter Q (map snd d))"
    if "\<And>i s. P (i, row_of_session cd s) = Q s" for P Q
    using that by (induction d) auto
  then show ?thesis unfolding sql_list_def list_values_def rows
    by (intro arg_cong [where f = "sort_key (\<lambda>e. - sn_updated_at e)"])
      (simp add: row_of_session_def split: option.split)
qed

subsection \<open>The contract of a session manager\<close>

text \<open>
  What users of the protocol \<open>SessionManager\<close> rely on, and what deleting many sessions does. Both managers
  keep the contract; the SQLite one only for sessions that it can store.
\<close>

fun delete_each :: "(string \<Rightarrow> 's \<Rightarrow> bool \<times> 's) \<Rightarrow> string list \<Rightarrow> 's \<Rightarrow> int \<times> 's" where
  "delete_each delete [] st = (0, st)"
| "delete_each delete (i # is) st =
    (let (gone, st1) = delete i st; (n, st2) = delete_each delete is st1 in ((if gone then 1 else 0) + n, st2))"

locale session_manager =
  fixes lookup :: "'s \<Rightarrow> string \<Rightarrow> agent_session option"
    and save :: "real \<Rightarrow> agent_session \<Rightarrow> 's \<Rightarrow> 's"
    and delete :: "string \<Rightarrow> 's \<Rightarrow> bool \<times> 's"
    and valid :: "'s \<Rightarrow> bool"
    and accepts :: "'s \<Rightarrow> agent_session \<Rightarrow> bool"
  assumes lookup_save: "valid st \<Longrightarrow> accepts st s \<Longrightarrow>
      lookup (save now s st) = (lookup st)(se_id s \<mapsto> s\<lparr>se_updated_at := now\<rparr>)"
    and valid_save: "valid st \<Longrightarrow> accepts st s \<Longrightarrow> valid (save now s st)"
    and lookup_delete: "valid st \<Longrightarrow> lookup (snd (delete i st)) = (lookup st)(i := None)"
    and delete_result: "valid st \<Longrightarrow> fst (delete i st) \<longleftrightarrow> lookup st i \<noteq> None"
    and valid_delete: "valid st \<Longrightarrow> valid (snd (delete i st))"
begin

lemma delete_each_lookup:
  "valid st \<Longrightarrow> lookup (snd (delete_each delete is st)) i = (if i \<in> set is then None else lookup st i)"
proof (induction "is" arbitrary: st)
  case (Cons j js)
  with Cons.IH [OF valid_delete [OF Cons.prems, of j]] show ?case
    by (auto simp: split_def Let_def lookup_delete)
qed simp

lemma delete_each_valid: "valid st \<Longrightarrow> valid (snd (delete_each delete is st))"
  by (induction "is" arbitrary: st) (auto simp: split_def Let_def valid_delete)

lemma delete_each_count:
  "valid st \<Longrightarrow> distinct is \<Longrightarrow> fst (delete_each delete is st) = int (length (filter (\<lambda>i. lookup st i \<noteq> None) is))"
proof (induction "is" arbitrary: st)
  case (Cons j js)
  have "filter (\<lambda>i. lookup (snd (delete j st)) i \<noteq> None) js = filter (\<lambda>i. lookup st i \<noteq> None) js"
    using Cons.prems by (intro filter_cong) (auto simp: lookup_delete)
  with Cons.IH [OF valid_delete [OF Cons.prems(1), of j]] Cons.prems show ?case
    by (simp add: split_def Let_def delete_result)
qed simp

end

definition sql_lookup :: "codec \<Rightarrow> session_db \<Rightarrow> string \<Rightarrow> agent_session option" where
  "sql_lookup cd db i = (case sql_get cd i db of Inl e \<Rightarrow> None | Inr s \<Rightarrow> s)"

lemma sql_lookup_represents: "represents cd db d \<Longrightarrow> sql_lookup cd db = map_of d"
  by (simp add: sql_lookup_def get_represents fun_eq_iff)

text \<open>A caller that saves an object of its own.\<close>

definition mem_store :: "real \<Rightarrow> agent_session \<Rightarrow> session_objects \<Rightarrow> session_objects" where
  "mem_store now s st = mem_save now (length (so_heap st)) (st\<lparr>so_heap := so_heap st @ [s]\<rparr>)"

lemma linkedD:
  assumes "linked st" and "map_of (so_sessions st) i = Some r"
  shows "r < length (so_heap st)" "se_id (so_heap st ! r) = i"
  using assms by (auto simp: linked_def list_all_iff dest: map_of_SomeD)

lemma mem_lookup_save:
  assumes "linked st" and "r < length (so_heap st)"
  shows "mem_lookup (mem_save now r st) =
    (mem_lookup st)(se_id (so_heap st ! r) \<mapsto> (so_heap st ! r)\<lparr>se_updated_at := now\<rparr>)"
proof
  fix i
  show "mem_lookup (mem_save now r st) i =
    ((mem_lookup st)(se_id (so_heap st ! r) \<mapsto> (so_heap st ! r)\<lparr>se_updated_at := now\<rparr>)) i"
    using assms linkedD [OF assms(1), of i]
    by (cases "map_of (so_sessions st) i")
      (auto simp: mem_lookup_def mem_get_def mem_save_def Let_def map_of_dict_set nth_list_update)
qed

lemma linked_save:
  assumes "linked st" and "r < length (so_heap st)"
  shows "linked (mem_save now r st)"
proof -
  have d: "distinct (map fst (dict_set (se_id (so_heap st ! r)) r (so_sessions st)))"
    using assms by (intro distinct_dict_set) (simp add: linked_def)
  have "q < length (so_heap st) \<and> se_id ((so_heap st)[r := (so_heap st ! r)\<lparr>se_updated_at := now\<rparr>] ! q) = i"
    if "(i, q) \<in> set (dict_set (se_id (so_heap st ! r)) r (so_sessions st))" for i q
  proof -
    have "map_of (dict_set (se_id (so_heap st ! r)) r (so_sessions st)) i = Some q" using d that by simp
    with assms linkedD [OF assms(1), of i q] show ?thesis
      by (auto simp: map_of_dict_set nth_list_update split: if_splits)
  qed
  with d show ?thesis by (auto simp: linked_def mem_save_def Let_def list_all_iff)
qed

lemma mem_lookup_append:
  assumes "linked st"
  shows "linked (st\<lparr>so_heap := so_heap st @ ss\<rparr>)" "mem_lookup (st\<lparr>so_heap := so_heap st @ ss\<rparr>) = mem_lookup st"
proof -
  show "linked (st\<lparr>so_heap := so_heap st @ ss\<rparr>)"
    using assms by (auto simp: linked_def list_all_iff nth_append)
  show "mem_lookup (st\<lparr>so_heap := so_heap st @ ss\<rparr>) = mem_lookup st"
    using linkedD [OF assms] by (auto simp: fun_eq_iff mem_lookup_def mem_get_def nth_append intro: option.map_cong)
qed

lemma mem_lookup_delete:
  assumes "linked st"
  shows "linked (snd (mem_delete i st))" "mem_lookup (snd (mem_delete i st)) = (mem_lookup st)(i := None)"
proof -
  have "set (dict_pop i (so_sessions st)) \<subseteq> set (so_sessions st)" by (auto simp: dict_pop_def)
  with assms show "linked (snd (mem_delete i st))"
    by (auto simp: linked_def mem_delete_def distinct_dict_pop list_all_iff)
  show "mem_lookup (snd (mem_delete i st)) = (mem_lookup st)(i := None)"
    by (simp add: fun_eq_iff mem_delete_def mem_lookup_def mem_get_def map_of_dict_pop)
qed

interpretation in_memory: session_manager mem_lookup mem_store mem_delete linked "\<lambda>st s. True"
proof unfold_locales
  fix st :: session_objects and s :: agent_session and now
  assume l: "linked st"
  note a = mem_lookup_append [OF l, of "[s]"]
  show "mem_lookup (mem_store now s st) = (mem_lookup st)(se_id s \<mapsto> s\<lparr>se_updated_at := now\<rparr>)"
    unfolding mem_store_def by (subst mem_lookup_save [OF a(1)]) (simp_all add: a(2))
  show "linked (mem_store now s st)" unfolding mem_store_def by (rule linked_save [OF a(1)]) simp
qed (simp_all add: mem_lookup_delete, simp add: mem_delete_def mem_lookup_def mem_get_def)

interpretation in_sqlite: session_manager "sql_lookup cd" "sql_save cd" sql_delete
  "\<lambda>db. \<exists>d. represents cd db d" "\<lambda>db s. \<exists>d. represents cd db d \<and> fits cd d s" for cd
proof unfold_locales
  fix db s now
  assume "\<exists>d. represents cd db d \<and> fits cd d s"
  then obtain d where "represents cd db d" "fits cd d s" by blast
  note r = this(1) save_represents [OF this, of now]
  show "sql_lookup cd (sql_save cd now s db) = (sql_lookup cd db)(se_id s \<mapsto> s\<lparr>se_updated_at := now\<rparr>)"
    unfolding sql_lookup_represents [OF r(1)] sql_lookup_represents [OF r(2)]
    by (simp add: put_value_def map_of_dict_set)
  show "\<exists>d. represents cd (sql_save cd now s db) d" using r(2) by blast
next
  fix db i
  assume "\<exists>d. represents cd db d"
  then obtain d where r: "represents cd db d" by blast
  note r' = delete_represents [OF r, of i]
  show "sql_lookup cd (snd (sql_delete i db)) = (sql_lookup cd db)(i := None)"
    unfolding sql_lookup_represents [OF r] sql_lookup_represents [OF r'(2)]
    by (simp add: map_of_dict_pop)
  show "fst (sql_delete i db) \<longleftrightarrow> sql_lookup cd db i \<noteq> None"
    unfolding sql_lookup_represents [OF r] r'(1) ..
  show "\<exists>d. represents cd (snd (sql_delete i db)) d" using r'(2) by blast
qed

subsection \<open>The managers agree\<close>

text \<open>
  A client has the objects that the manager gave it, in the order in which it got them, and names them by
  their place: with the manager in memory they are references into its heap, possibly several to one object,
  with the tables they are objects of its own. Between two calls the client changes and reads objects.
\<close>

datatype session_call =
    CCreate string real real create_options
  | CGet string
  | CList "string option"
  | CChange nat "agent_session \<Rightarrow> agent_session"
  | CRead nat
  | CSave real nat
  | CDelete string

datatype session_answer =
    ASession agent_session
  | AFound bool
  | AEntries "session_entry list"
  | ADone
  | ADeleted bool
  | ARaised

type_synonym memory_client = "nat list \<times> session_objects"
type_synonym sql_client = "agent_session list \<times> session_db"

fun mem_call :: "session_call \<Rightarrow> memory_client \<Rightarrow> session_answer \<times> memory_client" where
  "mem_call (CCreate i t u opts) (hs, st) = (let (r, st') = mem_create i t u opts st in (ADone, hs @ [r], st'))"
| "mem_call (CGet i) (hs, st) =
    (case mem_get i st of None \<Rightarrow> (AFound False, hs, st) | Some r \<Rightarrow> (AFound True, hs @ [r], st))"
| "mem_call (CList a) (hs, st) = (AEntries (mem_list a st), hs, st)"
| "mem_call (CChange k f) (hs, st) = (ADone, hs, change_object f (hs ! k) st)"
| "mem_call (CRead k) (hs, st) = (ASession (so_heap st ! (hs ! k)), hs, st)"
| "mem_call (CSave now k) (hs, st) = (ADone, hs, mem_save now (hs ! k) st)"
| "mem_call (CDelete i) (hs, st) = (let (gone, st') = mem_delete i st in (ADeleted gone, hs, st'))"

text \<open>Saving sets the time of the last change in the object of the client too.\<close>

fun sql_call :: "codec \<Rightarrow> session_call \<Rightarrow> sql_client \<Rightarrow> session_answer \<times> sql_client" where
  "sql_call cd (CCreate i t u opts) (os, db) =
    (case sql_create cd i t u opts db of None \<Rightarrow> (ARaised, os, db) | Some (s, db') \<Rightarrow> (ADone, os @ [s], db'))"
| "sql_call cd (CGet i) (os, db) =
    (case sql_get cd i db of
       Inl e \<Rightarrow> (ARaised, os, db)
     | Inr None \<Rightarrow> (AFound False, os, db)
     | Inr (Some s) \<Rightarrow> (AFound True, os @ [s], db))"
| "sql_call cd (CList a) (os, db) = (AEntries (sql_list a db), os, db)"
| "sql_call cd (CChange k f) (os, db) = (ADone, os[k := f (os ! k)], db)"
| "sql_call cd (CRead k) (os, db) = (ASession (os ! k), os, db)"
| "sql_call cd (CSave now k) (os, db) =
    (ADone, os[k := (os ! k)\<lparr>se_updated_at := now\<rparr>], sql_save cd now (os ! k) db)"
| "sql_call cd (CDelete i) (os, db) = (let (gone, db') = sql_delete i db in (ADeleted gone, os, db'))"

fun call_answers :: "('c \<Rightarrow> 's \<Rightarrow> 'a \<times> 's) \<Rightarrow> 'c list \<Rightarrow> 's \<Rightarrow> 'a list" where
  "call_answers call [] st = []"
| "call_answers call (c # cs) st = (let (a, st') = call c st in a # call_answers call cs st')"

text \<open>
  What a client has to keep to. The live objects are those that were given or saved last of their session;
  once an object is changed or saved, other objects of its session are stale and not used any more. A session
  whose object was changed and not saved is dirty: it is not asked for, and nothing is listed. Identifiers of
  new sessions are fresh, no change touches the identifier or the time of creation, and what is saved
  can be read back.
\<close>

record client =
  cl_live :: "nat list"
  cl_dirty :: "string list"

definition object_of :: "memory_client \<Rightarrow> nat \<Rightarrow> agent_session" where
  "object_of w k = so_heap (snd w) ! (fst w ! k)"

definition keep_live :: "memory_client \<Rightarrow> nat \<Rightarrow> client \<Rightarrow> nat list" where
  "keep_live w k cl = filter (\<lambda>k'. k' = k \<or> se_id (object_of w k') \<noteq> se_id (object_of w k)) (cl_live cl)"

primrec next_client :: "memory_client \<Rightarrow> session_call \<Rightarrow> client \<Rightarrow> client" where
  "next_client w (CCreate i t u opts) cl = cl\<lparr>cl_live := cl_live cl @ [length (fst w)]\<rparr>"
| "next_client w (CGet i) cl =
    (if mem_get i (snd w) = None then cl else cl\<lparr>cl_live := cl_live cl @ [length (fst w)]\<rparr>)"
| "next_client w (CList a) cl = cl"
| "next_client w (CChange k f) cl =
    \<lparr>cl_live = keep_live w k cl, cl_dirty = se_id (object_of w k) # cl_dirty cl\<rparr>"
| "next_client w (CRead k) cl = cl"
| "next_client w (CSave now k) cl =
    \<lparr>cl_live = keep_live w k cl, cl_dirty = removeAll (se_id (object_of w k)) (cl_dirty cl)\<rparr>"
| "next_client w (CDelete i) cl = cl"

primrec call_ok :: "codec \<Rightarrow> client \<Rightarrow> memory_client \<Rightarrow> session_call \<Rightarrow> bool" where
  "call_ok cd cl w (CCreate i t u opts) \<longleftrightarrow>
    i \<notin> se_id ` set (so_heap (snd w)) \<and> storable cd (new_session i t u opts)"
| "call_ok cd cl w (CGet i) \<longleftrightarrow> i \<notin> set (cl_dirty cl)"
| "call_ok cd cl w (CList a) \<longleftrightarrow> cl_dirty cl = []"
| "call_ok cd cl w (CChange k f) \<longleftrightarrow>
    k \<in> set (cl_live cl) \<and> se_id (f (object_of w k)) = se_id (object_of w k) \<and>
    se_created_at (f (object_of w k)) = se_created_at (object_of w k)"
| "call_ok cd cl w (CRead k) \<longleftrightarrow> k \<in> set (cl_live cl)"
| "call_ok cd cl w (CSave now k) \<longleftrightarrow> k \<in> set (cl_live cl) \<and> storable cd (object_of w k)"
| "call_ok cd cl w (CDelete i) \<longleftrightarrow> True"

fun calls_ok :: "codec \<Rightarrow> client \<Rightarrow> memory_client \<Rightarrow> session_call list \<Rightarrow> bool" where
  "calls_ok cd cl w [] \<longleftrightarrow> True"
| "calls_ok cd cl w (c # cs) \<longleftrightarrow> call_ok cd cl w c \<and> calls_ok cd (next_client w c cl) (snd (mem_call c w)) cs"

text \<open>The answers agree; the tables list sessions by the time of their last change, the latest first.\<close>

fun agree :: "session_answer \<Rightarrow> session_answer \<Rightarrow> bool" where
  "agree (AEntries es) b \<longleftrightarrow> b = AEntries (sort_key (\<lambda>e. - sn_updated_at e) es)"
| "agree a b \<longleftrightarrow> a = b"

text \<open>
  The simulation: the live objects have the same value on both sides, and the tables represent, of every
  session that is not dirty, the object in memory. Objects of one session were created at the same time.
\<close>

definition mirrors ::
  "codec \<Rightarrow> client \<Rightarrow> memory_client \<Rightarrow> sql_client \<Rightarrow> session_values \<Rightarrow> (string \<Rightarrow> real) \<Rightarrow> bool" where
  "mirrors cd cl w v d ct \<longleftrightarrow>
    linked (snd w) \<and> length (fst v) = length (fst w) \<and>
    (\<forall>r \<in> set (fst w). r < length (so_heap (snd w))) \<and>
    (\<forall>k \<in> set (cl_live cl). k < length (fst w) \<and> fst v ! k = object_of w k) \<and>
    represents cd (snd v) d \<and> map fst d = map fst (so_sessions (snd w)) \<and>
    (\<forall>i s. map_of d i = Some s \<longrightarrow> se_created_at s = ct i \<and> (i \<in> set (cl_dirty cl) \<or> mem_lookup (snd w) i = Some s)) \<and>
    (\<forall>s \<in> set (so_heap (snd w)). se_created_at s = ct (se_id s))"

lemma mirrorsD:
  assumes "mirrors cd cl (hs, st) (os, db) d ct"
  shows "linked st" "length os = length hs" "r \<in> set hs \<Longrightarrow> r < length (so_heap st)"
    "k \<in> set (cl_live cl) \<Longrightarrow> k < length hs" "k \<in> set (cl_live cl) \<Longrightarrow> os ! k = so_heap st ! (hs ! k)"
    "represents cd db d" "map fst d = map fst (so_sessions st)"
    "map_of d i = Some s \<Longrightarrow> se_created_at s = ct i"
    "map_of d i = Some s \<Longrightarrow> i \<in> set (cl_dirty cl) \<or> mem_lookup st i = Some s"
    "s \<in> set (so_heap st) \<Longrightarrow> se_created_at s = ct (se_id s)"
  using assms by (auto simp: mirrors_def object_of_def)

lemma mirrorsI:
  assumes "linked st" "length os = length hs" "\<And>r. r \<in> set hs \<Longrightarrow> r < length (so_heap st)"
    "\<And>k. k \<in> set (cl_live cl) \<Longrightarrow> k < length hs \<and> os ! k = so_heap st ! (hs ! k)"
    "represents cd db d" "map fst d = map fst (so_sessions st)"
    "\<And>i s. map_of d i = Some s \<Longrightarrow> se_created_at s = ct i \<and> (i \<in> set (cl_dirty cl) \<or> mem_lookup st i = Some s)"
    "\<And>s. s \<in> set (so_heap st) \<Longrightarrow> se_created_at s = ct (se_id s)"
  shows "mirrors cd cl (hs, st) (os, db) d ct"
  using assms by (simp add: mirrors_def object_of_def)

lemma same_keys: "map fst d = map fst e \<Longrightarrow> map_of d i = None \<longleftrightarrow> map_of e i = None"
  by (metis map_of_eq_None_iff list.set_map)

lemma same_keys_set: "map fst d = map fst e \<Longrightarrow> map fst (dict_set i x d) = map fst (dict_set i y e)"
proof (induction d arbitrary: e)
  case (Cons a d)
  then show ?case by (cases a; cases e) auto
qed simp

lemma same_keys_pop: "map fst d = map fst e \<Longrightarrow> map fst (dict_pop i d) = map fst (dict_pop i e)"
proof (induction d arbitrary: e)
  case (Cons a d)
  then show ?case by (cases e) (auto simp: dict_pop_def)
qed (simp add: dict_pop_def)

lemma linked_change:
  assumes "linked st" and "se_id (f (so_heap st ! r)) = se_id (so_heap st ! r)"
  shows "linked (change_object f r st)"
proof -
  have "se_id ((so_heap st)[r := f (so_heap st ! r)] ! q) = se_id (so_heap st ! q)" if "q < length (so_heap st)" for q
    using that assms(2) by (cases "q = r") simp_all
  with assms(1) show ?thesis by (auto simp: linked_def change_object_def list_all_iff)
qed

lemma create_mirrors:
  assumes m: "mirrors cd cl w v d ct" and ok: "call_ok cd cl w (CCreate i t u opts)"
  shows "fst (sql_call cd (CCreate i t u opts) v) = ADone"
    "mirrors cd (next_client w (CCreate i t u opts) cl) (snd (mem_call (CCreate i t u opts) w))
      (snd (sql_call cd (CCreate i t u opts) v)) (d @ [(i, new_session i t u opts)]) (ct(i := t))"
proof -
  obtain hs st os db where w: "w = (hs, st)" "v = (os, db)" by fastforce
  note m = mirrorsD [OF m [unfolded w]]
  let ?s = "new_session i t u opts"
  have s: "se_id ?s = i" "se_created_at ?s = t" by (simp_all add: new_session_def)
  from ok have ok: "i \<notin> se_id ` set (so_heap st)" "storable cd ?s" by (simp_all add: w)
  have new: "map_of (so_sessions st) i = None"
    using linkedD [OF m(1), of i] ok(1) by (cases "map_of (so_sessions st) i") auto
  then have d: "map_of d i = None" using same_keys [OF m(7)] by simp
  from create_represents [OF m(6) d ok(2)] obtain db' where
    db': "sql_create cd i t u opts db = Some (?s, db')" "represents cd db' (d @ [(i, ?s)])" by blast
  then show "fst (sql_call cd (CCreate i t u opts) v) = ADone" by (simp add: w)
  have "mirrors cd (cl\<lparr>cl_live := cl_live cl @ [length hs]\<rparr>)
      (hs @ [length (so_heap st)], \<lparr>so_heap = so_heap st @ [?s], so_sessions = so_sessions st @ [(i, length (so_heap st))]\<rparr>)
      (os @ [?s], db') (d @ [(i, ?s)]) (ct(i := t))"
  proof (rule mirrorsI)
    show "linked \<lparr>so_heap = so_heap st @ [?s], so_sessions = so_sessions st @ [(i, length (so_heap st))]\<rparr>"
      using m(1) new s(1) by (auto simp: linked_def list_all_iff nth_append map_of_eq_None_iff)
    show "k < length (hs @ [length (so_heap st)]) \<and> (os @ [?s]) ! k =
        so_heap \<lparr>so_heap = so_heap st @ [?s], so_sessions = so_sessions st @ [(i, length (so_heap st))]\<rparr> !
          ((hs @ [length (so_heap st)]) ! k)"
      if "k \<in> set (cl_live (cl\<lparr>cl_live := cl_live cl @ [length hs]\<rparr>))" for k
      using that m(2-5) by (auto simp: nth_append)
    show "se_created_at x = (ct(i := t)) j \<and> (j \<in> set (cl_dirty (cl\<lparr>cl_live := cl_live cl @ [length hs]\<rparr>)) \<or>
        mem_lookup \<lparr>so_heap = so_heap st @ [?s], so_sessions = so_sessions st @ [(i, length (so_heap st))]\<rparr> j = Some x)"
      if x: "map_of (d @ [(i, ?s)]) j = Some x" for j x
    proof (cases "j = i")
      case True
      with x d new s show ?thesis by (auto simp: mem_lookup_def mem_get_def map_add_def)
    next
      case False
      with x have x: "map_of d j = Some x" by (auto simp: map_add_Some_iff split: if_splits)
      have "mem_lookup \<lparr>so_heap = so_heap st @ [?s], so_sessions = so_sessions st @ [(i, length (so_heap st))]\<rparr> j = mem_lookup st j"
        using False linkedD(1) [OF m(1), of j]
        by (cases "map_of (so_sessions st) j") (auto simp: mem_lookup_def mem_get_def map_add_def nth_append)
      with m(8) [OF x] m(9) [OF x] False show ?thesis by auto
    qed
    show "se_created_at x = (ct(i := t)) (se_id x)"
      if "x \<in> set (so_heap \<lparr>so_heap = so_heap st @ [?s], so_sessions = so_sessions st @ [(i, length (so_heap st))]\<rparr>)" for x
      using that m(10) [of x] ok(1) s by auto
  qed (use m db'(2) in \<open>auto intro: less_SucI\<close>)
  then show "mirrors cd (next_client w (CCreate i t u opts) cl) (snd (mem_call (CCreate i t u opts) w))
      (snd (sql_call cd (CCreate i t u opts) v)) (d @ [(i, ?s)]) (ct(i := t))"
    using new s(1) db'(1) by (simp add: w mem_create_def Let_def dict_set_new)
qed

lemma get_mirrors:
  assumes m: "mirrors cd cl w v d ct" and ok: "call_ok cd cl w (CGet i)"
  shows "fst (sql_call cd (CGet i) v) = fst (mem_call (CGet i) w)"
    "mirrors cd (next_client w (CGet i) cl) (snd (mem_call (CGet i) w)) (snd (sql_call cd (CGet i) v)) d ct"
proof -
  obtain hs st os db where w: "w = (hs, st)" "v = (os, db)" by fastforce
  note ms = mirrorsD [OF m [unfolded w]]
  have "fst (sql_call cd (CGet i) v) = fst (mem_call (CGet i) w) \<and>
    mirrors cd (next_client w (CGet i) cl) (snd (mem_call (CGet i) w)) (snd (sql_call cd (CGet i) v)) d ct"
  proof (cases "map_of (so_sessions st) i")
    case None
    then have "map_of d i = None" using same_keys [OF ms(7)] by simp
    with None m show ?thesis by (simp add: w mem_get_def get_represents [OF ms(6)])
  next
    case (Some r)
    then obtain s where s: "map_of d i = Some s" using same_keys [OF ms(7), of i] by (cases "map_of d i") auto
    with ms(9) [OF s] ok Some have r: "so_heap st ! r = s" by (simp add: mem_lookup_def mem_get_def)
    have "mirrors cd (cl\<lparr>cl_live := cl_live cl @ [length hs]\<rparr>) (hs @ [r], st) (os @ [s], db) d ct"
      using ms linkedD(1) [OF ms(1) Some] r by (intro mirrorsI) (auto simp: nth_append)
    with Some s show ?thesis by (simp add: w mem_get_def get_represents [OF ms(6)])
  qed
  then show "fst (sql_call cd (CGet i) v) = fst (mem_call (CGet i) w)"
    "mirrors cd (next_client w (CGet i) cl) (snd (mem_call (CGet i) w)) (snd (sql_call cd (CGet i) v)) d ct"
    by blast+
qed
lemma lookup_change:
  assumes "linked st" and "i \<noteq> se_id (so_heap st ! r)"
  shows "mem_lookup (change_object f r st) i = mem_lookup st i"
proof (cases "map_of (so_sessions st) i")
  case (Some q)
  with linkedD [OF assms(1) Some] assms(2) have "r \<noteq> q" by auto
  with Some show ?thesis by (simp add: mem_lookup_def mem_get_def change_object_def)
qed (simp add: mem_lookup_def mem_get_def change_object_def)

lemma live_reference:
  assumes "k' \<in> set (keep_live (hs, st) k cl)" and "k' \<noteq> k"
  shows "k' \<in> set (cl_live cl)" "hs ! k' \<noteq> hs ! k"
  using assms by (auto simp: keep_live_def object_of_def)

lemma change_mirrors:
  assumes m: "mirrors cd cl w v d ct" and ok: "call_ok cd cl w (CChange k f)"
  shows "mirrors cd (next_client w (CChange k f) cl) (snd (mem_call (CChange k f) w)) (snd (sql_call cd (CChange k f) v)) d ct"
proof -
  obtain hs st os db where w: "w = (hs, st)" "v = (os, db)" by fastforce
  note m = mirrorsD [OF m [unfolded w]]
  define r where "r = hs ! k"
  from ok have k: "k \<in> set (cl_live cl)" "se_id (f (so_heap st ! r)) = se_id (so_heap st ! r)"
    "se_created_at (f (so_heap st ! r)) = se_created_at (so_heap st ! r)"
    by (simp_all add: w object_of_def r_def)
  have r: "r < length (so_heap st)" "os ! k = so_heap st ! r" "k < length os"
    using m(2) m(3) [of r] m(4,5) [OF k(1)] by (simp_all add: r_def)
  have heap: "so_heap (change_object f r st) = (so_heap st)[r := f (so_heap st ! r)]"
    "so_sessions (change_object f r st) = so_sessions st"
    by (simp_all add: change_object_def)
  have "mirrors cd \<lparr>cl_live = keep_live (hs, st) k cl, cl_dirty = se_id (so_heap st ! r) # cl_dirty cl\<rparr>
      (hs, change_object f r st) (os[k := f (os ! k)], db) d ct"
  proof (rule mirrorsI)
    fix k' assume "k' \<in> set (cl_live \<lparr>cl_live = keep_live (hs, st) k cl, cl_dirty = se_id (so_heap st ! r) # cl_dirty cl\<rparr>)"
    then have k': "k' \<in> set (keep_live (hs, st) k cl)" by simp
    show "k' < length hs \<and> os[k := f (os ! k)] ! k' = so_heap (change_object f r st) ! (hs ! k')"
    proof (cases "k' = k")
      case True
      with r m(4) [OF k(1)] show ?thesis by (simp add: heap r_def [symmetric])
    next
      case False
      note live_reference [OF k' False]
      with m(4,5) [OF this(1)] False show ?thesis by (simp add: heap r_def [symmetric])
    qed
  next
    fix i s assume "map_of d i = Some s"
    with m(8,9) [of i s] lookup_change [OF m(1), of i r f]
    show "se_created_at s = ct i \<and> (i \<in> set (cl_dirty \<lparr>cl_live = keep_live (hs, st) k cl,
        cl_dirty = se_id (so_heap st ! r) # cl_dirty cl\<rparr>) \<or> mem_lookup (change_object f r st) i = Some s)"
      by auto
  next
    fix s assume "s \<in> set (so_heap (change_object f r st))"
    then have "s = f (so_heap st ! r) \<or> s \<in> set (so_heap st)" by (auto simp: heap dest: subsetD [OF set_update_subset_insert])
    with m(10) [of s] m(10) [of "so_heap st ! r"] r(1) k show "se_created_at s = ct (se_id s)" by auto
  qed (use m r linked_change [of st f r, OF m(1) k(2)] in \<open>auto simp: heap\<close>)
  then show ?thesis by (simp add: w r_def object_of_def)
qed

lemma save_mirrors:
  assumes m: "mirrors cd cl w v d ct" and ok: "call_ok cd cl w (CSave now k)"
  shows "mirrors cd (next_client w (CSave now k) cl) (snd (mem_call (CSave now k) w)) (snd (sql_call cd (CSave now k) v))
    (put_value now (object_of w k) d) ct"
proof -
  obtain hs st os db where w: "w = (hs, st)" "v = (os, db)" by fastforce
  note m = mirrorsD [OF m [unfolded w]]
  define r where "r = hs ! k"
  define s where "s = so_heap st ! r"
  from ok have k: "k \<in> set (cl_live cl)" "storable cd s" by (simp_all add: w object_of_def r_def s_def)
  have r: "r < length (so_heap st)" "os ! k = s" "k < length os"
    using m(2) m(3) [of r] m(4,5) [OF k(1)] by (simp_all add: r_def s_def)
  have st': "so_heap (mem_save now r st) = (so_heap st)[r := s\<lparr>se_updated_at := now\<rparr>]"
    "so_sessions (mem_save now r st) = dict_set (se_id s) r (so_sessions st)"
    by (simp_all add: mem_save_def Let_def s_def)
  have ct: "se_created_at s = ct (se_id s)" using m(10) r(1) by (simp add: s_def)
  then have "fits cd d s" using k(2) m(8) by (auto simp: fits_def)
  note saved = save_represents [OF m(6) this, of now]
  have "mirrors cd \<lparr>cl_live = keep_live (hs, st) k cl, cl_dirty = removeAll (se_id s) (cl_dirty cl)\<rparr>
      (hs, mem_save now r st) (os[k := s\<lparr>se_updated_at := now\<rparr>], sql_save cd now s db) (put_value now s d) ct"
  proof (rule mirrorsI)
    fix k' assume "k' \<in> set (cl_live \<lparr>cl_live = keep_live (hs, st) k cl, cl_dirty = removeAll (se_id s) (cl_dirty cl)\<rparr>)"
    then have k': "k' \<in> set (keep_live (hs, st) k cl)" by simp
    show "k' < length hs \<and> os[k := s\<lparr>se_updated_at := now\<rparr>] ! k' = so_heap (mem_save now r st) ! (hs ! k')"
    proof (cases "k' = k")
      case True
      with r m(4) [OF k(1)] show ?thesis by (simp add: st' r_def [symmetric])
    next
      case False
      note live_reference [OF k' False]
      with m(4,5) [OF this(1)] False show ?thesis by (simp add: st' r_def [symmetric])
    qed
  next
    fix i x assume "map_of (put_value now s d) i = Some x"
    with m(8,9) ct mem_lookup_save [OF m(1) r(1), of now]
    show "se_created_at x = ct i \<and> (i \<in> set (cl_dirty \<lparr>cl_live = keep_live (hs, st) k cl,
        cl_dirty = removeAll (se_id s) (cl_dirty cl)\<rparr>) \<or> mem_lookup (mem_save now r st) i = Some x)"
      by (auto simp: put_value_def map_of_dict_set s_def split: if_splits)
  next
    fix x assume "x \<in> set (so_heap (mem_save now r st))"
    then have "x = s\<lparr>se_updated_at := now\<rparr> \<or> x \<in> set (so_heap st)" by (auto simp: st' dest: subsetD [OF set_update_subset_insert])
    with m(10) [of x] ct show "se_created_at x = ct (se_id x)" by auto
  next
    show "map fst (put_value now s d) = map fst (so_sessions (mem_save now r st))"
      unfolding st' put_value_def by (rule same_keys_set [OF m(7)])
  qed (use m r saved linked_save [OF m(1) r(1)] in \<open>auto simp: st'\<close>)
  then show ?thesis using r(2) by (simp add: w r_def s_def object_of_def)
qed
lemma delete_mirrors:
  assumes m: "mirrors cd cl w v d ct"
  shows "fst (sql_call cd (CDelete i) v) = fst (mem_call (CDelete i) w)"
    "mirrors cd (next_client w (CDelete i) cl) (snd (mem_call (CDelete i) w)) (snd (sql_call cd (CDelete i) v)) (dict_pop i d) ct"
proof -
  obtain hs st os db where w: "w = (hs, st)" "v = (os, db)" by fastforce
  note m = mirrorsD [OF m [unfolded w]]
  note gone = delete_represents [OF m(6), of i]
  show "fst (sql_call cd (CDelete i) v) = fst (mem_call (CDelete i) w)"
    using gone(1) same_keys [OF m(7), of i] by (simp add: w split_def Let_def mem_delete_def)
  note left = mem_lookup_delete [OF m(1), of i]
  have st': "so_heap (snd (mem_delete i st)) = so_heap st"
    "so_sessions (snd (mem_delete i st)) = dict_pop i (so_sessions st)"
    by (simp_all add: mem_delete_def)
  have "mirrors cd cl (hs, snd (mem_delete i st)) (os, snd (sql_delete i db)) (dict_pop i d) ct"
  proof (rule mirrorsI)
    fix j s assume "map_of (dict_pop i d) j = Some s"
    then have "map_of d j = Some s" "j \<noteq> i" by (auto simp: map_of_dict_pop split: if_splits)
    with m(8,9) left(2) show "se_created_at s = ct j \<and> (j \<in> set (cl_dirty cl) \<or> mem_lookup (snd (mem_delete i st)) j = Some s)"
      by auto
  qed (use m left(1) gone(2) same_keys_pop [OF m(7)] in \<open>simp_all add: st'\<close>)
  then show "mirrors cd (next_client w (CDelete i) cl) (snd (mem_call (CDelete i) w)) (snd (sql_call cd (CDelete i) v)) (dict_pop i d) ct"
    by (simp add: w split_def Let_def)
qed

lemma listed_mirrors:
  assumes "mirrors cd cl (hs, st) (os, db) d ct" and "cl_dirty cl = []"
  shows "mem_list a st = list_values a d"
proof -
  note m = mirrorsD [OF assms(1)]
  have d: "distinct (map fst d)" using m(6) by (simp add: represents_def)
  have "map snd d = map (\<lambda>i. the (map_of d i)) (map fst d)"
    using d by (auto intro!: map_cong)
  also have "\<dots> = map (\<lambda>i. the (mem_lookup st i)) (map fst d)"
  proof (rule map_cong [OF refl])
    fix i assume "i \<in> set (map fst d)"
    then obtain s where "map_of d i = Some s" by (metis map_of_eq_None_iff not_None_eq list.set_map)
    with m(9) [of i s] assms(2) show "the (map_of d i) = the (mem_lookup st i)" by simp
  qed
  also have "\<dots> = map (\<lambda>(i, r). so_heap st ! r) (so_sessions st)"
    using m(1) unfolding m(7) by (auto simp: linked_def mem_lookup_def mem_get_def intro!: map_cong)
  finally show ?thesis by (simp add: mem_list_def list_values_def)
qed

lemma call_mirrors:
  assumes m: "mirrors cd cl w v d ct" and ok: "call_ok cd cl w c"
  shows "agree (fst (mem_call c w)) (fst (sql_call cd c v)) \<and>
    (\<exists>d' ct'. mirrors cd (next_client w c cl) (snd (mem_call c w)) (snd (sql_call cd c v)) d' ct')"
proof -
  obtain hs st os db where w: "w = (hs, st)" "v = (os, db)" by fastforce
  note md = mirrorsD [OF m [unfolded w]]
  show ?thesis
  proof (cases c)
    case (CCreate i t u opts)
    have "fst (mem_call c w) = ADone" by (simp add: CCreate w mem_create_def Let_def)
    then have "agree (fst (mem_call c w)) (fst (sql_call cd c v))"
      using create_mirrors(1) [OF m ok [unfolded CCreate]] by (simp add: CCreate)
    with create_mirrors(2) [OF m ok [unfolded CCreate]] show ?thesis unfolding CCreate by blast
  next
    case (CGet i)
    have "\<exists>b. fst (mem_call c w) = AFound b" by (auto simp: CGet w split: option.split)
    then have "agree (fst (mem_call c w)) (fst (sql_call cd c v))"
      using get_mirrors(1) [OF m ok [unfolded CGet]] by (auto simp: CGet)
    with get_mirrors(2) [OF m ok [unfolded CGet]] show ?thesis unfolding CGet by blast
  next
    case (CList a)
    with m ok listed_mirrors [OF m [unfolded w]] list_represents [OF md(6)] show ?thesis by (auto simp: w)
  next
    case (CChange k f)
    with change_mirrors [OF m ok [unfolded CChange]] show ?thesis by (auto simp: w)
  next
    case (CRead k)
    with m ok md(5) [of k] show ?thesis by (auto simp: w)
  next
    case (CSave now k)
    with save_mirrors [OF m ok [unfolded CSave]] show ?thesis by (auto simp: w)
  next
    case (CDelete i)
    have "\<exists>b. fst (mem_call c w) = ADeleted b" by (simp add: CDelete w split_def Let_def)
    then have "agree (fst (mem_call c w)) (fst (sql_call cd c v))"
      using delete_mirrors(1) [OF m, of i] by (auto simp: CDelete)
    with delete_mirrors(2) [OF m, of i] show ?thesis unfolding CDelete by blast
  qed
qed

lemma calls_mirror:
  "mirrors cd cl w v d ct \<Longrightarrow> calls_ok cd cl w cs \<Longrightarrow>
    list_all2 agree (call_answers mem_call cs w) (call_answers (sql_call cd) cs v)"
proof (induction cs arbitrary: cl w v d ct)
  case (Cons c cs)
  from Cons.prems(2) have ok: "call_ok cd cl w c" "calls_ok cd (next_client w c cl) (snd (mem_call c w)) cs" by simp_all
  from call_mirrors [OF Cons.prems(1) ok(1)] obtain d' ct' where agreed: "agree (fst (mem_call c w)) (fst (sql_call cd c v))"
    and m: "mirrors cd (next_client w c cl) (snd (mem_call c w)) (snd (sql_call cd c v)) d' ct'"
    by blast
  from agreed Cons.IH [OF m ok(2)] show ?case by (simp add: split_def Let_def)
qed simp

definition empty_session_db :: session_db where
  "empty_session_db = \<lparr>sd_sessions = [], sd_messages = [], sd_compactions = []\<rparr>"

definition no_objects :: client where
  "no_objects = \<lparr>cl_live = [], cl_dirty = []\<rparr>"

lemma empty_represents: "represents cd empty_session_db []"
  by (simp add: represents_def empty_session_db_def rows_of_def)

lemma empty_mirrors: "mirrors cd no_objects ([], no_sessions) ([], empty_session_db) [] ct"
  by (simp add: mirrors_def linked_def no_sessions_def no_objects_def empty_represents)

text \<open>C21. The SQLite manager implements the manager in memory, which hands out the objects that it stores. A client
  that keeps to the discipline of \<open>call_ok\<close> cannot tell them apart: whatever it creates, asks for, changes, reads,
  saves, lists and deletes, starting empty, the answers are the same, save that the tables list
  entries in the order of their last change. The discipline: once an object of a session is changed or saved, no
  other object of that session is used; a session with unsaved changes is not asked for, and nothing is listed
  then; identifiers of new sessions are fresh; no change touches identifier or time of creation; what is
  saved can be read back. (Without it the answers differ, see the lemmas below.)\<close>

theorem sqlite_sessions_refine_memory:
  assumes "calls_ok cd no_objects ([], no_sessions) calls"
  shows "list_all2 agree (call_answers mem_call calls ([], no_sessions))
    (call_answers (sql_call cd) calls ([], empty_session_db))"
  using empty_mirrors assms by (rule calls_mirror)

definition demo_codec :: codec where
  "demo_codec =
    \<lparr>cd_dumps = (\<lambda>ascii j. json_dumps ascii False j), cd_loads = json_loads, cd_message = (\<lambda>m. ''m''),
     cd_read_message = (\<lambda>s. Some (UserMessage (CStr ''hi''))), cd_float = (\<lambda>x. ''0.0''), cd_read_float = (\<lambda>s. 0)\<rparr>"

definition say_hi :: "agent_session \<Rightarrow> agent_session" where
  "say_hi s = s\<lparr>se_messages := se_messages s @ [UserMessage (CStr ''hi'')]\<rparr>"

definition plain_options :: create_options where
  "plain_options = \<lparr>op_agent_id = ''default'', op_model_id = None, op_title = None, op_metadata = None\<rparr>"

text \<open>A session is created, changed while another one is opened and closed, saved, asked for and changed again.\<close>

definition demo_calls :: "session_call list" where
  "demo_calls =
    [CCreate ''a'' 0 0 plain_options, CChange 0 say_hi, CCreate ''b'' 2 2 plain_options, CGet ''b'', CDelete ''b'',
     CSave 3 0, CGet ''a'', CChange 3 say_hi, CRead 3, CSave 4 3, CList None, CGet ''b'']"

theorem sqlite_sessions_refine_memory_witness:
  "list_all2 agree (call_answers mem_call demo_calls ([], no_sessions))
     (call_answers (sql_call demo_codec) demo_calls ([], empty_session_db)) \<and>
   call_answers mem_call demo_calls ([], no_sessions) ! 8 =
     ASession (say_hi (say_hi (new_session ''a'' 0 0 plain_options))\<lparr>se_updated_at := 3\<rparr>)"
proof
  have "calls_ok demo_codec no_objects ([], no_sessions) demo_calls" by code_simp
  then show "list_all2 agree (call_answers mem_call demo_calls ([], no_sessions))
      (call_answers (sql_call demo_codec) demo_calls ([], empty_session_db))"
    by (rule sqlite_sessions_refine_memory)
  show "call_answers mem_call demo_calls ([], no_sessions) ! 8 =
      ASession (say_hi (say_hi (new_session ''a'' 0 0 plain_options))\<lparr>se_updated_at := 3\<rparr>)"
    by code_simp
qed

text \<open>
  A change that is not saved is there in memory and not in the tables, which is what becomes of a turn
  that raises before it saves.
\<close>

lemma unsaved_change_shows:
  "last (call_answers mem_call [CCreate ''a'' 0 0 plain_options, CChange 0 say_hi, CGet ''a'', CRead 1] ([], no_sessions)) =
     ASession (say_hi (new_session ''a'' 0 0 plain_options))"
  "last (call_answers (sql_call demo_codec) [CCreate ''a'' 0 0 plain_options, CChange 0 say_hi, CGet ''a'', CRead 1]
       ([], empty_session_db)) =
     ASession (new_session ''a'' 0 0 plain_options)"
  by code_simp+

text \<open>A changed time of creation is stored by the manager in memory and not by the tables.\<close>

lemma creation_time_not_updated:
  "map_option se_created_at (sql_lookup demo_codec
     (sql_save demo_codec 9 (demo_session\<lparr>se_messages := [], se_created_at := 5\<rparr>)
       (sql_save demo_codec 8 (demo_session\<lparr>se_messages := []\<rparr>) empty_session_db)) ''s'') = Some 0"
  by code_simp

end
