(* ===== verification/StoreOps.thy ===== *)
theory StoreOps
  imports Sessions Texts
begin

section \<open>Maintenance of the session store\<close>

text \<open>
  \<open>oxenclaw/pi/store_ops.py\<close> over the SQLite manager of theory \<open>Sessions\<close>, and the credentials of
  \<open>pi/persistence.py\<close>: pruning by age, by count and by size, migrations, the advisory lock and the small
  read cache. The clock and the readings of the file size are arguments. The endless maintenance loop
  around \<open>tick\<close> is left out.
\<close>

subsection \<open>Pruning\<close>

record store_prune =
  pr_sessions_removed :: int
  pr_bytes_freed :: int

text \<open>\<open>setdefault(agent, []).append(entry)\<close>: the groups in the order of their first entries.\<close>

definition by_agent :: "session_entry list \<Rightarrow> session_entry list list" where
  "by_agent listed =
    map (\<lambda>a. filter (\<lambda>e. sn_agent_id e = a) listed) (from_keys (map sn_agent_id listed))"

definition newest_first :: "session_entry list \<Rightarrow> session_entry list" where
  "newest_first es = sort_key (\<lambda>e. - sn_updated_at e) es"

definition too_old :: "real \<Rightarrow> int \<Rightarrow> session_entry list \<Rightarrow> string list" where
  "too_old cutoff keep_min es =
    map sn_id (filter (\<lambda>e. sn_updated_at e < cutoff) (slice_from keep_min (newest_first es)))"

text \<open>The file sizes read before and after the deletions.\<close>

definition prune_by_age :: "real \<Rightarrow> int \<times> int \<Rightarrow> real \<Rightarrow> int \<Rightarrow> session_db \<Rightarrow> store_prune \<times> session_db" where
  "prune_by_age now sizes older_than_seconds keep_min db =
    (let cutoff = now - older_than_seconds;
         to_delete = concat (map (too_old cutoff keep_min) (by_agent (sql_list None db)));
         (removed, db') = delete_each sql_delete to_delete db
     in (\<lparr>pr_sessions_removed = removed, pr_bytes_freed = max 0 (fst sizes - snd sizes)\<rparr>, db'))"

definition prune_by_count :: "int \<times> int \<Rightarrow> int \<Rightarrow> session_db \<Rightarrow> store_prune \<times> session_db" where
  "prune_by_count sizes max_sessions db =
    (let listed = sql_list None db
     in if int (length listed) \<le> max_sessions then (\<lparr>pr_sessions_removed = 0, pr_bytes_freed = 0\<rparr>, db)
        else let to_delete = map sn_id (slice_from max_sessions listed);
                 (removed, db') = delete_each sql_delete to_delete db
             in (\<lparr>pr_sessions_removed = removed, pr_bytes_freed = max 0 (fst sizes - snd sizes)\<rparr>, db'))"

text \<open>The loop over the entries, the oldest first; \<open>size_after n\<close> is the size after \<open>n\<close> rounds.\<close>

primrec drop_oldest ::
  "(nat \<Rightarrow> int) \<Rightarrow> int \<Rightarrow> int \<Rightarrow> int \<Rightarrow> session_entry list \<Rightarrow> nat \<Rightarrow> int \<Rightarrow> session_db \<Rightarrow> int \<times> session_db" where
  "drop_oldest size_after max_bytes keep_min n_total [] n removed db = (removed, db)"
| "drop_oldest size_after max_bytes keep_min n_total (e # es) n removed db =
    (if n_total - removed \<le> keep_min then (removed, db)
     else let (gone, db') = sql_delete (sn_id e) db;
              removed' = (if gone then removed + 1 else removed)
          in if size_after (Suc n) \<le> max_bytes then (removed', db')
             else drop_oldest size_after max_bytes keep_min n_total es (Suc n) removed' db')"

definition prune_by_disk_budget ::
  "(nat \<Rightarrow> int) \<Rightarrow> int \<Rightarrow> int \<Rightarrow> int \<Rightarrow> session_db \<Rightarrow> store_prune \<times> session_db" where
  "prune_by_disk_budget size_after final_size max_bytes keep_min db =
    (if size_after 0 \<le> max_bytes then (\<lparr>pr_sessions_removed = 0, pr_bytes_freed = 0\<rparr>, db)
     else let listed = sort_key sn_updated_at (sql_list None db);
              (removed, db') = drop_oldest size_after max_bytes keep_min (int (length listed)) listed 0 0 db
          in (\<lparr>pr_sessions_removed = removed, pr_bytes_freed = max 0 (size_after 0 - final_size)\<rparr>, db'))"

record maintenance_config =
  mn_interval_seconds :: real
  mn_max_age_seconds :: "real option"
  mn_max_sessions :: "int option"
  mn_max_disk_bytes :: "int option"
  mn_keep_min_per_agent :: int

definition default_maintenance :: maintenance_config where
  "default_maintenance =
    \<lparr>mn_interval_seconds = 60 * 60, mn_max_age_seconds = Some (30 * 24 * 60 * 60), mn_max_sessions = Some 1000,
     mn_max_disk_bytes = Some (500 * 1024 * 1024), mn_keep_min_per_agent = 5\<rparr>"

record tick_summary =
  tk_by_age :: "int option"
  tk_by_count :: "int option"
  tk_by_disk :: "(int \<times> int) option"

record size_readings =
  sz_age :: "int \<times> int"
  sz_count :: "int \<times> int"
  sz_disk :: "nat \<Rightarrow> int"
  sz_final :: int

definition tick :: "maintenance_config \<Rightarrow> real \<Rightarrow> size_readings \<Rightarrow> session_db \<Rightarrow> tick_summary \<times> session_db" where
  "tick cfg now sz db =
    (let (age, db1) = (case mn_max_age_seconds cfg of
             None \<Rightarrow> (None, db)
           | Some s \<Rightarrow> let (r, d) = prune_by_age now (sz_age sz) s (mn_keep_min_per_agent cfg) db
                       in (Some (pr_sessions_removed r), d));
         (count, db2) = (case mn_max_sessions cfg of
             None \<Rightarrow> (None, db1)
           | Some m \<Rightarrow> let (r, d) = prune_by_count (sz_count sz) m db1 in (Some (pr_sessions_removed r), d));
         (disk, db3) = (case mn_max_disk_bytes cfg of
             None \<Rightarrow> (None, db2)
           | Some b \<Rightarrow> let (r, d) = prune_by_disk_budget (sz_disk sz) (sz_final sz) b (mn_keep_min_per_agent cfg) db2
                       in (Some (pr_sessions_removed r, pr_bytes_freed r), d))
     in (\<lparr>tk_by_age = age, tk_by_count = count, tk_by_disk = disk\<rparr>, db3))"

subsection \<open>Migrations\<close>

text \<open>
  \<open>script\<close> is the effect of a script on the database and whether it succeeds. It commits statement by
  statement, so the rollback after a failure undoes nothing of it. The recorded versions are a table
  with the version as its key, so a second row for one version fails.
\<close>

record migration =
  mg_version :: int
  mg_description :: string
  mg_sql :: string

primrec migrate ::
  "(string \<Rightarrow> 'db \<Rightarrow> bool \<times> 'db) \<Rightarrow> int set \<Rightarrow> migration list \<Rightarrow> int list \<Rightarrow> int list \<Rightarrow> 'db \<Rightarrow>
   int list option \<times> int list \<times> 'db" where
  "migrate script have_v [] applied recorded db = (Some applied, recorded, db)"
| "migrate script have_v (m # ms) applied recorded db =
    (if mg_version m \<in> have_v then migrate script have_v ms applied recorded db
     else let (success, db') = script (mg_sql m) db
          in if \<not> success \<or> mg_version m \<in> set recorded then (None, recorded, db')
             else migrate script have_v ms (applied @ [mg_version m]) (recorded @ [mg_version m]) db')"

definition apply_migrations ::
  "(string \<Rightarrow> 'db \<Rightarrow> bool \<times> 'db) \<Rightarrow> migration list \<Rightarrow> int list \<Rightarrow> 'db \<Rightarrow> int list option \<times> int list \<times> 'db" where
  "apply_migrations script migrations recorded db =
    migrate script (set recorded) (sort_key mg_version migrations) [] recorded db"

subsection \<open>The advisory lock\<close>

record lock_row =
  lk_holder :: string
  lk_acquired_at :: real
  lk_expires_at :: real

type_synonym lock_table = "(string \<times> lock_row) list"

record store_lock =
  sl_name :: string
  sl_holder :: string
  sl_ttl_seconds :: real

text \<open>What \<open>acquire\<close> reads, and what it then writes.\<close>

definition lock_busy :: "store_lock \<Rightarrow> real \<Rightarrow> bool \<Rightarrow> lock_table \<Rightarrow> bool" where
  "lock_busy l now force t =
    (case map_of t (sl_name l) of
       None \<Rightarrow> False
     | Some r \<Rightarrow> \<not> force \<and> now < lk_expires_at r \<and> lk_holder r \<noteq> sl_holder l)"

definition lock_claim :: "store_lock \<Rightarrow> real \<Rightarrow> lock_table \<Rightarrow> lock_table" where
  "lock_claim l now t =
    dict_set (sl_name l)
      \<lparr>lk_holder = sl_holder l, lk_acquired_at = now, lk_expires_at = now + sl_ttl_seconds l\<rparr> t"

definition lock_acquire :: "store_lock \<Rightarrow> real \<Rightarrow> bool \<Rightarrow> lock_table \<Rightarrow> bool \<times> lock_table" where
  "lock_acquire l now force t = (if lock_busy l now force t then (False, t) else (True, lock_claim l now t))"

definition holds_lock :: "store_lock \<Rightarrow> lock_table \<Rightarrow> bool" where
  "holds_lock l t = (case map_of t (sl_name l) of None \<Rightarrow> False | Some r \<Rightarrow> lk_holder r = sl_holder l)"

definition lock_renew :: "store_lock \<Rightarrow> real \<Rightarrow> lock_table \<Rightarrow> bool \<times> lock_table" where
  "lock_renew l now t =
    (case map_of t (sl_name l) of
       None \<Rightarrow> (False, t)
     | Some r \<Rightarrow>
        if lk_holder r = sl_holder l
        then (True, dict_set (sl_name l) (r\<lparr>lk_expires_at := now + sl_ttl_seconds l\<rparr>) t) else (False, t))"

definition lock_release :: "store_lock \<Rightarrow> lock_table \<Rightarrow> bool \<times> lock_table" where
  "lock_release l t = (if holds_lock l t then (True, dict_pop (sl_name l) t) else (False, t))"

subsection \<open>The read cache\<close>

record 'v read_cache =
  rc_capacity :: int
  rc_data :: "(string \<times> 'v) list"
  rc_order :: "string list"

definition cache_touch :: "string \<Rightarrow> 'v read_cache \<Rightarrow> 'v read_cache" where
  "cache_touch k c = c\<lparr>rc_order := remove1 k (rc_order c) @ [k]\<rparr>"

definition cache_lookup :: "string \<Rightarrow> 'v read_cache \<Rightarrow> 'v option \<times> 'v read_cache" where
  "cache_lookup k c =
    (case map_of (rc_data c) k of None \<Rightarrow> (None, c) | Some v \<Rightarrow> (Some v, cache_touch k c))"

definition cache_store :: "string \<Rightarrow> 'v \<Rightarrow> 'v read_cache \<Rightarrow> 'v read_cache" where
  "cache_store k v c =
    (if map_of (rc_data c) k \<noteq> None then cache_touch k (c\<lparr>rc_data := dict_set k v (rc_data c)\<rparr>)
     else let c1 = (if rc_capacity c \<le> int (length (rc_data c)) \<and> rc_order c \<noteq> []
                    then c\<lparr>rc_order := tl (rc_order c), rc_data := dict_pop (hd (rc_order c)) (rc_data c)\<rparr>
                    else c)
          in c1\<lparr>rc_data := dict_set k v (rc_data c1), rc_order := rc_order c1 @ [k]\<rparr>)"

definition cache_invalidate :: "string \<Rightarrow> 'v read_cache \<Rightarrow> 'v read_cache" where
  "cache_invalidate k c = c\<lparr>rc_data := dict_pop k (rc_data c), rc_order := remove1 k (rc_order c)\<rparr>"

definition cache_clear :: "'v read_cache \<Rightarrow> 'v read_cache" where
  "cache_clear c = c\<lparr>rc_data := [], rc_order := []\<rparr>"

subsection \<open>Credentials\<close>

type_synonym credentials = "(string \<times> string) list"

definition credential_get :: "string \<Rightarrow> credentials \<Rightarrow> string option" where
  "credential_get provider t = map_of t provider"

definition credential_set :: "string \<Rightarrow> string \<Rightarrow> credentials \<Rightarrow> credentials" where
  "credential_set provider api_key t = dict_set provider api_key t"

definition credential_delete :: "string \<Rightarrow> credentials \<Rightarrow> bool \<times> credentials" where
  "credential_delete provider t = (map_of t provider \<noteq> None, dict_pop provider t)"

definition credential_providers :: "credentials \<Rightarrow> string list" where
  "credential_providers t = sort (map fst t)"

subsection \<open>A lock excludes\<close>

datatype lock_event =
    Acquire store_lock real bool
  | Renew store_lock real
  | Release store_lock

fun lock_result :: "lock_event \<Rightarrow> lock_table \<Rightarrow> bool \<times> lock_table" where
  "lock_result (Acquire l now force) t = lock_acquire l now force t"
| "lock_result (Renew l now) t = lock_renew l now t"
| "lock_result (Release l) t = lock_release l t"

fun event_lock :: "lock_event \<Rightarrow> store_lock" where
  "event_lock (Acquire l now force) = l"
| "event_lock (Renew l now) = l"
| "event_lock (Release l) = l"

fun lock_events :: "lock_event list \<Rightarrow> lock_table \<Rightarrow> bool list \<times> lock_table" where
  "lock_events [] t = ([], t)"
| "lock_events (e # es) t = (let (r, t1) = lock_result e t; (rs, t2) = lock_events es t1 in (r # rs, t2))"

text \<open>What others do with the same lock: no force, and claims only before \<open>until\<close>.\<close>

definition same_lock :: "store_lock \<Rightarrow> lock_event \<Rightarrow> bool" where
  "same_lock l e \<longleftrightarrow> sl_name (event_lock e) = sl_name l"

fun by_other :: "store_lock \<Rightarrow> real \<Rightarrow> lock_event \<Rightarrow> bool" where
  "by_other l until (Acquire l' now force) \<longleftrightarrow> sl_holder l' \<noteq> sl_holder l \<and> \<not> force \<and> now < until"
| "by_other l until (Renew l' now) \<longleftrightarrow> sl_holder l' \<noteq> sl_holder l"
| "by_other l until (Release l') \<longleftrightarrow> sl_holder l' \<noteq> sl_holder l"

definition held_until :: "store_lock \<Rightarrow> real \<Rightarrow> lock_table \<Rightarrow> bool" where
  "held_until l until t \<longleftrightarrow>
    (case map_of t (sl_name l) of None \<Rightarrow> False | Some r \<Rightarrow> lk_holder r = sl_holder l \<and> lk_expires_at r = until)"

lemma held_row:
  "held_until l until t \<Longrightarrow> \<exists>r. map_of t (sl_name l) = Some r \<and> lk_holder r = sl_holder l \<and> lk_expires_at r = until"
  by (simp add: held_until_def split: option.splits)

lemma other_refused:
  assumes "held_until l until t" and "same_lock l e" and "by_other l until e"
  shows "lock_result e t = (False, t)"
  using held_row [OF assms(1)] assms(2,3)
  by (cases e) (auto simp: same_lock_def lock_acquire_def lock_busy_def lock_renew_def lock_release_def holds_lock_def)

lemma other_lock_untouched:
  assumes "\<not> same_lock l e"
  shows "map_of (snd (lock_result e t)) (sl_name l) = map_of t (sl_name l)"
  using assms
  by (cases e) (auto simp: same_lock_def lock_acquire_def lock_claim_def lock_renew_def lock_release_def map_of_dict_set
      map_of_dict_pop split: option.split)

lemma events_refused:
  assumes "held_until l until t" and "\<And>e. e \<in> set es \<Longrightarrow> same_lock l e \<Longrightarrow> by_other l until e"
  shows "list_all2 (\<lambda>e r. same_lock l e \<longrightarrow> \<not> r) es (fst (lock_events es t)) \<and> held_until l until (snd (lock_events es t))"
  using assms
proof (induction es arbitrary: t)
  case (Cons e es)
  have "held_until l until (snd (lock_result e t)) \<and> (same_lock l e \<longrightarrow> \<not> fst (lock_result e t))"
  proof (cases "same_lock l e")
    case True
    with other_refused [OF Cons.prems(1) True] Cons.prems show ?thesis by simp
  next
    case False
    with Cons.prems(1) other_lock_untouched [OF False, of t] show ?thesis by (simp add: held_until_def)
  qed
  with Cons.IH [of "snd (lock_result e t)"] Cons.prems(2) show ?case by (simp add: split_def Let_def)
qed simp

text \<open>C26. The advisory lock excludes. After a successful claim, and whatever happens on other locks in between,
  every other holder that tries to claim, renew or release this lock before it expires is refused, and
  the claim is still there, unless somebody forces the lock. A claim reads and writes in one step.\<close>

theorem lock_excludes:
  assumes "lock_acquire l now force t = (True, t1)"
    and "\<forall>e \<in> set es. same_lock l e \<longrightarrow> by_other l (now + sl_ttl_seconds l) e"
  shows "list_all2 (\<lambda>e r. same_lock l e \<longrightarrow> \<not> r) es (fst (lock_events es t1)) \<and> holds_lock l (snd (lock_events es t1))"
proof -
  from assms(1) have "held_until l (now + sl_ttl_seconds l) t1"
    by (auto simp: lock_acquire_def lock_claim_def held_until_def map_of_dict_set split: if_splits)
  from events_refused [OF this, of es] assms(2)
  have "list_all2 (\<lambda>e r. same_lock l e \<longrightarrow> \<not> r) es (fst (lock_events es t1))"
    "held_until l (now + sl_ttl_seconds l) (snd (lock_events es t1))" by blast+
  with held_row [OF this(2)] show ?thesis by (auto simp: holds_lock_def)
qed

definition demo_lock :: "string \<Rightarrow> store_lock" where
  "demo_lock h = \<lparr>sl_name = ''maintenance'', sl_holder = h, sl_ttl_seconds = 60\<rparr>"

theorem lock_excludes_witness:
  "\<exists>t1. lock_acquire (demo_lock ''1@a'') 0 False [] = (True, t1) \<and>
     fst (lock_events [Acquire (demo_lock ''2@b'') 30 False, Release (demo_lock ''2@b'')] t1) = [False, False]"
proof -
  let ?es = "[Acquire (demo_lock ''2@b'') 30 False, Release (demo_lock ''2@b'')]"
  obtain t1 where t1: "lock_acquire (demo_lock ''1@a'') 0 False [] = (True, t1)"
    by (simp add: lock_acquire_def lock_busy_def)
  have "\<forall>e \<in> set ?es. same_lock (demo_lock ''1@a'') e \<longrightarrow> by_other (demo_lock ''1@a'') (0 + sl_ttl_seconds (demo_lock ''1@a'')) e"
    by (simp add: demo_lock_def)
  moreover have "same_lock (demo_lock ''1@a'') e" if "e \<in> set ?es" for e
    using that by (auto simp: same_lock_def demo_lock_def)
  ultimately have "list_all2 (\<lambda>e r. \<not> r) ?es (fst (lock_events ?es t1))"
    using lock_excludes [OF t1, of ?es] by (auto simp: list_all2_Cons1)
  with t1 show ?thesis by (auto simp: list_all2_Cons1)
qed

text \<open>
  The read of \<open>acquire\<close> opens no transaction, so two processes can both read before either writes: then both
  claims succeed.
\<close>

lemma interleaved_claims_both_succeed:
  "\<not> lock_busy (demo_lock ''1@a'') 0 False [] \<and> \<not> lock_busy (demo_lock ''2@b'') 0 False [] \<and>
   holds_lock (demo_lock ''2@b'') (lock_claim (demo_lock ''2@b'') 0 (lock_claim (demo_lock ''1@a'') 0 []))"
  by (simp add: lock_busy_def holds_lock_def lock_claim_def demo_lock_def)

subsection \<open>Migrations run once\<close>

lemma migrate_recorded:
  "migrate script have_v ms applied recorded db = (res, recorded', db') \<Longrightarrow>
   set recorded \<subseteq> set recorded' \<and> (\<forall>vs. res = Some vs \<longrightarrow> mg_version ` set ms \<subseteq> have_v \<union> set recorded')"
proof (induction ms arbitrary: applied recorded db)
  case (Cons m ms)
  show ?case
  proof (cases "mg_version m \<in> have_v")
    case True
    with Cons show ?thesis by auto
  next
    case False
    obtain ok db1 where s: "script (mg_sql m) db = (ok, db1)" by fastforce
    show ?thesis
    proof (cases "\<not> ok \<or> mg_version m \<in> set recorded")
      case True
      with Cons.prems False s show ?thesis by auto
    next
      case fine: False
      with Cons.prems False s
      have "migrate script have_v ms (applied @ [mg_version m]) (recorded @ [mg_version m]) db1 = (res, recorded', db')" by simp
      from Cons.IH [OF this] show ?thesis by auto
    qed
  qed
qed simp

lemma migrate_nothing:
  "mg_version ` set ms \<subseteq> have_v \<Longrightarrow> migrate script have_v ms applied recorded db = (Some applied, recorded, db)"
  by (induction ms) simp_all

text \<open>A run that succeeds leaves nothing to do: the next one applies no migration and runs no script.\<close>

lemma migrations_idempotent:
  assumes "apply_migrations script migrations recorded db = (Some vs, recorded', db')"
  shows "apply_migrations script' migrations recorded' db'' = (Some [], recorded', db'')"
proof -
  from migrate_recorded [of script "set recorded" "sort_key mg_version migrations" "[]" recorded db] assms
  have "set recorded \<subseteq> set recorded' \<and> mg_version ` set migrations \<subseteq> set recorded \<union> set recorded'"
    by (auto simp: apply_migrations_def)
  then show ?thesis unfolding apply_migrations_def by (intro migrate_nothing) auto
qed

subsection \<open>The read cache keeps the entries used last\<close>

text \<open>
  The abstraction is the list of entries in the order of their last use, the latest last; the reference
  operations work on this list alone.
\<close>

definition cache_ok :: "'v read_cache \<Rightarrow> bool" where
  "cache_ok c \<longleftrightarrow>
    distinct (rc_order c) \<and> distinct (map fst (rc_data c)) \<and> set (rc_order c) = fst ` set (rc_data c)"

definition recency :: "'v read_cache \<Rightarrow> (string \<times> 'v) list" where
  "recency c = map (\<lambda>k. (k, the (map_of (rc_data c) k))) (rc_order c)"

definition lru_get :: "string \<Rightarrow> (string \<times> 'v) list \<Rightarrow> 'v option \<times> (string \<times> 'v) list" where
  "lru_get k xs = (case map_of xs k of None \<Rightarrow> (None, xs) | Some v \<Rightarrow> (Some v, dict_pop k xs @ [(k, v)]))"

definition lru_put :: "int \<Rightarrow> string \<Rightarrow> 'v \<Rightarrow> (string \<times> 'v) list \<Rightarrow> (string \<times> 'v) list" where
  "lru_put cap k v xs =
    (if map_of xs k \<noteq> None then dict_pop k xs @ [(k, v)]
     else (if cap \<le> int (length xs) then tl xs else xs) @ [(k, v)])"

lemma map_of_recency:
  assumes "cache_ok c"
  shows "map_of (recency c) = map_of (rc_data c)"
proof
  fix k
  have "map_of (map (\<lambda>k. (k, f k)) ks) k = (if k \<in> set ks then Some (f k) else None)" for f :: "string \<Rightarrow> 'a" and ks
    by (induction ks) auto
  then show "map_of (recency c) k = map_of (rc_data c) k"
    using assms by (auto simp: recency_def cache_ok_def map_of_eq_None_iff) (metis map_of_eq_None_iff option.collapse)+
qed

lemma length_recency:
  assumes "cache_ok c"
  shows "length (recency c) = length (rc_data c)"
proof -
  have "length (rc_order c) = card (fst ` set (rc_data c))"
    using assms distinct_card [of "rc_order c"] by (simp add: cache_ok_def)
  also have "\<dots> = length (rc_data c)" using assms distinct_card [of "map fst (rc_data c)"] by (simp add: cache_ok_def)
  finally show ?thesis by (simp add: recency_def)
qed

lemma dict_pop_recency:
  "distinct ks \<Longrightarrow> dict_pop k (map (\<lambda>k. (k, f k)) ks) = map (\<lambda>k. (k, f k)) (remove1 k ks)"
  by (induction ks) (auto simp: dict_pop_def remove1_idem)

lemma touch_recency:
  assumes "cache_ok c" and "map_of (rc_data c) k = Some v"
  shows "cache_ok (cache_touch k c)" "recency (cache_touch k c) = dict_pop k (recency c) @ [(k, v)]"
proof -
  have "k \<in> set (rc_order c)" using assms by (auto simp: cache_ok_def dest!: map_of_SomeD) force
  then show "cache_ok (cache_touch k c)" using assms(1) by (auto simp: cache_ok_def cache_touch_def)
  show "recency (cache_touch k c) = dict_pop k (recency c) @ [(k, v)]"
    using assms by (simp add: recency_def cache_touch_def dict_pop_recency cache_ok_def)
qed

lemma recency_cong:
  "rc_order c' = rc_order c \<Longrightarrow> (\<And>k. k \<in> set (rc_order c) \<Longrightarrow> map_of (rc_data c') k = map_of (rc_data c) k) \<Longrightarrow>
   recency c' = recency c"
  by (simp add: recency_def)

lemma lookup_is_lru:
  assumes "cache_ok c"
  shows "fst (cache_lookup k c) = fst (lru_get k (recency c))" "recency (snd (cache_lookup k c)) = snd (lru_get k (recency c))"
    "cache_ok (snd (cache_lookup k c))"
  using assms touch_recency [OF assms, of k]
  by (auto simp: cache_lookup_def lru_get_def map_of_recency split: option.split)

lemma dict_set_fresh:
  "k \<notin> fst ` set d \<Longrightarrow> dict_set k v d = d @ [(k, v)]"
  by (simp add: dict_set_new map_of_eq_None_iff)

lemma append_recency:
  fixes v :: 'v and c :: "'v read_cache"
  assumes "cache_ok c" and "map_of (rc_data c) k = None"
  defines "c' \<equiv> c\<lparr>rc_data := dict_set k v (rc_data c), rc_order := rc_order c @ [k]\<rparr>"
  shows "cache_ok c'" "recency c' = recency c @ [(k, v)]"
proof -
  have k: "k \<notin> fst ` set (rc_data c)" using assms(2) by (simp add: map_of_eq_None_iff)
  then have k': "k \<notin> set (rc_order c)" using assms(1) by (simp add: cache_ok_def)
  show "cache_ok c'" using assms(1) k k' by (simp add: c'_def cache_ok_def dict_set_fresh)
  have "map (\<lambda>j. (j, the (map_of (dict_set k v (rc_data c)) j))) (rc_order c) = recency c"
    using k' by (auto simp: recency_def map_of_dict_set)
  then show "recency c' = recency c @ [(k, v)]"
    by (simp add: c'_def recency_def map_of_dict_set)
qed

lemma evict_recency:
  assumes "cache_ok c" and "rc_order c = j # js"
  defines "c' \<equiv> c\<lparr>rc_order := js, rc_data := dict_pop j (rc_data c)\<rparr>"
  shows "cache_ok c'" "recency c' = tl (recency c)"
proof -
  have "fst ` set (dict_pop j (rc_data c)) = set js"
    using assms(1,2) by (auto simp: cache_ok_def dict_pop_def image_iff)
  then show "cache_ok c'" using assms(1,2) by (simp add: c'_def cache_ok_def distinct_dict_pop)
  show "recency c' = tl (recency c)"
    using assms(1,2) by (auto simp: c'_def recency_def cache_ok_def map_of_dict_pop)
qed

lemma store_is_lru:
  assumes "cache_ok c"
  shows "recency (cache_store k v c) = lru_put (rc_capacity c) k v (recency c)" "cache_ok (cache_store k v c)"
proof -
  have "recency (cache_store k v c) = lru_put (rc_capacity c) k v (recency c) \<and> cache_ok (cache_store k v c)"
  proof (cases "map_of (rc_data c) k")
    case None
    let ?c = "if rc_capacity c \<le> int (length (rc_data c)) \<and> rc_order c \<noteq> []
      then c\<lparr>rc_order := tl (rc_order c), rc_data := dict_pop (hd (rc_order c)) (rc_data c)\<rparr> else c"
    have "cache_ok ?c \<and> recency ?c = (if rc_capacity c \<le> int (length (recency c)) then tl (recency c) else recency c)"
      using assms evict_recency [OF assms, of "hd (rc_order c)" "tl (rc_order c)"]
      by (auto simp: length_recency) (simp add: recency_def)
    moreover have "map_of (rc_data ?c) k = None" using None by (simp add: map_of_dict_pop)
    ultimately show ?thesis
      using None append_recency [of ?c k v] assms
      by (simp only: cache_store_def lru_put_def map_of_recency Let_def simp_thms if_False)
  next
    case (Some w)
    let ?c = "c\<lparr>rc_data := dict_set k v (rc_data c)\<rparr>"
    have keys: "fst ` set (dict_set k v (rc_data c)) = fst ` set (rc_data c)"
      using Some by (auto simp: fst_set_dict_set dest!: map_of_SomeD) force
    then have ok: "cache_ok ?c" using assms by (simp add: cache_ok_def distinct_dict_set)
    have "dict_pop k (recency ?c) = dict_pop k (recency c)"
      using assms by (auto simp: recency_def dict_pop_recency cache_ok_def map_of_dict_set)
    with touch_recency [OF ok, of k v] Some show ?thesis
      by (simp add: cache_store_def lru_put_def map_of_recency [OF assms] map_of_dict_set)
  qed
  then show "recency (cache_store k v c) = lru_put (rc_capacity c) k v (recency c)" "cache_ok (cache_store k v c)"
    by simp_all
qed

datatype 'v cache_op = CacheGet string | CachePut string 'v | CacheInvalidate string | CacheClear

fun cache_result :: "'v cache_op \<Rightarrow> 'v read_cache \<Rightarrow> 'v option \<times> 'v read_cache" where
  "cache_result (CacheGet k) c = cache_lookup k c"
| "cache_result (CachePut k v) c = (None, cache_store k v c)"
| "cache_result (CacheInvalidate k) c = (None, cache_invalidate k c)"
| "cache_result CacheClear c = (None, cache_clear c)"

fun lru_op :: "int \<Rightarrow> 'v cache_op \<Rightarrow> (string \<times> 'v) list \<Rightarrow> 'v option \<times> (string \<times> 'v) list" where
  "lru_op cap (CacheGet k) xs = lru_get k xs"
| "lru_op cap (CachePut k v) xs = (None, lru_put cap k v xs)"
| "lru_op cap (CacheInvalidate k) xs = (None, dict_pop k xs)"
| "lru_op cap CacheClear xs = (None, [])"

lemma cache_result_is_lru:
  assumes "cache_ok c"
  shows "fst (cache_result a c) = fst (lru_op (rc_capacity c) a (recency c)) \<and>
    recency (snd (cache_result a c)) = snd (lru_op (rc_capacity c) a (recency c)) \<and>
    cache_ok (snd (cache_result a c)) \<and> rc_capacity (snd (cache_result a c)) = rc_capacity c"
proof (cases a)
  case (CacheInvalidate k)
  have "cache_ok (cache_invalidate k c)"
    using assms distinct_dict_pop [of "rc_data c" k]
    by (auto simp: cache_ok_def cache_invalidate_def dict_pop_def image_iff)
  moreover have "recency (cache_invalidate k c) = dict_pop k (recency c)"
    using assms by (auto simp: recency_def cache_invalidate_def cache_ok_def dict_pop_recency map_of_dict_pop)
  ultimately show ?thesis using CacheInvalidate by (simp add: cache_invalidate_def)
next
  case (CacheGet k)
  with lookup_is_lru [OF assms, of k] show ?thesis
    by (auto simp: cache_lookup_def cache_touch_def split: option.split)
next
  case (CachePut k v)
  with store_is_lru [OF assms, of k v] show ?thesis by (auto simp: cache_store_def cache_touch_def Let_def)
qed (simp add: cache_clear_def cache_ok_def recency_def)

lemma lru_op_bound:
  assumes "int (length xs) \<le> max 1 cap"
  shows "int (length (snd (lru_op cap a xs))) \<le> max 1 cap"
proof -
  have pop: "length (dict_pop k xs) \<le> length xs" for k by (simp add: dict_pop_def)
  have present: "length (dict_pop k xs) < length xs" if "map_of xs k \<noteq> None" for k
    using that by (auto simp: dict_pop_def length_filter_less dest!: map_of_SomeD)
  show ?thesis
  proof (cases a)
    case (CacheGet k)
    then show ?thesis using present [of k] assms by (auto simp: lru_get_def split: option.split)
  next
    case (CachePut k v)
    then show ?thesis using present [of k] assms by (cases xs) (auto simp: lru_put_def)
  next
    case (CacheInvalidate k)
    then show ?thesis using pop [of k] assms by simp
  qed simp
qed

fun run_ops :: "('o \<Rightarrow> 's \<Rightarrow> 'r \<times> 's) \<Rightarrow> 'o list \<Rightarrow> 's \<Rightarrow> 'r list \<times> 's" where
  "run_ops f [] s = ([], s)"
| "run_ops f (a # as) s = (let (r, s1) = f a s; (rs, s2) = run_ops f as s1 in (r # rs, s2))"

definition empty_cache :: "int \<Rightarrow> 'v read_cache" where
  "empty_cache cap = \<lparr>rc_capacity = cap, rc_data = [], rc_order = []\<rparr>"

lemma run_ops_lru:
  assumes "cache_ok c" and "int (length (recency c)) \<le> max 1 (rc_capacity c)"
  shows "fst (run_ops cache_result as c) = fst (run_ops (lru_op (rc_capacity c)) as (recency c)) \<and>
    int (length (rc_data (snd (run_ops cache_result as c)))) \<le> max 1 (rc_capacity c)"
  using assms
proof (induction as arbitrary: c)
  case (Cons a as)
  note step = cache_result_is_lru [OF Cons.prems(1), of a]
  from lru_op_bound [OF Cons.prems(2), of a] step Cons.IH [of "snd (cache_result a c)"]
  show ?case by (simp add: split_def Let_def)
qed (simp add: length_recency)

text \<open>The read cache is a least-recently-used cache. Whatever is looked up, stored, invalidated and
  cleared, starting empty, the answers are those of the list of entries ordered by their last use from
  which the first one is dropped when the cache is full, and the cache never holds more entries
  than its capacity, or one.\<close>

lemma read_cache_is_lru:
  fixes ops :: "'v cache_op list"
  shows "fst (run_ops cache_result ops (empty_cache cap)) = fst (run_ops (lru_op cap) ops []) \<and>
   int (length (rc_data (snd (run_ops cache_result ops (empty_cache cap))))) \<le> max 1 cap"
proof -
  have "cache_ok (empty_cache cap :: 'v read_cache)" "recency (empty_cache cap :: 'v read_cache) = []"
    "rc_capacity (empty_cache cap :: 'v read_cache) = cap"
    by (simp_all add: cache_ok_def recency_def empty_cache_def)
  with run_ops_lru [of "empty_cache cap" ops] show ?thesis by simp
qed

subsection \<open>Pruning spares recent sessions\<close>

lemma prune_group:
  assumes "e \<in> set es" and "distinct (map sn_id es)" and "sn_id e \<in> set (too_old cutoff (int n) es)"
  shows "sn_updated_at e < cutoff" "n \<le> card (sn_id ` {e' \<in> set es. sn_id e' \<notin> set (too_old cutoff (int n) es) \<and>
    sn_updated_at e \<le> sn_updated_at e'})"
proof -
  let ?ns = "newest_first es"
  have ns: "set ?ns = set es" "distinct (map sn_id ?ns)" "sorted (map (\<lambda>e. - sn_updated_at e) ?ns)"
  proof -
    have "mset (map sn_id ?ns) = mset (map sn_id es)" by (simp add: newest_first_def)
    then show "distinct (map sn_id ?ns)" using assms(2) by (metis mset_eq_imp_distinct_iff)
  qed (simp_all add: newest_first_def)
  have old: "too_old cutoff (int n) es = map sn_id (filter (\<lambda>e. sn_updated_at e < cutoff) (drop n ?ns))"
    by (simp add: too_old_def slice_from_def slice_index_def)
  from assms(3) obtain e0 where e0: "e0 \<in> set (drop n ?ns)" "sn_updated_at e0 < cutoff" "sn_id e0 = sn_id e"
    unfolding old by auto
  have "e0 \<in> set ?ns" using e0(1) by (rule in_set_dropD)
  with ns assms(1) e0(3) have e: "e0 = e" by (auto simp: distinct_map inj_on_def)
  then show "sn_updated_at e < cutoff" using e0(2) by simp
  have len: "length (take n ?ns) = n" using e0(1) by (cases "n \<le> length ?ns") auto
  have newer: "sn_updated_at e \<le> sn_updated_at e'" if "e' \<in> set (take n ?ns)" for e'
  proof -
    have "sorted (map (\<lambda>e. - sn_updated_at e) (take n ?ns @ drop n ?ns))" using ns(3) by simp
    then have "- sn_updated_at e' \<le> - sn_updated_at e"
      using that e0(1) e by (auto simp: sorted_append simp del: append_take_drop_id)
    then show ?thesis by simp
  qed
  have kept: "sn_id e' \<notin> set (too_old cutoff (int n) es)" if "e' \<in> set (take n ?ns)" for e'
  proof -
    have "distinct (map sn_id (take n ?ns @ drop n ?ns))" using ns(2) by simp
    then have "sn_id ` set (take n ?ns) \<inter> sn_id ` set (drop n ?ns) = {}"
      by (simp only: map_append distinct_append set_map)
    then show ?thesis unfolding old using that by fastforce
  qed
  have "distinct (map sn_id (take n ?ns))" using ns(2) by (metis distinct_take take_map)
  then have "n = card (sn_id ` set (take n ?ns))" using len by (metis distinct_card length_map set_map)
  also have "\<dots> \<le> card (sn_id ` {e' \<in> set es. sn_id e' \<notin> set (too_old cutoff (int n) es) \<and> sn_updated_at e \<le> sn_updated_at e'})"
    using newer kept ns(1) by (intro card_mono image_mono) (auto dest: in_set_takeD)
  finally show "n \<le> card (sn_id ` {e' \<in> set es. sn_id e' \<notin> set (too_old cutoff (int n) es) \<and>
    sn_updated_at e \<le> sn_updated_at e'})" .
qed


lemma too_old_ids: "set (too_old cutoff (int n) es) \<subseteq> sn_id ` set es"
proof -
  have "set (drop n (newest_first es)) \<subseteq> set es" using set_drop_subset by (fastforce simp: newest_first_def)
  then show ?thesis by (auto simp: too_old_def slice_from_def slice_index_def)
qed

definition of_agent :: "string \<Rightarrow> session_entry list \<Rightarrow> session_entry list" where
  "of_agent a listed = filter (\<lambda>e. sn_agent_id e = a) listed"

lemma deleted_of_agent:
  assumes "e \<in> set listed" and "distinct (map sn_id listed)"
  shows "sn_id e \<in> set (concat (map (too_old cutoff (int n)) (by_agent listed))) \<longleftrightarrow>
    sn_id e \<in> set (too_old cutoff (int n) (of_agent (sn_agent_id e) listed))"
proof
  assume "sn_id e \<in> set (concat (map (too_old cutoff (int n)) (by_agent listed)))"
  then obtain a where a: "sn_id e \<in> set (too_old cutoff (int n) (of_agent a listed))"
    by (auto simp: by_agent_def of_agent_def)
  with too_old_ids obtain e' where "e' \<in> set (of_agent a listed)" "sn_id e' = sn_id e" by (metis imageE subsetD)
  with assms have "a = sn_agent_id e" by (auto simp: of_agent_def distinct_map inj_on_def)
  with a show "sn_id e \<in> set (too_old cutoff (int n) (of_agent (sn_agent_id e) listed))" by simp
qed (use assms(1) in \<open>auto simp: by_agent_def of_agent_def\<close>)

lemma deleted_are_old:
  assumes "e \<in> set listed" and "distinct (map sn_id listed)"
    and gone: "gone = set (concat (map (too_old cutoff (int n)) (by_agent listed)))" and "sn_id e \<in> gone"
  shows "sn_updated_at e < cutoff" "n \<le> card (sn_id ` {e' \<in> set listed. sn_id e' \<notin> gone \<and>
    sn_agent_id e' = sn_agent_id e \<and> sn_updated_at e \<le> sn_updated_at e'})"
proof -
  let ?es = "of_agent (sn_agent_id e) listed"
  note here = deleted_of_agent [OF _ assms(2), where cutoff = cutoff and n = n, folded gone]
  have es: "e \<in> set ?es" "distinct (map sn_id ?es)" "sn_id e \<in> set (too_old cutoff (int n) ?es)"
    using assms here [OF assms(1)] by (simp_all add: of_agent_def distinct_map_filter)
  note group = prune_group [OF es]
  from group(1) show "sn_updated_at e < cutoff" .
  have "{e' \<in> set ?es. sn_id e' \<notin> set (too_old cutoff (int n) ?es) \<and> sn_updated_at e \<le> sn_updated_at e'} =
    {e' \<in> set listed. sn_id e' \<notin> gone \<and> sn_agent_id e' = sn_agent_id e \<and> sn_updated_at e \<le> sn_updated_at e'}"
    using here by (auto simp: of_agent_def)
  with group(2) show "n \<le> card (sn_id ` {e' \<in> set listed. sn_id e' \<notin> gone \<and>
    sn_agent_id e' = sn_agent_id e \<and> sn_updated_at e \<le> sn_updated_at e'})" by simp
qed

lemma listed_sessions:
  assumes "represents cd db d"
  shows "distinct (map sn_id (sql_list None db))"
    "set (sql_list None db) = {entry_of s |s. \<exists>i. map_of d i = Some s}"
    "map_of d i = Some s \<Longrightarrow> se_id s = i"
proof -
  have ids: "se_id s = i" if "map_of d i = Some s" for i s using assms that by (simp add: represents_def)
  then show "map_of d i = Some s \<Longrightarrow> se_id s = i" .
  have d: "distinct (map fst d)" using assms by (simp add: represents_def)
  then have "map (\<lambda>x. sn_id (entry_of (snd x))) d = map fst d" using ids by (auto simp: entry_of_def)
  then have "map sn_id (list_values None d) = map fst d" by (simp add: list_values_def comp_def del: map_eq_conv)
  with d have "distinct (map sn_id (list_values None d))" by simp
  moreover have "mset (map sn_id (sql_list None db)) = mset (map sn_id (list_values None d))"
    by (simp add: list_represents [OF assms])
  ultimately show "distinct (map sn_id (sql_list None db))" by (metis mset_eq_imp_distinct_iff)
  show "set (sql_list None db) = {entry_of s |s. \<exists>i. map_of d i = Some s}"
    using d by (force simp: list_represents [OF assms] list_values_def)
qed

text \<open>C27. Pruning by age takes no recent session and leaves every agent its latest ones. Whatever it deletes
  was last changed before the cutoff, and of the same agent at least \<open>keep_min\<close> sessions that are no
  older are still there; what is still there is as it was.\<close>

theorem prune_spares_recent:
  assumes "represents cd db d" and "0 \<le> keep_min"
    and "prune_by_age now sizes older_than keep_min db = (result, db')"
  shows "(case (map_of d i, sql_lookup cd db' i) of
      (Some s, None) \<Rightarrow> se_updated_at s < now - older_than \<and>
        keep_min \<le> int (card {j. case sql_lookup cd db' j of None \<Rightarrow> False
          | Some s' \<Rightarrow> se_agent_id s' = se_agent_id s \<and> se_updated_at s \<le> se_updated_at s'})
    | (before, after) \<Rightarrow> after = before)"
proof -
  from assms(2) obtain n where n: "keep_min = int n" by (metis nat_0_le)
  let ?gone = "concat (map (too_old (now - older_than) (int n)) (by_agent (sql_list None db)))"
  have "db' = snd (delete_each sql_delete ?gone db)"
    using assms(3) by (simp add: prune_by_age_def n Let_def split_def)
  moreover have "\<exists>d. represents cd db d" using assms(1) by blast
  ultimately have after: "sql_lookup cd db' j = (if j \<in> set ?gone then None else map_of d j)" for j
    using in_sqlite.delete_each_lookup [of cd db ?gone j] by (simp add: sql_lookup_represents [OF assms(1)])
  note listed = listed_sessions [OF assms(1)]
  show ?thesis
  proof (cases "map_of d i")
    case (Some s)
    show ?thesis
    proof (cases "i \<in> set ?gone")
      case True
      have e: "entry_of s \<in> set (sql_list None db)" "sn_id (entry_of s) \<in> set ?gone"
        using Some True listed(2) listed(3) [OF Some] by (auto simp: entry_of_def)
      note old = deleted_are_old [OF e(1) listed(1) refl e(2)]
      let ?J = "{j. case sql_lookup cd db' j of None \<Rightarrow> False
          | Some s' \<Rightarrow> se_agent_id s' = se_agent_id s \<and> se_updated_at s \<le> se_updated_at s'}"
      have fin: "finite ?J"
      proof (rule finite_subset)
        show "?J \<subseteq> dom (map_of d)" by (auto simp: after split: option.splits if_splits)
      qed (rule finite_dom_map_of)
      have sub: "sn_id ` {e' \<in> set (sql_list None db). sn_id e' \<notin> set ?gone \<and>
          sn_agent_id e' = sn_agent_id (entry_of s) \<and> sn_updated_at (entry_of s) \<le> sn_updated_at e'} \<subseteq> ?J"
      proof (intro image_subsetI, elim CollectE conjE)
        fix e'
        assume e': "e' \<in> set (sql_list None db)" "sn_id e' \<notin> set ?gone" "sn_agent_id e' = sn_agent_id (entry_of s)"
          "sn_updated_at (entry_of s) \<le> sn_updated_at e'"
        from e'(1) listed(2) obtain j s' where s': "e' = entry_of s'" "map_of d j = Some s'" by blast
        with listed(3) [OF s'(2)] have "sn_id e' = j" by (simp add: entry_of_def)
        with e'(2-4) s' show "sn_id e' \<in> ?J" by (simp add: after entry_of_def)
      qed
      have "n \<le> card ?J" using le_trans [OF old(2) card_mono [OF fin sub]] .
      with old(1) Some True show ?thesis by (simp add: after n entry_of_def)
    qed (simp add: after Some)
  qed (simp add: after)
qed

definition kept_session :: "string \<Rightarrow> agent_session" where
  "kept_session i = new_session i 0 0 \<lparr>op_agent_id = ''a'', op_model_id = None, op_title = None, op_metadata = None\<rparr>"

theorem prune_spares_recent_witness:
  "case prune_by_age 200 (0, 0) 150 1
      (sql_save demo_codec 100 (kept_session ''s2'') (sql_save demo_codec 0 (kept_session ''s1'') empty_session_db)) of
    (result, db') \<Rightarrow> pr_sessions_removed result = 1 \<and> sql_lookup demo_codec db' ''s1'' = None \<and>
      1 \<le> card {j. case sql_lookup demo_codec db' j of None \<Rightarrow> False
        | Some s \<Rightarrow> se_agent_id s = ''a'' \<and> 0 \<le> se_updated_at s}"
proof -
  define d1 where "d1 = put_value 0 (kept_session ''s1'') []"
  define d where "d = put_value 100 (kept_session ''s2'') d1"
  define db where "db = sql_save demo_codec 100 (kept_session ''s2'') (sql_save demo_codec 0 (kept_session ''s1'') empty_session_db)"
  have "fits demo_codec [] (kept_session ''s1'')" "fits demo_codec d1 (kept_session ''s2'')"
    unfolding d1_def by code_simp+
  then have rep: "represents demo_codec db d"
    unfolding db_def d_def d1_def by (intro save_represents empty_represents)
  obtain result db' where prune: "prune_by_age 200 (0, 0) 150 1 db = (result, db')" by fastforce
  have "pr_sessions_removed (fst (prune_by_age 200 (0, 0) 150 1 db)) = 1"
    "sql_lookup demo_codec (snd (prune_by_age 200 (0, 0) 150 1 db)) ''s1'' = None"
    unfolding db_def by code_simp+
  moreover obtain s where "map_of d ''s1'' = Some s" "se_agent_id s = ''a''" "se_updated_at s = 0"
    unfolding d_def d1_def by (simp add: put_value_def dict_set_new kept_session_def new_session_def)
  moreover note prune_spares_recent [OF rep _ prune, of "''s1''"]
  ultimately show ?thesis
    unfolding db_def [symmetric] prune by (simp cong: option.case_cong)
qed

end
