(* ===== verification/PseudoTool.thy ===== *)
theory PseudoTool
  imports JsonRepair ToolRegistry
begin

section \<open>Tool calls written as text\<close>

text \<open>
  \<open>oxenclaw/agents/pseudo_tool.py\<close>: a call that the model wrote as JSON into its answer. Fenced
  blocks are looked at first, then the objects that a count of braces finds; every candidate is
  parsed, the dictionaries in it are read as calls, and one without a name is matched to the schemas
  of the tools. The arguments are the members of the dictionary; a schema is the JSON value of the
  registry. The lemmas show that a call that is returned was written in the text, what the matching
  computes, and that a call written into prose is found.
\<close>

type_synonym members = "(string \<times> json) list"

record pseudo_call =
  pc_name :: string
  pc_args :: members
  pc_raw_block :: string

subsection \<open>Candidates\<close>

text \<open>
  \<open>```(?:json|JSON)?\s*\n?(.*?)```\<close>, found again and again. What the pattern skips holds no
  backtick, so a shorter match of the front part never gives a block where the longest gives none.
\<close>

fun cut_at :: "string \<Rightarrow> string \<Rightarrow> (string \<times> string) option" where
  "cut_at p [] = (if p = [] then Some ([], []) else None)"
| "cut_at p (c # s) =
    (if prefix p (c # s) then Some ([], drop (length p) (c # s))
     else map_option (\<lambda>(a, b). (c # a, b)) (cut_at p s))"

definition skip_language :: "string \<Rightarrow> string" where
  "skip_language s = (if prefix ''json'' s \<or> prefix ''JSON'' s then drop 4 s else s)"

lemma cut_at_Some: "cut_at p s = Some (a, b) \<Longrightarrow> s = a @ p @ b"
  by (induction s arbitrary: a b) (auto split: if_splits simp: prefix_def)

lemma cut_at_shorter: "cut_at fence s = Some (a, b) \<Longrightarrow> length b < length s"
  by (auto dest!: cut_at_Some simp: fence_def)

lemma after_language_shorter: "length (lstrip (skip_language s)) \<le> length s"
  by (rule order.trans [OF length_lstrip]) (simp add: skip_language_def)

function fenced_blocks :: "string \<Rightarrow> string list" where
  "fenced_blocks s =
    (case cut_at fence s of
       None \<Rightarrow> []
     | Some (before, after) \<Rightarrow>
        (case cut_at fence (lstrip (skip_language after)) of
           None \<Rightarrow> []
         | Some (block, others) \<Rightarrow> block # fenced_blocks others))"
  by pat_completeness auto
termination
  by (relation "measure length")
     (auto dest!: cut_at_shorter intro: less_trans less_le_trans [OF _ after_language_shorter])

declare fenced_blocks.simps [simp del]

text \<open>The walk over the characters; \<open>br_start\<close> is the place of the outer brace, or \<open>-1\<close>.\<close>

record bare_state =
  br_depth :: nat
  br_start :: int
  br_string :: bool
  br_escape :: bool
  br_out :: "string list"

definition bare_step :: "string \<Rightarrow> bare_state \<Rightarrow> nat \<times> char \<Rightarrow> bare_state" where
  "bare_step txt b ic =
    (let (i, c) = ic
     in if br_string b
        then (if br_escape b then b\<lparr>br_escape := False\<rparr>
              else if c = CHR 0x5C then b\<lparr>br_escape := True\<rparr>
              else if c = CHR 0x22 then b\<lparr>br_string := False\<rparr>
              else b)
        else if c = CHR 0x22 then b\<lparr>br_string := True\<rparr>
        else if c = CHR ''{'' then
          (if br_depth b = 0 then b\<lparr>br_start := int i, br_depth := 1\<rparr> else b\<lparr>br_depth := br_depth b + 1\<rparr>)
        else if c = CHR ''}'' then
          (if 0 < br_depth b
           then let depth = br_depth b - 1
                in if depth = 0 \<and> 0 \<le> br_start b
                   then b\<lparr>br_depth := 0, br_start := -1,
                          br_out := br_out b @ [drop (nat (br_start b)) (take (i + 1) txt)]\<rparr>
                   else b\<lparr>br_depth := depth\<rparr>
           else b)
        else b)"

definition bare_init :: bare_state where
  "bare_init = \<lparr>br_depth = 0, br_start = -1, br_string = False, br_escape = False, br_out = []\<rparr>"

definition bare_top_level_objects :: "string \<Rightarrow> string list" where
  "bare_top_level_objects txt = br_out (foldl (bare_step txt) bare_init (enumerate 0 txt))"

definition call_candidates :: "string \<Rightarrow> string list" where
  "call_candidates txt =
    (let blocks = filter (\<lambda>b. b \<noteq> []) (map strip (fenced_blocks txt))
     in if blocks = [] then bare_top_level_objects txt else blocks)"

subsection \<open>Dictionaries that may be the call\<close>

definition dict_at :: "string \<Rightarrow> members \<Rightarrow> members list" where
  "dict_at k obj = (case map_of obj k of Some (JObj inner) \<Rightarrow> [inner] | _ \<Rightarrow> [])"

fun tool_call_entry :: "json \<Rightarrow> members list" where
  "tool_call_entry (JObj tc) = tc # dict_at ''function'' tc"
| "tool_call_entry _ = []"

definition flatten_object :: "members \<Rightarrow> members list" where
  "flatten_object obj =
    obj # dict_at ''function'' obj @
    (case map_of obj ''tool_calls'' of Some (JArr tcs) \<Rightarrow> concat (map tool_call_entry tcs) | _ \<Rightarrow> [])"

fun flatten_call_candidates :: "json \<Rightarrow> members list" where
  "flatten_call_candidates (JObj obj) = flatten_object obj"
| "flatten_call_candidates (JArr items) =
    concat (map (\<lambda>item. case item of JObj obj \<Rightarrow> flatten_object obj | _ \<Rightarrow> []) items)"
| "flatten_call_candidates _ = []"

subsection \<open>Name and arguments\<close>

definition NAME_KEYS :: "string list" where
  "NAME_KEYS = [''tool'', ''tool_name'', ''name'', ''function_name'']"

definition ARGS_KEYS :: "string list" where
  "ARGS_KEYS = [''arguments'', ''args'', ''input'', ''parameters'', ''params'', ''inputs'']"

fun call_name :: "members \<Rightarrow> string list \<Rightarrow> string option" where
  "call_name obj [] = None"
| "call_name obj (k # ks) =
    (case map_of obj k of
       Some (JStr s) \<Rightarrow> if strip s \<noteq> [] then Some (strip s) else call_name obj ks
     | _ \<Rightarrow> call_name obj ks)"

fun call_args :: "members \<Rightarrow> string list \<Rightarrow> members" where
  "call_args obj [] = filter (\<lambda>(k, v). k \<notin> set NAME_KEYS \<and> k \<notin> set ARGS_KEYS) obj"
| "call_args obj (k # ks) =
    (case map_of obj k of
       Some (JObj inner) \<Rightarrow> inner
     | Some (JStr s) \<Rightarrow> (case json_loads s of Some (JObj inner) \<Rightarrow> inner | _ \<Rightarrow> call_args obj ks)
     | _ \<Rightarrow> call_args obj ks)"

definition coerce_to_call :: "members \<Rightarrow> (string \<times> members) option" where
  "coerce_to_call obj =
    (case call_name obj NAME_KEYS of None \<Rightarrow> None | Some name \<Rightarrow> Some (name, call_args obj ARGS_KEYS))"

subsection \<open>Matching to the schemas\<close>

text \<open>
  \<open>set((schema.get("properties") or {}).keys())\<close> and \<open>set(schema.get("required") or [])\<close>. The
  second is a set of strings, or holds something else and is then no set of keys (\<open>None\<close>).
\<close>

fun property_keys :: "json option \<Rightarrow> py_error + string list" where
  "property_keys None = Inr []"
| "property_keys (Some (JObj ps)) = Inr (map fst ps)"
| "property_keys (Some v) = (if truthy v then Inl AttributeError else Inr [])"

fun unhashable :: "json \<Rightarrow> bool" where
  "unhashable (JArr xs) = True"
| "unhashable (JObj kvs) = True"
| "unhashable _ = False"

fun strings_of :: "json list \<Rightarrow> string list option" where
  "strings_of [] = Some []"
| "strings_of (JStr s # vs) = map_option (\<lambda>ss. s # ss) (strings_of vs)"
| "strings_of (v # vs) = None"

fun required_keys :: "json option \<Rightarrow> py_error + string list option" where
  "required_keys None = Inr (Some [])"
| "required_keys (Some (JArr vs)) =
    (if list_ex unhashable vs then Inl TypeError else Inr (map_option remdups (strings_of vs)))"
| "required_keys (Some (JObj kvs)) = Inr (Some (map fst kvs))"
| "required_keys (Some (JStr s)) = Inr (Some (remdups (map (\<lambda>c. [c]) s)))"
| "required_keys (Some v) = (if truthy v then Inl TypeError else Inr (Some []))"

text \<open>How specific the schema is for the keys, or \<open>None\<close> when it does not fit.\<close>

definition schema_fit :: "string list \<Rightarrow> json \<Rightarrow> py_error + nat option" where
  "schema_fit obj_keys schema =
    (if \<not> is_dict schema then Inr None
     else bind_err (property_keys (dict_get ''properties'' schema)) (\<lambda>properties.
       bind_err (required_keys (dict_get ''required'' schema)) (\<lambda>required.
         Inr (case required of
            None \<Rightarrow> None
          | Some req \<Rightarrow>
             if req = [] then None
             else if \<not> set req \<subseteq> set obj_keys then None
             else let allow_extras = (case dict_get ''additionalProperties'' schema of
                        None \<Rightarrow> False | Some v \<Rightarrow> truthy v)
                  in if \<not> allow_extras \<and> \<not> set obj_keys \<subseteq> set properties then None
                     else Some (length req + length (filter (\<lambda>k. k \<in> set properties) (remdups obj_keys)))))))"

fun match_loop :: "string list \<Rightarrow> (string \<times> json) list \<Rightarrow> (nat \<times> string) option \<Rightarrow> py_error + (nat \<times> string) option" where
  "match_loop obj_keys [] best = Inr best"
| "match_loop obj_keys ((name, schema) # schemas) best =
    bind_err (schema_fit obj_keys schema) (\<lambda>fit.
      match_loop obj_keys schemas
        (case fit of
           None \<Rightarrow> best
         | Some s \<Rightarrow>
            (case best of
               None \<Rightarrow> Some (s, name)
             | Some (s0, n0) \<Rightarrow> if s0 < s then Some (s, name) else if s = s0 then Some (s, []) else best)))"

definition match_to_schema :: "members \<Rightarrow> (string \<times> json) list \<Rightarrow> py_error + string option" where
  "match_to_schema obj schemas =
    (if obj = [] then Inr None
     else bind_err (match_loop (map fst obj) schemas None) (\<lambda>best.
       Inr (case best of None \<Rightarrow> None | Some (s, name) \<Rightarrow> if name = [] then None else Some name)))"

subsection \<open>The extraction\<close>

fun first_call ::
  "(string \<Rightarrow> bool) \<Rightarrow> (string \<times> json) list \<Rightarrow> string \<Rightarrow> members list \<Rightarrow> py_error + pseudo_call option" where
  "first_call is_known tool_schemas raw [] = Inr None"
| "first_call is_known tool_schemas raw (obj # objs) =
    (case coerce_to_call obj of
       Some (name, args) \<Rightarrow>
         if is_known name then Inr (Some \<lparr>pc_name = name, pc_args = args, pc_raw_block = take 200 raw\<rparr>)
         else first_call is_known tool_schemas raw objs
     | None \<Rightarrow>
         if tool_schemas = [] then first_call is_known tool_schemas raw objs
         else bind_err (match_to_schema obj tool_schemas) (\<lambda>inferred.
           case inferred of
             None \<Rightarrow> first_call is_known tool_schemas raw objs
           | Some name \<Rightarrow>
               if is_known name then Inr (Some \<lparr>pc_name = name, pc_args = obj, pc_raw_block = take 200 raw\<rparr>)
               else first_call is_known tool_schemas raw objs))"

fun first_candidate ::
  "(string \<Rightarrow> bool) \<Rightarrow> (string \<times> json) list \<Rightarrow> string list \<Rightarrow> py_error + pseudo_call option" where
  "first_candidate is_known tool_schemas [] = Inr None"
| "first_candidate is_known tool_schemas (raw # raws) =
    (case json_loads raw of
       None \<Rightarrow> first_candidate is_known tool_schemas raws
     | Some parsed \<Rightarrow>
         bind_err (first_call is_known tool_schemas raw (flatten_call_candidates parsed)) (\<lambda>found.
           case found of
             Some call \<Rightarrow> Inr (Some call)
           | None \<Rightarrow> first_candidate is_known tool_schemas raws))"

definition extract_pseudo_tool_call ::
  "string \<Rightarrow> (string \<Rightarrow> bool) \<Rightarrow> (string \<times> json) list \<Rightarrow> py_error + pseudo_call option" where
  "extract_pseudo_tool_call txt is_known tool_schemas =
    (if blank txt then Inr None else first_candidate is_known tool_schemas (call_candidates txt))"

subsection \<open>What is found was written\<close>

lemma sublist_strip: "sublist (strip s) s"
proof -
  have l: "suffix (lstrip s) s" for s :: string by (simp add: lstrip_def suffix_dropWhile)
  have "suffix (lstrip (rev (lstrip s))) (rev (lstrip s))" by (rule l)
  then have "prefix (strip s) (lstrip s)" by (simp add: strip_def rstrip_def lstrip_def suffix_to_prefix)
  with l [of s] show ?thesis by (meson prefix_imp_sublist suffix_imp_sublist sublist_order.order.trans)
qed

lemma sublist_skip_language: "suffix (skip_language s) s"
  by (simp add: skip_language_def suffix_drop)

lemma fenced_blocks_written: "b \<in> set (fenced_blocks s) \<Longrightarrow> sublist b s"
proof (induction s rule: fenced_blocks.induct)
  case (1 s)
  from "1.prems" obtain before after block others where
    cuts: "cut_at fence s = Some (before, after)" "cut_at fence (lstrip (skip_language after)) = Some (block, others)"
    and b: "b = block \<or> b \<in> set (fenced_blocks others)"
    by (auto simp: fenced_blocks.simps [of s] split: option.splits prod.splits) metis+
  let ?t = "lstrip (skip_language after)"
  have "suffix ?t after"
    using sublist_skip_language [of after] by (simp add: lstrip_def) (meson suffix_dropWhile suffix_order.trans)
  moreover have "suffix after s" using cut_at_Some [OF cuts(1)] by (simp add: suffix_def)
  ultimately have t: "sublist ?t s" by (meson suffix_imp_sublist suffix_order.trans)
  have parts: "sublist block ?t" "sublist others ?t"
    using cut_at_Some [OF cuts(2)] by (metis append.left_neutral sublist_appendI, metis append.assoc append.right_neutral sublist_appendI)
  from b show ?case
  proof
    assume "b \<in> set (fenced_blocks others)"
    from "1.IH" [OF cuts(1) refl cuts(2) refl this] parts(2) t show ?thesis by (meson sublist_order.order.trans)
  qed (use parts(1) t in \<open>meson sublist_order.order.trans\<close>)
qed

lemma bare_objects_written: "b \<in> set (bare_top_level_objects s) \<Longrightarrow> sublist b s"
proof -
  have "\<forall>b \<in> set (br_out (foldl (bare_step s) st ics)). sublist b s" if "\<forall>b \<in> set (br_out st). sublist b s" for st ics
    using that
  proof (induction ics arbitrary: st)
    case (Cons ic ics)
    have "sublist (drop i (take n s)) s" for i n
      by (meson sublist_drop sublist_take sublist_order.order.trans)
    then have "\<forall>b \<in> set (br_out (bare_step s st ic)). sublist b s"
      using Cons.prems by (auto simp: bare_step_def Let_def split_def)
    from Cons.IH [OF this] show ?case by simp
  qed simp
  from this [of bare_init] show "b \<in> set (bare_top_level_objects s) \<Longrightarrow> sublist b s"
    by (simp add: bare_top_level_objects_def bare_init_def)
qed

lemma candidates_written: "raw \<in> set (call_candidates s) \<Longrightarrow> sublist raw s"
  using fenced_blocks_written [of _ s] bare_objects_written [of raw s] sublist_strip
  by (auto simp: call_candidates_def Let_def split: if_splits dest: sublist_order.order.trans)

text \<open>The dictionary \<open>obj\<close> is the call: by its name field, or by the schema that it matches.\<close>

definition reads_as :: "(string \<times> json) list \<Rightarrow> members \<Rightarrow> pseudo_call \<Rightarrow> bool" where
  "reads_as tool_schemas obj call \<longleftrightarrow>
    coerce_to_call obj = Some (pc_name call, pc_args call) \<or>
    (coerce_to_call obj = None \<and> match_to_schema obj tool_schemas = Inr (Some (pc_name call)) \<and> pc_args call = obj)"

lemma first_call_reads:
  "first_call is_known tool_schemas raw objs = Inr (Some call) \<Longrightarrow>
   is_known (pc_name call) \<and> pc_raw_block call = take 200 raw \<and> (\<exists>obj \<in> set objs. reads_as tool_schemas obj call)"
proof (induction objs)
  case (Cons obj objs)
  show ?case
  proof (cases "coerce_to_call obj")
    case (Some na)
    with Cons show ?thesis by (cases na) (auto simp: reads_as_def split: if_splits)
  next
    case none: None
    show ?thesis
    proof (cases "tool_schemas = []")
      case True
      with Cons none show ?thesis by auto
    next
      case False
      with Cons.prems none obtain inferred where m: "match_to_schema obj tool_schemas = Inr inferred"
        by (auto simp: bind_err_Inr)
      show ?thesis
      proof (cases inferred)
        case None
        with Cons none False m show ?thesis by auto
      next
        case (Some name)
        with Cons.prems Cons.IH none False m show ?thesis
          by (cases "is_known name") (auto simp: reads_as_def)
      qed
    qed
  qed
qed simp

lemma first_candidate_reads:
  "first_candidate is_known tool_schemas raws = Inr (Some call) \<Longrightarrow>
   is_known (pc_name call) \<and> (\<exists>raw \<in> set raws. \<exists>parsed. json_loads raw = Some parsed \<and>
     pc_raw_block call = take 200 raw \<and> (\<exists>obj \<in> set (flatten_call_candidates parsed). reads_as tool_schemas obj call))"
proof (induction is_known tool_schemas raws rule: first_candidate.induct)
  case (2 is_known tool_schemas raw raws)
  show ?case
  proof (cases "json_loads raw")
    case None
    with 2 show ?thesis by auto
  next
    case (Some parsed)
    with "2.prems" obtain found where f: "first_call is_known tool_schemas raw (flatten_call_candidates parsed) = Inr found"
      "(case found of Some call \<Rightarrow> Inr (Some call) | None \<Rightarrow> first_candidate is_known tool_schemas raws) = Inr (Some call)"
      by (auto simp: bind_err_Inr)
    show ?thesis
    proof (cases found)
      case None
      with 2(2) [OF Some] f(2) show ?thesis by auto
    next
      case found: (Some c)
      with first_call_reads [of is_known tool_schemas raw _ call] f Some show ?thesis by auto
    qed
  qed
qed simp

text \<open>C22. A call that is fired from a text was written in it. It names a registered tool, its raw text is
  a part of the answer that parses as JSON, and one of the dictionaries of that value is the call: by
  its name field, or, without one, as the arguments of the one tool whose schema fits best.\<close>

theorem fired_call_was_written:
  assumes "extract_pseudo_tool_call txt is_known tool_schemas = Inr (Some call)"
  shows "is_known (pc_name call) \<and>
    (\<exists>raw parsed. sublist raw txt \<and> json_loads raw = Some parsed \<and> pc_raw_block call = take 200 raw \<and>
      (\<exists>obj \<in> set (flatten_call_candidates parsed). reads_as tool_schemas obj call))"
  using first_candidate_reads [of is_known tool_schemas "call_candidates txt" call] assms candidates_written
  by (auto simp: extract_pseudo_tool_call_def split: if_splits)

definition demo_schemas :: "(string \<times> json) list" where
  "demo_schemas =
    [(''cron'', JObj [(''properties'', JObj [(''action'', JNull), (''prompt'', JNull)]), (''required'', JArr [JStr ''action''])]),
     (''web_search'', JObj [(''properties'', JObj [(''query'', JNull)]), (''required'', JArr [JStr ''query''])])]"

text \<open>``I will search. {"query": "x"}''\<close>

definition demo_answer :: string where
  "demo_answer = ''I will search. {'' @ json_quote False ''query'' @ '': '' @ json_quote False ''x'' @ ''}''"

theorem fired_call_was_written_witness:
  "\<exists>call. extract_pseudo_tool_call demo_answer (\<lambda>n. n \<in> {''cron'', ''web_search''}) demo_schemas = Inr (Some call) \<and>
     pc_name call = ''web_search'' \<and> pc_args call = [(''query'', JStr ''x'')] \<and>
     (\<exists>raw parsed. sublist raw demo_answer \<and> json_loads raw = Some parsed)"
proof -
  have "case extract_pseudo_tool_call demo_answer (\<lambda>n. n \<in> {''cron'', ''web_search''}) demo_schemas of
      Inr (Some call) \<Rightarrow> pc_name call = ''web_search'' \<and> pc_args call = [(''query'', JStr ''x'')] | _ \<Rightarrow> False"
    by code_simp
  then obtain call where "extract_pseudo_tool_call demo_answer (\<lambda>n. n \<in> {''cron'', ''web_search''}) demo_schemas = Inr (Some call)"
    "pc_name call = ''web_search''" "pc_args call = [(''query'', JStr ''x'')]"
    by (auto split: sum.splits option.splits)
  with fired_call_was_written [OF this(1)] show ?thesis by blast
qed

subsection \<open>The schema that fits best\<close>

definition fits_with :: "string list \<Rightarrow> (string \<times> json) list \<Rightarrow> (nat \<times> string) list" where
  "fits_with ks schemas =
    concat (map (\<lambda>(name, schema). case schema_fit ks schema of Inr (Some s) \<Rightarrow> [(s, name)] | _ \<Rightarrow> []) schemas)"

text \<open>What the loop has after the fits \<open>seen\<close>: the highest score, and its name when only one has it.\<close>

fun describes :: "(nat \<times> string) list \<Rightarrow> (nat \<times> string) option \<Rightarrow> bool" where
  "describes seen None \<longleftrightarrow> seen = []"
| "describes seen (Some (m, n)) \<longleftrightarrow>
    (\<forall>x \<in> set seen. fst x \<le> m) \<and>
    (\<exists>x. filter (\<lambda>x. fst x = m) seen = [x] \<and> n = snd x \<or>
      1 < length (filter (\<lambda>x. fst x = m) seen) \<and> n = [])"

lemma describes_step:
  assumes "describes seen best"
  shows "describes (seen @ [(s, name)])
    (case best of None \<Rightarrow> Some (s, name)
     | Some (s0, n0) \<Rightarrow> if s0 < s then Some (s, name) else if s = s0 then Some (s, []) else best)"
proof (cases best)
  case (Some sn)
  then obtain s0 n0 where best: "best = Some (s0, n0)" by (cases sn) auto
  with assms have le: "\<forall>x \<in> set seen. fst x \<le> s0"
    and at: "(\<exists>x. filter (\<lambda>x. fst x = s0) seen = [x] \<and> n0 = snd x) \<or> 1 < length (filter (\<lambda>x. fst x = s0) seen) \<and> n0 = []"
    by auto
  consider "s0 < s" | "s = s0" | "s < s0" by linarith
  then show ?thesis
  proof cases
    case 1
    with le have "filter (\<lambda>x. fst x = s) seen = []" by (auto simp: filter_empty_conv)
    with 1 le best show ?thesis by (auto intro: less_imp_le)
  next
    case 2
    from at have "0 < length (filter (\<lambda>x. fst x = s0) seen)" by auto
    with 2 le best show ?thesis by auto
  next
    case 3
    with le at best show ?thesis by auto
  qed
qed (use assms in auto)

lemma match_loop_describes:
  "match_loop ks schemas best = Inr r \<Longrightarrow> describes seen best \<Longrightarrow> describes (seen @ fits_with ks schemas) r"
proof (induction ks schemas best arbitrary: seen rule: match_loop.induct)
  case (2 ks name schema schemas best)
  then obtain fit where fit: "schema_fit ks schema = Inr fit"
    and loop: "match_loop ks schemas (case fit of None \<Rightarrow> best | Some s \<Rightarrow>
      (case best of None \<Rightarrow> Some (s, name)
       | Some (s0, n0) \<Rightarrow> if s0 < s then Some (s, name) else if s = s0 then Some (s, []) else best)) = Inr r"
    by (auto simp: bind_err_Inr)
  show ?case
  proof (cases fit)
    case None
    with 2(1) [of fit seen] loop fit 2(3) show ?thesis by (simp add: fits_with_def)
  next
    case (Some s)
    with 2(1) [of fit "seen @ [(s, name)]"] loop describes_step [OF 2(3), of s name] fit
    show ?thesis by (simp add: fits_with_def)
  qed
qed (simp add: fits_with_def)

text \<open>C23. A call without a name goes to the tool whose schema fits best, and to none when two fit equally
  well: the loop over the schemas returns a name exactly when its schema fits and every other one that
  fits is less specific.\<close>

theorem schema_match_is_unique_best:
  assumes "match_to_schema obj schemas = Inr r" and "obj \<noteq> []" and "[] \<notin> fst ` set schemas"
  shows "r = Some name \<longleftrightarrow>
    (\<exists>s before after. fits_with (map fst obj) schemas = before @ (s, name) # after \<and>
      (\<forall>x \<in> set (before @ after). fst x < s))"
proof -
  let ?fits = "fits_with (map fst obj) schemas"
  from assms(1,2) obtain best where loop: "match_loop (map fst obj) schemas None = Inr best"
    and r: "r = (case best of None \<Rightarrow> None | Some (s, name) \<Rightarrow> if name = [] then None else Some name)"
    by (auto simp: match_to_schema_def bind_err_Inr)
  have d: "describes ?fits best" using match_loop_describes [OF loop, of "[]"] by simp
  have named: "[] \<notin> snd ` set ?fits"
    using assms(3) by (force simp: fits_with_def split: sum.splits option.splits)
  show ?thesis
  proof (cases best)
    case None
    with d r show ?thesis by simp
  next
    case (Some mn)
    then obtain m n where best: "best = Some (m, n)" by (cases mn) auto
    show ?thesis
    proof
      assume "r = Some name"
      with r best have n: "n = name" "name \<noteq> []" by (auto split: if_splits)
      with d best obtain x where x: "filter (\<lambda>x. fst x = m) ?fits = [x]" "name = snd x" by auto
      then obtain before after where split: "?fits = before @ x # after" "fst x = m"
        "\<forall>y \<in> set before. fst y \<noteq> m" "filter (\<lambda>x. fst x = m) after = []"
        by (auto dest!: filter_eq_ConsD)
      moreover have "\<forall>y \<in> set ?fits. fst y \<le> m" using d best by simp
      ultimately have "fst y < m" if "y \<in> set (before @ after)" for y
        using that by (cases "y \<in> set before") (auto simp: filter_empty_conv less_le)
      with split x(2) show "\<exists>s before after. ?fits = before @ (s, name) # after \<and> (\<forall>x \<in> set (before @ after). fst x < s)"
        by (metis prod.collapse)
    next
      assume "\<exists>s before after. ?fits = before @ (s, name) # after \<and> (\<forall>x \<in> set (before @ after). fst x < s)"
      then obtain s before after where split: "?fits = before @ (s, name) # after" "\<forall>x \<in> set (before @ after). fst x < s"
        by blast
      have "filter (\<lambda>x. fst x = m) ?fits \<noteq> []" using d best by auto
      then obtain y where "y \<in> set ?fits" "fst y = m" by (auto simp: filter_empty_conv)
      moreover have "s \<le> m" using d best split(1) by auto
      ultimately have "s = m" using split by force
      moreover have "filter (\<lambda>x. fst x = s) before = []" "filter (\<lambda>x. fst x = s) after = []"
        using split(2) by (auto simp: filter_empty_conv)
      ultimately have "filter (\<lambda>x. fst x = m) ?fits = [(s, name)]" by (simp add: split(1))
      with d best have "n = name" by auto
      moreover have "name \<noteq> []" using named split(1) by (auto simp: image_iff)
      ultimately show "r = Some name" using r best by simp
    qed
  qed
qed

definition demo_call_members :: members where
  "demo_call_members = [(''action'', JStr ''add''), (''prompt'', JStr ''x'')]"

theorem schema_match_is_unique_best_witness:
  "match_to_schema demo_call_members demo_schemas = Inr (Some ''cron'') \<and>
   (\<exists>s before after. fits_with (map fst demo_call_members) demo_schemas = before @ (s, ''cron'') # after)"
proof -
  have m: "match_to_schema demo_call_members demo_schemas = Inr (Some ''cron'')" by code_simp
  have "demo_call_members \<noteq> []" "[] \<notin> fst ` set demo_schemas" by code_simp+
  with schema_match_is_unique_best [OF m, of "''cron''"] m show ?thesis by blast
qed

subsection \<open>A call written into prose is found\<close>

definition calm :: "bare_state \<Rightarrow> bool" where
  "calm b \<longleftrightarrow> \<not> br_string b \<and> \<not> br_escape b"

text \<open>The walk comes out of \<open>s\<close>, read inside an object, as it went in.\<close>

definition inert :: "string \<Rightarrow> bool" where
  "inert s \<longleftrightarrow>
    (\<forall>txt i b. calm b \<longrightarrow> 0 < br_depth b \<longrightarrow> foldl (bare_step txt) b (enumerate i s) = b)"

lemma scan_append:
  "foldl (bare_step txt) b (enumerate i (s @ t)) =
   foldl (bare_step txt) (foldl (bare_step txt) b (enumerate i s)) (enumerate (i + length s) t)"
  by (simp add: enumerate_append_eq)

lemma inert_append: "inert s \<Longrightarrow> inert t \<Longrightarrow> inert (s @ t)"
  unfolding inert_def scan_append by simp

lemma scan_plain:
  "list_all (\<lambda>c. c \<notin> {CHR 0x22, CHR ''{'', CHR ''}''}) s \<Longrightarrow> calm b \<Longrightarrow>
   foldl (bare_step txt) b (enumerate i s) = b"
  by (induction s arbitrary: i) (simp_all add: bare_step_def calm_def)

lemma inert_plain: "list_all (\<lambda>c. c \<notin> {CHR 0x22, CHR ''{'', CHR ''}''}) s \<Longrightarrow> inert s"
  unfolding inert_def using scan_plain by blast

lemma hex_digit_plain: "d < 16 \<Longrightarrow> hex_digit d \<noteq> CHR 0x22 \<and> hex_digit d \<noteq> CHR 0x5C"
  by (auto simp: hex_digit_def char_eq_iff_ch)

lemma scan_escaped:
  assumes "br_string b" and "\<not> br_escape b"
  shows "foldl (bare_step txt) b (enumerate i (json_escape_char a c)) = b"
proof -
  have "ch c div 16 < 16" "ch c mod 16 < 16" using ch_less [of c] by (simp_all add: div_less_iff_less_mult)
  note hex = hex_digit_plain [OF this(1)] hex_digit_plain [OF this(2)]
  show ?thesis using assms hex by (simp add: json_escape_char_def bare_step_def Let_def)
qed

lemma scan_escapes:
  "br_string b \<Longrightarrow> \<not> br_escape b \<Longrightarrow>
   foldl (bare_step txt) b (enumerate i (concat (map (json_escape_char a) s))) = b"
  by (induction s arbitrary: i) (simp_all add: scan_append scan_escaped)

lemma inert_quote: "inert (json_quote a s)"
  unfolding inert_def
proof (intro allI impI)
  fix t i b
  assume "calm b"
  then have "bare_step t b (i, CHR 0x22) = b\<lparr>br_string := True\<rparr>" "\<not> br_escape b" "\<not> br_string b"
    by (simp_all add: bare_step_def calm_def)
  with scan_escapes [of "b\<lparr>br_string := True\<rparr>" t "Suc i" a s]
  show "foldl (bare_step t) b (enumerate i (json_quote a s)) = b"
    by (simp add: json_quote_def scan_append) (simp add: bare_step_def)
qed

lemma inert_join: "inert sep \<Longrightarrow> list_all inert ss \<Longrightarrow> inert (join sep ss)"
  by (induction ss) (auto simp: join_Cons inert_append inert_plain)

lemma inert_braces: "inert s \<Longrightarrow> inert (''{'' @ s @ ''}'')"
  unfolding inert_def
proof (intro allI impI)
  fix t i b
  assume s: "\<forall>t i b. calm b \<longrightarrow> 0 < br_depth b \<longrightarrow> foldl (bare_step t) b (enumerate i s) = b"
    and b: "calm b" "0 < br_depth b"
  let ?b = "b\<lparr>br_depth := br_depth b + 1\<rparr>"
  have "bare_step t b (i, CHR ''{'') = ?b" using b by (simp add: bare_step_def calm_def)
  moreover have "foldl (bare_step t) ?b (enumerate (Suc i) s) = ?b" using s b by (simp add: calm_def)
  moreover have "bare_step t ?b (n, CHR ''}'') = b" for n using b by (simp add: bare_step_def calm_def)
  ultimately show "foldl (bare_step t) b (enumerate i (''{'' @ s @ ''}'')) = b" by (simp add: scan_append)
qed

lemma inert_int: "inert (show_int i)"
proof -
  have "list_all (\<lambda>c. c \<notin> {CHR 0x22, CHR ''{'', CHR ''}''}) (show_nat n)" for n
    using show_nat_digits [of n] by (auto simp: list_all_iff is_digit_def)
  then show ?thesis by (intro inert_plain) (simp add: show_int_def)
qed

lemma json_text_inert:
  "json_ok j \<Longrightarrow> inert (json_text a j)"
  "json_ok_elems xs \<Longrightarrow> list_all inert (json_elems a xs)"
  "json_ok_members kvs \<Longrightarrow> list_all inert (json_members a kvs)"
proof (induction a j and a xs and a kvs rule: json_text_json_elems_json_members.induct)
  case (6 a xs)
  then show ?case by (simp only: json_text.simps json_ok.simps) (intro inert_append inert_join; simp add: inert_plain)
next
  case (7 a kvs)
  then show ?case by (simp only: json_text.simps json_ok.simps) (intro inert_braces inert_join; simp add: inert_plain)
next
  case (11 a k v kvs)
  then show ?case by (simp add: inert_append inert_quote inert_plain del: append.simps)
qed (simp_all add: inert_plain inert_int inert_quote)

lemma cut_at_None: "\<not> contains p s \<Longrightarrow> cut_at p s = None"
  by (induction s) auto

lemma bare_object_found:
  assumes "json_ok (JObj kvs)" and "list_all (\<lambda>c. c \<notin> {CHR 0x22, CHR ''{'', CHR ''}''}) before"
    and "list_all (\<lambda>c. c \<notin> {CHR 0x22, CHR ''{'', CHR ''}''}) after"
  shows "bare_top_level_objects (before @ json_text a (JObj kvs) @ after) = [json_text a (JObj kvs)]"
proof -
  let ?body = "join '', '' (json_members a kvs)" and ?txt = "before @ json_text a (JObj kvs) @ after"
  let ?n = "length before"
  have body: "inert ?body" using json_text_inert(3) assms(1) by (intro inert_join) (simp_all add: inert_plain)
  let ?b = "bare_init\<lparr>br_start := int ?n, br_depth := 1\<rparr>"
  let ?c = "bare_init\<lparr>br_out := [json_text a (JObj kvs)]\<rparr>"
  have "foldl (bare_step ?txt) bare_init (enumerate 0 before) = bare_init"
    using assms(2) by (rule scan_plain) (simp add: calm_def bare_init_def)
  moreover have "bare_step ?txt bare_init (?n, CHR ''{'') = ?b" by (simp add: bare_step_def bare_init_def)
  moreover have "foldl (bare_step ?txt) ?b (enumerate (Suc ?n) ?body) = ?b"
    using body by (simp add: inert_def calm_def bare_init_def)
  moreover have "bare_step ?txt ?b (Suc (?n + length ?body), CHR ''}'') = ?c"
    by (simp add: bare_step_def bare_init_def)
  moreover have "foldl (bare_step ?txt) ?c (enumerate m after) = ?c" for m
    using assms(3) by (rule scan_plain) (simp add: calm_def bare_init_def)
  ultimately have "foldl (bare_step ?txt) bare_init (enumerate 0 (before @ ''{'' @ ?body @ ''}'' @ after)) = ?c"
    by (simp add: scan_append del: json_text.simps)
  then show ?thesis by (simp add: bare_top_level_objects_def)
qed

lemma prose_candidates:
  assumes "json_ok (JObj kvs)" and "list_all (\<lambda>c. c \<notin> {CHR 0x22, CHR ''{'', CHR ''}''}) (before @ after)"
    and "\<not> contains fence (before @ json_dumps ascii False (JObj kvs) @ after)"
  shows "call_candidates (before @ json_dumps ascii False (JObj kvs) @ after) = [json_text ascii (JObj kvs)]"
proof -
  let ?txt = "before @ json_dumps ascii False (JObj kvs) @ after"
  have "fenced_blocks ?txt = []" by (simp add: fenced_blocks.simps [of ?txt] cut_at_None [OF assms(3)])
  then show ?thesis
    using bare_object_found [OF assms(1), of before after ascii] assms(2)
    by (simp add: call_candidates_def json_dumps_def del: json_text.simps)
qed

text \<open>A call written as JSON into prose is fired with exactly its arguments. The prose around it has no
  quotation marks and no braces, the answer no code fence; the dictionary itself may hold strings with
  any braces and quotation marks and nested values.\<close>

lemma written_call_is_found:
  assumes "json_ok (JObj kvs)" and "coerce_to_call kvs = Some (name, args)" and "is_known name"
    and "list_all (\<lambda>c. c \<notin> {CHR 0x22, CHR ''{'', CHR ''}''}) (before @ after)"
    and "\<not> contains fence (before @ json_dumps ascii False (JObj kvs) @ after)"
  shows "extract_pseudo_tool_call (before @ json_dumps ascii False (JObj kvs) @ after) is_known tool_schemas =
    Inr (Some \<lparr>pc_name = name, pc_args = args, pc_raw_block = take 200 (json_dumps ascii False (JObj kvs))\<rparr>)"
proof -
  let ?txt = "before @ json_dumps ascii False (JObj kvs) @ after"
  have dumps: "json_dumps ascii False (JObj kvs) = json_text ascii (JObj kvs)" by (simp add: json_dumps_def)
  have "call_candidates ?txt = [json_text ascii (JObj kvs)]" by (rule prose_candidates [OF assms(1,4,5)])
  moreover have "\<not> blank ?txt" by (simp add: dumps blank_def is_space_def)
  moreover have "json_loads (json_text ascii (JObj kvs)) = Some (JObj kvs)" by (rule json_loads_dumps [OF assms(1)])
  ultimately show ?thesis
    using assms(2,3) by (simp add: extract_pseudo_tool_call_def flatten_object_def dumps del: json_text.simps)
qed

text \<open>The flat form: the fields beside the name are the arguments, save those with a reserved name.\<close>

definition flat_call :: members where
  "flat_call = [(''tool'', JStr ''weather''), (''city'', JStr ''{Suwon}'')]"

text \<open>An argument with a reserved name is lost in the flat form.\<close>

lemma flat_arguments_lost:
  "coerce_to_call [(''tool'', JStr ''shell''), (''input'', JStr ''ls -l'')] = Some (''shell'', [])"
  by code_simp

text \<open>A quotation mark in the prose before the object hides it.\<close>

lemma apostrophe_prose_hides_call:
  "bare_top_level_objects ([CHR 0x22] @ '' inch: {}'') = []"
  by code_simp

end
