(* ===== verification/Transcript.thy ===== *)
theory Transcript
  imports Json ReplaySanitizer Sessions
begin

section \<open>The transcripts of an agent\<close>

text \<open>
  What \<open>PiAgent\<close> does to messages around a turn: the history file of the dashboard with its sliding
  window (\<open>agents/history.py\<close>), the repair of a turn that was cut off (\<open>agents/incomplete_turn.py\<close>),
  the opening of a session from the history file (\<open>PiAgent._ensure_session\<close>), the merging of adjacent
  messages of one role (\<open>agents/message_merge.py\<close>) and the splitting of a reply into chunks
  (\<open>plugin_sdk/reply_runtime.py\<close>). The sessions are those of the manager in memory, which stores the
  object it hands out. Reading and writing of the file is left out: a history is the list of the
  dictionary's \<open>messages\<close>.
\<close>

subsection \<open>The history file\<close>

text \<open>The argument is the parsed file; \<open>None\<close> when it is missing, unreadable or no JSON.\<close>

definition history_load :: "json option \<Rightarrow> json list" where
  "history_load raw =
    (case raw of
       Some (JObj d) \<Rightarrow> (case map_of d ''messages'' of Some (JArr ms) \<Rightarrow> ms | _ \<Rightarrow> [])
     | _ \<Rightarrow> [])"

definition history_append :: "json \<Rightarrow> json list \<Rightarrow> json list" where
  "history_append message ms = ms @ [message]"

definition history_extend :: "json list \<Rightarrow> json list \<Rightarrow> json list" where
  "history_extend messages ms = ms @ messages"

definition history_payload :: "json list \<Rightarrow> json" where
  "history_payload ms = JObj [(''messages'', JArr ms)]"

fun role_of :: "json \<Rightarrow> py_error + json option" where
  "role_of (JObj d) = Inr (map_of d ''role'')"
| "role_of _ = Inl AttributeError"

definition history_chars :: "json list \<Rightarrow> int" where
  "history_chars ms = sum_list (map (\<lambda>m. int (length (json_dumps False False m))) ms)"

text \<open>The inner loop: tool results at the front go. A message that is no dictionary raises.\<close>

fun skip_tool_results :: "json list \<Rightarrow> py_error option \<times> json list" where
  "skip_tool_results [] = (None, [])"
| "skip_tool_results (m # ms) =
    (case role_of m of
       Inl e \<Rightarrow> (Some e, m # ms)
     | Inr r \<Rightarrow> if r = Some (JStr ''tool'') then skip_tool_results ms else (None, m # ms))"

lemma skip_tool_results_length: "length (snd (skip_tool_results ms)) \<le> length ms"
  by (induction ms) (auto split: sum.split)

text \<open>The outer loop on the messages after the first \<open>head\<close> ones.\<close>

function window_loop :: "json list \<Rightarrow> int \<Rightarrow> json list \<Rightarrow> py_error option \<times> json list" where
  "window_loop head max_chars ms =
    (if max_chars < history_chars (head @ ms) \<and> 1 < length ms
     then (case skip_tool_results ms of
             (Some e, ms') \<Rightarrow> (Some e, ms')
           | (None, ms') \<Rightarrow> window_loop head max_chars (tl ms'))
     else (None, ms))"
  by pat_completeness auto
termination
proof (relation "measure (\<lambda>(head, max_chars, ms). length ms)")
  fix head and max_chars :: int and ms r ms'
  assume "max_chars < history_chars (head @ ms) \<and> 1 < length ms" "(r, ms') = skip_tool_results ms"
  then have "length ms' \<le> length ms" "1 < length ms" using skip_tool_results_length [of ms] by (metis snd_conv, simp)
  then show "((head, max_chars, tl ms'), head, max_chars, ms) \<in> measure (\<lambda>(head, max_chars, ms). length ms)"
    by simp
qed simp

declare window_loop.simps [simp del]

text \<open>The number of messages removed, or the exception, and what is left in either case.\<close>

definition truncate_to_window :: "int \<Rightarrow> bool \<Rightarrow> json list \<Rightarrow> (py_error + int) \<times> json list" where
  "truncate_to_window max_chars preserve_system ms =
    (if max_chars \<le> 0 then (Inr 0, ms)
     else case ms of
        [] \<Rightarrow> (Inr 0, [])
      | first # _ \<Rightarrow>
         (case (if preserve_system then role_of first else Inr None) of
            Inl e \<Rightarrow> (Inl e, ms)
          | Inr r \<Rightarrow>
             let offset = (if r = Some (JStr ''system'') then 1 else 0);
                 (failed, ms') = window_loop (take offset ms) max_chars (drop offset ms)
             in ((case failed of Some e \<Rightarrow> Inl e | None \<Rightarrow> Inr (int (length ms) - int (offset + length ms'))),
                 take offset ms @ ms')))"

subsection \<open>A turn that was cut off\<close>

definition interrupted_text :: string where
  "interrupted_text =
    ''(tool execution interrupted: previous turn aborted before this tool finished. Re-emit the call if you still need the result.)''"

definition drop_trailing_users :: "message list \<Rightarrow> message list" where
  "drop_trailing_users ms = rev (dropWhile is_user (rev ms))"

fun answered_ids :: "message list \<Rightarrow> string list" where
  "answered_ids [] = []"
| "answered_ids (ToolResultMessage rs # ms) = map tr_tool_use_id rs @ answered_ids ms"
| "answered_ids (m # ms) = answered_ids ms"

fun called_ids :: "message list \<Rightarrow> string list" where
  "called_ids [] = []"
| "called_ids (AssistantMessage a # ms) = map tool_id (tool_uses a) @ called_ids ms"
| "called_ids (m # ms) = called_ids ms"

text \<open>The calls without an answer, each once, in the order of the blocks.\<close>

fun unanswered :: "string list \<Rightarrow> string list \<Rightarrow> string list" where
  "unanswered answered [] = []"
| "unanswered answered (i # ids) =
    (if i \<in> set answered then unanswered answered ids else i # unanswered (i # answered) ids)"

definition interrupted_result :: "string \<Rightarrow> tool_result" where
  "interrupted_result i = \<lparr>tr_tool_use_id = i, tr_content = CStr interrupted_text, tr_is_error = True\<rparr>"

record repair_counters =
  rp_trailing_users_dropped :: int
  rp_synthetic_tool_results_added :: int

definition repair_incomplete_turn :: "message list \<Rightarrow> message list \<times> repair_counters" where
  "repair_incomplete_turn messages =
    (let kept = drop_trailing_users messages;
         pending = map interrupted_result (unanswered (answered_ids kept) (called_ids kept))
     in (if pending = [] then kept else kept @ [ToolResultMessage pending],
         \<lparr>rp_trailing_users_dropped = int (length messages - length kept),
          rp_synthetic_tool_results_added = int (length pending)\<rparr>))"

subsection \<open>Merging\<close>

fun user_to_blocks :: "content \<Rightarrow> block list" where
  "user_to_blocks (CStr s) = (if s = [] then [] else [TextContent s])"
| "user_to_blocks (CBlocks bs) = bs"

fun block_text :: "block \<Rightarrow> string" where
  "block_text (TextContent s) = s"
| "block_text _ = []"

definition merge_user :: "content \<Rightarrow> content \<Rightarrow> content" where
  "merge_user a b =
    (let a_blocks = user_to_blocks a; b_blocks = user_to_blocks b;
         merged = (if a_blocks \<noteq> [] \<and> b_blocks \<noteq> [] then a_blocks @ [TextContent ''---''] @ b_blocks
                   else a_blocks @ b_blocks)
     in if list_all is_text merged
        then CStr (join (newline @ newline) (filter (\<lambda>t. t \<noteq> []) (map block_text merged)))
        else CBlocks merged)"

text \<open>
  \<open>isinstance(v, (int, float))\<close> holds for a flag too, which then counts as 0 or 1; adding a number to
  a value that is none raises.
\<close>

fun usage_number :: "usage_value \<Rightarrow> real option" where
  "usage_number (UNum x) = Some x"
| "usage_number (UFlag b) = Some (if b then 1 else 0)"
| "usage_number UOther = None"

fun add_usage_items :: "usage \<Rightarrow> usage \<Rightarrow> py_error + usage" where
  "add_usage_items acc [] = Inr acc"
| "add_usage_items acc ((k, v) # d) =
    (case usage_number v of
       Some x \<Rightarrow>
         (case map_of acc k of
            None \<Rightarrow> add_usage_items (dict_set k (UNum x) acc) d
          | Some old \<Rightarrow>
             (case usage_number old of
                Some y \<Rightarrow> add_usage_items (dict_set k (UNum (y + x)) acc) d
              | None \<Rightarrow> Inl TypeError))
     | None \<Rightarrow> add_usage_items (if map_of acc k = None then dict_set k v acc else acc) d)"

fun usage_items :: "usage option \<Rightarrow> usage" where
  "usage_items None = []"
| "usage_items (Some d) = d"

definition merge_usage :: "usage option \<Rightarrow> usage option \<Rightarrow> py_error + usage option" where
  "merge_usage a b =
    (if usage_items a = [] \<and> usage_items b = [] then Inr None
     else bind_err (add_usage_items [] (usage_items a)) (\<lambda>acc.
       bind_err (add_usage_items acc (usage_items b)) (\<lambda>acc'. Inr (Some acc'))))"

definition merge_assistant :: "assistant \<Rightarrow> assistant \<Rightarrow> py_error + assistant" where
  "merge_assistant a b =
    bind_err (merge_usage (am_usage a) (am_usage b)) (\<lambda>u.
      Inr \<lparr>am_content = am_content a @ am_content b,
           am_stop_reason = (if am_stop_reason b \<in> {None, Some []} then am_stop_reason a else am_stop_reason b),
           am_usage = u\<rparr>)"

text \<open>The loop: \<open>out\<close> is what has been collected, its last message first, and the count.\<close>

fun merge_pair :: "message \<Rightarrow> message \<Rightarrow> (py_error + message) option" where
  "merge_pair (UserMessage a) (UserMessage b) = Some (Inr (UserMessage (merge_user a b)))"
| "merge_pair (AssistantMessage a) (AssistantMessage b) =
    Some (bind_err (merge_assistant a b) (\<lambda>c. Inr (AssistantMessage c)))"
| "merge_pair _ _ = None"

fun merge_loop :: "message list \<Rightarrow> int \<Rightarrow> message list \<Rightarrow> py_error + message list \<times> int" where
  "merge_loop out merged [] = Inr (rev out, merged)"
| "merge_loop [] merged (m # ms) = merge_loop [m] merged ms"
| "merge_loop (p # out) merged (m # ms) =
    (case merge_pair p m of
       None \<Rightarrow> merge_loop (m # p # out) merged ms
     | Some r \<Rightarrow> bind_err r (\<lambda>q. merge_loop (q # out) (merged + 1) ms))"

definition merge_consecutive_same_role :: "message list \<Rightarrow> py_error + message list \<times> int" where
  "merge_consecutive_same_role messages =
    (if length messages < 2 then Inr (messages, 0) else merge_loop [] 0 messages)"

subsection \<open>Opening a session\<close>

text \<open>
  The messages of the history file become messages of the session until one raises: an entry that is no
  dictionary, or a content that the message class refuses. \<open>as_content\<close> is pydantic's reading of a
  content that is not a string.
\<close>

fun seed_messages :: "(json \<Rightarrow> content option) \<Rightarrow> json list \<Rightarrow> message list" where
  "seed_messages as_content [] = []"
| "seed_messages as_content (JObj d # ms) =
    (let role = map_of d ''role'';
         content = (case map_of d ''content'' of Some v \<Rightarrow> if truthy v then v else JStr [] | None \<Rightarrow> JStr [])
     in if content = JStr [] then seed_messages as_content ms
        else if role = Some (JStr ''user'')
        then (case (case content of JStr s \<Rightarrow> Some (CStr s) | v \<Rightarrow> as_content v) of
                Some c \<Rightarrow> UserMessage c # seed_messages as_content ms
              | None \<Rightarrow> [])
        else if role = Some (JStr ''assistant'')
        then (case content of
                JStr s \<Rightarrow> AssistantMessage (assistant_text s (Some ''end_turn'')) # seed_messages as_content ms
              | _ \<Rightarrow> [])
        else seed_messages as_content ms)"
| "seed_messages as_content (m # ms) = []"

record agent_sessions =
  ag_ids :: "(string \<times> string) list"
  ag_sessions :: session_objects

definition open_messages :: "(json \<Rightarrow> content option) \<Rightarrow> string set \<Rightarrow> json list \<Rightarrow> message list" where
  "open_messages as_content tool_names history =
    fst (sanitize_replay_tool_calls (Some tool_names)
      (fst (repair_incomplete_turn (seed_messages as_content history))))"

definition known_session :: "string \<Rightarrow> agent_sessions \<Rightarrow> nat option" where
  "known_session key st =
    (case map_of (ag_ids st) key of None \<Rightarrow> None | Some sid \<Rightarrow> mem_get sid (ag_sessions st))"

text \<open>A new session has the two times of its creation; its messages are those of the history file, if there is
  one, repaired in the object that the manager has stored.\<close>

definition ensure_session ::
  "(json \<Rightarrow> content option) \<Rightarrow> string set \<Rightarrow> string \<Rightarrow> string \<Rightarrow> string \<Rightarrow> real \<Rightarrow> real \<Rightarrow> json list option \<Rightarrow>
   string \<Rightarrow> agent_sessions \<Rightarrow> nat \<times> agent_sessions" where
  "ensure_session as_content tool_names agent_id model_id new_id created updated history key st =
    (case known_session key st of
       Some r \<Rightarrow> (r, st)
     | None \<Rightarrow>
        let (r, objs) = mem_create new_id created updated
              \<lparr>op_agent_id = agent_id, op_model_id = Some model_id, op_title = Some key, op_metadata = None\<rparr>
              (ag_sessions st);
            ms = open_messages as_content tool_names (case history of None \<Rightarrow> [] | Some ms \<Rightarrow> ms)
        in (r, \<lparr>ag_ids = dict_set key new_id (ag_ids st), ag_sessions = change_object (\<lambda>s. s\<lparr>se_messages := ms\<rparr>) r objs\<rparr>))"

subsection \<open>Chunks of a reply\<close>

definition rfind_text :: "string \<Rightarrow> string \<Rightarrow> int" where
  "rfind_text sep s =
    (case List.find (\<lambda>i. prefix sep (drop i s)) (rev [0..<length s]) of None \<Rightarrow> -1 | Some i \<Rightarrow> int i)"

fun best_split_at :: "string list \<Rightarrow> string \<Rightarrow> nat" where
  "best_split_at [] window = length window"
| "best_split_at (sep # seps) window =
    (let i = rfind_text sep window in if 0 < i then nat i + length sep else best_split_at seps window)"

definition best_split :: "string \<Rightarrow> nat" where
  "best_split window = best_split_at [newline @ newline, newline, '' ''] window"

text \<open>\<open>width c\<close> is the number of bytes of \<open>c\<close> in UTF-8.\<close>

definition encoded_length :: "(char \<Rightarrow> nat) \<Rightarrow> string \<Rightarrow> nat" where
  "encoded_length width s = sum_list (map width s)"

definition lstrip_newlines :: "string \<Rightarrow> string" where
  "lstrip_newlines s = dropWhile (\<lambda>c. c = CHR 0x0A) s"

lemma rfind_text_place: "rfind_text sep s \<noteq> -1 \<Longrightarrow> \<exists>i < length s. rfind_text sep s = int i \<and> prefix sep (drop i s)"
  by (auto simp: rfind_text_def find_Some_iff rev_nth split: option.splits)

lemma best_split_bounds:
  assumes "window \<noteq> []"
  shows "0 < best_split window \<and> best_split window \<le> length window"
proof -
  have "0 < best_split_at seps window \<and> best_split_at seps window \<le> length window" for seps
  proof (induction seps)
    case (Cons sep seps)
    show ?case
    proof (cases "0 < rfind_text sep window")
      case True
      then obtain i where i: "i < length window" "rfind_text sep window = int i" "prefix sep (drop i window)"
        using rfind_text_place [of sep window] by auto
      then have "length sep \<le> length window - i" by (auto dest: prefix_length_le)
      with i True show ?thesis by simp
    qed (use Cons in \<open>simp add: Let_def\<close>)
  qed (use assms in simp)
  then show ?thesis unfolding best_split_def .
qed

function chunk_loop :: "(char \<Rightarrow> nat) \<Rightarrow> nat \<Rightarrow> string \<Rightarrow> string list" where
  "chunk_loop width limit remaining =
    (if 0 < limit \<and> limit < encoded_length width remaining
     then let cut = best_split (take limit remaining)
          in take cut remaining # chunk_loop width limit (lstrip_newlines (drop cut remaining))
     else if remaining = [] then [] else [remaining])"
  by pat_completeness auto
termination
proof (relation "measure (\<lambda>(width, limit, remaining). length remaining)")
  fix width :: "char \<Rightarrow> nat" and limit and remaining :: string and cut
  assume l: "0 < limit \<and> limit < encoded_length width remaining" and cut: "cut = best_split (take limit remaining)"
  then have ne: "remaining \<noteq> []" by (auto simp: encoded_length_def)
  with l best_split_bounds [of "take limit remaining"] cut have "0 < cut" by simp
  moreover have "length (lstrip_newlines (drop cut remaining)) \<le> length (drop cut remaining)"
    unfolding lstrip_newlines_def by (rule length_dropWhile_le)
  ultimately show "((width, limit, lstrip_newlines (drop cut remaining)), width, limit, remaining)
      \<in> measure (\<lambda>(width, limit, remaining). length remaining)"
    using ne by (simp add: length_greater_0_conv [symmetric] del: length_greater_0_conv)
qed simp

declare chunk_loop.simps [simp del]

definition chunk_text :: "(char \<Rightarrow> nat) \<Rightarrow> string \<Rightarrow> int \<Rightarrow> py_error + string list" where
  "chunk_text width reply limit =
    (if limit \<le> 0 then Inl ValueError else Inr (chunk_loop width (nat limit) reply))"

subsection \<open>The sliding window drops a prefix\<close>

lemma skip_tool_results_drops: "\<exists>n. snd (skip_tool_results ms) = drop n ms"
proof (induction ms)
  case (Cons m ms)
  then obtain n where "snd (skip_tool_results ms) = drop n ms" by blast
  then have "snd (skip_tool_results (m # ms)) \<in> {drop 0 (m # ms), drop (Suc n) (m # ms)}"
    by (auto split: sum.split)
  then show ?case by blast
qed simp

lemma window_loop_drops:
  "window_loop head max_chars ms = (r, ms') \<Longrightarrow>
   (\<exists>n. ms' = drop n ms) \<and> (r = None \<longrightarrow> history_chars (head @ ms') \<le> max_chars \<or> length ms' \<le> 1)"
proof (induction head max_chars ms arbitrary: r ms' rule: window_loop.induct)
  case (1 head max_chars ms)
  show ?case
  proof (cases "max_chars < history_chars (head @ ms) \<and> 1 < length ms")
    case True
    obtain e left where skip: "skip_tool_results ms = (e, left)" by (cases "skip_tool_results ms")
    obtain n where left: "left = drop n ms" using skip_tool_results_drops [of ms] skip by auto
    show ?thesis
    proof (cases e)
      case None
      with True skip "1.prems" have "window_loop head max_chars (tl left) = (r, ms')"
        by (simp add: window_loop.simps [of head max_chars ms])
      from "1.IH" [OF True skip [symmetric] None this] left show ?thesis
        by (metis drop_Suc drop_drop tl_drop)
    next
      case (Some x)
      with True skip "1.prems" left show ?thesis by (auto simp: window_loop.simps [of head max_chars ms])
    qed
  next
    case False
    with "1.prems" have "ms' = drop 0 ms" "r = None" by (auto simp: window_loop.simps [of head max_chars ms])
    with False show ?thesis by (metis linorder_not_less drop_0)
  qed
qed

text \<open>The sliding window takes messages from the front only. A leading system message stays when asked
  for, what is left of the others is a final part of them, in order, the count is the number taken, and
  in the end the history is under the limit or has one message left beside the system message, or none.\<close>

lemma window_keeps_recent:
  assumes "truncate_to_window max_chars preserve_system ms = (Inr removed, ms')" and "0 < max_chars"
  shows "\<exists>offset n. offset = (if preserve_system \<and> ms \<noteq> [] \<and> role_of (hd ms) = Inr (Some (JStr ''system'')) then 1 else 0) \<and>
    ms' = take offset ms @ drop n (drop offset ms) \<and> removed = int (length ms) - int (length ms') \<and>
    (history_chars ms' \<le> max_chars \<or> length ms' \<le> offset + 1)"
proof (cases ms)
  case (Cons first others)
  let ?offset = "if preserve_system \<and> ms \<noteq> [] \<and> role_of (hd ms) = Inr (Some (JStr ''system'')) then 1 else 0 :: nat"
  obtain failed left where loop: "window_loop (take ?offset ms) max_chars (drop ?offset ms) = (failed, left)"
    by fastforce
  from assms Cons loop have e: "failed = None" "ms' = take ?offset ms @ left"
    "removed = int (length ms) - int (?offset + length left)"
    by (auto simp: truncate_to_window_def Let_def split: if_splits sum.splits option.splits)
  moreover have "length (take ?offset ms) = ?offset" using Cons by simp
  moreover obtain n where "left = drop n (drop ?offset ms)" using window_loop_drops [OF loop] by blast
  ultimately show ?thesis using window_loop_drops [OF loop]
    by (intro exI [of _ ?offset] exI [of _ n]) (simp only: append_take_drop_id length_append of_nat_add; auto)
qed (use assms in \<open>auto simp: truncate_to_window_def history_chars_def\<close>)

definition demo_message :: "string \<Rightarrow> string \<Rightarrow> json" where
  "demo_message role txt = JObj [(''role'', JStr role), (''content'', JStr txt)]"

text \<open>
  The results that belong to a dropped call stay when the window is met in between, and the newest
  message can go with the results before it.
\<close>

lemma window_orphans_results:
  "snd (truncate_to_window 100 False
     [demo_message ''assistant'' ''a call that is long enough to be dropped from here'', demo_message ''tool'' ''r'',
      demo_message ''user'' ''b'']) =
   [demo_message ''tool'' ''r'', demo_message ''user'' ''b'']"
  by code_simp

lemma window_drops_newest:
  "truncate_to_window 60 False [demo_message ''tool'' ''r'', demo_message ''user'' ''the question of this turn''] = (Inr 2, [])"
  by code_simp

subsection \<open>Repair closes every call\<close>

lemma answered_append: "answered_ids (xs @ ys) = answered_ids xs @ answered_ids ys"
  by (induction xs rule: answered_ids.induct) simp_all

lemma called_append: "called_ids (xs @ ys) = called_ids xs @ called_ids ys"
  by (induction xs rule: called_ids.induct) simp_all

lemma unanswered_set: "set (unanswered answered ids) = set ids - set answered"
  by (induction answered ids rule: unanswered.induct) auto

lemma unanswered_distinct: "distinct (unanswered answered ids)"
  by (induction answered ids rule: unanswered.induct) (auto simp: unanswered_set)

lemma dropped_users:
  "\<exists>us. messages = drop_trailing_users messages @ us \<and> list_all is_user us"
  "drop_trailing_users messages \<noteq> [] \<Longrightarrow> \<not> is_user (last (drop_trailing_users messages))"
proof -
  let ?us = "rev (takeWhile is_user (rev messages))"
  have "rev messages = takeWhile is_user (rev messages) @ dropWhile is_user (rev messages)" by simp
  then have "messages = drop_trailing_users messages @ ?us" by (metis drop_trailing_users_def rev_append rev_rev_ident)
  moreover have "list_all is_user ?us" by (auto simp: list_all_iff dest: set_takeWhileD)
  ultimately show "\<exists>us. messages = drop_trailing_users messages @ us \<and> list_all is_user us" by blast
  show "drop_trailing_users messages \<noteq> [] \<Longrightarrow> \<not> is_user (last (drop_trailing_users messages))"
    by (simp add: drop_trailing_users_def last_rev hd_dropWhile)
qed

text \<open>C24. The repair leaves a transcript in which every tool call has a result and that does not end with a
  user message; it drops nothing but the user messages at the end and adds at most one message, with one
  result for every call that had none.\<close>

theorem repair_closes_calls:
  assumes "repair_incomplete_turn messages = (repaired, counters)"
  shows "set (called_ids repaired) \<subseteq> set (answered_ids repaired) \<and>
    (repaired = [] \<or> \<not> is_user (last repaired)) \<and>
    (\<exists>kept us added. messages = kept @ us \<and> list_all is_user us \<and> repaired = kept @ added \<and>
      rp_trailing_users_dropped counters = int (length us) \<and>
      (if added = [] then set (called_ids kept) \<subseteq> set (answered_ids kept)
       else \<exists>ids. added = [ToolResultMessage (map interrupted_result ids)] \<and> distinct ids \<and>
         set ids = set (called_ids kept) - set (answered_ids kept) \<and>
         rp_synthetic_tool_results_added counters = int (length ids)))"
proof -
  let ?kept = "drop_trailing_users messages"
  let ?ids = "unanswered (answered_ids ?kept) (called_ids ?kept)"
  let ?added = "if ?ids = [] then [] else [ToolResultMessage (map interrupted_result ?ids)]"
  obtain us where us: "messages = ?kept @ us" "list_all is_user us" using dropped_users(1) by blast
  have repaired: "repaired = ?kept @ ?added"
    "rp_trailing_users_dropped counters = int (length messages - length ?kept)"
    "rp_synthetic_tool_results_added counters = int (length ?ids)"
    using assms by (auto simp: repair_incomplete_turn_def Let_def)
  have ids: "set ?ids = set (called_ids ?kept) - set (answered_ids ?kept)" by (rule unanswered_set)
  have "tr_tool_use_id \<circ> interrupted_result = id" by (auto simp: interrupted_result_def)
  then have closed: "set (called_ids repaired) \<subseteq> set (answered_ids repaired)"
    using ids by (auto simp: repaired(1) called_append answered_append)
  have last_repaired: "repaired = [] \<or> \<not> is_user (last repaired)"
    using dropped_users(2) [of messages] by (auto simp: repaired(1))
  have "length messages - length ?kept = length us" using us(1) by (metis add_diff_cancel_left' length_append)
  with us repaired ids have "\<exists>kept us added. messages = kept @ us \<and> list_all is_user us \<and> repaired = kept @ added \<and>
      rp_trailing_users_dropped counters = int (length us) \<and>
      (if added = [] then set (called_ids kept) \<subseteq> set (answered_ids kept)
       else \<exists>ids. added = [ToolResultMessage (map interrupted_result ids)] \<and> distinct ids \<and>
         set ids = set (called_ids kept) - set (answered_ids kept) \<and>
         rp_synthetic_tool_results_added counters = int (length ids))"
    by (intro exI [of _ ?kept] exI [of _ us] exI [of _ ?added]) (auto simp: unanswered_distinct)
  with closed last_repaired show ?thesis by blast
qed

definition open_call :: message where
  "open_call = AssistantMessage \<lparr>am_content = [ToolUseBlock ''t1'' ''echo'' (JObj [])], am_stop_reason = Some ''tool_use'', am_usage = None\<rparr>"

theorem repair_closes_calls_witness:
  "\<exists>counters. repair_incomplete_turn [UserMessage (CStr ''q''), open_call, UserMessage (CStr ''again'')] =
     ([UserMessage (CStr ''q''), open_call, ToolResultMessage [interrupted_result ''t1'']], counters) \<and>
     set (called_ids [UserMessage (CStr ''q''), open_call, ToolResultMessage [interrupted_result ''t1'']]) \<subseteq> {''t1''}"
proof -
  let ?ms = "[UserMessage (CStr ''q''), open_call, UserMessage (CStr ''again'')]"
  let ?r = "[UserMessage (CStr ''q''), open_call, ToolResultMessage [interrupted_result ''t1'']]"
  have r: "fst (repair_incomplete_turn ?ms) = ?r"
    by (simp add: repair_incomplete_turn_def drop_trailing_users_def open_call_def tool_uses_def Let_def)
  then obtain counters where c: "repair_incomplete_turn ?ms = (?r, counters)" by (metis prod.collapse)
  from repair_closes_calls [OF this] have "set (called_ids ?r) \<subseteq> set (answered_ids ?r)" by blast
  moreover have "answered_ids ?r = [''t1'']" by (simp add: open_call_def interrupted_result_def)
  ultimately show ?thesis using c by auto
qed

text \<open>
  The result of a call that is not in the last answer stands at the end of the transcript, away from its
  call. And the sanitiser, which runs after the repair, removes a malformed call but not its result.
\<close>

lemma repair_far_from_call:
  "fst (repair_incomplete_turn [open_call, UserMessage (CStr ''b''), AssistantMessage (assistant_text ''c'' None)]) =
    [open_call, UserMessage (CStr ''b''), AssistantMessage (assistant_text ''c'' None), ToolResultMessage [interrupted_result ''t1'']]"
  by (simp add: repair_incomplete_turn_def drop_trailing_users_def open_call_def tool_uses_def assistant_text_def Let_def)

lemma repair_before_sanitizer_orphans:
  "fst (sanitize_replay_tool_calls (Some {''read''}) (fst (repair_incomplete_turn [open_call]))) =
    [ToolResultMessage [interrupted_result ''t1'']]"
proof -
  have "fst (repair_incomplete_turn [open_call]) = [open_call, ToolResultMessage [interrupted_result ''t1'']]"
    by (simp add: repair_incomplete_turn_def drop_trailing_users_def open_call_def tool_uses_def Let_def)
  moreover have "sanitize_message (Some {''read''}) open_call = (None, 1)" by (simp add: open_call_def) code_simp
  ultimately show ?thesis by simp
qed

subsection \<open>Merged transcripts alternate\<close>

fun user_texts :: "message \<Rightarrow> string list" where
  "user_texts (UserMessage c) = map block_text (filter is_text (user_to_blocks c))"
| "user_texts _ = []"

fun user_images :: "message \<Rightarrow> block list" where
  "user_images (UserMessage c) = filter is_image (user_to_blocks c)"
| "user_images _ = []"

fun is_other :: "message \<Rightarrow> bool" where
  "is_other (UserMessage c) = False"
| "is_other (AssistantMessage a) = False"
| "is_other m = True"

definition says :: "message list \<Rightarrow> string \<Rightarrow> bool" where
  "says ms t \<longleftrightarrow> (\<exists>m \<in> set ms. \<exists>t' \<in> set (user_texts m). sublist t t')"

text \<open>What a merge must not lose, as a function of the messages.\<close>

definition substance :: "message list \<Rightarrow> block list \<times> block list \<times> message list" where
  "substance ms = (concat (map message_blocks ms), concat (map user_images ms), filter is_other ms)"

definition alternates :: "message list \<Rightarrow> bool" where
  "alternates ms \<longleftrightarrow> successively (\<lambda>x y. merge_pair x y = None) ms"

lemma sublist_join: "t \<in> set ts \<Longrightarrow> sublist t (join sep ts)"
proof (induction ts)
  case (Cons u ts)
  show ?case
  proof (cases "t \<in> set ts")
    case True
    with Cons.IH have "sublist t (join sep ts)" "ts \<noteq> []" by auto
    then show ?thesis by (simp add: join_Cons sublist_append)
  next
    case False
    with Cons.prems show ?thesis by (simp add: join_Cons)
  qed
qed simp

lemma all_text_no_image: "list_all is_text bs \<Longrightarrow> filter is_image bs = []"
  by (induction bs) (auto elim: is_text.elims)

lemma merge_user_images:
  "user_images (UserMessage (merge_user a b)) = user_images (UserMessage a) @ user_images (UserMessage b)"
  by (auto simp: merge_user_def Let_def all_text_no_image)

lemma merge_user_texts:
  assumes "t \<in> set (user_texts (UserMessage a)) \<union> set (user_texts (UserMessage b))" and "t \<noteq> []"
  shows "\<exists>t' \<in> set (user_texts (UserMessage (merge_user a b))). sublist t t'"
proof -
  let ?merged = "if user_to_blocks a \<noteq> [] \<and> user_to_blocks b \<noteq> []
    then user_to_blocks a @ [TextContent ''---''] @ user_to_blocks b else user_to_blocks a @ user_to_blocks b"
  let ?ts = "filter (\<lambda>t. t \<noteq> []) (map block_text ?merged)"
  have t: "t \<in> set (map block_text (filter is_text ?merged))" using assms(1) by auto
  show ?thesis
  proof (cases "list_all is_text ?merged")
    case True
    then have m: "merge_user a b = CStr (join (newline @ newline) ?ts)" by (simp add: merge_user_def Let_def)
    from t True assms(2) have "t \<in> set ?ts" by auto
    then have s: "sublist t (join (newline @ newline) ?ts)" by (rule sublist_join)
    then have "join (newline @ newline) ?ts \<noteq> []" using assms(2) by auto
    with s show ?thesis by (simp add: m)
  next
    case False
    then have "merge_user a b = CBlocks ?merged" by (simp add: merge_user_def Let_def)
    with t show ?thesis by auto
  qed
qed

text \<open>One merge: the result has the role of the two, their substance and their texts.\<close>

lemma merge_pair_effect:
  assumes "merge_pair p m = Some (Inr q)"
  shows "merge_pair x q = None \<longleftrightarrow> merge_pair x p = None" "substance [q] = substance [p, m]"
    "t \<noteq> [] \<Longrightarrow> says [p, m] t \<Longrightarrow> says [q] t"
proof -
  have "(merge_pair x q = None \<longleftrightarrow> merge_pair x p = None) \<and> substance [q] = substance [p, m] \<and>
    (t \<noteq> [] \<longrightarrow> says [p, m] t \<longrightarrow> says [q] t)"
  proof (cases p)
    case (UserMessage a)
    with assms obtain b where b: "m = UserMessage b" "q = UserMessage (merge_user a b)" by (cases m) auto
    have "says [q] t" if t: "t \<noteq> []" "says [p, m] t"
    proof -
      from t(2) obtain t' where t': "t' \<in> set (user_texts p) \<union> set (user_texts m)" "sublist t t'"
        by (auto simp: says_def)
      then have "t' \<noteq> []" using t(1) by auto
      from merge_user_texts [of t' a b] t' this b UserMessage t'(2) show ?thesis
        by (auto simp: says_def intro: sublist_order.order.trans)
    qed
    moreover have "substance [q] = substance [p, m]"
      using b UserMessage merge_user_images [of a b] by (simp add: substance_def del: user_images.simps)
    moreover have "merge_pair x q = None \<longleftrightarrow> merge_pair x p = None" using b UserMessage by (cases x) auto
    ultimately show ?thesis by blast
  next
    case (AssistantMessage a)
    with assms obtain b c where b: "m = AssistantMessage b" "merge_assistant a b = Inr c" "q = AssistantMessage c"
      by (cases m) (auto simp: bind_err_Inr)
    then have "am_content c = am_content a @ am_content b" by (auto simp: merge_assistant_def bind_err_Inr)
    with b AssistantMessage show ?thesis by (cases x) (auto simp: substance_def says_def)
  qed (use assms in auto)
  then show "merge_pair x q = None \<longleftrightarrow> merge_pair x p = None" "substance [q] = substance [p, m]"
    "t \<noteq> [] \<Longrightarrow> says [p, m] t \<Longrightarrow> says [q] t" by blast+
qed

lemma substance_append:
  "substance (xs @ ys) = (case (substance xs, substance ys) of ((a, b, c), (a', b', c')) \<Rightarrow> (a @ a', b @ b', c @ c'))"
  by (simp add: substance_def)

lemma substance_cong: "substance xs = substance ys \<Longrightarrow> substance (us @ xs @ vs) = substance (us @ ys @ vs)"
  by (simp add: substance_append)

lemma says_append: "says (xs @ ys) t \<longleftrightarrow> says xs t \<or> says ys t"
  by (auto simp: says_def)

lemma alternates_snoc: "alternates (xs @ [x]) \<longleftrightarrow> alternates xs \<and> (xs = [] \<or> merge_pair (last xs) x = None)"
  by (auto simp: alternates_def successively_append_iff)

lemma merge_loop_effect:
  "merge_loop out merged ms = Inr (ms', n) \<Longrightarrow> alternates (rev out) \<Longrightarrow>
   alternates ms' \<and> int (length ms') + n = int (length out + length ms) + merged \<and>
   substance ms' = substance (rev out @ ms) \<and> (\<forall>t. t \<noteq> [] \<longrightarrow> says (rev out @ ms) t \<longrightarrow> says ms' t)"
proof (induction out merged ms rule: merge_loop.induct)
  case (2 merged m ms)
  then show ?case by (simp add: alternates_def)
next
  case (3 p out merged m ms)
  show ?case
  proof (cases "merge_pair p m")
    case None
    with 3(4) have "alternates (rev (m # p # out))" using alternates_snoc [of "rev out @ [p]" m] by simp
    with 3(1) [OF None] 3(3) None show ?thesis by simp
  next
    case (Some r)
    with 3(3) obtain q where q: "merge_pair p m = Some (Inr q)" and loop: "merge_loop (q # out) (merged + 1) ms = Inr (ms', n)"
      by (auto simp: bind_err_Inr)
    note effect = merge_pair_effect [OF q]
    have "alternates (rev (q # out))"
      using 3(4) effect(1) [of "last (rev out)"] by (simp add: alternates_snoc)
    from 3(2) [OF q, of q] loop this have ih: "alternates ms'"
      "int (length ms') + n = int (length (q # out) + length ms) + (merged + 1)"
      "substance ms' = substance (rev (q # out) @ ms)" "\<forall>t. t \<noteq> [] \<longrightarrow> says (rev (q # out) @ ms) t \<longrightarrow> says ms' t"
      using q by auto
    have "substance (rev out @ [q] @ ms) = substance (rev out @ [p, m] @ ms)"
      by (rule substance_cong) (rule effect(2))
    moreover have "\<forall>t. t \<noteq> [] \<longrightarrow> says (rev out @ [p, m] @ ms) t \<longrightarrow> says (rev out @ [q] @ ms) t"
      using effect(3) unfolding says_append by blast
    ultimately show ?thesis using ih by simp
  qed
qed auto

lemma merge_loop_alternating:
  "alternates (rev out @ ms) \<Longrightarrow> merge_loop out merged ms = Inr (rev out @ ms, merged)"
proof (induction out merged ms rule: merge_loop.induct)
  case (3 p out merged m ms)
  then have none: "merge_pair p m = None"
    using successively_append_iff [of _ "rev (p # out)" "m # ms"] by (simp add: alternates_def)
  with 3(1) [OF none] 3(3) show ?case by simp
qed simp_all

text \<open>C25. After the merge no two user messages and no two assistant messages are adjacent, and nothing is
  lost: the blocks of the assistant's messages, the images of the user's, and the tool results are
  the same and in the same order, whatever the user wrote can still be read, the count is the number of
  messages saved, and a second merge finds nothing to do.\<close>

theorem merge_alternates:
  assumes "merge_consecutive_same_role messages = Inr (merged_messages, n)"
  shows "alternates merged_messages \<and> substance merged_messages = substance messages \<and>
    (\<forall>t. t \<noteq> [] \<longrightarrow> says messages t \<longrightarrow> says merged_messages t) \<and>
    int (length merged_messages) + n = int (length messages) \<and>
    merge_consecutive_same_role merged_messages = Inr (merged_messages, 0)"
proof (cases "length messages < 2")
  case True
  with assms have "merged_messages = messages" "n = 0" by (simp_all add: merge_consecutive_same_role_def)
  moreover have "alternates messages" using True by (cases messages) (auto simp: alternates_def)
  ultimately show ?thesis using True by (simp add: merge_consecutive_same_role_def)
next
  case False
  with assms have loop: "merge_loop [] 0 messages = Inr (merged_messages, n)" by (simp add: merge_consecutive_same_role_def)
  have "alternates (rev [])" by (simp add: alternates_def)
  note effect = merge_loop_effect [OF loop this]
  then have "merge_loop [] 0 merged_messages = Inr (merged_messages, 0)"
    using merge_loop_alternating [of "[]" merged_messages 0] by simp
  with effect show ?thesis by (simp add: merge_consecutive_same_role_def)
qed

theorem merge_alternates_witness:
  "merge_consecutive_same_role [UserMessage (CStr ''a''), UserMessage (CStr ''b''), AssistantMessage (assistant_text ''c'' None)] =
     Inr ([UserMessage (CStr (''a'' @ newline @ newline @ ''---'' @ newline @ newline @ ''b'')),
       AssistantMessage (assistant_text ''c'' None)], 1) \<and>
   alternates [UserMessage (CStr (''a'' @ newline @ newline @ ''---'' @ newline @ newline @ ''b'')),
       AssistantMessage (assistant_text ''c'' None)]"
proof -
  let ?ms = "[UserMessage (CStr ''a''), UserMessage (CStr ''b''), AssistantMessage (assistant_text ''c'' None)]"
  have m: "merge_consecutive_same_role ?ms =
     Inr ([UserMessage (CStr (''a'' @ newline @ newline @ ''---'' @ newline @ newline @ ''b'')),
       AssistantMessage (assistant_text ''c'' None)], 1)"
    by (simp add: merge_consecutive_same_role_def merge_user_def assistant_text_def)
  from merge_alternates [OF m] m show ?thesis by blast
qed

subsection \<open>Chunks keep the reply\<close>

lemma drop_newlines: "filter (\<lambda>c. c \<noteq> CHR 0x0A) (lstrip_newlines s) = filter (\<lambda>c. c \<noteq> CHR 0x0A) s"
  by (induction s) (auto simp: lstrip_newlines_def)

lemma encoded_length_bound: "(\<And>c. width c \<le> k) \<Longrightarrow> encoded_length width s \<le> k * length s"
  by (induction s) (auto simp: encoded_length_def add_le_mono)

lemma chunk_loop_keeps:
  "0 < limit \<Longrightarrow>
   filter (\<lambda>c. c \<noteq> CHR 0x0A) (concat (chunk_loop width limit s)) = filter (\<lambda>c. c \<noteq> CHR 0x0A) s"
proof (induction width limit s rule: chunk_loop.induct)
  case (1 width limit s)
  show ?case
  proof (cases "limit < encoded_length width s")
    case True
    let ?cut = "best_split (take limit s)"
    have "filter (\<lambda>c. c \<noteq> CHR 0x0A) s = filter (\<lambda>c. c \<noteq> CHR 0x0A) (take ?cut s @ drop ?cut s)" by simp
    with True 1 show ?thesis
      by (simp add: chunk_loop.simps [of width limit s] drop_newlines Let_def del: append_take_drop_id)
  qed (simp add: chunk_loop.simps [of width limit s])
qed

lemma chunk_loop_sizes:
  "0 < limit \<Longrightarrow> c \<in> set (chunk_loop width limit s) \<Longrightarrow>
   c \<noteq> [] \<and> (length c \<le> limit \<or> encoded_length width c \<le> limit)"
proof (induction width limit s rule: chunk_loop.induct)
  case (1 width limit s)
  show ?case
  proof (cases "limit < encoded_length width s")
    case True
    then have "take limit s \<noteq> []" using 1(2) by (auto simp: encoded_length_def)
    note cut = best_split_bounds [OF this]
    have "c = take (best_split (take limit s)) s \<or>
        c \<in> set (chunk_loop width limit (lstrip_newlines (drop (best_split (take limit s)) s)))"
      using 1(2,3) True by (simp add: chunk_loop.simps [of width limit s] Let_def)
    then show ?thesis
      using cut 1(1) [OF _ refl 1(2)] True 1(2) by auto
  next
    case False
    with 1(3) show ?thesis by (auto simp: chunk_loop.simps [of width limit s] split: if_splits)
  qed
qed

text \<open>The chunks of a reply lose nothing but line feeds, none is empty, and none has more than the limit
  in bytes when every character is one byte: in general a chunk has at most as many characters as the
  limit says bytes, so with characters of up to \<open>k\<close> bytes it can have \<open>k\<close> times the limit.\<close>

lemma chunks_keep_reply:
  assumes "chunk_text width reply limit = Inr chunks" and "\<And>c. width c \<le> k" and "0 < k"
  shows "filter (\<lambda>c. c \<noteq> CHR 0x0A) (concat chunks) = filter (\<lambda>c. c \<noteq> CHR 0x0A) reply \<and>
    list_all (\<lambda>chunk. chunk \<noteq> [] \<and> int (encoded_length width chunk) \<le> int k * limit) chunks"
proof -
  from assms(1) have l: "0 < nat limit" "chunks = chunk_loop width (nat limit) reply"
    by (auto simp: chunk_text_def split: if_splits)
  have "int (encoded_length width c) \<le> int k * limit" if c: "c \<in> set chunks" for c
  proof -
    have "length c \<le> nat limit \<or> encoded_length width c \<le> nat limit"
      using chunk_loop_sizes [OF l(1), of c width reply] c l(2) by blast
    moreover have "encoded_length width c \<le> k * length c" by (rule encoded_length_bound) (rule assms(2))
    moreover have "nat limit \<le> k * nat limit" using assms(3) by simp
    ultimately have "encoded_length width c \<le> k * nat limit" by (meson le_trans mult_le_mono2)
    then have "int (encoded_length width c) \<le> int k * int (nat limit)" by (metis of_nat_le_iff of_nat_mult)
    with l(1) show ?thesis by simp
  qed
  with chunk_loop_keeps [OF l(1)] chunk_loop_sizes [OF l(1)] l(2) show ?thesis by (auto simp: list_all_iff)
qed

text \<open>Four characters of three bytes make one chunk of twelve bytes under a limit of four.\<close>

lemma chunk_exceeds_bytes:
  "chunk_text (\<lambda>c. 3) ''abcd'' 4 = Inr [''abcd''] \<and> encoded_length (\<lambda>c. 3) ''abcd'' = 12"
  by code_simp

subsection \<open>A session that is opened is ready\<close>

lemma seeded_text:
  "m \<in> set (seed_messages as_content history) \<Longrightarrow>
   (\<exists>c. m = UserMessage c) \<or> (\<exists>s. m = AssistantMessage (assistant_text s (Some ''end_turn'')))"
proof (induction history)
  case (Cons j js)
  then show ?case by (cases j) (auto simp: Let_def split: if_splits option.splits json.splits)
qed simp

lemma seeded_no_calls: "called_ids (seed_messages as_content history) = []"
proof -
  have "\<forall>m \<in> set ms. called_ids [m] = [] \<Longrightarrow> called_ids ms = []" for ms
  proof (induction ms)
    case (Cons m ms)
    then show ?case using called_append [of "[m]" ms] by simp
  qed simp
  moreover have "called_ids [m] = []" if "m \<in> set (seed_messages as_content history)" for m
    using seeded_text [OF that] by (auto simp: assistant_text_def tool_uses_def)
  ultimately show ?thesis by blast
qed

lemma open_messages_seeded:
  "open_messages as_content tool_names history = drop_trailing_users (seed_messages as_content history)"
proof -
  let ?ms = "seed_messages as_content history"
  obtain us where us: "?ms = drop_trailing_users ?ms @ us" using dropped_users(1) by blast
  have "called_ids (drop_trailing_users ?ms) = []" using seeded_no_calls [of as_content history] us by (metis called_append append_is_Nil_conv)
  then have r: "fst (repair_incomplete_turn ?ms) = drop_trailing_users ?ms"
    by (simp add: repair_incomplete_turn_def Let_def)
  have "list_all (replayable (Some tool_names)) (drop_trailing_users ?ms)"
  proof -
    have "replayable (Some tool_names) m" if "m \<in> set ?ms" for m
      using seeded_text [OF that] by (auto simp: assistant_text_def)
    moreover have "set (drop_trailing_users ?ms) \<subseteq> set ?ms" using us by (metis Un_upper1 set_append)
    ultimately show ?thesis by (auto simp: list_all_iff)
  qed
  then show ?thesis by (simp add: open_messages_def r sanitize_id)
qed

text \<open>A session that is opened anew is ready for the next question: its messages are those of the
  history file, texts only, up to the user messages at the end, and the last one is an answer of the
  assistant. The session is stored under its key, and opening it again gives it back unchanged, whatever
  the file holds by then.\<close>

lemma opened_session_ready:
  assumes "known_session key st = None"
    and "ensure_session as_content tool_names agent_id model_id new_id created updated history key st = (r, st')"
    and "s = so_heap (ag_sessions st') ! r"
  shows "(\<exists>us. seed_messages as_content (case history of None \<Rightarrow> [] | Some ms \<Rightarrow> ms) = se_messages s @ us \<and>
      list_all is_user us) \<and>
    (se_messages s = [] \<or> (\<exists>txt. last (se_messages s) = AssistantMessage (assistant_text txt (Some ''end_turn'')))) \<and>
    se_title s = Some key \<and>
    ensure_session as_content' tool_names' agent_id' model_id' new_id' created' updated' history' key st' = (r, st')"
proof -
  let ?ms = "seed_messages as_content (case history of None \<Rightarrow> [] | Some ms \<Rightarrow> ms)"
  from assms have s: "se_messages s = drop_trailing_users ?ms" "se_title s = Some key" "known_session key st' = Some r"
    by (auto simp: ensure_session_def mem_create_def new_session_def open_messages_seeded known_session_def
        mem_get_def map_of_dict_set change_object_def Let_def)
  have "(\<exists>txt. last (se_messages s) = AssistantMessage (assistant_text txt (Some ''end_turn'')))"
    if ne: "se_messages s \<noteq> []"
  proof -
    obtain us where "?ms = se_messages s @ us" using dropped_users(1) [of ?ms] s(1) by auto
    then have "last (se_messages s) \<in> set ?ms" using ne by (metis UnCI last_in_set set_append)
    moreover have "\<not> is_user (last (se_messages s))" using dropped_users(2) [of ?ms] ne s(1) by simp
    ultimately show ?thesis using seeded_text by fastforce
  qed
  with dropped_users(1) [of ?ms] s show ?thesis by (auto simp: ensure_session_def)
qed

end
