(* ===== verification/AgentTurn.thy ===== *)
theory AgentTurn
  imports PseudoTool Transcript TurnDemo
begin

section \<open>A turn of the agent\<close>

text \<open>
  \<open>PiAgent\<close> of \<open>oxenclaw/agents/pi_agent.py\<close> around \<open>run_agent_turn\<close>: the rounds that fire a tool call
  which the model wrote as text, and what \<open>handle\<close> does with the result of the turn, the entries of the
  dashboard's history and the reply that is sent. The identifiers of the synthetic calls, the wall clock,
  the durations of the tools and the decimal form of a float are parameters. A rerun continues from the
  history, the storage and the extra parameters as the turn before left them, since the messages and
  the dictionary of the parameters are shared objects. The preludes that \<open>handle\<close> puts before the user's
  text are left out.
\<close>

record 'w pi_agent =
  pa_env :: "'w environment"
  pa_model :: model
  pa_api :: string
  pa_registry :: "'w tool_registry"
  pa_as_content :: "json \<Rightarrow> content option"

subsection \<open>Firing a written call\<close>

definition final_text :: "assistant \<Rightarrow> string" where
  "final_text a = concat (map block_text (filter is_text (am_content a)))"

text \<open>The tool is called directly; its value must be a content of a tool result.\<close>

fun fired_content :: "(json \<Rightarrow> content option) \<Rightarrow> tool_outcome \<Rightarrow> py_error + content \<times> bool" where
  "fired_content as_content (OutText s) = Inr (CStr s, False)"
| "fired_content as_content (OutValue (JStr s)) = Inr (CStr s, False)"
| "fired_content as_content (OutValue v) =
    (case as_content v of None \<Rightarrow> Inl ValidationError | Some c \<Rightarrow> Inr (c, False))"
| "fired_content as_content (OutRaised m) = Inr (CStr (''(auto-fire error: '' @ m @ '')''), True)"

definition synthetic_call :: "string \<Rightarrow> string \<Rightarrow> string \<Rightarrow> members \<Rightarrow> message" where
  "synthetic_call txt fake_id name args =
    AssistantMessage
      \<lparr>am_content = [TextContent (if txt = [] then ''(pseudo-tool auto-fired)'' else txt),
                     ToolUseBlock fake_id name (JObj args)],
       am_stop_reason = Some ''tool_use'', am_usage = None\<rparr>"

definition synthetic_result :: "string \<Rightarrow> content \<Rightarrow> bool \<Rightarrow> message" where
  "synthetic_result fake_id c is_error =
    ToolResultMessage [\<lparr>tr_tool_use_id = fake_id, tr_content = c, tr_is_error = is_error\<rparr>]"

definition without_final :: "turn_result \<Rightarrow> message list" where
  "without_final r =
    (if tu_appended r \<noteq> [] \<and> last (tu_appended r) = AssistantMessage (tu_final_message r)
     then butlast (tu_appended r) else tu_appended r)"

fun sum_usage :: "(string \<times> int) list \<Rightarrow> (string \<times> int) list \<Rightarrow> (string \<times> int) list" where
  "sum_usage acc [] = acc"
| "sum_usage acc ((k, v) # d) =
    sum_usage (dict_set k ((case map_of acc k of None \<Rightarrow> 0 | Some n \<Rightarrow> n) + v) acc) d"

text \<open>The result of the rerun, stitched to what the turn before had appended.\<close>

definition stitch :: "turn_result \<Rightarrow> message list \<Rightarrow> turn_result \<Rightarrow> turn_result" where
  "stitch result inserted rerun =
    rerun\<lparr>tu_appended := inserted @ tu_appended rerun,
          tu_usage_total := sum_usage (tu_usage_total result) (tu_usage_total rerun),
          tu_executions := tu_executions result @ tu_executions rerun\<rparr>"

text \<open>
  A round: nothing was done, the new result, the rerun raised after the tool had run, or an exception
  leaves the round.
\<close>

datatype 'w autofire =
    Unchanged
  | Fired turn_result "'w turn_state"
  | RerunRaised
  | FireRaised py_error

text \<open>
  What the agent has after the rounds: the turn raised; a result with the state behind it; or a result that was
  kept because a round failed. What the failed round left behind is not described then: the tool may have
  acted on the world, and the failed rerun may have written to the storage and truncated the
  tool results of the kept messages in place, which \<open>same_message_frame\<close> leaves open.
\<close>

datatype 'w agent_outcome =
    TurnRaised py_error
  | TurnDone turn_result "'w turn_state"
  | TurnKept turn_result

definition written_call :: "'w pi_agent \<Rightarrow> assistant \<Rightarrow> py_error + pseudo_call option" where
  "written_call ag final =
    extract_pseudo_tool_call (final_text final) (\<lambda>n. registry_get (pa_registry ag) n \<noteq> None)
      (map (\<lambda>t. (tl_name t, tl_schema t)) (registry_tools (pa_registry ag)))"

definition fire_tool ::
  "'w pi_agent \<Rightarrow> string option \<Rightarrow> 'w runtime_config \<Rightarrow> string \<Rightarrow> 'w tool \<Rightarrow> members \<Rightarrow>
   turn_result \<Rightarrow> 'w turn_state \<Rightarrow> 'w autofire" where
  "fire_tool ag system cfg fake_id t args result st =
    (let (out, w) = tl_execute t (JObj args) (ts_world st)
     in case fired_content (pa_as_content ag) out of
          Inl e \<Rightarrow> FireRaised e
        | Inr (c, is_error) \<Rightarrow>
           (let inserted = without_final result @
                  [synthetic_call (final_text (tu_final_message result)) fake_id (tl_name t) args,
                   synthetic_result fake_id c is_error]
            in case run_agent_turn (pa_env ag) (pa_model ag) (pa_api ag) system (ts_history st @ inserted)
                      (registry_tools (pa_registry ag)) (cfg\<lparr>rc_extra_params := ts_extra_params st\<rparr>) (ts_disk st) w of
                 Finished rerun st' \<Rightarrow>
                   (let n = length (ts_history st)
                    in Fired (stitch result (drop n (ts_history st')) rerun)
                         (st'\<lparr>ts_history := take n (ts_history st')\<rparr>))
               | _ \<Rightarrow> RerunRaised))"

definition auto_fire_pseudo_tool_once ::
  "'w pi_agent \<Rightarrow> string option \<Rightarrow> 'w runtime_config \<Rightarrow> string \<Rightarrow> turn_result \<Rightarrow> 'w turn_state \<Rightarrow> 'w autofire" where
  "auto_fire_pseudo_tool_once ag system cfg fake_id result st =
    (if tool_uses (tu_final_message result) \<noteq> [] then Unchanged
     else case written_call ag (tu_final_message result) of
        Inl e \<Rightarrow> FireRaised e
      | Inr None \<Rightarrow> Unchanged
      | Inr (Some call) \<Rightarrow>
         (case registry_get (pa_registry ag) (pc_name call) of
            None \<Rightarrow> Unchanged
          | Some t \<Rightarrow> fire_tool ag system cfg fake_id t (pc_args call) result st))"

text \<open>\<open>n\<close> rounds are left; the identifiers are those of the next rounds.\<close>

fun maybe_auto_fire_pseudo_tool ::
  "'w pi_agent \<Rightarrow> string option \<Rightarrow> 'w runtime_config \<Rightarrow> (nat \<Rightarrow> string) \<Rightarrow> nat \<Rightarrow> turn_result \<Rightarrow> 'w turn_state \<Rightarrow>
   'w agent_outcome" where
  "maybe_auto_fire_pseudo_tool ag system cfg fake_ids 0 result st = TurnDone result st"
| "maybe_auto_fire_pseudo_tool ag system cfg fake_ids (Suc n) result st =
    (case auto_fire_pseudo_tool_once ag system cfg (fake_ids n) result st of
       Unchanged \<Rightarrow> TurnDone result st
     | RerunRaised \<Rightarrow> TurnKept result
     | FireRaised e \<Rightarrow> TurnRaised e
     | Fired result' st' \<Rightarrow> maybe_auto_fire_pseudo_tool ag system cfg fake_ids n result' st')"

definition max_autofire_rounds :: nat where
  "max_autofire_rounds = 3"

text \<open>The turn and the rounds after it; when an exception leaves a round, the result of the turn is kept.\<close>

definition agent_turn ::
  "'w pi_agent \<Rightarrow> string option \<Rightarrow> 'w runtime_config \<Rightarrow> (nat \<Rightarrow> string) \<Rightarrow> message list \<Rightarrow> disk \<Rightarrow> 'w \<Rightarrow>
   'w agent_outcome" where
  "agent_turn ag system cfg fake_ids history d w =
    (case run_agent_turn (pa_env ag) (pa_model ag) (pa_api ag) system history (registry_tools (pa_registry ag)) cfg d w of
       Raised e \<Rightarrow> TurnRaised e
     | Continue st \<Rightarrow> TurnRaised ValueError
     | Finished result st \<Rightarrow>
        (case maybe_auto_fire_pseudo_tool ag system cfg fake_ids max_autofire_rounds result st of
           TurnRaised e \<Rightarrow> TurnKept result
         | outcome \<Rightarrow> outcome))"

subsection \<open>The dashboard's entries\<close>

text \<open>\<open>"\n".join(p for p in parts if p).strip()\<close> over the text blocks.\<close>

definition reply_text :: "assistant \<Rightarrow> string" where
  "reply_text a = strip (join newline (filter (\<lambda>t. t \<noteq> []) (map block_text (filter is_text (am_content a)))))"

text \<open>\<open>{e.id: e for e in executions}\<close>: the last one with an identifier counts. Each has its duration.\<close>

definition exec_by_id :: "(tool_exec \<times> real) list \<Rightarrow> string \<Rightarrow> (tool_exec \<times> real) option" where
  "exec_by_id executions i = List.find (\<lambda>x. te_id (fst x) = i) (rev executions)"

definition call_entry :: "(real \<Rightarrow> string) \<Rightarrow> real \<Rightarrow> real \<Rightarrow> (tool_exec \<times> real) option \<Rightarrow> string \<Rightarrow> string \<Rightarrow> json \<Rightarrow> json" where
  "call_entry float_text ts_start ts_end executed i name args =
    JObj [(''id'', JStr i), (''name'', JStr name), (''args'', args),
          (''started_at'', JFloat (float_text ts_start)), (''ended_at'', JFloat (float_text ts_end)),
          (''status'', JStr (case executed of Some x \<Rightarrow> if te_is_error (fst x) then ''error'' else ''ok'' | None \<Rightarrow> ''ok'')),
          (''output_preview'', JStr (case executed of Some x \<Rightarrow> take 200 (te_output (fst x)) | None \<Rightarrow> []))]"

text \<open>The entries of the calls of one message, and the seconds accumulated after them.\<close>

fun call_entries ::
  "(real \<Rightarrow> string) \<Rightarrow> (string \<Rightarrow> (tool_exec \<times> real) option) \<Rightarrow> real \<Rightarrow> real \<Rightarrow> tool_request list \<Rightarrow> json list \<times> real" where
  "call_entries float_text execs turn_start accumulated [] = ([], accumulated)"
| "call_entries float_text execs turn_start accumulated (rq # rqs) =
    (let executed = execs (tq_id rq);
         dur = (case executed of Some x \<Rightarrow> snd x | None \<Rightarrow> 0);
         entry = call_entry float_text (turn_start + accumulated) (turn_start + accumulated + dur) executed
                   (tq_id rq) (tq_name rq) (tq_input rq);
         (entries, accumulated') = call_entries float_text execs turn_start (accumulated + dur) rqs
     in (entry # entries, accumulated'))"

fun tool_call_messages ::
  "(real \<Rightarrow> string) \<Rightarrow> (string \<Rightarrow> (tool_exec \<times> real) option) \<Rightarrow> real \<Rightarrow> real \<Rightarrow> message list \<Rightarrow> json list" where
  "tool_call_messages float_text execs turn_start accumulated [] = []"
| "tool_call_messages float_text execs turn_start accumulated (AssistantMessage a # ms) =
    (if tool_uses a = [] then tool_call_messages float_text execs turn_start accumulated ms
     else let (entries, accumulated') = call_entries float_text execs turn_start accumulated (tool_requests a)
          in JObj [(''role'', JStr ''assistant''), (''content'', JStr (reply_text a)), (''tool_calls'', JArr entries)]
             # tool_call_messages float_text execs turn_start accumulated' ms)"
| "tool_call_messages float_text execs turn_start accumulated (m # ms) =
    tool_call_messages float_text execs turn_start accumulated ms"

definition assistant_entry :: "string \<Rightarrow> json" where
  "assistant_entry txt = JObj [(''role'', JStr ''assistant''), (''content'', JStr txt)]"

definition empty_reply_placeholder :: string where
  "empty_reply_placeholder =
    ''(no reply '' @ [CHR 0x82] @ '' model returned an empty response. Check gateway.log; if persistent, try `agents.set_model` to swap to a stronger model.)''"

text \<open>What is sent, the entries appended to the dashboard, and the world after the hooks.\<close>

definition deliver_reply ::
  "'w hook_runner \<Rightarrow> hook_context \<Rightarrow> (char \<Rightarrow> nat) \<Rightarrow> int \<Rightarrow> assistant \<Rightarrow> json list \<Rightarrow> 'w \<Rightarrow>
   (py_error + string list) \<times> json list \<times> 'w" where
  "deliver_reply hooks hook_ctx width chunk_limit final dashboard w =
    (let reply = reply_text final
     in if reply = []
        then (if tool_uses final = []
              then let (hook_text, w1) = run_on_empty_reply hooks hook_ctx w;
                       placeholder = nonempty_or hook_text empty_reply_placeholder
                   in (Inr [placeholder], dashboard @ [assistant_entry placeholder],
                       run_on_turn_end hooks placeholder hook_ctx w1)
              else (Inr [], dashboard, w))
        else let dashboard' = (if tool_uses final = [] then dashboard @ [assistant_entry reply] else dashboard)
             in case chunk_text width reply chunk_limit of
                  Inl e \<Rightarrow> (Inl e, dashboard', w)
                | Inr chunks \<Rightarrow> (Inr chunks, dashboard', run_on_turn_end hooks reply hook_ctx w))"

definition record_turn ::
  "(real \<Rightarrow> string) \<Rightarrow> real \<Rightarrow> real list \<Rightarrow> turn_result \<Rightarrow> json list \<Rightarrow> json list" where
  "record_turn float_text turn_start durations result dashboard =
    dashboard @ tool_call_messages float_text (exec_by_id (zip (tu_executions result) durations)) turn_start 0
      (tu_appended result)"

subsection \<open>The fired calls are paired\<close>

lemma paired_without_last:
  "all_answered (xs @ [AssistantMessage a]) \<Longrightarrow> all_answered xs"
proof (induction xs rule: all_answered.induct)
  case (3 b m ms)
  then show ?case by (auto split: if_splits message.splits)
qed (auto split: if_splits)

lemma paired_rev_append: "all_answered (xs @ ys) \<Longrightarrow> all_answered xs \<Longrightarrow> all_answered ys"
proof (induction xs rule: all_answered.induct)
  case (2 a)
  then show ?case by (cases ys) auto
next
  case (3 a m ms)
  then show ?case by (auto split: if_splits message.splits)
qed auto

lemma turn_ends_paired:
  assumes "run_agent_turn env m api system h tools cfg d w = Finished r st"
  shows "ends_paired r" "list_all2 same_message_frame h (ts_history st)"
proof -
  obtain ctx where c: "ctx = turn_context env m api system tools cfg"
      "run_agent_turn env m api system h tools cfg d w =
        turn_loop ctx (nat (rc_max_tool_iterations cfg)) (initial_state m h cfg d w)"
    by (rule run_agent_turn_loop)
  note loop = assms [unfolded c(2)]
  show "ends_paired r" by (rule turn_transcript [OF loop initial_ok(4) [OF c(1)]])
  have "history_kept h st" by (rule turn_books(3) [OF loop initial_ok(3) [OF c(1)]])
  then show "list_all2 same_message_frame h (ts_history st)" by (rule history_kept_frames)
qed

lemma without_final_paired: "ends_paired r \<Longrightarrow> all_answered (without_final r)"
  using paired_without_last [of "butlast (tu_appended r)" "tu_final_message r"]
  by (auto simp: ends_paired_def without_final_def) (metis append_butlast_last_id)

lemma synthetic_paired:
  "all_answered [synthetic_call txt i name args, synthetic_result i c e]"
  by (simp add: synthetic_call_def synthetic_result_def tool_uses_def)

lemma fire_tool_paired:
  assumes "fire_tool ag system cfg i t args result st = Fired result' st'" and "ends_paired result"
  shows "ends_paired result'"
proof -
  obtain out w where out: "tl_execute t (JObj args) (ts_world st) = (out, w)" by fastforce
  let ?n = "length (ts_history st)"
  from assms(1) out obtain c e rerun st1 where
    run: "run_agent_turn (pa_env ag) (pa_model ag) (pa_api ag) system
        (ts_history st @ without_final result @
          [synthetic_call (final_text (tu_final_message result)) i (tl_name t) args, synthetic_result i c e])
        (registry_tools (pa_registry ag)) (cfg\<lparr>rc_extra_params := ts_extra_params st\<rparr>) (ts_disk st) w = Finished rerun st1"
    and r': "result' = stitch result (drop ?n (ts_history st1)) rerun"
    by (auto simp: fire_tool_def Let_def split: sum.splits step_result.splits)
  let ?inserted = "without_final result @
    [synthetic_call (final_text (tu_final_message result)) i (tl_name t) args, synthetic_result i c e]"
  have ins: "all_answered ?inserted" by (rule paired_append [OF without_final_paired [OF assms(2)] synthetic_paired])
  note ends = turn_ends_paired [OF run]
  from list_all2_dropI [OF ends(2), of ?n] have "list_all2 same_message_frame ?inserted (drop ?n (ts_history st1))" by simp
  from paired_frames [OF this ins] have front: "all_answered (drop ?n (ts_history st1))" .
  with ends(1) show ?thesis
    by (auto simp: ends_paired_def r' stitch_def butlast_append intro: paired_append)
qed

text \<open>The result that the agent goes on with.\<close>

fun outcome_result :: "'w agent_outcome \<Rightarrow> turn_result option" where
  "outcome_result (TurnRaised e) = None"
| "outcome_result (TurnDone r st) = Some r"
| "outcome_result (TurnKept r) = Some r"

lemma rounds_paired:
  "outcome_result (maybe_auto_fire_pseudo_tool ag system cfg ids n result st) = Some result' \<Longrightarrow>
   ends_paired result \<Longrightarrow> ends_paired result'"
proof (induction n arbitrary: result st)
  case (Suc n)
  then show ?case
    by (auto simp: auto_fire_pseudo_tool_once_def split: autofire.splits if_splits sum.splits option.splits
        dest: fire_tool_paired)
qed simp

text \<open>C8. A turn of the agent keeps calls and results together even when calls were fired from the text of
  an answer: in what it appends, every answer with tool calls, written or real and whatever its stop reason,
  is followed at once by the results of exactly its calls. The one exception is the last message, the final
  answer, when it came from a failed attempt or its stop reason is not one of a tool call. This also
  holds of the result that is kept when a round failed.\<close>

theorem agent_turn_pairs_results:
  assumes "outcome_result (agent_turn ag system cfg fake_ids history d w) = Some result"
  shows "all_answered (tu_appended result) \<or>
    (tu_appended result \<noteq> [] \<and> last (tu_appended result) = AssistantMessage (tu_final_message result) \<and>
     all_answered (butlast (tu_appended result)) \<and>
     (tu_stopped_reason result = ''error'' \<or>
      am_stop_reason (tu_final_message result) \<notin> {Some ''tool_use'', Some ''tool_calls''}))"
proof -
  from assms obtain r0 st0 where run: "run_agent_turn (pa_env ag) (pa_model ag) (pa_api ag) system history
      (registry_tools (pa_registry ag)) cfg d w = Finished r0 st0"
    and r: "result = r0 \<or>
      outcome_result (maybe_auto_fire_pseudo_tool ag system cfg fake_ids max_autofire_rounds r0 st0) = Some result"
    by (auto simp: agent_turn_def split: step_result.splits agent_outcome.splits)
  have "ends_paired result" using r turn_ends_paired(1) [OF run] rounds_paired by blast
  then show ?thesis by (simp add: ends_paired_def)
qed

text \<open>The world of the demonstration counts the calls; the first answer writes a call as text.\<close>

definition weather_tool :: "nat tool" where
  "weather_tool = \<lparr>tl_name = ''weather'', tl_description = [], tl_schema = JObj [],
     tl_execute = (\<lambda>args w. (OutText ''rain'', w))\<rparr>"

definition writing_stream :: "request \<Rightarrow> nat \<Rightarrow> event list \<times> nat" where
  "writing_stream rq w =
    ((if w = 0 then [TextDelta (''I look: '' @ json_dumps True False (JObj flat_call)), StopEvent ''end_turn'']
      else [TextDelta ''It rains.'', StopEvent ''end_turn'']), w + 1)"

definition demo_agent :: "nat pi_agent" where
  "demo_agent = \<lparr>pa_env = demo_env writing_stream, pa_model = demo_model, pa_api = ''api'',
     pa_registry = \<lparr>rg_tools = [(''weather'', weather_tool)], rg_by_canon = [(''weather'', weather_tool)]\<rparr>,
     pa_as_content = (\<lambda>v. None)\<rparr>"

definition demo_agent_turn :: "nat agent_outcome" where
  "demo_agent_turn = agent_turn demo_agent None demo_config (\<lambda>n. ''pseudo_'' @ show_nat n) [] [] 0"

lemma demo_agent_turn_value:
  "case demo_agent_turn of
     TurnDone r st \<Rightarrow> ts_world st = 2 \<and> tool_uses (tu_final_message r) = [] \<and>
       map (\<lambda>m. case m of AssistantMessage a \<Rightarrow> length (am_content a) | ToolResultMessage rs \<Rightarrow> 10 | _ \<Rightarrow> 0) (tu_appended r) = [2, 10, 1]
   | _ \<Rightarrow> False"
  by code_simp

theorem agent_turn_pairs_results_witness:
  "\<exists>r st. agent_turn demo_agent None demo_config (\<lambda>n. ''pseudo_'' @ show_nat n) [] [] 0 = TurnDone r st \<and>
     length (tu_appended r) = 3 \<and> all_answered (tu_appended r)"
proof -
  obtain r st where d: "demo_agent_turn = TurnDone r st" "tool_uses (tu_final_message r) = []"
      "map (\<lambda>m. case m of AssistantMessage a \<Rightarrow> length (am_content a) | ToolResultMessage rs \<Rightarrow> 10 | _ \<Rightarrow> 0) (tu_appended r) = [2, 10, 1]"
    using demo_agent_turn_value by (auto split: agent_outcome.splits)
  have "all_answered [AssistantMessage (tu_final_message r)]" using d(2) by simp
  moreover have "outcome_result (agent_turn demo_agent None demo_config (\<lambda>n. ''pseudo_'' @ show_nat n) [] [] 0) = Some r"
    using d(1) by (simp add: demo_agent_turn_def)
  ultimately have "all_answered (tu_appended r)"
    using agent_turn_pairs_results by (metis append_butlast_last_id paired_append)
  moreover have "length (tu_appended r) = 3" using arg_cong [OF d(3), of length] by simp
  ultimately show ?thesis using d(1) unfolding demo_agent_turn_def by blast
qed

subsection \<open>A written call is answered\<close>

lemma written_call_found:
  assumes "final_text final = before @ json_dumps ascii False (JObj kvs) @ after"
    and "json_ok (JObj kvs)" and "coerce_to_call kvs = Some (name, args)"
    and "list_all (\<lambda>c. c \<notin> {CHR 0x22, CHR ''{'', CHR ''}''}) (before @ after)"
    and "call_candidates (final_text final) = [json_text ascii (JObj kvs)]"
    and "registry_get (pa_registry ag) name = Some t"
  shows "\<exists>raw. written_call ag final = Inr (Some \<lparr>pc_name = name, pc_args = args, pc_raw_block = raw\<rparr>)"
proof -
  have "\<not> blank (final_text final)"
    unfolding assms(1) by (simp add: json_dumps_def blank_def is_space_def)
  moreover have "json_loads (json_text ascii (JObj kvs)) = Some (JObj kvs)" by (rule json_loads_dumps [OF assms(2)])
  ultimately show ?thesis
    using assms(3,5,6) by (simp add: written_call_def extract_pseudo_tool_call_def flatten_object_def del: json_text.simps)
qed


text \<open>Prose around what \<open>json.dumps\<close> writes is recognised, when the prose has no quotation mark, brace or fence.\<close>

lemma dumped_call_found:
  assumes "final_text final = before @ json_dumps ascii False (JObj kvs) @ after"
    and "json_ok (JObj kvs)" and "coerce_to_call kvs = Some (name, args)"
    and "list_all (\<lambda>c. c \<notin> {CHR 0x22, CHR ''{'', CHR ''}''}) (before @ after)"
    and "\<not> contains fence (before @ json_dumps ascii False (JObj kvs) @ after)"
    and "registry_get (pa_registry ag) name = Some t"
  shows "\<exists>raw. written_call ag final = Inr (Some \<lparr>pc_name = name, pc_args = args, pc_raw_block = raw\<rparr>)"
  by (rule written_call_found [OF assms(1-4) _ assms(6)])
    (simp only: assms(1) prose_candidates [OF assms(2,4,5)])


subsection \<open>What a fired call passes by\<close>

text \<open>A hook that vetoes every tool does not stop a fired call.\<close>

definition veto_all :: "nat hook_runner" where
  "veto_all = \<lparr>hr_before_agent_reply = [], hr_before_model_resolve = [],
     hr_before_tool_use = [\<lambda>n args ctx w. (HookReturned (Some \<lparr>bt_abort = True, bt_substitute_output = None, bt_rewrite_args = None\<rparr>), w)],
     hr_after_tool_use = [], hr_on_empty_reply = [], hr_on_turn_end = []\<rparr>"

lemma fired_call_passes_veto:
  "case agent_turn demo_agent None (demo_config\<lparr>rc_hook_runner := Some veto_all\<rparr>) (\<lambda>n. ''p'') [] [] 0 of
     TurnDone r st \<Rightarrow> tu_appended r ! 1 = synthetic_result ''p'' (CStr ''rain'') False
   | _ \<Rightarrow> False"
  by code_simp

text \<open>A fired call is not among the executions: the dashboard shows it as done, without output, even when it failed.\<close>

definition failing_agent :: "nat pi_agent" where
  "failing_agent =
    (let t = weather_tool\<lparr>tl_execute := (\<lambda>args w. (OutRaised ''no net'', w))\<rparr>
     in demo_agent\<lparr>pa_registry := \<lparr>rg_tools = [(''weather'', t)], rg_by_canon = [(''weather'', t)]\<rparr>\<rparr>)"

lemma fired_failure_shown_as_done:
  "case agent_turn failing_agent None demo_config (\<lambda>n. ''p'') [] [] 0 of
     TurnDone r st \<Rightarrow> tu_appended r ! 1 = synthetic_result ''p'' (CStr ''(auto-fire error: no net)'') True \<and>
       (case record_turn (\<lambda>x. ''0.0'') 0 [] r [] of
          [JObj [role, content, (k, JArr [JObj [i, n, args, started, ended, status, preview]])]] \<Rightarrow>
            status = (''status'', JStr ''ok'') \<and> preview = (''output_preview'', JStr [])
        | _ \<Rightarrow> False)
   | _ \<Rightarrow> False"
  by code_simp

end
