(* ===== verification/PlanExecute.thy ===== *)
theory PlanExecute
  imports AgentTurn Texts TurnDemo
begin

section \<open>Planning, then executing\<close>

text \<open>
  \<open>oxenclaw/agents/plan_execute.py\<close>: a plan is asked for without tools, judged, asked for again when it is
  rejected, and then carried out step by step, each step followed by a turn that judges it. Every turn is
  \<open>run_agent_turn\<close>; an exception of one leaves the whole run. The messages of a history are shared
  between the turns, so a history goes on as the turn before left it, and so do the storage, the extra
  parameters and the world.
\<close>

subsection \<open>Reading a plan\<close>

text \<open>
  The pattern of a numbered line, with its groups: spaces, a bullet, bold marks, the digits, one of
  \<open>. )\<close> or a space, bold marks, the body. When nothing but spaces follows, what the pattern finds is blank
  and is not taken; bold marks at the very end are the body.
\<close>

definition drop_bold :: "string \<Rightarrow> string" where
  "drop_bold s = (if prefix ''**'' s then lstrip (drop 2 s) else s)"

fun drop_bullet :: "string \<Rightarrow> string" where
  "drop_bullet (c # d # s) = (if c \<in> {CHR ''-'', CHR ''*''} \<and> is_space d then lstrip s else c # d # s)"
| "drop_bullet s = s"

definition numbered_line :: "string \<Rightarrow> (int \<times> string) option" where
  "numbered_line line =
    (let s = drop_bold (drop_bullet (lstrip line));
         digits = takeWhile Json.is_digit (lstrip s)
     in if digits = [] then None
        else case drop (length digits) (lstrip s) of
            [] \<Rightarrow> None
          | c # r \<Rightarrow>
             if c \<notin> {CHR ''.'', CHR '')''} \<and> \<not> is_space c then None
             else let r1 = lstrip r; body = rstrip (drop_bold r1)
                  in if body \<noteq> [] then Some (int (nat_of_digits digits), body)
                     else if r1 = ''**'' then Some (int (nat_of_digits digits), ''**'')
                     else None)"

fun increasing :: "int \<Rightarrow> (int \<times> string) list \<Rightarrow> string list" where
  "increasing last_n [] = []"
| "increasing last_n ((n, body) # steps) =
    (if n \<le> last_n then increasing last_n steps else body # increasing n steps)"

definition extract_numbered_steps :: "string \<Rightarrow> string list" where
  "extract_numbered_steps plan_text =
    increasing 0 (List.map_filter (\<lambda>l. numbered_line (bare_line l)) (splitlines plan_text))"

definition extract_text :: "assistant \<Rightarrow> string" where
  "extract_text m = strip (join newline (filter (\<lambda>t. t \<noteq> []) (map block_text (filter is_text (am_content m)))))"

subsection \<open>Reading a verdict\<close>

record step_verdict =
  vd_met :: bool
  vd_reason :: string

definition strip_of :: "char set \<Rightarrow> string \<Rightarrow> string" where
  "strip_of cs s = rev (dropWhile (\<lambda>c. c \<in> cs) (rev (dropWhile (\<lambda>c. c \<in> cs) s)))"

definition verdict_tail :: "nat \<Rightarrow> string \<Rightarrow> string" where
  "verdict_tail n line =
    (case index_of (CHR '':'') line of
       Some i \<Rightarrow> strip (drop (i + 1) line)
     | None \<Rightarrow> strip_of {CHR '' '', CHR ''-'', CHR 0x82} (drop n line))"

definition verdict_line :: "string \<Rightarrow> step_verdict option" where
  "verdict_line raw_line =
    (let line = strip (dropWhile (\<lambda>c. c \<in> {CHR ''-'', CHR ''*'', CHR 0x8B}) (strip raw_line)); low = lower line
     in if prefix ''yes'' low then Some \<lparr>vd_met = True, vd_reason = (let t = verdict_tail 3 line in if t = [] then ''yes'' else t)\<rparr>
        else if prefix ''no'' low then Some \<lparr>vd_met = False, vd_reason = (let t = verdict_tail 2 line in if t = [] then ''no'' else t)\<rparr>
        else None)"

definition parse_verdict :: "string \<Rightarrow> step_verdict" where
  "parse_verdict txt =
    (let cleaned = strip txt
     in if cleaned = [] then \<lparr>vd_met = False, vd_reason = ''(empty verifier reply)''\<rparr>
        else case List.map_filter (\<lambda>l. verdict_line (bare_line l)) (splitlines cleaned) of
            v # _ \<Rightarrow> v
          | [] \<Rightarrow>
             let head = take 80 (lower cleaned)
             in if contains ''yes'' head \<and> \<not> contains ''no'' head then \<lparr>vd_met = True, vd_reason = take 120 cleaned\<rparr>
                else if contains ''no'' head \<and> \<not> contains ''yes'' head
                then \<lparr>vd_met = False, vd_reason = take 120 cleaned\<rparr>
                else \<lparr>vd_met = False, vd_reason = ''(ambiguous: '' @ repr_str (take 80 cleaned) @ '')''\<rparr>)"

subsection \<open>The texts\<close>

definition rule_line :: string where
  "rule_line = replicate 6 (CHR 0x8C)"

definition planning_guidance :: string where
  "planning_guidance =
    newline @ newline @ rule_line @ '' PLANNING PHASE '' @ rule_line @ newline @
    ''For THIS turn ONLY, do not call any tools. Produce a numbered '' @
    ''plan (3-7 actionable steps) that fulfils the user'' @ [CHR 0x27] @ ''s request. '' @
    ''Format strictly as:'' @ newline @
    ''1. <step>'' @ newline @ ''2. <step>'' @ newline @ ''3. <step>'' @ newline @
    ''Each step should be concrete enough that an executor can do it '' @
    ''with one or two tool calls. Quote any input values from the '' @
    ''user'' @ [CHR 0x27] @ ''s request verbatim so the executor doesn'' @ [CHR 0x27] @ ''t lose them '' @ [CHR 0x82] @ '' '' @
    ''but never pre-compute, embed, or quote the *derived output* of '' @
    ''a step (the upper-cased string, the sum, the sorted list, etc.). '' @
    ''Reply with the plan only '' @ [CHR 0x82] @ '' no preamble, no commentary.''"

definition plan_validator_guidance :: string where
  "plan_validator_guidance =
    ''Review the plan above as a critic, not the author. Reject the '' @
    ''plan ONLY if one of these two concrete defects is present:'' @ newline @
    ''  (a) A step embeds a literal expected output '' @ [CHR 0x82] @ '' a quoted '' @
    ''      transformed string, a numeric sum, a sorted list, etc. '' @
    ''      Re-stating input verbatim is fine; pre-computing a '' @
    ''      derived result is not.'' @ newline @
    ''  (b) A step required by the user'' @ [CHR 0x27] @ ''s request is missing entirely.'' @ newline @
    ''Do NOT reject for wording, brevity, ambiguity, style, or '' @
    ''minor redundancy '' @ [CHR 0x82] @ '' those are the executor'' @ [CHR 0x27] @ ''s problem, not the '' @
    ''plan'' @ [CHR 0x27] @ ''s. When in doubt, answer YES.'' @ newline @
    ''Reply on a single line:'' @ newline @
    ''  YES: <one-line reason the plan is sound>'' @ newline @
    ''or'' @ newline @
    ''  NO: <step number + which defect (a) or (b) and the literal '' @
    ''      embedded value, if any>''"

definition replan_nudge :: "string \<Rightarrow> string" where
  "replan_nudge reason =
    ''The previous plan was rejected. Reason: '' @ reason @ newline @
    ''Produce a corrected numbered plan now. Describe the ACTION only '' @
    ''for each step '' @ [CHR 0x82] @ '' do NOT include expected outputs or pre-computed '' @
    ''values. Reply with the plan only.''"

definition step_guidance :: "nat \<Rightarrow> nat \<Rightarrow> string \<Rightarrow> string" where
  "step_guidance n n_steps step =
    newline @ newline @ rule_line @ '' EXECUTION PHASE '' @ [CHR 0x82] @ '' STEP '' @ show_nat n @ ''/'' @ show_nat n_steps @ '' '' @
    rule_line @ newline @
    ''Now execute step '' @ show_nat n @ '': '' @ step @ newline @
    ''Use the available tools as needed. When done with this step, '' @
    ''give a one-line summary of what was accomplished.''"

definition verifier_guidance :: "nat \<Rightarrow> string \<Rightarrow> string" where
  "verifier_guidance n step =
    ''Did the previous turn satisfy step '' @ show_nat n @ '' of the plan? '' @
    ''Step '' @ show_nat n @ '': '' @ step @ newline @
    ''Reply EXACTLY in this format on a single line:'' @ newline @
    ''  YES: <one-line reason>'' @ newline @
    ''or'' @ newline @
    ''  NO: <one-line reason>'' @ newline @
    ''Be strict '' @ [CHR 0x82] @ '' only answer YES if the step is genuinely complete '' @
    ''(not just attempted).''"

definition retry_nudge :: "nat \<Rightarrow> string \<Rightarrow> string \<Rightarrow> string" where
  "retry_nudge n reason step =
    ''The previous attempt did not satisfy step '' @ show_nat n @ ''. Reason: '' @ reason @ newline @
    ''Retry step '' @ show_nat n @ '': '' @ step"

subsection \<open>The two phases\<close>

record step_run =
  sr_step_text :: string
  sr_attempts :: int
  sr_final_text :: string
  sr_verifier_met :: bool
  sr_verifier_reason :: string

record plan_result =
  pl_plan_text :: string
  pl_plan_steps :: "string list"
  pl_step_runs :: "step_run list"
  pl_final_text :: string
  pl_fell_back :: bool
  pl_total_turns :: int
  pl_plan_attempts :: int
  pl_plan_verdict_met :: bool
  pl_plan_verdict_reason :: string

definition plan_result_init :: plan_result where
  "plan_result_init =
    \<lparr>pl_plan_text = [], pl_plan_steps = [], pl_step_runs = [], pl_final_text = [], pl_fell_back = False,
     pl_total_turns = 0, pl_plan_attempts = 0, pl_plan_verdict_met = False, pl_plan_verdict_reason = []\<rparr>"

record 'w planner =
  pn_env :: "'w environment"
  pn_model :: model
  pn_api :: string
  pn_system :: string
  pn_tools :: "'w tool list"
  pn_config :: "'w runtime_config"

text \<open>What goes on from turn to turn.\<close>

record 'w plan_world =
  pw_extra :: "(string \<times> json) list"
  pw_disk :: disk
  pw_world :: 'w

text \<open>One turn: the text of its answer, the history with what it appended, the world.\<close>

definition plan_turn ::
  "'w planner \<Rightarrow> string \<Rightarrow> 'w tool list \<Rightarrow> message list \<Rightarrow> 'w plan_world \<Rightarrow>
   py_error + string \<times> message list \<times> message list \<times> 'w plan_world" where
  "plan_turn pn system tools history pw =
    (case run_agent_turn (pn_env pn) (pn_model pn) (pn_api pn) (Some system) history tools
            ((pn_config pn)\<lparr>rc_extra_params := pw_extra pw\<rparr>) (pw_disk pw) (pw_world pw) of
       Raised e \<Rightarrow> Inl e
     | Continue st \<Rightarrow> Inl ValueError
     | Finished r st \<Rightarrow>
         Inr (extract_text (tu_final_message r), ts_history st, tu_appended r,
           \<lparr>pw_extra = ts_extra_params st, pw_disk = ts_disk st, pw_world = ts_world st\<rparr>))"

text \<open>The planning loop: \<open>k\<close> attempts are left, \<open>done\<close> have been made.\<close>

fun plan_attempts ::
  "'w planner \<Rightarrow> nat \<Rightarrow> int \<Rightarrow> message list \<Rightarrow> 'w plan_world \<Rightarrow> plan_result \<Rightarrow>
   py_error + message list \<times> 'w plan_world \<times> plan_result" where
  "plan_attempts pn 0 tried history pw out = Inr (history, pw, out)"
| "plan_attempts pn (Suc k) tried history pw out =
    bind_err (plan_turn pn (pn_system pn @ planning_guidance) [] history pw) (\<lambda>(txt, h1, appended, pw1).
      let out1 = out\<lparr>pl_total_turns := pl_total_turns out + 1, pl_plan_attempts := tried + 1,
                     pl_plan_text := txt, pl_plan_steps := extract_numbered_steps txt\<rparr>
      in if pl_plan_steps out1 = [] then Inr (h1, pw1, out1)
         else bind_err (plan_turn pn (pn_system pn) []
                          (h1 @ appended @ [UserMessage (CStr plan_validator_guidance)]) pw1) (\<lambda>(txt2, h2, _, pw2).
           let v = parse_verdict txt2;
               out2 = out1\<lparr>pl_total_turns := pl_total_turns out1 + 1, pl_plan_verdict_met := vd_met v,
                           pl_plan_verdict_reason := vd_reason v\<rparr>
           in if vd_met v \<or> k = 0 then Inr (butlast h2, pw2, out2)
              else plan_attempts pn k (tried + 1) (butlast h2 @ [UserMessage (CStr (replan_nudge (vd_reason v)))]) pw2 out2))"

text \<open>The attempts at one step: \<open>k\<close> are left.\<close>

fun step_attempts ::
  "'w planner \<Rightarrow> nat \<Rightarrow> nat \<Rightarrow> message list \<Rightarrow> 'w plan_world \<Rightarrow> step_run \<Rightarrow> int \<Rightarrow>
   py_error + message list \<times> 'w plan_world \<times> step_run \<times> int" where
  "step_attempts pn i 0 history pw run turns = Inr (history, pw, run, turns)"
| "step_attempts pn i (Suc k) history pw run turns =
    bind_err (plan_turn pn (pn_system pn) (pn_tools pn) history pw) (\<lambda>(txt, h1, appended, pw1).
      bind_err (plan_turn pn (pn_system pn) []
                 (h1 @ appended @ [UserMessage (CStr (verifier_guidance i (sr_step_text run)))]) pw1) (\<lambda>(txt2, h2, _, pw2).
        let v = parse_verdict txt2;
            run' = run\<lparr>sr_attempts := sr_attempts run + 1, sr_final_text := txt,
                       sr_verifier_met := vd_met v, sr_verifier_reason := vd_reason v\<rparr>
        in if vd_met v \<or> k = 0 then Inr (butlast h2, pw2, run', turns + 2)
           else step_attempts pn i k
             (butlast h2 @ [UserMessage (CStr (retry_nudge i (vd_reason v) (sr_step_text run)))]) pw2 run' (turns + 2)))"

fun execute_steps ::
  "'w planner \<Rightarrow> nat \<Rightarrow> nat \<Rightarrow> nat \<Rightarrow> string list \<Rightarrow> message list \<Rightarrow> 'w plan_world \<Rightarrow> int \<Rightarrow>
   py_error + step_run list \<times> int" where
  "execute_steps pn tries n_steps i [] accumulated pw turns = Inr ([], turns)"
| "execute_steps pn tries n_steps i (step # steps) accumulated pw turns =
    bind_err (step_attempts pn i tries (accumulated @ [UserMessage (CStr (step_guidance i n_steps step))]) pw
                \<lparr>sr_step_text = step, sr_attempts = 0, sr_final_text = [], sr_verifier_met = False, sr_verifier_reason = []\<rparr>
                turns) (\<lambda>(accumulated', pw', run, turns').
      bind_err (execute_steps pn tries n_steps (Suc i) steps accumulated' pw' turns') (\<lambda>(runs, turns'').
        Inr (run # runs, turns'')))"

definition format_step_summary :: "nat \<Rightarrow> step_run \<Rightarrow> string" where
  "format_step_summary idx run =
    (let icon = (if sr_verifier_met run then CHR 0x8D else CHR 0x80);
         suffix = ''  '' @ [icon] @ '' '' @ (if sr_verifier_reason run \<noteq> [] then sr_verifier_reason run else ''(no verifier reason)'');
         body = (if sr_final_text run \<noteq> [] then sr_final_text run else ''(no text emitted)'')
     in if 1 < sr_attempts run
        then ''[Step '' @ show_nat idx @ ''] ('' @ [CHR 0xD7] @ show_int (sr_attempts run) @ '') '' @ body @ newline @ suffix
        else ''[Step '' @ show_nat idx @ ''] '' @ body @ newline @ suffix)"

definition plan_summary :: "step_run list \<Rightarrow> string" where
  "plan_summary runs =
    join (newline @ newline) (map (\<lambda>(i, run). format_step_summary (i + 1) run) (enumerate 0 runs))"

definition run_plan_then_execute ::
  "'w planner \<Rightarrow> string \<Rightarrow> message list \<Rightarrow> int \<Rightarrow> int \<Rightarrow> disk \<Rightarrow> 'w \<Rightarrow> py_error + plan_result" where
  "run_plan_then_execute pn user_request history verifier_retry_cap plan_retry_cap d w =
    bind_err (plan_attempts pn (nat (plan_retry_cap + 1)) 0
        (history @ [UserMessage (CStr (''User request: '' @ user_request @ newline @ newline @ ''Produce the plan.''))])
        \<lparr>pw_extra = rc_extra_params (pn_config pn), pw_disk = d, pw_world = w\<rparr> plan_result_init) (\<lambda>(h, pw, out).
      let base = take (length history) h
      in if pl_plan_steps out = []
         then bind_err (plan_turn pn (pn_system pn) (pn_tools pn) (base @ [UserMessage (CStr user_request)]) pw) (\<lambda>(txt, _).
           Inr (out\<lparr>pl_total_turns := pl_total_turns out + 1, pl_fell_back := True, pl_final_text := txt\<rparr>))
         else bind_err (execute_steps pn (nat (verifier_retry_cap + 1)) (length (pl_plan_steps out)) 1 (pl_plan_steps out)
                (base @ [UserMessage (CStr (''User request: '' @ user_request)),
                   AssistantMessage (assistant_text (''Plan:'' @ newline @ pl_plan_text out) (Some ''end_turn''))])
                pw (pl_total_turns out)) (\<lambda>(runs, turns).
           Inr (out\<lparr>pl_step_runs := runs, pl_total_turns := turns, pl_final_text := plan_summary runs\<rparr>)))"

subsection \<open>Every step is tried until it is met\<close>

definition tried_ok :: "int \<Rightarrow> string \<Rightarrow> step_run \<Rightarrow> bool" where
  "tried_ok cap step run \<longleftrightarrow>
    sr_step_text run = step \<and> 1 \<le> sr_attempts run \<and> sr_attempts run \<le> cap + 1 \<and>
    (sr_attempts run < cap + 1 \<longrightarrow> sr_verifier_met run)"

lemma plan_attempts_out:
  "plan_attempts pn k tried h pw out = Inr (h', pw', out') \<Longrightarrow> 0 < k \<Longrightarrow>
   pl_total_turns out' \<le> pl_total_turns out + 2 * int k \<and>
   pl_plan_steps out' = extract_numbered_steps (pl_plan_text out') \<and>
   pl_fell_back out' = pl_fell_back out \<and> pl_step_runs out' = pl_step_runs out \<and>
   tried < pl_plan_attempts out' \<and> pl_plan_attempts out' \<le> tried + int k \<and>
   (pl_plan_attempts out' < tried + int k \<longrightarrow> pl_plan_steps out' = [] \<or> pl_plan_verdict_met out')"
proof (induction k arbitrary: tried h pw out)
  case (Suc k)
  from Suc.prems(1) obtain b1 h1 app pw1 where t1:
    "plan_turn pn (pn_system pn @ planning_guidance) [] h pw = Inr (b1, h1, app, pw1)"
    by (auto simp: bind_err_Inr)
  define out1 where "out1 = out\<lparr>pl_total_turns := pl_total_turns out + 1, pl_plan_attempts := tried + 1,
    pl_plan_text := b1, pl_plan_steps := extract_numbered_steps b1\<rparr>"
  show ?case
  proof (cases "extract_numbered_steps b1 = []")
    case True
    with Suc.prems(1) t1 have "out' = out1" by (simp add: out1_def)
    with True show ?thesis by (simp add: out1_def)
  next
    case False
    with Suc.prems(1) t1 obtain b2 h2 app2 pw2 where t2:
      "plan_turn pn (pn_system pn) [] (h1 @ app @ [UserMessage (CStr plan_validator_guidance)]) pw1 =
        Inr (b2, h2, app2, pw2)"
      by (auto simp: bind_err_Inr)
    define v where "v = parse_verdict b2"
    define out2 where "out2 = out1\<lparr>pl_total_turns := pl_total_turns out1 + 1, pl_plan_verdict_met := vd_met v,
      pl_plan_verdict_reason := vd_reason v\<rparr>"
    show ?thesis
    proof (cases "vd_met v \<or> k = 0")
      case True
      with Suc.prems(1) False t1 t2 have "out' = out2"
        by (auto simp: out1_def out2_def v_def Let_def)
      with True show ?thesis by (auto simp: out2_def out1_def)
    next
      case again: False
      with Suc.prems(1) False t1 t2 have
        "plan_attempts pn k (tried + 1) (butlast h2 @ [UserMessage (CStr (replan_nudge (vd_reason v)))]) pw2 out2 =
          Inr (h', pw', out')"
        by (simp add: out1_def out2_def v_def Let_def)
      from Suc.IH [OF this] again show ?thesis by (auto simp: out2_def out1_def)
    qed
  qed
qed simp

lemma step_attempts_out:
  "step_attempts pn i k h pw run turns = Inr (h', pw', run', turns') \<Longrightarrow> 0 < k \<Longrightarrow>
   turns' = turns + 2 * (sr_attempts run' - sr_attempts run) \<and> sr_step_text run' = sr_step_text run \<and>
   sr_attempts run < sr_attempts run' \<and> sr_attempts run' \<le> sr_attempts run + int k \<and>
   (sr_attempts run' < sr_attempts run + int k \<longrightarrow> sr_verifier_met run')"
proof (induction k arbitrary: h pw run turns)
  case (Suc k)
  from Suc.prems(1) obtain b1 h1 app pw1 where t1:
    "plan_turn pn (pn_system pn) (pn_tools pn) h pw = Inr (b1, h1, app, pw1)"
    by (auto simp: bind_err_Inr)
  with Suc.prems(1) obtain b2 h2 app2 pw2 where t2:
    "plan_turn pn (pn_system pn) [] (h1 @ app @ [UserMessage (CStr (verifier_guidance i (sr_step_text run)))]) pw1 =
      Inr (b2, h2, app2, pw2)"
    by (auto simp: bind_err_Inr)
  define v where "v = parse_verdict b2"
  define run1 where "run1 = run\<lparr>sr_attempts := sr_attempts run + 1, sr_final_text := b1,
    sr_verifier_met := vd_met v, sr_verifier_reason := vd_reason v\<rparr>"
  show ?case
  proof (cases "vd_met v \<or> k = 0")
    case True
    with Suc.prems(1) t1 t2 have "run' = run1" "turns' = turns + 2"
      by (auto simp: run1_def v_def Let_def)
    with True show ?thesis by (auto simp: run1_def)
  next
    case again: False
    with Suc.prems(1) t1 t2 have
      "step_attempts pn i k (butlast h2 @ [UserMessage (CStr (retry_nudge i (vd_reason v) (sr_step_text run)))])
         pw2 run1 (turns + 2) = Inr (h', pw', run', turns')"
      by (simp add: run1_def v_def Let_def)
    from Suc.IH [OF this] again show ?thesis by (auto simp: run1_def)
  qed
qed simp

lemma execute_steps_out:
  "execute_steps pn k n i steps h pw turns = Inr (runs, turns') \<Longrightarrow> 0 < k \<Longrightarrow>
   list_all2 (tried_ok (int k - 1)) steps runs \<and> turns' = turns + 2 * (\<Sum>r\<leftarrow>runs. sr_attempts r)"
proof (induction steps arbitrary: i h pw turns runs turns')
  case (Cons step steps)
  from Cons.prems(1) obtain h1 pw1 run turns1 runs' where
    a: "step_attempts pn i k (h @ [UserMessage (CStr (step_guidance i n step))]) pw
          \<lparr>sr_step_text = step, sr_attempts = 0, sr_final_text = [], sr_verifier_met = False, sr_verifier_reason = []\<rparr>
          turns = Inr (h1, pw1, run, turns1)"
    and e: "execute_steps pn k n (Suc i) steps h1 pw1 turns1 = Inr (runs', turns')" and r: "runs = run # runs'"
    by (auto simp: bind_err_Inr)
  from step_attempts_out [OF a] Cons.prems(2)
  have "tried_ok (int k - 1) step run" "turns1 = turns + 2 * sr_attempts run" by (auto simp: tried_ok_def)
  with Cons.IH [OF e] Cons.prems(2) r show ?case by (simp add: distrib_left)
qed simp

lemma tried_ok_attempts:
  assumes "list_all2 (tried_ok cap) steps runs"
  shows "(\<Sum>r\<leftarrow>runs. sr_attempts r) \<le> (cap + 1) * int (length steps)"
  using assms by (induction rule: list_all2_induct) (auto simp: tried_ok_def distrib_left)

subsection \<open>Verdicts\<close>

text \<open>Only the first letters of a line are looked at: a line that begins with a word such as \<open>Yesterday\<close>
or \<open>Not sure\<close> is a verdict, before the line that states one.\<close>

lemma verdict_of_first_letters:
  "vd_met (parse_verdict (''Yesterday it failed.'' @ newline @ ''NO: nothing was written''))"
  "\<not> vd_met (parse_verdict (''Note: the file is there.'' @ newline @ ''YES: it is complete''))"
  by code_simp+

text \<open>A plain verdict is read as it is written.\<close>

lemma plain_verdict:
  "parse_verdict ''YES: the file is there'' = \<lparr>vd_met = True, vd_reason = ''the file is there''\<rparr>"
  "parse_verdict ''no - try again'' = \<lparr>vd_met = False, vd_reason = ''try again''\<rparr>"
  "parse_verdict [] = \<lparr>vd_met = False, vd_reason = ''(empty verifier reply)''\<rparr>"
  by code_simp+

subsection \<open>The plan is followed\<close>

text \<open>C10. A run that returns has followed its plan. The steps are those read from the text of the last plan,
of which there were between one and \<open>plan_cap + 1\<close>; a plan without steps, and no other, falls back to one
turn on the request. Every step, in order, was tried at least once and at most \<open>verifier_cap + 1\<close> times, and
a step tried less often than that was judged met; two turns go to each attempt, so the number of turns is
bounded.\<close>

theorem plan_is_followed:
  assumes "run_plan_then_execute pn request history verifier_cap plan_cap d w = Inr out"
    and "0 \<le> verifier_cap" and "0 \<le> plan_cap"
  shows "pl_plan_steps out = extract_numbered_steps (pl_plan_text out) \<and>
    1 \<le> pl_plan_attempts out \<and> pl_plan_attempts out \<le> plan_cap + 1 \<and>
    (pl_fell_back out \<longleftrightarrow> pl_plan_steps out = []) \<and>
    list_all2 (tried_ok verifier_cap) (pl_plan_steps out) (pl_step_runs out) \<and>
    pl_total_turns out \<le> 2 * (plan_cap + 1) + 1 + 2 * (verifier_cap + 1) * int (length (pl_plan_steps out))"
proof -
  have caps: "0 < nat (plan_cap + 1)" "0 < nat (verifier_cap + 1)"
    "int (nat (plan_cap + 1)) = plan_cap + 1" "int (nat (verifier_cap + 1)) - 1 = verifier_cap"
    using assms(2,3) by auto
  from assms(1) obtain h pw o1 where p: "plan_attempts pn (nat (plan_cap + 1)) 0
        (history @ [UserMessage (CStr (''User request: '' @ request @ newline @ newline @ ''Produce the plan.''))])
        \<lparr>pw_extra = rc_extra_params (pn_config pn), pw_disk = d, pw_world = w\<rparr> plan_result_init = Inr (h, pw, o1)"
    unfolding run_plan_then_execute_def bind_err_Inr by auto
  note o1 = plan_attempts_out [OF p caps(1), unfolded caps(3)]
  show ?thesis
  proof (cases "pl_plan_steps o1 = []")
    case True
    with assms(1) p obtain b where
      "out = o1\<lparr>pl_total_turns := pl_total_turns o1 + 1, pl_fell_back := True, pl_final_text := b\<rparr>"
      by (auto simp: run_plan_then_execute_def bind_err_Inr Let_def)
    with True o1 show ?thesis by (auto simp: plan_result_init_def)
  next
    case False
    with assms(1) p obtain h0 runs turns where
      e: "execute_steps pn (nat (verifier_cap + 1)) (length (pl_plan_steps o1)) 1 (pl_plan_steps o1) h0 pw
            (pl_total_turns o1) = Inr (runs, turns)"
      and out: "out = o1\<lparr>pl_step_runs := runs, pl_total_turns := turns, pl_final_text := plan_summary runs\<rparr>"
      by (auto simp: run_plan_then_execute_def bind_err_Inr Let_def)
    from execute_steps_out [OF e caps(2), unfolded caps(4)]
    have r: "list_all2 (tried_ok verifier_cap) (pl_plan_steps o1) runs"
      "turns = pl_total_turns o1 + 2 * (\<Sum>r\<leftarrow>runs. sr_attempts r)" by auto
    have "2 * (\<Sum>r\<leftarrow>runs. sr_attempts r) \<le> 2 * ((verifier_cap + 1) * int (length (pl_plan_steps o1)))"
      using tried_ok_attempts [OF r(1)] by linarith
    moreover have "pl_total_turns o1 \<le> 2 * (plan_cap + 1)" using o1 by (simp add: plan_result_init_def)
    ultimately have
      "turns \<le> 2 * (plan_cap + 1) + 1 + 2 * (verifier_cap + 1) * int (length (pl_plan_steps o1))"
      unfolding r(2) mult.assoc by linarith
    with o1 out r(1) False show ?thesis by (simp add: plan_result_init_def)
  qed
qed

text \<open>A plan of one step: it is approved, the step is tried, rejected, tried again and met.\<close>

definition plan_stream :: "request \<Rightarrow> nat \<Rightarrow> event list \<times> nat" where
  "plan_stream rq w =
    ([TextDelta (if w = 0 then ''1. Look outside'' else if w = 3 then ''NO: you guessed''
        else if w = 1 \<or> w = 5 then ''YES: fine'' else ''It rains.''), StopEvent ''end_turn''], w + 1)"

definition demo_planner :: "nat planner" where
  "demo_planner = \<lparr>pn_env = demo_env plan_stream, pn_model = demo_model, pn_api = ''api'', pn_system = ''s'',
     pn_tools = [demo_tool], pn_config = demo_config\<rparr>"

lemma demo_plan:
  "case run_plan_then_execute demo_planner ''Is it dry?'' [] 1 1 [] 0 of
     Inr out \<Rightarrow> pl_plan_steps out = [''Look outside''] \<and> map sr_attempts (pl_step_runs out) = [2] \<and>
       pl_total_turns out = 6
   | Inl e \<Rightarrow> False"
  by code_simp

theorem plan_is_followed_witness:
  "\<exists>out. run_plan_then_execute demo_planner ''Is it dry?'' [] 1 1 [] 0 = Inr out \<and>
     list_all2 (tried_ok 1) [''Look outside''] (pl_step_runs out) \<and> map sr_attempts (pl_step_runs out) = [2]"
proof -
  obtain out where o: "run_plan_then_execute demo_planner ''Is it dry?'' [] 1 1 [] 0 = Inr out"
      "pl_plan_steps out = [''Look outside'']" "map sr_attempts (pl_step_runs out) = [2]"
    using demo_plan by (auto split: sum.splits)
  from plan_is_followed [OF o(1)] o show ?thesis by auto
qed

end
