(* ===== verification/Spec2Isabelle.thy ===== *)
theory Spec2Isabelle
  imports TurnDemo ImagePrune ReplaySanitizer AuthPool Lanes ShellTool Compaction NetGuard FsTools Inbox MemoryIndex CuratedMemory StoreOps PlanExecute
begin

text \<open>
  A verification development for oxenClaw: the part of it that decides what an agent does, from the
  events that a provider streams to the transcript that a turn returns.

  The program. \<open>run_agent_turn\<close> (\<open>src/oxenclaw/pi/run/run.py\<close>) runs one turn of an agent. In every
  iteration it calls the provider (\<open>attempt.py\<close>), retries, fails over to another model or gives up
  when the call fails (\<open>error_classifier.py\<close>, \<open>failover.py\<close>), asks again when the answer is empty
  (\<open>stop_recovery.py\<close>), runs the tools that the answer calls (\<open>agents/tools.py\<close>,
  \<open>pi/hooks.py\<close>, \<open>pi/tool_runtime.py\<close>), shortens or spills their results
  (\<open>tool_result_truncation.py\<close>, \<open>pi/tool_result_storage.py\<close>) and stops when the model loops
  (\<open>arg_loop_detector.py\<close>). Before a call the prompt is brought under the context window
  (\<open>token_estimator.py\<close>, \<open>preemptive_compaction.py\<close>). Around the turn stand the agent, which keeps the
  session and fires the calls that a model wrote as text (\<open>agents/pi_agent.py\<close>), the plan runner, which
  makes many turns of one task (\<open>agents/plan_execute.py\<close>), the tools on files and on the shell with
  their guards, and the stores: sessions, memory and the inbox of saved facts.

  The theories.
  \<^item> \<open>Prelude\<close>: Python's strings, dictionaries and number formats, errors as \<open>py_error + 'a\<close>, the
    locale \<open>ranked_step\<close> of loops with a falling rank. \<open>Texts\<close>: replacing, splitting into lines,
    line ends. \<open>Difflib\<close>: the similarity of \<open>difflib\<close>. \<open>Messages\<close>: the data of \<open>pi/messages.py\<close>,
    \<open>pi/models.py\<close>, \<open>pi/streaming.py\<close> and \<open>pi/tools.py\<close> as records and datatypes.
  \<^item> \<open>Json\<close> and \<open>JsonRepair\<close>: reading and writing of JSON, and \<open>pi/run/json_repair.py\<close>.
  \<^item> \<open>ErrorClassifier\<close>, \<open>Failover\<close>, \<open>Backoff\<close>, \<open>StopRecovery\<close>, \<open>ReplaySanitizer\<close>,
    \<open>TokenBudget\<close>, \<open>ImagePrune\<close>, \<open>Truncation\<close>, \<open>Attempt\<close>, \<open>ArgLoop\<close>: one module of
    \<open>pi/run/\<close> each (\<open>TokenBudget\<close> holds three).
  \<^item> \<open>ToolRegistry\<close>, \<open>ToolRuntime\<close>, \<open>Hooks\<close>, \<open>ResultStorage\<close>, \<open>ToolExec\<close>: the tool side.
  \<^item> \<open>RunLoop\<close> and \<open>Turn\<close>: the stages of \<open>run_agent_turn\<close> on the record \<open>turn_state\<close>, whose fields
    are the local variables of the function. \<open>TurnInv\<close>: the iterations as a step relation and the
    locale \<open>turn_invariant\<close>, whose assumptions say that each stage keeps a property.
    \<open>TurnProps\<close>: its interpretations (frame of the history, budgets, pairing of calls and
    results). \<open>TurnEnd\<close>: the number of provider calls, the exceptions, the last state.
    \<open>TurnDemo\<close>: the concrete turns of the witnesses.
  \<^item> \<open>Transcript\<close>: the dashboard's history, the repair of an interrupted turn, the merging of adjacent
    messages, the chunks of a reply and the opening of a session (\<open>agents/history.py\<close>,
    \<open>incomplete_turn.py\<close>, \<open>message_merge.py\<close>, \<open>plugin_sdk/reply_runtime.py\<close>). \<open>PseudoTool\<close>: tool calls
    written as text (\<open>agents/pseudo_tool.py\<close>). \<open>AgentTurn\<close>: the turn of \<open>PiAgent.handle\<close> with the
    rounds of fired calls, and what it records. \<open>PlanExecute\<close>: planning, attempts at steps and
    verdicts over turns.
  \<^item> \<open>AuthPool\<close>: the rotation of API keys with cooldowns (\<open>pi/auth_pool.py\<close>). \<open>Lanes\<close>: the lanes that
    serialise the turns of a session and cap them over all sessions (\<open>agents/lanes.py\<close>), as steps
    of the event loop. \<open>Approvals\<close>: human approval of tool calls (\<open>approvals/\<close>), as steps of the
    manager, and the gated tools. \<open>Traces\<close>: the traces of such components.
  \<^item> \<open>Regex\<close>: a backtracking matcher for the regular expressions of Python's \<open>re\<close> that the sources use,
    with its declarative meaning. \<open>Whitelist\<close>: the commands that need no approval
    (\<open>approvals/whitelist.py\<close>). \<open>CommandGate\<close>: the patterns for destructive commands
    (\<open>security/command_gate.py\<close>). \<open>ShellTool\<close>: the shell tool behind both, with its argument
    aliases (\<open>ToolArgs\<close>, \<open>tools_pkg/fs_tools.py\<close>, \<open>_arg_aliases.py\<close>) and its registration by the
    gateway.
  \<^item> \<open>FuzzyMatch\<close>: the nine strategies of find and replace (\<open>tools_pkg/fuzzy_match.py\<close>). \<open>FileState\<close>: the
    registry of reads and writes (\<open>file_state.py\<close>). \<open>FsTools\<close>: \<open>read_file\<close>, \<open>write_file\<close> and \<open>edit\<close> on
    a disk of files, directories and links (\<open>fs_tools.py\<close>).
  \<^item> \<open>Compaction\<close>: the summary of old messages (\<open>pi/compaction.py\<close>, \<open>pi/tokens.py\<close>), with the
    boundary that keeps calls and results together and the pipeline that repairs a cut history.
    \<open>Sessions\<close>: the two session managers, with session objects on a heap in memory and with the rows
    of the SQLite tables (\<open>pi/session.py\<close>, \<open>pi/persistence.py\<close>). \<open>StoreOps\<close>: pruning, migrations,
    the lock and the cache of that store (\<open>pi/store_ops.py\<close>).
  \<^item> \<open>MemoryCorpus\<close>: chunking and reading of Markdown files. \<open>MemoryIndex\<close>: the walk over the files and
    the synchronisation of the tables. \<open>MemoryRank\<close>: search, merging and re-ranking. \<open>Inbox\<close>: the
    file of saved facts with its duplicates. \<open>CuratedMemory\<close>: promoted facts (all \<open>memory/\<close>).
  \<^item> \<open>NetPolicy\<close> and \<open>NetGuard\<close>: the policy of outbound requests, the classification of addresses and
    the resolver that pins them (\<open>security/net/policy.py\<close>, \<open>ssrf.py\<close>, \<open>pinning.py\<close>).

  Interfaces. \<open>ranked_step\<close> is interpreted on the two failover walks, \<open>text_clip\<close> on the two routines
  that cut a text, \<open>tool_lookup\<close> on the registry and on the run loop's own lookup,
  \<open>turn_invariant\<close> on four invariants of a turn, \<open>trace_invariant\<close> on the traces of the lanes, of
  the approvals, of the resolver, of the file registry and of the file tools, \<open>linewise\<close> on the two
  normalisations that work line by line, \<open>file_table\<close> on the tables of the memory index, and
  \<open>session_manager\<close> on the manager in memory and on the one with tables.

  Conventions. Python's str is \<open>string\<close>: its characters are eight-bit, code points above 255 that the
  code uses as markers are renamed into the C1 range (\<open>Prelude\<close>). Python's int is \<open>int\<close>, float is
  \<open>real\<close>, without rounding. The clock, the random source, SHA-1, the provider, the tools and the
  hooks are parameters that act on a world of any type. Parallel tool calls are taken in the order
  of the requests. Exceptions are values: those that the modelled code raises are constructors of
  \<open>py_error\<close>, and what a provider's stream raises is \<open>env_stream_raises\<close>. Objects that are shared and changed
  in place are written as values where one holder has them, and as references into a heap for the
  sessions, which several holders share.

  Bounds. \<open>attempt_loop\<close> and \<open>spill_loop\<close> are total: their measures are the cycles, the position in
  the chain and the two retry budgets, and the number of outputs that may still be spilled.
  \<open>turn_loop\<close> runs on the number of iterations that are left. The JSON scanner takes fuel from the
  length of the text; \<open>json_round_trip\<close> shows that it is enough for every text the writer produces.
  \<open>chunk_loop\<close>, the windows of the chunker and the scan for fenced blocks shorten the text that is left.
  Fired calls take at most three rounds, and the plan runner has caps on the plans and on the
  attempts at each step.

  Not modelled. Logging and metrics; the time a tool takes; the cancellation of a task; what a
  rerun that raised has left behind in the world; the SQL engine, whose statements are written as their
  effect on the rows; servers, processes and user interfaces, which the sources reach through
  libraries; the components that are listed as such in the manifest.
\<close>

section \<open>Properties of a whole turn\<close>

text \<open>The steps that a failover walk can make before its chain or its cycles are used up.\<close>

definition walk_budget :: "'w runtime_config \<Rightarrow> nat" where
  "walk_budget cfg =
    (let n = 1 + length (rc_failover_chain cfg)
     in if rc_failover_cycle cfg then n * n + (n - 1) else n - 1)"

lemma initial_rank:
  assumes "tc_config ctx = cfg" and "tc_chain ctx = m_id m # rc_failover_chain cfg"
  shows "failover_rank ctx (initial_state m h cfg d w) = walk_budget cfg"
  using assms
  by (simp add: failover_rank_def walk_budget_def initial_state_def cyclic_rank_def Let_def)

text \<open>C1. The provider calls of a turn are bounded: per iteration one call, the silent retries and the
  retries, and over the whole turn one more for each step of the failover walk.\<close>

theorem turn_bounds_calls:
  assumes "run_agent_turn env m api system h tools cfg d w = Finished r st"
  shows "length (tu_attempts r) \<le>
    nat (rc_max_tool_iterations cfg) * calls_per_iteration cfg + walk_budget cfg"
proof -
  obtain ctx where c: "ctx = turn_context env m api system tools cfg" "tc_config ctx = cfg"
      "tc_chain ctx = m_id m # rc_failover_chain cfg"
      "run_agent_turn env m api system h tools cfg d w =
        turn_loop ctx (nat (rc_max_tool_iterations cfg)) (initial_state m h cfg d w)"
    by (rule run_agent_turn_loop)
  from turn_calls [OF assms [unfolded c(4)] initial_ok(1) [OF c(1)]] initial_rank [OF c(2,3)] c(2)
  show ?thesis by (simp add: initial_state_def)
qed

theorem turn_bounds_calls_witness:
  "\<exists>r st. demo_turn demo_stream = Finished r st \<and>
     length (tu_attempts r) \<le>
       nat (rc_max_tool_iterations demo_config) * calls_per_iteration demo_config +
       walk_budget demo_config"
proof -
  obtain r st where d: "demo_turn demo_stream = Finished r st" using demo_tool_turn by blast
  from turn_bounds_calls [OF d [unfolded demo_turn_def]] d show ?thesis by blast
qed

text \<open>C2. Tool calls and their results are paired in the transcript of a turn: an answer with tool calls,
  whatever its stop reason, is followed at once by the results of exactly its calls, in their order, and no
  results stand anywhere else. The one exception is the last message, the final answer of the turn, when
  it came from a failed attempt or its stop reason is not one of a tool call: then the calls in it
  were not run and have no results.\<close>

theorem turn_pairs_tool_results:
  assumes "run_agent_turn env m api system h tools cfg d w = Finished r st"
  shows "all_answered (tu_appended r) \<or>
    (tu_appended r \<noteq> [] \<and> last (tu_appended r) = AssistantMessage (tu_final_message r) \<and>
     all_answered (butlast (tu_appended r)) \<and>
     (tu_stopped_reason r = ''error'' \<or>
      am_stop_reason (tu_final_message r) \<notin> {Some ''tool_use'', Some ''tool_calls''}))"
proof -
  obtain ctx where c: "ctx = turn_context env m api system tools cfg"
      "run_agent_turn env m api system h tools cfg d w =
        turn_loop ctx (nat (rc_max_tool_iterations cfg)) (initial_state m h cfg d w)"
    by (rule run_agent_turn_loop)
  from turn_transcript [OF assms [unfolded c(2)] initial_ok(4) [OF c(1)]] show ?thesis
    by (simp add: ends_paired_def)
qed

theorem turn_pairs_tool_results_witness:
  "\<exists>r st. demo_turn demo_stream = Finished r st \<and> length (tu_appended r) = 3 \<and>
     all_answered (tu_appended r)"
proof -
  obtain r st where d: "demo_turn demo_stream = Finished r st" "length (tu_appended r) = 3"
      "tool_uses (tu_final_message r) = []"
    using demo_tool_turn by blast
  have "all_answered [AssistantMessage (tu_final_message r)]" using d(3) by simp
  with turn_pairs_tool_results [OF d(1) [unfolded demo_turn_def]] have "all_answered (tu_appended r)"
    by (metis append_butlast_last_id paired_append)
  with d show ?thesis by blast
qed


text \<open>C4. The books of a turn. The caller's history is untouched, or it is what one pass of the truncation of
  tool results makes of it: the results longer than 1024 characters are cut there and marked, everything
  else is the same; every recovery stayed within its budget; and the model in use is the caller's or one the registry gives for an id of the
  failover chain.\<close>

theorem turn_keeps_books:
  assumes "run_agent_turn env m api system h tools cfg d w = Finished r st"
  shows "(ts_history st = h \<or> (\<exists>n. truncate_tool_results 1024 h = Inr (ts_history st, n))) \<and>
    ts_self_heals st \<le> max_self_heals cfg \<and>
    ts_recoveries_used st \<le> max 0 (rc_stop_reason_recovery_attempts cfg) \<and>
    ts_length_recoveries_used st \<le> max 0 (rc_length_recovery_attempts cfg) \<and>
    (ts_model st = m \<or>
     (\<exists>reg i. rc_failover_registry cfg = Some reg \<and> i < 1 + length (rc_failover_chain cfg) \<and>
        reg ((m_id m # rc_failover_chain cfg) ! i) = Some (ts_model st)))"
proof -
  obtain ctx where c: "ctx = turn_context env m api system tools cfg" "tc_config ctx = cfg"
      "tc_chain ctx = m_id m # rc_failover_chain cfg"
      "run_agent_turn env m api system h tools cfg d w =
        turn_loop ctx (nat (rc_max_tool_iterations cfg)) (initial_state m h cfg d w)"
    by (rule run_agent_turn_loop)
  note loop = assms [unfolded c(4)]
  have "position_ok ctx m st" "budgets_ok ctx st" "history_kept h st"
    by (rule turn_books [OF loop] initial_ok [OF c(1)])+
  then show ?thesis
    by (auto simp: position_ok_def budgets_ok_def history_kept_def c(2,3) Let_def)
qed

theorem turn_keeps_books_witness:
  "\<exists>r st. demo_turn demo_stream = Finished r st \<and> ts_history st = [] \<and>
     ts_recoveries_used st \<le> 1 \<and> ts_model st = demo_model"
proof -
  obtain r st where d: "demo_turn demo_stream = Finished r st" using demo_tool_turn by blast
  from turn_keeps_books [OF d [unfolded demo_turn_def]]
  have "ts_history st = []" "ts_recoveries_used st \<le> 1" "ts_model st = demo_model"
    by (auto simp: demo_config_def truncate_tool_results_def)
  with d show ?thesis by blast
qed

lemma text_no_recovery:
  assumes "list_ex visible_text (am_content a)"
  shows "\<not> is_recoverable_empty a" and "\<not> is_length_truncation a"
  using assms recovery_needs_silence [of a] by (auto simp: list_ex_iff list_all_iff)

lemma preemptive_initial:
  assumes "preemptive_compaction ctx (initial_state m h cfg d w) = Inr st1"
  shows "ts_world st1 = w \<and> ts_attempts st1 = [] \<and> ts_appended st1 = [] \<and> ts_executions st1 = [] \<and>
    ts_usage_total st1 = [] \<and> history_kept h st1"
proof -
  have "st1 = initial_state m h cfg d w \<or> truncate_working (initial_state m h cfg d w) = Inr st1"
    using assms by (auto simp: preemptive_compaction_def Let_def split: if_splits compaction_route.splits)
  then show ?thesis
  proof
    assume t: "truncate_working (initial_state m h cfg d w) = Inr st1"
    then have "ts_world st1 = w \<and> ts_attempts st1 = [] \<and> ts_executions st1 = [] \<and> ts_usage_total st1 = []"
      by (rule truncate_working_effect) (simp add: initial_state_def)
    moreover have "ts_appended st1 = []" using truncate_working_frames [OF t] by (simp add: initial_state_def)
    moreover have "history_kept h st1"
      by (rule history_kept_truncate [OF _ t]) (simp add: history_kept_def initial_state_def)
    ultimately show ?thesis by simp
  qed (simp add: initial_state_def history_kept_def)
qed

text \<open>C5. A plain answer. When the first call of a turn, made after the preemptive truncation of the history
  where that is configured and due, gives visible text and no tool call, the turn returns
  that answer after one call: no retry, no nudge, nothing else appended, and the history is the one
  that was sent.\<close>

theorem turn_answers_directly:
  assumes "\<not> env_aborted env w" and "0 < rc_max_tool_iterations cfg"
    and "preemptive_compaction (turn_context env m api system tools cfg) (initial_state m h cfg d w) = Inr sent"
    and "attempt_request = next_request (turn_context env m api system tools cfg) sent"
    and "stream_simple env attempt_request w = Inr (events, w')"
    and "run_attempt events = Inr result" and "ar_error result = None"
    and "tool_uses (ar_message result) = []"
    and "list_ex visible_text (am_content (ar_message result))"
  shows "\<exists>r st. run_agent_turn env m api system h tools cfg d w = Finished r st \<and>
    tu_final_message r = ar_message result \<and> tu_attempts r = [result] \<and>
    tu_appended r = [AssistantMessage (ar_message result)] \<and> tu_executions r = [] \<and>
    tu_stopped_reason r = nonempty_or (am_stop_reason (ar_message result)) ''end_turn'' \<and>
    ts_history st = ts_history sent \<and> ts_world st = w'"
proof -
  define ctx where "ctx = turn_context env m api system tools cfg"
  define st0 where "st0 = initial_state m h cfg d w"
  have world: "ts_world st0 = w" by (simp add: st0_def initial_state_def)
  note sent = preemptive_initial [OF assms(3)]
  have ctx: "tc_env ctx = env" "tc_config ctx = cfg"
    by (simp_all add: ctx_def turn_context_def)
  define st1 where "st1 = sent\<lparr>ts_attempts := [result], ts_world := w'\<rparr>"
  have call: "call_provider ctx sent = Inr (result, st1)"
    using assms(4,5,6) sent unfolding st1_def ctx_def [symmetric]
    by (simp add: call_provider_def ctx)
  have "attempt_loop ctx 0 0 sent = Inr (Answered result, st1)"
    by (subst attempt_loop.simps) (simp add: attempt_pass_answered [OF call assms(7)])
  then have it: "iteration ctx st0 = handle_answer ctx result st1"
    using assms(1,3) by (simp add: iteration_def ctx world ctx_def [symmetric] st0_def [symmetric])
  have "tool_requests (ar_message result) = []" using assms(8) by (simp add: tool_requests_Nil)
  with it have "\<exists>r st. iteration ctx st0 = Finished r st \<and> tu_final_message r = ar_message result \<and>
      tu_attempts r = [result] \<and> tu_appended r = [AssistantMessage (ar_message result)] \<and>
      tu_executions r = [] \<and>
      tu_stopped_reason r = nonempty_or (am_stop_reason (ar_message result)) ''end_turn'' \<and>
      ts_history st = ts_history sent \<and> ts_world st = w'"
    using sent
    by (simp add: handle_answer_def no_tool_reply_def text_no_recovery [OF assms(9)] finish_def
        append_message_def Let_def st1_def)
  moreover obtain n where "nat (rc_max_tool_iterations cfg) = Suc n"
    using assms(2) by (metis gr0_implies_Suc zero_less_nat_eq)
  ultimately show ?thesis
    by (auto simp: run_agent_turn_def ctx_def [symmetric] st0_def [symmetric])
qed

theorem turn_answers_directly_witness:
  fixes say :: "request \<Rightarrow> nat \<Rightarrow> event list \<times> nat"
  defines "say \<equiv> \<lambda>rq w. ([TextDelta ''hi'', StopEvent ''end_turn''], w + 1)"
  shows "\<exists>r st. run_agent_turn (demo_env say) demo_model ''api'' None [] [demo_tool]
       (demo_config\<lparr>rc_preemptive_compaction := True\<rparr>) [] 7 = Finished r st \<and>
     length (tu_attempts r) = 1 \<and> am_content (tu_final_message r) = [TextContent ''hi''] \<and>
     ts_world st = 8"
proof -
  let ?cfg = "demo_config\<lparr>rc_preemptive_compaction := True\<rparr>"
  let ?ctx = "turn_context (demo_env say) demo_model ''api'' None [demo_tool] ?cfg"
  let ?st = "initial_state demo_model [] ?cfg [] (7 :: nat)"
  have "case run_attempt [TextDelta ''hi'', StopEvent ''end_turn''] of
      Inr a \<Rightarrow> ar_error a = None \<and> am_content (ar_message a) = [TextContent ''hi'']
    | Inl e \<Rightarrow> False"
    by code_simp
  then obtain a where a: "run_attempt [TextDelta ''hi'', StopEvent ''end_turn''] = Inr a"
      "ar_error a = None" "am_content (ar_message a) = [TextContent ''hi'']"
    by (auto split: sum.splits)
  have "list_ex visible_text [TextContent ''hi'']" by code_simp
  with a(3) have vis: "list_ex visible_text (am_content (ar_message a))" by simp
  have "cd_route (decide None [] 32000 (85 / 100) 1024 (chars_per_token_for (Some ''m0''))) = NOOP" by code_simp
  then have pre: "preemptive_compaction ?ctx ?st = Inr ?st"
    by (simp add: preemptive_compaction_def turn_context_def initial_state_def working_def demo_config_def demo_model_def)
  have call: "stream_simple (demo_env say) (next_request ?ctx ?st) 7 =
      Inr ([TextDelta ''hi'', StopEvent ''end_turn''], 8)"
    by (simp add: demo_stream_simple initial_state_def demo_model_def say_def)
  have misc: "\<not> env_aborted (demo_env say) 7" "0 < rc_max_tool_iterations ?cfg" "tool_uses (ar_message a) = []"
    using a(3) by (simp_all add: demo_env_def demo_config_def tool_uses_def)
  from turn_answers_directly [OF misc(1,2) pre refl call a(1,2) misc(3) vis] a(3)
  show ?thesis by auto
qed

text \<open>C6. Silent retries recover. When the next \<open>k\<close> calls fail with retryable errors before any text was
  emitted, \<open>k\<close> is within the budget of silent retries, and the call after them succeeds, the loop
  returns that answer, after sleeping before each new call and without spending a retry, a
  failover or a compression.\<close>

theorem silent_retries_recover:
  assumes "int k \<le> max_silent_retries (tc_config ctx)"
    and "\<forall>i < k. \<exists>err. call_provider ctx (S i) = Inr (res i, T i) \<and> ar_error (res i) = Some err \<and>
      ev_retryable err \<and> \<not> ar_text_emitted (res i) \<and>
      S (Suc i) = retry_sleep ctx (int i + 1) (ev_retry_after err) (T i)"
    and "call_provider ctx (S k) = Inr (answer, st)" and "ar_error answer = None"
  shows "attempt_loop ctx 0 0 (S 0) = Inr (Answered answer, st)"
proof -
  have steps: "attempt_loop ctx 0 0 (S 0) = attempt_loop ctx 0 (int j) (S j)" if "j \<le> k" for j
    using that
  proof (induction j)
    case 0
    show ?case by simp
  next
    case (Suc j)
    then obtain err where call: "call_provider ctx (S j) = Inr (res j, T j)"
      and err: "ar_error (res j) = Some err" "ev_retryable err" "\<not> ar_text_emitted (res j)"
      and next_state: "S (Suc j) = retry_sleep ctx (int j + 1) (ev_retry_after err) (T j)"
      using assms(2) by (meson Suc_le_lessD)
    have "attempt_pass ctx 0 (int j) (S j) = Again 0 (int j + 1) (S (Suc j))"
      using attempt_pass_error [OF call err(1) refl refl, of 0 "int j"] err Suc.prems assms(1)
        next_state by simp
    then have "attempt_loop ctx 0 (int j) (S j) = attempt_loop ctx 0 (int (Suc j)) (S (Suc j))"
      by (subst attempt_loop.simps) (simp add: add.commute)
    with Suc show ?case by simp
  qed
  have "attempt_loop ctx 0 (int k) (S k) = Inr (Answered answer, st)"
    by (subst attempt_loop.simps) (simp add: attempt_pass_answered [OF assms(3,4)])
  with steps [OF order_refl] show ?thesis by (rule trans)
qed

definition demo_ctx :: "(request \<Rightarrow> nat \<Rightarrow> event list \<times> nat) \<Rightarrow> nat turn_ctx" where
  "demo_ctx stream = turn_context (demo_env stream) demo_model ''api'' None [demo_tool] demo_config"

definition demo_state :: "nat turn_state" where
  "demo_state = initial_state demo_model [] demo_config [] 0"

theorem silent_retries_recover_witness:
  fixes flaky :: "request \<Rightarrow> nat \<Rightarrow> event list \<times> nat"
  defines "flaky \<equiv> \<lambda>rq w. (if w = 0 then [ErrorEvent (demo_error True)]
    else [TextDelta ''hi'', StopEvent ''end_turn''], w + 1)"
  shows "\<exists>answer st. attempt_loop (demo_ctx flaky) 0 0 demo_state = Inr (Answered answer, st) \<and>
    ts_world st = 2"
proof -
  let ?ctx = "demo_ctx flaky"
  have "case run_attempt [ErrorEvent (demo_error True)] of
      Inr a \<Rightarrow> ar_error a = Some (demo_error True) \<and> \<not> ar_text_emitted a | Inl e \<Rightarrow> False"
    by code_simp
  then obtain a where a: "run_attempt [ErrorEvent (demo_error True)] = Inr a"
      "ar_error a = Some (demo_error True)" "\<not> ar_text_emitted a"
    by (auto split: sum.splits)
  have "case run_attempt [TextDelta ''hi'', StopEvent ''end_turn''] of
      Inr b \<Rightarrow> ar_error b = None | Inl e \<Rightarrow> False"
    by code_simp
  then obtain b where b: "run_attempt [TextDelta ''hi'', StopEvent ''end_turn''] = Inr b" "ar_error b = None"
    by (auto split: sum.splits)
  let ?t = "demo_state\<lparr>ts_attempts := [a], ts_world := 1\<rparr>"
  let ?s = "retry_sleep ?ctx 1 None ?t"
  let ?u = "?s\<lparr>ts_attempts := [a, b], ts_world := 2\<rparr>"
  have env: "tc_env ?ctx = demo_env flaky" "env_sleep (demo_env flaky) = (\<lambda>d w. w)"
    by (simp_all add: demo_ctx_def turn_context_def demo_env_def)
  have flaky: "flaky rq 0 = ([ErrorEvent (demo_error True)], 1)"
      "flaky rq 1 = ([TextDelta ''hi'', StopEvent ''end_turn''], 2)" for rq
    by (simp_all add: flaky_def)
  have start: "ts_world demo_state = 0" "ts_attempts demo_state = []" "m_provider (ts_model demo_state) = ''p''"
    by (simp_all add: demo_state_def initial_state_def demo_model_def)
  have first: "call_provider ?ctx demo_state = Inr (a, ?t)"
    by (simp add: call_provider_def env start flaky a demo_stream_simple)
  have "ts_world ?s = 1" "ts_attempts ?s = [a]" "m_provider (ts_model ?s) = ''p''"
    by (simp_all add: retry_sleep_def sleep_for_def env start)
  then have second: "call_provider ?ctx ?s = Inr (b, ?u)"
    by (simp add: call_provider_def env flaky b demo_stream_simple del: One_nat_def)
  have budget: "int 1 \<le> max_silent_retries (tc_config ?ctx)" by (simp add: max_silent_retries_def)
  let ?S = "\<lambda>i :: nat. if i = 0 then demo_state else ?s"
  have fails: "\<forall>i < 1. \<exists>err. call_provider ?ctx (?S i) = Inr (a, ?t) \<and> ar_error a = Some err \<and>
      ev_retryable err \<and> \<not> ar_text_emitted a \<and>
      ?S (Suc i) = retry_sleep ?ctx (int i + 1) (ev_retry_after err) ?t"
    using first a by (simp add: demo_error_def)
  have answers: "call_provider ?ctx (?S 1) = Inr (b, ?u)" using second by simp
  from silent_retries_recover [of 1 ?ctx ?S "\<lambda>i. a" "\<lambda>i. ?t", OF budget fails answers b(2)]
  show ?thesis by auto
qed

text \<open>C7. Failures are surfaced late. The error that ends a turn is the one of its last call, and when the
  classifier calls it retryable, the loop has made at least the configured number of retries: more calls than
  that number, the first one included.\<close>

theorem surfaced_failures_were_retried:
  assumes "attempt_loop ctx 0 0 st = Inr (Terminal result, st')"
  shows "\<exists>err. ar_error result = Some err \<and> last (ts_attempts st') = result \<and>
    (c_retryable (classify_api_error (Some err) None [] None None None) \<longrightarrow>
       length (ts_attempts st) + nat (rc_max_retries (tc_config ctx)) < length (ts_attempts st'))"
  by (rule terminal_spent [OF assms])

theorem surfaced_failures_were_retried_witness:
  defines "ctx \<equiv> (demo_ctx (\<lambda>rq w. ([TextDelta ''hi'', ErrorEvent (demo_error True)], w + 1)))
      \<lparr>tc_config := demo_config\<lparr>rc_max_retries := 1\<rparr>\<rparr>"
  shows "\<exists>result st. attempt_loop ctx 0 0 demo_state = Inr (Terminal result, st) \<and>
    (\<exists>err. ar_error result = Some err \<and> last (ts_attempts st) = result \<and>
       (c_retryable (classify_api_error (Some err) None [] None None None) \<longrightarrow>
          1 < length (ts_attempts st)))"
proof -
  have "case attempt_loop ctx 0 0 demo_state of Inr (Terminal result, st) \<Rightarrow> True | _ \<Rightarrow> False"
    unfolding ctx_def by code_simp
  then obtain result st where e: "attempt_loop ctx 0 0 demo_state = Inr (Terminal result, st)"
    by (auto split: sum.splits attempt_end.splits)
  have "tc_config ctx = demo_config\<lparr>rc_max_retries := 1\<rparr>" "ts_attempts demo_state = []"
    by (simp_all add: ctx_def demo_state_def initial_state_def)
  with surfaced_failures_were_retried [OF e] e show ?thesis by auto
qed

end
